(* ===== verification/Prelude.thy ===== *)
theory Prelude
  imports Main "HOL-Library.Word" "HOL-Library.Monad_Syntax" "HOL-Library.Signed_Division"
begin

text \<open>
  Shared vocabulary of the development.

  The integer types of include/tipos.h are words of their width. A C array is a list, and an
  access to it goes through \<open>aget\<close>, \<open>aput\<close> or \<open>amod\<close>, whose result is \<open>None\<close> when the index is
  out of the bounds of the array: C leaves such an access undefined, so the model stops there
  instead of inventing a value. All operations of the kernel model that touch an array live in
  the option monad for that reason, and "the operation returns \<open>Some\<close>" is the statement that
  it stays inside its arrays.
\<close>

unbundle bit_operations_syntax

type_synonym u8 = "8 word"
type_synonym u16 = "16 word"
type_synonym u32 = "32 word"
type_synonym pid = u32

text \<open>The library's collection of array laws.\<close>

named_theorems array_simps "reads of arrays after writes"

section \<open>Arrays\<close>

definition aget :: "'a list \<Rightarrow> u32 \<Rightarrow> 'a option" where
  "aget xs i = (if unat i < length xs then Some (xs ! unat i) else None)"

definition aput :: "'a list \<Rightarrow> u32 \<Rightarrow> 'a \<Rightarrow> 'a list option" where
  "aput xs i v = (if unat i < length xs then Some (xs[unat i := v]) else None)"

definition amod :: "'a list \<Rightarrow> u32 \<Rightarrow> ('a \<Rightarrow> 'a) \<Rightarrow> 'a list option" where
  "amod xs i f = (if unat i < length xs then Some (xs[unat i := f (xs ! unat i)]) else None)"

text \<open>The total versions, used in proofs once an index is known to be in bounds.\<close>

definition rd :: "'a list \<Rightarrow> u32 \<Rightarrow> 'a" where
  "rd xs i = xs ! unat i"

definition upd :: "'a list \<Rightarrow> u32 \<Rightarrow> ('a \<Rightarrow> 'a) \<Rightarrow> 'a list" where
  "upd xs i f = xs[unat i := f (xs ! unat i)]"

definition inb :: "'a list \<Rightarrow> u32 \<Rightarrow> bool" where
  "inb xs i \<longleftrightarrow> unat i < length xs"

lemma aget_in [array_simps]: "inb xs i \<Longrightarrow> aget xs i = Some (rd xs i)"
  by (simp add: aget_def inb_def rd_def)

lemma amod_in [array_simps]: "inb xs i \<Longrightarrow> amod xs i f = Some (upd xs i f)"
  by (simp add: amod_def inb_def upd_def)

lemma aput_in [array_simps]: "inb xs i \<Longrightarrow> aput xs i v = Some (upd xs i (\<lambda>_. v))"
  by (simp add: aput_def inb_def upd_def)

lemma aget_out: "\<not> inb xs i \<Longrightarrow> aget xs i = None"
  by (simp add: aget_def inb_def)

lemma amod_out: "\<not> inb xs i \<Longrightarrow> amod xs i f = None"
  by (simp add: amod_def inb_def)

lemma aput_out: "\<not> inb xs i \<Longrightarrow> aput xs i v = None"
  by (simp add: aput_def inb_def)

lemma inb_upd [array_simps]: "inb (upd xs i f) j = inb xs j"
  by (simp add: inb_def upd_def)

lemma length_upd [array_simps, simp]: "length (upd xs i f) = length xs"
  by (simp add: upd_def)

lemma rd_upd [array_simps]:
  "inb xs i \<Longrightarrow> rd (upd xs i f) j = (if i = j then f (rd xs j) else rd xs j)"
  by (auto simp: rd_def upd_def inb_def nth_list_update unsigned_word_eqI)

lemma rd_upd_same: "inb xs i \<Longrightarrow> rd (upd xs i f) i = f (rd xs i)"
  by (simp add: rd_upd)

lemma rd_upd_other: "i \<noteq> j \<Longrightarrow> rd (upd xs i f) j = rd xs j"
  by (metis nth_list_update_neq rd_def unsigned_word_eqI upd_def)

lemma aget_Some_iff: "aget xs i = Some v \<longleftrightarrow> inb xs i \<and> v = rd xs i"
  by (auto simp: aget_def inb_def rd_def)

lemma amod_Some_iff: "amod xs i f = Some ys \<longleftrightarrow> inb xs i \<and> ys = upd xs i f"
  by (auto simp: amod_def inb_def upd_def)

lemma aput_Some_iff: "aput xs i v = Some ys \<longleftrightarrow> inb xs i \<and> ys = upd xs i (\<lambda>_. v)"
  by (auto simp: aput_def inb_def upd_def)

lemmas array_inversion = aget_Some_iff amod_Some_iff aput_Some_iff

lemma map_upd_same: "(\<And>x. f (g x) = f x) \<Longrightarrow> map f (upd xs i g) = map f xs"
proof (rule nth_equalityI)
  fix j assume f: "\<And>x. f (g x) = f x" and j: "j < length (map f (upd xs i g))"
  then show "map f (upd xs i g) ! j = map f xs ! j"
    by (cases "unat i = j") (simp_all add: upd_def)
qed simp

lemma inb_length: "length xs = n \<Longrightarrow> inb xs i \<longleftrightarrow> unat i < n"
  by (simp add: inb_def)

section \<open>Words\<close>

lemma minus_one_not_inb [simp]: "length xs < 4294967295 \<Longrightarrow> \<not> inb xs (- 1)"
  by (simp add: inb_def unsigned_minus_1_eq_mask mask_eq_exp_minus_1)

lemma inb_not_minus_one: "inb xs p \<Longrightarrow> length xs < 4294967295 \<Longrightarrow> p \<noteq> - 1"
  by auto

lemma sint_small: "unat (w :: u32) < 2 ^ 31 \<Longrightarrow> sint w = int (unat w)"
proof -
  assume w: "unat w < 2 ^ 31"
  have u: "uint w = int (unat w)" by (rule uint_nat)
  then have "uint w < 2 ^ 31" using w by (metis of_nat_less_iff of_nat_numeral of_nat_power)
  moreover have "- (2 ^ 31) \<le> uint w" by (rule order_trans [OF _ uint_ge_0]) simp
  ultimately have "signed_take_bit 31 (uint w) = uint w" by (intro signed_take_bit_int_eq_self)
  then show "sint w = int (unat w)" by (simp add: sint_uint)
qed

lemma unat_u32: "unat (w :: u32) < 2 ^ 32"
  using unsigned_less [of w] by simp

text \<open>Signed comparison and division of words below \<open>2 ^ 31\<close>, and powers that do not wrap.\<close>

lemma sle_small: "unat (a :: u32) < 2 ^ 31 \<Longrightarrow> unat (b :: u32) < 2 ^ 31 \<Longrightarrow> a \<le>s b \<longleftrightarrow> unat a \<le> unat b"
  unfolding word_sle_eq by (simp only: sint_small of_nat_le_iff)

lemma sdiv_nat: "int m sdiv int n = int (m div n)"
  by (cases "m = 0"; cases "n = 0") (simp_all add: signed_divide_int_def zdiv_int)

lemma word_of_int_nat: "word_of_int (int n) = of_nat n"
  by simp

lemma sdiv_small:
  "unat (a :: u32) < 2 ^ 31 \<Longrightarrow> unat (b :: u32) < 2 ^ 31 \<Longrightarrow> word_of_int (sint a sdiv sint b) = a div b"
  by (simp only: sint_small sdiv_nat word_of_int_nat word_arith_nat_div)

lemma unat_power: "unat (b :: u32) ^ n < 2 ^ 32 \<Longrightarrow> unat (b ^ n) = unat b ^ n"
proof -
  assume "unat b ^ n < 2 ^ 32"
  then have "unat (of_nat (unat b ^ n) :: u32) = unat b ^ n" by (subst unat_of_nat) simp
  then show "unat (b ^ n) = unat b ^ n" by simp
qed

section \<open>Counting loops\<close>

text \<open>\<open>for_range i n body s\<close> is \<open>for (; i < n; i++) body\<close> over a state that may fault.\<close>

function for_range :: "nat \<Rightarrow> nat \<Rightarrow> (nat \<Rightarrow> 's \<Rightarrow> 's option) \<Rightarrow> 's \<Rightarrow> 's option" where
  "for_range i n f s = (if i < n then do { s \<leftarrow> f i s; for_range (Suc i) n f s } else Some s)"
  by pat_completeness auto
termination
  by (relation "measure (\<lambda>(i, n, f, s). n - i)") auto

declare for_range.simps [simp del]

lemma for_range_done [simp]: "n \<le> i \<Longrightarrow> for_range i n f s = Some s"
  by (simp add: for_range.simps [of i n])

lemma for_range_step: "i < n \<Longrightarrow> for_range i n f s = do { s \<leftarrow> f i s; for_range (Suc i) n f s }"
  by (simp add: for_range.simps [of i n])

text \<open>The rule of such a loop: an invariant indexed by the counter.\<close>

lemma for_range_rule:
  fixes inv :: "nat \<Rightarrow> 's \<Rightarrow> bool"
  assumes "inv i s" and "i \<le> n"
    and "\<And>j s. i \<le> j \<Longrightarrow> j < n \<Longrightarrow> inv j s \<Longrightarrow> \<exists>s'. f j s = Some s' \<and> inv (Suc j) s'"
  shows "\<exists>s'. for_range i n f s = Some s' \<and> inv n s'"
  using assms
proof (induction i n f s rule: for_range.induct)
  case (1 i n f s)
  show ?case
  proof (cases "i < n")
    case True
    then obtain s1 where "f i s = Some s1" "inv (Suc i) s1" using "1.prems" by blast
    with "1.IH" [OF True this(1)] "1.prems" True show ?thesis
      by (auto simp: for_range_step)
  next
    case False
    with "1.prems" show ?thesis by simp
  qed
qed

text \<open>The loop \<open>for (; i < n; i++) a[i] = v(i)\<close>, in bounds and past them.\<close>

lemma for_range_fill:
  assumes "i \<le> n" "n \<le> length xs" "n < 2 ^ 32"
  shows "for_range i n (\<lambda>j xs. aput xs (of_nat j) (v j)) xs =
         Some (map (\<lambda>j. if i \<le> j \<and> j < n then v j else xs ! j) [0..<length xs])"
proof -
  let ?r = "\<lambda>k. map (\<lambda>j. if i \<le> j \<and> j < k then v j else xs ! j) [0..<length xs]"
  have "\<exists>s'. for_range i n (\<lambda>j xs. aput xs (of_nat j) (v j)) xs = Some s' \<and> s' = ?r n"
  proof (rule for_range_rule [where inv = "\<lambda>k s. s = ?r k"])
    show "xs = ?r i" by (rule nth_equalityI) auto
  next
    fix j s assume j: "i \<le> j" "j < n" "s = ?r j"
    have "unat (of_nat j :: u32) = j" using j assms by (simp add: unat_of_nat)
    then have "aput s (of_nat j) (v j) = Some (s[j := v j])"
      using j assms by (simp add: aput_def)
    moreover have "s[j := v j] = ?r (Suc j)"
      using j assms by (intro nth_equalityI) (auto simp: nth_list_update less_Suc_eq)
    ultimately show "\<exists>s'. aput s (of_nat j) (v j) = Some s' \<and> s' = ?r (Suc j)" by simp
  qed (use assms in simp)
  then show ?thesis by simp
qed

lemma for_range_fill_out:
  assumes "i \<le> length xs" "length xs < n" "n < 2 ^ 32"
  shows "for_range i n (\<lambda>j xs. aput xs (of_nat j) (v j)) xs = None"
  using assms
proof (induction "length xs - i" arbitrary: i xs)
  case 0
  then have "aput xs (of_nat i) (v i) = None"
    by (simp add: aput_def unat_of_nat)
  with 0 show ?case by (simp add: for_range_step)
next
  case (Suc k)
  then have "aput xs (of_nat i) (v i) = Some (xs[i := v i])"
    by (simp add: aput_def unat_of_nat)
  moreover have "for_range (Suc i) n (\<lambda>j xs. aput xs (of_nat j) (v j)) (xs[i := v i]) = None"
    by (rule Suc.hyps(1)) (use Suc in simp_all)
  ultimately show ?case using Suc.prems by (subst for_range_step) simp_all
qed

section \<open>Chains\<close>

text \<open>A singly linked list through an array of indices, ended by -1.\<close>

fun chain :: "u32 list \<Rightarrow> u32 \<Rightarrow> u32 list \<Rightarrow> bool" where
  "chain a p [] \<longleftrightarrow> p = -1"
| "chain a p (x # xs) \<longleftrightarrow> p = x \<and> inb a x \<and> chain a (rd a x) xs"

lemma chain_inb: "chain a p xs \<Longrightarrow> x \<in> set xs \<Longrightarrow> inb a x"
  by (induction xs arbitrary: p) auto

lemma chain_upd: "x \<notin> set xs \<Longrightarrow> chain (upd a x f) p xs = chain a p xs"
  by (induction xs arbitrary: p) (auto simp: inb_upd rd_upd_other)

section \<open>Positions in a circular buffer\<close>

lemma mod_apart: "i < n \<Longrightarrow> n < N \<Longrightarrow> (cur + i) mod N \<noteq> (cur + n) mod (N :: nat)"
proof
  assume i: "i < n" and n: "n < N" and "(cur + i) mod N = (cur + n) mod N"
  then have "N dvd cur + n - (cur + i)" by (metis add_le_cancel_left less_imp_le_nat mod_eq_dvd_iff_nat)
  then have "N \<le> n - i" using i by (intro dvd_imp_le) simp_all
  with n show False by simp
qed

end
