(* ===== verification/Ring.thy ===== *)
theory Ring
  imports Prelude
begin

text \<open>
  Circular doubly linked lists. The kernel keeps two of them, both threaded through the
  \<open>next\<close> and \<open>prev\<close> fields of an array indexed by pid: the run queue of kernel/sched.c and the
  wait queues of kernel/loader.c. \<open>ring nx pv xs\<close> says that following \<open>nx\<close> from the head of
  \<open>xs\<close> visits exactly \<open>xs\<close>, once each, and returns to the head, and that \<open>pv\<close> is the way back.

  The locale \<open>ring_store\<close> is the interface of such an array: what its two fields read after
  each is written. The four pieces of pointer surgery the kernel performs (a ring of one node,
  insertion after the head, insertion before the head, unlinking of the head) are proved once,
  against that interface, in the order in which the C code writes the fields.
\<close>

fun linked :: "('p \<Rightarrow> 'p) \<Rightarrow> ('p \<Rightarrow> 'p) \<Rightarrow> 'p list \<Rightarrow> bool" where
  "linked nx pv (a # b # r) \<longleftrightarrow> nx a = b \<and> pv b = a \<and> linked nx pv (b # r)"
| "linked nx pv _ \<longleftrightarrow> True"

definition ring :: "('p \<Rightarrow> 'p) \<Rightarrow> ('p \<Rightarrow> 'p) \<Rightarrow> 'p list \<Rightarrow> bool" where
  "ring nx pv xs \<longleftrightarrow> distinct xs \<and> linked nx pv (xs @ take 1 xs)"

lemma linked_append:
  "linked nx pv (xs @ y # ys) \<longleftrightarrow> linked nx pv (xs @ [y]) \<and> linked nx pv (y # ys)"
proof (induction xs)
  case Nil
  then show ?case by simp
next
  case (Cons x xs)
  then show ?case by (cases xs) auto
qed

lemma linked_snoc2:
  "linked nx pv (xs @ [a, b]) \<longleftrightarrow> linked nx pv (xs @ [a]) \<and> nx a = b \<and> pv b = a"
  using linked_append [of nx pv xs a "[b]"] by simp

text \<open>A path depends only on the forward fields of all nodes but the last and on the backward
  fields of all nodes but the first.\<close>

lemma linked_cong:
  assumes "\<And>a. a \<in> set (butlast xs) \<Longrightarrow> nx a = nx' a"
    and "\<And>a. a \<in> set (tl xs) \<Longrightarrow> pv a = pv' a"
  shows "linked nx pv xs \<longleftrightarrow> linked nx' pv' xs"
  using assms
proof (induction nx pv xs rule: linked.induct)
  case (1 nx pv a b r)
  have "linked nx pv (b # r) = linked nx' pv' (b # r)"
    by (rule "1.IH") (use "1.prems" in \<open>auto split: if_splits dest: in_set_butlastD\<close>)
  then show ?case using "1.prems" by auto
qed auto

lemma ring_Nil [simp]: "ring nx pv []"
  by (simp add: ring_def)

lemma ring_single [simp]: "ring nx pv [a] \<longleftrightarrow> nx a = a \<and> pv a = a"
  by (simp add: ring_def)

lemma ring_Cons: "ring nx pv (a # xs) \<longleftrightarrow> distinct (a # xs) \<and> linked nx pv (a # xs @ [a])"
  by (simp add: ring_def)

lemma ring_Cons2:
  "ring nx pv (a # b # xs) \<longleftrightarrow>
     distinct (a # b # xs) \<and> nx a = b \<and> pv b = a \<and> linked nx pv (b # xs @ [a])"
  by (simp add: ring_def)

lemma ring_distinct: "ring nx pv xs \<Longrightarrow> distinct xs"
  by (simp add: ring_def)

lemma linked_snoc_last:
  "xs \<noteq> [] \<Longrightarrow> linked nx pv (xs @ [a]) \<longleftrightarrow> linked nx pv xs \<and> nx (last xs) = a \<and> pv a = last xs"
  by (cases xs rule: rev_cases) (auto simp: linked_snoc2)

lemma ring_closed:
  assumes "ring nx pv (a # xs)"
  shows "nx (last (a # xs)) = a \<and> pv a = last (a # xs)"
  using assms linked_snoc_last [of "a # xs" nx pv a] by (simp add: ring_Cons)

lemma ring_next_head: "ring nx pv (a # xs) \<Longrightarrow> nx a = hd (xs @ [a])"
  by (cases xs) (auto simp: ring_Cons)

lemma ring_prev_head: "ring nx pv (a # xs) \<Longrightarrow> pv a = last (a # xs)"
  using ring_closed by metis

lemma ring_alone_iff: "ring nx pv (a # xs) \<Longrightarrow> nx a = a \<longleftrightarrow> xs = []"
  by (cases xs) (auto simp: ring_Cons)

lemma ring_next_mem: "ring nx pv (a # xs) \<Longrightarrow> nx a \<in> set (a # xs)"
  by (cases xs) (auto simp: ring_Cons)

lemma ring_prev_mem: "ring nx pv (a # xs) \<Longrightarrow> pv a \<in> set (a # xs)"
  using ring_prev_head last_in_set by (metis list.discI)

text \<open>The same ring seen from the next node.\<close>

lemma ring_rotate: "ring nx pv (a # xs) \<longleftrightarrow> ring nx pv (xs @ [a])"
proof (cases xs)
  case Nil
  then show ?thesis by simp
next
  case (Cons b ys)
  have "linked nx pv (b # ys @ [a, b]) \<longleftrightarrow> linked nx pv (b # ys @ [a]) \<and> nx a = b \<and> pv b = a"
    using linked_snoc2 [of nx pv "b # ys" a b] by simp
  with Cons show ?thesis by (auto simp: ring_def)
qed

lemma ring_cong:
  assumes "\<And>a. a \<in> set xs \<Longrightarrow> nx a = nx' a" and "\<And>a. a \<in> set xs \<Longrightarrow> pv a = pv' a"
  shows "ring nx pv xs \<longleftrightarrow> ring nx' pv' xs"
proof -
  have s: "set (xs @ take 1 xs) = set xs" by (auto dest: in_set_takeD)
  have "linked nx pv (xs @ take 1 xs) \<longleftrightarrow> linked nx' pv' (xs @ take 1 xs)"
    by (rule linked_cong) (metis assms(1) in_set_butlastD s, metis assms(2) list.sel(2) list.set_sel(2) s)
  then show ?thesis by (simp add: ring_def)
qed

section \<open>Surgery on the fields\<close>

lemma ring_insert_after:
  assumes r: "ring nx pv (c # xs)" and p: "p \<notin> set (c # xs)"
  shows "ring (nx(p := nx c, c := p)) (pv(p := c, nx c := p)) (c # p # xs)"
proof (cases xs)
  case Nil
  with r p show ?thesis by (auto simp: ring_Cons)
next
  case (Cons b ys)
  have nb: "nx c = b" and d: "distinct (c # b # ys)" and l: "linked nx pv (b # ys @ [c])"
    using r Cons by (auto simp: ring_Cons2)
  have "linked (nx(p := b, c := p)) (pv(p := c, b := p)) (b # ys @ [c])"
    using l d p Cons by (subst linked_cong [of _ _ nx _ pv]) (auto simp: butlast_append)
  then show ?thesis using nb d p Cons by (auto simp: ring_Cons2)
qed

lemma ring_insert_last:
  assumes r: "ring nx pv (h # xs)" and p: "p \<notin> set (h # xs)"
  shows "ring (nx(pv h := p, p := h)) (pv(h := p, p := pv h)) (h # xs @ [p])"
proof -
  obtain fr l where hx: "h # xs = fr @ [l]" by (cases "h # xs" rule: rev_cases) auto
  have pl: "pv h = l" and nl: "nx l = h" using ring_closed [OF r] hx by auto
  have "ring nx pv (l # fr)" using r hx ring_rotate [of nx pv l fr] by simp
  moreover have "p \<notin> set (l # fr)" using p hx by (metis insert_iff list.simps(15) set_append Un_iff empty_set empty_iff)
  ultimately have "ring (nx(p := nx l, l := p)) (pv(p := l, nx l := p)) (l # p # fr)"
    by (rule ring_insert_after)
  then have "ring (nx(p := h, l := p)) (pv(p := l, h := p)) (fr @ [l, p])"
    using ring_rotate [of _ _ l "p # fr"] ring_rotate [of _ _ p "fr @ [l]"] nl by simp
  moreover have "fr @ [l, p] = h # xs @ [p]" using hx by (metis append_Cons append_assoc append_Nil)
  moreover have "p \<noteq> h" using p by simp
  moreover have "p \<noteq> l" using p hx by (metis in_set_conv_decomp)
  ultimately show ?thesis using pl by (simp add: fun_upd_twist)
qed

lemma ring_unlink:
  assumes r: "ring nx pv (c # xs)" and ne: "xs \<noteq> []"
  shows "ring (nx(pv c := nx c)) (pv(nx c := pv c)) xs"
proof -
  obtain b ys where xs: "xs = b # ys" using ne by (cases xs) auto
  have nc: "nx c = b" and d: "distinct (c # b # ys)" and l: "linked nx pv (b # ys @ [c])"
    using r xs by (auto simp: ring_Cons2)
  have pc: "pv c = last (b # ys)" using ring_prev_head [OF r] xs by simp
  have lk: "linked nx pv (b # ys)" using l linked_snoc_last [of "b # ys" nx pv c] by simp
  let ?nx = "nx(pv c := nx c)" and ?pv = "pv(nx c := pv c)"
  have "pv c \<notin> set (butlast (b # ys))"
  proof -
    have "distinct (butlast (b # ys) @ [last (b # ys)])"
      using d by (simp only: append_butlast_last_id list.discI not_False_eq_True distinct.simps(2))
    then show ?thesis unfolding pc distinct_append by auto
  qed
  then have "linked ?nx ?pv (b # ys)"
    using lk d nc by (subst linked_cong [of _ _ nx _ pv]) auto
  then have "linked ?nx ?pv ((b # ys) @ [b])"
    using nc pc linked_snoc_last [of "b # ys" ?nx ?pv b] by simp
  then show ?thesis using xs d by (simp add: ring_Cons)
qed

section \<open>The interface of an array of nodes\<close>

definition held ::
    "('s \<Rightarrow> pid \<Rightarrow> pid) \<Rightarrow> ('s \<Rightarrow> pid \<Rightarrow> pid) \<Rightarrow> ('s \<Rightarrow> pid \<Rightarrow> bool) \<Rightarrow> 's \<Rightarrow> pid list \<Rightarrow> bool" where
  "held nx pv valid s xs \<longleftrightarrow> ring (nx s) (pv s) xs \<and> (\<forall>p \<in> set xs. valid s p)"

locale ring_store =
  fixes nx pv :: "'s \<Rightarrow> pid \<Rightarrow> pid"
    and set_nx set_pv :: "pid \<Rightarrow> pid \<Rightarrow> 's \<Rightarrow> 's"
    and valid :: "'s \<Rightarrow> pid \<Rightarrow> bool"
  assumes nx_set_nx: "valid s p \<Longrightarrow> nx (set_nx p v s) = (nx s)(p := v)"
    and pv_set_pv: "valid s p \<Longrightarrow> pv (set_pv p v s) = (pv s)(p := v)"
    and nx_set_pv: "valid s p \<Longrightarrow> nx (set_pv p v s) = nx s"
    and pv_set_nx: "valid s p \<Longrightarrow> pv (set_nx p v s) = pv s"
    and valid_set_nx: "valid s p \<Longrightarrow> valid (set_nx p v s) q = valid s q"
    and valid_set_pv: "valid s p \<Longrightarrow> valid (set_pv p v s) q = valid s q"
begin

lemmas store_simps = nx_set_nx pv_set_pv nx_set_pv pv_set_nx valid_set_nx valid_set_pv

lemma alone:
  "valid s p \<Longrightarrow> held nx pv valid (set_pv p p (set_nx p p s)) [p]"
  by (simp add: held_def store_simps)

lemma insert_after:
  assumes h: "held nx pv valid s (c # xs)" and p: "valid s p" "p \<notin> set (c # xs)"
  shows "held nx pv valid (set_nx c p (set_pv (nx s c) p (set_nx p (nx s c) (set_pv p c s)))) (c # p # xs)"
proof -
  have r: "ring (nx s) (pv s) (c # xs)" and v: "\<forall>q \<in> set (c # xs). valid s q"
    using h by (auto simp: held_def)
  have "valid s (nx s c)" using v ring_next_mem [OF r] by blast
  with v p have *: "valid s c" "valid s p" "valid s (nx s c)" by auto
  show ?thesis
    using ring_insert_after [OF r p(2)] * v
    by (auto simp: held_def store_simps)
qed

lemma insert_last:
  assumes h: "held nx pv valid s (c # xs)" and p: "valid s p" "p \<notin> set (c # xs)"
  shows "held nx pv valid (set_pv p (pv s c) (set_nx p c (set_pv c p (set_nx (pv s c) p s)))) (c # xs @ [p])"
proof -
  have r: "ring (nx s) (pv s) (c # xs)" and v: "\<forall>q \<in> set (c # xs). valid s q"
    using h by (auto simp: held_def)
  have "valid s (pv s c)" using v ring_prev_mem [OF r] by blast
  with v p have *: "valid s c" "valid s p" "valid s (pv s c)" by auto
  show ?thesis
    using ring_insert_last [OF r p(2)] * v
    by (auto simp: held_def store_simps)
qed

lemma unlink:
  assumes h: "held nx pv valid s (c # xs)" and ne: "xs \<noteq> []"
  shows "held nx pv valid (set_nx (pv s c) (nx s c) (set_pv (nx s c) (pv s c) s)) xs"
proof -
  have r: "ring (nx s) (pv s) (c # xs)" and v: "\<forall>q \<in> set (c # xs). valid s q"
    using h by (auto simp: held_def)
  have "valid s (nx s c)" "valid s (pv s c)"
    using v ring_next_mem [OF r] ring_prev_mem [OF r] by blast+
  then show ?thesis
    using ring_unlink [OF r ne] v by (auto simp: held_def store_simps)
qed

text \<open>Writing a node outside of a ring leaves the ring alone.\<close>

lemma frame_nx: "held nx pv valid s xs \<Longrightarrow> valid s p \<Longrightarrow> p \<notin> set xs \<Longrightarrow> held nx pv valid (set_nx p v s) xs"
  by (auto simp: held_def store_simps intro: ring_cong [THEN iffD1, rotated 2])

lemma frame_pv: "held nx pv valid s xs \<Longrightarrow> valid s p \<Longrightarrow> p \<notin> set xs \<Longrightarrow> held nx pv valid (set_pv p v s) xs"
  by (auto simp: held_def store_simps intro: ring_cong [THEN iffD1, rotated 2])

lemma rotate: "held nx pv valid s (c # xs) \<longleftrightarrow> held nx pv valid s (xs @ [c])"
  by (auto simp: held_def ring_rotate)

end

end
