(* ===== verification/Sched_Spec.thy ===== *)
theory Sched_Spec
  imports Sched
begin

text \<open>
  What the scheduler promises, and the proof that kernel/sched.c implements it.

  The abstract state \<open>asched\<close> is the list of runnable pids in the order they will run (its head
  is the current task whenever a task is running), whether a task is running or the processor
  idles, what is left of the current time slice, and the state of every task. \<open>sched_rel\<close>
  relates a concrete state to it and carries the invariant of the module: the array has 32
  descriptors, the run queue is a ring of distinct non-idle pids of running tasks, \<open>last_pid\<close> is
  0 exactly when the ring is empty, and a running task has at least one tick left.
\<close>

section \<open>Abstract scheduler\<close>

record asched =
  runq :: "pid list"
  busy :: bool
  slice :: nat
  status :: "pid \<Rightarrow> task_state"

definition enqueue_after :: "pid \<Rightarrow> pid list \<Rightarrow> pid list" where
  "enqueue_after p q = take 1 q @ p # drop 1 q"

definition a_load :: "pid \<Rightarrow> asched \<Rightarrow> asched" where
  "a_load p a = a\<lparr>runq := enqueue_after p (runq a), status := (status a)(p := STATE_RUNNING)\<rparr>"

definition a_unblock :: "pid \<Rightarrow> asched \<Rightarrow> asched" where
  "a_unblock p a = a\<lparr>runq := enqueue_after p (runq a), busy := True,
                     status := (status a)(p := STATE_RUNNING)\<rparr>"

definition a_leave :: "task_state \<Rightarrow> asched \<Rightarrow> asched" where
  "a_leave w a = a\<lparr>runq := tl (runq a), busy := (tl (runq a) \<noteq> []), slice := 2,
                   status := (status a)(hd (runq a) := w)\<rparr>"

definition a_tick :: "asched \<Rightarrow> asched" where
  "a_tick a =
     (if \<not> busy a then (if runq a = [] then a else a\<lparr>busy := True, slice := 2\<rparr>)
      else if slice a = 1 then a\<lparr>runq := rotate1 (runq a), slice := 2\<rparr>
      else a\<lparr>slice := slice a - 1\<rparr>)"

definition a_current :: "asched \<Rightarrow> pid" where
  "a_current a = (if busy a then hd (runq a) else 0)"

definition asched_wf :: "asched \<Rightarrow> bool" where
  "asched_wf a \<longleftrightarrow> distinct (runq a) \<and> 0 \<notin> set (runq a) \<and>
     (\<forall>p \<in> set (runq a). status a p = STATE_RUNNING) \<and>
     (busy a \<longrightarrow> runq a \<noteq> [] \<and> 1 \<le> slice a) \<and> (\<not> busy a \<longrightarrow> length (runq a) \<le> 1) \<and> slice a \<le> 2"

definition sched_rel :: "sched \<Rightarrow> asched \<Rightarrow> bool" where
  "sched_rel s a \<longleftrightarrow> asched_wf a \<and> length (tasks s) = MAX_PID \<and> runs (tasks s) (runq a) \<and>
     current_pid s = a_current a \<and> (if runq a = [] then last_pid s = 0 else last_pid s \<in> set (runq a)) \<and>
     unat (quantum s) = slice a \<and> (\<forall>p. inb (tasks s) p \<longrightarrow> state (rd (tasks s) p) = status a p)"

definition a_start :: asched where
  "a_start = \<lparr>runq = [], busy = False, slice = 0, status = (\<lambda>_. STATE_RUNNING)\<rparr>"

text \<open>The abstract operations keep the abstract invariant.\<close>

lemma a_load_wf:
  "asched_wf a \<Longrightarrow> p \<notin> set (runq a) \<Longrightarrow> p \<noteq> 0 \<Longrightarrow> busy a \<or> runq a = [] \<Longrightarrow> asched_wf (a_load p a)"
  by (cases "runq a") (auto simp: asched_wf_def a_load_def enqueue_after_def)

lemma a_unblock_wf:
  "asched_wf a \<Longrightarrow> p \<notin> set (runq a) \<Longrightarrow> p \<noteq> 0 \<Longrightarrow> 1 \<le> slice a \<Longrightarrow> asched_wf (a_unblock p a)"
  by (cases "runq a") (auto simp: asched_wf_def a_unblock_def enqueue_after_def)

lemma a_leave_wf: "asched_wf a \<Longrightarrow> busy a \<Longrightarrow> asched_wf (a_leave w a)"
  by (cases "runq a") (auto simp: asched_wf_def a_leave_def)

lemma a_tick_wf: "asched_wf a \<Longrightarrow> asched_wf (a_tick a)"
  by (cases "runq a") (auto simp: asched_wf_def a_tick_def)

section \<open>Refinement\<close>

lemma sched_rel_start: "sched_rel sched_start a_start"
  by (simp add: sched_rel_def asched_wf_def a_start_def sched_start_def sched_init_def
      held_def a_current_def rd_def inb_def)

lemma sched_rel_current:
  assumes "sched_rel s a" and "busy a"
  obtains xs where "runq a = current_pid s # xs" "current_pid s \<noteq> 0" "inb (tasks s) (current_pid s)"
    "runs (tasks s) (current_pid s # xs)"
  using assms
  by (cases "runq a") (auto simp: sched_rel_def asched_wf_def a_current_def held_def)

lemma sched_rel_idle:
  "sched_rel s a \<Longrightarrow> current_pid s = 0 \<longleftrightarrow> \<not> busy a"
  by (cases "runq a") (auto simp: sched_rel_def asched_wf_def a_current_def)

lemma sched_rel_inb: "sched_rel s a \<Longrightarrow> inb (tasks s) p \<longleftrightarrow> unat p < 32"
  by (simp add: sched_rel_def inb_def MAX_PID_def)

lemma ring_next_inb: "runs ts (c # xs) \<Longrightarrow> inb ts (ts_next ts c)"
  using ring_next_mem by (fastforce simp: held_def)

lemma ring_prev_inb: "runs ts (c # xs) \<Longrightarrow> inb ts (ts_prev ts c)"
  using ring_prev_mem by (fastforce simp: held_def)

text \<open>Insertion after the current task, shared by \<open>sched_load\<close> and \<open>sched_unblock\<close>.\<close>

definition inserted :: "pid \<Rightarrow> pid \<Rightarrow> sched_task list \<Rightarrow> sched_task list" where
  "inserted c p ts = put_next c p (put_prev (ts_next ts c) p (put_next p (ts_next ts c) (put_prev p c ts)))"

lemma inserted_runs:
  "runs ts (c # xs) \<Longrightarrow> inb ts p \<Longrightarrow> p \<notin> set (c # xs) \<Longrightarrow> runs (inserted c p ts) (c # p # xs)"
  unfolding inserted_def by (rule sq.insert_after)

lemma inserted_frame:
  assumes "runs ts (c # xs)" and "inb ts p"
  shows "length (inserted c p ts) = length ts" "inb (inserted c p ts) q = inb ts q"
    "state (rd (inserted c p ts) q) = state (rd ts q)"
proof -
  have "inb ts c" "inb ts (ts_next ts c)"
    using assms ring_next_inb by (auto simp: held_def)
  then show "length (inserted c p ts) = length ts" "inb (inserted c p ts) q = inb ts q"
    "state (rd (inserted c p ts) q) = state (rd ts q)"
    using assms(2) by (simp_all add: inserted_def put_states)
qed

lemma insert_code:
  assumes "runs ts (c # xs)" and p: "inb ts p" "p \<noteq> c"
  shows "do {
       ts \<leftarrow> set_t_prev p c ts;
       t \<leftarrow> aget ts c;
       ts \<leftarrow> set_t_next p (t_next t) ts;
       t \<leftarrow> aget ts c;
       ts \<leftarrow> set_t_prev (t_next t) p ts;
       set_t_next c p ts } = Some (inserted c p ts)"
proof -
  have n: "inb ts c" "inb ts (ts_next ts c)"
    using assms ring_next_inb by (auto simp: held_def)
  have e: "t_next (rd (put_prev p c ts) c) = ts_next ts c"
    "t_next (rd (put_next p (ts_next ts c) (put_prev p c ts)) c) = ts_next ts c"
    using p by (simp_all add: put_fields flip: ts_next_def)
  show ?thesis
    using n p by (simp add: set_fields_in aget_in e inserted_def)
qed

text \<open>
  \<open>sched_load\<close>: a new task goes right behind the current one. While the processor idles the code
  starts a new ring of one task, whatever was queued before.
\<close>

lemma load_idle:
  assumes rel: "sched_rel s a" and p: "unat p < 32" "p \<noteq> 0" and idle: "\<not> busy a"
  shows "\<exists>s'. sched_load p s = Some s' \<and>
              sched_rel s' (a\<lparr>runq := [p], status := (status a)(p := STATE_RUNNING)\<rparr>)"
proof -
  have c: "current_pid s = 0" using idle rel sched_rel_idle by auto
  have ip: "inb (tasks s) p" using rel p by (simp add: sched_rel_inb)
  let ?ts = "put_state p STATE_RUNNING (put_prev p p (put_next p p (tasks s)))"
  have "sched_load p s = Some (s\<lparr>last_pid := p, tasks := ?ts\<rparr>)"
    using c ip by (simp add: sched_load_def set_fields_in)
  moreover have "runs ?ts [p]"
    using ip by (intro runs_put_state sq.alone) simp_all
  ultimately show ?thesis
    using rel idle ip p by (auto simp: sched_rel_def asched_wf_def a_current_def put_states)
qed

lemma load_refines:
  assumes rel: "sched_rel s a" and p: "unat p < 32" "p \<noteq> 0" "p \<notin> set (runq a)"
    and idle: "busy a \<or> runq a = []"
  shows "\<exists>s'. sched_load p s = Some s' \<and> sched_rel s' (a_load p a)"
proof (cases "busy a")
  case True
  obtain xs where q: "runq a = current_pid s # xs" and c: "current_pid s \<noteq> 0"
    and r: "runs (tasks s) (current_pid s # xs)"
    using sched_rel_current [OF rel True] by metis
  have ip: "inb (tasks s) p" using rel p by (simp add: sched_rel_inb)
  have pc: "p \<noteq> current_pid s" and pn: "p \<notin> set (current_pid s # xs)" using p q by auto
  let ?ts = "put_state p STATE_RUNNING (inserted (current_pid s) p (tasks s))"
  have "sched_load p s = Some (s\<lparr>last_pid := p, tasks := ?ts\<rparr>)"
    using c insert_code [OF r ip pc] inserted_frame [OF r ip] ip
    by (simp add: sched_load_def set_fields_in bind_assoc)
  moreover have "runs ?ts (current_pid s # p # xs)"
    by (intro runs_put_state inserted_runs r ip pn) (simp add: inserted_frame [OF r ip] ip)
  moreover have "asched_wf (a_load p a)"
    using rel p idle by (intro a_load_wf) (auto simp: sched_rel_def)
  ultimately show ?thesis
    using rel q True ip
    by (auto simp: sched_rel_def a_load_def enqueue_after_def a_current_def
        inserted_frame [OF r ip] put_states)
next
  case False
  then have "a_load p a = a\<lparr>runq := [p], status := (status a)(p := STATE_RUNNING)\<rparr>"
    using idle by (simp add: a_load_def enqueue_after_def)
  then show ?thesis using load_idle [OF rel p(1,2) False] by simp
qed

text \<open>\<open>sched_unblock\<close>: the same place; from idle, the task is switched to at once.\<close>

lemma unblock_refines:
  assumes rel: "sched_rel s a" and p: "unat p < 32" "p \<noteq> 0" "p \<notin> set (runq a)"
    and idle: "busy a \<or> runq a = []" and sl: "1 \<le> slice a"
  shows "\<exists>s'. sched_unblock p s = Some (s', if busy a then None else Some p) \<and> sched_rel s' (a_unblock p a)"
proof -
  have ip: "inb (tasks s) p" using rel p by (simp add: sched_rel_inb)
  let ?t0 = "put_state p STATE_RUNNING (tasks s)"
  have wf: "asched_wf (a_unblock p a)"
    using rel p sl by (intro a_unblock_wf) (auto simp: sched_rel_def)
  show ?thesis
  proof (cases "busy a")
    case True
    obtain xs where q: "runq a = current_pid s # xs" and c: "current_pid s \<noteq> 0"
      and r: "runs (tasks s) (current_pid s # xs)"
      using sched_rel_current [OF rel True] by metis
    have r0: "runs ?t0 (current_pid s # xs)" using r ip by (rule runs_put_state)
    have i0: "inb ?t0 p" using ip by simp
    have pc: "p \<noteq> current_pid s" and pn: "p \<notin> set (current_pid s # xs)" using p q by auto
    let ?ts = "inserted (current_pid s) p ?t0"
    have "sched_unblock p s = Some (s\<lparr>tasks := ?ts\<rparr>, None)"
    proof -
      have "sched_unblock p s = Option.bind (Some ?ts) (\<lambda>ts. Some (s\<lparr>tasks := ts\<rparr>, None))"
        unfolding insert_code [OF r0 i0 pc, symmetric]
        using c ip by (simp add: sched_unblock_def set_fields_in bind_assoc)
      then show ?thesis by simp
    qed
    moreover have "runs ?ts (current_pid s # p # xs)" by (rule inserted_runs [OF r0 i0 pn])
    ultimately show ?thesis
      using rel wf q True ip
      by (auto simp: sched_rel_def a_unblock_def enqueue_after_def a_current_def
          inserted_frame [OF r0 i0] put_states)
  next
    case False
    then have q: "runq a = []" and c: "current_pid s = 0" using idle rel sched_rel_idle by auto
    let ?ts = "put_prev p p (put_next p p ?t0)"
    have "sched_unblock p s = Some (s\<lparr>tasks := ?ts, current_pid := p, last_pid := p\<rparr>, Some p)"
      using c ip by (simp add: sched_unblock_def set_fields_in)
    moreover have "runs ?ts [p]" using ip by (intro sq.alone) simp
    ultimately show ?thesis
      using rel wf q False ip
      by (auto simp: sched_rel_def a_unblock_def enqueue_after_def a_current_def put_states)
  qed
qed

text \<open>Unlinking the current task, shared by \<open>sched_exit\<close> and \<open>sched_block\<close>.\<close>

definition unlinked :: "pid \<Rightarrow> sched_task list \<Rightarrow> sched_task list" where
  "unlinked c ts = put_next (ts_prev ts c) (ts_next ts c) (put_prev (ts_next ts c) (ts_prev ts c) ts)"

definition retired :: "pid \<Rightarrow> task_state \<Rightarrow> sched_task list \<Rightarrow> sched_task list" where
  "retired c w ts = put_prev c (-1) (put_next c (-1) (put_state c w ts))"

lemma retired_frame:
  "inb ts c \<Longrightarrow> length (retired c w ts) = length ts"
  "inb (retired c w ts) q = inb ts q"
  "inb ts c \<Longrightarrow> state (rd (retired c w ts) q) = (if c = q then w else state (rd ts q))"
  by (auto simp: retired_def put_states)

lemma unlinked_frame:
  assumes "runs ts (c # xs)"
  shows "length (unlinked c ts) = length ts" "inb (unlinked c ts) q = inb ts q"
    "state (rd (unlinked c ts) q) = state (rd ts q)"
  using ring_next_inb [OF assms] ring_prev_inb [OF assms] by (auto simp: unlinked_def put_states)

lemma unlinked_runs: "runs ts (c # xs) \<Longrightarrow> xs \<noteq> [] \<Longrightarrow> runs (unlinked c ts) xs"
  unfolding unlinked_def by (rule sq.unlink)

lemma retired_runs: "runs ts xs \<Longrightarrow> inb ts c \<Longrightarrow> c \<notin> set xs \<Longrightarrow> runs (retired c w ts) xs"
  unfolding retired_def by (rule runs_configure)

text \<open>Both leave the queue at its head; the next task of the ring, if any, becomes current.\<close>

lemma leave_alone:
  assumes "sched_rel s a" and "busy a" and "runq a = [c]"
  shows "current_pid s = c \<and> t_next (rd (tasks s) c) = c \<and> inb (tasks s) c"
  using assms by (auto simp: sched_rel_def a_current_def held_def ts_next_def)

lemma leave_rel:
  assumes rel: "sched_rel s a" and b: "busy a" and q: "runq a = c # xs"
    and s': "tasks s' = retired c w (if xs = [] then tasks s else unlinked c (tasks s))"
      "current_pid s' = (if xs = [] then 0 else hd xs)"
      "if xs = [] then last_pid s' = 0 else last_pid s' \<in> set xs" "quantum s' = QUANTUM"
  shows "sched_rel s' (a_leave w a)"
proof -
  have r: "runs (tasks s) (c # xs)" and ic: "inb (tasks s) c" and d: "c \<notin> set xs"
    using rel q by (auto simp: sched_rel_def held_def asched_wf_def)
  let ?t = "if xs = [] then tasks s else unlinked c (tasks s)"
  have t: "runs ?t xs" "inb ?t c" "length ?t = length (tasks s)"
    "\<And>p. inb ?t p = inb (tasks s) p" "\<And>p. state (rd ?t p) = state (rd (tasks s) p)"
    using unlinked_runs [OF r] unlinked_frame [OF r] ic by (auto simp: held_def)
  have "asched_wf (a_leave w a)" using rel b by (intro a_leave_wf) (auto simp: sched_rel_def)
  then show ?thesis
    using rel b q s' t(2-) retired_runs [OF t(1,2) d, of w] retired_frame(1,3) [OF t(2), of w]
    by (auto simp: sched_rel_def a_leave_def a_current_def QUANTUM_def retired_frame(2))
qed

lemma leave_many:
  assumes rel: "sched_rel s a" and b: "busy a" and q: "runq a = c # xs" and ne: "xs \<noteq> []"
  shows "current_pid s = c" "inb (tasks s) c" "runs (tasks s) (c # xs)" "ts_next (tasks s) c \<noteq> c"
    "ts_next (tasks s) c = hd xs" "ts_prev (tasks s) c \<in> set xs"
    "last_pid s \<noteq> c \<Longrightarrow> last_pid s \<in> set xs"
proof -
  show r: "runs (tasks s) (c # xs)" and "current_pid s = c" and "inb (tasks s) c"
    using rel b q by (auto simp: sched_rel_def held_def a_current_def)
  then have rr: "ring (ts_next (tasks s)) (ts_prev (tasks s)) (c # xs)" by (simp add: held_def)
  show "ts_next (tasks s) c \<noteq> c" using ring_alone_iff [OF rr] ne by simp
  show "ts_next (tasks s) c = hd xs" using ring_next_head [OF rr] ne by (cases xs) auto
  show "ts_prev (tasks s) c \<in> set xs" using ring_prev_head [OF rr] ne by simp
  show "last_pid s \<noteq> c \<Longrightarrow> last_pid s \<in> set xs" using rel q by (auto simp: sched_rel_def)
qed

lemma leave_code:
  assumes "runs ts (c # xs)"
  shows "set_t_prev (ts_next ts c) (ts_prev ts c) ts = Some (put_prev (ts_next ts c) (ts_prev ts c) ts)"
    "set_t_next (ts_prev ts c) (ts_next ts c) (put_prev (ts_next ts c) (ts_prev ts c) ts) = Some (unlinked c ts)"
    "configure_task c w (-1) (-1) (unlinked c ts) = Some (retired c w (unlinked c ts))"
  using ring_next_inb [OF assms] ring_prev_inb [OF assms] assms
  by (auto simp: set_fields_in configure_task_in unlinked_def retired_def held_def)

lemma block_refines:
  assumes rel: "sched_rel s a" and b: "busy a"
  shows "\<exists>s'. sched_block s = Some (s', a_current (a_leave STATE_BLOCKED a)) \<and>
              sched_rel s' (a_leave STATE_BLOCKED a)"
proof -
  obtain c xs where q: "runq a = c # xs" using sched_rel_current [OF rel b] by metis
  show ?thesis
  proof (cases "xs = []")
    case True
    then have "runq a = [c]" using q by simp
    note m = leave_alone [OF rel b this]
    let ?s = "s\<lparr>quantum := QUANTUM, last_pid := 0, tasks := retired c STATE_BLOCKED (tasks s), current_pid := 0\<rparr>"
    have "sched_block s = Some (?s, 0)"
      using m by (auto simp: sched_block_def aget_in configure_task_in retired_def)
    moreover have "sched_rel ?s (a_leave STATE_BLOCKED a)"
      by (rule leave_rel [OF rel b q]) (simp_all add: True)
    ultimately show ?thesis using True q by (simp add: a_leave_def a_current_def)
  next
    case False
    note m = leave_many [OF rel b q False]
    let ?s = "s\<lparr>quantum := QUANTUM, last_pid := (if c = last_pid s then ts_prev (tasks s) c else last_pid s),
                tasks := retired c STATE_BLOCKED (unlinked c (tasks s)), current_pid := ts_next (tasks s) c\<rparr>"
    have "sched_block s = Some (?s, ts_next (tasks s) c)"
      using m False leave_code(1,2) [OF m(3)] leave_code(3) [OF m(3), of STATE_BLOCKED]
      by (auto simp: sched_block_def aget_in simp flip: ts_next_def ts_prev_def)
    moreover have "sched_rel ?s (a_leave STATE_BLOCKED a)"
      by (rule leave_rel [OF rel b q]) (use False m in auto)
    ultimately show ?thesis using False q m by (simp add: a_leave_def a_current_def)
  qed
qed

lemma exit_refines:
  assumes rel: "sched_rel s a" and b: "busy a"
  shows "\<exists>s'. sched_exit s = Some (s', a_current (a_leave STATE_FINISHED a)) \<and>
              sched_rel s' (a_leave STATE_FINISHED a)"
proof -
  obtain c xs where q: "runq a = c # xs" using sched_rel_current [OF rel b] by metis
  show ?thesis
  proof (cases "xs = []")
    case True
    then have "runq a = [c]" using q by simp
    note m = leave_alone [OF rel b this]
    let ?s = "s\<lparr>quantum := QUANTUM, last_pid := 0, tasks := retired c STATE_FINISHED (tasks s), current_pid := 0\<rparr>"
    have "sched_exit s = Some (?s, 0)"
      using m by (auto simp: sched_exit_def aget_in configure_task_in retired_def)
    moreover have "sched_rel ?s (a_leave STATE_FINISHED a)"
      by (rule leave_rel [OF rel b q]) (simp_all add: True)
    ultimately show ?thesis using True q by (simp add: a_leave_def a_current_def)
  next
    case False
    note m = leave_many [OF rel b q False]
    let ?s = "s\<lparr>quantum := QUANTUM, last_pid := ts_prev (tasks s) c,
                tasks := retired c STATE_FINISHED (unlinked c (tasks s)), current_pid := ts_next (tasks s) c\<rparr>"
    have "sched_exit s = Some (?s, ts_next (tasks s) c)"
      using m False leave_code(1,2) [OF m(3)] leave_code(3) [OF m(3), of STATE_FINISHED]
      by (auto simp: sched_exit_def aget_in simp flip: ts_next_def ts_prev_def)
    moreover have "sched_rel ?s (a_leave STATE_FINISHED a)"
      by (rule leave_rel [OF rel b q]) (use False m in auto)
    ultimately show ?thesis using False q m by (simp add: a_leave_def a_current_def)
  qed
qed

lemma tick_refines:
  assumes rel: "sched_rel s a"
  shows "\<exists>s'. sched_tick s = Some (s', a_current (a_tick a)) \<and> sched_rel s' (a_tick a)"
proof (cases "busy a")
  case False
  then have c: "current_pid s = 0" using rel sched_rel_idle by simp
  have l: "runq a = [] \<or> runq a = [last_pid s] \<and> last_pid s \<noteq> 0" "runq a = [] \<longrightarrow> last_pid s = 0"
    using rel False by (cases "runq a"; auto simp: sched_rel_def asched_wf_def)+
  have wf: "asched_wf (a_tick a)" using rel by (intro a_tick_wf) (simp add: sched_rel_def)
  show ?thesis
    using rel c l wf False
    by (auto simp: sched_tick_def a_tick_def sched_rel_def a_current_def QUANTUM_def)
next
  case True
  obtain xs where q: "runq a = current_pid s # xs" and c: "current_pid s \<noteq> 0"
    and ic: "inb (tasks s) (current_pid s)" and r: "runs (tasks s) (current_pid s # xs)"
    using sched_rel_current [OF rel True] by metis
  have wf: "asched_wf (a_tick a)" using rel by (intro a_tick_wf) (simp add: sched_rel_def)
  have u: "unat (quantum s) = slice a" "1 \<le> slice a" "slice a \<le> 2"
    using rel True by (auto simp: sched_rel_def asched_wf_def)
  have u1: "unat (quantum s - 1) = slice a - 1" using u by (simp add: unat_sub_if_size)
  have z: "quantum s - 1 = 0 \<longleftrightarrow> slice a = 1" using u u1 by (metis diff_is_0_eq diff_self_eq_0 le_antisym unat_eq_0)
  show ?thesis
  proof (cases "slice a = 1")
    case False
    then show ?thesis
      using rel True u u1 z q c wf by (auto simp: sched_tick_def a_tick_def sched_rel_def a_current_def)
  next
    case s1: True
    have n: "ts_next (tasks s) (current_pid s) = hd (xs @ [current_pid s])"
      using r ring_next_head by (fastforce simp: held_def)
    have "runs (tasks s) (xs @ [current_pid s])" using r sq.rotate by simp
    then show ?thesis
      using rel True s1 z q c ic wf n
      by (auto simp: sched_tick_def a_tick_def sched_rel_def a_current_def aget_in QUANTUM_def
          simp flip: ts_next_def)
  qed
qed

section \<open>Runs of the scheduler\<close>

datatype sched_event = Load pid | Unblock pid | Exit | Block | Tick

fun sched_event_step :: "sched_event \<Rightarrow> sched \<Rightarrow> sched option" where
  "sched_event_step (Load p) s = sched_load p s"
| "sched_event_step (Unblock p) s = map_option fst (sched_unblock p s)"
| "sched_event_step Exit s = map_option fst (sched_exit s)"
| "sched_event_step Block s = map_option fst (sched_block s)"
| "sched_event_step Tick s = map_option fst (sched_tick s)"

fun sched_run :: "sched_event list \<Rightarrow> sched \<Rightarrow> sched option" where
  "sched_run [] s = Some s"
| "sched_run (e # es) s = do { s \<leftarrow> sched_event_step e s; sched_run es s }"

fun a_step :: "sched_event \<Rightarrow> asched \<Rightarrow> asched" where
  "a_step (Load p) a = a_load p a"
| "a_step (Unblock p) a = a_unblock p a"
| "a_step Exit a = a_leave STATE_FINISHED a"
| "a_step Block a = a_leave STATE_BLOCKED a"
| "a_step Tick a = a_tick a"

text \<open>
  What a caller has to respect: a task that enters the queue has a pid of the array other than
  the idle task's and is not queued already; nothing is loaded while the processor idles over a
  task that has not run yet; only a running task can block or exit; and no task is unblocked
  before the first time slice has been handed out.
\<close>

fun legal :: "sched_event \<Rightarrow> asched \<Rightarrow> bool" where
  "legal (Load p) a \<longleftrightarrow> unat p < 32 \<and> p \<noteq> 0 \<and> p \<notin> set (runq a) \<and> (busy a \<or> runq a = [])"
| "legal (Unblock p) a \<longleftrightarrow> unat p < 32 \<and> p \<noteq> 0 \<and> p \<notin> set (runq a) \<and> (busy a \<or> runq a = []) \<and> 1 \<le> slice a"
| "legal Exit a \<longleftrightarrow> busy a"
| "legal Block a \<longleftrightarrow> busy a"
| "legal Tick a \<longleftrightarrow> True"

fun legal_run :: "sched_event list \<Rightarrow> asched \<Rightarrow> bool" where
  "legal_run [] a \<longleftrightarrow> True"
| "legal_run (e # es) a \<longleftrightarrow> legal e a \<and> legal_run es (a_step e a)"

lemma step_refines:
  assumes "sched_rel s a" and "legal e a"
  shows "\<exists>s'. sched_event_step e s = Some s' \<and> sched_rel s' (a_step e a)"
proof (cases e)
  case (Load p) then show ?thesis using assms load_refines by simp
next
  case (Unblock p) then show ?thesis using assms unblock_refines [of s a p] by auto
next
  case Exit then show ?thesis using assms exit_refines by fastforce
next
  case Block then show ?thesis using assms block_refines by fastforce
next
  case Tick then show ?thesis using assms tick_refines by fastforce
qed

lemma run_refines:
  "sched_rel s a \<Longrightarrow> legal_run es a \<Longrightarrow> \<exists>s'. sched_run es s = Some s' \<and> sched_rel s' (fold a_step es a)"
proof (induction es arbitrary: s a)
  case Nil
  then show ?case by simp
next
  case (Cons e es)
  then obtain s1 where "sched_event_step e s = Some s1" "sched_rel s1 (a_step e a)"
    using step_refines by (metis legal_run.simps(2))
  with Cons show ?case by simp
qed

section \<open>Round robin\<close>

text \<open>
  The interface fairness rests on: a clock tick that either uses up one tick of the running
  task's slice or, on its last tick, hands the processor to the next task with a fresh slice.
\<close>

primrec run_ticks :: "('s \<Rightarrow> ('s \<times> 'p) option) \<Rightarrow> nat \<Rightarrow> 's \<Rightarrow> 's option" where
  "run_ticks tick 0 s = Some s"
| "run_ticks tick (Suc n) s = do { (s', _) \<leftarrow> tick s; run_ticks tick n s' }"

lemma run_ticks_add: "run_ticks tick (m + n) s = do { s' \<leftarrow> run_ticks tick m s; run_ticks tick n s' }"
  by (induction m arbitrary: s) (auto simp: split_def bind_assoc)

locale round_robin =
  fixes tick :: "'s \<Rightarrow> ('s \<times> pid) option"
    and turn :: "'s \<Rightarrow> pid list \<Rightarrow> nat \<Rightarrow> bool"
    and full :: nat
  assumes full_pos: "0 < full"
    and tick_last: "turn s (p # q) 1 \<Longrightarrow> \<exists>s'. tick s = Some (s', hd (q @ [p])) \<and> turn s' (q @ [p]) full"
    and tick_more: "turn s (p # q) (Suc (Suc k)) \<Longrightarrow> \<exists>s'. tick s = Some (s', p) \<and> turn s' (p # q) (Suc k)"
begin

lemma one_turn: "turn s (p # q) (Suc k) \<Longrightarrow> \<exists>s'. run_ticks tick (Suc k) s = Some s' \<and> turn s' (q @ [p]) full"
proof (induction k arbitrary: s)
  case 0
  then show ?case using tick_last by fastforce
next
  case (Suc k)
  then show ?case using tick_more by fastforce
qed

lemma turns: "turn s q full \<Longrightarrow> q \<noteq> [] \<Longrightarrow> \<exists>s'. run_ticks tick (n * full) s = Some s' \<and> turn s' (rotate n q) full"
proof (induction n)
  case 0
  then show ?case by simp
next
  case (Suc n)
  then obtain s1 where s1: "run_ticks tick (n * full) s = Some s1" "turn s1 (rotate n q) full" by blast
  obtain p q' where q': "rotate n q = p # q'" using Suc.prems by (cases "rotate n q") auto
  obtain k where k: "full = Suc k" using full_pos by (cases full) auto
  obtain s2 where "run_ticks tick full s1 = Some s2" "turn s2 (q' @ [p]) full"
    using one_turn [of s1 p q' k] s1 q' k by auto
  then show ?case
    using s1 q' run_ticks_add [of tick "n * full" full s] by (simp add: add.commute)
qed

lemma served: "turn s q full \<Longrightarrow> i < length q \<Longrightarrow>
    \<exists>s'. run_ticks tick (i * full) s = Some s' \<and> (\<exists>r. turn s' (q ! i # r) full)"
  using turns [of s q i]
  by (cases q) (auto simp: rotate_drop_take Cons_nth_drop_Suc [symmetric])

end

definition sched_turn :: "sched \<Rightarrow> pid list \<Rightarrow> nat \<Rightarrow> bool" where
  "sched_turn s q k \<longleftrightarrow> (\<exists>a. sched_rel s a \<and> busy a \<and> runq a = q \<and> slice a = k)"

interpretation rr: round_robin sched_tick sched_turn 2
proof
  show "0 < (2::nat)" by simp
next
  fix s p q assume "sched_turn s (p # q) 1"
  then obtain a where a: "sched_rel s a" "busy a" "runq a = p # q" "slice a = 1"
    by (auto simp: sched_turn_def)
  then show "\<exists>s'. sched_tick s = Some (s', hd (q @ [p])) \<and> sched_turn s' (q @ [p]) 2"
    using tick_refines [OF a(1)] by (fastforce simp: sched_turn_def a_tick_def a_current_def)
next
  fix s p q k assume "sched_turn s (p # q) (Suc (Suc k))"
  then obtain a where a: "sched_rel s a" "busy a" "runq a = p # q" "slice a = Suc (Suc k)"
    by (auto simp: sched_turn_def)
  then show "\<exists>s'. sched_tick s = Some (s', p) \<and> sched_turn s' (p # q) (Suc k)"
    using tick_refines [OF a(1)] by (fastforce simp: sched_turn_def a_tick_def a_current_def)
qed

end
