(* ===== verification/Sched_Test.thy ===== *)
theory Sched_Test
  imports Sched_Spec
begin

text \<open>
  The self-tests of the scheduler: the \<open>sched_test_*\<close> checks at the end of kernel/sched.c and the
  scenario \<open>test_scheduler\<close> of kernel/scheduler_test.c, which runs them. The scenario is modelled
  as the list of the results of its checks in order, up to the point where \<open>sched_unblock\<close> hands
  the processor to another task and the scenario stops running. Then the properties of the
  scheduler.
\<close>

section \<open>Checks of kernel/sched.c\<close>

text \<open>The loop of \<open>sched_test_size\<close>: it need not end on a queue that is not a ring.\<close>

partial_function (option) ring_length :: "sched_task list \<Rightarrow> pid \<Rightarrow> pid \<Rightarrow> nat \<Rightarrow> nat option" where
  "ring_length ts aux l n = do {
     t \<leftarrow> aget ts aux;
     if t_next t \<noteq> l then ring_length ts (t_next t) l (n + 1) else Some n }"

declare ring_length.simps [code]

definition sched_test_size :: "nat \<Rightarrow> sched \<Rightarrow> bool option" where
  "sched_test_size expected s = do {
     n \<leftarrow> (if last_pid s = 0 then Some 0 else ring_length (tasks s) (last_pid s) (last_pid s) 1);
     Some (n = expected) }"

definition sched_test_last :: "pid \<Rightarrow> sched \<Rightarrow> bool" where
  "sched_test_last expected s \<longleftrightarrow> last_pid s = expected"

definition sched_test_current :: "pid \<Rightarrow> sched \<Rightarrow> bool" where
  "sched_test_current expected s \<longleftrightarrow> current_pid s = expected"

definition sched_test_status :: "pid \<Rightarrow> task_state \<Rightarrow> sched \<Rightarrow> bool option" where
  "sched_test_status p expected s = do { t \<leftarrow> aget (tasks s) p; Some (state t = expected) }"

definition sched_test_node :: "pid \<Rightarrow> pid \<Rightarrow> pid \<Rightarrow> sched \<Rightarrow> bool option" where
  "sched_test_node p next prev s = do { t \<leftarrow> aget (tasks s) p; Some (t_next t = next \<and> t_prev t = prev) }"

lemma ring_length_path:
  "linked (ts_next ts) (ts_prev ts) (ys @ [l]) \<Longrightarrow> ys \<noteq> [] \<Longrightarrow> l \<notin> set (tl ys) \<Longrightarrow>
   (\<forall>p \<in> set ys. inb ts p) \<Longrightarrow> ring_length ts (hd ys) l n = Some (n + length ys - 1)"
proof (induction ys arbitrary: n)
  case Nil
  then show ?case by simp
next
  case (Cons y ys)
  show ?case
  proof (cases ys)
    case Nil
    with Cons.prems show ?thesis
      by (subst ring_length.simps) (simp add: aget_in ts_next_def)
  next
    case (Cons z zs)
    with Cons.prems have "ts_next ts y = z" "z \<noteq> l" "inb ts y" by auto
    moreover have "ring_length ts z l (n + 1) = Some (n + 1 + length ys - 1)"
      using Cons.IH [of "n + 1"] Cons.prems Cons by auto
    ultimately show ?thesis
      using Cons by (subst ring_length.simps) (simp add: aget_in ts_next_def)
  qed
qed

lemma ring_from_member:
  assumes "ring nx pv xs" and "l \<in> set xs"
  obtains ys where "ring nx pv (l # ys)" and "length (l # ys) = length xs" and "set (l # ys) = set xs"
proof -
  have "\<exists>ys. ring nx pv (l # ys) \<and> length (l # ys) = length xs \<and> set (l # ys) = set xs"
    if "ring nx pv (as @ l # bs)" "xs = as @ l # bs" for as bs
  proof -
    have "ring nx pv (as @ l # bs) \<longleftrightarrow> ring nx pv ((l # bs) @ as)" for as bs
    proof (induction as arbitrary: bs)
      case (Cons a as)
      show ?case using ring_rotate [of nx pv a "as @ l # bs"] Cons [of "bs @ [a]"] by simp
    qed simp
    with that show ?thesis by (intro exI [of _ "bs @ as"]) auto
  qed
  then show thesis using that assms split_list by metis
qed

lemma ring_length_counts:
  assumes "runs ts xs" and "l \<in> set xs"
  shows "ring_length ts l l 1 = Some (length xs)"
proof -
  obtain ys where r: "ring (ts_next ts) (ts_prev ts) (l # ys)"
    and l: "length (l # ys) = length xs" "set (l # ys) = set xs"
    using assms ring_from_member unfolding held_def by metis
  have "ring_length ts (hd (l # ys)) l 1 = Some (1 + length (l # ys) - 1)"
    by (rule ring_length_path) (use r l assms in \<open>auto simp: ring_Cons held_def\<close>)
  with l show ?thesis by simp
qed

section \<open>The scenario of kernel/scheduler_test.c\<close>

definition checks :: "bool option list \<Rightarrow> bool list option" where
  "checks cs = those cs"

definition test_scheduler :: "sched \<Rightarrow> bool list option" where
  "test_scheduler s = do {
     s \<leftarrow> sched_load 1 s; s \<leftarrow> sched_load 2 s; s \<leftarrow> sched_load 3 s;
     load \<leftarrow> checks [sched_test_size 3 s, Some (sched_test_last 3 s), Some (sched_test_current 0 s),
       sched_test_status 1 STATE_RUNNING s, sched_test_status 2 STATE_RUNNING s,
       sched_test_status 3 STATE_RUNNING s,
       sched_test_node 1 2 3 s, sched_test_node 2 3 1 s, sched_test_node 3 1 2 s];
     (s, _) \<leftarrow> sched_tick s;
     tick \<leftarrow> checks [sched_test_size 3 s, Some (sched_test_last 3 s), Some (sched_test_current 3 s),
       sched_test_status 1 STATE_RUNNING s, sched_test_status 2 STATE_RUNNING s,
       sched_test_status 3 STATE_RUNNING s,
       sched_test_node 1 2 3 s, sched_test_node 2 3 1 s, sched_test_node 3 1 2 s];
     s \<leftarrow> run_ticks sched_tick 25 s;
     let switch = [sched_test_current 2 s];
     (s, _) \<leftarrow> sched_block s;
     block \<leftarrow> checks [sched_test_size 2 s, Some (sched_test_last 3 s), Some (sched_test_current 3 s),
       sched_test_status 1 STATE_RUNNING s, sched_test_status 2 STATE_BLOCKED s,
       sched_test_status 3 STATE_RUNNING s,
       sched_test_node 1 3 3 s, sched_test_node 2 (-1) (-1) s, sched_test_node 3 1 1 s];
     (s, _) \<leftarrow> sched_exit s;
     exited \<leftarrow> checks [sched_test_size 1 s, Some (sched_test_last 1 s), Some (sched_test_current 1 s),
       sched_test_status 1 STATE_RUNNING s, sched_test_status 2 STATE_BLOCKED s,
       sched_test_status 3 STATE_FINISHED s,
       sched_test_node 1 1 1 s, sched_test_node 2 (-1) (-1) s, sched_test_node 3 (-1) (-1) s];
     (s, w) \<leftarrow> sched_unblock 2 s;
     let printed = load @ tick @ switch @ block @ exited;
     case w of Some _ \<Rightarrow> Some printed
     | None \<Rightarrow> do {
         unblock \<leftarrow> checks [sched_test_size 2 s, Some (sched_test_last 1 s), Some (sched_test_current 1 s),
           sched_test_status 1 STATE_RUNNING s, sched_test_status 2 STATE_RUNNING s,
           sched_test_status 3 STATE_FINISHED s,
           sched_test_node 1 2 2 s, sched_test_node 2 1 1 s, sched_test_node 3 (-1) (-1) s];
         Some (printed @ unblock) } }"

section \<open>Properties\<close>

lemma idle_queue_ticks:
  "sched_rel s a \<Longrightarrow> runq a = [q] \<Longrightarrow>
   \<exists>s' a'. run_ticks sched_tick n s = Some s' \<and> sched_rel s' a' \<and> runq a' = [q]"
proof (induction n arbitrary: s a)
  case 0
  then show ?case by auto
next
  case (Suc n)
  obtain s1 where "sched_tick s = Some (s1, a_current (a_tick a))" "sched_rel s1 (a_tick a)"
    using tick_refines Suc.prems by blast
  moreover have "runq (a_tick a) = [q]" using Suc.prems by (simp add: a_tick_def)
  ultimately show ?case using Suc.IH [of s1 "a_tick a"] by simp
qed

text \<open>C1. From the state the kernel starts in, every sequence of loads, unblocks, exits, blocks and
  clock ticks whose callers keep the rules of \<open>legal\<close> runs without leaving the descriptor array,
  and the pointer structure it ends in is the run queue, the current task, the rest of the time
  slice and the task states that the abstract round-robin queue prescribes.\<close>

theorem sched_run_refines:
  "legal_run es a_start \<Longrightarrow>
   \<exists>s. sched_run es sched_start = Some s \<and> sched_rel s (fold a_step es a_start)"
  using run_refines [OF sched_rel_start] by blast

theorem sched_run_refines_witness:
  "\<exists>s. sched_run [Load 1, Tick, Load 2, Load 3, Tick, Tick, Block, Exit, Unblock 3] sched_start = Some s \<and>
     sched_rel s (fold a_step [Load 1, Tick, Load 2, Load 3, Tick, Tick, Block, Exit, Unblock 3] a_start)"
  by (rule sched_run_refines)
    (simp add: a_start_def a_load_def a_unblock_def a_leave_def a_tick_def enqueue_after_def)

text \<open>C11. Round robin, in every state of the scheduler: the task at place \<open>i\<close> of the run queue is the current
  one after what is left of the current slice and two more clock ticks for each task between them, so
  within two ticks per task ahead of it (the head is current already). While the processor idles, when
  at most one task is queued, that task is current after one tick.\<close>

theorem round_robin_serves:
  assumes "sched_rel s a" and "i < length (runq a)"
  shows "\<exists>n s'. run_ticks sched_tick n s = Some s' \<and> current_pid s' = runq a ! i \<and>
     n = (if \<not> busy a then 1 else if i = 0 then 0 else slice a + 2 * (i - 1)) \<and> n \<le> (if busy a then 2 * i else 1)"
proof (cases "busy a")
  case False
  then have "length (runq a) \<le> 1" "runq a \<noteq> []" using assms by (auto simp: sched_rel_def asched_wf_def)
  then have q: "runq a = [hd (runq a)]" "i = 0" using assms(2) by (cases "runq a"; simp)+
  obtain s' p where "sched_tick s = Some (s', p)" "sched_rel s' (a_tick a)"
    using tick_refines [OF assms(1)] by blast
  moreover have "a_tick a = a\<lparr>busy := True, slice := 2\<rparr>" using False q(1) by (auto simp: a_tick_def)
  ultimately show ?thesis using False q
    by (intro exI [of _ 1] exI [of _ s']) (simp add: sched_rel_def a_current_def hd_conv_nth [of "runq a"] \<open>runq a \<noteq> []\<close>)
next
  case True
  then obtain p q where q: "runq a = p # q" using assms(2) by (cases "runq a") auto
  have sl: "1 \<le> slice a" "slice a \<le> 2" using assms(1) True by (auto simp: sched_rel_def asched_wf_def)
  show ?thesis
  proof (cases i)
    case 0
    then show ?thesis using assms(1) True q by (auto simp: sched_rel_def a_current_def)
  next
    case (Suc j)
    have "sched_turn s (p # q) (Suc (slice a - 1))" using assms(1) True q sl(1) by (auto simp: sched_turn_def)
    from rr.one_turn [OF this] obtain s1 where s1: "run_ticks sched_tick (slice a) s = Some s1" "sched_turn s1 (q @ [p]) 2"
      using sl(1) by auto
    have j: "j < length (q @ [p])" "(q @ [p]) ! j = runq a ! i" using assms(2) q Suc by (auto simp: nth_append)
    obtain s' r where s': "run_ticks sched_tick (j * 2) s1 = Some s'" "sched_turn s' (runq a ! i # r) 2"
      using rr.served [OF s1(2) j(1)] j(2) by auto
    have "run_ticks sched_tick (slice a + 2 * j) s = Some s'"
      using s1(1) s'(1) run_ticks_add [of sched_tick "slice a" "2 * j" s] by (simp add: mult.commute)
    moreover have "current_pid s' = runq a ! i" using s'(2) by (auto simp: sched_turn_def sched_rel_def a_current_def)
    ultimately show ?thesis using True Suc sl(2) by (intro exI [of _ "slice a + 2 * j"] exI [of _ s']) simp
  qed
qed

theorem round_robin_serves_witness:
  "\<exists>s. sched_run [Load 1, Tick, Load 2, Load 3, Tick] sched_start = Some s \<and>
     (\<exists>s'. run_ticks sched_tick 3 s = Some s' \<and> current_pid s' = 2)"
proof -
  let ?es = "[Load 1, Tick, Load 2, Load 3, Tick]"
  let ?a = "fold a_step ?es a_start"
  have e: "runq ?a = [1, 3, 2]" "busy ?a" "slice ?a = 1" "legal_run ?es a_start"
    by (simp_all add: a_start_def a_load_def a_tick_def enqueue_after_def)
  obtain s where s: "sched_run ?es sched_start = Some s" "sched_rel s ?a"
    using run_refines [OF sched_rel_start e(4)] by blast
  have i: "2 < length (runq ?a)" "runq ?a ! 2 = 2" unfolding e(1) by simp_all
  from round_robin_serves [OF s(2) i(1)] obtain n s' where
    n: "run_ticks sched_tick n s = Some s'" "current_pid s' = 2" "n = slice ?a + 2 * (2 - 1)"
    unfolding i(2) using e(2) by auto
  then have "n = 3" unfolding e(3) by simp
  with s(1) n(1,2) show ?thesis by blast
qed

text \<open>While the processor idles, a second \<open>sched_load\<close> loses the task loaded by the first: its
  descriptor still says running, but no number of clock ticks ever makes it current.\<close>

theorem idle_load_loses_task:
  assumes "unat p < 32" and "p \<noteq> 0" and "unat q < 32" and "q \<noteq> 0" and "p \<noteq> q"
  shows "\<exists>s1 s2. sched_load p sched_start = Some s1 \<and> sched_load q s1 = Some s2 \<and>
     state (rd (tasks s2) p) = STATE_RUNNING \<and>
     (\<forall>n. \<exists>s'. run_ticks sched_tick n s2 = Some s' \<and> current_pid s' \<noteq> p)"
proof -
  let ?a = "a_start\<lparr>runq := [p], status := (status a_start)(p := STATE_RUNNING)\<rparr>"
  let ?b = "?a\<lparr>runq := [q], status := (status ?a)(q := STATE_RUNNING)\<rparr>"
  obtain s1 where s1: "sched_load p sched_start = Some s1" "sched_rel s1 ?a"
    using load_idle [OF sched_rel_start assms(1,2)] by (auto simp: a_start_def)
  obtain s2 where s2: "sched_load q s1 = Some s2" "sched_rel s2 ?b"
    using load_idle [OF s1(2) assms(3,4)] by (auto simp: a_start_def)
  have "\<exists>s'. run_ticks sched_tick n s2 = Some s' \<and> current_pid s' \<noteq> p" for n
    using idle_queue_ticks [OF s2(2), of q n] assms by (auto simp: sched_rel_def a_current_def)
  moreover have "state (rd (tasks s2) p) = STATE_RUNNING"
    using s2(2) assms(1) by (auto simp: sched_rel_def a_start_def inb_def MAX_PID_def)
  ultimately show ?thesis using s1(1) s2(1) by blast
qed

theorem idle_load_loses_task_witness:
  "\<exists>s1 s2. sched_load 1 sched_start = Some s1 \<and> sched_load 2 s1 = Some s2 \<and>
     state (rd (tasks s2) 1) = STATE_RUNNING \<and>
     (\<forall>n. \<exists>s'. run_ticks sched_tick n s2 = Some s' \<and> current_pid s' \<noteq> 1)"
  by (rule idle_load_loses_task) simp_all

text \<open>The scenario of kernel/scheduler_test.c, run from the state it is written for, prints
  failures: the three loads leave three rings of one task, so the size check and the node checks
  of the first group already fail, and the later groups test tasks that never ran.\<close>

theorem test_scheduler_fails:
  "test_scheduler sched_start = Some
     ([False, True, True, True, True, True, False, False, False] @
      [False, True, True, True, True, True, False, False, False] @
      [False] @
      [False, False, False, True, False, False, False, False, False] @
      [False, False, False, True, False, False, True, False, True])"
  by code_simp

text \<open>C33. The size check of the scheduler's own tests terminates on every state the scheduler
  reaches, and reports the number of runnable tasks.\<close>

theorem sched_test_size_correct:
  "sched_rel s a \<Longrightarrow> sched_test_size n s = Some (n = length (runq a))"
  by (cases "runq a")
    (auto simp: sched_test_size_def sched_rel_def asched_wf_def ring_length_counts [unfolded One_nat_def])

theorem sched_test_size_correct_witness:
  "sched_rel sched_start a_start \<and> sched_test_size 0 sched_start = Some True"
  using sched_test_size_correct [OF sched_rel_start, of 0] sched_rel_start by (simp add: a_start_def)

text \<open>The idle task must never block: its first \<open>sched_block\<close> only marks it blocked, the second
  reads the descriptor of pid -1, outside the array.\<close>

theorem idle_blocks_twice_faults:
  "\<exists>s. sched_block sched_start = Some (s, 0) \<and> sched_block s = None"
proof -
  define ts where "ts = tasks sched_start"
  let ?ts = "retired 0 STATE_BLOCKED ts"
  let ?s = "sched_start\<lparr>quantum := QUANTUM, tasks := ?ts\<rparr>"
  have i: "inb ts 0" and l: "length ts = 32" and n: "t_next (rd ts 0) = 0"
    by (simp_all add: ts_def sched_start_def sched_init_def inb_def rd_def MAX_PID_def)
  have z: "current_pid sched_start = 0" "last_pid sched_start = 0"
    by (simp_all add: sched_start_def sched_init_def)
  have "sched_block sched_start = Some (?s, 0)"
    using i n z by (simp add: sched_block_def aget_in configure_task_in retired_def flip: ts_def)
  moreover have "t_next (rd ?ts 0) = -1"
    using i by (simp add: retired_def put_fields flip: ts_next_def)
  moreover have "\<not> inb ?ts (-1)" "inb ?ts 0"
    using i l by (simp_all add: retired_frame)
  ultimately show ?thesis
    using z by (simp add: sched_block_def aget_in set_t_prev_def amod_out)
qed

end
