(* ===== verification/Loader.thy ===== *)
theory Loader
  imports Sched_Spec
begin

text \<open>
  The task loader's bookkeeping, kernel/loader.c without the creation of tasks, and the context
  switch of kernel/loader_switch.asm. The record \<open>kern\<close> is the kernel state these functions work
  on: the scheduler's variables, the task table, the list of free pids, the counters of the status
  bar, the system call table and the two registers a context switch replaces. Later theories
  extend it with their own state, so the operations are stated for every extension.

  A wait queue is an \<open>int\<close> of its owner (a semaphore) that holds the pid of the first waiting
  task or -1; the queue itself is a ring through \<open>q_next\<close> and \<open>q_prev\<close> of the task table. C passes
  a pointer to that \<open>int\<close>; the model passes its value and returns the new one.

  A function that ends in \<open>loader_switchto\<close> returns, in the model, the state in which the next
  task starts to run; what the caller does after the switch is done when it is scheduled again.
\<close>

section \<open>State\<close>

datatype syscall = Sys_palloc | Sys_getpid | Sys_exit | Sys_read | Sys_write | Sys_seek
  | Sys_close | Sys_open | Sys_fork | Sys_run | Sys_share_page | Sys_pipe

record task =
  q_next :: u32
  q_prev :: u32
  cr3 :: u32
  esp0 :: u32

record kern =
  sch :: sched
  task_table :: "task list"
  cur_pid :: pid
  tasks_running :: u32
  tasks_blocked :: u32
  free_pids :: "u32 list"
  next_free :: u32
  syscall_list :: "syscall option list"
  reg_cr3 :: u32
  reg_esp :: u32

definition set_q_next :: "pid \<Rightarrow> pid \<Rightarrow> task list \<Rightarrow> task list option" where
  "set_q_next p v tt = amod tt p (\<lambda>t. t\<lparr>q_next := v\<rparr>)"

definition set_q_prev :: "pid \<Rightarrow> pid \<Rightarrow> task list \<Rightarrow> task list option" where
  "set_q_prev p v tt = amod tt p (\<lambda>t. t\<lparr>q_prev := v\<rparr>)"

definition register_syscall :: "u32 \<Rightarrow> syscall \<Rightarrow> 'a kern_scheme \<Rightarrow> 'a kern_scheme option" where
  "register_syscall n h k = do {
     l \<leftarrow> aput (syscall_list k) n (Some h);
     Some (k\<lparr>syscall_list := l\<rparr>) }"

section \<open>Pids\<close>

definition loader_init :: "'a kern_scheme \<Rightarrow> 'a kern_scheme option" where
  "loader_init k = do {
     fp \<leftarrow> aput (free_pids k) 0 (-1);
     fp \<leftarrow> for_range 1 (MAX_PID - 1) (\<lambda>i fp. aput fp (of_nat i) (of_nat i + 1)) fp;
     fp \<leftarrow> aput fp (of_nat (MAX_PID - 1)) (-1);
     tt \<leftarrow> for_range 0 MAX_PID (\<lambda>i tt. amod tt (of_nat i) (\<lambda>t. t\<lparr>cr3 := 0\<rparr>)) (task_table k);
     tt \<leftarrow> amod tt 0 (\<lambda>t. t\<lparr>cr3 := reg_cr3 k\<rparr>);
     k \<leftarrow> Some (k\<lparr>free_pids := fp, next_free := 1, cur_pid := 0, tasks_running := 0,
                  tasks_blocked := 0, task_table := tt\<rparr>);
     k \<leftarrow> register_syscall 0x31 Sys_getpid k;
     k \<leftarrow> register_syscall 0x32 Sys_exit k;
     register_syscall 0x38 Sys_fork k }"

definition get_new_pid :: "'a kern_scheme \<Rightarrow> (pid \<times> 'a kern_scheme) option" where
  "get_new_pid k = do {
     n \<leftarrow> aget (free_pids k) (next_free k);
     Some (next_free k, k\<lparr>next_free := n\<rparr>) }"

definition free_pid :: "pid \<Rightarrow> 'a kern_scheme \<Rightarrow> 'a kern_scheme option" where
  "free_pid p k = do {
     fp \<leftarrow> aput (free_pids k) p (next_free k);
     Some (k\<lparr>free_pids := fp, next_free := p\<rparr>) }"

definition sys_getpid :: "'a kern_scheme \<Rightarrow> u32" where
  "sys_getpid k = cur_pid k"

section \<open>Context switch\<close>

text \<open>
  The routine pushes four registers (16 bytes) before it saves the stack pointer and pops as many
  after it has loaded the new one; \<open>reg_esp\<close> is the stack pointer at its entry and at its \<open>ret\<close>.
\<close>

definition loader_switchto :: "pid \<Rightarrow> 'a kern_scheme \<Rightarrow> 'a kern_scheme option" where
  "loader_switchto p k = do {
     tt \<leftarrow> amod (task_table k) (cur_pid k) (\<lambda>t. t\<lparr>esp0 := reg_esp k - 16\<rparr>);
     t \<leftarrow> aget tt p;
     Some (k\<lparr>task_table := tt, reg_cr3 := cr3 t, reg_esp := esp0 t + 16, cur_pid := p\<rparr>) }"

definition loader_tick :: "'a kern_scheme \<Rightarrow> 'a kern_scheme option" where
  "loader_tick k = do {
     (s, new_current_pid) \<leftarrow> sched_tick (sch k);
     k \<leftarrow> Some (k\<lparr>sch := s\<rparr>);
     if new_current_pid \<noteq> cur_pid k then loader_switchto new_current_pid k else Some k }"

section \<open>Wait queues\<close>

definition loader_enqueue :: "u32 \<Rightarrow> 'a kern_scheme \<Rightarrow> (u32 \<times> 'a kern_scheme) option" where
  "loader_enqueue cola k = do {
     (cola, tt) \<leftarrow>
       (if cola = -1 then do {
          tt \<leftarrow> set_q_next (cur_pid k) (cur_pid k) (task_table k);
          tt \<leftarrow> set_q_prev (cur_pid k) (cur_pid k) tt;
          Some (cur_pid k, tt) }
        else do {
          h \<leftarrow> aget (task_table k) cola;
          tt \<leftarrow> set_q_next (q_prev h) (cur_pid k) (task_table k);
          tt \<leftarrow> set_q_prev cola (cur_pid k) tt;
          tt \<leftarrow> set_q_next (cur_pid k) cola tt;
          tt \<leftarrow> set_q_prev (cur_pid k) (q_prev h) tt;
          Some (cola, tt) });
     (s, i) \<leftarrow> sched_block (sch k);
     k \<leftarrow> loader_switchto i (k\<lparr>task_table := tt, sch := s,
            tasks_blocked := tasks_blocked k + 1, tasks_running := tasks_running k - 1\<rparr>);
     Some (cola, k) }"

definition loader_unqueue :: "u32 \<Rightarrow> 'a kern_scheme \<Rightarrow> (u32 \<times> 'a kern_scheme) option" where
  "loader_unqueue cola k =
     (if cola \<noteq> -1 then do {
        h \<leftarrow> aget (task_table k) cola;
        tt \<leftarrow> set_q_prev (q_next h) (q_prev h) (task_table k);
        tt \<leftarrow> set_q_next (q_prev h) (q_next h) tt;
        tt \<leftarrow> set_q_next cola (-1) tt;
        tt \<leftarrow> set_q_prev cola (-1) tt;
        k \<leftarrow> Some (k\<lparr>task_table := tt,
               tasks_blocked := tasks_blocked k - 1, tasks_running := tasks_running k + 1\<rparr>);
        (s, sw) \<leftarrow> sched_unblock cola (sch k);
        k \<leftarrow> (case sw of None \<Rightarrow> Some (k\<lparr>sch := s\<rparr>) | Some p \<Rightarrow> loader_switchto p (k\<lparr>sch := s\<rparr>));
        Some (if q_next h = cola then -1 else q_next h, k) }
      else Some (cola, k))"

section \<open>The task table as a ring store\<close>

definition tt_next :: "task list \<Rightarrow> pid \<Rightarrow> pid" where
  "tt_next tt p = q_next (rd tt p)"

definition tt_prev :: "task list \<Rightarrow> pid \<Rightarrow> pid" where
  "tt_prev tt p = q_prev (rd tt p)"

definition put_q_next :: "pid \<Rightarrow> pid \<Rightarrow> task list \<Rightarrow> task list" where
  "put_q_next p v tt = upd tt p (\<lambda>t. t\<lparr>q_next := v\<rparr>)"

definition put_q_prev :: "pid \<Rightarrow> pid \<Rightarrow> task list \<Rightarrow> task list" where
  "put_q_prev p v tt = upd tt p (\<lambda>t. t\<lparr>q_prev := v\<rparr>)"

definition save_esp :: "pid \<Rightarrow> u32 \<Rightarrow> task list \<Rightarrow> task list" where
  "save_esp p v tt = upd tt p (\<lambda>t. t\<lparr>esp0 := v\<rparr>)"

lemma set_q_in:
  "inb tt p \<Longrightarrow> set_q_next p v tt = Some (put_q_next p v tt)"
  "inb tt p \<Longrightarrow> set_q_prev p v tt = Some (put_q_prev p v tt)"
  by (simp_all add: set_q_next_def set_q_prev_def put_q_next_def put_q_prev_def amod_in)

lemma put_q_frame [simp]:
  "inb (put_q_next p v tt) q = inb tt q"
  "inb (put_q_prev p v tt) q = inb tt q"
  "inb (save_esp p e tt) q = inb tt q"
  "length (put_q_next p v tt) = length tt"
  "length (put_q_prev p v tt) = length tt"
  "length (save_esp p e tt) = length tt"
  by (simp_all add: put_q_next_def put_q_prev_def save_esp_def inb_upd)

lemma put_q_fields:
  "inb tt p \<Longrightarrow> tt_next (put_q_next p v tt) = (tt_next tt)(p := v)"
  "inb tt p \<Longrightarrow> tt_prev (put_q_prev p v tt) = (tt_prev tt)(p := v)"
  "inb tt p \<Longrightarrow> tt_next (put_q_prev p v tt) = tt_next tt"
  "inb tt p \<Longrightarrow> tt_prev (put_q_next p v tt) = tt_prev tt"
  "inb tt p \<Longrightarrow> tt_next (save_esp p e tt) = tt_next tt"
  "inb tt p \<Longrightarrow> tt_prev (save_esp p e tt) = tt_prev tt"
  by (auto simp: tt_next_def tt_prev_def put_q_next_def put_q_prev_def save_esp_def rd_upd fun_eq_iff)

lemma put_q_cr3 [simp]:
  "inb tt p \<Longrightarrow> cr3 (rd (put_q_next p v tt) q) = cr3 (rd tt q)"
  "inb tt p \<Longrightarrow> cr3 (rd (put_q_prev p v tt) q) = cr3 (rd tt q)"
  "inb tt p \<Longrightarrow> cr3 (rd (save_esp p e tt) q) = cr3 (rd tt q)"
  by (auto simp: put_q_next_def put_q_prev_def save_esp_def rd_upd)

interpretation wq: ring_store tt_next tt_prev put_q_next put_q_prev inb
  by unfold_locales (auto simp: put_q_fields)

abbreviation waits :: "task list \<Rightarrow> pid list \<Rightarrow> bool" where
  "waits \<equiv> held tt_next tt_prev inb"

lemma waits_save_esp: "waits tt xs \<Longrightarrow> inb tt p \<Longrightarrow> waits (save_esp p e tt) xs"
  by (simp add: held_def put_q_fields)

lemma waits_only_fields:
  "length tt' = length tt \<Longrightarrow> (\<And>p. p \<in> set xs \<Longrightarrow> tt_next tt' p = tt_next tt p \<and> tt_prev tt' p = tt_prev tt p) \<Longrightarrow>
   waits tt xs \<Longrightarrow> waits tt' xs"
  using ring_cong [of xs "tt_next tt'" "tt_next tt" "tt_prev tt'" "tt_prev tt"]
  by (auto simp: held_def inb_def)

lemma switchto_in:
  "inb (task_table k) (cur_pid k) \<Longrightarrow> inb (task_table k) p \<Longrightarrow>
   loader_switchto p k = Some (let tt = save_esp (cur_pid k) (reg_esp k - 16) (task_table k)
     in k\<lparr>task_table := tt, reg_cr3 := cr3 (rd tt p), reg_esp := esp0 (rd tt p) + 16, cur_pid := p\<rparr>)"
  by (auto simp: loader_switchto_def save_esp_def amod_in aget_in inb_upd Let_def rd_upd)

end
