(* ===== verification/Loader_Spec.thy ===== *)
theory Loader_Spec
  imports Loader "HOL-Library.Multiset"
begin

text \<open>
  What the loader's wait queues, clock tick and pid list promise. \<open>kern_rel k a W\<close> relates the
  kernel state to the abstract scheduler \<open>a\<close> and to the contents \<open>W\<close> of all wait queues, one list
  of pids for each, in the order in which the tasks will be released. It carries the invariants of
  the module: the loader and the scheduler agree on the current task, the loaded page directory is
  that task's, no task waits in two queues, the waiting tasks are the blocked ones, and the two
  counters of the status bar count the runnable and the waiting tasks.
\<close>

section \<open>Abstraction\<close>

definition queue_head :: "pid list \<Rightarrow> u32" where
  "queue_head w = (if w = [] then -1 else hd w)"

definition kern_mid :: "'a kern_scheme \<Rightarrow> asched \<Rightarrow> pid list list \<Rightarrow> bool" where
  "kern_mid k a W \<longleftrightarrow> sched_rel (sch k) a \<and> inb (task_table k) (cur_pid k) \<and>
     length (task_table k) = MAX_PID \<and> distinct (concat W) \<and> 0 \<notin> set (concat W) \<and>
     (\<forall>w \<in> set W. waits (task_table k) w) \<and>
     (\<forall>p \<in> set (concat W). status a p = STATE_BLOCKED) \<and>
     tasks_running k = of_nat (length (runq a)) \<and> tasks_blocked k = of_nat (length (concat W)) \<and>
     (slice a = 0 \<or> \<not> busy a \<and> runq a \<noteq> [] \<longrightarrow> concat W = [])"

definition kern_rel :: "'a kern_scheme \<Rightarrow> asched \<Rightarrow> pid list list \<Rightarrow> bool" where
  "kern_rel k a W \<longleftrightarrow> kern_mid k a W \<and> cur_pid k = a_current a \<and>
     reg_cr3 k = cr3 (rd (task_table k) (cur_pid k))"

text \<open>What none of the operations below touches.\<close>

definition same_rest :: "'a kern_scheme \<Rightarrow> 'a kern_scheme \<Rightarrow> bool" where
  "same_rest k k' \<longleftrightarrow> free_pids k' = free_pids k \<and> next_free k' = next_free k \<and>
     syscall_list k' = syscall_list k \<and> kern.more k' = kern.more k \<and>
     map cr3 (task_table k') = map cr3 (task_table k)"

lemma same_rest_refl [simp]: "same_rest k k"
  by (simp add: same_rest_def)

lemma same_rest_trans: "same_rest k k1 \<Longrightarrow> same_rest k1 k2 \<Longrightarrow> same_rest k k2"
  by (simp add: same_rest_def)

lemma map_cr3_put [simp]:
  "map cr3 (put_q_next p v tt) = map cr3 tt"
  "map cr3 (put_q_prev p v tt) = map cr3 tt"
  "map cr3 (save_esp p e tt) = map cr3 tt"
  by (simp_all add: put_q_next_def put_q_prev_def save_esp_def map_upd_same)

lemma queue_head_simps [simp]:
  "queue_head [] = -1" "queue_head (p # w) = p"
  by (simp_all add: queue_head_def)

lemma inb_max_pid:
  assumes "inb tt p" and "length tt = MAX_PID"
  shows "p \<noteq> -1" "unat p < 32"
  using assms inb_not_minus_one [OF assms(1)] by (simp_all add: inb_def MAX_PID_def)

lemma sched_rel_a_current: "sched_rel s a \<Longrightarrow> unat (a_current a) < 32"
  by (cases "runq a")
    (auto simp: sched_rel_def asched_wf_def a_current_def held_def inb_def MAX_PID_def)

section \<open>Context switch and clock tick\<close>

lemma switchto_rel:
  assumes "kern_mid k a W"
  shows "\<exists>k'. loader_switchto (a_current a) k = Some k' \<and> kern_rel k' a W \<and> same_rest k k'"
proof -
  have i: "inb (task_table k) (cur_pid k)" "inb (task_table k) (a_current a)"
    using assms sched_rel_a_current [of "sch k" a] by (auto simp: kern_mid_def inb_def MAX_PID_def)
  have w: "waits (save_esp p e (task_table k)) w" if "w \<in> set W" "p = cur_pid k" for w e p
    using that assms i by (auto simp: kern_mid_def intro: waits_save_esp)
  show ?thesis
    unfolding switchto_in [OF i]
    using assms i w by (auto simp: kern_rel_def kern_mid_def same_rest_def Let_def)
qed

lemma loader_tick_refines:
  assumes rel: "kern_rel k a W"
  shows "\<exists>k'. loader_tick k = Some k' \<and> kern_rel k' (a_tick a) W \<and> same_rest k k'"
proof -
  obtain s where s: "sched_tick (sch k) = Some (s, a_current (a_tick a))" "sched_rel s (a_tick a)"
    using tick_refines [of "sch k" a] rel by (auto simp: kern_rel_def kern_mid_def)
  let ?k = "k\<lparr>sch := s\<rparr>"
  have sl: "slice (a_tick a) = 0 \<longrightarrow> slice a = 0" "length (runq (a_tick a)) = length (runq a)"
    "status (a_tick a) = status a"
    using rel by (auto simp: a_tick_def kern_rel_def kern_mid_def sched_rel_def asched_wf_def)
  have b: "\<not> busy (a_tick a) \<longrightarrow> runq (a_tick a) = []" by (auto simp: a_tick_def)
  have m: "kern_mid ?k (a_tick a) W" using rel s sl b by (auto simp: kern_rel_def kern_mid_def)
  show ?thesis
  proof (cases "a_current (a_tick a) = cur_pid k")
    case True
    then show ?thesis using m rel s by (auto simp: loader_tick_def kern_rel_def same_rest_def)
  next
    case False
    then show ?thesis using switchto_rel [OF m] s by (auto simp: loader_tick_def same_rest_def)
  qed
qed

section \<open>Wait queues\<close>

lemma wait_next_inb: "waits tt (h # xs) \<Longrightarrow> inb tt (tt_next tt h)"
  using ring_next_mem by (fastforce simp: held_def)

lemma wait_prev_inb: "waits tt (h # xs) \<Longrightarrow> inb tt (tt_prev tt h)"
  using ring_prev_mem by (fastforce simp: held_def)

text \<open>The task table after pid \<open>c\<close> has been put at the end of the queue \<open>w\<close>.\<close>

definition queued :: "pid \<Rightarrow> pid list \<Rightarrow> task list \<Rightarrow> task list" where
  "queued c w tt = (if w = [] then put_q_prev c c (put_q_next c c tt)
     else put_q_prev c (tt_prev tt (hd w)) (put_q_next c (hd w)
            (put_q_prev (hd w) c (put_q_next (tt_prev tt (hd w)) c tt))))"

lemma queued_waits:
  assumes "waits tt w" and "inb tt c" and "c \<notin> set w"
  shows "waits (queued c w tt) (w @ [c])"
  using assms wq.alone [of tt c] wq.insert_last [of tt "hd w" "tl w" c]
  by (cases w) (auto simp: queued_def)

lemma queued_other:
  assumes w: "waits tt w" and c: "inb tt c" and v: "waits tt v" "c \<notin> set v" "set w \<inter> set v = {}"
  shows "waits (queued c w tt) v"
proof (cases w)
  case Nil
  then show ?thesis using c v by (auto simp: queued_def intro!: wq.frame_nx wq.frame_pv)
next
  case (Cons h xs)
  have "tt_prev tt h \<in> set w" "inb tt h" using w Cons ring_prev_mem by (fastforce simp: held_def)+
  then show ?thesis
    using w c v Cons wait_prev_inb [of tt h xs]
    by (auto simp: queued_def held_def [of _ _ _ _ w] intro!: wq.frame_nx wq.frame_pv)
qed

lemma queued_frame [simp]:
  "length (queued c w tt) = length tt" "inb (queued c w tt) q = inb tt q"
  "map cr3 (queued c w tt) = map cr3 tt"
  by (simp_all add: queued_def)

lemma enqueue_code:
  assumes "waits tt w" and "inb tt c" and "length tt = MAX_PID"
  shows "(if queue_head w = -1 then do {
            tt \<leftarrow> set_q_next c c tt; tt \<leftarrow> set_q_prev c c tt; Some (c, tt) }
          else do {
            h \<leftarrow> aget tt (queue_head w);
            tt \<leftarrow> set_q_next (q_prev h) c tt;
            tt \<leftarrow> set_q_prev (queue_head w) c tt;
            tt \<leftarrow> set_q_next c (queue_head w) tt;
            tt \<leftarrow> set_q_prev c (q_prev h) tt;
            Some (queue_head w, tt) }) =
         Some (queue_head (w @ [c]), queued c w tt)"
proof (cases w)
  case Nil
  then show ?thesis using assms by (simp add: set_q_in queued_def)
next
  case (Cons h xs)
  then have "inb tt h" "inb tt (tt_prev tt h)" using assms wait_prev_inb by (auto simp: held_def)
  moreover from this have "h \<noteq> -1" using inb_max_pid assms(3) by blast
  ultimately show ?thesis using assms Cons
    by (auto simp: set_q_in aget_in queued_def simp flip: tt_prev_def)
qed

lemma enqueue_refines:
  assumes rel: "kern_rel k a (w # W)" and b: "busy a"
  shows "\<exists>k'. loader_enqueue (queue_head w) k = Some (queue_head (w @ [cur_pid k]), k') \<and>
     kern_rel k' (a_leave STATE_BLOCKED a) ((w @ [cur_pid k]) # W) \<and> same_rest k k'"
proof -
  let ?c = "cur_pid k" and ?a = "a_leave STATE_BLOCKED a" and ?tt = "queued (cur_pid k) w (task_table k)"
  have sr: "sched_rel (sch k) a" and cc: "?c = a_current a" and ic: "inb (task_table k) ?c"
    and wt: "waits (task_table k) w" and L: "length (task_table k) = MAX_PID"
    using rel by (auto simp: kern_rel_def kern_mid_def)
  have "current_pid (sch k) = ?c" using sr cc by (simp add: sched_rel_def)
  then obtain xs where q: "runq a = ?c # xs" and c0: "?c \<noteq> 0"
    using sched_rel_current [OF sr b] by metis
  then have st: "status a ?c = STATE_RUNNING" "distinct (?c # xs)"
    using sr by (auto simp: sched_rel_def asched_wf_def)
  have bl: "\<forall>p \<in> set (concat (w # W)). status a p = STATE_BLOCKED" and d: "distinct (concat (w # W))"
    using rel by (simp_all add: kern_rel_def kern_mid_def)
  then have nc: "?c \<notin> set (concat (w # W))" using st by fastforce
  obtain s where s: "sched_block (sch k) = Some (s, a_current ?a)" "sched_rel s ?a"
    using block_refines [OF sr b] by blast
  let ?k = "k\<lparr>task_table := ?tt, sch := s, tasks_blocked := tasks_blocked k + 1,
              tasks_running := tasks_running k - 1\<rparr>"
  have "waits ?tt v" if "v \<in> set W" for v
  proof (rule queued_other [OF wt ic])
    show "waits (task_table k) v" using that rel by (simp add: kern_rel_def kern_mid_def)
    show "?c \<notin> set v" "set w \<inter> set v = {}" using that nc d by auto
  qed
  moreover have "waits ?tt (w @ [?c])" by (rule queued_waits [OF wt ic]) (use nc in auto)
  moreover have "distinct (concat ((w @ [?c]) # W))" "0 \<notin> set (concat ((w @ [?c]) # W))"
    using rel nc c0 by (auto simp: kern_rel_def kern_mid_def)
  moreover have "\<forall>p \<in> set (concat ((w @ [?c]) # W)). status ?a p = STATE_BLOCKED"
    using bl q by (auto simp: a_leave_def)
  moreover have "slice ?a = 2" "busy ?a \<or> runq ?a = []" "runq a = ?c # runq ?a"
    using q by (auto simp: a_leave_def)
  ultimately have m: "kern_mid ?k ?a ((w @ [?c]) # W)"
    using s rel ic by (simp add: kern_rel_def kern_mid_def)
  obtain k' where k': "loader_switchto (a_current ?a) ?k = Some k'" "kern_rel k' ?a ((w @ [?c]) # W)"
    "same_rest ?k k'"
    using switchto_rel [OF m] by blast
  have "loader_enqueue (queue_head w) k = Some (queue_head (w @ [?c]), k')"
    unfolding loader_enqueue_def enqueue_code [OF wt ic L] using s k' by simp
  moreover have "same_rest k k'" using k'(3) by (simp add: same_rest_def)
  ultimately show ?thesis using k' by blast
qed

text \<open>The task table after the head \<open>p\<close> of a queue has been taken out.\<close>

definition released :: "pid \<Rightarrow> task list \<Rightarrow> task list" where
  "released p tt = put_q_prev p (-1) (put_q_next p (-1)
     (put_q_next (tt_prev tt p) (tt_next tt p) (put_q_prev (tt_next tt p) (tt_prev tt p) tt)))"

lemma released_waits:
  assumes "waits tt (p # w)"
  shows "waits (released p tt) w"
proof (cases "w = []")
  case True
  then show ?thesis by (simp add: held_def)
next
  case False
  have "inb tt p" "p \<notin> set w" using assms by (auto simp: held_def ring_Cons)
  then show ?thesis
    unfolding released_def by (intro wq.frame_pv [of _ w p] wq.frame_nx [of _ w p] wq.unlink [OF assms False]) auto
qed

lemma released_other:
  assumes w: "waits tt (p # w)" and v: "waits tt v" "set (p # w) \<inter> set v = {}"
  shows "waits (released p tt) v"
proof -
  have "tt_prev tt p \<in> set (p # w)" "tt_next tt p \<in> set (p # w)"
    using w ring_prev_mem ring_next_mem by (fastforce simp: held_def)+
  moreover have "inb tt p" using w by (simp add: held_def)
  ultimately show ?thesis
    using v wait_next_inb [OF w] wait_prev_inb [OF w] unfolding released_def
    by (intro wq.frame_pv wq.frame_nx) auto
qed

lemma released_frame [simp]:
  "length (released p tt) = length tt" "inb (released p tt) q = inb tt q"
  "map cr3 (released p tt) = map cr3 tt"
  by (simp_all add: released_def)

lemma cr3_cong:
  "map cr3 tt' = map cr3 tt \<Longrightarrow> inb tt p \<Longrightarrow> cr3 (rd tt' p) = cr3 (rd tt p)"
  by (metis inb_def length_map nth_map rd_def)

lemma unqueue_refines:
  assumes rel: "kern_rel k a ((p # w) # W)"
  shows "\<exists>k'. loader_unqueue p k = Some (queue_head w, k') \<and>
     kern_rel k' (a_unblock p a) (w # W) \<and> same_rest k k'"
proof -
  let ?tt = "released p (task_table k)" and ?a = "a_unblock p a"
  have sr: "sched_rel (sch k) a" and cc: "cur_pid k = a_current a" and ic: "inb (task_table k) (cur_pid k)"
    and wt: "waits (task_table k) (p # w)" and L: "length (task_table k) = MAX_PID"
    and p: "p \<noteq> 0" "status a p = STATE_BLOCKED" and idle: "busy a \<or> runq a = []" "1 \<le> slice a"
    and d: "distinct (concat ((p # w) # W))"
    using rel by (auto simp: kern_rel_def kern_mid_def)
  have ip: "inb (task_table k) p" using wt by (simp add: held_def)
  then have p32: "unat p < 32" "p \<noteq> -1" using L inb_max_pid by blast+
  have pr: "p \<notin> set (runq a)" using sr p by (auto simp: sched_rel_def asched_wf_def)
  obtain s where s: "sched_unblock p (sch k) = Some (s, if busy a then None else Some p)" "sched_rel s ?a"
    using unblock_refines [OF sr p32(1) p(1) pr idle] by blast
  let ?k = "k\<lparr>task_table := ?tt, tasks_blocked := tasks_blocked k - 1,
              tasks_running := tasks_running k + 1, sch := s\<rparr>"
  have "waits ?tt v" if "v \<in> set W" for v
    using that rel d by (intro released_other [OF wt]) (auto simp: kern_rel_def kern_mid_def)
  moreover have "waits ?tt w" by (rule released_waits [OF wt])
  moreover have "length (runq ?a) = Suc (length (runq a))" "slice ?a = slice a" "busy ?a"
    by (cases "runq a"; simp add: a_unblock_def enqueue_after_def)+
  ultimately have m: "kern_mid ?k ?a (w # W)"
    using rel s d idle by (auto simp: kern_rel_def kern_mid_def a_unblock_def)
  have n: "tt_next (task_table k) p = hd (w @ [p])" using wt ring_next_head by (fastforce simp: held_def)
  have h: "queue_head w = (if tt_next (task_table k) p = p then -1 else tt_next (task_table k) p)"
    using n d by (cases w) auto
  have code: "loader_unqueue p k = do {
       k' \<leftarrow> (if busy a then Some ?k else loader_switchto p ?k); Some (queue_head w, k') }"
    using s p32(2) ip wait_next_inb [OF wt] wait_prev_inb [OF wt] h
    by (simp add: loader_unqueue_def set_q_in aget_in released_def flip: tt_next_def tt_prev_def)
  show ?thesis
  proof (cases "busy a")
    case True
    have "a_current ?a = a_current a"
      using True sr by (cases "runq a") (auto simp: a_current_def a_unblock_def enqueue_after_def sched_rel_def asched_wf_def)
    moreover have "cr3 (rd ?tt (cur_pid k)) = cr3 (rd (task_table k) (cur_pid k))"
      by (rule cr3_cong [OF _ ic]) simp
    ultimately have "kern_rel ?k ?a (w # W)" using m rel cc by (simp add: kern_rel_def)
    then show ?thesis using code True by (simp add: same_rest_def)
  next
    case False
    then have "a_current ?a = p" using idle by (simp add: a_current_def a_unblock_def enqueue_after_def)
    then obtain k' where "loader_switchto p ?k = Some k'" "kern_rel k' ?a (w # W)" "same_rest ?k k'"
      using switchto_rel [OF m] by auto
    then show ?thesis using code False by (auto simp: same_rest_def)
  qed
qed

section \<open>Runs over several queues\<close>

lemma kern_rel_perm:
  assumes "mset W = mset W'"
  shows "kern_rel k a W = kern_rel k a W'"
proof -
  have s: "set W = set W'" using assms by (metis set_mset_mset)
  have m: "mset (concat W) = mset (concat W')" using assms by (metis mset_concat mset_map sum_mset_sum_list)
  then have "set (concat W) = set (concat W')" "length (concat W) = length (concat W')"
    "distinct (concat W) = distinct (concat W')"
    by (rule mset_eq_setD mset_eq_length mset_eq_imp_distinct_iff; assumption)+
  moreover have "concat W = [] \<longleftrightarrow> concat W' = []" using m by (metis mset_zero_iff)
  ultimately show ?thesis using s unfolding kern_rel_def kern_mid_def by simp
qed

definition others :: "nat \<Rightarrow> 'b list \<Rightarrow> 'b list" where
  "others i W = take i W @ drop (Suc i) W"

lemma focus:
  "i < length W \<Longrightarrow> kern_rel k a W \<longleftrightarrow> kern_rel k a (W ! i # others i W)"
  "i < length W \<Longrightarrow> kern_rel k a (W[i := w]) \<longleftrightarrow> kern_rel k a (w # others i W)"
proof -
  assume i: "i < length W"
  have "mset W = mset (W ! i # others i W)"
    by (subst id_take_nth_drop [OF i]) (simp add: others_def)
  then show "kern_rel k a W \<longleftrightarrow> kern_rel k a (W ! i # others i W)" by (rule kern_rel_perm)
  have "mset (W[i := w]) = mset (w # others i W)"
    using i by (simp add: upd_conv_take_nth_drop others_def)
  then show "kern_rel k a (W[i := w]) \<longleftrightarrow> kern_rel k a (w # others i W)" by (rule kern_rel_perm)
qed

datatype loader_event = Enqueue nat | Unqueue nat | Loader_tick

text \<open>The \<open>int\<close>s that hold the heads of the queues are part of the state.\<close>

fun loader_step :: "loader_event \<Rightarrow> u32 list \<times> 'a kern_scheme \<Rightarrow> (u32 list \<times> 'a kern_scheme) option" where
  "loader_step (Enqueue i) (qs, k) = do { (c, k) \<leftarrow> loader_enqueue (qs ! i) k; Some (qs[i := c], k) }"
| "loader_step (Unqueue i) (qs, k) = do { (c, k) \<leftarrow> loader_unqueue (qs ! i) k; Some (qs[i := c], k) }"
| "loader_step Loader_tick (qs, k) = map_option (Pair qs) (loader_tick k)"

fun loader_run :: "loader_event list \<Rightarrow> u32 list \<times> 'a kern_scheme \<Rightarrow> (u32 list \<times> 'a kern_scheme) option" where
  "loader_run [] x = Some x"
| "loader_run (e # es) x = do { x \<leftarrow> loader_step e x; loader_run es x }"

fun queues_step :: "loader_event \<Rightarrow> pid list list \<times> asched \<Rightarrow> pid list list \<times> asched" where
  "queues_step (Enqueue i) (W, a) = (W[i := W ! i @ [a_current a]], a_leave STATE_BLOCKED a)"
| "queues_step (Unqueue i) (W, a) =
     (case W ! i of [] \<Rightarrow> (W, a) | p # w \<Rightarrow> (W[i := w], a_unblock p a))"
| "queues_step Loader_tick (W, a) = (W, a_tick a)"

fun queues_legal :: "loader_event list \<Rightarrow> pid list list \<times> asched \<Rightarrow> bool" where
  "queues_legal [] x \<longleftrightarrow> True"
| "queues_legal (e # es) (W, a) \<longleftrightarrow>
     (case e of Enqueue i \<Rightarrow> i < length W \<and> busy a | Unqueue i \<Rightarrow> i < length W | Loader_tick \<Rightarrow> True) \<and>
     queues_legal es (queues_step e (W, a))"

lemma loader_step_refines:
  assumes "kern_rel k a W" and "queues_legal [e] (W, a)"
  shows "\<exists>k'. loader_step e (map queue_head W, k) = Some (map queue_head (fst (queues_step e (W, a))), k') \<and>
     kern_rel k' (snd (queues_step e (W, a))) (fst (queues_step e (W, a)))"
proof (cases e)
  case (Enqueue i)
  then have i: "i < length W" and b: "busy a" using assms by auto
  have "cur_pid k = a_current a" using assms by (simp add: kern_rel_def)
  moreover have "kern_rel k a (W ! i # others i W)" using assms(1) focus(1) [OF i] by blast
  ultimately obtain k' where "loader_enqueue (queue_head (W ! i)) k = Some (queue_head (W ! i @ [a_current a]), k')"
    "kern_rel k' (a_leave STATE_BLOCKED a) ((W ! i @ [a_current a]) # others i W)"
    using enqueue_refines [of k a "W ! i" "others i W"] b by auto
  then show ?thesis using i Enqueue by (simp add: map_update focus(2))
next
  case (Unqueue i)
  then have i: "i < length W" using assms by simp
  show ?thesis
  proof (cases "W ! i")
    case Nil
    then have "(map queue_head W)[i := -1] = map queue_head W"
      using i by (metis list_update_id nth_map queue_head_simps(1))
    then show ?thesis using Unqueue Nil i assms(1) by (simp add: loader_unqueue_def)
  next
    case (Cons p w)
    moreover have "kern_rel k a (W ! i # others i W)" using assms(1) focus(1) [OF i] by blast
    ultimately obtain k' where "loader_unqueue p k = Some (queue_head w, k')"
      "kern_rel k' (a_unblock p a) (w # others i W)"
      using unqueue_refines [of k a p w "others i W"] by auto
    then show ?thesis using i Unqueue Cons by (simp add: map_update focus(2))
  qed
next
  case Loader_tick
  then show ?thesis using loader_tick_refines assms(1) by fastforce
qed

lemma loader_run_refines:
  "kern_rel k a W \<Longrightarrow> queues_legal es (W, a) \<Longrightarrow>
   \<exists>k'. loader_run es (map queue_head W, k) = Some (map queue_head (fst (fold queues_step es (W, a))), k') \<and>
     kern_rel k' (snd (fold queues_step es (W, a))) (fst (fold queues_step es (W, a)))"
proof (induction es arbitrary: k a W)
  case Nil
  then show ?case by simp
next
  case (Cons e es)
  then obtain k1 where "loader_step e (map queue_head W, k) =
      Some (map queue_head (fst (queues_step e (W, a))), k1)"
    "kern_rel k1 (snd (queues_step e (W, a))) (fst (queues_step e (W, a)))"
    using loader_step_refines [of k a W e] by auto
  then show ?case
    using Cons.IH [of k1 "snd (queues_step e (W, a))" "fst (queues_step e (W, a))"] Cons.prems(2) by auto
qed

section \<open>A kernel with two tasks\<close>

text \<open>A state the kernel reaches: tasks 1 and 2 are loaded and task 1 is running.\<close>

definition two_tasks :: "asched" where
  "two_tasks = fold a_step [Load 1, Tick, Load 2] a_start"

definition kern_two_tasks :: kern where
  "kern_two_tasks = \<lparr>sch = the (sched_run [Load 1, Tick, Load 2] sched_start),
     task_table = replicate MAX_PID \<lparr>q_next = 0, q_prev = 0, cr3 = 0, esp0 = 0\<rparr>,
     cur_pid = 1, tasks_running = 2, tasks_blocked = 0,
     free_pids = replicate MAX_PID (-1), next_free = 3, syscall_list = replicate 128 None,
     reg_cr3 = 0, reg_esp = 0\<rparr>"

lemma two_tasks_eq: "runq two_tasks = [1, 2]" "busy two_tasks" "slice two_tasks = 2"
  by (simp_all add: two_tasks_def a_start_def a_load_def a_tick_def enqueue_after_def)

lemma kern_two_tasks_rel: "kern_rel kern_two_tasks two_tasks [[], []]"
proof -
  have "legal_run [Load 1, Tick, Load 2] a_start"
    by (simp add: a_start_def a_load_def a_tick_def enqueue_after_def)
  then have "sched_rel (sch kern_two_tasks) two_tasks"
    using run_refines [OF sched_rel_start] by (fastforce simp: kern_two_tasks_def two_tasks_def)
  then show ?thesis
    by (simp add: kern_rel_def kern_mid_def two_tasks_eq a_current_def held_def)
      (simp add: kern_two_tasks_def MAX_PID_def inb_def rd_def)
qed

section \<open>Properties\<close>

text \<open>C2. Any number of wait queues can share the task table: every sequence of enqueueings of the
  running task, releases of the first task of a queue and clock ticks runs without leaving the
  arrays, each queue holds its tasks in order of arrival, and the scheduler runs exactly the tasks
  that wait in no queue.\<close>

theorem loader_queues_refine:
  assumes "kern_rel k a W" and "queues_legal es (W, a)" and "fold queues_step es (W, a) = (W', a')"
  shows "\<exists>k'. loader_run es (map queue_head W, k) = Some (map queue_head W', k') \<and> kern_rel k' a' W'"
  using loader_run_refines [OF assms(1,2)] assms(3) by simp

theorem loader_queues_refine_witness:
  "\<exists>k'. loader_run [Enqueue 0, Enqueue 1, Unqueue 1, Loader_tick, Unqueue 0] ([-1, -1], kern_two_tasks) =
      Some ([-1, -1], k') \<and> cur_pid k' = 2"
proof -
  let ?es = "[Enqueue 0, Enqueue 1, Unqueue 1, Loader_tick, Unqueue 0]"
  obtain a' where e: "fold queues_step ?es ([[], []], two_tasks) = ([[], []], a')" "a_current a' = 2"
    "queues_legal ?es ([[], []], two_tasks)"
    by (simp add: two_tasks_eq a_leave_def a_unblock_def a_tick_def enqueue_after_def a_current_def)
  show ?thesis
    using loader_queues_refine [OF kern_two_tasks_rel e(3,1)] e(2) by (auto simp: kern_rel_def)
qed

end
