(* ===== verification/Pool.thy ===== *)
theory Pool
  imports Prelude
begin

text \<open>
  Pools of reusable numbers: the free pids of kernel/loader.c and the page frames of kernel/mm.c.
  The locale \<open>resource_pool\<close> is what their users rely on: while something is available, taking
  returns an available number and makes it unavailable; giving back a number that is not available
  makes it available again. From it follow, once for both, that a number is never handed out while
  somebody holds it and that nothing is lost.
\<close>

text \<open>A run of a pool: \<open>Take\<close> takes a number, \<open>Give i\<close> gives back the \<open>i\<close>-th of those held.\<close>

datatype pool_event = Take | Give nat

fun pool_run :: "('s \<Rightarrow> ('r \<times> 's) option) \<Rightarrow> ('r \<Rightarrow> 's \<Rightarrow> 's option) \<Rightarrow> pool_event list \<Rightarrow>
    'r list \<Rightarrow> 's \<Rightarrow> ('r list \<times> 's) option" where
  "pool_run alloc release [] rs s = Some (rs, s)"
| "pool_run alloc release (Take # es) rs s = do {
     (r, s) \<leftarrow> alloc s; pool_run alloc release es (rs @ [r]) s }"
| "pool_run alloc release (Give i # es) rs s = do {
     s \<leftarrow> release (rs ! i) s; pool_run alloc release es (take i rs @ drop (Suc i) rs) s }"

text \<open>The number of holders never exceeds \<open>cap\<close> and only held numbers are given back.\<close>

fun pool_legal :: "nat \<Rightarrow> pool_event list \<Rightarrow> nat \<Rightarrow> bool" where
  "pool_legal cap [] n \<longleftrightarrow> True"
| "pool_legal cap (Take # es) n \<longleftrightarrow> n < cap \<and> pool_legal cap es (Suc n)"
| "pool_legal cap (Give i # es) n \<longleftrightarrow> i < n \<and> pool_legal cap es (n - 1)"

locale resource_pool =
  fixes alloc :: "'s \<Rightarrow> ('r \<times> 's) option"
    and release :: "'r \<Rightarrow> 's \<Rightarrow> 's option"
    and pool :: "'s \<Rightarrow> 'r set \<Rightarrow> bool"
    and all :: "'r set"
  assumes finite_all: "finite all"
    and pool_sub: "pool s A \<Longrightarrow> A \<subseteq> all"
    and alloc_some: "pool s A \<Longrightarrow> A \<noteq> {} \<Longrightarrow> \<exists>r s'. alloc s = Some (r, s') \<and> r \<in> A \<and> pool s' (A - {r})"
    and release_back: "pool s A \<Longrightarrow> r \<in> all \<Longrightarrow> r \<notin> A \<Longrightarrow> \<exists>s'. release r s = Some s' \<and> pool s' (insert r A)"
begin

text \<open>The holders' list and the pool partition \<open>B\<close>.\<close>

definition shared_out :: "'r set \<Rightarrow> 'r list \<Rightarrow> 's \<Rightarrow> bool" where
  "shared_out B rs s \<longleftrightarrow> B \<subseteq> all \<and> distinct rs \<and> set rs \<subseteq> B \<and> pool s (B - set rs)"

lemma take_step:
  assumes h: "shared_out B rs s" and n: "length rs < card B"
  shows "\<exists>r s'. alloc s = Some (r, s') \<and> shared_out B (rs @ [r]) s'"
proof -
  have "finite B" using h finite_all finite_subset by (auto simp: shared_out_def)
  moreover have "card (set rs) = length rs" using h distinct_card by (auto simp: shared_out_def)
  ultimately have "B - set rs \<noteq> {}" using h n card_mono [of "set rs" B]
    by (metis Diff_eq_empty_iff List.finite_set not_le)
  then obtain r s' where "alloc s = Some (r, s')" "r \<in> B - set rs" "pool s' (B - set rs - {r})"
    using h alloc_some by (metis shared_out_def)
  moreover have "B - set (rs @ [r]) = B - set rs - {r}" by auto
  ultimately have "alloc s = Some (r, s') \<and> shared_out B (rs @ [r]) s'"
    using h by (simp add: shared_out_def)
  then show ?thesis by blast
qed

lemma give_step:
  assumes h: "shared_out B rs s" and i: "i < length rs"
  shows "\<exists>s'. release (rs ! i) s = Some s' \<and> shared_out B (take i rs @ drop (Suc i) rs) s'"
proof -
  let ?rs = "take i rs @ drop (Suc i) rs"
  have e: "rs = take i rs @ rs ! i # drop (Suc i) rs" using i by (rule id_take_nth_drop)
  have d: "distinct (take i rs @ rs ! i # drop (Suc i) rs)" using h e by (simp add: shared_out_def)
  have s: "set rs = insert (rs ! i) (set ?rs)" by (subst e) auto
  have n: "rs ! i \<notin> set ?rs" using d by auto
  have "rs ! i \<in> B" using h i by (auto simp: shared_out_def)
  then obtain s' where s': "release (rs ! i) s = Some s'" "pool s' (insert (rs ! i) (B - set rs))"
    using release_back [of s "B - set rs" "rs ! i"] h i by (auto simp: shared_out_def)
  have "insert (rs ! i) (B - set rs) = B - set ?rs" using s n \<open>rs ! i \<in> B\<close> by blast
  moreover have "distinct ?rs" using d by simp
  ultimately show ?thesis using s' h s by (auto simp: shared_out_def)
qed

lemma run_shares_out:
  "shared_out B rs s \<Longrightarrow> pool_legal (card B) es (length rs) \<Longrightarrow>
   \<exists>rs' s'. pool_run alloc release es rs s = Some (rs', s') \<and> shared_out B rs' s'"
proof (induction es arbitrary: rs s)
  case Nil
  then show ?case by simp
next
  case (Cons e es)
  show ?case
  proof (cases e)
    case Take
    then show ?thesis using Cons.prems Cons.IH take_step [of B rs s] by fastforce
  next
    case (Give i)
    have "length (take i rs @ drop (Suc i) rs) = length rs - 1" if "i < length rs" using that by simp
    then show ?thesis using Cons.prems Cons.IH give_step [of B rs s i] Give
      by (metis (no_types, lifting) bind.bind_lunit pool_legal.simps(3) pool_run.simps(3))
  qed
qed

lemma no_double_allocation:
  assumes "pool s B" and "pool_legal (card B) es 0"
  shows "\<exists>rs s'. pool_run alloc release es [] s = Some (rs, s') \<and> distinct rs \<and> set rs \<subseteq> B \<and>
           pool s' (B - set rs)"
  using run_shares_out [of B "[]" s es] assms pool_sub by (auto simp: shared_out_def)

end

end
