(* ===== verification/Pids.thy ===== *)
theory Pids
  imports Loader_Spec Pool
begin

text \<open>
  The free pids of kernel/loader.c as a pool. \<open>free_pids\<close> is a list linked through the array,
  from \<open>next_free\<close> to the mark -1, and pids are handed out last in, first out.
\<close>

definition pid_pool :: "'a kern_scheme \<Rightarrow> pid set \<Rightarrow> bool" where
  "pid_pool k A \<longleftrightarrow> length (free_pids k) = MAX_PID \<and>
     (\<exists>F. chain (free_pids k) (next_free k) F \<and> distinct F \<and> set F = A \<and> 0 \<notin> A)"

definition user_pids :: "pid set" where
  "user_pids = {p. p \<noteq> 0 \<and> unat p < MAX_PID}"

lemma user_pids_list: "user_pids = set (map of_nat [1..<32])"
proof -
  have "p \<in> user_pids \<longleftrightarrow> p \<in> of_nat ` {1..<32}" for p :: pid
  proof
    assume "p \<in> user_pids"
    then have "p = of_nat (unat p)" "unat p \<in> {1..<32}"
      by (auto simp: user_pids_def MAX_PID_def unat_gt_0 Suc_le_eq)
    then show "p \<in> of_nat ` {1..<32}" by blast
  next
    assume "p \<in> of_nat ` {1..<32}"
    then obtain n where n: "p = of_nat n" "1 \<le> n" "n < 32" by auto
    then have "unat p = n" by (simp add: unat_of_nat)
    then show "p \<in> user_pids" using n by (auto simp: user_pids_def MAX_PID_def)
  qed
  then show ?thesis by auto
qed

lemma get_new_pid_pool:
  assumes "pid_pool k A" and "A \<noteq> {}"
  shows "\<exists>r k'. get_new_pid k = Some (r, k') \<and> r \<in> A \<and> pid_pool k' (A - {r})"
proof -
  obtain F where F: "chain (free_pids k) (next_free k) F" "distinct F" "set F = A" "0 \<notin> A"
    and l: "length (free_pids k) = MAX_PID"
    using assms by (auto simp: pid_pool_def)
  obtain r F' where FF: "F = r # F'" using F assms by (cases F) auto
  let ?k = "k\<lparr>next_free := rd (free_pids k) r\<rparr>"
  have "get_new_pid k = Some (r, ?k)" using F FF by (auto simp: get_new_pid_def aget_in)
  moreover have "pid_pool ?k (A - {r})" using F FF l by (auto simp: pid_pool_def)
  ultimately show ?thesis using F FF by auto
qed

lemma free_pid_pool:
  assumes "pid_pool k A" and "p \<in> user_pids" and "p \<notin> A"
  shows "\<exists>k'. free_pid p k = Some k' \<and> pid_pool k' (insert p A)"
proof -
  obtain F where F: "chain (free_pids k) (next_free k) F" "distinct F" "set F = A" "0 \<notin> A"
    and l: "length (free_pids k) = MAX_PID"
    using assms by (auto simp: pid_pool_def)
  have i: "inb (free_pids k) p" using assms(2) l by (simp add: user_pids_def inb_def)
  let ?k = "k\<lparr>free_pids := upd (free_pids k) p (\<lambda>_. next_free k), next_free := p\<rparr>"
  have "free_pid p k = Some ?k" using i by (simp add: free_pid_def aput_in)
  moreover have "chain (free_pids ?k) (next_free ?k) (p # F)"
    using F assms(3) i by (simp add: chain_upd inb_upd rd_upd)
  then have "pid_pool ?k (insert p A)"
    using F l assms unfolding pid_pool_def by (intro conjI exI [of _ "p # F"]) (auto simp: user_pids_def)
  ultimately show ?thesis by blast
qed

lemma pid_pool_sub: "pid_pool k A \<Longrightarrow> A \<subseteq> user_pids"
  using chain_inb by (fastforce simp: pid_pool_def user_pids_def inb_def)

interpretation pids: resource_pool get_new_pid free_pid pid_pool user_pids
proof
  show "finite user_pids" by (simp add: user_pids_list)
qed (rule pid_pool_sub get_new_pid_pool free_pid_pool; assumption)+

text \<open>When the last pid has been handed out, \<open>next_free\<close> is -1 and the next request reads
  \<open>free_pids[-1]\<close>.\<close>

lemma get_new_pid_exhausted: "pid_pool k {} \<Longrightarrow> get_new_pid k = None"
  by (auto simp: pid_pool_def get_new_pid_def aget_out MAX_PID_def)

section \<open>The initial list\<close>

lemma chain_of_successors:
  "length a = 32 \<Longrightarrow> (\<forall>j. i \<le> j \<and> j < 31 \<longrightarrow> a ! j = of_nat (Suc j)) \<Longrightarrow> a ! 31 = -1 \<Longrightarrow> i \<le> 31 \<Longrightarrow>
   chain a (of_nat i) (map of_nat [i..<32])"
proof (induction "31 - i" arbitrary: i)
  case 0
  then have "i = 31" by simp
  with 0 show ?case by (simp add: upt_rec inb_def rd_def)
next
  case (Suc n)
  then have "chain a (of_nat (Suc i)) (map of_nat [Suc i..<32])" by (intro Suc.hyps(1)) auto
  moreover have "a ! i = of_nat (Suc i)" "i < 31" using Suc by auto
  moreover have "unat (of_nat i :: u32) = i" using Suc by (simp add: unat_of_nat)
  ultimately show ?case using Suc.prems(1) by (simp add: upt_conv_Cons inb_def rd_def)
qed

lemma loader_init_ok:
  assumes "length (free_pids k) = 32" "length (task_table k) = 32" "length (syscall_list k) = 128"
  shows "\<exists>k'. loader_init k = Some k' \<and> pid_pool k' user_pids \<and> cur_pid k' = 0 \<and> sch k' = sch k \<and>
     tasks_running k' = 0 \<and> tasks_blocked k' = 0 \<and> length (task_table k') = MAX_PID \<and>
     reg_cr3 k' = reg_cr3 k \<and> cr3 (rd (task_table k') 0) = reg_cr3 k \<and> kern.more k' = kern.more k"
proof -
  let ?f0 = "upd (free_pids k) 0 (\<lambda>_. -1)"
  let ?f1 = "map (\<lambda>j. if 1 \<le> j \<and> j < 31 then of_nat j + 1 else ?f0 ! j) [0..<32]"
  let ?f2 = "upd ?f1 31 (\<lambda>_. -1)"
  have i: "inb (free_pids k) 0" "inb ?f1 31" using assms by (simp_all add: inb_def)
  have f1: "for_range 1 31 (\<lambda>i fp. aput fp (of_nat i) (of_nat i + 1)) ?f0 = Some ?f1"
    using for_range_fill [of 1 31 ?f0 "\<lambda>j. of_nat j + 1"] assms by simp
  have "\<exists>tt. for_range 0 32 (\<lambda>i tt. amod tt (of_nat i) (\<lambda>t. t\<lparr>cr3 := 0\<rparr>)) (task_table k) = Some tt \<and>
          length tt = 32"
    by (rule for_range_rule [where inv = "\<lambda>_ tt. length tt = 32"])
      (use assms in \<open>auto simp: amod_in inb_def unat_of_nat\<close>)
  then obtain tt where tt: "for_range 0 32 (\<lambda>i tt. amod tt (of_nat i) (\<lambda>t. t\<lparr>cr3 := 0\<rparr>)) (task_table k) = Some tt"
    and lt: "length tt = 32" by blast
  have it: "inb tt 0" using lt by (simp add: inb_def)
  have sy: "inb (syscall_list k) 0x31" "inb (syscall_list k) 0x32" "inb (syscall_list k) 0x38"
    using assms by (simp_all add: inb_def)
  let ?k = "k\<lparr>free_pids := ?f2, next_free := 1, cur_pid := 0, tasks_running := 0, tasks_blocked := 0,
     task_table := upd tt 0 (\<lambda>t. t\<lparr>cr3 := reg_cr3 k\<rparr>),
     syscall_list := upd (upd (upd (syscall_list k) 0x31 (\<lambda>_. Some Sys_getpid)) 0x32 (\<lambda>_. Some Sys_exit))
        0x38 (\<lambda>_. Some Sys_fork)\<rparr>"
  have code: "loader_init k = Some ?k"
    using i f1 tt it sy by (simp add: loader_init_def register_syscall_def MAX_PID_def aput_in amod_in inb_upd)
  have "chain ?f2 (of_nat 1) (map of_nat [1..<32])"
  proof (rule chain_of_successors)
    have "unat (31 :: u32) = 31" by simp
    then have "?f2 = ?f1[31 := -1]" by (simp only: upd_def)
    then show "\<forall>j. 1 \<le> j \<and> j < 31 \<longrightarrow> ?f2 ! j = of_nat (Suc j)" "?f2 ! 31 = -1"
      by (simp_all add: add.commute)
  qed simp_all
  moreover have "distinct (map of_nat [1..<32] :: u32 list)"
    by (auto simp: distinct_map inj_on_def word_of_nat_eq_iff take_bit_nat_eq_self)
  moreover have "0 \<notin> user_pids" by (simp add: user_pids_def)
  moreover have "length ?f2 = 32" by simp
  ultimately have "pid_pool ?k user_pids"
    unfolding pid_pool_def user_pids_list
    by (intro conjI exI [of _ "map of_nat [1..<32]"]) (simp_all add: MAX_PID_def)
  then show ?thesis using code lt it by (simp add: MAX_PID_def rd_upd)
qed


section \<open>Properties\<close>

text \<open>The zeroed memory the kernel starts with.\<close>

definition kern_boot :: kern where
  "kern_boot = \<lparr>sch = sched_start,
     task_table = replicate MAX_PID \<lparr>q_next = 0, q_prev = 0, cr3 = 0, esp0 = 0\<rparr>,
     cur_pid = 0, tasks_running = 0, tasks_blocked = 0,
     free_pids = replicate MAX_PID 0, next_free = 0, syscall_list = replicate 128 None,
     reg_cr3 = 0, reg_esp = 0\<rparr>"

text \<open>C14. After \<open>loader_init\<close>, and after any sequence of requests and releases of pids in which at
  most 31 are in use at a time and only pids in use are released, the pids in use are distinct and
  none of them is the idle task's, and all the others are still available.\<close>

theorem pids_never_shared:
  assumes "length (free_pids k) = 32" and "length (task_table k) = 32" and "length (syscall_list k) = 128"
    and "pool_legal 31 es 0"
  shows "\<exists>k1 used k2. loader_init k = Some k1 \<and> pool_run get_new_pid free_pid es [] k1 = Some (used, k2) \<and>
     distinct used \<and> set used \<subseteq> user_pids \<and> pid_pool k2 (user_pids - set used)"
proof -
  obtain k1 where k1: "loader_init k = Some k1" "pid_pool k1 user_pids"
    using loader_init_ok [OF assms(1-3)] by blast
  have "card user_pids = 31"
    by (simp add: user_pids_list card_image inj_on_def word_of_nat_eq_iff take_bit_nat_eq_self)
  then show ?thesis using k1 pids.no_double_allocation [OF k1(2)] assms(4) by auto
qed

theorem pids_never_shared_witness:
  "\<exists>k1 used k2. loader_init kern_boot = Some k1 \<and>
     pool_run get_new_pid free_pid [Take, Take, Give 0, Take, Take] [] k1 = Some (used, k2) \<and>
     distinct used \<and> set used \<subseteq> user_pids \<and> pid_pool k2 (user_pids - set used)"
  by (rule pids_never_shared) (simp_all add: kern_boot_def MAX_PID_def)

text \<open>The kernel does not survive the request for a pid while 31 tasks exist: the list is empty
  after exactly 31 requests and \<open>get_new_pid\<close> then reads \<open>free_pids[-1]\<close>.\<close>

theorem pid_exhaustion_faults:
  assumes "length (free_pids k) = 32" and "length (task_table k) = 32" and "length (syscall_list k) = 128"
  shows "\<exists>k1 used k2. loader_init k = Some k1 \<and>
     pool_run get_new_pid free_pid (replicate 31 Take) [] k1 = Some (used, k2) \<and>
     get_new_pid k2 = None"
proof -
  have l: "pool_legal c (replicate n Take) m" if "m + n \<le> c" for c n m
    using that by (induction n arbitrary: m) auto
  have len: "length rs' = length rs + n"
    if "pool_run get_new_pid free_pid (replicate n Take) rs (k :: 'a kern_scheme) = Some (rs', k')" for n rs rs' k k'
    using that by (induction n arbitrary: rs k) (auto split: Option.bind_splits)
  obtain k1 where k1: "loader_init k = Some k1" "pid_pool k1 user_pids"
    using loader_init_ok [OF assms] by blast
  have c: "card user_pids = 31" "finite user_pids"
    by (simp_all add: user_pids_list card_image inj_on_def word_of_nat_eq_iff take_bit_nat_eq_self)
  obtain used k2 where u: "pool_run get_new_pid free_pid (replicate 31 Take) [] k1 = Some (used, k2)"
    "distinct used" "set used \<subseteq> user_pids" "pid_pool k2 (user_pids - set used)"
    using pids.no_double_allocation [OF k1(2), of "replicate 31 Take"] l [of 0 31 31] c by auto
  have "card (set used) = 31" using len [OF u(1)] u(2) by (simp add: distinct_card)
  then have "set used = user_pids" using u(3) c by (metis card_subset_eq)
  then have "get_new_pid k2 = None" using u(4) get_new_pid_exhausted by simp
  then show ?thesis using k1 u by blast
qed

theorem pid_exhaustion_faults_witness:
  "\<exists>k1 used k2. loader_init kern_boot = Some k1 \<and>
     pool_run get_new_pid free_pid (replicate 31 Take) [] k1 = Some (used, k2) \<and>
     get_new_pid k2 = None"
  by (rule pid_exhaustion_faults) (simp_all add: kern_boot_def MAX_PID_def)

end
