(* ===== verification/Sem.thy ===== *)
theory Sem
  imports Loader_Spec
begin

text \<open>
  The kernel's semaphores, kernel/sem.c: a counter of free places and a wait queue. They are the
  only way a task blocks, and the drivers and the memory manager build their critical sections
  with them.

  The locale \<open>fifo_semaphore\<close> is the contract their clients rely on. Its client lemma says that
  places are granted in the order in which the tasks asked for them and that the number of
  places granted is what the initial value and the signals allow. The interpretation proves the
  contract for the code on top of the loader's wait queues.
\<close>

section \<open>Model\<close>

record sem =
  vl :: u32
  q :: u32

definition SEM_NEW :: "u32 \<Rightarrow> sem" where
  "SEM_NEW v = \<lparr>vl = v, q = -1\<rparr>"

definition sem_wait :: "sem \<Rightarrow> 'a kern_scheme \<Rightarrow> (sem \<times> 'a kern_scheme) option" where
  "sem_wait s k =
     (if vl s > 0 then Some (s\<lparr>vl := vl s - 1\<rparr>, k)
      else do { (c, k) \<leftarrow> loader_enqueue (q s) k; Some (s\<lparr>q := c\<rparr>, k) })"

definition sem_signal :: "sem \<Rightarrow> 'a kern_scheme \<Rightarrow> (sem \<times> 'a kern_scheme) option" where
  "sem_signal s k =
     (if vl s = 0 \<and> q s \<noteq> -1 then do { (c, k) \<leftarrow> loader_unqueue (q s) k; Some (s\<lparr>q := c\<rparr>, k) }
      else Some (s\<lparr>vl := vl s + 1\<rparr>, k))"

text \<open>
  The loop of \<open>sem_broadcast\<close>. When it runs while the processor idles, the first task it releases
  takes the processor inside \<open>loader_unqueue\<close>; the state returned is the one in which that task
  starts, and the rest of the loop has not run.
\<close>

partial_function (option) sem_broadcast :: "sem \<Rightarrow> 'a kern_scheme \<Rightarrow> (sem \<times> 'a kern_scheme) option" where
  "sem_broadcast s k =
     (if q s \<noteq> -1 then do {
        (c, k') \<leftarrow> loader_unqueue (q s) k;
        if cur_pid k' \<noteq> cur_pid k then Some (s\<lparr>q := c\<rparr>, k') else sem_broadcast (s\<lparr>q := c\<rparr>) k' }
      else Some (s\<lparr>vl := 1\<rparr>, k))"

declare sem_broadcast.simps [code]

section \<open>Contract\<close>

datatype sem_event = Wait | Signal | Clock

text \<open>
  A run of one semaphore: each event is an operation of the current task, of an interrupt handler,
  or the clock. It returns the final state and the pids that called \<open>wait\<close>, in order. Only a task
  waits: pid 0 is the idle task.
\<close>

fun sem_run :: "('s \<Rightarrow> 's option) \<Rightarrow> ('s \<Rightarrow> 's option) \<Rightarrow> ('s \<Rightarrow> 's option) \<Rightarrow> ('s \<Rightarrow> pid) \<Rightarrow>
    sem_event list \<Rightarrow> 's \<Rightarrow> ('s \<times> pid list) option" where
  "sem_run wait signal clock cur [] s = Some (s, [])"
| "sem_run wait signal clock cur (Wait # es) s = do {
     s1 \<leftarrow> wait s; (s2, ps) \<leftarrow> sem_run wait signal clock cur es s1; Some (s2, cur s # ps) }"
| "sem_run wait signal clock cur (Signal # es) s = do {
     s1 \<leftarrow> signal s; sem_run wait signal clock cur es s1 }"
| "sem_run wait signal clock cur (Clock # es) s = do {
     s1 \<leftarrow> clock s; sem_run wait signal clock cur es s1 }"

fun tasks_wait :: "('s \<Rightarrow> 's option) \<Rightarrow> ('s \<Rightarrow> 's option) \<Rightarrow> ('s \<Rightarrow> 's option) \<Rightarrow> ('s \<Rightarrow> pid) \<Rightarrow>
    sem_event list \<Rightarrow> 's \<Rightarrow> bool" where
  "tasks_wait wait signal clock cur [] s \<longleftrightarrow> True"
| "tasks_wait wait signal clock cur (Wait # es) s \<longleftrightarrow>
     cur s \<noteq> 0 \<and> (case wait s of None \<Rightarrow> True | Some s1 \<Rightarrow> tasks_wait wait signal clock cur es s1)"
| "tasks_wait wait signal clock cur (Signal # es) s \<longleftrightarrow>
     (case signal s of None \<Rightarrow> True | Some s1 \<Rightarrow> tasks_wait wait signal clock cur es s1)"
| "tasks_wait wait signal clock cur (Clock # es) s \<longleftrightarrow>
     (case clock s of None \<Rightarrow> True | Some s1 \<Rightarrow> tasks_wait wait signal clock cur es s1)"

locale fifo_semaphore =
  fixes wait signal clock :: "'s \<Rightarrow> 's option"
    and cur :: "'s \<Rightarrow> pid"
    and view :: "'s \<Rightarrow> nat \<Rightarrow> pid list \<Rightarrow> bool"
    and limit :: nat
  assumes view_idle: "view s v w \<Longrightarrow> w = [] \<or> v = 0"
    and wait_free: "view s (Suc v) [] \<Longrightarrow> \<exists>s'. wait s = Some s' \<and> view s' v []"
    and wait_block: "view s 0 w \<Longrightarrow> cur s \<noteq> 0 \<Longrightarrow> \<exists>s'. wait s = Some s' \<and> view s' 0 (w @ [cur s])"
    and signal_free: "view s v [] \<Longrightarrow> v < limit \<Longrightarrow> \<exists>s'. signal s = Some s' \<and> view s' (Suc v) []"
    and signal_wake: "view s 0 (p # w) \<Longrightarrow> \<exists>s'. signal s = Some s' \<and> view s' 0 w"
    and clock_keeps: "view s v w \<Longrightarrow> \<exists>s'. clock s = Some s' \<and> view s' v w"
begin

text \<open>\<open>gs\<close> are the pids granted a place so far, \<open>w\<close> those still waiting.\<close>

lemma grants_in_order:
  "view s v w \<Longrightarrow> tasks_wait wait signal clock cur es s \<Longrightarrow>
   v + length es \<le> limit \<Longrightarrow>
   \<exists>s' ps gs v' w'. sem_run wait signal clock cur es s = Some (s', ps) \<and> view s' v' w' \<and>
     w @ ps = gs @ w' \<and> length gs + v' = v + count_list es Signal"
proof (induction es arbitrary: s v w)
  case Nil
  then show ?case by (intro exI [of _ s] exI [of _ "[]"] exI [of _ v] exI [of _ w]) simp
next
  case (Cons e es)
  show ?case
  proof (cases e)
    case Wait
    show ?thesis
    proof (cases v)
      case 0
      obtain s1 where s1: "wait s = Some s1" "view s1 0 (w @ [cur s])"
        using wait_block Cons.prems Wait 0 by auto
      obtain s' ps gs v' w' where *: "sem_run wait signal clock cur es s1 = Some (s', ps)" "view s' v' w'"
        "(w @ [cur s]) @ ps = gs @ w'" "length gs + v' = 0 + count_list es Signal"
        using Cons.IH [OF s1(2)] Cons.prems Wait s1 by auto
      then show ?thesis using Wait s1 0 by auto
    next
      case (Suc n)
      then have w: "w = []" using view_idle Cons.prems by blast
      obtain s1 where s1: "wait s = Some s1" "view s1 n []" using wait_free Cons.prems Suc w by auto
      obtain s' ps gs v' w' where *: "sem_run wait signal clock cur es s1 = Some (s', ps)" "view s' v' w'"
        "[] @ ps = gs @ w'" "length gs + v' = n + count_list es Signal"
        using Cons.IH [OF s1(2)] Cons.prems Wait s1 Suc by auto
      then have "w @ (cur s # ps) = (cur s # gs) @ w'" using w by simp
      then show ?thesis using Wait s1 Suc * by fastforce
    qed
  next
    case Signal
    show ?thesis
    proof (cases w)
      case Nil
      obtain s1 where s1: "signal s = Some s1" "view s1 (Suc v) []" using signal_free [of s v] Cons.prems Nil by auto
      show ?thesis using Cons.IH [OF s1(2)] Cons.prems Signal s1 Nil by auto
    next
      case (Cons p w1)
      then have v: "v = 0" using view_idle Cons.prems by blast
      obtain s1 where s1: "signal s = Some s1" "view s1 0 w1"
        using signal_wake [of s p w1] Cons.prems(1) Cons v by auto
      obtain s' ps gs v' w' where *: "sem_run wait signal clock cur es s1 = Some (s', ps)" "view s' v' w'"
        "w1 @ ps = gs @ w'" "length gs + v' = 0 + count_list es Signal"
        using Cons.IH [OF s1(2)] Cons.prems Signal s1 by auto
      then have "w @ ps = (p # gs) @ w'" using Cons by simp
      then show ?thesis using Signal s1 v * by fastforce
    qed
  next
    case Clock
    obtain s1 where s1: "clock s = Some s1" "view s1 v w" using clock_keeps [OF Cons.prems(1)] by blast
    then show ?thesis using Cons.IH [OF s1(2)] Cons.prems Clock by auto
  qed
qed

end

section \<open>The code meets the contract\<close>

definition sem_rel :: "sem \<Rightarrow> nat \<Rightarrow> pid list \<Rightarrow> bool" where
  "sem_rel s v w \<longleftrightarrow> unat (vl s) = v \<and> q s = queue_head w \<and> (w = [] \<or> v = 0)"

lemma sem_rel_new: "unat v = n \<Longrightarrow> sem_rel (SEM_NEW v) n []"
  by (simp add: sem_rel_def SEM_NEW_def)

lemma wait_take:
  "sem_rel s (Suc v) w \<Longrightarrow> sem_wait s k = Some (s\<lparr>vl := vl s - 1\<rparr>, k) \<and> sem_rel (s\<lparr>vl := vl s - 1\<rparr>) v w"
  by (auto simp: sem_rel_def sem_wait_def unat_sub_if_size word_gt_0 unat_gt_0)

lemma wait_blocks:
  assumes "sem_rel s 0 w" and "kern_rel k a (w # W)" and "busy a"
  shows "\<exists>s' k'. sem_wait s k = Some (s', k') \<and> sem_rel s' 0 (w @ [cur_pid k]) \<and>
     kern_rel k' (a_leave STATE_BLOCKED a) ((w @ [cur_pid k]) # W) \<and> same_rest k k'"
  using assms enqueue_refines [OF assms(2,3)]
  by (auto simp: sem_rel_def sem_wait_def unat_eq_0)

lemma signal_frees:
  "sem_rel s v [] \<Longrightarrow> Suc v < 2 ^ 32 \<Longrightarrow>
   sem_signal s k = Some (s\<lparr>vl := vl s + 1\<rparr>, k) \<and> sem_rel (s\<lparr>vl := vl s + 1\<rparr>) (Suc v) []"
  by (auto simp: sem_rel_def sem_signal_def unat_word_ariths)

lemma signal_wakes:
  assumes "sem_rel s 0 (p # w)" and "kern_rel k a ((p # w) # W)"
  shows "\<exists>s' k'. sem_signal s k = Some (s', k') \<and> sem_rel s' 0 w \<and>
     kern_rel k' (a_unblock p a) (w # W) \<and> same_rest k k'"
proof -
  have "waits (task_table k) (p # w)" "length (task_table k) = MAX_PID"
    using assms(2) by (auto simp: kern_rel_def kern_mid_def)
  then have "p \<noteq> -1" using inb_max_pid by (auto simp: held_def)
  then show ?thesis using assms unqueue_refines [OF assms(2)]
    by (auto simp: sem_rel_def sem_signal_def unat_eq_0)
qed

definition sem_view :: "sem \<times> 'a kern_scheme \<Rightarrow> nat \<Rightarrow> pid list \<Rightarrow> bool" where
  "sem_view x v w \<longleftrightarrow> sem_rel (fst x) v w \<and> (\<exists>a W. kern_rel (snd x) a (w # W))"

definition tick_beside :: "sem \<times> 'a kern_scheme \<Rightarrow> (sem \<times> 'a kern_scheme) option" where
  "tick_beside x = map_option (Pair (fst x)) (loader_tick (snd x))"

lemma kern_rel_busy: "kern_rel k a W \<Longrightarrow> cur_pid k \<noteq> 0 \<longleftrightarrow> busy a"
  using sched_rel_idle [of "sch k" a] by (simp add: kern_rel_def kern_mid_def sched_rel_def)

interpretation fs: fifo_semaphore "case_prod sem_wait" "case_prod sem_signal" tick_beside "cur_pid \<circ> snd"
  sem_view "2 ^ 32 - 1"
proof (unfold_locales, goal_cases)
  case (1 s v w)
  then show ?case by (auto simp: sem_view_def sem_rel_def)
next
  case (2 s v)
  then show ?case using wait_take [of "fst s" v "[]" "snd s"]
    by (fastforce simp: sem_view_def split_def)
next
  case (3 s w)
  then obtain a W where "kern_rel (snd s) a (w # W)" "sem_rel (fst s) 0 w" by (auto simp: sem_view_def)
  moreover from this have "busy a" using 3 kern_rel_busy by auto
  ultimately show ?case using wait_blocks [of "fst s" w "snd s" a W]
    by (fastforce simp: sem_view_def split_def)
next
  case (4 s v)
  then show ?case using signal_frees [of "fst s" v "snd s"] by (auto simp: sem_view_def split_def)
next
  case (5 s p w)
  then obtain a W where "kern_rel (snd s) a ((p # w) # W)" "sem_rel (fst s) 0 (p # w)"
    by (auto simp: sem_view_def)
  then show ?case using signal_wakes [of "fst s" p w "snd s" a W]
    by (fastforce simp: sem_view_def split_def)
next
  case (6 s v w)
  then obtain a W where "kern_rel (snd s) a (w # W)" "sem_rel (fst s) v w" by (auto simp: sem_view_def)
  then show ?case using loader_tick_refines [of "snd s" a "w # W"]
    by (fastforce simp: sem_view_def tick_beside_def split_def)
qed

section \<open>Broadcast\<close>

text \<open>A running task that broadcasts releases every waiting task, the first in front of the
  others' insertion point, and leaves one place.\<close>

lemma broadcast_busy:
  "sem_rel s v w \<Longrightarrow> kern_rel k a (w # W) \<Longrightarrow> busy a \<Longrightarrow>
   \<exists>k'. sem_broadcast s k = Some (SEM_NEW 1, k') \<and> kern_rel k' (fold a_unblock w a) ([] # W) \<and> same_rest k k'"
proof (induction w arbitrary: s v k a)
  case Nil
  then show ?case by (subst sem_broadcast.simps) (simp add: sem_rel_def SEM_NEW_def)
next
  case (Cons p w)
  have "waits (task_table k) (p # w)" "length (task_table k) = MAX_PID"
    using Cons.prems by (auto simp: kern_rel_def kern_mid_def)
  then have p: "p \<noteq> -1" using inb_max_pid by (auto simp: held_def)
  obtain k1 where k1: "loader_unqueue p k = Some (queue_head w, k1)" "kern_rel k1 (a_unblock p a) (w # W)"
    "same_rest k k1"
    using unqueue_refines Cons.prems(2) by blast
  have c: "cur_pid k1 = cur_pid k"
    using Cons.prems(2,3) k1(2) by (cases "runq a")
      (auto simp: kern_rel_def kern_mid_def a_current_def a_unblock_def enqueue_after_def sched_rel_def asched_wf_def)
  have "sem_rel (s\<lparr>q := queue_head w\<rparr>) 0 w" using Cons.prems(1) by (auto simp: sem_rel_def)
  moreover have "busy (a_unblock p a)" by (simp add: a_unblock_def)
  ultimately obtain k' where "sem_broadcast (s\<lparr>q := queue_head w\<rparr>) k1 = Some (SEM_NEW 1, k')"
    "kern_rel k' (fold a_unblock w (a_unblock p a)) ([] # W)" "same_rest k1 k'"
    using Cons.IH k1(2) by blast
  then show ?case using Cons.prems(1) p k1 c same_rest_trans
    by (subst sem_broadcast.simps) (auto simp: sem_rel_def)
qed


section \<open>Properties\<close>

text \<open>C10. A semaphore created with \<open>v\<close> places serves its waiting tasks in order of arrival: after
  any run of waits by tasks, signals and clock ticks, the pids that asked, in order, are those
  that were granted a place followed by those still queued, and the places granted and free are
  the initial value plus the signals. The run never leaves the task tables.\<close>

theorem semaphore_fifo:
  assumes "kern_rel k a ([] # W)" and "unat v + length es < 2 ^ 32"
    and "tasks_wait (case_prod sem_wait) (case_prod sem_signal) tick_beside (cur_pid \<circ> snd) es (SEM_NEW v, k)"
  shows "\<exists>s' k' asked granted free waiting.
     sem_run (case_prod sem_wait) (case_prod sem_signal) tick_beside (cur_pid \<circ> snd) es (SEM_NEW v, k)
       = Some ((s', k'), asked) \<and>
     asked = granted @ waiting \<and> length granted + free = unat v + count_list es Signal \<and>
     unat (vl s') = free \<and> q s' = queue_head waiting \<and> (waiting = [] \<or> free = 0) \<and>
     (\<exists>a' W'. kern_rel k' a' (waiting # W'))"
proof -
  have v: "sem_view (SEM_NEW v, k) (unat v) []"
    using assms(1) sem_rel_new [of v] by (auto simp: sem_view_def)
  obtain x asked granted free waiting where
    r: "sem_run (case_prod sem_wait) (case_prod sem_signal) tick_beside (cur_pid \<circ> snd) es (SEM_NEW v, k)
       = Some (x, asked)" "sem_view x free waiting" "[] @ asked = granted @ waiting"
    "length granted + free = unat v + count_list es Signal"
    using fs.grants_in_order [OF v assms(3)] assms(2) by auto
  moreover obtain s' k' where "x = (s', k')" by (cases x)
  ultimately show ?thesis unfolding sem_view_def sem_rel_def by (simp, metis)
qed

theorem semaphore_fifo_witness:
  "\<exists>s' k' asked granted free waiting.
     sem_run (case_prod sem_wait) (case_prod sem_signal) tick_beside (cur_pid \<circ> snd)
       [Wait, Clock, Wait, Signal, Wait] (SEM_NEW 1, kern_two_tasks) = Some ((s', k'), asked) \<and>
     asked = granted @ waiting \<and> length granted + free = 2 \<and>
     unat (vl s') = free \<and> q s' = queue_head waiting \<and> (waiting = [] \<or> free = 0) \<and>
     (\<exists>a' W'. kern_rel k' a' (waiting # W'))"
proof -
  have "tasks_wait (case_prod sem_wait) (case_prod sem_signal) tick_beside (cur_pid \<circ> snd)
     [Wait, Clock, Wait, Signal, Wait] (SEM_NEW 1, kern_two_tasks)" by code_simp
  moreover have "unat (1 :: u32) + length [Wait, Clock, Wait, Signal, Wait] < 2 ^ 32" by simp
  moreover have "unat (1 :: u32) + count_list [Wait, Clock, Wait, Signal, Wait] Signal = 2" by simp
  ultimately show ?thesis using semaphore_fifo [OF kern_two_tasks_rel] by metis
qed

text \<open>C32. \<open>sem_broadcast\<close>, run by a task, terminates, puts every waiting task back into the run
  queue and leaves the semaphore with one free place and nobody waiting.\<close>

theorem sem_broadcast_releases_all:
  assumes "sem_rel s v w" and "kern_rel k a (w # W)" and "busy a"
  shows "\<exists>k'. sem_broadcast s k = Some (SEM_NEW 1, k') \<and>
     kern_rel k' (fold a_unblock w a) ([] # W) \<and> set (runq (fold a_unblock w a)) = set (runq a) \<union> set w"
proof -
  have "set (runq (fold a_unblock w a)) = set (runq a) \<union> set w"
  proof (induction w arbitrary: a)
    case (Cons p w)
    have "set (runq (a_unblock p a)) = insert p (set (runq a))"
      by (cases "runq a") (auto simp: a_unblock_def enqueue_after_def)
    with Cons show ?case by auto
  qed simp
  then show ?thesis using broadcast_busy [OF assms] by blast
qed

theorem sem_broadcast_releases_all_witness:
  "\<exists>s k a w. sem_wait (SEM_NEW 0) kern_two_tasks = Some (s, k) \<and> q s = 1 \<and>
     (\<exists>k'. sem_broadcast s k = Some (SEM_NEW 1, k') \<and> kern_rel k' (fold a_unblock w a) [[], []] \<and>
        set (runq (fold a_unblock w a)) = {1, 2})"
proof -
  let ?a = "a_leave STATE_BLOCKED two_tasks"
  have "cur_pid kern_two_tasks = 1" by (simp add: kern_two_tasks_def)
  then obtain s k where s: "sem_wait (SEM_NEW 0) kern_two_tasks = Some (s, k)" "sem_rel s 0 [1]"
    "kern_rel k ?a [[1], []]"
    using wait_blocks [OF sem_rel_new kern_two_tasks_rel, of 0] by (auto simp: two_tasks_eq)
  have b: "busy ?a" "set (runq ?a) = {2}" by (simp_all add: two_tasks_eq a_leave_def)
  show ?thesis
    using sem_broadcast_releases_all [OF s(2,3) b(1)] s b
    by (intro exI [of _ s] exI [of _ k] exI [of _ ?a] exI [of _ "[1]"]) (auto simp: sem_rel_def)
qed

end
