(* ===== verification/Mem.thy ===== *)
theory Mem
  imports Prelude
begin

text \<open>
  Physical memory, byte by byte, and the 32-bit little-endian accesses of the processor. The laws
  needed of it are those of 4-byte cells at addresses that are multiples of four, and of pages:
  \<open>base p\<close> is the address with its low twelve bits cleared, which the code writes \<open>x & ~0xFFF\<close>.
\<close>

type_synonym ram = "u32 \<Rightarrow> u8"

definition rd32 :: "ram \<Rightarrow> u32 \<Rightarrow> u32" where
  "rd32 m a = ucast (m a) OR push_bit 8 (ucast (m (a + 1))) OR
              push_bit 16 (ucast (m (a + 2))) OR push_bit 24 (ucast (m (a + 3)))"

definition wr32 :: "ram \<Rightarrow> u32 \<Rightarrow> u32 \<Rightarrow> ram" where
  "wr32 m a v = m(a := ucast v, a + 1 := ucast (drop_bit 8 v),
                  a + 2 := ucast (drop_bit 16 v), a + 3 := ucast (drop_bit 24 v))"

definition base :: "u32 \<Rightarrow> u32" where
  "base a = a AND NOT 0xFFF"

definition aligned :: "u32 \<Rightarrow> bool" where
  "aligned a \<longleftrightarrow> 4 dvd unat a"

definition page_aligned :: "u32 \<Rightarrow> bool" where
  "page_aligned a \<longleftrightarrow> 4096 dvd unat a"

text \<open>The \<open>i\<close>-th 4-byte entry of the table at \<open>t\<close>.\<close>

definition entry :: "u32 \<Rightarrow> u32 \<Rightarrow> u32" where
  "entry t i = t + 4 * i"

section \<open>Pages\<close>

lemma u32_bound: "unat (a :: u32) < 4294967296"
  using unsigned_less [where 'b = 32 and 'a = nat, of a] by simp

lemma unat_and_mask: "unat (a AND mask n :: u32) = unat a mod 2 ^ n"
  by (metis take_bit_eq_mask take_bit_eq_mod unsigned_take_bit_eq)

lemma FFF_mask: "(0xFFF :: u32) = mask 12"
  by (simp add: mask_eq_exp_minus_1)

lemma split_page: "a = base a + (a AND 0xFFF)"
proof -
  have "(a AND NOT 0xFFF) AND (a AND 0xFFF) = 0"
    by (rule bit_word_eqI) (auto simp: bit_simps)
  moreover have "a = (a AND NOT 0xFFF) OR (a AND 0xFFF)"
    by (rule bit_word_eqI) (auto simp: bit_simps)
  ultimately show ?thesis by (metis base_def disjunctive_add_eq_or)
qed

lemma unat_offset: "unat (a AND 0xFFF :: u32) = unat a mod 4096"
  using unat_and_mask [of a 12] by (simp add: FFF_mask)

lemma unat_base: "unat (base a) = unat a div 4096 * 4096"
proof -
  have le: "a AND 0xFFF \<le> a" by (simp add: word_and_le2)
  have "base a = a - (a AND 0xFFF)" using split_page [of a] by (simp add: algebra_simps)
  then have "unat (base a) = unat a - unat a mod 4096"
    using le by (simp add: unat_sub unat_offset)
  then show ?thesis by (simp add: minus_mod_eq_div_mult)
qed

lemma base_aligned [simp]: "page_aligned (base a)"
  by (simp add: page_aligned_def unat_base)

lemma base_eq_iff: "base a = base b \<longleftrightarrow> unat a div 4096 = unat b div 4096"
  by (metis mult_cancel2 unat_base word_unat_eq_iff zero_neq_numeral)

lemma base_of_aligned [simp]: "page_aligned a \<Longrightarrow> base a = a"
  by (simp add: word_unat_eq_iff unat_base page_aligned_def)

lemma page_aligned_limit: "page_aligned a \<Longrightarrow> unat a + 4096 \<le> 4294967296"
proof -
  assume "page_aligned a"
  then obtain k where "unat a = 4096 * k" by (auto simp: page_aligned_def)
  moreover from this have "k < 1048576" using u32_bound [of a] by simp
  ultimately show "unat a + 4096 \<le> 4294967296" by simp
qed

lemma aligned_limit: "aligned a \<Longrightarrow> unat a + 4 \<le> 4294967296"
  using u32_bound [of a] unfolding aligned_def by presburger

lemma unat_plus_small: "unat (a :: u32) + unat b < 4294967296 \<Longrightarrow> unat (a + b) = unat a + unat b"
  by (simp add: unat_word_ariths(1))

lemma unat_page_plus: "page_aligned a \<Longrightarrow> unat d < 4096 \<Longrightarrow> unat (a + d) = unat a + unat d"
  using page_aligned_limit [of a] by (intro unat_plus_small) simp

lemma unat_cell_plus:
  assumes "aligned a" and "i \<in> {0, 1, 2, 3}"
  shows "unat (a + i) = unat a + unat i" "unat i < 4"
proof -
  show "unat i < 4" using assms(2) by auto
  then show "unat (a + i) = unat a + unat i"
    using aligned_limit [OF assms(1)] by (intro unat_plus_small) linarith
qed

lemma unat_four: "unat i < 1024 \<Longrightarrow> unat (4 * i :: u32) = 4 * unat i"
  by (simp add: unat_word_ariths)

lemma unat_entry: "page_aligned t \<Longrightarrow> unat i < 1024 \<Longrightarrow> unat (entry t i) = unat t + 4 * unat i"
  unfolding entry_def by (subst unat_page_plus) (simp_all add: unat_four)

lemma entry_aligned [simp]: "page_aligned t \<Longrightarrow> unat i < 1024 \<Longrightarrow> aligned (entry t i)"
  unfolding aligned_def by (subst unat_entry) (auto simp: page_aligned_def intro: dvd_trans [of 4 4096])

lemma base_entry [simp]:
  assumes "page_aligned t" and "unat i < 1024"
  shows "base (entry t i) = t"
proof -
  obtain k where "unat t = 4096 * k" using assms(1) by (auto simp: page_aligned_def)
  then have "unat (base (entry t i)) = unat t"
    using assms(2) by (simp add: unat_base unat_entry [OF assms])
  then show ?thesis by (simp add: word_unat_eq_iff)
qed

lemma entry_inject:
  "page_aligned t \<Longrightarrow> page_aligned u \<Longrightarrow> unat i < 1024 \<Longrightarrow> unat j < 1024 \<Longrightarrow>
   entry t i = entry u j \<longleftrightarrow> t = u \<and> i = j"
  by (metis add_left_cancel base_entry mult_cancel1 unat_entry word_unat_eq_iff zero_neq_numeral)

section \<open>Cells\<close>

lemma aligned_bytes:
  assumes "aligned a" "aligned b" "a \<noteq> b"
    and "i \<in> {0, 1, 2, 3}" "j \<in> {0, 1, 2, 3 :: u32}"
  shows "a + i \<noteq> b + j"
proof
  assume e: "a + i = b + j"
  have "unat a + unat i = unat b + unat j" using e unat_cell_plus(1) assms by metis
  moreover have "unat i < 4" "unat j < 4" using unat_cell_plus(2) assms by blast+
  ultimately have "unat a = unat b" using assms(1,2) unfolding aligned_def by presburger
  then show False using assms(3) word_unat_eq_iff by blast
qed

lemma byte_join:
  "(ucast (ucast v :: u8) :: u32) OR push_bit 8 (ucast (ucast (drop_bit 8 v) :: u8)) OR
   push_bit 16 (ucast (ucast (drop_bit 16 v) :: u8)) OR push_bit 24 (ucast (ucast (drop_bit 24 v) :: u8)) = v"
proof (rule bit_word_eqI)
  fix n assume "n < LENGTH(32)"
  then show "bit ((ucast (ucast v :: u8) :: u32) OR push_bit 8 (ucast (ucast (drop_bit 8 v) :: u8)) OR
   push_bit 16 (ucast (ucast (drop_bit 16 v) :: u8)) OR push_bit 24 (ucast (ucast (drop_bit 24 v) :: u8))) n = bit v n"
    by (cases "n < 8"; cases "n < 16"; cases "n < 24") (auto simp: bit_simps)
qed

lemma small_offsets: "(1 :: u32) \<noteq> 0" "(2 :: u32) \<noteq> 0" "(3 :: u32) \<noteq> 0" "(1 :: u32) \<noteq> 2" "(1 :: u32) \<noteq> 3" "(2 :: u32) \<noteq> 3"
  by simp_all

lemma rd32_wr32_same [simp]: "rd32 (wr32 m a v) a = v"
  using byte_join [of v] by (simp add: rd32_def wr32_def small_offsets)

lemma wr32_twice [simp]: "wr32 (wr32 m a v) a w = wr32 m a w"
  by (rule ext) (simp add: wr32_def)

lemma byte_split:
  "ucast (rd32 m a) = m a" "ucast (drop_bit 8 (rd32 m a)) = m (a + 1)"
  "ucast (drop_bit 16 (rd32 m a)) = m (a + 2)" "ucast (drop_bit 24 (rd32 m a)) = m (a + 3)"
  by (rule bit_word_eqI, auto simp: rd32_def bit_simps dest: bit_imp_le_length)+

lemma wr32_rd32 [simp]: "wr32 m a (rd32 m a) = m"
  by (rule ext) (simp add: wr32_def byte_split)

lemma rd32_wr32_other:
  assumes "aligned a" "aligned b" "a \<noteq> b"
  shows "rd32 (wr32 m a v) b = rd32 m b"
proof -
  have n: "b + j \<noteq> a + i" if "i \<in> {0, 1, 2, 3}" "j \<in> {0, 1, 2, 3}" for i j
    using aligned_bytes [of b a j i] assms that by auto
  show ?thesis
    using n [of 0 0] n [of 1 0] n [of 2 0] n [of 3 0] n [of 0 1] n [of 1 1] n [of 2 1] n [of 3 1]
      n [of 0 2] n [of 1 2] n [of 2 2] n [of 3 2] n [of 0 3] n [of 1 3] n [of 2 3] n [of 3 3]
    by (simp add: rd32_def wr32_def)
qed

lemma rd32_wr32: "aligned a \<Longrightarrow> aligned b \<Longrightarrow> rd32 (wr32 m a v) b = (if a = b then v else rd32 m b)"
  by (simp add: rd32_wr32_other)

lemma wr32_other_page:
  assumes "aligned a" and "base b \<noteq> base a"
  shows "wr32 m a v b = m b"
proof -
  have "unat (a + i) = unat a + unat i \<and> unat i < 4" if "i \<in> {0, 1, 2, 3}" for i
    using unat_cell_plus [OF assms(1) that] by simp
  moreover have "n div 4096 = n div 4 div 1024" for n :: nat by (simp add: div_mult2_eq [symmetric])
  moreover have "(unat a + r) div 4 = unat a div 4" if "r < 4" for r
    using that assms(1) unfolding aligned_def by presburger
  ultimately have "unat (a + i) div 4096 = unat a div 4096" if "i \<in> {0, 1, 2, 3}" for i
    using that by metis
  then have "base (a + i) = base a" if "i \<in> {0, 1, 2, 3}" for i using that by (simp add: base_eq_iff)
  then have "b \<noteq> a + i" if "i \<in> {0, 1, 2, 3}" for i using that assms(2) by metis
  from this [of 0] this [of 1] this [of 2] this [of 3] show ?thesis by (simp add: wr32_def)
qed


lemma cell_page: "aligned a \<Longrightarrow> i \<in> {0, 1, 2, 3} \<Longrightarrow> base (a + i) = base a"
proof -
  assume a: "aligned a" and i: "i \<in> {0, 1, 2, 3}"
  have "unat (a + i) = unat a + unat i \<and> unat i < 4" using unat_cell_plus [OF a i] by simp
  moreover have "n div 4096 = n div 4 div 1024" for n :: nat by (simp add: div_mult2_eq [symmetric])
  moreover have "(unat a + r) div 4 = unat a div 4" if "r < 4" for r
    using that a unfolding aligned_def by presburger
  ultimately show "base (a + i) = base a" by (metis base_eq_iff)
qed

lemma rd32_page:
  assumes "aligned a" and "\<And>b. base b = base a \<Longrightarrow> m b = m' b"
  shows "rd32 m a = rd32 m' a"
  using assms(2) cell_page [OF assms(1)] by (simp add: rd32_def)

lemma in_cell:
  assumes "aligned c"
  shows "b \<in> {c, c + 1, c + 2, c + 3} \<longleftrightarrow> unat c \<le> unat b \<and> unat b < unat c + 4"
proof -
  have s: "unat (c + 1) = unat c + 1" "unat (c + 2) = unat c + 2" "unat (c + 3) = unat c + 3"
    using unat_cell_plus(1) [OF assms, of 1] unat_cell_plus(1) [OF assms, of 2]
      unat_cell_plus(1) [OF assms, of 3] by simp_all
  show ?thesis unfolding insert_iff empty_iff word_unat_eq_iff s by auto
qed

lemma wr32_zero: "wr32 m c 0 b = (if b \<in> {c, c + 1, c + 2, c + 3} then 0 else m b)"
  by (simp add: wr32_def)

section \<open>Clearing a page\<close>

text \<open>\<open>for (i = 0; i < 1024; i++) page[i] = 0\<close>, from \<open>i\<close> on.\<close>

function clear_words :: "ram \<Rightarrow> u32 \<Rightarrow> nat \<Rightarrow> ram" where
  "clear_words m p i = (if i < 1024 then clear_words (wr32 m (entry p (of_nat i)) 0) p (i + 1) else m)"
  by pat_completeness auto
termination
  by (relation "measure (\<lambda>(m, p, i). 1024 - i)") auto

declare clear_words.simps [simp del]

lemma clear_words_from:
  assumes p: "page_aligned p"
  shows "i \<le> 1024 \<Longrightarrow> clear_words m p i b =
     (if unat p + 4 * i \<le> unat b \<and> unat b < unat p + 4096 then 0 else m b)"
proof (induction "1024 - i" arbitrary: i m)
  case 0
  then show ?case by (subst clear_words.simps) auto
next
  case (Suc d)
  then have i: "i < 1024" by simp
  then have u: "unat (of_nat i :: u32) = i" by (simp add: unat_of_nat)
  have e: "unat (entry p (of_nat i)) = unat p + 4 * i" using unat_entry [OF p, of "of_nat i"] u i by simp
  have a: "aligned (entry p (of_nat i))" using p u i by simp
  have "clear_words m p i b = clear_words (wr32 m (entry p (of_nat i)) 0) p (i + 1) b"
    using i by (simp add: clear_words.simps [of m p i])
  also have "\<dots> = (if unat p + 4 * (i + 1) \<le> unat b \<and> unat b < unat p + 4096 then 0
                  else wr32 m (entry p (of_nat i)) 0 b)"
    using Suc by (intro Suc.hyps(1)) auto
  also have "\<dots> = (if unat p + 4 * i \<le> unat b \<and> unat b < unat p + 4096 then 0 else m b)"
    unfolding wr32_zero in_cell [OF a] e using i by auto
  finally show ?case .
qed

lemma in_page: "page_aligned p \<Longrightarrow> base b = p \<longleftrightarrow> unat p \<le> unat b \<and> unat b < unat p + 4096"
proof -
  assume "page_aligned p"
  then obtain k where "unat p = 4096 * k" by (auto simp: page_aligned_def)
  then show "base b = p \<longleftrightarrow> unat p \<le> unat b \<and> unat b < unat p + 4096"
    unfolding word_unat_eq_iff unat_base using div_nat_eqI [of 4096 k "unat b"]
    by (auto simp: mult.commute dest: sym)
qed

lemma clear_page: "page_aligned p \<Longrightarrow> clear_words m p 0 b = (if base b = p then 0 else m b)"
  using clear_words_from [of p 0 m b] in_page [of p b] by simp

lemma rd32_clear_page:
  assumes "page_aligned p" and "aligned a"
  shows "rd32 (clear_words m p 0) a = (if base a = p then 0 else rd32 m a)"
proof -
  have "rd32 (clear_words m p 0) a = rd32 (if base a = p then (\<lambda>_. 0) else m) a"
    by (rule rd32_page [OF assms(2)]) (simp add: clear_page [OF assms(1)])
  then show ?thesis by (simp add: rd32_def)
qed

end
