(* ===== verification/Frames.thy ===== *)
theory Frames
  imports Sem Mem Pool "HOL-Library.Signed_Division"
begin

text \<open>
  Page frames, kernel/mm.c up to \<open>mm_mem_free\<close>. A bitmap has one bit for each frame, in 32-bit words;
  \<open>kernel_pf_info\<close> covers the 768 frames from 1 MB to 4 MB, \<open>usr_pf_info\<close> the memory from 4 MB on.
  The record \<open>mmk\<close> extends the kernel state with the variables of the file and with the memory.
  Addresses are numbers; NULL is 0.

  Both allocators are instances of the resource pool. The pool of the user frames leaves out the
  last word of the bitmap, which the search never reaches.
\<close>

section \<open>Model\<close>

record mmk = kern +
  ram :: ram
  kernel_pf_info :: "u32 list"
  usr_pf_info :: "u32 list"
  usr_pf_limit :: u32
  kernel_dir :: u32
  dir_free_sem :: sem

definition PAGE_SIZE :: u32 where "PAGE_SIZE = 4096"
definition USR_MEM_START :: u32 where "USR_MEM_START = 4194304"
definition KRN_MEM_START :: u32 where "KRN_MEM_START = 1048576"
definition PFI_OCCUPIED :: u32 where "PFI_OCCUPIED = 0xFFFFFFFF"

definition CHECK_BIT :: "u32 \<Rightarrow> nat \<Rightarrow> bool" where
  "CHECK_BIT v p \<longleftrightarrow> v AND push_bit p 1 \<noteq> 0"

definition SET_BIT :: "u32 \<Rightarrow> nat \<Rightarrow> u32" where
  "SET_BIT v p = v OR push_bit p 1"

definition UNSET_BIT :: "u32 \<Rightarrow> nat \<Rightarrow> u32" where
  "UNSET_BIT v p = v AND NOT (push_bit p 1)"

text \<open>\<open>while (i < limit && pfi[i++] == PFI_OCCUPIED);\<close> returns the final \<open>i\<close>.\<close>

function pfi_scan :: "u32 list \<Rightarrow> nat \<Rightarrow> nat \<Rightarrow> nat option" where
  "pfi_scan pfi limit i =
     (if i < limit then do {
        w \<leftarrow> aget pfi (of_nat i);
        if w = PFI_OCCUPIED then pfi_scan pfi limit (i + 1) else Some (i + 1) }
      else Some i)"
  by pat_completeness auto
termination
  by (relation "measure (\<lambda>(pfi, limit, i). limit - i)") auto

declare pfi_scan.simps [simp del]

text \<open>\<open>while (CHECK_BIT(w, i)) i++;\<close>. A shift by 32 is undefined in C.\<close>

function bit_scan :: "u32 \<Rightarrow> nat \<Rightarrow> nat option" where
  "bit_scan w i = (if 32 \<le> i then None else if CHECK_BIT w i then bit_scan w (i + 1) else Some i)"
  by pat_completeness auto
termination
  by (relation "measure (\<lambda>(w, i). 32 - i)") auto

declare bit_scan.simps [simp del]

definition page_frame_info_alloc :: "u32 list \<Rightarrow> u32 \<Rightarrow> u32 \<Rightarrow> (u32 \<times> u32 list) option" where
  "page_frame_info_alloc pfi limit mem_offset = do {
     i \<leftarrow> pfi_scan pfi (unat limit) 0;
     if i \<ge> unat limit then Some (0, pfi)
     else do {
       let j = i - 1;
       w \<leftarrow> aget pfi (of_nat j);
       i \<leftarrow> bit_scan w 0;
       pfi \<leftarrow> aput pfi (of_nat j) (SET_BIT w i);
       Some (mem_offset + (of_nat j * 32 + of_nat i) * PAGE_SIZE, pfi) } }"

definition mm_mem_alloc :: "'a mmk_scheme \<Rightarrow> (u32 \<times> 'a mmk_scheme) option" where
  "mm_mem_alloc k = do {
     (p, pfi) \<leftarrow> page_frame_info_alloc (usr_pf_info k) (usr_pf_limit k) USR_MEM_START;
     Some (p, k\<lparr>usr_pf_info := pfi\<rparr>) }"

text \<open>The limit \<open>mm_mem_kalloc\<close> passes is \<open>sizeof(kernel_pf_info)\<close>: 96 bytes, for 24 words.\<close>

definition mm_mem_kalloc :: "'a mmk_scheme \<Rightarrow> (u32 \<times> 'a mmk_scheme) option" where
  "mm_mem_kalloc k = do {
     (p, pfi) \<leftarrow> page_frame_info_alloc (kernel_pf_info k) 96 KRN_MEM_START;
     Some (p, k\<lparr>kernel_pf_info := pfi, ram := clear_words (ram k) p 0\<rparr>) }"

definition mm_mem_free :: "u32 \<Rightarrow> 'a mmk_scheme \<Rightarrow> 'a mmk_scheme option" where
  "mm_mem_free page k =
     (let kernel = sint page < sint USR_MEM_START;
          page = (if kernel then page - KRN_MEM_START else page - USR_MEM_START);
          index = word_of_int (sint page sdiv sint PAGE_SIZE) :: u32
      in if kernel then do {
           pfi \<leftarrow> amod (kernel_pf_info k) (index div 32) (\<lambda>w. UNSET_BIT w (unat (index mod 32)));
           Some (k\<lparr>kernel_pf_info := pfi\<rparr>) }
         else do {
           pfi \<leftarrow> amod (usr_pf_info k) (index div 32) (\<lambda>w. UNSET_BIT w (unat (index mod 32)));
           Some (k\<lparr>usr_pf_info := pfi\<rparr>) })"

section \<open>Bits\<close>

lemma bit_macros:
  "p < 32 \<Longrightarrow> CHECK_BIT v p = bit v p"
  "p < 32 \<Longrightarrow> SET_BIT v p = Bit_Operations.set_bit p v"
  "UNSET_BIT v p = Bit_Operations.unset_bit p v"
  by (simp_all add: CHECK_BIT_def SET_BIT_def UNSET_BIT_def bit_iff_and_push_bit_not_eq_0
      set_bit_eq_or unset_bit_eq_and_not)

lemma bit_scan_least:
  assumes "\<not> bit w n" and "n < 32" and "\<And>j. i \<le> j \<Longrightarrow> j < n \<Longrightarrow> bit w j" and "i \<le> n"
  shows "bit_scan w i = Some n"
  using assms
proof (induction "n - i" arbitrary: i)
  case 0
  then show ?case by (simp add: bit_scan.simps [of w i] bit_macros)
next
  case (Suc d)
  then have "bit w i" "i < n" by auto
  with Suc show ?case by (simp add: bit_scan.simps [of w i] bit_macros)
qed

lemma not_occupied: "w \<noteq> PFI_OCCUPIED \<longleftrightarrow> (\<exists>n < 32. \<not> bit w n)"
proof -
  have o: "PFI_OCCUPIED = mask 32" by (simp add: PFI_OCCUPIED_def mask_eq_exp_minus_1)
  have "w = mask 32 \<longleftrightarrow> (\<forall>n < 32. bit w n)" by (auto simp: bit_eq_iff bit_simps)
  then show ?thesis unfolding o by auto
qed

section \<open>Free frames\<close>

text \<open>The free frames among those of the first \<open>n\<close> words.\<close>

definition frames_free :: "u32 list \<Rightarrow> nat \<Rightarrow> nat set" where
  "frames_free pfi n = {f. f < 32 * n \<and> \<not> bit (pfi ! (f div 32)) (f mod 32)}"

lemma frame_split: "\<exists>j i. f = 32 * j + i \<and> i < (32 :: nat)"
  by (metis mult_div_mod_eq mod_less_divisor zero_less_numeral)

lemma pfi_scan_first:
  assumes "j < limit" and "limit < 2 ^ 32" and "j < length pfi" and "pfi ! j \<noteq> PFI_OCCUPIED"
    and "\<And>l. i \<le> l \<Longrightarrow> l < j \<Longrightarrow> pfi ! l = PFI_OCCUPIED" and "i \<le> j"
  shows "pfi_scan pfi limit i = Some (j + 1)"
  using assms
proof (induction "j - i" arbitrary: i)
  case 0
  then show ?case by (simp add: pfi_scan.simps [of pfi limit i] aget_def unat_of_nat)
next
  case (Suc d)
  then have "pfi ! i = PFI_OCCUPIED" "i < j" by auto
  with Suc show ?case by (simp add: pfi_scan.simps [of pfi limit i] aget_def unat_of_nat)
qed

lemma pfi_scan_full:
  assumes "limit < 2 ^ 32" and "limit \<le> length pfi"
    and "\<And>l. i \<le> l \<Longrightarrow> l < limit \<Longrightarrow> pfi ! l = PFI_OCCUPIED" and "i \<le> limit"
  shows "pfi_scan pfi limit i = Some limit"
  using assms
proof (induction "limit - i" arbitrary: i)
  case 0
  then show ?case by (subst pfi_scan.simps) simp
next
  case (Suc d)
  then have "pfi ! i = PFI_OCCUPIED" "i < limit" by auto
  with Suc show ?case by (simp add: pfi_scan.simps [of pfi limit i] aget_def unat_of_nat)
qed

lemma pfi_scan_out:
  assumes "limit < 2 ^ 32" and "length pfi < limit" and "i \<le> length pfi"
    and "\<And>l. i \<le> l \<Longrightarrow> l < length pfi \<Longrightarrow> pfi ! l = PFI_OCCUPIED"
  shows "pfi_scan pfi limit i = None"
  using assms
proof (induction "length pfi - i" arbitrary: i)
  case 0
  then show ?case by (simp add: pfi_scan.simps [of pfi limit i] aget_def unat_of_nat)
next
  case (Suc d)
  then have "pfi ! i = PFI_OCCUPIED" "i < length pfi" by auto
  with Suc show ?case by (simp add: pfi_scan.simps [of pfi limit i] aget_def unat_of_nat)
qed

lemma full_words: "frames_free pfi n = {} \<longleftrightarrow> (\<forall>j < n. pfi ! j = PFI_OCCUPIED)"
proof
  assume e: "frames_free pfi n = {}"
  show "\<forall>j < n. pfi ! j = PFI_OCCUPIED"
  proof (rule ccontr)
    assume "\<not> (\<forall>j < n. pfi ! j = PFI_OCCUPIED)"
    then obtain j i where "j < n" "i < 32" "\<not> bit (pfi ! j) i" using not_occupied by blast
    then have "32 * j + i \<in> frames_free pfi n" by (simp add: frames_free_def)
    then show False using e by simp
  qed
next
  assume "\<forall>j < n. pfi ! j = PFI_OCCUPIED"
  then have "bit (pfi ! (f div 32)) (f mod 32)" if "f < 32 * n" for f
    using that not_occupied [of "pfi ! (f div 32)"] by (simp add: less_mult_imp_div_less mult.commute)
  then show "frames_free pfi n = {}" by (auto simp: frames_free_def)
qed

text \<open>Taking a frame: the lowest free one.\<close>

lemma alloc_first_fit:
  assumes ne: "frames_free pfi n \<noteq> {}" and n: "n \<le> length pfi" "n < unat limit"
  defines "f \<equiv> LEAST f. f \<in> frames_free pfi n"
  shows "page_frame_info_alloc pfi limit off =
     Some (off + of_nat f * PAGE_SIZE, pfi[f div 32 := Bit_Operations.set_bit (f mod 32) (pfi ! (f div 32))])"
    and "f \<in> frames_free pfi n"
proof -
  show f: "f \<in> frames_free pfi n" unfolding f_def using ne by (metis LeastI ex_in_conv)
  let ?j = "f div 32" and ?i = "f mod 32"
  have least: "\<not> g < f" if "g \<in> frames_free pfi n" for g
    unfolding f_def using not_less_Least that by blast
  have j: "?j < n" using f by (simp add: frames_free_def less_mult_imp_div_less mult.commute)
  have full: "pfi ! l = PFI_OCCUPIED" if "l < ?j" for l
  proof (rule ccontr)
    assume "pfi ! l \<noteq> PFI_OCCUPIED"
    then obtain b where "b < 32" "\<not> bit (pfi ! l) b" using not_occupied by blast
    moreover have "32 * l + 32 \<le> 32 * ?j" "32 * ?j \<le> f"
      using mult_le_mono2 [of "Suc l" ?j 32] that by simp_all
    moreover from calculation have "32 * l + b < f" by linarith
    ultimately show False using least [of "32 * l + b"] that j by (auto simp: frames_free_def)
  qed
  have below: "bit (pfi ! ?j) b" if "b < ?i" for b
  proof (rule ccontr)
    assume nb: "\<not> bit (pfi ! ?j) b"
    have "?i < 32" "32 * ?j + ?i = f" by simp_all
    then have "32 * ?j + b < f" "b < 32" using that by linarith+
    then show False using least [of "32 * ?j + b"] nb j by (auto simp: frames_free_def)
  qed
  have free: "\<not> bit (pfi ! ?j) ?i" using f by (simp add: frames_free_def)
  then have "pfi ! ?j \<noteq> PFI_OCCUPIED" using not_occupied by (metis mod_less_divisor zero_less_numeral)
  then have s: "pfi_scan pfi (unat limit) 0 = Some (?j + 1)"
    using j n full u32_bound [of limit] by (intro pfi_scan_first) auto
  have b: "bit_scan (pfi ! ?j) 0 = Some ?i" using free below by (intro bit_scan_least) auto
  have u: "unat (of_nat ?j :: u32) = ?j" using j n u32_bound [of limit] by (simp add: unat_of_nat)
  have "of_nat ?j * 32 + of_nat ?i = (of_nat f :: u32)"
    by (metis div_mult_mod_eq of_nat_add of_nat_mult of_nat_numeral)
  then show "page_frame_info_alloc pfi limit off =
     Some (off + of_nat f * PAGE_SIZE, pfi[f div 32 := Bit_Operations.set_bit (f mod 32) (pfi ! (f div 32))])"
    using s b u j n by (simp add: page_frame_info_alloc_def aget_def aput_def bit_macros Let_def)
qed


lemma set_bit_frames:
  assumes "f \<in> frames_free pfi n" and "n \<le> length pfi"
  shows "frames_free (pfi[f div 32 := Bit_Operations.set_bit (f mod 32) (pfi ! (f div 32))]) n = frames_free pfi n - {f}"
proof -
  have "f div 32 < length pfi" using assms by (auto simp: frames_free_def less_mult_imp_div_less mult.commute)
  moreover have "f = g" if "f div 32 = g div 32" "f mod 32 = g mod 32" for g
    using that by (metis mult_div_mod_eq)
  ultimately show ?thesis
    by (auto simp: frames_free_def nth_list_update bit_simps dest: sym)
qed

lemma unset_bit_frames:
  assumes "f < 32 * n" and "n \<le> length pfi"
  shows "frames_free (pfi[f div 32 := Bit_Operations.unset_bit (f mod 32) (pfi ! (f div 32))]) n = insert f (frames_free pfi n)"
proof -
  have "f div 32 < length pfi" using assms by (auto simp: less_mult_imp_div_less mult.commute)
  moreover have "f = g" if "f div 32 = g div 32" "f mod 32 = g mod 32" for g
    using that by (metis mult_div_mod_eq)
  ultimately show ?thesis using assms
    by (auto simp: frames_free_def nth_list_update bit_simps dest: sym)
qed

lemma alloc_none:
  assumes "unat limit \<le> length pfi" and "frames_free pfi (unat limit - 1) = {}"
  shows "page_frame_info_alloc pfi limit off = Some (0, pfi)"
proof -
  have full: "\<forall>l < unat limit - 1. pfi ! l = PFI_OCCUPIED" using assms(2) full_words by blast
  have "pfi_scan pfi (unat limit) 0 = Some (unat limit)"
  proof (cases "unat limit > 0 \<and> pfi ! (unat limit - 1) \<noteq> PFI_OCCUPIED")
    case True
    then show ?thesis
      using pfi_scan_first [of "unat limit - 1" "unat limit" pfi 0] full assms(1) u32_bound [of limit] by auto
  next
    case False
    then have "pfi ! l = PFI_OCCUPIED" if "l < unat limit" for l
      using that full by (metis Suc_pred' less_Suc_eq not_gr_zero not_less_zero)
    then show ?thesis using pfi_scan_full [of "unat limit" pfi 0] assms(1) u32_bound [of limit] by auto
  qed
  then show ?thesis by (simp add: page_frame_info_alloc_def)
qed

section \<open>Frames as addresses\<close>

definition frame_at :: "u32 \<Rightarrow> nat \<Rightarrow> u32" where
  "frame_at off f = off + of_nat f * PAGE_SIZE"

lemma unat_frame_at: "unat off + f * 4096 < 2 ^ 32 \<Longrightarrow> unat (frame_at off f) = unat off + f * 4096"
  by (simp add: frame_at_def PAGE_SIZE_def unat_word_ariths unat_of_nat)

lemma frame_at_inj:
  "unat off + f * 4096 < 2 ^ 32 \<Longrightarrow> unat off + g * 4096 < 2 ^ 32 \<Longrightarrow> frame_at off f = frame_at off g \<longleftrightarrow> f = g"
  by (metis add_left_cancel mult_cancel2 unat_frame_at zero_neq_numeral)

text \<open>Giving a frame back clears its bit. The argument is compared as a signed number, so this holds
  below 2 GB only.\<close>

lemma free_index:
  assumes "f * 4096 < 2 ^ 31"
  shows "word_of_int (sint (of_nat f * PAGE_SIZE) sdiv sint PAGE_SIZE) = (of_nat f :: u32)"
proof -
  have "sint (of_nat f * PAGE_SIZE) = int (f * 4096)" "sint PAGE_SIZE = 4096"
    using assms by (simp_all add: sint_small PAGE_SIZE_def unat_word_ariths unat_of_nat)
  then show ?thesis by (simp add: signed_divide_int_def sgn_mult)
qed

lemma free_kernel_frame:
  assumes "f < 768" and "length (kernel_pf_info k) = 24"
  shows "mm_mem_free (frame_at KRN_MEM_START f) k = Some (k\<lparr>kernel_pf_info :=
     (kernel_pf_info k)[f div 32 := Bit_Operations.unset_bit (f mod 32) (kernel_pf_info k ! (f div 32))]\<rparr>)"
proof -
  have u: "unat (frame_at KRN_MEM_START f) = 1048576 + f * 4096"
    using assms by (subst unat_frame_at) (simp_all add: KRN_MEM_START_def)
  have "sint (frame_at KRN_MEM_START f) < sint USR_MEM_START"
    using u assms by (simp add: sint_small USR_MEM_START_def)
  moreover have "frame_at KRN_MEM_START f - KRN_MEM_START = of_nat f * PAGE_SIZE" by (simp add: frame_at_def)
  moreover have "unat (of_nat f div 32 :: u32) = f div 32" "unat (of_nat f mod 32 :: u32) = f mod 32"
    using assms by (simp_all add: unat_div unat_mod unat_of_nat)
  ultimately show ?thesis using assms free_index [of f]
    by (simp add: mm_mem_free_def Let_def amod_def bit_macros less_mult_imp_div_less)
qed

lemma free_usr_frame:
  assumes "4194304 + f * 4096 < 2 ^ 31" and "f div 32 < length (usr_pf_info k)"
  shows "mm_mem_free (frame_at USR_MEM_START f) k = Some (k\<lparr>usr_pf_info :=
     (usr_pf_info k)[f div 32 := Bit_Operations.unset_bit (f mod 32) (usr_pf_info k ! (f div 32))]\<rparr>)"
proof -
  have u: "unat (frame_at USR_MEM_START f) = 4194304 + f * 4096"
    using assms by (subst unat_frame_at) (simp_all add: USR_MEM_START_def)
  have "\<not> sint (frame_at USR_MEM_START f) < sint USR_MEM_START"
    using u assms by (simp add: sint_small USR_MEM_START_def)
  moreover have "frame_at USR_MEM_START f - USR_MEM_START = of_nat f * PAGE_SIZE" by (simp add: frame_at_def)
  moreover have "unat (of_nat f div 32 :: u32) = f div 32" "unat (of_nat f mod 32 :: u32) = f mod 32"
    using assms by (simp_all add: unat_div unat_mod unat_of_nat)
  ultimately show ?thesis using assms free_index [of f]
    by (simp add: mm_mem_free_def Let_def amod_def bit_macros)
qed

section \<open>The two pools\<close>

definition kernel_pool :: "'a mmk_scheme \<Rightarrow> u32 set \<Rightarrow> bool" where
  "kernel_pool k A \<longleftrightarrow> length (kernel_pf_info k) = 24 \<and>
     A = frame_at KRN_MEM_START ` frames_free (kernel_pf_info k) 24"

definition usr_pool :: "nat \<Rightarrow> 'a mmk_scheme \<Rightarrow> u32 set \<Rightarrow> bool" where
  "usr_pool n k A \<longleftrightarrow> unat (usr_pf_limit k) = n \<and> n \<le> length (usr_pf_info k) \<and> n \<le> 16352 \<and>
     A = frame_at USR_MEM_START ` frames_free (usr_pf_info k) (n - 1)"

definition kernel_frames :: "u32 set" where
  "kernel_frames = frame_at KRN_MEM_START ` {..<768}"

definition usr_frames :: "nat \<Rightarrow> u32 set" where
  "usr_frames n = frame_at USR_MEM_START ` {..<32 * (n - 1)}"

lemma frame_image:
  "f < 32 * n \<Longrightarrow> unat off + n * 131072 \<le> 2 ^ 32 \<Longrightarrow>
   frame_at off ` (frames_free pfi n - {f}) = frame_at off ` frames_free pfi n - {frame_at off f}"
  by (subst inj_on_image_set_diff [of _ "{..<32 * n}"])
    (auto simp: inj_on_def frame_at_inj frames_free_def)

interpretation kf: resource_pool mm_mem_kalloc mm_mem_free kernel_pool kernel_frames
proof
  show "finite kernel_frames" by (simp add: kernel_frames_def)
next
  fix k :: "'a mmk_scheme" and A assume "kernel_pool k A"
  then show "A \<subseteq> kernel_frames" by (auto simp: kernel_pool_def kernel_frames_def frames_free_def)
next
  fix k :: "'a mmk_scheme" and A assume p: "kernel_pool k A" and "A \<noteq> {}"
  then have ne: "frames_free (kernel_pf_info k) 24 \<noteq> {}" and l: "length (kernel_pf_info k) = 24"
    by (auto simp: kernel_pool_def)
  let ?f = "LEAST f. f \<in> frames_free (kernel_pf_info k) 24"
  note a = alloc_first_fit(1) [OF ne, of 96 KRN_MEM_START] alloc_first_fit(2) [OF ne, of 96]
  have f: "?f \<in> frames_free (kernel_pf_info k) 24" and fl: "?f < 32 * 24"
    using a(2) l by (auto simp: frames_free_def)
  let ?k = "k\<lparr>kernel_pf_info := (kernel_pf_info k)[?f div 32 :=
      Bit_Operations.set_bit (?f mod 32) (kernel_pf_info k ! (?f div 32))],
      ram := clear_words (ram k) (frame_at KRN_MEM_START ?f) 0\<rparr>"
  have "mm_mem_kalloc k = Some (frame_at KRN_MEM_START ?f, ?k)"
    using a(1) l by (simp add: mm_mem_kalloc_def frame_at_def)
  moreover have "kernel_pool ?k (A - {frame_at KRN_MEM_START ?f})"
    using p l f fl frame_image [of ?f 24 KRN_MEM_START]
    by (simp add: kernel_pool_def set_bit_frames KRN_MEM_START_def)
  moreover have "frame_at KRN_MEM_START ?f \<in> A" using p f by (simp add: kernel_pool_def)
  ultimately show "\<exists>r s'. mm_mem_kalloc k = Some (r, s') \<and> r \<in> A \<and> kernel_pool s' (A - {r})" by blast
next
  fix k :: "'a mmk_scheme" and A r
  assume p: "kernel_pool k A" and "r \<in> kernel_frames"
  then obtain f where f: "r = frame_at KRN_MEM_START f" "f < 768" by (auto simp: kernel_frames_def)
  then show "\<exists>s'. mm_mem_free r k = Some s' \<and> kernel_pool s' (insert r A)"
    using p free_kernel_frame [of f k] unset_bit_frames [of f 24 "kernel_pf_info k"]
    by (simp add: kernel_pool_def)
qed

interpretation uf: resource_pool mm_mem_alloc mm_mem_free "usr_pool n" "usr_frames n" for n
proof
  show "finite (usr_frames n)" by (simp add: usr_frames_def)
next
  fix k :: "'a mmk_scheme" and A assume "usr_pool n k A"
  then show "A \<subseteq> usr_frames n" by (auto simp: usr_pool_def usr_frames_def frames_free_def)
next
  fix k :: "'a mmk_scheme" and A assume p: "usr_pool n k A" and "A \<noteq> {}"
  then have ne: "frames_free (usr_pf_info k) (n - 1) \<noteq> {}" and l: "n \<le> length (usr_pf_info k)"
    and lim: "unat (usr_pf_limit k) = n" "n \<le> 16352" and n0: "n > 0"
    by (auto simp: usr_pool_def frames_free_def)
  let ?f = "LEAST f. f \<in> frames_free (usr_pf_info k) (n - 1)"
  note a = alloc_first_fit(1) [OF ne, of "usr_pf_limit k" USR_MEM_START]
    alloc_first_fit(2) [OF ne, of "usr_pf_limit k"]
  have f: "?f \<in> frames_free (usr_pf_info k) (n - 1)" and fl: "?f < 32 * (n - 1)"
    using a(2) l lim n0 by (auto simp: frames_free_def)
  let ?k = "k\<lparr>usr_pf_info := (usr_pf_info k)[?f div 32 :=
      Bit_Operations.set_bit (?f mod 32) (usr_pf_info k ! (?f div 32))]\<rparr>"
  have "mm_mem_alloc k = Some (frame_at USR_MEM_START ?f, ?k)"
    using a(1) l lim n0 by (simp add: mm_mem_alloc_def frame_at_def)
  moreover have "usr_pool n ?k (A - {frame_at USR_MEM_START ?f})"
    using p l f fl lim frame_image [of ?f "n - 1" USR_MEM_START]
    by (simp add: usr_pool_def set_bit_frames USR_MEM_START_def)
  moreover have "frame_at USR_MEM_START ?f \<in> A" using p f by (simp add: usr_pool_def)
  ultimately show "\<exists>r s'. mm_mem_alloc k = Some (r, s') \<and> r \<in> A \<and> usr_pool n s' (A - {r})" by blast
next
  fix k :: "'a mmk_scheme" and A r
  assume p: "usr_pool n k A" and "r \<in> usr_frames n"
  then obtain f where f: "r = frame_at USR_MEM_START f" "f < 32 * (n - 1)" by (auto simp: usr_frames_def)
  moreover have "n \<le> 16352" "n \<le> length (usr_pf_info k)" using p by (auto simp: usr_pool_def)
  moreover from calculation have "f div 32 < length (usr_pf_info k)" by (simp add: less_mult_imp_div_less mult.commute)
  ultimately show "\<exists>s'. mm_mem_free r k = Some s' \<and> usr_pool n s' (insert r A)"
    using p free_usr_frame [of f k] unset_bit_frames [of f "n - 1" "usr_pf_info k"]
    by (simp add: usr_pool_def)
qed

end
