(* ===== verification/Paging.thy ===== *)
theory Paging
  imports Frames
begin

text \<open>
  Page directories and tables, the second half of kernel/mm.c: mapping, unmapping, copying a page
  through the temporary kernel page, forking a directory with copy on write, the system calls
  \<open>palloc\<close> and \<open>share_page\<close>, and the release of a directory.

  Directories and tables live in the first 4 MB, which every directory maps onto itself, so the
  model reads and writes them at their physical address. Accesses through any other address go
  through \<open>walk\<close>, the two-level walk of the i386 with 4 MB pages; the translation cache, the
  protection bits and \<open>printf\<close> are not modelled.
\<close>

section \<open>Constants\<close>

definition MM_ATTR_REQ :: u32 where "MM_ATTR_REQ = 0x002"
definition MM_ATTR_SH :: u32 where "MM_ATTR_SH = 0x200"
definition MM_ATTR_COW :: u32 where "MM_ATTR_COW = 0x400"
definition MM_ATTR_P :: u32 where "MM_ATTR_P = 0x001"
definition MM_ATTR_RW :: u32 where "MM_ATTR_RW = 0x002"
definition MM_ATTR_RW_W :: u32 where "MM_ATTR_RW_W = 0x002"
definition MM_ATTR_US_U :: u32 where "MM_ATTR_US_U = 0x004"
definition MM_ATTR_US_S :: u32 where "MM_ATTR_US_S = 0x000"
definition MM_ATTR_SZ_4M :: u32 where "MM_ATTR_SZ_4M = 0x080"
definition USR_STD_ATTR :: u32 where "USR_STD_ATTR = MM_ATTR_RW OR MM_ATTR_US_U"
definition KERNEL_TEMP_PAGE :: u32 where "KERNEL_TEMP_PAGE = 0xFFFFF000"
definition TABLE_ENTRY_NUM :: nat where "TABLE_ENTRY_NUM = 1024"
definition DIR_SIZE :: u32 where "DIR_SIZE = PAGE_SIZE * 1024"
definition MM_ERROR_NOTALIGNED :: u32 where "MM_ERROR_NOTALIGNED = - 5"
definition PF_ERROR_READ_ONLY :: u32 where "PF_ERROR_READ_ONLY = 7"

definition is_present :: "u32 \<Rightarrow> bool" where "is_present page \<longleftrightarrow> page AND MM_ATTR_P \<noteq> 0"
definition is_requested :: "u32 \<Rightarrow> bool" where "is_requested page \<longleftrightarrow> page AND MM_ATTR_REQ \<noteq> 0"
definition is_shared :: "u32 \<Rightarrow> bool" where "is_shared page \<longleftrightarrow> page AND MM_ATTR_SH \<noteq> 0"
definition is_copy_on_write :: "u32 \<Rightarrow> bool" where "is_copy_on_write page \<longleftrightarrow> page AND MM_ATTR_COW \<noteq> 0"

section \<open>Memory of the kernel state\<close>

definition get32 :: "'a mmk_scheme \<Rightarrow> u32 \<Rightarrow> u32" where
  "get32 k a = rd32 (ram k) a"

definition put32 :: "u32 \<Rightarrow> u32 \<Rightarrow> 'a mmk_scheme \<Rightarrow> 'a mmk_scheme" where
  "put32 a v k = k\<lparr>ram := wr32 (ram k) a v\<rparr>"

text \<open>The walk of the processor: the physical address of \<open>va\<close>, if it is mapped.\<close>

definition walk :: "ram \<Rightarrow> u32 \<Rightarrow> u32 \<Rightarrow> u32 option" where
  "walk m dir va =
     (let pde = rd32 m (entry (base dir) (drop_bit 22 va)) in
      if \<not> is_present pde then None
      else if pde AND MM_ATTR_SZ_4M \<noteq> 0 then Some ((pde AND 0xFFC00000) OR (va AND 0x3FFFFF))
      else let pte = rd32 m (entry (base pde) (drop_bit 22 (push_bit 10 va))) in
        if \<not> is_present pte then None else Some (base pte OR (va AND 0xFFF)))"

definition vget :: "'a mmk_scheme \<Rightarrow> u32 \<Rightarrow> u8 option" where
  "vget k va = map_option (ram k) (walk (ram k) (reg_cr3 k) va)"

definition vput :: "u32 \<Rightarrow> u8 \<Rightarrow> 'a mmk_scheme \<Rightarrow> 'a mmk_scheme option" where
  "vput va b k = map_option (\<lambda>pa. k\<lparr>ram := (ram k)(pa := b)\<rparr>) (walk (ram k) (reg_cr3 k) va)"

section \<open>Mapping and unmapping\<close>

definition mm_page_map :: "u32 \<Rightarrow> u32 \<Rightarrow> u32 \<Rightarrow> u32 \<Rightarrow> u32 \<Rightarrow> 'a mmk_scheme \<Rightarrow> (u32 \<times> 'a mmk_scheme) option" where
  "mm_page_map virtual dir fisica page_size attr k =
     (let ind_td = drop_bit 22 virtual;
          ind_tp = drop_bit 22 (push_bit 10 virtual);
          base_tabla = fisica AND NOT 0xFFF;
          base_dir = dir AND NOT 0xFFF;
          desc_dir = base_dir + ind_td * 4 in
      if page_size \<noteq> 0 then
        Some (desc_dir, put32 desc_dir
          (((fisica AND NOT 0xFFFFF) AND (attr AND 0x1FFF)) OR (MM_ATTR_SZ_4M OR 1)) k)
      else do {
        (ok, k) \<leftarrow>
          (if \<not> is_present (get32 k desc_dir) then do {
             (new_dir, k) \<leftarrow> mm_mem_kalloc k;
             if new_dir = 0 then Some (False, k)
             else do {
               let k = put32 desc_dir (new_dir AND NOT 0xFFF) k;
               Some (True, put32 desc_dir (get32 k desc_dir OR (attr OR 1)) k) } }
           else Some (True, k));
        if \<not> ok then Some (0, k)
        else do {
          let ptr_desc_tabla = (get32 k desc_dir AND NOT 0xFFF) + ind_tp * 4;
          Some (ptr_desc_tabla, put32 ptr_desc_tabla (base_tabla OR attr OR 1) k) } })"

definition mm_page_free :: "u32 \<Rightarrow> u32 \<Rightarrow> 'a mmk_scheme \<Rightarrow> u32 \<times> 'a mmk_scheme" where
  "mm_page_free virtual dir k =
     (let ind_td = drop_bit 22 virtual;
          ind_tp = drop_bit 22 (push_bit 10 virtual);
          base_dir = dir AND NOT 0xFFF;
          desc_dir = base_dir + ind_td * 4 in
      if get32 k desc_dir AND MM_ATTR_SZ_4M \<noteq> 0 then
        (let k = put32 desc_dir (get32 k desc_dir AND NOT 1) k in (get32 k desc_dir AND NOT 0xFFF, k))
      else if get32 k desc_dir AND 1 \<noteq> 0 then
        (let ptr_desc_tabla = (get32 k desc_dir AND NOT 0xFFF) + ind_tp * 4;
             k = put32 ptr_desc_tabla (get32 k ptr_desc_tabla AND NOT 1) k in
         (get32 k ptr_desc_tabla AND NOT 0xFFF, k))
      else (0, k))"

definition mm_dir_unmap :: "u32 \<Rightarrow> u32 \<Rightarrow> 'a mmk_scheme \<Rightarrow> 'a mmk_scheme" where
  "mm_dir_unmap virtual dir k =
     (let desc_dir = (dir AND NOT 0xFFF) + drop_bit 22 virtual * 4 in
      put32 desc_dir (get32 k desc_dir AND NOT MM_ATTR_P) k)"

definition mm_dir_new :: "'a mmk_scheme \<Rightarrow> (u32 \<times> 'a mmk_scheme) option" where
  "mm_dir_new k = do {
     (dir, k) \<leftarrow> mm_mem_kalloc k;
     if dir = 0 then Some (0, k)
     else do {
       (_, k) \<leftarrow> mm_page_map 0 dir 0 1 USR_STD_ATTR k;
       Some (dir, k) } }"

definition mm_times_mapped :: "u32 \<Rightarrow> u32 \<Rightarrow> u32 \<Rightarrow> 'a mmk_scheme \<Rightarrow> u32 option" where
  "mm_times_mapped physical_addr dir_index table_index k =
     for_range 0 MAX_PID (\<lambda>i times. do {
       t \<leftarrow> aget (task_table k) (of_nat i);
       if cr3 t \<noteq> 0 then do {
         let desc_dir = (cr3 t AND NOT 0xFFF) + dir_index * 4;
         let desc_table = (get32 k desc_dir AND NOT 0xFFF) + table_index * 4;
         Some (if physical_addr = get32 k desc_table AND NOT 0xFFF then times + 1 else times) }
       else Some times }) 0"

section \<open>Releasing a directory\<close>

definition mm_table_free :: "u32 \<Rightarrow> u32 \<Rightarrow> 'a mmk_scheme \<Rightarrow> 'a mmk_scheme option" where
  "mm_table_free t dir_index k =
     for_range 0 TABLE_ENTRY_NUM (\<lambda>i k. do {
       let e = entry t (of_nat i);
       if is_present (get32 k e) then do {
         keep \<leftarrow> (if is_shared (get32 k e) \<or> is_copy_on_write (get32 k e) then do {
                    n \<leftarrow> mm_times_mapped (get32 k e AND NOT 0xFFF) dir_index (of_nat i) k;
                    Some (n > 1) }
                  else Some False);
         if keep then Some k
         else do {
           k \<leftarrow> mm_mem_free (get32 k e AND NOT 0xFFF) k;
           Some (put32 e (get32 k e AND NOT MM_ATTR_P) k) } }
       else Some k }) k"

text \<open>
  The critical section of \<open>mm_dir_free\<close>, between its \<open>sem_wait\<close> and its \<open>sem_signal\<close>. A task that
  has to wait gets there when it is scheduled again, so the two parts are separate in the model.
\<close>

definition mm_dir_free_body :: "u32 \<Rightarrow> 'a mmk_scheme \<Rightarrow> 'a mmk_scheme option" where
  "mm_dir_free_body d k = do {
     k \<leftarrow> for_range 1 TABLE_ENTRY_NUM (\<lambda>i k. do {
       let e = entry d (of_nat i);
       if is_present (get32 k e) then do {
         k \<leftarrow> mm_table_free (get32 k e AND NOT 0xFFF) (of_nat i) k;
         let k = put32 e (get32 k e AND NOT MM_ATTR_P) k;
         mm_mem_free (get32 k e AND NOT 0xFFF) k }
       else Some k }) k;
     k \<leftarrow> Some (put32 d (get32 k d AND NOT MM_ATTR_P) k);
     k \<leftarrow> mm_mem_free (d AND NOT 0xFFF) k;
     (s, k) \<leftarrow> sem_signal (dir_free_sem k) k;
     Some (k\<lparr>dir_free_sem := s\<rparr>) }"

definition mm_dir_free :: "u32 \<Rightarrow> 'a mmk_scheme \<Rightarrow> 'a mmk_scheme option" where
  "mm_dir_free d k = do {
     (s, k') \<leftarrow> sem_wait (dir_free_sem k) k;
     k' \<leftarrow> Some (k'\<lparr>dir_free_sem := s\<rparr>);
     if cur_pid k' \<noteq> cur_pid k then Some k' else mm_dir_free_body d k' }"

section \<open>Fork\<close>

definition mm_page_fork :: "u32 \<Rightarrow> u32 \<Rightarrow> 'a mmk_scheme \<Rightarrow> (u32 \<times> 'a mmk_scheme) option" where
  "mm_page_fork page_table new_table k = do {
     k \<leftarrow> for_range 0 TABLE_ENTRY_NUM (\<lambda>i k.
       let e = entry page_table (of_nat i) in
       if is_present (get32 k e) then
         (let k = (if get32 k e AND MM_ATTR_SH \<noteq> 0 then k
                   else (let k = put32 e (get32 k e OR MM_ATTR_COW) k in
                         put32 e (get32 k e AND NOT MM_ATTR_RW_W) k))
          in Some (put32 (entry new_table (of_nat i)) (get32 k e) k))
       else Some k) k;
     Some (new_table, k) }"

text \<open>The loop over the directory, from \<open>i\<close> on; it stops early, with NULL, when memory runs out.\<close>

function dir_fork_loop :: "u32 \<Rightarrow> u32 \<Rightarrow> nat \<Rightarrow> 'a mmk_scheme \<Rightarrow> (u32 \<times> 'a mmk_scheme) option" where
  "dir_fork_loop old_cr3 new_cr3 i k =
     (if i < TABLE_ENTRY_NUM then
        (let e = entry old_cr3 (of_nat i) in
         if is_present (get32 k e) then do {
           (dest_page, k) \<leftarrow> mm_mem_kalloc k;
           if dest_page = 0 then do { k \<leftarrow> mm_dir_free new_cr3 k; Some (0, k) }
           else do {
             let k = put32 (entry new_cr3 (of_nat i)) ((dest_page AND NOT 0xFFF) OR (get32 k e AND 0xFFF)) k;
             (r, k) \<leftarrow> mm_page_fork (get32 k e AND NOT 0xFFF) dest_page k;
             if r = 0 then do { k \<leftarrow> mm_dir_free new_cr3 k; Some (0, k) }
             else dir_fork_loop old_cr3 new_cr3 (i + 1) k } }
         else dir_fork_loop old_cr3 new_cr3 (i + 1) k)
      else Some (new_cr3, k))"
  by pat_completeness auto
termination
  by (relation "measure (\<lambda>(old_cr3, new_cr3, i, k). TABLE_ENTRY_NUM - i)") auto

declare dir_fork_loop.simps [simp del]

definition mm_dir_fork :: "u32 \<Rightarrow> 'a mmk_scheme \<Rightarrow> (u32 \<times> 'a mmk_scheme) option" where
  "mm_dir_fork dir k = do {
     (new_cr3, k) \<leftarrow> mm_dir_new k;
     if new_cr3 = 0 then Some (0, k) else dir_fork_loop dir new_cr3 1 k }"

definition mm_copy_vf :: "u32 \<Rightarrow> u32 \<Rightarrow> u32 \<Rightarrow> 'a mmk_scheme \<Rightarrow> (u32 \<times> 'a mmk_scheme) option" where
  "mm_copy_vf virtual fisica cant k =
     (if virtual div PAGE_SIZE \<noteq> (virtual + cant - 1) div PAGE_SIZE then Some (MM_ERROR_NOTALIGNED, k)
      else do {
        (_, k) \<leftarrow> mm_page_map KERNEL_TEMP_PAGE (reg_cr3 k) fisica 0 (MM_ATTR_RW OR MM_ATTR_US_S) k;
        k \<leftarrow> for_range 0 (unat cant) (\<lambda>i k. do {
          b \<leftarrow> vget k (virtual + of_nat i);
          vput (KERNEL_TEMP_PAGE + of_nat i) b k }) k;
        let (_, k) = mm_page_free KERNEL_TEMP_PAGE (reg_cr3 k) k;
        Some (0, k) })"

section \<open>System calls\<close>

text \<open>\<open>sys_palloc\<close>: the first entry that is neither present nor requested becomes requested. The
  \<open>attr\<close> field of an entry is its low twelve bits, \<open>base\<close> the other twenty.\<close>

definition attr_of :: "u32 \<Rightarrow> u32" where
  "attr_of e = e AND 0xFFF"

definition set_attr :: "u32 \<Rightarrow> u32 \<Rightarrow> u32" where
  "set_attr e a = (e AND NOT 0xFFF) OR (a AND 0xFFF)"

function palloc_table :: "u32 \<Rightarrow> nat \<Rightarrow> nat \<Rightarrow> 'a mmk_scheme \<Rightarrow> (u32 \<times> 'a mmk_scheme) option" where
  "palloc_table table i j k =
     (if j < TABLE_ENTRY_NUM then
        (let e = entry table (of_nat j) in
         if attr_of (get32 k e) AND MM_ATTR_P = 0 \<and> attr_of (get32 k e) AND MM_ATTR_REQ = 0
         then Some (PAGE_SIZE * 1024 * of_nat i + PAGE_SIZE * of_nat j,
                    put32 e (set_attr (get32 k e) MM_ATTR_REQ) k)
         else palloc_table table i (j + 1) k)
      else None)"
  by pat_completeness auto
termination
  by (relation "measure (\<lambda>(table, i, j, k). TABLE_ENTRY_NUM - j)") auto

declare palloc_table.simps [simp del]

function palloc_dir :: "u32 \<Rightarrow> nat \<Rightarrow> 'a mmk_scheme \<Rightarrow> u32 \<times> 'a mmk_scheme" where
  "palloc_dir dir i k =
     (if i < TABLE_ENTRY_NUM then
        (let e = entry dir (of_nat i) in
         if attr_of (get32 k e) AND MM_ATTR_P \<noteq> 0 then
           (if attr_of (get32 k e) AND MM_ATTR_SZ_4M = 0 then
              (case palloc_table (push_bit 12 (drop_bit 12 (get32 k e))) i 0 k of
                 Some r \<Rightarrow> r | None \<Rightarrow> palloc_dir dir (i + 1) k)
            else palloc_dir dir (i + 1) k)
         else if attr_of (get32 k e) AND MM_ATTR_REQ = 0 then
           (PAGE_SIZE * 1024 * of_nat i, put32 e (set_attr (get32 k e) MM_ATTR_REQ) k)
         else palloc_dir dir (i + 1) k)
      else (0, k))"
  by pat_completeness auto
termination
  by (relation "measure (\<lambda>(dir, i, k). TABLE_ENTRY_NUM - i)") auto

declare palloc_dir.simps [simp del]

definition sys_palloc :: "'a mmk_scheme \<Rightarrow> u32 \<times> 'a mmk_scheme" where
  "sys_palloc k = palloc_dir (reg_cr3 k) 1 k"

definition mm_share_page :: "u32 \<Rightarrow> 'a mmk_scheme \<Rightarrow> u32 \<times> 'a mmk_scheme" where
  "mm_share_page page k =
     (let base_dir = reg_cr3 k AND NOT 0xFFF;
          ind_td = drop_bit 22 page;
          ind_tp = drop_bit 22 (push_bit 10 page);
          desc_dir = base_dir + ind_td * 4;
          ptr_desc_tabla = (get32 k desc_dir AND NOT 0xFFF) + ind_tp * 4
      in (0, put32 ptr_desc_tabla (get32 k ptr_desc_tabla OR MM_ATTR_SH) k))"

text \<open>The page table entry \<open>page\<close> points at has been written to while it is copy on write.\<close>

definition mm_copy_on_write_page :: "u32 \<Rightarrow> u32 \<Rightarrow> u32 \<Rightarrow> 'a mmk_scheme \<Rightarrow> (u32 \<times> 'a mmk_scheme) option" where
  "mm_copy_on_write_page page dir_index table_index k = do {
     n \<leftarrow> mm_times_mapped (get32 k page AND NOT 0xFFF) dir_index table_index k;
     if n = 1 then do {
       let k = put32 page (get32 k page AND NOT MM_ATTR_COW) k;
       Some (0, put32 page (get32 k page OR MM_ATTR_RW) k) }
     else do {
       (dest_page, k) \<leftarrow> mm_mem_alloc k;
       if dest_page = 0 then Some (-1, k)
       else do {
         (_, k) \<leftarrow> mm_copy_vf (dir_index * DIR_SIZE + table_index * PAGE_SIZE) dest_page PAGE_SIZE k;
         let k = put32 page ((dest_page AND NOT 0xFFF) OR USR_STD_ATTR OR 1) k;
         Some (0, put32 page (get32 k page OR USR_STD_ATTR OR 1) k) } } }"

end
