(* ===== verification/Paging_Spec.thy ===== *)
theory Paging_Spec
  imports Paging
begin

text \<open>
  What mapping promises. \<open>dir_wf m d A\<close> says that \<open>d\<close> is a page directory in memory \<open>m\<close> whose page
  tables are pages of their own: no two entries share a table, none of the tables is the directory
  itself, and neither the directory nor a table is among the free frames \<open>A\<close>. Under it,
  \<open>mm_page_map\<close> changes the walk of exactly one page.
\<close>

definition pdi :: "u32 \<Rightarrow> u32" where "pdi va = drop_bit 22 va"
definition pti :: "u32 \<Rightarrow> u32" where "pti va = drop_bit 22 (push_bit 10 va)"

definition pde :: "ram \<Rightarrow> u32 \<Rightarrow> u32 \<Rightarrow> u32" where
  "pde m d i = rd32 m (entry d i)"

definition has_table :: "ram \<Rightarrow> u32 \<Rightarrow> u32 \<Rightarrow> bool" where
  "has_table m d i \<longleftrightarrow> is_present (pde m d i) \<and> pde m d i AND MM_ATTR_SZ_4M = 0"

definition table :: "ram \<Rightarrow> u32 \<Rightarrow> u32 \<Rightarrow> u32" where
  "table m d i = base (pde m d i)"

definition index_ok :: "u32 \<Rightarrow> bool" where
  "index_ok i \<longleftrightarrow> unat i < 1024"

definition tabled :: "ram \<Rightarrow> u32 \<Rightarrow> u32 set" where
  "tabled m d = {i. index_ok i \<and> has_table m d i}"

definition dir_wf :: "ram \<Rightarrow> u32 \<Rightarrow> u32 set \<Rightarrow> bool" where
  "dir_wf m d A \<longleftrightarrow> page_aligned d \<and> d \<in> kernel_frames \<and> d \<notin> A \<and>
     (\<forall>i \<in> tabled m d. table m d i \<noteq> d \<and> table m d i \<notin> A \<and> table m d i \<in> kernel_frames) \<and> inj_on (table m d) (tabled m d)"

section \<open>Virtual addresses\<close>

lemma unat_pdi: "unat (pdi va) = unat va div 4194304"
  unfolding pdi_def unat_drop_bit_eq by (simp add: drop_bit_eq_div)

lemma unat_pti: "unat (pti va) = unat va div 4096 mod 1024"
proof -
  have "pti va = drop_bit 12 va AND mask 10"
    by (rule bit_word_eqI) (auto simp: pti_def bit_simps)
  then have "unat (pti va) = unat (drop_bit 12 va) mod 2 ^ 10" by (simp only: unat_and_mask)
  then show ?thesis unfolding unat_drop_bit_eq by (simp add: drop_bit_eq_div)
qed

lemma pdi_ok [simp]: "index_ok (pdi va)"
  using u32_bound [of va] by (simp add: index_ok_def unat_pdi less_mult_imp_div_less)

lemma pti_ok [simp]: "index_ok (pti va)"
  by (simp add: index_ok_def unat_pti)

lemma same_page: "base v = base w \<longleftrightarrow> pdi v = pdi w \<and> pti v = pti w"
proof -
  have d: "n div 4194304 = n div 4096 div 1024" for n :: nat by (simp add: div_mult2_eq [symmetric])
  show ?thesis
    unfolding base_eq_iff word_unat_eq_iff [of "pdi v"] word_unat_eq_iff [of "pti v"] unat_pdi unat_pti d
    by (metis div_mod_decomp)
qed

lemma entry_code: "t + i * 4 = entry t i"
  by (simp add: entry_def mult.commute)

lemma base_code: "a AND NOT 0xFFF = base a"
  by (simp add: base_def)

lemmas entry_lemmas = entry_inject base_entry entry_aligned

lemma entry_facts [simp]:
  "page_aligned t \<Longrightarrow> index_ok i \<Longrightarrow> aligned (entry t i)"
  "page_aligned t \<Longrightarrow> index_ok i \<Longrightarrow> base (entry t i) = t"
  by (simp_all add: index_ok_def)

lemma entry_eq:
  "page_aligned t \<Longrightarrow> page_aligned u \<Longrightarrow> index_ok i \<Longrightarrow> index_ok j \<Longrightarrow> entry t i = entry u j \<longleftrightarrow> t = u \<and> i = j"
  by (simp add: index_ok_def entry_inject)

lemma table_aligned [simp]: "page_aligned (table m d i)"
  by (simp add: table_def)

section \<open>Attribute bits\<close>

lemma is_present_bit: "is_present e \<longleftrightarrow> bit e 0"
proof -
  have "MM_ATTR_P = push_bit 0 1" by (simp add: MM_ATTR_P_def)
  then show ?thesis by (simp only: is_present_def bit_iff_and_push_bit_not_eq_0)
qed

lemma large_bit: "e AND MM_ATTR_SZ_4M \<noteq> 0 \<longleftrightarrow> bit e 7"
proof -
  have "MM_ATTR_SZ_4M = push_bit 7 1" by (simp add: MM_ATTR_SZ_4M_def)
  then show ?thesis by (simp only: bit_iff_and_push_bit_not_eq_0)
qed

lemma small_bits: "a AND NOT 0xFFF = 0 \<Longrightarrow> bit (a :: u32) n \<Longrightarrow> n < 12"
proof (rule ccontr)
  assume a: "a AND NOT 0xFFF = 0" and b: "bit a n" "\<not> n < 12"
  have "n < 32" using bit_imp_le_length [OF b(1)] by simp
  then have "bit (a AND NOT (mask 12)) n" using b by (simp add: bit_simps)
  then show False using a by (simp add: FFF_mask)
qed

lemma base_or_attr: "page_aligned b \<Longrightarrow> a AND NOT 0xFFF = 0 \<Longrightarrow> base (b OR a) = b"
proof -
  assume b: "page_aligned b" and a: "a AND NOT 0xFFF = 0"
  have "base (b OR a) = base b OR base a"
    unfolding base_def by (rule bit_word_eqI) (auto simp: bit_simps)
  moreover have "base a = 0" using a unfolding base_def .
  ultimately show "base (b OR a) = b" using b by simp
qed


section \<open>The walk\<close>

lemma walk_eq:
  "page_aligned d \<Longrightarrow> walk m d va =
     (if \<not> is_present (pde m d (pdi va)) then None
      else if \<not> has_table m d (pdi va) then Some ((pde m d (pdi va) AND 0xFFC00000) OR (va AND 0x3FFFFF))
      else let pte = rd32 m (entry (table m d (pdi va)) (pti va)) in
        if \<not> is_present pte then None else Some (base pte OR (va AND 0xFFF)))"
  by (simp add: walk_def pde_def has_table_def table_def pdi_def pti_def Let_def)

text \<open>Writing an entry of the table of \<open>va\<close>.\<close>

lemma dir_wf_table:
  "dir_wf m d A \<Longrightarrow> index_ok i \<Longrightarrow> has_table m d i \<Longrightarrow>
   table m d i \<noteq> d \<and> table m d i \<notin> A \<and> table m d i \<in> kernel_frames"
  by (simp add: dir_wf_def tabled_def)

lemma dir_wf_inj:
  "dir_wf m d A \<Longrightarrow> index_ok i \<Longrightarrow> index_ok j \<Longrightarrow> has_table m d i \<Longrightarrow> has_table m d j \<Longrightarrow>
   table m d i = table m d j \<Longrightarrow> i = j"
  by (auto simp: dir_wf_def tabled_def dest: inj_onD)

lemma dir_wf_aligned: "dir_wf m d A \<Longrightarrow> page_aligned d" "dir_wf m d A \<Longrightarrow> d \<notin> A"
    "dir_wf m d A \<Longrightarrow> d \<in> kernel_frames"
  by (simp_all add: dir_wf_def)

lemma pde_set_pte:
  assumes "dir_wf m d A" and "has_table m d i" and "index_ok i" "index_ok j" "index_ok l"
  shows "pde (wr32 m (entry (table m d i) j) v) d l = pde m d l"
proof -
  have "entry (table m d i) j \<noteq> entry d l"
    using assms dir_wf_table [OF assms(1,3,2)] dir_wf_aligned(1) by (auto simp: entry_eq)
  then show ?thesis using assms dir_wf_aligned(1) by (auto simp: pde_def rd32_wr32_other)
qed

lemma dir_wf_cong:
  assumes "dir_wf m d A" and "\<And>i. index_ok i \<Longrightarrow> pde m' d i = pde m d i" and "A' \<subseteq> A"
  shows "dir_wf m' d A'"
proof -
  have h: "has_table m' d i = has_table m d i" "table m' d i = table m d i" if "index_ok i" for i
    using assms(2) [OF that] by (simp_all add: has_table_def table_def)
  then have s: "tabled m' d = tabled m d" by (auto simp: tabled_def)
  moreover have "inj_on (table m' d) (tabled m d) = inj_on (table m d) (tabled m d)"
    using h by (intro inj_on_cong) (simp add: tabled_def)
  moreover have "\<forall>i \<in> tabled m d. table m' d i = table m d i" using h by (simp add: tabled_def)
  ultimately show ?thesis using assms(1,3) unfolding dir_wf_def by auto
qed

lemma walk_set_pte:
  fixes v :: u32
  assumes wf: "dir_wf m d A" and t: "has_table m d (pdi va)"
  defines "m' \<equiv> wr32 m (entry (table m d (pdi va)) (pti va)) v"
  shows "dir_wf m' d A"
    and "walk m' d w = (if base w = base va then if is_present v then Some (base v OR (w AND 0xFFF)) else None
       else walk m d w)"
proof -
  have p: "pde m' d i = pde m d i" if "index_ok i" for i
    unfolding m'_def using that by (intro pde_set_pte [OF wf t]) simp_all
  then show "dir_wf m' d A" by (intro dir_wf_cong [OF wf]) auto
  have d: "page_aligned d" using wf by (simp add: dir_wf_def)
  have h: "has_table m' d (pdi w) = has_table m d (pdi w)" "table m' d (pdi w) = table m d (pdi w)"
    using p by (simp_all add: has_table_def table_def)
  show "walk m' d w = (if base w = base va then if is_present v then Some (base v OR (w AND 0xFFF)) else None
       else walk m d w)"
  proof (cases "base w = base va")
    case True
    then have "pdi w = pdi va" "pti w = pti va" by (simp_all add: same_page)
    then show ?thesis using True t h p [of "pdi va"]
      by (simp add: walk_eq [OF d] has_table_def m'_def Let_def)
  next
    case False
    have "rd32 m' (entry (table m d (pdi w)) (pti w)) = rd32 m (entry (table m d (pdi w)) (pti w))"
      if "has_table m d (pdi w)"
    proof -
      have "table m d (pdi w) \<noteq> table m d (pdi va) \<or> pti w \<noteq> pti va"
        using dir_wf_inj [OF wf pdi_ok pdi_ok that t] False by (auto simp: same_page)
      then show ?thesis unfolding m'_def
        by (intro rd32_wr32_other) (auto simp: entry_eq)
    qed
    then show ?thesis using False h p [of "pdi w"] by (simp add: walk_eq [OF d] Let_def)
  qed
qed

text \<open>Giving an absent entry a cleared table.\<close>

definition new_table :: "ram \<Rightarrow> u32 \<Rightarrow> u32 \<Rightarrow> u32 \<Rightarrow> u32 \<Rightarrow> ram" where
  "new_table m d i p e = wr32 (wr32 (clear_words m p 0) (entry d i) p) (entry d i) e"

lemma new_table_facts:
  assumes wf: "dir_wf m d A" and i: "index_ok i" "\<not> is_present (pde m d i)"
    and p: "p \<in> A" "page_aligned p" "p \<in> kernel_frames" and e: "is_present e" "e AND MM_ATTR_SZ_4M = 0" "base e = p"
  defines "m' \<equiv> new_table m d i p e"
  shows "dir_wf m' d (A - {p})" and "has_table m' d i" and "table m' d i = p"
    and "walk m' d w = walk m d w" and "index_ok j \<Longrightarrow> j \<noteq> i \<Longrightarrow> pde m' d j = pde m d j"
proof -
  have d: "page_aligned d" and dp: "d \<noteq> p" using wf p(1,2) by (auto simp: dir_wf_def)
  have pd: "pde m' d j = (if j = i then e else pde m d j)" if "index_ok j" for j
    using d i(1) that dp p(2)
    by (auto simp: m'_def new_table_def pde_def rd32_wr32 entry_eq rd32_clear_page)
  then show "index_ok j \<Longrightarrow> j \<noteq> i \<Longrightarrow> pde m' d j = pde m d j" by simp
  show h: "has_table m' d i" and t: "table m' d i = p" using pd [OF i(1)] e by (simp_all add: has_table_def table_def)
  have o: "has_table m' d j = (j = i \<or> has_table m d j)" "table m' d j = (if j = i then p else table m d j)"
    if "index_ok j" for j
    using pd [OF that] e by (auto simp: has_table_def table_def)
  show "dir_wf m' d (A - {p})"
    unfolding dir_wf_def
  proof (intro conjI allI impI)
    show "page_aligned d" "d \<in> kernel_frames" "d \<notin> A - {p}" using dir_wf_aligned [OF wf] by simp_all
  next
    show "\<forall>j \<in> tabled m' d. table m' d j \<noteq> d \<and> table m' d j \<notin> A - {p} \<and> table m' d j \<in> kernel_frames"
    proof
      fix j assume j: "j \<in> tabled m' d"
      then show "table m' d j \<noteq> d \<and> table m' d j \<notin> A - {p} \<and> table m' d j \<in> kernel_frames"
        using o [of j] dp p(3) dir_wf_table [OF wf, of j] by (auto simp: tabled_def)
    qed
  next
    show "inj_on (table m' d) (tabled m' d)"
    proof (rule inj_onI)
      fix j l assume j: "j \<in> tabled m' d" and l: "l \<in> tabled m' d" and e: "table m' d j = table m' d l"
      have n: "table m d x \<noteq> p" if "index_ok x" "has_table m d x" for x
        using dir_wf_table [OF wf that] p(1) by auto
      show "j = l"
      proof (cases "j = i \<or> l = i")
        case True
        then show ?thesis using j l e o [of j] o [of l] n [of j] n [of l]
          by (auto simp: tabled_def split: if_splits)
      next
        case False
        then show ?thesis using j l e o [of j] o [of l] dir_wf_inj [OF wf, of j l]
          by (simp add: tabled_def)
      qed
    qed
  qed
  show "walk m' d w = walk m d w"
  proof (cases "pdi w = i")
    case True
    have "rd32 m' (entry p (pti w)) = 0"
      using d i(1) dp p(2) by (simp add: m'_def new_table_def rd32_wr32 entry_eq rd32_clear_page)
    then show ?thesis using True h t i pd [of "pdi w"] e by (simp add: walk_eq [OF d] Let_def is_present_def)
  next
    case False
    have "rd32 m' (entry (table m d (pdi w)) (pti w)) = rd32 m (entry (table m d (pdi w)) (pti w))"
      if "has_table m d (pdi w)"
    proof -
      have "table m d (pdi w) \<noteq> d" "table m d (pdi w) \<noteq> p"
        using dir_wf_table [OF wf pdi_ok that] p(1) by auto
      then show ?thesis using d i(1) p(2)
        by (simp add: m'_def new_table_def rd32_wr32 entry_eq rd32_clear_page)
    qed
    then show ?thesis using False o [of "pdi w"] pd [of "pdi w"] by (simp add: walk_eq [OF d] Let_def)
  qed
qed


section \<open>Mapping a page\<close>

lemma frame_page_aligned:
  "page_aligned off \<Longrightarrow> unat off + f * 4096 < 2 ^ 32 \<Longrightarrow> page_aligned (frame_at off f)"
  by (simp add: page_aligned_def unat_frame_at)

lemma kernel_frame_facts: "p \<in> kernel_frames \<Longrightarrow> page_aligned p \<and> p \<noteq> 0"
proof -
  assume "p \<in> kernel_frames"
  then obtain f where f: "p = frame_at KRN_MEM_START f" "f < 768" by (auto simp: kernel_frames_def)
  then have "unat p = 1048576 + f * 4096" by (subst f(1), subst unat_frame_at) (simp_all add: KRN_MEM_START_def)
  moreover have "page_aligned p" unfolding f(1)
    by (rule frame_page_aligned) (use f in \<open>simp_all add: page_aligned_def KRN_MEM_START_def\<close>)
  ultimately show "page_aligned p \<and> p \<noteq> 0" by auto
qed

lemma kalloc_spec:
  assumes "kernel_pool k A" and "A \<noteq> {}"
  shows "\<exists>p pfi. mm_mem_kalloc k = Some (p, k\<lparr>kernel_pf_info := pfi, ram := clear_words (ram k) p 0\<rparr>) \<and>
     p \<in> A \<and> kernel_pool (k\<lparr>kernel_pf_info := pfi, ram := clear_words (ram k) p 0\<rparr>) (A - {p}) \<and>
     page_aligned p \<and> p \<noteq> 0 \<and> p \<in> kernel_frames"
proof -
  obtain p k1 where p: "mm_mem_kalloc k = Some (p, k1)" "p \<in> A" "kernel_pool k1 (A - {p})"
    using kf.alloc_some [OF assms] by blast
  moreover obtain pfi where "k1 = k\<lparr>kernel_pf_info := pfi, ram := clear_words (ram k) p 0\<rparr>"
    using p(1) by (auto simp: mm_mem_kalloc_def split: Option.bind_splits)
  moreover have "page_aligned p \<and> p \<noteq> 0 \<and> p \<in> kernel_frames"
    using kernel_frame_facts kf.pool_sub [OF assms(1)] p(2) by blast
  ultimately show ?thesis by blast
qed

lemma kernel_pool_ram [simp]: "kernel_pool (k\<lparr>ram := m\<rparr>) A = kernel_pool k A"
  by (simp add: kernel_pool_def)

text \<open>A kernel state that differs from \<open>k\<close> in the memory and the kernel bitmap only.\<close>

definition mem_step :: "'a mmk_scheme \<Rightarrow> 'a mmk_scheme \<Rightarrow> bool" where
  "mem_step k k' \<longleftrightarrow> k' = k\<lparr>kernel_pf_info := kernel_pf_info k', ram := ram k'\<rparr>"

lemma mem_step_fields:
  assumes "mem_step k k'"
  shows "reg_cr3 k' = reg_cr3 k" "task_table k' = task_table k" "usr_pf_info k' = usr_pf_info k"
    "usr_pf_limit k' = usr_pf_limit k" "dir_free_sem k' = dir_free_sem k" "cur_pid k' = cur_pid k"
    "sch k' = sch k" "free_pids k' = free_pids k" "next_free k' = next_free k"
    "tasks_running k' = tasks_running k" "reg_esp k' = reg_esp k" "mmk.more k' = mmk.more k"
  by (subst assms [unfolded mem_step_def], simp)+

lemma mem_step_trans: "mem_step k k1 \<Longrightarrow> mem_step k1 k2 \<Longrightarrow> mem_step k k2"
proof -
  assume a: "mem_step k k1" and b: "mem_step k1 k2"
  have "k2 = k1\<lparr>kernel_pf_info := kernel_pf_info k2, ram := ram k2\<rparr>" using b by (simp add: mem_step_def)
  also have "\<dots> = k\<lparr>kernel_pf_info := kernel_pf_info k2, ram := ram k2\<rparr>"
    by (subst a [unfolded mem_step_def]) simp
  finally show "mem_step k k2" by (simp add: mem_step_def)
qed

lemma mem_step_ram [intro]: "mem_step k (k\<lparr>ram := m\<rparr>)"
  by (simp add: mem_step_def)

definition mapped_at :: "ram \<Rightarrow> u32 \<Rightarrow> u32 \<Rightarrow> u32 \<Rightarrow> ram \<Rightarrow> bool" where
  "mapped_at m d va pa m' \<longleftrightarrow>
     (\<forall>w. walk m' d w = (if base w = base va then Some (base pa OR (w AND 0xFFF)) else walk m d w))"

lemma or_attr_bits:
  assumes "page_aligned b" and "a AND NOT 0xFFF = 0" and "a AND MM_ATTR_SZ_4M = 0"
  shows "is_present (b OR (a OR 1))" and "(b OR (a OR 1)) AND MM_ATTR_SZ_4M = 0" and "base (b OR (a OR 1)) = b"
proof -
  show "is_present (b OR (a OR 1))" by (simp add: is_present_bit bit_simps)
  have "\<not> bit b n" if "n < 12" for n
  proof -
    have "b = base b" using assms(1) by simp
    then have "bit b n \<longleftrightarrow> bit (b AND NOT (mask 12)) n" unfolding base_def FFF_mask by metis
    then show ?thesis using that by (simp add: bit_simps)
  qed
  then have "\<not> bit b 7" by simp
  moreover have "\<not> bit a 7" using assms(3) large_bit by blast
  ultimately have "\<not> bit (b OR (a OR 1)) 7" by (simp add: bit_simps)
  then show "(b OR (a OR 1)) AND MM_ATTR_SZ_4M = 0" using large_bit by blast
  have "(1 :: u32) AND NOT 0xFFF = 0" by simp
  then have "(a OR 1) AND NOT 0xFFF = 0" using assms(2) unfolding bit.conj_disj_distrib2 by (simp only: or.left_neutral)
  then show "base (b OR (a OR 1)) = b" using assms(1) by (intro base_or_attr)
qed

lemma map_present:
  assumes wf: "dir_wf (ram k) d A" and t: "has_table (ram k) d (pdi va)"
    and a: "attr AND NOT 0xFFF = 0" "attr AND MM_ATTR_SZ_4M = 0"
  defines "e \<equiv> entry (table (ram k) d (pdi va)) (pti va)"
  shows "mm_page_map va d pa 0 attr k = Some (e, k\<lparr>ram := wr32 (ram k) e (base pa OR (attr OR 1))\<rparr>)"
    and "dir_wf (wr32 (ram k) e (base pa OR (attr OR 1))) d A"
    and "mapped_at (ram k) d va pa (wr32 (ram k) e (base pa OR (attr OR 1)))"
proof -
  have d: "base d = d" using dir_wf_aligned(1) [OF wf] by simp
  have p: "is_present (pde (ram k) d (pdi va))" using t by (simp add: has_table_def)
  show "mm_page_map va d pa 0 attr k = Some (e, k\<lparr>ram := wr32 (ram k) e (base pa OR (attr OR 1))\<rparr>)"
    using p unfolding mm_page_map_def Let_def base_code entry_code d get32_def put32_def
    by (simp add: e_def table_def pde_def or.assoc pdi_def pti_def)
  note o = or_attr_bits [OF base_aligned a, of pa]
  show "dir_wf (wr32 (ram k) e (base pa OR (attr OR 1))) d A"
    unfolding e_def by (rule walk_set_pte [OF wf t])
  show "mapped_at (ram k) d va pa (wr32 (ram k) e (base pa OR (attr OR 1)))"
    unfolding mapped_at_def e_def walk_set_pte(2) [OF wf t] o(3) using o(1) by simp
qed

lemma page_map_ok:
  assumes wf: "dir_wf (ram k) d A" and pool: "kernel_pool k A"
    and slot: "has_table (ram k) d (pdi va) \<or> \<not> is_present (pde (ram k) d (pdi va)) \<and> A \<noteq> {}"
    and a: "attr AND NOT 0xFFF = 0" "attr AND MM_ATTR_SZ_4M = 0"
  shows "\<exists>k' A'. mm_page_map va d pa 0 attr k = Some (entry (table (ram k') d (pdi va)) (pti va), k') \<and>
     mem_step k k' \<and> kernel_pool k' A' \<and> dir_wf (ram k') d A' \<and> A' \<subseteq> A \<and> card A \<le> Suc (card A') \<and>
     mapped_at (ram k) d va pa (ram k') \<and> has_table (ram k') d (pdi va) \<and>
     rd32 (ram k') (entry (table (ram k') d (pdi va)) (pti va)) = base pa OR (attr OR 1) \<and>
     (\<forall>i. index_ok i \<and> (i \<noteq> pdi va \<or> has_table (ram k) d (pdi va)) \<longrightarrow> pde (ram k') d i = pde (ram k) d i) \<and>
     (\<forall>b. base b \<noteq> d \<and> base b \<notin> A - A' \<and> base b \<noteq> table (ram k') d (pdi va) \<longrightarrow> ram k' b = ram k b) \<and>
     (if has_table (ram k) d (pdi va) then A' = A else table (ram k') d (pdi va) \<in> A)"
proof (cases "has_table (ram k) d (pdi va)")
  case True
  let ?e = "entry (table (ram k) d (pdi va)) (pti va)"
  let ?m = "wr32 (ram k) ?e (base pa OR (attr OR 1))"
  note m = map_present [OF wf True a, of pa]
  have pd: "pde ?m d i = pde (ram k) d i" if "index_ok i" for i
    using that by (intro pde_set_pte [OF wf True]) simp_all
  then have "table ?m d (pdi va) = table (ram k) d (pdi va)" "has_table ?m d (pdi va)"
    using True by (simp_all add: table_def has_table_def)
  moreover have "?m b = ram k b" if "base b \<noteq> table (ram k) d (pdi va)" for b
    using that by (intro wr32_other_page) simp_all
  ultimately show ?thesis
    using m pool pd True by (intro exI [of _ "k\<lparr>ram := ?m\<rparr>"] exI [of _ A]) (simp add: mem_step_def)
next
  case False
  then have abs: "\<not> is_present (pde (ram k) d (pdi va))" and ne: "A \<noteq> {}" using slot by auto
  obtain p pfi where p: "mm_mem_kalloc k = Some (p, k\<lparr>kernel_pf_info := pfi, ram := clear_words (ram k) p 0\<rparr>)"
    "p \<in> A" "kernel_pool (k\<lparr>kernel_pf_info := pfi, ram := clear_words (ram k) p 0\<rparr>) (A - {p})"
    "page_aligned p" "p \<noteq> 0" "p \<in> kernel_frames"
    using kalloc_spec [OF pool ne] by blast
  have d: "base d = d" "page_aligned d" using dir_wf_aligned(1) [OF wf] by simp_all
  let ?e = "p OR (attr OR 1)" and ?de = "entry d (pdi va)"
  let ?m = "new_table (ram k) d (pdi va) p ?e"
  let ?k = "k\<lparr>kernel_pf_info := pfi, ram := ?m\<rparr>"
  note o = or_attr_bits [OF p(4) a]
  note n = new_table_facts [OF wf pdi_ok abs p(2,4,6) o]
  have pool': "kernel_pool ?k (A - {p})" using p(3) by (simp add: kernel_pool_def)
  have m: "mm_page_map va d pa 0 attr ?k =
      Some (entry p (pti va), ?k\<lparr>ram := wr32 ?m (entry p (pti va)) (base pa OR (attr OR 1))\<rparr>)"
    "dir_wf (wr32 ?m (entry p (pti va)) (base pa OR (attr OR 1))) d (A - {p})"
    "mapped_at ?m d va pa (wr32 ?m (entry p (pti va)) (base pa OR (attr OR 1)))"
    using map_present [of ?k d "A - {p}" va attr pa] n a by simp_all
  have pr: "is_present (rd32 ?m ?de)" using n(2) by (simp add: has_table_def pde_def)
  have code: "mm_page_map va d pa 0 attr k = mm_page_map va d pa 0 attr ?k"
    using abs p(1,5) pr p(4) unfolding mm_page_map_def Let_def base_code entry_code d get32_def put32_def
    by (simp add: new_table_def pde_def pdi_def pti_def)
  let ?k' = "?k\<lparr>ram := wr32 ?m (entry p (pti va)) (base pa OR (attr OR 1))\<rparr>"
  have pd: "pde (ram ?k') d i = pde ?m d i" if "index_ok i" for i
    using pde_set_pte [OF n(1,2), of "pti va" i] n(3) that by simp
  have po: "pde (ram ?k') d i = pde (ram k) d i" if "index_ok i" "i \<noteq> pdi va" for i
    using pd [OF that(1)] n(5) [OF that] by simp
  have t: "table (ram ?k') d (pdi va) = p" "has_table (ram ?k') d (pdi va)"
    using pd n(2,3) by (simp_all add: table_def has_table_def)
  have "ram ?k' b = ram k b" if "base b \<noteq> d" "base b \<notin> A - (A - {p})" for b
  proof -
    have "base b \<noteq> p" using that(2) p(2) by blast
    then show ?thesis using that(1) p(4) d by (simp add: new_table_def wr32_other_page clear_page)
  qed
  moreover have "mapped_at (ram k) d va pa (ram ?k')" using m(3) n(4) by (simp add: mapped_at_def)
  moreover have "rd32 (ram ?k') (entry p (pti va)) = base pa OR (attr OR 1)" by simp
  ultimately show ?thesis
    using m(1,2) pool' code t po False p(2)
    by (intro exI [of _ ?k'] exI [of _ "A - {p}"]) (auto simp: mem_step_def card_Diff_singleton_if)
qed

section \<open>New directories and 4 MB pages\<close>

lemma large_entry: "((pa AND NOT 0xFFFFF) AND (attr AND 0x1FFF)) OR (MM_ATTR_SZ_4M OR 1) = (0x81 :: u32)"
proof -
  have m: "(0xFFFFF :: u32) = mask 20" "(0x1FFF :: u32) = mask 13" by (simp_all add: mask_eq_exp_minus_1)
  have "(pa AND NOT (mask 20)) AND (attr AND mask 13) = (0 :: u32)"
    by (rule bit_word_eqI) (auto simp: bit_simps)
  then have "(pa AND NOT 0xFFFFF) AND (attr AND 0x1FFF) = (0 :: u32)" unfolding m .
  then show ?thesis by (simp add: MM_ATTR_SZ_4M_def)
qed

lemma large_map_code:
  "page_aligned d \<Longrightarrow> ps \<noteq> 0 \<Longrightarrow> mm_page_map va d pa ps attr k =
     Some (entry d (pdi va), k\<lparr>ram := wr32 (ram k) (entry d (pdi va)) 0x81\<rparr>)"
  unfolding mm_page_map_def Let_def large_entry base_code entry_code put32_def
  by (simp add: pdi_def)

lemma walk_large:
  assumes "page_aligned d" and "pde m d (pdi w) = 0x81"
  shows "walk m d w = Some (w AND 0x3FFFFF)"
proof -
  have "is_present 0x81" "(0x81 :: u32) AND MM_ATTR_SZ_4M \<noteq> 0" "(0x81 :: u32) AND 0xFFC00000 = 0"
    by (simp_all add: is_present_def MM_ATTR_P_def MM_ATTR_SZ_4M_def)
  then show ?thesis using assms by (simp add: walk_eq has_table_def)
qed

lemma low_address: "unat w < 4194304 \<Longrightarrow> w AND 0x3FFFFF = (w :: u32)"
  using unat_and_mask [of w 22] by (simp add: mask_eq_exp_minus_1 word_unat_eq_iff)

lemma low_index: "pdi w = 0 \<longleftrightarrow> unat w < 4194304"
  by (simp add: word_unat_eq_iff unat_pdi div_eq_0_iff)

lemma dir_new_ok:
  assumes pool: "kernel_pool k A" and ne: "A \<noteq> {}"
  shows "\<exists>d k'. mm_dir_new k = Some (d, k') \<and> d \<in> A \<and> mem_step k k' \<and> kernel_pool k' (A - {d}) \<and>
     dir_wf (ram k') d (A - {d}) \<and> pde (ram k') d 0 = 0x81 \<and>
     (\<forall>i. index_ok i \<and> i \<noteq> 0 \<longrightarrow> pde (ram k') d i = 0) \<and>
     (\<forall>w. walk (ram k') d w = (if unat w < 4194304 then Some w else None)) \<and>
     (\<forall>b. base b \<noteq> d \<longrightarrow> ram k' b = ram k b)"
proof -
  obtain p pfi where p: "mm_mem_kalloc k = Some (p, k\<lparr>kernel_pf_info := pfi, ram := clear_words (ram k) p 0\<rparr>)"
    "p \<in> A" "kernel_pool (k\<lparr>kernel_pf_info := pfi, ram := clear_words (ram k) p 0\<rparr>) (A - {p})"
    "page_aligned p" "p \<noteq> 0" "p \<in> kernel_frames"
    using kalloc_spec [OF pool ne] by blast
  have z: "pdi 0 = 0" by (simp add: pdi_def)
  have iz: "index_ok 0" by (simp add: index_ok_def)
  let ?m = "wr32 (clear_words (ram k) p 0) (entry p 0) 0x81"
  let ?k = "k\<lparr>kernel_pf_info := pfi, ram := ?m\<rparr>"
  have code: "mm_dir_new k = Some (p, ?k)"
    using p(1,4,5) by (simp add: mm_dir_new_def large_map_code z)
  have pd: "pde ?m p i = (if i = 0 then 0x81 else 0)" if "index_ok i" for i
    using that p(4) iz by (simp add: pde_def rd32_wr32 entry_eq rd32_clear_page)
  have "\<not> has_table ?m p i" if "index_ok i" for i
    using pd [OF that] by (simp add: has_table_def is_present_def MM_ATTR_SZ_4M_def)
  then have "tabled ?m p = {}" by (auto simp: tabled_def)
  then have wf: "dir_wf ?m p (A - {p})" using p(4,6) by (simp add: dir_wf_def)
  have "walk ?m p w = (if unat w < 4194304 then Some w else None)" for w
  proof (cases "pdi w = 0")
    case True
    then show ?thesis using walk_large [OF p(4)] pd [of "pdi w"] low_address low_index by simp
  next
    case False
    then show ?thesis using pd [of "pdi w"] low_index by (simp add: walk_eq [OF p(4)] is_present_def)
  qed
  moreover have "?m b = ram k b" if "base b \<noteq> p" for b
    using that p(4) iz by (simp add: wr32_other_page clear_page)
  moreover have "kernel_pool ?k (A - {p})" using p(3) by (simp add: kernel_pool_def)
  ultimately show ?thesis using code p(2) wf pd iz
    by (intro exI [of _ p] exI [of _ ?k]) (simp add: mem_step_def)
qed


section \<open>Unmapping a page\<close>

lemma is_present_clear: "\<not> is_present (e AND NOT 1)"
  by (simp add: is_present_bit bit_simps)

definition unmapped_at :: "ram \<Rightarrow> u32 \<Rightarrow> u32 \<Rightarrow> ram \<Rightarrow> bool" where
  "unmapped_at m d va m' \<longleftrightarrow> (\<forall>w. walk m' d w = (if base w = base va then None else walk m d w))"

lemma page_free_ok:
  assumes wf: "dir_wf (ram k) d A" and t: "has_table (ram k) d (pdi va)"
  defines "e \<equiv> entry (table (ram k) d (pdi va)) (pti va)"
  defines "m' \<equiv> wr32 (ram k) e (rd32 (ram k) e AND NOT 1)"
  shows "mm_page_free va d k = (base (rd32 (ram k) e AND NOT 1), k\<lparr>ram := m'\<rparr>)"
    and "dir_wf m' d A" and "unmapped_at (ram k) d va m'"
    and "base b \<noteq> table (ram k) d (pdi va) \<Longrightarrow> m' b = ram k b"
proof -
  have d: "base d = d" using dir_wf_aligned(1) [OF wf] by simp
  have p: "pde (ram k) d (pdi va) AND 1 \<noteq> 0" "pde (ram k) d (pdi va) AND MM_ATTR_SZ_4M = 0"
    using t by (simp_all add: has_table_def is_present_def MM_ATTR_P_def)
  show "mm_page_free va d k = (base (rd32 (ram k) e AND NOT 1), k\<lparr>ram := m'\<rparr>)"
    using p unfolding mm_page_free_def Let_def base_code entry_code d get32_def put32_def m'_def
    by (simp add: e_def table_def pde_def pdi_def pti_def)
  show "dir_wf m' d A" unfolding m'_def e_def by (rule walk_set_pte [OF wf t])
  show "unmapped_at (ram k) d va m'"
    unfolding unmapped_at_def m'_def e_def walk_set_pte(2) [OF wf t] using is_present_clear by auto
  show "base b \<noteq> table (ram k) d (pdi va) \<Longrightarrow> m' b = ram k b"
    unfolding m'_def e_def by (intro wr32_other_page) simp_all
qed

section \<open>Writing data\<close>

definition paging_pages :: "ram \<Rightarrow> u32 \<Rightarrow> u32 set" where
  "paging_pages m d = insert d (table m d ` tabled m d)"

lemma paging_pages_kernel: "dir_wf m d A \<Longrightarrow> paging_pages m d \<subseteq> kernel_frames - A"
  by (auto simp: paging_pages_def dir_wf_def)

lemma data_write:
  assumes wf: "dir_wf m d A" and same: "\<And>b. base b \<in> paging_pages m d \<Longrightarrow> m' b = m b"
  shows "dir_wf m' d A" and "walk m' d w = walk m d w" and "paging_pages m' d = paging_pages m d"
    and "index_ok i \<Longrightarrow> pde m' d i = pde m d i"
proof -
  have d: "page_aligned d" by (rule dir_wf_aligned(1) [OF wf])
  have p: "pde m' d j = pde m d j" if "index_ok j" for j
    unfolding pde_def using d that same by (intro rd32_page) (simp_all add: paging_pages_def)
  then show "index_ok i \<Longrightarrow> pde m' d i = pde m d i" .
  have h: "has_table m' d j = has_table m d j" "table m' d j = table m d j" if "index_ok j" for j
    using p [OF that] by (simp_all add: has_table_def table_def)
  then have "tabled m' d = tabled m d" by (auto simp: tabled_def)
  moreover have "table m' d ` tabled m d = table m d ` tabled m d"
    using h by (intro image_cong refl) (simp add: tabled_def)
  ultimately show "paging_pages m' d = paging_pages m d" by (simp add: paging_pages_def)
  show "dir_wf m' d A" by (rule dir_wf_cong [OF wf p order_refl])
  have "rd32 m' (entry (table m d (pdi w)) (pti w)) = rd32 m (entry (table m d (pdi w)) (pti w))"
    if "has_table m d (pdi w)"
    using that same by (intro rd32_page) (auto simp: paging_pages_def tabled_def)
  then show "walk m' d w = walk m d w" using h [of "pdi w"] p [of "pdi w"] by (simp add: walk_eq [OF d] Let_def)
qed

end
