(* ===== verification/Cow.thy ===== *)
theory Cow
  imports Paging_Spec
begin

text \<open>
  Copying a page through the temporary kernel page (\<open>mm_copy_vf\<close>) and resolving a write to a
  copy-on-write page (\<open>mm_copy_on_write_page\<close>, \<open>mm_times_mapped\<close>) of kernel/mm.c.
\<close>

section \<open>Offsets in a page\<close>

lemma base_plus: "page_aligned p \<Longrightarrow> unat d < 4096 \<Longrightarrow> base (p + d) = p"
  by (simp add: in_page unat_page_plus)

lemma unat_small: "i < 4096 \<Longrightarrow> unat (of_nat i :: u32) = i"
  by (simp add: unat_of_nat)

lemma base_plus_nat [simp]: "page_aligned p \<Longrightarrow> i < 4096 \<Longrightarrow> base (p + of_nat i) = p"
  by (simp add: base_plus unat_small)

lemma page_plus_inject:
  "page_aligned p \<Longrightarrow> i < 4096 \<Longrightarrow> j < 4096 \<Longrightarrow> p + of_nat i = p + of_nat j \<longleftrightarrow> i = (j :: nat)"
  by (metis add_left_imp_eq unat_small)

lemma offset_in_page:
  "page_aligned p \<Longrightarrow> i < 4096 \<Longrightarrow> p + of_nat i AND 0xFFF = (of_nat i :: u32)"
proof -
  assume p: "page_aligned p" and i: "i < 4096"
  have "unat (p + of_nat i AND 0xFFF) = (unat p + i) mod 4096"
    using p i by (simp add: unat_offset unat_page_plus unat_small)
  also have "\<dots> = i" using p i by (auto simp: page_aligned_def)
  finally show "p + of_nat i AND 0xFFF = (of_nat i :: u32)"
    using i by (simp add: word_unat_eq_iff unat_small)
qed

lemma or_offset:
  assumes "page_aligned p" and "i < 4096"
  shows "p OR of_nat i = (p + of_nat i :: u32)"
proof -
  have o: "(of_nat i :: u32) = of_nat i AND 0xFFF"
    using offset_in_page [of 0 i] assms(2) by (simp add: page_aligned_def)
  have "p AND of_nat i = 0"
  proof -
    have "p AND of_nat i = (p AND NOT 0xFFF) AND (of_nat i AND 0xFFF)"
      using o base_of_aligned [OF assms(1)] unfolding base_def by metis
    also have "\<dots> = 0" by (rule bit_word_eqI) (auto simp: bit_simps)
    finally show ?thesis .
  qed
  then show ?thesis by (metis disjunctive_add_eq_or)
qed

section \<open>The copy loop\<close>

lemma copy_loop:
  assumes wf: "dir_wf (ram k) d A" and cr: "reg_cr3 k = d" and n: "n \<le> 4096"
    and src: "\<And>i. i < n \<Longrightarrow> walk (ram k) d (v + of_nat i) = Some (ps + of_nat i)"
    and dst: "\<And>i. i < n \<Longrightarrow> walk (ram k) d (w + of_nat i) = Some (pt + of_nat i)"
    and pg: "page_aligned ps" "page_aligned pt" "ps \<noteq> pt" "pt \<notin> paging_pages (ram k) d"
  shows "\<exists>m'. for_range 0 n (\<lambda>i k. do { b \<leftarrow> vget k (v + of_nat i); vput (w + of_nat i) b k }) k =
       Some (k\<lparr>ram := m'\<rparr>) \<and>
     (\<forall>i < n. m' (pt + of_nat i) = ram k (ps + of_nat i)) \<and> (\<forall>b. base b \<noteq> pt \<longrightarrow> m' b = ram k b)"
proof -
  let ?inv = "\<lambda>j s. \<exists>m'. s = k\<lparr>ram := m'\<rparr> \<and> (\<forall>i < j. m' (pt + of_nat i) = ram k (ps + of_nat i)) \<and>
     (\<forall>b. base b \<noteq> pt \<longrightarrow> m' b = ram k b)"
  have "\<exists>s'. for_range 0 n (\<lambda>i k. do { b \<leftarrow> vget k (v + of_nat i); vput (w + of_nat i) b k }) k = Some s' \<and> ?inv n s'"
  proof (rule for_range_rule [where inv = ?inv])
    show "?inv 0 k" by (intro exI [of _ "ram k"]) simp
  next
    fix j s assume j: "j < n" and "?inv j s"
    then obtain m' where s: "s = k\<lparr>ram := m'\<rparr>" and c: "\<forall>i < j. m' (pt + of_nat i) = ram k (ps + of_nat i)"
      and o: "\<forall>b. base b \<noteq> pt \<longrightarrow> m' b = ram k b" by blast
    have same: "m' b = ram k b" if "base b \<in> paging_pages (ram k) d" for b
      using o pg(4) that by metis
    note wk = data_write(2) [OF wf same]
    have b: "m' (ps + of_nat j) = ram k (ps + of_nat j)" using o pg j n by simp
    let ?m = "m'(pt + of_nat j := ram k (ps + of_nat j))"
    have "do { b \<leftarrow> vget s (v + of_nat j); vput (w + of_nat j) b s } = Some (k\<lparr>ram := ?m\<rparr>)"
      using src [OF j] dst [OF j] cr b by (simp add: s vget_def vput_def wk)
    moreover have "?m (pt + of_nat i) = ram k (ps + of_nat i)" if "i < Suc j" for i
      using that c j n pg(2) by (auto simp: page_plus_inject less_Suc_eq)
    moreover have "?m b = ram k b" if "base b \<noteq> pt" for b using that o pg(2) j n by auto
    ultimately show "\<exists>s'. do { b \<leftarrow> vget s (v + of_nat j); vput (w + of_nat j) b s } = Some s' \<and> ?inv (Suc j) s'"
      by blast
  qed simp
  then show ?thesis by blast
qed

text \<open>One whole page is copied, and afterwards the temporary page is unmapped again.\<close>

abbreviation "temp \<equiv> KERNEL_TEMP_PAGE"

lemma temp_facts: "page_aligned temp" "base temp = temp"
  by (simp_all add: KERNEL_TEMP_PAGE_def page_aligned_def)

lemma rw_attr: "(MM_ATTR_RW OR MM_ATTR_US_S) AND NOT 0xFFF = 0" "(MM_ATTR_RW OR MM_ATTR_US_S) AND MM_ATTR_SZ_4M = 0"
  by (simp_all add: MM_ATTR_RW_def MM_ATTR_US_S_def MM_ATTR_SZ_4M_def)

lemma one_page: "page_aligned v \<Longrightarrow> v div PAGE_SIZE = (v + PAGE_SIZE - 1) div PAGE_SIZE"
proof -
  assume v: "page_aligned v"
  have "v + PAGE_SIZE - 1 = v + (PAGE_SIZE - 1)" by (simp add: algebra_simps)
  then have "v + PAGE_SIZE - 1 = v + 4095" by (simp add: PAGE_SIZE_def)
  moreover have "unat (v + 4095) = unat v + 4095" using unat_page_plus [OF v, of 4095] by simp
  ultimately have "unat (v + PAGE_SIZE - 1) = unat v + 4095" by (simp only:)
  moreover obtain q where "unat v = 4096 * q" using v by (auto simp: page_aligned_def)
  ultimately show "v div PAGE_SIZE = (v + PAGE_SIZE - 1) div PAGE_SIZE"
    by (simp add: word_unat_eq_iff unat_div PAGE_SIZE_def)
qed

lemma copy_vf_ok:
  assumes wf: "dir_wf (ram k) d A" and pool: "kernel_pool k A" and cr: "reg_cr3 k = d"
    and slot: "has_table (ram k) d (pdi temp) \<or> \<not> is_present (pde (ram k) d (pdi temp)) \<and> A \<noteq> {}"
    and v: "page_aligned v" "v \<noteq> temp"
    and src: "\<And>i. i < 4096 \<Longrightarrow> walk (ram k) d (v + of_nat i) = Some (ps + of_nat i)"
    and ps: "page_aligned ps" "ps \<notin> kernel_frames"
    and pt: "page_aligned pt" "pt \<notin> kernel_frames" "ps \<noteq> pt"
  shows "\<exists>k' A'. mm_copy_vf v pt PAGE_SIZE k = Some (0, k') \<and> mem_step k k' \<and> kernel_pool k' A' \<and>
     dir_wf (ram k') d A' \<and> A' \<subseteq> A \<and> unmapped_at (ram k) d temp (ram k') \<and>
     (\<forall>i < 4096. ram k' (pt + of_nat i) = ram k (ps + of_nat i)) \<and>
     (\<forall>b. base b \<notin> kernel_frames \<and> base b \<noteq> pt \<longrightarrow> ram k' b = ram k b) \<and>
     (\<forall>i. index_ok i \<and> (i \<noteq> pdi temp \<or> has_table (ram k) d (pdi temp)) \<longrightarrow> pde (ram k') d i = pde (ram k) d i)"
proof -
  obtain k1 A' where m: "mm_page_map temp d pt 0 (MM_ATTR_RW OR MM_ATTR_US_S) k = Some (entry (table (ram k1) d (pdi temp)) (pti temp), k1)"
    and k1: "mem_step k k1" "kernel_pool k1 A'" "dir_wf (ram k1) d A'" "A' \<subseteq> A"
    "mapped_at (ram k) d temp pt (ram k1)" "has_table (ram k1) d (pdi temp)"
    "\<forall>i. index_ok i \<and> (i \<noteq> pdi temp \<or> has_table (ram k) d (pdi temp)) \<longrightarrow> pde (ram k1) d i = pde (ram k) d i"
    and fr: "\<forall>b. base b \<noteq> d \<and> base b \<notin> A - A' \<and> base b \<noteq> table (ram k1) d (pdi temp) \<longrightarrow> ram k1 b = ram k b"
    using page_map_ok [OF wf pool slot rw_attr, of pt] by blast
  have kern: "paging_pages (ram k1) d \<subseteq> kernel_frames" using paging_pages_kernel [OF k1(3)] by blast
  have f1: "ram k1 b = ram k b" if "base b \<notin> kernel_frames" for b
  proof -
    have "d \<in> kernel_frames" "table (ram k1) d (pdi temp) \<in> kernel_frames" "A \<subseteq> kernel_frames"
      using dir_wf_aligned(3) [OF wf] dir_wf_table [OF k1(3) pdi_ok k1(6)] kf.pool_sub [OF pool] by auto
    then have "base b \<noteq> d" "base b \<notin> A - A'" "base b \<noteq> table (ram k1) d (pdi temp)" using that by auto
    then show ?thesis using fr by simp
  qed
  have cr1: "reg_cr3 k1 = d" using mem_step_fields(1) [OF k1(1)] cr by simp
  have bv: "base (v + of_nat i) \<noteq> base temp" "base (temp + of_nat i) = base temp" if "i < 4096" for i :: nat
    using that v temp_facts by simp_all
  have src1: "walk (ram k1) d (v + of_nat i) = Some (ps + of_nat i)" if "i < 4096" for i
    using k1(5) src [OF that] bv [OF that] by (simp add: mapped_at_def)
  have dst1: "walk (ram k1) d (temp + of_nat i) = Some (pt + of_nat i)" if "i < 4096" for i
    using k1(5) bv [OF that] pt(1) offset_in_page [OF temp_facts(1) that] or_offset [OF pt(1) that]
    by (simp add: mapped_at_def)
  have npt: "pt \<notin> paging_pages (ram k1) d" using kern pt(2) by blast
  obtain m2 where l: "for_range 0 4096 (\<lambda>i k. do { b \<leftarrow> vget k (v + of_nat i); vput (temp + of_nat i) b k }) k1 =
       Some (k1\<lparr>ram := m2\<rparr>)"
    and c: "\<forall>i < 4096. m2 (pt + of_nat i) = ram k1 (ps + of_nat i)" and o2: "\<forall>b. base b \<noteq> pt \<longrightarrow> m2 b = ram k1 b"
    using copy_loop [OF k1(3) cr1 order_refl src1 dst1 ps(1) pt(1,3) npt] by blast
  have same: "m2 b = ram k1 b" if "base b \<in> paging_pages (ram k1) d" for b using o2 that npt by metis
  note dw = data_write [OF k1(3) same]
  let ?k2 = "k1\<lparr>ram := m2\<rparr>"
  have wf2: "dir_wf (ram ?k2) d A'" using dw(1) by simp
  have t2: "has_table (ram ?k2) d (pdi temp)" using k1(6) dw(4) [of "pdi temp"] by (simp add: has_table_def)
  note fo = page_free_ok [OF wf2 t2]
  define m3 where "m3 = wr32 m2 (entry (table m2 d (pdi temp)) (pti temp))
     (rd32 m2 (entry (table m2 d (pdi temp)) (pti temp)) AND NOT 1)"
  let ?k3 = "k1\<lparr>ram := m3\<rparr>"
  have fc: "snd (mm_page_free temp d ?k2) = ?k3" using fo(1) by (simp add: m3_def)
  have w3: "dir_wf m3 d A'" "unmapped_at m2 d temp m3" using fo(2,3) by (simp_all add: m3_def)
  have tk: "table m2 d (pdi temp) \<in> kernel_frames" using dir_wf_table [OF wf2 pdi_ok t2] by simp
  have o3: "m3 b = m2 b" if "base b \<notin> kernel_frames" for b
  proof -
    have "base b \<noteq> table m2 d (pdi temp)" using that tk by auto
    then show ?thesis using fo(4) [of b] by (simp add: m3_def)
  qed
  have p3: "pde m3 d i = pde (ram k1) d i" if "index_ok i" for i
  proof -
    have "pde m3 d i = pde m2 d i"
      unfolding m3_def using pde_set_pte [OF wf2 t2 pdi_ok pti_ok that] by simp
    then show ?thesis using dw(4) [OF _ that] by simp
  qed
  have code: "mm_copy_vf v pt PAGE_SIZE k = Some (0, ?k3)"
    using one_page [OF v(1)] m l cr cr1 fc
    by (simp add: mm_copy_vf_def PAGE_SIZE_def split_def)
  have "unmapped_at (ram k) d temp m3"
    using k1(5) w3(2) dw(2) by (auto simp: unmapped_at_def mapped_at_def)
  moreover have "m3 (pt + of_nat i) = ram k (ps + of_nat i)" if "i < 4096" for i
    using that c o3 f1 pt ps by simp
  moreover have "m3 b = ram k b" if "base b \<notin> kernel_frames" "base b \<noteq> pt" for b
    using that o2 o3 f1 by simp
  moreover have "pde m3 d i = pde (ram k) d i"
    if "index_ok i" "i \<noteq> pdi temp \<or> has_table (ram k) d (pdi temp)" for i
    using p3 that k1(7) by simp
  ultimately show ?thesis
    using code w3(1) k1(2,4) mem_step_trans [OF k1(1) mem_step_ram]
    by (intro exI [of _ ?k3] exI [of _ A']) auto
qed


section \<open>Counting the mappings of a frame\<close>

definition maps_count :: "'a mmk_scheme \<Rightarrow> u32 \<Rightarrow> u32 \<Rightarrow> u32 \<Rightarrow> nat" where
  "maps_count k pa i j = card {p. p < MAX_PID \<and> cr3 (task_table k ! p) \<noteq> 0 \<and>
     base (rd32 (ram k) (entry (table (ram k) (base (cr3 (task_table k ! p))) i) j)) = pa}"

lemma times_mapped_eq:
  assumes "length (task_table k) = MAX_PID"
  shows "mm_times_mapped pa i j k = Some (of_nat (maps_count k pa i j))"
proof -
  define P where "P p \<longleftrightarrow> cr3 (task_table k ! p) \<noteq> 0 \<and>
     base (rd32 (ram k) (entry (table (ram k) (base (cr3 (task_table k ! p))) i) j)) = pa" for p
  let ?f = "\<lambda>p times. do {
       t \<leftarrow> aget (task_table k) (of_nat p);
       if cr3 t \<noteq> 0 then do {
         let desc_dir = (cr3 t AND NOT 0xFFF) + i * 4;
         let desc_table = (get32 k desc_dir AND NOT 0xFFF) + j * 4;
         Some (if pa = get32 k desc_table AND NOT 0xFFF then times + 1 else times) }
       else Some times }"
  have f: "?f q r = Some (if P q then r + 1 else r)" if q: "q < MAX_PID" for q and r :: u32
  proof -
    have "unat (of_nat q :: u32) = q" using q by (simp add: unat_of_nat MAX_PID_def)
    then have g: "aget (task_table k) (of_nat q) = Some (task_table k ! q)" using q assms by (simp add: aget_def)
    show ?thesis unfolding g base_code entry_code get32_def Let_def P_def table_def pde_def by auto
  qed
  have "\<exists>r. for_range 0 MAX_PID ?f (0 :: u32) = Some r \<and> r = of_nat (card {p. p < MAX_PID \<and> P p})"
  proof (rule for_range_rule [where inv = "\<lambda>q r. r = of_nat (card {p. p < q \<and> P p})"])
    fix q and r :: u32 assume q: "q < MAX_PID" and r: "r = of_nat (card {p. p < q \<and> P p})"
    have "{p. p < Suc q \<and> P p} = (if P q then insert q {p. p < q \<and> P p} else {p. p < q \<and> P p})"
      by (auto simp: less_Suc_eq)
    then have "card {p. p < Suc q \<and> P p} = card {p. p < q \<and> P p} + (if P q then 1 else 0)" by simp
    then show "\<exists>s'. ?f q r = Some s' \<and> s' = of_nat (card {p. p < Suc q \<and> P p})"
      unfolding f [OF q] r by (simp add: add.commute)
  qed simp_all
  then show ?thesis unfolding mm_times_mapped_def maps_count_def P_def by simp
qed

section \<open>Resolving a write to a shared frame\<close>

lemma page_address: "pdi va * DIR_SIZE + pti va * PAGE_SIZE = base va"
proof -
  have d: "n div 4194304 = n div 4096 div 1024" for n :: nat by (simp add: div_mult2_eq [symmetric])
  have b: "unat va div 4096 < 1048576" using u32_bound [of va] by (simp add: less_mult_imp_div_less)
  have "n div 1024 * 1024 + n mod 1024 = n" for n :: nat by simp
  then have "unat va div 4096 div 1024 * 1024 + unat va div 4096 mod 1024 = unat va div 4096" by blast
  then have e: "unat va div 4194304 * 4194304 + unat va div 4096 mod 1024 * 4096 = unat va div 4096 * 4096"
    unfolding d by linarith
  have "unat va div 4194304 * 4194304 + unat va div 4096 mod 1024 * 4096 < 4294967296"
    unfolding e using b by simp
  then have "unat (pdi va * DIR_SIZE + pti va * PAGE_SIZE) = unat va div 4194304 * 4194304 + unat va div 4096 mod 1024 * 4096"
    by (simp add: unat_word_ariths unat_pdi unat_pti DIR_SIZE_def PAGE_SIZE_def)
  then show ?thesis unfolding e by (simp add: word_unat_eq_iff unat_base)
qed

lemma usr_frame_facts:
  assumes "p \<in> usr_frames n" and "n \<le> 16352"
  shows "page_aligned p" and "p \<notin> kernel_frames" and "p \<noteq> 0"
proof -
  obtain f where f: "p = frame_at USR_MEM_START f" "f < 32 * (n - 1)" using assms(1) by (auto simp: usr_frames_def)
  then have u: "unat p = 4194304 + f * 4096"
    using assms(2) by (subst f(1), subst unat_frame_at) (simp_all add: USR_MEM_START_def)
  show "page_aligned p" unfolding f(1)
    by (rule frame_page_aligned) (use f assms(2) in \<open>simp_all add: page_aligned_def USR_MEM_START_def\<close>)
  show "p \<noteq> 0" using u by auto
  have "unat q < 4194304" if q: "q \<in> kernel_frames" for q
  proof -
    obtain g where "q = frame_at KRN_MEM_START g" "g < 768" using q by (auto simp: kernel_frames_def)
    then show ?thesis by (simp add: unat_frame_at KRN_MEM_START_def)
  qed
  then show "p \<notin> kernel_frames" using u by fastforce
qed

lemma usr_alloc_spec:
  assumes "usr_pool n k B" and "B \<noteq> {}"
  shows "\<exists>p pfi. mm_mem_alloc k = Some (p, k\<lparr>usr_pf_info := pfi\<rparr>) \<and> p \<in> B \<and>
     usr_pool n (k\<lparr>usr_pf_info := pfi\<rparr>) (B - {p}) \<and> page_aligned p \<and> p \<notin> kernel_frames \<and> p \<noteq> 0"
proof -
  obtain p k1 where p: "mm_mem_alloc k = Some (p, k1)" "p \<in> B" "usr_pool n k1 (B - {p})"
    using uf.alloc_some [OF assms] by blast
  moreover obtain pfi where "k1 = k\<lparr>usr_pf_info := pfi\<rparr>"
    using p(1) by (auto simp: mm_mem_alloc_def split: Option.bind_splits)
  moreover have "n \<le> 16352" using assms(1) by (simp add: usr_pool_def)
  ultimately show ?thesis using usr_frame_facts uf.pool_sub [OF assms(1)] by blast
qed

lemma walk_page:
  assumes "page_aligned d" and "has_table m d (pdi va)" and "i < 4096"
    and "rd32 m (entry (table m d (pdi va)) (pti va)) = e" and "is_present e"
  shows "walk m d (base va + of_nat i) = Some (base e + of_nat i)"
proof -
  have "base (base va + of_nat i) = base va" using assms(3) by simp
  then have "pdi (base va + of_nat i) = pdi va" "pti (base va + of_nat i) = pti va"
    using same_page by blast+
  moreover have "(base va + of_nat i) AND 0xFFF = (of_nat i :: u32)" using offset_in_page [OF base_aligned assms(3)] .
  ultimately show ?thesis using assms or_offset [OF base_aligned assms(3), of e]
    by (simp add: walk_eq has_table_def)
qed

lemma std_attr: "USR_STD_ATTR AND NOT 0xFFF = 0" "USR_STD_ATTR AND MM_ATTR_SZ_4M = 0"
  by (simp_all add: USR_STD_ATTR_def MM_ATTR_RW_def MM_ATTR_US_U_def MM_ATTR_SZ_4M_def)

lemma cow_copies:
  assumes wf: "dir_wf (ram k) d A" and pool: "kernel_pool k A" and up: "usr_pool n k B" "B \<noteq> {}"
    and cr: "reg_cr3 k = d" and tl: "length (task_table k) = MAX_PID"
    and slot: "has_table (ram k) d (pdi temp) \<or> \<not> is_present (pde (ram k) d (pdi temp)) \<and> A \<noteq> {} \<and> pdi va \<noteq> pdi temp"
    and t: "has_table (ram k) d (pdi va)" and v: "base va \<noteq> temp"
  defines "e \<equiv> entry (table (ram k) d (pdi va)) (pti va)"
  assumes pr: "is_present (rd32 (ram k) e)" and ps: "base (rd32 (ram k) e) \<notin> kernel_frames"
    "base (rd32 (ram k) e) \<notin> B" and many: "maps_count k (base (rd32 (ram k) e)) (pdi va) (pti va) \<noteq> 1"
  shows "\<exists>k' pt A'. mm_copy_on_write_page e (pdi va) (pti va) k = Some (0, k') \<and> pt \<in> B \<and>
     usr_pool n k' (B - {pt}) \<and> kernel_pool k' A' \<and> A' \<subseteq> A \<and> dir_wf (ram k') d A' \<and>
     (\<forall>i < 4096. walk (ram k') d (base va + of_nat i) = Some (pt + of_nat i)) \<and>
     (\<forall>i < 4096. ram k' (pt + of_nat i) = ram k (base (rd32 (ram k) e) + of_nat i)) \<and>
     (\<forall>w. base w \<noteq> base va \<and> base w \<noteq> temp \<longrightarrow> walk (ram k') d w = walk (ram k) d w) \<and>
     (\<forall>b. base b \<notin> kernel_frames \<and> base b \<noteq> pt \<longrightarrow> ram k' b = ram k b) \<and>
     rd32 (ram k') e = pt OR (USR_STD_ATTR OR 1)"
proof -
  let ?ps = "base (rd32 (ram k) e)"
  have d: "page_aligned d" by (rule dir_wf_aligned(1) [OF wf])
  obtain pt pfi where pt: "mm_mem_alloc k = Some (pt, k\<lparr>usr_pf_info := pfi\<rparr>)" "pt \<in> B"
    "usr_pool n (k\<lparr>usr_pf_info := pfi\<rparr>) (B - {pt})" "page_aligned pt" "pt \<notin> kernel_frames" "pt \<noteq> 0"
    using usr_alloc_spec [OF up] by blast
  let ?k1 = "k\<lparr>usr_pf_info := pfi\<rparr>"
  have src: "walk (ram ?k1) d (base va + of_nat i) = Some (?ps + of_nat i)" if "i < 4096" for i
    using walk_page [OF d t that _ pr] by (simp add: e_def)
  have "?ps \<noteq> pt" using ps(2) pt(2) by blast
  moreover have "kernel_pool ?k1 A" using pool by (simp add: kernel_pool_def)
  moreover have "has_table (ram ?k1) d (pdi temp) \<or> \<not> is_present (pde (ram ?k1) d (pdi temp)) \<and> A \<noteq> {}"
    using slot by auto
  ultimately obtain k2 A' where c: "mm_copy_vf (base va) pt PAGE_SIZE ?k1 = Some (0, k2)"
    and s2: "mem_step ?k1 k2" "kernel_pool k2 A'" "dir_wf (ram k2) d A'" "A' \<subseteq> A"
      "unmapped_at (ram ?k1) d temp (ram k2)"
      "\<forall>i < 4096. ram k2 (pt + of_nat i) = ram ?k1 (?ps + of_nat i)"
      "\<forall>b. base b \<notin> kernel_frames \<and> base b \<noteq> pt \<longrightarrow> ram k2 b = ram ?k1 b"
      "\<forall>i. index_ok i \<and> (i \<noteq> pdi temp \<or> has_table (ram ?k1) d (pdi temp)) \<longrightarrow> pde (ram k2) d i = pde (ram ?k1) d i"
    using copy_vf_ok [of ?k1 d A "base va" ?ps pt] wf cr v src ps(1) pt(4,5) by auto
  have pd: "pde (ram k2) d (pdi va) = pde (ram k) d (pdi va)" using s2(8) slot by auto
  have e2: "e = entry (table (ram k2) d (pdi va)) (pti va)" "has_table (ram k2) d (pdi va)"
    using pd t by (simp_all add: e_def table_def has_table_def)
  let ?v = "pt OR (USR_STD_ATTR OR 1)"
  let ?m = "wr32 (ram k2) e ?v"
  note o = or_attr_bits [OF pt(4) std_attr]
  have w: "walk ?m d w = (if base w = base va then Some (pt OR (w AND 0xFFF)) else walk (ram k2) d w)" for w
    unfolding e2(1) walk_set_pte(2) [OF s2(3) e2(2)] using o by simp
  have wf': "dir_wf ?m d A'" unfolding e2(1) by (rule walk_set_pte(1) [OF s2(3) e2(2)])
  have ek: "base e \<in> kernel_frames" using dir_wf_table [OF wf pdi_ok t] by (simp add: e_def)
  have ea: "aligned e" by (simp add: e_def)
  have mb: "?m b = ram k2 b" if "base b \<notin> kernel_frames" for b
    using that ek ea by (intro wr32_other_page) auto
  let ?k' = "k2\<lparr>ram := ?m\<rparr>"
  have "?v OR USR_STD_ATTR OR 1 = ?v" by (rule bit_word_eqI) (auto simp: bit_simps)
  moreover have "of_nat (maps_count k ?ps (pdi va) (pti va)) \<noteq> (1 :: u32)"
  proof -
    have "maps_count k ?ps (pdi va) (pti va) \<le> card {..<32 :: nat}"
      unfolding maps_count_def MAX_PID_def by (intro card_mono) auto
    then have "unat (of_nat (maps_count k ?ps (pdi va) (pti va)) :: u32) = maps_count k ?ps (pdi va) (pti va)"
      by (simp add: unat_of_nat)
    then show ?thesis using many by (metis unat_1)
  qed
  ultimately have code: "mm_copy_on_write_page e (pdi va) (pti va) k = Some (0, ?k')"
    using pt(1,6) c times_mapped_eq [OF tl]
    unfolding mm_copy_on_write_page_def base_code page_address get32_def put32_def
    by (simp add: pt(4) or.assoc)
  have "walk ?m d (base va + of_nat i) = Some (pt + of_nat i)" if "i < 4096" for i :: nat
    using w that offset_in_page [OF base_aligned that] or_offset [OF pt(4) that] by simp
  moreover have "?m (pt + of_nat i) = ram k (?ps + of_nat i)" if "i < 4096" for i
    using mb s2(6) that pt(4,5) by simp
  moreover have "walk ?m d w = walk (ram k) d w" if "base w \<noteq> base va" "base w \<noteq> temp" for w
    using w that s2(5) temp_facts by (simp add: unmapped_at_def)
  moreover have "?m b = ram k b" if "base b \<notin> kernel_frames" "base b \<noteq> pt" for b
    using mb s2(7) that by simp
  moreover have "usr_pool n ?k' (B - {pt})"
    using pt(3) mem_step_fields(3,4) [OF s2(1)] by (simp add: usr_pool_def)
  ultimately show ?thesis
    using code pt(2) s2(2,4) wf' by (intro exI [of _ ?k'] exI [of _ pt] exI [of _ A']) auto
qed

lemma attr_bits:
  "bit MM_ATTR_COW n \<longleftrightarrow> n = 10" "bit MM_ATTR_RW n \<longleftrightarrow> n = 1" "bit MM_ATTR_RW_W n \<longleftrightarrow> n = 1"
  "bit MM_ATTR_SH n \<longleftrightarrow> n = 9"
proof -
  have c: "MM_ATTR_COW = 2 ^ 10" "MM_ATTR_RW = 2 ^ 1" "MM_ATTR_RW_W = 2 ^ 1" "MM_ATTR_SH = 2 ^ 9"
    by (simp_all add: MM_ATTR_COW_def MM_ATTR_RW_def MM_ATTR_RW_W_def MM_ATTR_SH_def)
  show "bit MM_ATTR_COW n \<longleftrightarrow> n = 10" "bit MM_ATTR_RW n \<longleftrightarrow> n = 1" "bit MM_ATTR_RW_W n \<longleftrightarrow> n = 1"
    "bit MM_ATTR_SH n \<longleftrightarrow> n = 9"
    unfolding c bit_exp_iff by auto
qed

text \<open>The last task that maps the frame just becomes its owner again.\<close>

lemma cow_last_owner:
  assumes wf: "dir_wf (ram k) d A" and tl: "length (task_table k) = MAX_PID" and t: "has_table (ram k) d (pdi va)"
  defines "e \<equiv> entry (table (ram k) d (pdi va)) (pti va)"
  assumes pr: "is_present (rd32 (ram k) e)" and one: "maps_count k (base (rd32 (ram k) e)) (pdi va) (pti va) = 1"
  shows "\<exists>m'. mm_copy_on_write_page e (pdi va) (pti va) k = Some (0, k\<lparr>ram := m'\<rparr>) \<and> dir_wf m' d A \<and>
     walk m' d = walk (ram k) d \<and> rd32 m' e = (rd32 (ram k) e AND NOT MM_ATTR_COW) OR MM_ATTR_RW \<and>
     (\<forall>b. base b \<noteq> base e \<longrightarrow> m' b = ram k b)"
proof -
  let ?o = "rd32 (ram k) e"
  let ?v = "(?o AND NOT MM_ATTR_COW) OR MM_ATTR_RW"
  let ?m = "wr32 (ram k) e ?v"
  have p: "is_present ?v" using pr unfolding is_present_bit by (simp add: bit_simps attr_bits)
  have b: "base ?v = base ?o"
    unfolding base_def FFF_mask by (rule bit_word_eqI) (auto simp: bit_simps attr_bits)
  have d: "page_aligned d" by (rule dir_wf_aligned(1) [OF wf])
  have "walk ?m d w = walk (ram k) d w" for w
  proof (cases "base w = base va")
    case True
    then have "pdi w = pdi va" "pti w = pti va" by (simp_all add: same_page)
    then have "walk (ram k) d w = Some (base ?o OR (w AND 0xFFF))"
      using t pr by (simp add: walk_eq [OF d] has_table_def e_def)
    then show ?thesis using True p b unfolding e_def walk_set_pte(2) [OF wf t] by (simp add: e_def)
  next
    case False
    then show ?thesis unfolding e_def walk_set_pte(2) [OF wf t] by simp
  qed
  moreover have "dir_wf ?m d A" unfolding e_def by (rule walk_set_pte(1) [OF wf t])
  moreover have "mm_copy_on_write_page e (pdi va) (pti va) k = Some (0, k\<lparr>ram := ?m\<rparr>)"
    using one times_mapped_eq [OF tl]
    unfolding mm_copy_on_write_page_def base_code get32_def put32_def by (simp add: Let_def)
  moreover have "?m b = ram k b" if "base b \<noteq> base e" for b
    using that by (intro wr32_other_page) (simp_all add: e_def)
  ultimately show ?thesis by (intro exI [of _ ?m]) auto
qed

end
