(* ===== verification/Fork.thy ===== *)
theory Fork
  imports Cow
begin

text \<open>
  \<open>mm_dir_fork\<close> and \<open>mm_page_fork\<close> of kernel/mm.c: the child's directory maps every page above
  4 MB to the frame the parent's maps it to, and every page that is not marked shared becomes
  read-only and copy on write in both.
\<close>

definition fork_pte :: "u32 \<Rightarrow> u32" where
  "fork_pte e = (if e AND MM_ATTR_SH \<noteq> 0 then e else (e OR MM_ATTR_COW) AND NOT MM_ATTR_RW_W)"

definition forked_entry :: "u32 \<Rightarrow> u32" where
  "forked_entry e = (if is_present e then fork_pte e else e)"

lemma fork_pte_facts:
  "is_present (fork_pte e) = is_present e" "base (fork_pte e) = base e"
proof -
  show "is_present (fork_pte e) = is_present e"
    by (simp add: is_present_bit fork_pte_def bit_simps attr_bits)
  have "base ((e OR MM_ATTR_COW) AND NOT MM_ATTR_RW_W) = base e"
    unfolding base_def FFF_mask by (rule bit_word_eqI) (auto simp: bit_simps attr_bits)
  then show "base (fork_pte e) = base e" by (simp add: fork_pte_def)
qed

lemma cow_bit: "is_copy_on_write e \<longleftrightarrow> bit e 10" "is_shared e \<longleftrightarrow> bit e 9"
proof -
  have "MM_ATTR_COW = push_bit 10 1" "MM_ATTR_SH = push_bit 9 1" by (simp_all add: MM_ATTR_COW_def MM_ATTR_SH_def)
  then show "is_copy_on_write e \<longleftrightarrow> bit e 10" "is_shared e \<longleftrightarrow> bit e 9"
    by (simp_all only: is_copy_on_write_def is_shared_def bit_iff_and_push_bit_not_eq_0)
qed

lemma fork_pte_cow: "\<not> is_shared e \<Longrightarrow> is_copy_on_write (fork_pte e) \<and> \<not> bit (fork_pte e) 1"
  by (simp add: cow_bit(1) fork_pte_def is_shared_def bit_simps attr_bits)

lemma aligned_low_bits: "page_aligned p \<Longrightarrow> n < 12 \<Longrightarrow> \<not> bit (p :: u32) n"
proof -
  assume p: "page_aligned p" and n: "n < 12"
  have "bit p n \<longleftrightarrow> bit (p AND NOT (mask 12)) n" using base_of_aligned [OF p] unfolding base_def FFF_mask by metis
  then show "\<not> bit p n" using n by (simp add: bit_simps)
qed

lemma std_not_shared: "page_aligned p \<Longrightarrow> \<not> is_shared (p OR (USR_STD_ATTR OR 1))"
  by (simp add: cow_bit(2) bit_simps aligned_low_bits USR_STD_ATTR_def MM_ATTR_RW_def MM_ATTR_US_U_def)

lemma forked_entry_facts [simp]:
  "is_present (forked_entry e) = is_present e" "base (forked_entry e) = base e"
  by (simp_all add: forked_entry_def fork_pte_facts)

lemma index_of_nat: "n < 1024 \<Longrightarrow> index_ok (of_nat n)" "n < 1024 \<Longrightarrow> unat (of_nat n :: u32) = n"
  by (auto simp: index_ok_def unat_of_nat)

section \<open>One table\<close>

lemma page_fork_ok:
  assumes t: "page_aligned t" and n: "page_aligned n" and d: "t \<noteq> n"
  shows "\<exists>m'. mm_page_fork t n k = Some (n, k\<lparr>ram := m'\<rparr>) \<and>
     (\<forall>i. index_ok i \<longrightarrow> rd32 m' (entry t i) = forked_entry (rd32 (ram k) (entry t i)) \<and>
        rd32 m' (entry n i) = (if is_present (rd32 (ram k) (entry t i)) then fork_pte (rd32 (ram k) (entry t i))
                               else rd32 (ram k) (entry n i))) \<and>
     (\<forall>b. base b \<noteq> t \<and> base b \<noteq> n \<longrightarrow> m' b = ram k b)"
proof -
  define old where "old i = rd32 (ram k) (entry t i)" for i
  define new where "new i = rd32 (ram k) (entry n i)" for i
  let ?f = "\<lambda>i k. let e = entry t (of_nat i) in
       if is_present (get32 k e) then
         (let k = (if get32 k e AND MM_ATTR_SH \<noteq> 0 then k
                   else (let k = put32 e (get32 k e OR MM_ATTR_COW) k in
                         put32 e (get32 k e AND NOT MM_ATTR_RW_W) k))
          in Some (put32 (entry n (of_nat i)) (get32 k e) k))
       else Some k"
  let ?inv = "\<lambda>j s. \<exists>m'. s = k\<lparr>ram := m'\<rparr> \<and>
     (\<forall>i. index_ok i \<longrightarrow>
        rd32 m' (entry t i) = (if unat i < j then forked_entry (old i) else old i) \<and>
        rd32 m' (entry n i) = (if unat i < j \<and> is_present (old i) then fork_pte (old i) else new i)) \<and>
     (\<forall>b. base b \<noteq> t \<and> base b \<noteq> n \<longrightarrow> m' b = ram k b)"
  have "\<exists>s. for_range 0 1024 ?f k = Some s \<and> ?inv 1024 s"
  proof (rule for_range_rule [where inv = ?inv])
    show "?inv 0 k" by (intro exI [of _ "ram k"]) (simp add: old_def new_def)
  next
    fix j s assume j: "j < 1024" and "?inv j s"
    then obtain m where s: "s = k\<lparr>ram := m\<rparr>" and
      c: "\<And>i. index_ok i \<Longrightarrow> rd32 m (entry t i) = (if unat i < j then forked_entry (old i) else old i)"
        "\<And>i. index_ok i \<Longrightarrow> rd32 m (entry n i) = (if unat i < j \<and> is_present (old i) then fork_pte (old i) else new i)"
      and o: "\<forall>b. base b \<noteq> t \<and> base b \<noteq> n \<longrightarrow> m b = ram k b" by blast
    let ?i = "of_nat j :: u32"
    have i: "index_ok ?i" "unat ?i = j" using j by (simp_all add: index_of_nat)
    have at: "rd32 m (entry t ?i) = old ?i" using c(1) [OF i(1)] i(2) by simp
    have un: "unat l < Suc j \<longleftrightarrow> l = ?i \<or> unat l < j" for l :: u32
      using i(2) by (auto simp: less_Suc_eq word_unat_eq_iff)
    show "\<exists>s'. ?f j s = Some s' \<and> ?inv (Suc j) s'"
    proof (cases "is_present (old ?i)")
      case False
      then have "?f j s = Some s" by (simp add: s get32_def at)
      moreover have "?inv (Suc j) s"
        using c o False un by (intro exI [of _ m]) (auto simp: s forked_entry_def)
      ultimately show ?thesis by blast
    next
      case True
      let ?m = "wr32 (wr32 m (entry t ?i) (fork_pte (old ?i))) (entry n ?i) (fork_pte (old ?i))"
      have w: "?m = wr32 m (entry n ?i) (old ?i)" if "old ?i AND MM_ATTR_SH \<noteq> 0"
      proof -
        have "wr32 m (entry t ?i) (old ?i) = m" using at by (metis wr32_rd32)
        then show ?thesis using that by (simp add: fork_pte_def)
      qed
      have "?f j s = Some (k\<lparr>ram := ?m\<rparr>)"
      proof (cases "old ?i AND MM_ATTR_SH = 0")
        case sh: True
        then show ?thesis using True by (simp add: s get32_def put32_def at fork_pte_def Let_def)
      next
        case False
        then show ?thesis using True w by (simp add: s get32_def put32_def at fork_pte_def Let_def)
      qed
      moreover have "?inv (Suc j) (k\<lparr>ram := ?m\<rparr>)"
      proof (intro exI [of _ ?m] conjI allI impI)
        fix l :: u32 assume l: "index_ok l"
        show "rd32 ?m (entry t l) = (if unat l < Suc j then forked_entry (old l) else old l)"
          using l i(1) t n d c(1) [OF l] True un [of l] by (auto simp: rd32_wr32 entry_eq forked_entry_def)
        show "rd32 ?m (entry n l) = (if unat l < Suc j \<and> is_present (old l) then fork_pte (old l) else new l)"
          using l i(1) t n d c(2) [OF l] True un [of l] by (auto simp: rd32_wr32 entry_eq)
      next
        fix b assume "base b \<noteq> t \<and> base b \<noteq> n"
        then show "?m b = ram k b" using o i(1) t n by (simp add: wr32_other_page)
      qed simp
      ultimately show ?thesis by blast
    qed
  qed simp
  then show ?thesis
    by (auto simp: mm_page_fork_def TABLE_ENTRY_NUM_def index_ok_def old_def new_def split: if_splits)
qed


section \<open>The directory\<close>

text \<open>
  \<open>forked m0 d c i m\<close>: memory \<open>m\<close> results from \<open>m0\<close> by forking the entries of directory \<open>d\<close> below
  the \<open>i\<close>-th, other than entry 0, into directory \<open>c\<close>.
\<close>

definition old_pte :: "ram \<Rightarrow> u32 \<Rightarrow> u32 \<Rightarrow> u32 \<Rightarrow> u32" where
  "old_pte m0 d j l = rd32 m0 (entry (table m0 d j) l)"

definition forked :: "ram \<Rightarrow> u32 \<Rightarrow> u32 \<Rightarrow> nat \<Rightarrow> ram \<Rightarrow> bool" where
  "forked m0 d c i m \<longleftrightarrow>
     (\<forall>j. index_ok j \<longrightarrow> pde m d j = pde m0 d j) \<and>
     (\<forall>j l. index_ok j \<and> index_ok l \<and> j \<noteq> 0 \<and> has_table m0 d j \<longrightarrow>
        rd32 m (entry (table m0 d j) l) =
          (if unat j < i then forked_entry (old_pte m0 d j l) else old_pte m0 d j l)) \<and>
     (\<forall>j. index_ok j \<and> j \<noteq> 0 \<longrightarrow>
        (if unat j < i \<and> has_table m0 d j
         then has_table m c j \<and> (\<forall>l. index_ok l \<longrightarrow> rd32 m (entry (table m c j) l) =
                (if is_present (old_pte m0 d j l) then fork_pte (old_pte m0 d j l) else 0))
         else pde m c j = 0))"

lemma forkedD:
  assumes "forked m0 d c i m"
  shows "index_ok j \<Longrightarrow> pde m d j = pde m0 d j"
    and "index_ok j \<Longrightarrow> index_ok l \<Longrightarrow> j \<noteq> 0 \<Longrightarrow> has_table m0 d j \<Longrightarrow> rd32 m (entry (table m0 d j) l) =
          (if unat j < i then forked_entry (old_pte m0 d j l) else old_pte m0 d j l)"
    and "index_ok j \<Longrightarrow> j \<noteq> 0 \<Longrightarrow> unat j < i \<Longrightarrow> has_table m0 d j \<Longrightarrow> has_table m c j"
    and "index_ok j \<Longrightarrow> j \<noteq> 0 \<Longrightarrow> unat j < i \<Longrightarrow> has_table m0 d j \<Longrightarrow> index_ok l \<Longrightarrow>
          rd32 m (entry (table m c j) l) = (if is_present (old_pte m0 d j l) then fork_pte (old_pte m0 d j l) else 0)"
    and "index_ok j \<Longrightarrow> j \<noteq> 0 \<Longrightarrow> \<not> (unat j < i \<and> has_table m0 d j) \<Longrightarrow> pde m c j = 0"
  using assms unfolding forked_def by (simp_all split: if_splits)

text \<open>What holds in every iteration.\<close>

definition fork_inv :: "ram \<Rightarrow> u32 \<Rightarrow> u32 \<Rightarrow> nat \<Rightarrow> u32 set \<Rightarrow> 'a mmk_scheme \<Rightarrow> u32 set \<Rightarrow> bool" where
  "fork_inv m0 d c i A0 k A \<longleftrightarrow> forked m0 d c i (ram k) \<and> kernel_pool k A \<and> A \<subseteq> A0 \<and>
     dir_wf (ram k) d A \<and> dir_wf (ram k) c A \<and> pde (ram k) c 0 = 0x81 \<and>
     paging_pages (ram k) d \<inter> paging_pages (ram k) c = {} \<and> paging_pages (ram k) c \<subseteq> A0 \<and>
     (\<forall>b. base b \<notin> paging_pages m0 d \<and> base b \<notin> A0 \<longrightarrow> ram k b = m0 b)"

text \<open>One iteration at an entry that has a table: \<open>p\<close> is the new table.\<close>

definition fork_step :: "ram \<Rightarrow> u32 \<Rightarrow> u32 \<Rightarrow> u32 \<Rightarrow> u32 \<Rightarrow> ram" where
  "fork_step m d c i p = wr32 (clear_words m p 0) (entry c i) (p OR (pde m d i AND 0xFFF))"

lemma low_bits:
  assumes "page_aligned p" and "has_table m d i"
  shows "is_present (p OR (pde m d i AND 0xFFF))" and "(p OR (pde m d i AND 0xFFF)) AND MM_ATTR_SZ_4M = 0"
    and "base (p OR (pde m d i AND 0xFFF)) = p"
proof -
  have z: "\<not> bit p n" if "n < 12" for n
  proof -
    have "bit p n \<longleftrightarrow> bit (p AND NOT (mask 12)) n" using base_of_aligned [OF assms(1)] unfolding base_def FFF_mask by metis
    then show ?thesis using that by (simp add: bit_simps)
  qed
  have e: "bit (pde m d i) 0" "\<not> bit (pde m d i) 7"
    using assms(2) unfolding has_table_def is_present_bit using large_bit by blast+
  show "is_present (p OR (pde m d i AND 0xFFF))"
    using e unfolding is_present_bit FFF_mask by (simp add: bit_simps)
  have "\<not> bit (p OR (pde m d i AND 0xFFF)) 7" using e z [of 7] unfolding FFF_mask by (simp add: bit_simps)
  then show "(p OR (pde m d i AND 0xFFF)) AND MM_ATTR_SZ_4M = 0" using large_bit by blast
  have "(pde m d i AND 0xFFF) AND NOT 0xFFF = 0"
    unfolding FFF_mask by (rule bit_word_eqI) (auto simp: bit_simps)
  then show "base (p OR (pde m d i AND 0xFFF)) = p" by (rule base_or_attr [OF assms(1)])
qed

lemma read_other:
  assumes "page_aligned t" and "index_ok l" and "\<And>b. base b = t \<Longrightarrow> m' b = m b"
  shows "rd32 m' (entry t l) = rd32 m (entry t l)"
  using assms by (intro rd32_page) simp_all

lemma pages_of: "index_ok j \<Longrightarrow> has_table m d j \<Longrightarrow> table m d j \<in> paging_pages m d" "d \<in> paging_pages m d"
  by (auto simp: paging_pages_def tabled_def)

lemma dir_fork_iter:
  assumes inv: "fork_inv m0 d c i A0 k A" and i: "i < 1024" "1 \<le> i" and ne: "A \<noteq> {}"
    and t: "has_table m0 d (of_nat i)"
  shows "\<exists>p k'. dir_fork_loop d c i k = dir_fork_loop d c (Suc i) k' \<and> p \<in> A \<and>
     fork_inv m0 d c (Suc i) A0 k' (A - {p}) \<and> mem_step k k'"
proof -
  let ?i = "of_nat i :: u32" and ?m = "ram k"
  have io: "index_ok ?i" "unat ?i = i" "?i \<noteq> 0" using i index_of_nat by (auto simp: unat_eq_0 [symmetric])
  have fk: "forked m0 d c i ?m" and pool: "kernel_pool k A" and wd: "dir_wf ?m d A" and wc: "dir_wf ?m c A"
    and dj: "paging_pages ?m d \<inter> paging_pages ?m c = {}" and c0: "pde ?m c 0 = 0x81"
    and fr: "\<And>b. base b \<notin> paging_pages m0 d \<Longrightarrow> base b \<notin> A0 \<Longrightarrow> ?m b = m0 b" and sub: "A \<subseteq> A0"
    and pA: "paging_pages ?m c \<subseteq> A0"
    using inv by (auto simp: fork_inv_def)
  have cA: "c \<in> A0" using pA pages_of(2) by blast
  have pdd: "pde ?m d j = pde m0 d j" if "index_ok j" for j using forkedD(1) [OF fk that] .
  have td: "has_table ?m d j = has_table m0 d j" "table ?m d j = table m0 d j" if "index_ok j" for j
    using pdd [OF that] by (simp_all add: has_table_def table_def)
  have pp: "paging_pages ?m d = paging_pages m0 d"
  proof -
    have "tabled ?m d = tabled m0 d" using td by (auto simp: tabled_def)
    moreover have "table ?m d ` tabled m0 d = table m0 d ` tabled m0 d"
      using td by (intro image_cong) (auto simp: tabled_def)
    ultimately show ?thesis by (simp add: paging_pages_def)
  qed
  let ?t = "table m0 d ?i"
  obtain p pfi where p: "mm_mem_kalloc k = Some (p, k\<lparr>kernel_pf_info := pfi, ram := clear_words ?m p 0\<rparr>)"
    "p \<in> A" "kernel_pool (k\<lparr>kernel_pf_info := pfi, ram := clear_words ?m p 0\<rparr>) (A - {p})"
    "page_aligned p" "p \<noteq> 0" "p \<in> kernel_frames"
    using kalloc_spec [OF pool ne] by blast
  have pnd: "p \<notin> paging_pages ?m d" and pnc: "p \<notin> paging_pages ?m c"
    using paging_pages_kernel [OF wd] paging_pages_kernel [OF wc] p(2) by blast+
  have cnd: "c \<notin> paging_pages ?m d" using dj pages_of(2) [of c ?m] by blast
  have dnc: "d \<notin> paging_pages ?m c" using dj pages_of(2) [of d ?m] by blast
  have ca: "page_aligned c" and da: "page_aligned d" using dir_wf_aligned(1) wc wd by auto
  let ?e = "p OR (pde ?m d ?i AND 0xFFF)"
  have tm: "has_table ?m d ?i" using t td [OF io(1)] by simp
  note lb = low_bits [OF p(4) tm]
  define m1 where "m1 = fork_step ?m d c ?i p"
  have m1n: "m1 = new_table ?m c ?i p ?e" by (simp add: m1_def fork_step_def new_table_def)
  have cz: "pde ?m c ?i = 0" using forkedD(5) [OF fk io(1,3)] io(2) by simp
  then have "\<not> is_present (pde ?m c ?i)" by (simp add: is_present_def)
  note nt = new_table_facts [OF wc io(1) this p(2,4,6) lb, folded m1n]
  have o1: "m1 b = ?m b" if "base b \<noteq> p" "base b \<noteq> c" for b
    using that p(4) ca io(1) by (simp add: m1_def fork_step_def wr32_other_page clear_page)
  have s1: "m1 b = ?m b" if "base b \<in> paging_pages ?m d" for b
    using that o1 pnd cnd by metis
  note d1 = data_write [OF wd s1]
  have z1: "rd32 m1 (entry p l) = 0" if "index_ok l" for l
    using that p(4) ca io(1) nt(1) pnc pages_of(2) [of c ?m]
    by (auto simp: m1_def fork_step_def rd32_wr32 entry_eq rd32_clear_page)
  have ta: "page_aligned ?t" and tp: "?t \<noteq> p" "?t \<noteq> c" "?t \<in> paging_pages ?m d"
    using pages_of(1) [OF io(1) tm] td [OF io(1)] pnd cnd by auto
  let ?k1 = "k\<lparr>kernel_pf_info := pfi, ram := m1\<rparr>"
  obtain m2 where f: "mm_page_fork ?t p ?k1 = Some (p, ?k1\<lparr>ram := m2\<rparr>)"
    and r2: "\<And>l. index_ok l \<Longrightarrow> rd32 m2 (entry ?t l) = forked_entry (rd32 m1 (entry ?t l))"
      "\<And>l. index_ok l \<Longrightarrow> rd32 m2 (entry p l) = (if is_present (rd32 m1 (entry ?t l)) then fork_pte (rd32 m1 (entry ?t l))
                               else rd32 m1 (entry p l))"
    and o2: "\<And>b. base b \<noteq> ?t \<Longrightarrow> base b \<noteq> p \<Longrightarrow> m2 b = m1 b"
    using page_fork_ok [OF ta p(4) tp(1), of ?k1] by auto
  have old: "rd32 m1 (entry ?t l) = old_pte m0 d ?i l" if "index_ok l" for l
  proof -
    have "rd32 m1 (entry ?t l) = rd32 ?m (entry ?t l)"
      using ta that s1 tp(3) by (intro read_other) auto
    then show ?thesis using forkedD(2) [OF fk io(1) that io(3) t] io(2) by simp
  qed
  let ?k' = "?k1\<lparr>ram := m2\<rparr>"
  have code: "dir_fork_loop d c i k = dir_fork_loop d c (Suc i) ?k'"
  proof -
    have "rd32 (clear_words ?m p 0) (entry d ?i) = pde ?m d ?i"
      using da io(1) p(4) pnd pages_of(2) [of d ?m] by (auto simp: pde_def rd32_clear_page)
    moreover have "rd32 m1 (entry d ?i) = pde ?m d ?i" using d1(4) [OF _ io(1)] by (simp add: pde_def)
    moreover have "base (pde ?m d ?i) = ?t" using td(2) [OF io(1)] by (simp add: table_def)
    moreover have "is_present (pde ?m d ?i)" using tm by (simp add: has_table_def)
    moreover have "base p = p" using p(4) by simp
    ultimately show ?thesis
      using i p(1,5) f unfolding dir_fork_loop.simps [of d c i k] base_code get32_def put32_def
      by (simp add: TABLE_ENTRY_NUM_def Let_def m1_def fork_step_def pde_def)
  qed
  have dt: "d \<noteq> ?t" "d \<noteq> p" "c \<noteq> p"
    using dir_wf_table [OF wd io(1) tm] td(2) [OF io(1)] pnd pnc pages_of(2) [of d ?m] pages_of(2) [of c ?m] by auto
  have pd2: "pde m2 d j = pde ?m d j" if "index_ok j" for j
    unfolding pde_def using da that o2 dt s1 pages_of(2) [of d ?m] by (intro read_other) auto
  have pc2: "pde m2 c j = pde m1 c j" if "index_ok j" for j
    unfolding pde_def using ca that o2 dt tp(2) by (intro read_other) auto
  have tc2: "has_table m2 c j = (j = ?i \<or> has_table ?m c j)" "table m2 c j = (if j = ?i then p else table ?m c j)"
    if j: "index_ok j" for j
  proof -
    have "pde m2 c j = pde ?m c j" if "j \<noteq> ?i" using that pc2 [OF j] nt(5) [OF j that] by simp
    moreover have "has_table m2 c ?i" "table m2 c ?i = p"
      using pc2 [OF io(1)] nt(2,3) by (simp_all add: has_table_def table_def)
    ultimately show "has_table m2 c j = (j = ?i \<or> has_table ?m c j)" "table m2 c j = (if j = ?i then p else table ?m c j)"
      by (cases "j = ?i"; simp add: has_table_def table_def)+
  qed
  have "dir_wf m2 d (A - {p})" by (rule dir_wf_cong [OF wd pd2]) auto
  moreover have "dir_wf m2 c (A - {p})" by (rule dir_wf_cong [OF nt(1) pc2]) auto
  moreover have "kernel_pool ?k' (A - {p})" using p(3) by (simp add: kernel_pool_def)
  moreover have "pde m2 c 0 = 0x81"
  proof -
    have z: "index_ok 0" "(0 :: u32) \<noteq> ?i" using io(3) by (simp_all add: index_ok_def)
    then show ?thesis using pc2 [OF z(1)] nt(5) [OF z] c0 by simp
  qed
  moreover have pc: "paging_pages m2 c \<subseteq> insert p (paging_pages ?m c)"
    using tc2 by (auto simp: paging_pages_def tabled_def)
  moreover have "paging_pages m2 d \<inter> paging_pages m2 c = {}"
  proof -
    have "paging_pages m2 d \<subseteq> paging_pages ?m d"
      using pd2 by (auto simp: paging_pages_def tabled_def has_table_def table_def)
    then show ?thesis using dj pnd pc by blast
  qed
  moreover have "m2 b = m0 b" if "base b \<notin> paging_pages m0 d" "base b \<notin> A0" for b
  proof -
    have "base b \<noteq> ?t" "base b \<noteq> p" "base b \<noteq> c" using that tp(3) pp p(2) sub cA by auto
    then show ?thesis using o2 o1 fr that by simp
  qed
  moreover have "forked m0 d c (Suc i) m2"
    unfolding forked_def
  proof (intro conjI allI impI)
    fix j assume j: "index_ok j"
    then show "pde m2 d j = pde m0 d j" using pd2 pdd by simp
  next
    fix j l assume jl: "index_ok j \<and> index_ok l \<and> j \<noteq> 0 \<and> has_table m0 d j"
    have ji: "unat j < Suc i \<longleftrightarrow> j = ?i \<or> unat j < i" using io(2) by (auto simp: less_Suc_eq word_unat_eq_iff)
    show "rd32 m2 (entry (table m0 d j) l) = (if unat j < Suc i then forked_entry (old_pte m0 d j l) else old_pte m0 d j l)"
    proof (cases "j = ?i")
      case True
      then show ?thesis using r2(1) old jl ji by simp
    next
      case False
      have tj: "table m0 d j \<noteq> ?t" "table m0 d j \<in> paging_pages ?m d"
        using dir_wf_inj [OF wd, of j ?i] td [of j] td [OF io(1)] jl io(1) t False pages_of(1) [of j ?m d] by auto
      have "m2 b = ?m b" if b: "base b = table m0 d j" for b
      proof -
        have "base b \<noteq> p" "base b \<in> paging_pages ?m d" using tj(2) pnd b by auto
        then show ?thesis using o2 [of b] s1 [of b] tj(1) b by simp
      qed
      then have "rd32 m2 (entry (table m0 d j) l) = rd32 ?m (entry (table m0 d j) l)"
        using jl by (intro read_other) auto
      then show ?thesis using forkedD(2) [OF fk, of j l] jl ji False by simp
    qed
  next
    fix j assume j: "index_ok j \<and> j \<noteq> 0"
    have ji: "unat j < Suc i \<longleftrightarrow> j = ?i \<or> unat j < i" using io(2) by (auto simp: less_Suc_eq word_unat_eq_iff)
    have same: "rd32 m2 (entry (table m2 c j) l) = rd32 ?m (entry (table ?m c j) l)"
      if "j \<noteq> ?i" "has_table ?m c j" "index_ok l" for l
    proof -
      have tj: "table ?m c j \<in> paging_pages ?m c" "table ?m c j \<noteq> c"
        using pages_of(1) that j dir_wf_table [OF wc, of j] by auto
      then have "table ?m c j \<noteq> ?t" "table ?m c j \<noteq> p" using tp(3) dj pnc by auto
      then show ?thesis using that j tc2(2) [of j] tj o2 o1 by (simp, intro read_other) auto
    qed
    show "if unat j < Suc i \<and> has_table m0 d j
         then has_table m2 c j \<and> (\<forall>l. index_ok l \<longrightarrow> rd32 m2 (entry (table m2 c j) l) =
                (if is_present (old_pte m0 d j l) then fork_pte (old_pte m0 d j l) else 0))
         else pde m2 c j = 0"
    proof (cases "j = ?i")
      case True
      then show ?thesis using t tc2 [OF io(1)] r2(2) old z1 ji by simp
    next
      case False
      show ?thesis
      proof (cases "unat j < i \<and> has_table m0 d j")
        case True
        then show ?thesis
          using False j ji tc2 [of j] forkedD(3,4) [OF fk, of j] same by auto
      next
        case no: False
        then have "pde ?m c j = 0" using forkedD(5) [OF fk, of j] j by blast
        moreover have "pde m2 c j = pde ?m c j" using pc2 [of j] nt(5) [of j] j False by simp
        ultimately show ?thesis using no ji False by auto
      qed
    qed
  qed
  ultimately have "fork_inv m0 d c (Suc i) A0 ?k' (A - {p})"
    using sub pA p(2) by (auto simp: fork_inv_def)
  moreover have "mem_step k ?k'" by (simp add: mem_step_def)
  ultimately show ?thesis using code p(2) by blast
qed


lemma dir_fork_skip:
  assumes inv: "fork_inv m0 d c i A0 k A" and i: "i < 1024" "1 \<le> i" and da: "page_aligned d"
    and t: "\<not> has_table m0 d (of_nat i)" "is_present (pde m0 d (of_nat i)) \<longrightarrow> has_table m0 d (of_nat i)"
  shows "dir_fork_loop d c i k = dir_fork_loop d c (Suc i) k \<and> fork_inv m0 d c (Suc i) A0 k A"
proof -
  let ?i = "of_nat i :: u32"
  have io: "index_ok ?i" "unat ?i = i" using i index_of_nat by auto
  have fk: "forked m0 d c i (ram k)" using inv by (simp add: fork_inv_def)
  have "\<not> is_present (pde (ram k) d ?i)" using t forkedD(1) [OF fk io(1)] by simp
  then have "dir_fork_loop d c i k = dir_fork_loop d c (Suc i) k"
    using i by (subst dir_fork_loop.simps) (simp add: TABLE_ENTRY_NUM_def Let_def get32_def pde_def)
  moreover have "forked m0 d c (Suc i) (ram k)"
  proof -
    have "unat j < Suc i \<and> has_table m0 d j \<longleftrightarrow> unat j < i \<and> has_table m0 d j" for j
      using t(1) io(2) by (auto simp: less_Suc_eq)
    then show ?thesis using fk unfolding forked_def by (auto split: if_splits)
  qed
  ultimately show ?thesis using inv by (simp add: fork_inv_def)
qed

text \<open>The directories of entries that still have to be copied.\<close>

definition todo :: "ram \<Rightarrow> u32 \<Rightarrow> nat \<Rightarrow> nat set" where
  "todo m0 d i = {j. i \<le> j \<and> j < 1024 \<and> has_table m0 d (of_nat j)}"

lemma dir_fork_loop_ok:
  assumes "fork_inv m0 d c i A0 k A" and "1 \<le> i" "i \<le> 1024" and "card (todo m0 d i) \<le> card A"
    and "\<forall>j. index_ok j \<and> j \<noteq> 0 \<and> is_present (pde m0 d j) \<longrightarrow> has_table m0 d j" and "page_aligned d"
  shows "\<exists>k' A'. dir_fork_loop d c i k = Some (c, k') \<and> fork_inv m0 d c 1024 A0 k' A' \<and> mem_step k k' \<and>
     card A \<le> card A' + card (todo m0 d i)"
  using assms
proof (induction "1024 - i" arbitrary: i k A)
  case 0
  then show ?case
    by (subst dir_fork_loop.simps) (auto simp: TABLE_ENTRY_NUM_def mem_step_def)
next
  case (Suc n)
  then have i: "i < 1024" "1 \<le> i" by auto
  let ?i = "of_nat i :: u32"
  have io: "index_ok ?i" "unat ?i = i" "?i \<noteq> 0" using i index_of_nat by (auto simp: unat_eq_0 [symmetric])
  have n: "n = 1024 - Suc i" using Suc.hyps(2) by simp
  show ?case
  proof (cases "has_table m0 d ?i")
    case True
    have td: "todo m0 d i = insert i (todo m0 d (Suc i))" using True i by (auto simp: todo_def le_eq_less_or_eq Suc_le_eq)
    have "card (todo m0 d i) = Suc (card (todo m0 d (Suc i)))"
      unfolding td by (subst card_insert_disjoint) (auto simp: todo_def)
    then have c: "Suc (card (todo m0 d (Suc i))) \<le> card A" using Suc.prems(4) by simp
    then have ne: "A \<noteq> {}" by auto
    obtain p k1 where k1: "dir_fork_loop d c i k = dir_fork_loop d c (Suc i) k1" "p \<in> A"
      "fork_inv m0 d c (Suc i) A0 k1 (A - {p})" "mem_step k k1"
      using dir_fork_iter [OF Suc.prems(1) i ne True] by blast
    have "card (todo m0 d (Suc i)) \<le> card (A - {p})" using c k1(2) by (simp add: card_Diff_singleton_if)
    then obtain k' A' where "dir_fork_loop d c (Suc i) k1 = Some (c, k')" "fork_inv m0 d c 1024 A0 k' A'" "mem_step k1 k'"
      "card (A - {p}) \<le> card A' + card (todo m0 d (Suc i))"
      using Suc.hyps(1) [OF n k1(3)] i Suc.prems(5,6) by auto
    moreover from this(4) have "card A \<le> card A' + card (todo m0 d i)"
      using \<open>card (todo m0 d i) = Suc _\<close> k1(2) by (simp add: card_Diff_singleton_if)
    ultimately show ?thesis unfolding k1(1) using mem_step_trans [OF k1(4)] by blast
  next
    case False
    then have "todo m0 d i = todo m0 d (Suc i)" by (auto simp: todo_def le_eq_less_or_eq Suc_le_eq)
    moreover have "dir_fork_loop d c i k = dir_fork_loop d c (Suc i) k" "fork_inv m0 d c (Suc i) A0 k A"
      using dir_fork_skip [OF Suc.prems(1) i Suc.prems(6) False] Suc.prems(5) io by auto
    ultimately show ?thesis using Suc.hyps(1) [of "Suc i" k A] Suc.hyps(2) i Suc.prems by auto
  qed
qed

text \<open>What \<open>forked\<close> means for the two address spaces.\<close>

lemma pdi_zero: "pdi w = 0 \<longleftrightarrow> unat w < 4194304"
  by (rule low_index)

lemma forked_walks:
  assumes fk: "forked m0 d c 1024 m" and d: "page_aligned d" and c: "page_aligned c" and c0: "pde m c 0 = 0x81"
    and small: "\<forall>j. index_ok j \<and> j \<noteq> 0 \<and> is_present (pde m0 d j) \<longrightarrow> has_table m0 d j"
    and d0: "pde m0 d 0 = 0x81"
  shows "walk m d w = walk m0 d w" and "walk m c w = walk m0 d w"
proof -
  have u: "unat (pdi w) < 1024" using pdi_ok [of w] by (simp add: index_ok_def)
  have pd: "pde m d (pdi w) = pde m0 d (pdi w)" using forkedD(1) [OF fk pdi_ok] .
  then have h: "has_table m d (pdi w) = has_table m0 d (pdi w)" "table m d (pdi w) = table m0 d (pdi w)"
    by (simp_all add: has_table_def table_def)
  show "walk m d w = walk m0 d w"
  proof (cases "pdi w \<noteq> 0 \<and> has_table m0 d (pdi w)")
    case True
    then have "rd32 m (entry (table m0 d (pdi w)) (pti w)) = forked_entry (old_pte m0 d (pdi w) (pti w))"
      using forkedD(2) [OF fk pdi_ok pti_ok] u by simp
    then show ?thesis using pd h by (simp add: walk_eq [OF d] Let_def old_pte_def)
  next
    case False
    then have "\<not> has_table m0 d (pdi w)"
      using d0 by (cases "pdi w = 0") (auto simp: has_table_def MM_ATTR_SZ_4M_def)
    then show ?thesis using pd h by (simp add: walk_eq [OF d])
  qed
  show "walk m c w = walk m0 d w"
  proof (cases "pdi w = 0")
    case True
    then show ?thesis using walk_large [OF c, of m w] walk_large [OF d, of m0 w] c0 d0 by simp
  next
    case False
    show ?thesis
    proof (cases "has_table m0 d (pdi w)")
      case True
      have "has_table m c (pdi w)" using forkedD(3) [OF fk pdi_ok False] u True by simp
      moreover have "rd32 m (entry (table m c (pdi w)) (pti w)) =
        (if is_present (old_pte m0 d (pdi w) (pti w)) then fork_pte (old_pte m0 d (pdi w) (pti w)) else 0)"
        using forkedD(4) [OF fk pdi_ok False _ True pti_ok] u by simp
      moreover have "\<not> is_present 0" by (simp add: is_present_def)
      ultimately show ?thesis using True
        by (simp add: walk_eq [OF d] walk_eq [OF c] Let_def has_table_def fork_pte_facts flip: old_pte_def)
    next
      case no: False
      then have "\<not> is_present (pde m0 d (pdi w))" using small False by auto
      moreover have "pde m c (pdi w) = 0" using forkedD(5) [OF fk pdi_ok False] no by blast
      ultimately show ?thesis by (simp add: walk_eq [OF d] walk_eq [OF c] is_present_def)
    qed
  qed
qed

lemma dir_fork_ok:
  assumes wf: "dir_wf (ram k) d A" and pool: "kernel_pool k A" and d0: "pde (ram k) d 0 = 0x81"
    and small: "\<forall>j. index_ok j \<and> j \<noteq> 0 \<and> is_present (pde (ram k) d j) \<longrightarrow> has_table (ram k) d j"
    and frames: "card (todo (ram k) d 1) < card A"
  shows "\<exists>c k' A'. mm_dir_fork d k = Some (c, k') \<and> c \<in> A \<and> A' \<subseteq> A - {c} \<and> mem_step k k' \<and> kernel_pool k' A' \<and>
     dir_wf (ram k') d A' \<and> dir_wf (ram k') c A' \<and> paging_pages (ram k') d \<inter> paging_pages (ram k') c = {} \<and>
     walk (ram k') c = walk (ram k) d \<and> walk (ram k') d = walk (ram k) d \<and> forked (ram k) d c 1024 (ram k') \<and>
     (\<forall>b. base b \<notin> kernel_frames \<longrightarrow> ram k' b = ram k b) \<and> card A \<le> Suc (card A' + card (todo (ram k) d 1)) \<and>
     paging_pages (ram k') c \<subseteq> A \<and> (\<forall>b. base b \<notin> paging_pages (ram k) d \<and> base b \<notin> A \<longrightarrow> ram k' b = ram k b)"
proof -
  have ne: "A \<noteq> {}" using frames by auto
  obtain c k1 where c: "mm_dir_new k = Some (c, k1)" "c \<in> A" "mem_step k k1" "kernel_pool k1 (A - {c})"
    "dir_wf (ram k1) c (A - {c})" "pde (ram k1) c 0 = 0x81"
    "\<forall>i. index_ok i \<and> i \<noteq> 0 \<longrightarrow> pde (ram k1) c i = 0" "\<forall>b. base b \<noteq> c \<longrightarrow> ram k1 b = ram k b"
    using dir_new_ok [OF pool ne] by blast
  have cnp: "c \<notin> paging_pages (ram k) d" using paging_pages_kernel [OF wf] c(2) by blast
  have same: "ram k1 b = ram k b" if "base b \<in> paging_pages (ram k) d" for b using c(8) cnp that by metis
  note dw = data_write [OF wf same]
  have "fork_inv (ram k) d c 1 A k1 (A - {c})"
    unfolding fork_inv_def
  proof (intro conjI)
    show "forked (ram k) d c 1 (ram k1)"
      unfolding forked_def
    proof (intro conjI allI impI)
      fix j assume "index_ok j" then show "pde (ram k1) d j = pde (ram k) d j" using dw(4) by simp
    next
      fix j l assume j: "index_ok j \<and> index_ok l \<and> j \<noteq> 0 \<and> has_table (ram k) d j"
      then have "rd32 (ram k1) (entry (table (ram k) d j) l) = rd32 (ram k) (entry (table (ram k) d j) l)"
        using same pages_of(1) [of j "ram k" d] by (intro read_other) auto
      moreover have "\<not> unat j < 1" using j by (simp add: unat_gt_0)
      ultimately show "rd32 (ram k1) (entry (table (ram k) d j) l) =
          (if unat j < 1 then forked_entry (old_pte (ram k) d j l) else old_pte (ram k) d j l)"
        by (simp add: old_pte_def)
    next
      fix j assume j: "index_ok j \<and> j \<noteq> 0"
      then have "\<not> unat j < 1" by (simp add: unat_gt_0)
      then show "if unat j < 1 \<and> has_table (ram k) d j
         then has_table (ram k1) c j \<and> (\<forall>l. index_ok l \<longrightarrow> rd32 (ram k1) (entry (table (ram k1) c j) l) =
                (if is_present (old_pte (ram k) d j l) then fork_pte (old_pte (ram k) d j l) else 0))
         else pde (ram k1) c j = 0" using c(7) j by simp
    qed
    show "dir_wf (ram k1) d (A - {c})" by (rule dir_wf_cong [OF wf]) (use dw(4) in auto)
    have "tabled (ram k1) c = {}"
    proof -
      have "\<not> has_table (ram k1) c i" if "index_ok i" for i
        using c(6,7) that by (cases "i = 0") (auto simp: has_table_def is_present_def MM_ATTR_SZ_4M_def)
      then show ?thesis by (auto simp: tabled_def)
    qed
    then show "paging_pages (ram k1) d \<inter> paging_pages (ram k1) c = {}" "paging_pages (ram k1) c \<subseteq> A"
      using dw(3) cnp c(2) by (simp_all add: paging_pages_def)
    show "\<forall>b. base b \<notin> paging_pages (ram k) d \<and> base b \<notin> A \<longrightarrow> ram k1 b = ram k b"
      using c(2,8) by auto
  qed (use c in auto)
  moreover have "card (todo (ram k) d 1) \<le> card (A - {c})" using frames c(2) by (simp add: card_Diff_singleton_if)
  ultimately obtain k' A' where l: "dir_fork_loop d c 1 k1 = Some (c, k')"
    "fork_inv (ram k) d c 1024 A k' A'" "mem_step k1 k'" "card (A - {c}) \<le> card A' + card (todo (ram k) d 1)"
    using dir_fork_loop_ok [of "ram k" d c 1 A k1 "A - {c}"] small dir_wf_aligned(1) [OF wf] by auto
  have cp: "page_aligned c" "c \<noteq> 0" using kernel_frame_facts dir_wf_aligned(3) [OF c(5)] by auto
  have code: "mm_dir_fork d k = Some (c, k')" using c(1) l(1) cp by (simp add: mm_dir_fork_def)
  have f: "forked (ram k) d c 1024 (ram k')" "dir_wf (ram k') d A'" "dir_wf (ram k') c A'" "pde (ram k') c 0 = 0x81"
    "kernel_pool k' A'" "A' \<subseteq> A" "paging_pages (ram k') d \<inter> paging_pages (ram k') c = {}"
    "paging_pages (ram k') c \<subseteq> A" "\<forall>b. base b \<notin> paging_pages (ram k) d \<and> base b \<notin> A \<longrightarrow> ram k' b = ram k b"
    using l(2) by (auto simp: fork_inv_def)
  have "walk (ram k') d = walk (ram k) d" "walk (ram k') c = walk (ram k) d"
    using forked_walks [OF f(1) dir_wf_aligned(1) [OF wf] cp(1) f(4) small d0] by auto
  moreover have "A' \<subseteq> A - {c}" using f(3,6) dir_wf_aligned(2) by auto
  moreover have "ram k' b = ram k b" if "base b \<notin> kernel_frames" for b
    using f(9) that paging_pages_kernel [OF wf] kf.pool_sub [OF pool] by blast
  moreover have "card A \<le> Suc (card A' + card (todo (ram k) d 1))"
    using l(4) c(2) by (simp add: card_Diff_singleton_if)
  ultimately show ?thesis using code c(2) f mem_step_trans [OF c(3) l(3)]
    by (intro exI [of _ c] exI [of _ k'] exI [of _ A']) auto
qed

end
