(* ===== verification/Fault.thy ===== *)
theory Fault
  imports Fork
begin

text \<open>
  The page fault handler of kernel/mm.c. A fault at a page that \<open>sys_palloc\<close> has reserved gets its
  frame now; a user write to a present copy-on-write page is resolved by
  \<open>mm_copy_on_write_page\<close>; a fault anywhere else is reported by the panic screen.

  The handler has three ends: it returns to the faulting task, it calls \<open>sys_exit\<close>, which does not
  return, or the panic routine halts the machine because it is already handling a panic. Of the
  panic routine only the guard and the \<open>in_panic\<close> flag appear here; theory \<open>Panic\<close> has all of it.
\<close>

section \<open>Model\<close>

record faultk = mmk +
  in_panic :: bool

datatype 'k fault_outcome = Resume 'k | Exited 'k | Halted 'k

definition debug_kernelpanic :: "'a faultk_scheme \<Rightarrow> 'a faultk_scheme fault_outcome" where
  "debug_kernelpanic k = (if in_panic k then Halted k else Resume (k\<lparr>in_panic := True\<rparr>))"

text \<open>The first half: the directory entry.\<close>

definition fault_directory :: "u32 \<Rightarrow> 'a faultk_scheme \<Rightarrow> 'a faultk_scheme fault_outcome option" where
  "fault_directory addr k =
     (let desc_dir = (reg_cr3 k AND NOT 0xFFF) + drop_bit 22 addr * 4 in
      if \<not> is_present (get32 k desc_dir) then
        (if is_requested (get32 k desc_dir) then do {
           (usr_page, k) \<leftarrow> mm_mem_alloc k;
           if usr_page = 0 then Some (Exited k)
           else do {
             (kernel_page, k) \<leftarrow> mm_page_map addr (reg_cr3 k) usr_page 0 USR_STD_ATTR k;
             if kernel_page = 0 then do { k \<leftarrow> mm_mem_free usr_page k; Some (Exited k) }
             else Some (Resume k) } }
         else Some (debug_kernelpanic k))
      else Some (Resume k))"

text \<open>The second half: the table entry. It also runs after a panic that returned.\<close>

definition fault_table :: "u32 \<Rightarrow> u32 \<Rightarrow> 'a faultk_scheme \<Rightarrow> 'a faultk_scheme fault_outcome option" where
  "fault_table addr error_code k =
     (let ind_td = drop_bit 22 addr;
          ind_tp = drop_bit 22 (push_bit 10 addr);
          desc_dir = (reg_cr3 k AND NOT 0xFFF) + ind_td * 4;
          ptr_desc_tabla = (get32 k desc_dir AND NOT 0xFFF) + ind_tp * 4 in
      if \<not> is_present (get32 k ptr_desc_tabla) then
        (if is_requested (get32 k ptr_desc_tabla) then do {
           (usr_page, k) \<leftarrow> mm_mem_alloc k;
           if usr_page = 0 then Some (Exited k)
           else do {
             (_, k) \<leftarrow> mm_page_map addr (reg_cr3 k) usr_page 0 USR_STD_ATTR k;
             Some (Resume k) } }
         else Some (Resume k))
      else if is_copy_on_write (get32 k ptr_desc_tabla) \<and> error_code = PF_ERROR_READ_ONLY then do {
        (_, k) \<leftarrow> mm_copy_on_write_page ptr_desc_tabla ind_td ind_tp k;
        Some (Resume k) }
      else Some (Resume k))"

definition isr_page_fault_c :: "u32 \<Rightarrow> u32 \<Rightarrow> 'a faultk_scheme \<Rightarrow> 'a faultk_scheme fault_outcome option" where
  "isr_page_fault_c cr2 error_code k = do {
     r \<leftarrow> fault_directory cr2 k;
     case r of Resume k \<Rightarrow> fault_table cr2 error_code k | _ \<Rightarrow> Some r }"

section \<open>Reserved pages\<close>

text \<open>A page of the address space of \<open>d\<close> that \<open>sys_palloc\<close> has reserved.\<close>

definition reserved :: "ram \<Rightarrow> u32 \<Rightarrow> u32 \<Rightarrow> bool" where
  "reserved m d va \<longleftrightarrow>
     (if is_present (pde m d (pdi va))
      then has_table m d (pdi va) \<and> \<not> is_present (rd32 m (entry (table m d (pdi va)) (pti va))) \<and>
           is_requested (rd32 m (entry (table m d (pdi va)) (pti va)))
      else is_requested (pde m d (pdi va)))"

text \<open>The addresses \<open>sys_palloc\<close> builds.\<close>

lemma built_address:
  assumes "i < 1024" and "j < 1024"
  defines "va \<equiv> PAGE_SIZE * 1024 * of_nat i + PAGE_SIZE * of_nat j"
  shows "unat va = 4194304 * i + 4096 * j" and "pdi va = of_nat i" and "pti va = of_nat j" and "page_aligned va"
proof -
  have "4194304 * i + 4096 * j < 4294967296" using assms(1,2) by linarith
  then show u: "unat va = 4194304 * i + 4096 * j"
    using assms(1,2) by (simp add: va_def PAGE_SIZE_def unat_word_ariths unat_of_nat)
  then show "pdi va = of_nat i" using assms(1,2) by (simp add: word_unat_eq_iff unat_pdi unat_of_nat)
  have "(4194304 * i + 4096 * j) div 4096 = 1024 * i + j" by simp
  then show "pti va = of_nat j" using u assms(1,2) by (simp add: word_unat_eq_iff unat_pti unat_of_nat)
  have "4194304 * i + 4096 * j = 4096 * (1024 * i + j)" by simp
  then show "page_aligned va" unfolding page_aligned_def u by (metis dvd_triv_left)
qed

lemma set_attr_req: "\<not> is_present (set_attr e MM_ATTR_REQ)" "is_requested (set_attr e MM_ATTR_REQ)"
proof -
  have b: "bit MM_ATTR_REQ n \<longleftrightarrow> n = 1" for n
  proof -
    have "MM_ATTR_REQ = MM_ATTR_RW" by (simp add: MM_ATTR_REQ_def MM_ATTR_RW_def)
    then show ?thesis by (simp only: attr_bits)
  qed
  have s: "bit (set_attr e MM_ATTR_REQ) n \<longleftrightarrow> n = 1 \<or> 12 \<le> n \<and> bit e n" for n
    unfolding set_attr_def FFF_mask using bit_imp_le_length [of e n] by (auto simp: bit_simps b)
  show "\<not> is_present (set_attr e MM_ATTR_REQ)" by (simp add: is_present_bit s)
  have "bit (set_attr e MM_ATTR_REQ AND MM_ATTR_REQ) 1" by (simp add: bit_simps s b)
  then show "is_requested (set_attr e MM_ATTR_REQ)" unfolding is_requested_def by auto
qed

lemma attr_of_tests:
  "attr_of e AND MM_ATTR_P = 0 \<longleftrightarrow> \<not> is_present e" "attr_of e AND MM_ATTR_REQ = 0 \<longleftrightarrow> \<not> is_requested e"
  "attr_of e AND MM_ATTR_SZ_4M = e AND MM_ATTR_SZ_4M"
  by (simp_all add: attr_of_def is_present_def is_requested_def MM_ATTR_P_def MM_ATTR_REQ_def MM_ATTR_SZ_4M_def and.assoc)

lemma table_address: "push_bit 12 (drop_bit 12 e) = base (e :: u32)"
  unfolding base_def FFF_mask by (rule bit_word_eqI) (auto simp: bit_simps)

text \<open>Writing a directory entry that was and stays absent.\<close>

lemma set_absent_pde:
  assumes wf: "dir_wf m d A" and i: "index_ok i" and old: "\<not> is_present (pde m d i)" and v: "\<not> is_present v"
  defines "m' \<equiv> wr32 m (entry d i) v"
  shows "dir_wf m' d A" and "walk m' d w = walk m d w" and "index_ok j \<Longrightarrow> pde m' d j = (if j = i then v else pde m d j)"
proof -
  have d: "page_aligned d" by (rule dir_wf_aligned(1) [OF wf])
  show p: "index_ok j \<Longrightarrow> pde m' d j = (if j = i then v else pde m d j)" for j
    using d i by (auto simp: m'_def pde_def rd32_wr32 entry_eq)
  have h: "has_table m' d j = has_table m d j" if "index_ok j" for j
    using p [OF that] old v by (auto simp: has_table_def)
  have t: "table m' d j = table m d j" if "index_ok j" "has_table m d j" for j
    using p [OF that(1)] that(2) old by (auto simp: has_table_def table_def)
  have s: "tabled m' d = tabled m d" using h by (auto simp: tabled_def)
  moreover have "inj_on (table m' d) (tabled m d) = inj_on (table m d) (tabled m d)"
    using t by (intro inj_on_cong) (simp add: tabled_def)
  moreover have "\<forall>j \<in> tabled m d. table m' d j = table m d j" using t by (simp add: tabled_def)
  ultimately show "dir_wf m' d A" using wf unfolding dir_wf_def by auto
  show "walk m' d w = walk m d w"
  proof (cases "pdi w = i")
    case True
    then have "pde m' d (pdi w) = v" "\<not> is_present (pde m d (pdi w))" using p [OF i] old by simp_all
    then show ?thesis using v by (simp add: walk_eq [OF d])
  next
    case False
    have "rd32 m' (entry (table m d (pdi w)) (pti w)) = rd32 m (entry (table m d (pdi w)) (pti w))"
      if "has_table m d (pdi w)"
      using dir_wf_table [OF wf pdi_ok that] d i by (auto simp: m'_def rd32_wr32 entry_eq)
    then show ?thesis using False p [OF pdi_ok, of w] h [OF pdi_ok, of w] t [OF pdi_ok, of w]
      by (simp add: walk_eq [OF d] Let_def)
  qed
qed

definition palloc_post :: "u32 \<Rightarrow> u32 set \<Rightarrow> 'a mmk_scheme \<Rightarrow> u32 \<times> 'a mmk_scheme \<Rightarrow> bool" where
  "palloc_post d A k r \<longleftrightarrow> r = (0, k) \<or>
     (\<exists>m'. snd r = k\<lparr>ram := m'\<rparr> \<and> page_aligned (fst r) \<and> 4194304 \<le> unat (fst r) \<and>
        walk (ram k) d (fst r) = None \<and> \<not> reserved (ram k) d (fst r) \<and> reserved m' d (fst r) \<and>
        dir_wf m' d A \<and> (\<forall>w. walk m' d w = walk (ram k) d w))"

lemma palloc_table_ok:
  assumes wf: "dir_wf (ram k) d A" and i: "i < 1024" "1 \<le> i" and t: "has_table (ram k) d (of_nat i)"
  shows "palloc_table (table (ram k) d (of_nat i)) i j k = Some r \<Longrightarrow> palloc_post d A k r"
proof (induction "1024 - j" arbitrary: j)
  case 0
  then show ?case by (subst (asm) palloc_table.simps) (simp add: TABLE_ENTRY_NUM_def)
next
  case (Suc n)
  let ?e = "entry (table (ram k) d (of_nat i)) (of_nat j)"
  have j: "j < 1024" using Suc.hyps(2) by simp
  show ?case
  proof (cases "\<not> is_present (get32 k ?e) \<and> \<not> is_requested (get32 k ?e)")
    case True
    let ?va = "PAGE_SIZE * 1024 * of_nat i + PAGE_SIZE * of_nat j"
    note b = built_address [OF i(1) j]
    have r: "r = (?va, k\<lparr>ram := wr32 (ram k) ?e (set_attr (get32 k ?e) MM_ATTR_REQ)\<rparr>)"
      using Suc.prems True j
      by (subst (asm) palloc_table.simps) (simp add: TABLE_ENTRY_NUM_def Let_def attr_of_tests put32_def)
    have d: "page_aligned d" by (rule dir_wf_aligned(1) [OF wf])
    have t': "has_table (ram k) d (pdi ?va)" using t b(2) by simp
    have e: "?e = entry (table (ram k) d (pdi ?va)) (pti ?va)" using b by simp
    let ?m = "wr32 (ram k) ?e (set_attr (get32 k ?e) MM_ATTR_REQ)"
    have w: "walk ?m d w = (if base w = base ?va then None else walk (ram k) d w)" for w
      unfolding e walk_set_pte(2) [OF wf t'] using set_attr_req by simp
    have none: "walk (ram k) d w = None" if "base w = base ?va" for w
    proof -
      have "pdi w = pdi ?va" "pti w = pti ?va" using that same_page by blast+
      then show ?thesis using True t' unfolding e get32_def by (simp add: walk_eq [OF d] has_table_def)
    qed
    have wf': "dir_wf ?m d A" unfolding e by (rule walk_set_pte(1) [OF wf t'])
    have pd: "pde ?m d (pdi ?va) = pde (ram k) d (pdi ?va)" unfolding e by (rule pde_set_pte [OF wf t']) simp_all
    have pr: "is_present (pde (ram k) d (pdi ?va))" using t' by (simp add: has_table_def)
    have tt: "table ?m d (pdi ?va) = table (ram k) d (pdi ?va)" "has_table ?m d (pdi ?va)"
      using pd t' by (simp_all add: has_table_def table_def)
    have "rd32 ?m (entry (table ?m d (pdi ?va)) (pti ?va)) = set_attr (get32 k ?e) MM_ATTR_REQ"
      unfolding tt(1) by (simp only: e rd32_wr32_same)
    then have "reserved ?m d ?va"
      using pd pr tt(2) set_attr_req unfolding reserved_def by simp
    moreover have "\<not> reserved (ram k) d ?va" using True pr unfolding reserved_def e get32_def by simp
    moreover have "4194304 \<le> unat ?va" using b(1) i by simp
    ultimately show ?thesis unfolding palloc_post_def r
      using b(4) w none wf' by (intro disjI2 exI [of _ ?m]) simp
  next
    case False
    then have "palloc_table (table (ram k) d (of_nat i)) i (Suc j) k = Some r"
      using Suc.prems j
      by (subst (asm) palloc_table.simps) (auto simp: TABLE_ENTRY_NUM_def Let_def attr_of_tests split: if_splits)
    moreover have "n = 1024 - Suc j" using Suc.hyps(2) by simp
    ultimately show ?thesis using Suc.hyps(1) by blast
  qed
qed

lemma palloc_dir_ok:
  assumes wf: "dir_wf (ram k) d A"
  shows "1 \<le> i \<Longrightarrow> palloc_post d A k (palloc_dir d i k)"
proof (induction "1024 - i" arbitrary: i)
  case 0
  then show ?case by (subst palloc_dir.simps) (simp add: TABLE_ENTRY_NUM_def palloc_post_def)
next
  case (Suc n)
  let ?i = "of_nat i :: u32" and ?e = "entry d (of_nat i)"
  have i: "i < 1024" using Suc.hyps(2) by simp
  have io: "index_ok ?i" using i index_of_nat by simp
  have d: "page_aligned d" by (rule dir_wf_aligned(1) [OF wf])
  have "n = 1024 - Suc i" using Suc.hyps(2) by simp
  then have IH: "palloc_post d A k (palloc_dir d (i + 1) k)" using Suc.hyps(1) by simp
  have code: "palloc_dir d i k =
     (if is_present (pde (ram k) d ?i) then
        if has_table (ram k) d ?i then
          (case palloc_table (table (ram k) d ?i) i 0 k of Some r \<Rightarrow> r | None \<Rightarrow> palloc_dir d (i + 1) k)
        else palloc_dir d (i + 1) k
      else if \<not> is_requested (pde (ram k) d ?i) then
        (PAGE_SIZE * 1024 * of_nat i, k\<lparr>ram := wr32 (ram k) ?e (set_attr (pde (ram k) d ?i) MM_ATTR_REQ)\<rparr>)
      else palloc_dir d (i + 1) k)"
    using i by (subst palloc_dir.simps)
      (simp add: TABLE_ENTRY_NUM_def Let_def attr_of_tests table_address get32_def put32_def has_table_def table_def
        flip: pde_def)
  show ?case
  proof (cases "is_present (pde (ram k) d ?i)")
    case True
    then show ?thesis
      using IH palloc_table_ok [OF wf i Suc.prems] unfolding code by (auto split: option.split)
  next
    case absent: False
    show ?thesis
    proof (cases "is_requested (pde (ram k) d ?i)")
      case True
      then show ?thesis using IH absent unfolding code by simp
    next
      case False
      let ?va = "PAGE_SIZE * 1024 * of_nat i" and ?m = "wr32 (ram k) ?e (set_attr (pde (ram k) d ?i) MM_ATTR_REQ)"
      have b: "unat ?va = 4194304 * i" "pdi ?va = ?i" "page_aligned ?va"
        using built_address [OF i, of 0] by simp_all
      note s = set_absent_pde [OF wf io absent set_attr_req(1)]
      have "palloc_dir d i k = (?va, k\<lparr>ram := ?m\<rparr>)" using absent False unfolding code by simp
      moreover have "reserved ?m d ?va" using s(3) [OF io] b(2) set_attr_req by (simp add: reserved_def)
      moreover have "\<not> reserved (ram k) d ?va" using absent False b(2) by (simp add: reserved_def)
      moreover have "walk (ram k) d ?va = None" using absent b(2) by (simp add: walk_eq [OF d])
      moreover have "4194304 \<le> unat ?va" using b(1) Suc.prems by simp
      ultimately show ?thesis unfolding palloc_post_def using s(1,2) b(3) by auto
    qed
  qed
qed


section \<open>Demand paging\<close>

lemma usr_map_spec:
  fixes k :: "'a mmk_scheme"
  assumes wf: "dir_wf (ram k) d A" and pool: "kernel_pool k A" and up: "usr_pool n k B" "B \<noteq> {}" and cr: "reg_cr3 k = d"
    and slot: "has_table (ram k) d (pdi va) \<or> \<not> is_present (pde (ram k) d (pdi va)) \<and> A \<noteq> {}"
  shows "\<exists>pt k1 e k' A'. mm_mem_alloc k = Some (pt, k1) \<and> pt \<in> B \<and> pt \<noteq> 0 \<and> reg_cr3 k1 = d \<and>
     mm_page_map va d pt 0 USR_STD_ATTR k1 = Some (e, k') \<and> e \<noteq> 0 \<and> reg_cr3 k' = d \<and>
     e = entry (table (ram k') d (pdi va)) (pti va) \<and> rd32 (ram k') e = pt OR (USR_STD_ATTR OR 1) \<and>
     has_table (ram k') d (pdi va) \<and> usr_pool n k' (B - {pt}) \<and> kernel_pool k' A' \<and> A' \<subseteq> A \<and>
     dir_wf (ram k') d A' \<and> mapped_at (ram k) d va pt (ram k') \<and> page_aligned pt \<and>
     mmk.more k' = mmk.more k \<and> (\<forall>b. base b \<notin> kernel_frames \<longrightarrow> ram k' b = ram k b)"
proof -
  obtain pt pfi where pt: "mm_mem_alloc k = Some (pt, k\<lparr>usr_pf_info := pfi\<rparr>)" "pt \<in> B"
    "usr_pool n (k\<lparr>usr_pf_info := pfi\<rparr>) (B - {pt})" "page_aligned pt" "pt \<notin> kernel_frames" "pt \<noteq> 0"
    using usr_alloc_spec [OF up] by blast
  let ?k1 = "k\<lparr>usr_pf_info := pfi\<rparr>"
  have "dir_wf (ram ?k1) d A" "kernel_pool ?k1 A" using wf pool by (simp_all add: kernel_pool_def)
  moreover have "has_table (ram ?k1) d (pdi va) \<or> \<not> is_present (pde (ram ?k1) d (pdi va)) \<and> A \<noteq> {}"
    using slot by simp
  ultimately obtain k' A' where m: "mm_page_map va d pt 0 USR_STD_ATTR ?k1 = Some (entry (table (ram k') d (pdi va)) (pti va), k')"
    "mem_step ?k1 k'" "kernel_pool k' A'" "dir_wf (ram k') d A'" "A' \<subseteq> A" "mapped_at (ram ?k1) d va pt (ram k')"
    "has_table (ram k') d (pdi va)"
    "rd32 (ram k') (entry (table (ram k') d (pdi va)) (pti va)) = base pt OR (USR_STD_ATTR OR 1)"
    "\<forall>b. base b \<noteq> d \<and> base b \<notin> A - A' \<and> base b \<noteq> table (ram k') d (pdi va) \<longrightarrow> ram k' b = ram ?k1 b"
    using page_map_ok [of ?k1 d A va USR_STD_ATTR pt] std_attr by blast
  let ?t = "table (ram k') d (pdi va)"
  have tk: "?t \<in> kernel_frames" using dir_wf_table [OF m(4) pdi_ok m(7)] by simp
  have "entry ?t (pti va) \<noteq> 0"
  proof
    assume "entry ?t (pti va) = 0"
    then have "base (entry ?t (pti va)) = 0" by (simp add: base_def)
    then show False using kernel_frame_facts [OF tk] by simp
  qed
  moreover have "ram k' b = ram k b" if "base b \<notin> kernel_frames" for b
  proof -
    have "base b \<noteq> d" "base b \<notin> A - A'" "base b \<noteq> ?t"
      using that tk dir_wf_aligned(3) [OF wf] kf.pool_sub [OF pool] by auto
    then show ?thesis using m(9) by simp
  qed
  moreover have "usr_pool n k' (B - {pt})"
    using pt(3) mem_step_fields(3,4) [OF m(2)] by (simp add: usr_pool_def)
  moreover have "reg_cr3 k' = d" "mmk.more k' = mmk.more k"
    using mem_step_fields(1,12) [OF m(2)] cr by simp_all
  ultimately show ?thesis
    using pt(1,2,4,6) m cr by (intro exI [of _ pt] exI [of _ ?k1] exI [of _ "entry ?t (pti va)"] exI [of _ k'] exI [of _ A']) simp
qed

lemma std_not_cow: "page_aligned pt \<Longrightarrow> \<not> is_copy_on_write (pt OR (USR_STD_ATTR OR 1))"
proof -
  assume p: "page_aligned pt"
  have "bit pt 10 \<longleftrightarrow> bit (pt AND NOT (mask 12)) 10" using base_of_aligned [OF p] unfolding base_def FFF_mask by metis
  then have z: "\<not> bit pt 10" by (simp add: bit_simps)
  have u: "\<not> bit (USR_STD_ATTR OR 1) 10"
    by (simp add: USR_STD_ATTR_def MM_ATTR_RW_def MM_ATTR_US_U_def bit_simps)
  have "MM_ATTR_COW = push_bit 10 1" by (simp add: MM_ATTR_COW_def)
  then have "is_copy_on_write v \<longleftrightarrow> bit v 10" for v
    by (simp only: is_copy_on_write_def bit_iff_and_push_bit_not_eq_0)
  then show ?thesis using z u by (simp add: bit_simps)
qed

lemma demand_page:
  assumes wf: "dir_wf (ram k) d A" and pool: "kernel_pool k A" and up: "usr_pool n k B" "B \<noteq> {}" and cr: "reg_cr3 k = d"
    and res: "reserved (ram k) d va" and frames: "has_table (ram k) d (pdi va) \<or> A \<noteq> {}"
  shows "\<exists>k' pt A'. isr_page_fault_c va err k = Some (Resume k') \<and> pt \<in> B \<and> usr_pool n k' (B - {pt}) \<and>
     kernel_pool k' A' \<and> A' \<subseteq> A \<and> dir_wf (ram k') d A' \<and> mapped_at (ram k) d va pt (ram k') \<and>
     in_panic k' = in_panic k \<and> (\<forall>b. base b \<notin> kernel_frames \<longrightarrow> ram k' b = ram k b)"
proof -
  have d: "base d = d" using dir_wf_aligned(1) [OF wf] by simp
  have slot: "has_table (ram k) d (pdi va) \<or> \<not> is_present (pde (ram k) d (pdi va)) \<and> A \<noteq> {}"
    using res frames by (auto simp: reserved_def)
  obtain pt k1 e k' A' where s: "mm_mem_alloc k = Some (pt, k1)" "pt \<in> B" "pt \<noteq> 0" "reg_cr3 k1 = d"
     "mm_page_map va d pt 0 USR_STD_ATTR k1 = Some (e, k')" "e \<noteq> 0" "reg_cr3 k' = d"
     "e = entry (table (ram k') d (pdi va)) (pti va)" "rd32 (ram k') e = pt OR (USR_STD_ATTR OR 1)"
     "has_table (ram k') d (pdi va)" "usr_pool n k' (B - {pt})" "kernel_pool k' A'" "A' \<subseteq> A"
     "dir_wf (ram k') d A'" "mapped_at (ram k) d va pt (ram k')" "page_aligned pt"
     "mmk.more k' = mmk.more k" "\<forall>b. base b \<notin> kernel_frames \<longrightarrow> ram k' b = ram k b"
    using usr_map_spec [OF wf pool up cr slot] by blast
  have pn: "in_panic k' = in_panic k" using s(17) by (cases k; cases k') simp
  have "isr_page_fault_c va err k = Some (Resume k')"
  proof (cases "is_present (pde (ram k) d (pdi va))")
    case True
    then have t: "has_table (ram k) d (pdi va)"
      and e0: "\<not> is_present (rd32 (ram k) (entry (table (ram k) d (pdi va)) (pti va)))"
        "is_requested (rd32 (ram k) (entry (table (ram k) d (pdi va)) (pti va)))"
      using res by (simp_all add: reserved_def)
    then have "fault_directory va k = Some (Resume k)"
      using True cr d unfolding fault_directory_def base_code entry_code get32_def by (simp add: pde_def pdi_def)
    moreover have "fault_table va err k = Some (Resume k')"
      using e0 s(1,3,4,5) cr d unfolding fault_table_def base_code entry_code get32_def
      by (simp add: pde_def pdi_def pti_def table_def)
    ultimately show ?thesis by (simp add: isr_page_fault_c_def)
  next
    case False
    then have "is_requested (pde (ram k) d (pdi va))" using res by (simp add: reserved_def)
    then have "fault_directory va k = Some (Resume k')"
      using False cr d s(1,3,4,5,6) unfolding fault_directory_def base_code entry_code get32_def
      by (simp add: pde_def pdi_def)
    moreover have "is_present (rd32 (ram k') e)" "\<not> is_copy_on_write (rd32 (ram k') e)"
      using s(9) or_attr_bits(1) [OF s(16) std_attr] std_not_cow [OF s(16)] by simp_all
    then have "fault_table va err k' = Some (Resume k')"
      using s(7,8) d unfolding fault_table_def base_code entry_code get32_def
      by (simp add: pde_def pdi_def pti_def table_def)
    ultimately show ?thesis by (simp add: isr_page_fault_c_def)
  qed
  then show ?thesis using s pn by blast
qed

text \<open>A write to a copy-on-write page.\<close>

lemma cow_fault:
  assumes cr: "reg_cr3 k = d" and d: "page_aligned d" and t: "has_table (ram k) d (pdi va)"
  defines "e \<equiv> entry (table (ram k) d (pdi va)) (pti va)"
  assumes pr: "is_present (rd32 (ram k) e)" "is_copy_on_write (rd32 (ram k) e)"
  shows "isr_page_fault_c va PF_ERROR_READ_ONLY k =
     map_option (Resume \<circ> snd) (mm_copy_on_write_page e (pdi va) (pti va) k)"
proof -
  have p: "is_present (pde (ram k) d (pdi va))" using t by (simp add: has_table_def)
  have b: "base d = d" using d by simp
  have "fault_directory va k = Some (Resume k)"
    using p cr b unfolding fault_directory_def base_code entry_code get32_def by (simp add: pde_def pdi_def)
  then show ?thesis
    using pr cr b unfolding isr_page_fault_c_def fault_table_def base_code entry_code get32_def e_def
    by (simp add: pde_def pdi_def pti_def table_def split_def map_conv_bind_option Let_def comp_def)
qed

end
