(* ===== verification/Mem_Props.thy ===== *)
theory Mem_Props
  imports Fault
begin

text \<open>
  The properties of the memory manager (kernel/mm.c): the two frame allocators, mapping, demand
  paging, fork and copy on write. The witnesses run the operations from \<open>mem_boot\<close>, a machine with
  16 MB of cleared memory and nothing allocated.
\<close>

definition mem_boot :: "faultk" where
  "mem_boot = \<lparr>sch = sched_start,
     task_table = replicate MAX_PID \<lparr>q_next = 0, q_prev = 0, cr3 = 0, esp0 = 0\<rparr>,
     cur_pid = 0, tasks_running = 0, tasks_blocked = 0,
     free_pids = replicate MAX_PID 0, next_free = 0, syscall_list = replicate 128 None,
     reg_cr3 = 0, reg_esp = 0, ram = (\<lambda>_. 0), kernel_pf_info = replicate 24 0,
     usr_pf_info = replicate 32736 0, usr_pf_limit = 96, kernel_dir = 0, dir_free_sem = SEM_NEW 1,
     in_panic = False\<rparr>"

section \<open>Frame allocators\<close>

lemma all_free: "(\<forall>j < n. pfi ! j = 0) \<Longrightarrow> frames_free pfi n = {..<32 * n}"
  by (auto simp: frames_free_def less_mult_imp_div_less mult.commute)

lemma kernel_pool_fresh: "kernel_pf_info k = replicate 24 0 \<Longrightarrow> kernel_pool k kernel_frames"
  by (simp add: kernel_pool_def kernel_frames_def all_free)

lemma card_frames: "unat off + n * 4096 \<le> 2 ^ 32 \<Longrightarrow> card (frame_at off ` {..<n}) = n"
  by (subst card_image) (auto simp: inj_on_def frame_at_inj)

lemma card_kernel_frames: "card kernel_frames = 768"
  by (simp add: kernel_frames_def card_frames KRN_MEM_START_def)

lemma usr_pool_fresh:
  "(\<forall>j < n - 1. usr_pf_info k ! j = 0) \<Longrightarrow> unat (usr_pf_limit k) = n \<Longrightarrow> n \<le> length (usr_pf_info k) \<Longrightarrow>
   n \<le> 16352 \<Longrightarrow> usr_pool n k (usr_frames n)"
  by (simp add: usr_pool_def usr_frames_def all_free)

lemma card_usr_frames: "n \<le> 16352 \<Longrightarrow> card (usr_frames n) = 32 * (n - 1)"
  unfolding usr_frames_def by (rule card_frames) (simp add: USR_MEM_START_def)

text \<open>C12. The kernel's page frames are never handed out twice: starting from the cleared bitmap,
  after any sequence of allocations and releases that never holds more than 768 frames, the frames
  held are distinct and lie between 1 MB and 4 MB, and all the others are still available.\<close>

theorem kernel_frames_never_shared:
  assumes "kernel_pf_info k = replicate 24 0" and "pool_legal 768 es 0"
  shows "\<exists>held k'. pool_run mm_mem_kalloc mm_mem_free es [] k = Some (held, k') \<and> distinct held \<and>
     (\<forall>p \<in> set held. page_aligned p \<and> 1048576 \<le> unat p \<and> unat p < 4194304) \<and>
     kernel_pool k' (kernel_frames - set held)"
proof -
  have "page_aligned p \<and> 1048576 \<le> unat p \<and> unat p < 4194304" if p: "p \<in> kernel_frames" for p
  proof -
    obtain f where "p = frame_at KRN_MEM_START f" "f < 768" using p by (auto simp: kernel_frames_def)
    then show ?thesis using kernel_frame_facts [OF p] by (simp add: unat_frame_at KRN_MEM_START_def)
  qed
  then show ?thesis
    using kf.no_double_allocation [OF kernel_pool_fresh [OF assms(1)], of es] assms(2) card_kernel_frames
    by (auto simp: subset_iff)
qed

theorem kernel_frames_never_shared_witness:
  "\<exists>held k'. pool_run mm_mem_kalloc mm_mem_free [Take, Take, Give 0, Take] [] mem_boot = Some (held, k') \<and> distinct held \<and>
     (\<forall>p \<in> set held. page_aligned p \<and> 1048576 \<le> unat p \<and> unat p < 4194304) \<and>
     kernel_pool k' (kernel_frames - set held)"
  by (rule kernel_frames_never_shared) (simp_all add: mem_boot_def)

text \<open>C13. The user page frames are never handed out twice, on a machine with less than 2 GB: with
  \<open>n\<close> words of bitmap in use, any sequence that never holds more than 32 * (n - 1) frames
  succeeds, the frames held are distinct, and the others are still available.\<close>

theorem usr_frames_never_shared:
  assumes "\<forall>j < n - 1. usr_pf_info k ! j = 0" and "unat (usr_pf_limit k) = n" and "n \<le> length (usr_pf_info k)"
    and "n \<le> 16352" and "pool_legal (32 * (n - 1)) es 0"
  shows "\<exists>held k'. pool_run mm_mem_alloc mm_mem_free es [] k = Some (held, k') \<and> distinct held \<and>
     set held \<subseteq> usr_frames n \<and> usr_pool n k' (usr_frames n - set held)"
  using uf.no_double_allocation [OF usr_pool_fresh [OF assms(1-4)], of es] assms(4,5) card_usr_frames by auto

theorem usr_frames_never_shared_witness:
  "\<exists>held k'. pool_run mm_mem_alloc mm_mem_free [Take, Take, Give 1, Take] [] mem_boot = Some (held, k') \<and> distinct held \<and>
     set held \<subseteq> usr_frames 96 \<and> usr_pool 96 k' (usr_frames 96 - set held)"
  by (rule usr_frames_never_shared) (simp_all add: mem_boot_def)

text \<open>The last 32 user frames are never used: when the words of the bitmap before the last are
  full, \<open>mm_mem_alloc\<close> returns NULL, whatever the last word holds. The search increments its index
  before it compares it with the limit.\<close>

theorem last_usr_frames_unused:
  assumes "unat (usr_pf_limit k) \<le> length (usr_pf_info k)"
    and "\<forall>j < unat (usr_pf_limit k) - 1. usr_pf_info k ! j = PFI_OCCUPIED"
  shows "mm_mem_alloc k = Some (0, k)"
  using alloc_none [OF assms(1), of USR_MEM_START] assms(2) full_words
  by (simp add: mm_mem_alloc_def)

theorem last_usr_frames_unused_witness:
  "mm_mem_alloc (mem_boot\<lparr>usr_pf_info := [PFI_OCCUPIED, PFI_OCCUPIED, 0], usr_pf_limit := 3\<rparr>) =
     Some (0, mem_boot\<lparr>usr_pf_info := [PFI_OCCUPIED, PFI_OCCUPIED, 0], usr_pf_limit := 3\<rparr>)"
proof (rule last_usr_frames_unused)
  have "[PFI_OCCUPIED, PFI_OCCUPIED, 0] ! j = PFI_OCCUPIED" if "j < 2" for j
    using that by (cases j) auto
  then show "\<forall>j < unat (usr_pf_limit (mem_boot\<lparr>usr_pf_info := [PFI_OCCUPIED, PFI_OCCUPIED, 0], usr_pf_limit := 3\<rparr>)) - 1.
     usr_pf_info (mem_boot\<lparr>usr_pf_info := [PFI_OCCUPIED, PFI_OCCUPIED, 0], usr_pf_limit := 3\<rparr>) ! j = PFI_OCCUPIED"
    by simp
qed simp

text \<open>When its 768 frames are in use, \<open>mm_mem_kalloc\<close> does not return NULL: its limit is the size
  of the bitmap in bytes, so the search runs past the end of the array.\<close>

theorem kalloc_exhausted_overruns:
  assumes "length (kernel_pf_info k) = 24" and "\<forall>j < 24. kernel_pf_info k ! j = PFI_OCCUPIED"
  shows "mm_mem_kalloc k = None"
  using pfi_scan_out [of 96 "kernel_pf_info k" 0] assms
  by (simp add: mm_mem_kalloc_def page_frame_info_alloc_def)

theorem kalloc_exhausted_overruns_witness:
  "mm_mem_kalloc (mem_boot\<lparr>kernel_pf_info := replicate 24 PFI_OCCUPIED\<rparr>) = None"
  by (rule kalloc_exhausted_overruns) simp_all

section \<open>Mapping\<close>

text \<open>C9. \<open>mm_page_map\<close> with \<open>page_size\<close> 0, for pages of 4 KB, maps the page of \<open>va\<close> to the frame of \<open>pa\<close> and changes the
  translation of no other address, creating the page table when the directory has none; it keeps
  the directory well formed, takes at most one frame, and returns the address of the entry it
  wrote.\<close>

theorem page_map_maps_one_page:
  assumes "dir_wf (ram k) d A" and "kernel_pool k A"
    and "has_table (ram k) d (pdi va) \<or> \<not> is_present (pde (ram k) d (pdi va)) \<and> A \<noteq> {}"
    and "attr AND NOT 0xFFF = 0" and "attr AND MM_ATTR_SZ_4M = 0"
  shows "\<exists>e k' A'. mm_page_map va d pa 0 attr k = Some (e, k') \<and>
     (\<forall>w. walk (ram k') d w = (if base w = base va then Some (base pa OR (w AND 0xFFF)) else walk (ram k) d w)) \<and>
     rd32 (ram k') e = base pa OR (attr OR 1) \<and>
     dir_wf (ram k') d A' \<and> kernel_pool k' A' \<and> A' \<subseteq> A"
proof -
  obtain k' A' where m: "mm_page_map va d pa 0 attr k = Some (entry (table (ram k') d (pdi va)) (pti va), k')"
    "kernel_pool k' A'" "dir_wf (ram k') d A'" "A' \<subseteq> A" "mapped_at (ram k) d va pa (ram k')"
    "rd32 (ram k') (entry (table (ram k') d (pdi va)) (pti va)) = base pa OR (attr OR 1)"
    using page_map_ok [OF assms] by blast
  then show ?thesis unfolding mapped_at_def by blast
qed

text \<open>A fresh directory to map in.\<close>

lemma boot_dir:
  obtains d k A where "mm_dir_new mem_boot = Some (d, k)" "dir_wf (ram k) d A" "kernel_pool k A" "card A = 767"
    "pde (ram k) d 0 = 0x81" "\<forall>i. index_ok i \<and> i \<noteq> 0 \<longrightarrow> pde (ram k) d i = 0" "mem_step mem_boot k" "A \<noteq> {}"
proof -
  have p: "kernel_pool mem_boot kernel_frames" by (rule kernel_pool_fresh) (simp add: mem_boot_def)
  have "kernel_frames \<noteq> {}" using card_kernel_frames by auto
  then obtain d k where dk: "mm_dir_new mem_boot = Some (d, k)" "d \<in> kernel_frames" "mem_step mem_boot k"
    "kernel_pool k (kernel_frames - {d})" "dir_wf (ram k) d (kernel_frames - {d})" "pde (ram k) d 0 = 0x81"
    "\<forall>i. index_ok i \<and> i \<noteq> 0 \<longrightarrow> pde (ram k) d i = 0"
    using dir_new_ok [OF p] by blast
  have "card (kernel_frames - {d}) = 767" using dk(2) card_kernel_frames by simp
  moreover from this have "kernel_frames - {d} \<noteq> {}" by (metis card.empty zero_neq_numeral)
  ultimately show thesis using that [OF dk(1,5,4) _ dk(6,7,3)] by simp
qed

theorem page_map_maps_one_page_witness:
  "\<exists>d k. mm_dir_new mem_boot = Some (d, k) \<and>
     (\<exists>e k' A'. mm_page_map 0x400000 d 0x800000 0 USR_STD_ATTR k = Some (e, k') \<and>
       (\<forall>w. walk (ram k') d w = (if base w = base 0x400000 then Some (base 0x800000 OR (w AND 0xFFF)) else walk (ram k) d w)) \<and>
       rd32 (ram k') e = base 0x800000 OR (USR_STD_ATTR OR 1) \<and>
       dir_wf (ram k') d A' \<and> kernel_pool k' A')"
proof -
  obtain d k A where b: "mm_dir_new mem_boot = Some (d, k)" "dir_wf (ram k) d A" "kernel_pool k A" "A \<noteq> {}"
    "\<forall>i. index_ok i \<and> i \<noteq> 0 \<longrightarrow> pde (ram k) d i = 0"
    using boot_dir by metis
  have "pdi 0x400000 \<noteq> 0" by (simp add: low_index)
  then have "\<not> is_present (pde (ram k) d (pdi 0x400000))" using b(5) by (simp add: is_present_def)
  then show ?thesis
    using page_map_maps_one_page [OF b(2,3), of "0x400000" USR_STD_ATTR "0x800000"] std_attr b(1,4) by blast
qed

text \<open>A 4 MB mapping ignores the frame and the attributes it is asked for: the operands of the
  expression that builds the entry have no bit in common, so the entry is always 0x81 and the
  addresses map to the first 4 MB of memory, for the kernel only.\<close>

theorem large_map_ignores_frame:
  assumes "page_aligned d" and "page_size \<noteq> 0"
  shows "\<exists>e k'. mm_page_map va d pa page_size attr k = Some (e, k') \<and>
     rd32 (ram k') e = 0x81 \<and> (\<forall>w. pdi w = pdi va \<longrightarrow> walk (ram k') d w = Some (w AND 0x3FFFFF))"
proof -
  have "walk (wr32 (ram k) (entry d (pdi va)) 0x81) d w = Some (w AND 0x3FFFFF)" if "pdi w = pdi va" for w
    using that by (intro walk_large assms(1)) (simp add: pde_def)
  then show ?thesis unfolding large_map_code [OF assms]
    by (intro exI [of _ "entry d (pdi va)"] exI [of _ "k\<lparr>ram := wr32 (ram k) (entry d (pdi va)) 0x81\<rparr>"]) simp
qed

theorem large_map_ignores_frame_witness:
  "\<exists>e k'. mm_page_map 0x800000 0x100000 0xC00000 1 USR_STD_ATTR mem_boot = Some (e, k') \<and>
     rd32 (ram k') e = 0x81 \<and> (\<forall>w. pdi w = pdi 0x800000 \<longrightarrow> walk (ram k') 0x100000 w = Some (w AND 0x3FFFFF))"
  by (rule large_map_ignores_frame) (simp_all add: page_aligned_def)

section \<open>Demand paging\<close>

text \<open>The pages \<open>sys_palloc\<close> may give out: at or above 4 MB, neither mapped nor reserved. In terms of the
  entries it looks at, the page of entry \<open>j\<close> of table \<open>i\<close> is one of them if the table is there and the entry
  is clear, or if the table is neither there nor reserved as a whole.\<close>

definition unused :: "ram \<Rightarrow> u32 \<Rightarrow> u32 \<Rightarrow> bool" where
  "unused m d va \<longleftrightarrow> page_aligned va \<and> 4194304 \<le> unat va \<and> walk m d va = None \<and> \<not> reserved m d va"

definition slot_free :: "ram \<Rightarrow> u32 \<Rightarrow> nat \<Rightarrow> nat \<Rightarrow> bool" where
  "slot_free m d i j \<longleftrightarrow>
     (if is_present (pde m d (of_nat i))
      then has_table m d (of_nat i) \<and> (let e = rd32 m (entry (table m d (of_nat i)) (of_nat j)) in \<not> is_present e \<and> \<not> is_requested e)
      else \<not> is_requested (pde m d (of_nat i)))"

abbreviation page_at :: "nat \<Rightarrow> nat \<Rightarrow> u32" where
  "page_at i j \<equiv> PAGE_SIZE * 1024 * of_nat i + PAGE_SIZE * of_nat j"

lemma unused_slot:
  assumes "page_aligned d" "1 \<le> i" "i < 1024" "j < 1024"
  shows "unused m d (page_at i j) = slot_free m d i j"
proof -
  note b = built_address [OF assms(3,4)]
  have "4194304 \<le> unat (page_at i j)" using b(1) assms(2) by simp
  then show ?thesis
    using b(2-4) by (auto simp: unused_def slot_free_def reserved_def walk_eq [OF assms(1)] has_table_def Let_def)
qed

lemma unused_page:
  assumes "unused m d va"
  shows "\<exists>i j. 1 \<le> i \<and> i < 1024 \<and> j < 1024 \<and> va = page_at i j"
proof -
  let ?n = "unat va div 4096"
  have u: "unat va = 4096 * ?n" "4194304 \<le> unat va" using assms by (auto simp: unused_def page_aligned_def)
  have "unat va < 4294967296" using unsigned_less [of va] by simp
  then have n: "?n < 1048576" "1024 \<le> ?n" using u by linarith+
  have i: "?n div 1024 < 1024" "1 \<le> ?n div 1024" "?n mod 1024 < 1024" using n by (simp_all add: div_less_iff_less_mult less_eq_div_iff_mult_less_eq)
  have "unat (page_at (?n div 1024) (?n mod 1024)) = 4194304 * (?n div 1024) + 4096 * (?n mod 1024)"
    using built_address(1) [OF i(1,3)] .
  also have "\<dots> = 4096 * (1024 * (?n div 1024) + ?n mod 1024)" by (simp only: distrib_left mult.assoc [symmetric])
  also have "\<dots> = unat va" unfolding mult_div_mod_eq using u(1) by (rule sym)
  finally have "va = page_at (?n div 1024) (?n mod 1024)" by (simp only: word_unat_eq_iff)
  then show ?thesis using i by blast
qed

text \<open>The search takes the first such entry.\<close>

lemma palloc_table_first:
  fixes k :: "'a mmk_scheme"
  assumes "has_table (ram k) d (of_nat i)" "j \<le> 1024"
  shows "case palloc_table (table (ram k) d (of_nat i)) i j k of
      None \<Rightarrow> \<forall>j' \<in> {j..<1024}. \<not> slot_free (ram k) d i j'
    | Some (va, _) \<Rightarrow> \<exists>j' \<in> {j..<1024}. va = page_at i j' \<and> slot_free (ram k) d i j' \<and> (\<forall>l \<in> {j..<j'}. \<not> slot_free (ram k) d i l)"
  using assms(2)
proof (induction "1024 - j" arbitrary: j)
  case 0
  then show ?case by (subst palloc_table.simps) (simp add: TABLE_ENTRY_NUM_def)
next
  case (Suc n)
  have j: "j < 1024" using Suc.hyps(2) by simp
  have s: "slot_free (ram k) d i j \<longleftrightarrow> \<not> is_present (get32 k (entry (table (ram k) d (of_nat i)) (of_nat j))) \<and>
      \<not> is_requested (get32 k (entry (table (ram k) d (of_nat i)) (of_nat j)))"
    using assms(1) by (simp add: slot_free_def has_table_def get32_def Let_def)
  show ?case
  proof (cases "slot_free (ram k) d i j")
    case True
    then show ?thesis using s j
      by (subst palloc_table.simps) (auto simp: TABLE_ENTRY_NUM_def Let_def attr_of_tests intro!: bexI [of _ j])
  next
    case False
    have "n = 1024 - Suc j" "Suc j \<le> 1024" using Suc.hyps(2) by simp_all
    note IH = Suc.hyps(1) [OF this]
    have next_j: "palloc_table (table (ram k) d (of_nat i)) i j k = palloc_table (table (ram k) d (of_nat i)) i (Suc j) k"
      using False s j by (subst palloc_table.simps) (auto simp: TABLE_ENTRY_NUM_def Let_def attr_of_tests)
    have ins: "{j..<l} = insert j {Suc j..<l}" if "j < l" for l using that by auto
    show ?thesis
      using IH False j unfolding next_j by (fastforce simp: ins split: option.splits)
  qed
qed

definition first_slot :: "ram \<Rightarrow> u32 \<Rightarrow> nat \<Rightarrow> u32 \<Rightarrow> bool" where
  "first_slot m d i va \<longleftrightarrow> (\<exists>i' j'. i \<le> i' \<and> i' < 1024 \<and> j' < 1024 \<and> va = page_at i' j' \<and> slot_free m d i' j' \<and>
     (\<forall>l < j'. \<not> slot_free m d i' l) \<and> (\<forall>i'' \<in> {i..<i'}. \<forall>l < 1024. \<not> slot_free m d i'' l))"

lemma first_slot_next:
  assumes "\<forall>l < 1024. \<not> slot_free m d i l" "first_slot m d (Suc i) va" shows "first_slot m d i va"
proof -
  have "{i..<i'} = insert i {Suc i..<i'}" if "Suc i \<le> i'" for i' using that by auto
  then show ?thesis using assms unfolding first_slot_def by (metis Suc_leD insert_iff)
qed

lemma palloc_dir_first:
  fixes k :: "'a mmk_scheme"
  assumes "i \<le> 1024"
  shows "first_slot (ram k) d i (fst (palloc_dir d i k)) \<or>
    palloc_dir d i k = (0, k) \<and> (\<forall>i' \<in> {i..<1024}. \<forall>l < 1024. \<not> slot_free (ram k) d i' l)"
  using assms
proof (induction "1024 - i" arbitrary: i)
  case 0
  then show ?case by (subst palloc_dir.simps) (simp add: TABLE_ENTRY_NUM_def)
next
  case (Suc n)
  have i: "i < 1024" "n = 1024 - Suc i" "Suc i \<le> 1024" using Suc.hyps(2) by simp_all
  note IH = Suc.hyps(1) [OF i(2,3)]
  have code: "palloc_dir d i k =
     (if is_present (pde (ram k) d (of_nat i)) then
        if has_table (ram k) d (of_nat i) then
          (case palloc_table (table (ram k) d (of_nat i)) i 0 k of Some r \<Rightarrow> r | None \<Rightarrow> palloc_dir d (i + 1) k)
        else palloc_dir d (i + 1) k
      else if \<not> is_requested (pde (ram k) d (of_nat i)) then
        (page_at i 0, k\<lparr>ram := wr32 (ram k) (entry d (of_nat i)) (set_attr (pde (ram k) d (of_nat i)) MM_ATTR_REQ)\<rparr>)
      else palloc_dir d (i + 1) k)"
    using i(1) by (subst palloc_dir.simps)
      (simp add: TABLE_ENTRY_NUM_def Let_def attr_of_tests table_address get32_def put32_def has_table_def table_def
        flip: pde_def)
  have ins: "{i..<1024} = insert i {Suc i..<1024}" using i(1) by auto
  have skip: ?case if "palloc_dir d i k = palloc_dir d (i + 1) k" "\<forall>l < 1024. \<not> slot_free (ram k) d i l"
    using IH that first_slot_next [OF that(2)] unfolding ins by auto
  show ?case
  proof (cases "is_present (pde (ram k) d (of_nat i)) \<and> has_table (ram k) d (of_nat i)")
    case True
    note T = palloc_table_first [of k d i 0, OF conjunct2 [OF True]]
    show ?thesis
    proof (cases "palloc_table (table (ram k) d (of_nat i)) i 0 k")
      case None
      then show ?thesis using T True code by (intro skip) auto
    next
      case (Some r)
      then obtain j where "j < 1024" "fst r = page_at i j" "slot_free (ram k) d i j" "\<forall>l < j. \<not> slot_free (ram k) d i l"
        using T by (cases r) auto
      then have "first_slot (ram k) d i (fst r)" unfolding first_slot_def using i(1) by (intro exI [of _ i] exI [of _ j]) simp
      then show ?thesis using Some True code by simp
    qed
  next
    case notab: False
    show ?thesis
    proof (cases "\<not> is_present (pde (ram k) d (of_nat i)) \<and> \<not> is_requested (pde (ram k) d (of_nat i))")
      case True
      then have "first_slot (ram k) d i (page_at i 0)"
        unfolding first_slot_def using i(1) by (intro exI [of _ i] exI [of _ 0]) (simp add: slot_free_def)
      then show ?thesis using True code by simp
    next
      case False
      then show ?thesis using notab code by (intro skip) (auto simp: slot_free_def)
    qed
  qed
qed

lemma first_slot_unused:
  assumes "page_aligned d" "first_slot m d 1 va"
  shows "unused m d va \<and> (\<forall>w. unused m d w \<longrightarrow> va \<le> w)"
proof -
  obtain i j where s: "1 \<le> i" "i < 1024" "j < 1024" "va = page_at i j" "slot_free m d i j"
    "\<forall>l < j. \<not> slot_free m d i l" "\<forall>i'' \<in> {1..<i}. \<forall>l < 1024. \<not> slot_free m d i'' l"
    using assms(2) unfolding first_slot_def by blast
  have "va \<le> w" if u: "unused m d w" for w
  proof -
    obtain i' j' where w: "1 \<le> i'" "i' < 1024" "j' < 1024" "w = page_at i' j'"
      using unused_page [OF u] by blast
    then have f: "slot_free m d i' j'" using unused_slot [OF assms(1) w(1-3)] u by simp
    have "\<not> i' < i" using s(7) f w(1,3) by auto
    moreover have "i' = i \<longrightarrow> \<not> j' < j" using s(6) f by auto
    ultimately have "4194304 * i + 4096 * j \<le> 4194304 * i' + 4096 * j'" using s(3) w(3) by (cases "i' = i") auto
    then show ?thesis using built_address(1) [OF s(2,3)] built_address(1) [OF w(2,3)] s(4) w(4) by (simp add: word_le_nat_alt)
  qed
  then show ?thesis using unused_slot [OF assms(1) s(1-3)] s(4,5) by simp
qed

text \<open>C15. As long as the task has a page at or above 4 MB that is neither mapped nor reserved, \<open>sys_palloc\<close>
  returns the lowest such page and marks it as reserved. Nothing is mapped: no address changes its
  translation and no frame is taken; the frame comes with the first access. When there is no such page it
  returns NULL and changes nothing.\<close>

theorem palloc_reserves_fresh_page:
  assumes "dir_wf (ram k) (reg_cr3 k) A"
  shows "if \<exists>w. unused (ram k) (reg_cr3 k) w
     then \<exists>va m. sys_palloc k = (va, k\<lparr>ram := m\<rparr>) \<and> unused (ram k) (reg_cr3 k) va \<and>
        (\<forall>w. unused (ram k) (reg_cr3 k) w \<longrightarrow> va \<le> w) \<and> reserved m (reg_cr3 k) va \<and>
        dir_wf m (reg_cr3 k) A \<and> walk m (reg_cr3 k) = walk (ram k) (reg_cr3 k)
     else sys_palloc k = (0, k)"
proof -
  let ?m = "ram k" and ?d = "reg_cr3 k"
  have d: "page_aligned ?d" by (rule dir_wf_aligned(1) [OF assms])
  have p: "palloc_post ?d A k (sys_palloc k)"
    unfolding sys_palloc_def by (rule palloc_dir_ok [OF assms]) simp
  from palloc_dir_first [of 1 k ?d] consider
      (some) "first_slot ?m ?d 1 (fst (sys_palloc k))"
    | (none) "sys_palloc k = (0, k)" "\<forall>i \<in> {1..<1024}. \<forall>l < 1024. \<not> slot_free ?m ?d i l"
    unfolding sys_palloc_def by fastforce
  then show ?thesis
  proof cases
    case some
    note u = first_slot_unused [OF d some]
    then have "sys_palloc k \<noteq> (0, k)" by (auto simp: unused_def)
    then obtain m where "snd (sys_palloc k) = k\<lparr>ram := m\<rparr>" "reserved m ?d (fst (sys_palloc k))"
      "dir_wf m ?d A" "\<forall>w. walk m ?d w = walk ?m ?d w"
      using p unfolding palloc_post_def by blast
    then have "\<exists>va m. sys_palloc k = (va, k\<lparr>ram := m\<rparr>) \<and> unused ?m ?d va \<and> (\<forall>w. unused ?m ?d w \<longrightarrow> va \<le> w) \<and>
        reserved m ?d va \<and> dir_wf m ?d A \<and> walk m ?d = walk ?m ?d"
      using u by (intro exI [of _ "fst (sys_palloc k)"] exI [of _ m]) (auto simp: prod_eq_iff)
    then show ?thesis using u by auto
  next
    case none
    then have "\<not> unused ?m ?d w" for w
      using unused_page [of ?m ?d w] unused_slot [OF d] by (metis atLeastLessThan_iff)
    then show ?thesis using none(1) by simp
  qed
qed

theorem palloc_reserves_fresh_page_witness:
  "\<exists>d k0 k va m. mm_dir_new mem_boot = Some (d, k0) \<and> k = k0\<lparr>reg_cr3 := d\<rparr> \<and>
     sys_palloc k = (va, k\<lparr>ram := m\<rparr>) \<and> page_aligned va \<and> 4194304 \<le> unat va \<and> walk (ram k) d va = None \<and>
     \<not> reserved (ram k) d va \<and> reserved m d va"
proof -
  obtain d k A where b: "mm_dir_new mem_boot = Some (d, k)" "dir_wf (ram k) d A"
    "\<forall>i. index_ok i \<and> i \<noteq> 0 \<longrightarrow> pde (ram k) d i = 0" using boot_dir by metis
  have "pde (ram k) d 1 = 0" using b(3) index_of_nat [of 1] by simp
  then have "slot_free (ram k) d 1 0" by (simp add: slot_free_def is_present_def is_requested_def)
  then have "unused (ram k) d (page_at 1 0)" using unused_slot [OF dir_wf_aligned(1) [OF b(2)], of 1 0] by simp
  then have "\<exists>w. unused (ram (k\<lparr>reg_cr3 := d\<rparr>)) (reg_cr3 (k\<lparr>reg_cr3 := d\<rparr>)) w" by auto
  moreover have "dir_wf (ram (k\<lparr>reg_cr3 := d\<rparr>)) (reg_cr3 (k\<lparr>reg_cr3 := d\<rparr>)) A" using b(2) by simp
  ultimately obtain va m where "sys_palloc (k\<lparr>reg_cr3 := d\<rparr>) = (va, k\<lparr>reg_cr3 := d, ram := m\<rparr>)"
    "unused (ram k) d va" "reserved m d va"
    using palloc_reserves_fresh_page [of "k\<lparr>reg_cr3 := d\<rparr>" A] by auto
  then show ?thesis using b(1) by (auto simp: unused_def)
qed

text \<open>C8. The first access to a reserved page gives it a free user frame: the handler returns to the
  task, the page is mapped to the frame and no other page changes, and no memory outside of the
  kernel's frames is written.\<close>

theorem page_fault_serves_reserved:
  assumes "dir_wf (ram k) d A" and "kernel_pool k A" and "usr_pool n k B" "B \<noteq> {}" and "reg_cr3 k = d"
    and "reserved (ram k) d va" and "has_table (ram k) d (pdi va) \<or> A \<noteq> {}"
  shows "\<exists>k' pt A'. isr_page_fault_c va err k = Some (Resume k') \<and> pt \<in> B \<and> usr_pool n k' (B - {pt}) \<and>
     kernel_pool k' A' \<and> dir_wf (ram k') d A' \<and> in_panic k' = in_panic k \<and>
     (\<forall>w. walk (ram k') d w = (if base w = base va then Some (base pt OR (w AND 0xFFF)) else walk (ram k) d w)) \<and>
     (\<forall>b. base b \<notin> kernel_frames \<longrightarrow> ram k' b = ram k b)"
  using demand_page [OF assms, of err] unfolding mapped_at_def by blast

lemma palloc_first:
  assumes "page_aligned d" and "reg_cr3 k = d" and "pde (ram k) d 1 = 0"
  shows "sys_palloc k = (0x400000, k\<lparr>ram := wr32 (ram k) (entry d 1) (set_attr 0 MM_ATTR_REQ)\<rparr>)"
proof -
  have "get32 k (entry d 1) = 0" using assms(3) by (simp add: get32_def pde_def)
  then show ?thesis
    using assms(2) unfolding sys_palloc_def
    by (subst palloc_dir.simps) (simp add: TABLE_ENTRY_NUM_def Let_def attr_of_def put32_def PAGE_SIZE_def)
qed

theorem page_fault_serves_reserved_witness:
  "\<exists>d k0 k1. mm_dir_new mem_boot = Some (d, k0) \<and> sys_palloc (k0\<lparr>reg_cr3 := d\<rparr>) = (0x400000, k1) \<and>
     (\<exists>k' pt B. isr_page_fault_c 0x400000 4 k1 = Some (Resume k') \<and> pt \<in> B \<and> usr_pool 96 k' (B - {pt}) \<and>
        walk (ram k') d 0x400000 = Some (base pt OR (0x400000 AND 0xFFF)))"
proof -
  obtain d k A where b: "mm_dir_new mem_boot = Some (d, k)" "dir_wf (ram k) d A" "kernel_pool k A" "card A = 767"
    "pde (ram k) d 0 = 0x81" "\<forall>i. index_ok i \<and> i \<noteq> 0 \<longrightarrow> pde (ram k) d i = 0" "mem_step mem_boot k" "A \<noteq> {}"
    using boot_dir by metis
  have i: "index_ok 1" "(1 :: u32) \<noteq> 0" "pdi 0x400000 = 1" by (simp_all add: index_ok_def pdi_def)
  then have z: "pde (ram k) d 1 = 0" using b(6) by blast
  have np: "\<not> is_present (pde (ram k) d 1)" by (simp add: z is_present_def)
  note s = set_absent_pde [OF b(2) i(1) np, where v = "set_attr 0 MM_ATTR_REQ", OF set_attr_req(1)]
  define k1 where "k1 = k\<lparr>reg_cr3 := d, ram := wr32 (ram k) (entry d 1) (set_attr 0 MM_ATTR_REQ)\<rparr>"
  have p: "sys_palloc (k\<lparr>reg_cr3 := d\<rparr>) = (0x400000, k1)"
    using palloc_first [of d "k\<lparr>reg_cr3 := d\<rparr>"] z dir_wf_aligned(1) [OF b(2)] by (simp add: k1_def)
  have wf: "dir_wf (ram k1) d A" "kernel_pool k1 A" "reg_cr3 k1 = d"
    using s(1) b(3) by (simp_all add: k1_def kernel_pool_def)
  have r: "reserved (ram k1) d 0x400000"
    using s(3) [OF i(1)] i(3) set_attr_req by (simp add: reserved_def k1_def)
  have "usr_pool 96 k1 (usr_frames 96)"
    using mem_step_fields(3,4) [OF b(7)] by (intro usr_pool_fresh) (simp_all add: k1_def mem_boot_def)
  moreover have "usr_frames 96 \<noteq> {}" by (simp add: usr_frames_def lessThan_empty_iff)
  ultimately have "\<exists>k' pt A'. isr_page_fault_c 0x400000 4 k1 = Some (Resume k') \<and> pt \<in> usr_frames 96 \<and> usr_pool 96 k' (usr_frames 96 - {pt}) \<and>
     kernel_pool k' A' \<and> dir_wf (ram k') d A' \<and> in_panic k' = in_panic k1 \<and>
     (\<forall>w. walk (ram k') d w = (if base w = base 0x400000 then Some (base pt OR (w AND 0xFFF)) else walk (ram k1) d w)) \<and>
     (\<forall>b. base b \<notin> kernel_frames \<longrightarrow> ram k' b = ram k1 b)"
    using page_fault_serves_reserved [OF wf(1,2) _ _ wf(3) r] b(8) by blast
  then show ?thesis using b(1) p by fastforce
qed

text \<open>A task with one page: the state in which the last two properties are instantiated.\<close>

definition one_page_task :: "(u32 \<times> u32 \<times> faultk) option" where
  "one_page_task = do {
     (d, k) \<leftarrow> mm_dir_new mem_boot;
     (p, k) \<leftarrow> mm_mem_alloc k;
     (_, k) \<leftarrow> mm_page_map 0x400000 d p 0 USR_STD_ATTR k;
     Some (d, p, k\<lparr>reg_cr3 := d\<rparr>) }"

lemma one_page_task_facts:
  obtains d p k A where "one_page_task = Some (d, p, k)" "dir_wf (ram k) d A" "kernel_pool k A" "card A \<ge> 766"
    "reg_cr3 k = d" "pde (ram k) d 0 = 0x81" "\<forall>i. index_ok i \<and> i \<noteq> 0 \<and> i \<noteq> 1 \<longrightarrow> pde (ram k) d i = 0"
    "has_table (ram k) d 1" "rd32 (ram k) (entry (table (ram k) d 1) 0) = p OR (USR_STD_ATTR OR 1)" "page_aligned p"
    "p \<in> usr_frames 96" "usr_pool 96 k (usr_frames 96 - {p})" "task_table k = task_table mem_boot"
proof -
  obtain d k A where b: "mm_dir_new mem_boot = Some (d, k)" "dir_wf (ram k) d A" "kernel_pool k A" "card A = 767"
    "pde (ram k) d 0 = 0x81" "\<forall>i. index_ok i \<and> i \<noteq> 0 \<longrightarrow> pde (ram k) d i = 0" "mem_step mem_boot k" "A \<noteq> {}"
    using boot_dir by metis
  have u: "usr_pool 96 k (usr_frames 96)"
    using mem_step_fields(3,4) [OF b(7)] by (intro usr_pool_fresh) (simp_all add: mem_boot_def)
  have "usr_frames 96 \<noteq> {}" by (simp add: usr_frames_def lessThan_empty_iff)
  then obtain p pfi where p: "mm_mem_alloc k = Some (p, k\<lparr>usr_pf_info := pfi\<rparr>)" "p \<in> usr_frames 96"
    "usr_pool 96 (k\<lparr>usr_pf_info := pfi\<rparr>) (usr_frames 96 - {p})" "page_aligned p"
    using usr_alloc_spec [OF u] by blast
  let ?k = "k\<lparr>usr_pf_info := pfi\<rparr>"
  have i: "pdi 0x400000 = 1" "pti 0x400000 = 0" "index_ok 0" "index_ok 1" by (simp_all add: pdi_def pti_def index_ok_def)
  have "\<not> is_present (pde (ram ?k) d (pdi 0x400000))" using b(6) i by (simp add: is_present_def)
  moreover have "dir_wf (ram ?k) d A" "kernel_pool ?k A" using b(2,3) by (simp_all add: kernel_pool_def)
  ultimately obtain k' A' where m: "mm_page_map 0x400000 d p 0 USR_STD_ATTR ?k = Some (entry (table (ram k') d (pdi 0x400000)) (pti 0x400000), k')"
    "mem_step ?k k'" "kernel_pool k' A'" "dir_wf (ram k') d A'" "card A \<le> Suc (card A')" "has_table (ram k') d (pdi 0x400000)"
    "rd32 (ram k') (entry (table (ram k') d (pdi 0x400000)) (pti 0x400000)) = base p OR (USR_STD_ATTR OR 1)"
    "\<forall>i. index_ok i \<and> (i \<noteq> pdi 0x400000 \<or> has_table (ram ?k) d (pdi 0x400000)) \<longrightarrow> pde (ram k') d i = pde (ram ?k) d i"
    using page_map_ok [of ?k d A "0x400000" USR_STD_ATTR p] std_attr b(8) by blast
  show thesis
  proof (rule that)
    show "one_page_task = Some (d, p, k'\<lparr>reg_cr3 := d\<rparr>)" using b(1) p(1) m(1) by (simp add: one_page_task_def)
    show "dir_wf (ram (k'\<lparr>reg_cr3 := d\<rparr>)) d A'" "kernel_pool (k'\<lparr>reg_cr3 := d\<rparr>) A'" "card A' \<ge> 766"
      using m(3,4,5) b(4) by (simp_all add: kernel_pool_def)
    show "has_table (ram (k'\<lparr>reg_cr3 := d\<rparr>)) d 1"
      "rd32 (ram (k'\<lparr>reg_cr3 := d\<rparr>)) (entry (table (ram (k'\<lparr>reg_cr3 := d\<rparr>)) d 1) 0) = p OR (USR_STD_ATTR OR 1)"
      using m(6,7) i p(4) by simp_all
    show "pde (ram (k'\<lparr>reg_cr3 := d\<rparr>)) d 0 = 0x81" using m(8) i b(5) by simp
    show "\<forall>i. index_ok i \<and> i \<noteq> 0 \<and> i \<noteq> 1 \<longrightarrow> pde (ram (k'\<lparr>reg_cr3 := d\<rparr>)) d i = 0" using m(8) i b(6) by simp
    show "usr_pool 96 (k'\<lparr>reg_cr3 := d\<rparr>) (usr_frames 96 - {p})"
      using p(3) mem_step_fields(3,4) [OF m(2)] by (simp add: usr_pool_def)
    show "task_table (k'\<lparr>reg_cr3 := d\<rparr>) = task_table mem_boot"
      using mem_step_fields(2) [OF m(2)] mem_step_fields(2) [OF b(7)] by simp
  qed (use p in simp_all)
qed

text \<open>C7. A user write to a copy-on-write page that other tasks also map gives the faulting task a
  free frame with the same contents, writable; every other page of the task except the temporary
  page of the kernel, and every byte outside of the kernel's frames and the new frame, stays as it
  was, so the other tasks still see the old contents.\<close>

theorem cow_fault_copies_page:
  assumes "dir_wf (ram k) d A" and "kernel_pool k A" and "usr_pool n k B" "B \<noteq> {}" and "reg_cr3 k = d"
    and "length (task_table k) = MAX_PID"
    and "has_table (ram k) d (pdi temp) \<or> \<not> is_present (pde (ram k) d (pdi temp)) \<and> A \<noteq> {} \<and> pdi va \<noteq> pdi temp"
    and "has_table (ram k) d (pdi va)" and "base va \<noteq> temp"
    and "e = entry (table (ram k) d (pdi va)) (pti va)"
    and "is_present (rd32 (ram k) e)" and "is_copy_on_write (rd32 (ram k) e)"
    and "base (rd32 (ram k) e) \<notin> kernel_frames" and "base (rd32 (ram k) e) \<notin> B"
    and "maps_count k (base (rd32 (ram k) e)) (pdi va) (pti va) \<noteq> 1"
  shows "\<exists>k' pt. isr_page_fault_c va PF_ERROR_READ_ONLY k = Some (Resume k') \<and> pt \<in> B \<and> usr_pool n k' (B - {pt}) \<and>
     rd32 (ram k') e = pt OR (USR_STD_ATTR OR 1) \<and>
     (\<forall>i < 4096. walk (ram k') d (base va + of_nat i) = Some (pt + of_nat i) \<and>
        ram k' (pt + of_nat i) = ram k (base (rd32 (ram k) e) + of_nat i)) \<and>
     (\<forall>w. base w \<noteq> base va \<and> base w \<noteq> temp \<longrightarrow> walk (ram k') d w = walk (ram k) d w) \<and>
     (\<forall>b. base b \<notin> kernel_frames \<and> base b \<noteq> pt \<longrightarrow> ram k' b = ram k b)"
proof -
  have c: "isr_page_fault_c va PF_ERROR_READ_ONLY k = map_option (Resume \<circ> snd) (mm_copy_on_write_page e (pdi va) (pti va) k)"
    using cow_fault [OF assms(5) dir_wf_aligned(1) [OF assms(1)] assms(8)] assms(10-12) by simp
  obtain k' pt where "mm_copy_on_write_page e (pdi va) (pti va) k = Some (0, k')" "pt \<in> B" "usr_pool n k' (B - {pt})"
     "\<forall>i < 4096. walk (ram k') d (base va + of_nat i) = Some (pt + of_nat i)"
     "\<forall>i < 4096. ram k' (pt + of_nat i) = ram k (base (rd32 (ram k) e) + of_nat i)"
     "\<forall>w. base w \<noteq> base va \<and> base w \<noteq> temp \<longrightarrow> walk (ram k') d w = walk (ram k) d w"
     "\<forall>b. base b \<notin> kernel_frames \<and> base b \<noteq> pt \<longrightarrow> ram k' b = ram k b"
     "rd32 (ram k') e = pt OR (USR_STD_ATTR OR 1)"
    using cow_copies [OF assms(1-9)] assms(11,13-15) unfolding assms(10) by blast
  then show ?thesis unfolding c by (intro exI [of _ k'] exI [of _ pt]) simp
qed

section \<open>Fork\<close>

text \<open>C6. \<open>mm_dir_fork\<close> copies an address space: the new directory translates every address to the frame
  that the parent's does (no page is copied), the parent's translations do not change, the two share no
  page table. The attributes do change: every present page above 4 MB that is not marked shared has lost
  its write permission and become copy on write in both. No memory outside of the kernel's frames is
  written.\<close>

theorem fork_copies_address_space:
  assumes "dir_wf (ram k) d A" and "kernel_pool k A" and "pde (ram k) d 0 = 0x81"
    and "\<forall>j. index_ok j \<and> j \<noteq> 0 \<and> is_present (pde (ram k) d j) \<longrightarrow> has_table (ram k) d j"
    and "card (todo (ram k) d 1) < card A"
  shows "\<exists>c k' A'. mm_dir_fork d k = Some (c, k') \<and> walk (ram k') c = walk (ram k) d \<and> walk (ram k') d = walk (ram k) d \<and>
     dir_wf (ram k') c A' \<and> dir_wf (ram k') d A' \<and> kernel_pool k' A' \<and>
     paging_pages (ram k') d \<inter> paging_pages (ram k') c = {} \<and>
     (\<forall>i j. index_ok i \<and> i \<noteq> 0 \<and> has_table (ram k) d i \<and> index_ok j \<and>
        is_present (rd32 (ram k) (entry (table (ram k) d i) j)) \<longrightarrow>
        rd32 (ram k') (entry (table (ram k') d i) j) = fork_pte (rd32 (ram k) (entry (table (ram k) d i) j)) \<and>
        rd32 (ram k') (entry (table (ram k') c i) j) = fork_pte (rd32 (ram k) (entry (table (ram k) d i) j))) \<and>
     (\<forall>b. base b \<notin> kernel_frames \<longrightarrow> ram k' b = ram k b)"
proof -
  obtain c k' A' where f: "mm_dir_fork d k = Some (c, k')" "kernel_pool k' A'" "dir_wf (ram k') d A'" "dir_wf (ram k') c A'"
    "paging_pages (ram k') d \<inter> paging_pages (ram k') c = {}" "walk (ram k') c = walk (ram k) d"
    "walk (ram k') d = walk (ram k) d" "forked (ram k) d c 1024 (ram k')"
    "\<forall>b. base b \<notin> kernel_frames \<longrightarrow> ram k' b = ram k b"
    using dir_fork_ok [OF assms] by blast
  have "rd32 (ram k') (entry (table (ram k') d i) j) = fork_pte (rd32 (ram k) (entry (table (ram k) d i) j)) \<and>
        rd32 (ram k') (entry (table (ram k') c i) j) = fork_pte (rd32 (ram k) (entry (table (ram k) d i) j))"
    if i: "index_ok i \<and> i \<noteq> 0 \<and> has_table (ram k) d i \<and> index_ok j \<and>
        is_present (rd32 (ram k) (entry (table (ram k) d i) j))" for i j
  proof -
    have "table (ram k') d i = table (ram k) d i" using forkedD(1) [OF f(8), of i] i by (simp add: table_def)
    then show ?thesis
      using forkedD(2) [OF f(8), of i j] forkedD(4) [OF f(8), of i j] i
      by (simp add: old_pte_def forked_entry_def index_ok_def)
  qed
  then show ?thesis using f by blast
qed


lemma one_page_fork:
  obtains d p k A where "one_page_task = Some (d, p, k)" "dir_wf (ram k) d A" "kernel_pool k A" "pde (ram k) d 0 = 0x81"
    "\<forall>j. index_ok j \<and> j \<noteq> 0 \<and> is_present (pde (ram k) d j) \<longrightarrow> has_table (ram k) d j"
    "card (todo (ram k) d 1) < card A" "has_table (ram k) d 1" "card A \<ge> 766" "reg_cr3 k = d" "card (todo (ram k) d 1) \<le> 1"
    "\<forall>i. index_ok i \<and> i \<noteq> 0 \<and> i \<noteq> 1 \<longrightarrow> pde (ram k) d i = 0"
    "rd32 (ram k) (entry (table (ram k) d 1) 0) = p OR (USR_STD_ATTR OR 1)" "page_aligned p"
    "p \<in> usr_frames 96" "usr_pool 96 k (usr_frames 96 - {p})" "task_table k = task_table mem_boot"
proof -
  obtain d p k A where o: "one_page_task = Some (d, p, k)" "dir_wf (ram k) d A" "kernel_pool k A" "card A \<ge> 766"
    "reg_cr3 k = d" "pde (ram k) d 0 = 0x81" "\<forall>i. index_ok i \<and> i \<noteq> 0 \<and> i \<noteq> 1 \<longrightarrow> pde (ram k) d i = 0"
    "has_table (ram k) d 1" "rd32 (ram k) (entry (table (ram k) d 1) 0) = p OR (USR_STD_ATTR OR 1)" "page_aligned p"
    "p \<in> usr_frames 96" "usr_pool 96 k (usr_frames 96 - {p})" "task_table k = task_table mem_boot"
    using one_page_task_facts by metis
  have s: "\<forall>j. index_ok j \<and> j \<noteq> 0 \<and> is_present (pde (ram k) d j) \<longrightarrow> has_table (ram k) d j"
  proof (intro allI impI)
    fix j assume j: "index_ok j \<and> j \<noteq> 0 \<and> is_present (pde (ram k) d j)"
    show "has_table (ram k) d j"
    proof (cases "j = 1")
      case False
      then have "pde (ram k) d j = 0" using j o(7) by blast
      then show ?thesis using j by (simp add: is_present_def)
    qed (use o(8) in simp)
  qed
  have "todo (ram k) d 1 \<subseteq> {1}"
  proof
    fix j assume "j \<in> todo (ram k) d 1"
    then have j: "1 \<le> j" "j < 1024" "has_table (ram k) d (of_nat j)" by (auto simp: todo_def)
    have "of_nat j = (1 :: u32)"
    proof (rule ccontr)
      assume "of_nat j \<noteq> (1 :: u32)"
      moreover have "of_nat j \<noteq> (0 :: u32)" using index_of_nat(2) [OF j(2)] j(1) by auto
      ultimately have "pde (ram k) d (of_nat j) = 0" using o(7) index_of_nat(1) [OF j(2)] by blast
      then show False using j(3) by (simp add: has_table_def is_present_def)
    qed
    then have "unat (of_nat j :: u32) = 1" by simp
    then show "j \<in> {1}" using index_of_nat(2) [OF j(2)] by simp
  qed
  then have "card (todo (ram k) d 1) \<le> card {1 :: nat}" by (intro card_mono) auto
  then have "card (todo (ram k) d 1) \<le> 1" "card (todo (ram k) d 1) < card A" using o(4) by simp_all
  then show thesis using that o s by blast
qed

theorem fork_copies_address_space_witness:
  "\<exists>d p k. one_page_task = Some (d, p, k) \<and> has_table (ram k) d 1 \<and>
     (\<exists>c k'. mm_dir_fork d k = Some (c, k') \<and> walk (ram k') c = walk (ram k) d \<and> walk (ram k') d = walk (ram k) d \<and>
        rd32 (ram k') (entry (table (ram k') c 1) 0) = fork_pte (p OR (USR_STD_ATTR OR 1)))"
proof -
  obtain d p k A where o: "one_page_task = Some (d, p, k)" "dir_wf (ram k) d A" "kernel_pool k A" "pde (ram k) d 0 = 0x81"
    "\<forall>j. index_ok j \<and> j \<noteq> 0 \<and> is_present (pde (ram k) d j) \<longrightarrow> has_table (ram k) d j"
    "card (todo (ram k) d 1) < card A" "has_table (ram k) d 1"
    "rd32 (ram k) (entry (table (ram k) d 1) 0) = p OR (USR_STD_ATTR OR 1)" "page_aligned p"
    using one_page_fork by metis
  have i: "index_ok 1" "index_ok 0" "(1 :: u32) \<noteq> 0" by (simp_all add: index_ok_def)
  have pr: "is_present (rd32 (ram k) (entry (table (ram k) d 1) 0))"
    using o(8) or_attr_bits(1) [OF o(9) std_attr] by simp
  obtain c k' where f: "mm_dir_fork d k = Some (c, k')" "walk (ram k') c = walk (ram k) d" "walk (ram k') d = walk (ram k) d"
     "\<forall>i j. index_ok i \<and> i \<noteq> 0 \<and> has_table (ram k) d i \<and> index_ok j \<and>
        is_present (rd32 (ram k) (entry (table (ram k) d i) j)) \<longrightarrow>
        rd32 (ram k') (entry (table (ram k') d i) j) = fork_pte (rd32 (ram k) (entry (table (ram k) d i) j)) \<and>
        rd32 (ram k') (entry (table (ram k') c i) j) = fork_pte (rd32 (ram k) (entry (table (ram k) d i) j))"
    using fork_copies_address_space [OF o(2-6)] by blast
  then have "rd32 (ram k') (entry (table (ram k') c 1) 0) = fork_pte (p OR (USR_STD_ATTR OR 1))"
    using i o(7) pr o(8) by metis
  then show ?thesis using o(1,7) f(1-3) by blast
qed

text \<open>Parent and child of that task, both in the task table: the first write of the parent.\<close>

theorem cow_fault_copies_page_witness:
  "\<exists>d p k c k1. one_page_task = Some (d, p, k) \<and> mm_dir_fork d k = Some (c, k1) \<and>
     (\<exists>k' pt. isr_page_fault_c 0x400000 PF_ERROR_READ_ONLY
          (k1\<lparr>task_table := (task_table k1)[1 := \<lparr>q_next = 0, q_prev = 0, cr3 = d, esp0 = 0\<rparr>,
                                          2 := \<lparr>q_next = 0, q_prev = 0, cr3 = c, esp0 = 0\<rparr>]\<rparr>) = Some (Resume k') \<and>
        pt \<noteq> p \<and> walk (ram k') d 0x400000 = Some pt \<and> (\<forall>i < 4096. ram k' (pt + of_nat i) = ram k1 (p + of_nat i)))"
proof -
  obtain d p k A where o: "one_page_task = Some (d, p, k)" "dir_wf (ram k) d A" "kernel_pool k A" "pde (ram k) d 0 = 0x81"
    "\<forall>j. index_ok j \<and> j \<noteq> 0 \<and> is_present (pde (ram k) d j) \<longrightarrow> has_table (ram k) d j"
    "card (todo (ram k) d 1) < card A" "has_table (ram k) d 1" "card A \<ge> 766" "reg_cr3 k = d" "card (todo (ram k) d 1) \<le> 1"
    "\<forall>i. index_ok i \<and> i \<noteq> 0 \<and> i \<noteq> 1 \<longrightarrow> pde (ram k) d i = 0"
    "rd32 (ram k) (entry (table (ram k) d 1) 0) = p OR (USR_STD_ATTR OR 1)" "page_aligned p"
    "p \<in> usr_frames 96" "usr_pool 96 k (usr_frames 96 - {p})" "task_table k = task_table mem_boot"
    by (rule one_page_fork)
  obtain c k1 A' where f: "mm_dir_fork d k = Some (c, k1)" "c \<in> A" "mem_step k k1" "kernel_pool k1 A'"
    "dir_wf (ram k1) d A'" "dir_wf (ram k1) c A'" "forked (ram k) d c 1024 (ram k1)" "A' \<subseteq> A - {c}"
    "card A \<le> Suc (card A' + card (todo (ram k) d 1))"
    using dir_fork_ok [OF o(2-6)] by blast
  have i: "index_ok 1" "index_ok 0" "(1 :: u32) \<noteq> 0" "unat (1 :: u32) < 1024" by (simp_all add: index_ok_def)
  have "unat temp = 4294963200" by (simp add: KERNEL_TEMP_PAGE_def)
  then have pi: "pdi 0x400000 = 1" "pti 0x400000 = 0" "pdi temp = 1023" "base 0x400000 \<noteq> temp" "index_ok 1023"
    by (simp_all add: pdi_def pti_def KERNEL_TEMP_PAGE_def base_def index_ok_def)
  let ?e = "p OR (USR_STD_ATTR OR 1)"
  have pr: "is_present ?e" "base ?e = p" using or_attr_bits [OF o(13) std_attr] by simp_all
  have old: "old_pte (ram k) d 1 0 = ?e" using o(12) by (simp add: old_pte_def)
  have pd: "pde (ram k1) d j = pde (ram k) d j" if "index_ok j" for j using forkedD(1) [OF f(7) that] .
  then have t: "has_table (ram k1) d 1" "table (ram k1) d 1 = table (ram k) d 1"
    using o(7) i by (simp_all add: has_table_def table_def)
  have tc: "rd32 (ram k1) (entry (table (ram k1) d 1) 0) = fork_pte ?e"
      "rd32 (ram k1) (entry (table (ram k1) c 1) 0) = fork_pte ?e"
    using forkedD(2) [OF f(7) i(1,2,3) o(7)] forkedD(4) [OF f(7) i(1,3) i(4) o(7) i(2)] pr t i(4)
    by (simp_all add: old forked_entry_def)
  let ?tt = "(task_table k1)[1 := \<lparr>q_next = 0, q_prev = 0, cr3 = d, esp0 = 0\<rparr>,
                             2 := \<lparr>q_next = 0, q_prev = 0, cr3 = c, esp0 = 0\<rparr>]"
  let ?k = "k1\<lparr>task_table := ?tt\<rparr>"
  have len: "length (task_table k1) = 32"
    using mem_step_fields(2) [OF f(3)] o(16) by (simp add: mem_boot_def MAX_PID_def)
  have nz: "d \<noteq> 0" "c \<noteq> 0" "base d = d" "base c = c"
    using kernel_frame_facts dir_wf_aligned [OF f(5)] dir_wf_aligned [OF f(6)] by auto
  have many: "maps_count ?k p 1 0 \<noteq> 1"
  proof -
    let ?S = "{q. q < MAX_PID \<and> cr3 (task_table ?k ! q) \<noteq> 0 \<and>
     base (rd32 (ram ?k) (entry (table (ram ?k) (base (cr3 (task_table ?k ! q))) 1) 0)) = p}"
    have "{1, 2} \<subseteq> ?S" using nz tc pr len by (auto simp: MAX_PID_def fork_pte_facts)
    then have "card {1, 2 :: nat} \<le> card ?S" by (intro card_mono) auto
    then show ?thesis by (simp add: maps_count_def)
  qed
  have "card A' \<noteq> 0" using f(9) o(8,10) by linarith
  then have ne: "A' \<noteq> {}" by auto
  have bne: "usr_frames 96 - {p} \<noteq> {}"
  proof -
    have "card (usr_frames 96 - {p}) = 3039" using card_usr_frames [of 96] o(14) by simp
    then show ?thesis by (metis card.empty zero_neq_numeral)
  qed
  have cow: "is_copy_on_write (fork_pte ?e)" using fork_pte_cow [OF std_not_shared [OF o(13)]] by simp
  have "\<exists>k' pt. isr_page_fault_c 0x400000 PF_ERROR_READ_ONLY ?k = Some (Resume k') \<and> pt \<in> usr_frames 96 - {p} \<and>
     usr_pool 96 k' (usr_frames 96 - {p} - {pt}) \<and>
     rd32 (ram k') (entry (table (ram ?k) d (pdi 0x400000)) (pti 0x400000)) = pt OR (USR_STD_ATTR OR 1) \<and>
     (\<forall>i < 4096. walk (ram k') d (base 0x400000 + of_nat i) = Some (pt + of_nat i) \<and>
        ram k' (pt + of_nat i) = ram ?k (base (rd32 (ram ?k) (entry (table (ram ?k) d (pdi 0x400000)) (pti 0x400000))) + of_nat i)) \<and>
     (\<forall>w. base w \<noteq> base 0x400000 \<and> base w \<noteq> temp \<longrightarrow> walk (ram k') d w = walk (ram ?k) d w) \<and>
     (\<forall>b. base b \<notin> kernel_frames \<and> base b \<noteq> pt \<longrightarrow> ram k' b = ram ?k b)"
  proof (rule cow_fault_copies_page [OF _ _ _ bne _ _ _ _ pi(4) refl])
    show "dir_wf (ram ?k) d A'" "kernel_pool ?k A'" using f(4,5) by (simp_all add: kernel_pool_def)
    show "usr_pool 96 ?k (usr_frames 96 - {p})"
      using o(15) mem_step_fields(3,4) [OF f(3)] by (simp add: usr_pool_def)
    show "reg_cr3 ?k = d" using o(9) mem_step_fields(1) [OF f(3)] by simp
    show "length (task_table ?k) = MAX_PID" using len by (simp add: MAX_PID_def)
    show "has_table (ram ?k) d (pdi temp) \<or> \<not> is_present (pde (ram ?k) d (pdi temp)) \<and> A' \<noteq> {} \<and> pdi 0x400000 \<noteq> pdi temp"
      using ne pi pd [of 1023] o(11) by (simp add: is_present_def)
    show "has_table (ram ?k) d (pdi 0x400000)" using t pi by simp
    show "is_present (rd32 (ram ?k) (entry (table (ram ?k) d (pdi 0x400000)) (pti 0x400000)))"
      using tc pi pr by (simp add: fork_pte_facts)
    show "is_copy_on_write (rd32 (ram ?k) (entry (table (ram ?k) d (pdi 0x400000)) (pti 0x400000)))"
      using tc pi cow by simp
    show "base (rd32 (ram ?k) (entry (table (ram ?k) d (pdi 0x400000)) (pti 0x400000))) \<notin> kernel_frames"
      using tc pi pr usr_frame_facts(2) [OF o(14)] by (simp add: fork_pte_facts)
    show "base (rd32 (ram ?k) (entry (table (ram ?k) d (pdi 0x400000)) (pti 0x400000))) \<notin> usr_frames 96 - {p}"
      using tc pi pr by (simp add: fork_pte_facts)
    show "maps_count ?k (base (rd32 (ram ?k) (entry (table (ram ?k) d (pdi 0x400000)) (pti 0x400000))))
       (pdi 0x400000) (pti 0x400000) \<noteq> 1"
      using tc pi pr many by (simp add: fork_pte_facts)
  qed
  then obtain k' pt where r: "isr_page_fault_c 0x400000 PF_ERROR_READ_ONLY ?k = Some (Resume k')" "pt \<noteq> p"
    "\<forall>i < 4096. walk (ram k') d (base 0x400000 + of_nat i) = Some (pt + of_nat i) \<and> ram k' (pt + of_nat i) = ram k1 (p + of_nat i)"
    using tc pi pr by (auto simp: fork_pte_facts)
  have "walk (ram k') d (base 0x400000 + of_nat 0) = Some (pt + of_nat 0)" using r(3) by fastforce
  then have "walk (ram k') d 0x400000 = Some pt" by (simp add: base_def)
  then show ?thesis using o(1) f(1) r by blast
qed

end
