(* ===== verification/Spaces.thy ===== *)
theory Spaces
  imports Fork
begin

text \<open>
  The address spaces of all processes at once. \<open>spaces m D A\<close> says that every directory in \<open>D\<close> is
  well formed, that none of them uses a free kernel frame of \<open>A\<close>, and that no two of them share a
  page of their structure. Mapping, unmapping, copying a page and forking in one of them leave the
  translations of all the others alone.
\<close>

definition spaces :: "ram \<Rightarrow> u32 set \<Rightarrow> u32 set \<Rightarrow> bool" where
  "spaces m D A \<longleftrightarrow> (\<forall>d \<in> D. dir_wf m d A) \<and>
     (\<forall>d \<in> D. \<forall>e \<in> D. d \<noteq> e \<longrightarrow> paging_pages m d \<inter> paging_pages m e = {})"

lemma spacesD:
  assumes "spaces m D A"
  shows "d \<in> D \<Longrightarrow> dir_wf m d A"
    and "d \<in> D \<Longrightarrow> e \<in> D \<Longrightarrow> d \<noteq> e \<Longrightarrow> b \<in> paging_pages m d \<Longrightarrow> b \<notin> paging_pages m e"
    and "d \<in> D \<Longrightarrow> b \<in> paging_pages m d \<Longrightarrow> b \<in> kernel_frames \<and> b \<notin> A"
  using assms paging_pages_kernel [of m d A] by (fastforce simp: spaces_def)+

text \<open>The frames that hold the directories and tables of \<open>D\<close> or are free to hold one: those, of the kernel's
  frames, that a change to the structures may write. The other ones, in use for a console, a pipe, a file or
  something else, are not among them.\<close>

definition paging_frames :: "ram \<Rightarrow> u32 set \<Rightarrow> u32 set \<Rightarrow> u32 set" where
  "paging_frames m D A = A \<union> (\<Union>d \<in> D. paging_pages m d)"

lemma paging_frames_kernel: "spaces m D A \<Longrightarrow> A \<subseteq> kernel_frames \<Longrightarrow> paging_frames m D A \<subseteq> kernel_frames"
  using spacesD(3) by (fastforce simp: paging_frames_def)

lemma paging_framesI: "base b \<notin> paging_frames m D A \<Longrightarrow> d \<in> D \<Longrightarrow> base b \<notin> paging_pages m d \<and> base b \<notin> A"
  by (auto simp: paging_frames_def)

lemma dir_wf_mono: "dir_wf m d A \<Longrightarrow> A' \<subseteq> A \<Longrightarrow> dir_wf m d A'"
  by (rule dir_wf_cong) auto

text \<open>The same entries in the directory: the same tables.\<close>

lemma same_entries:
  assumes "\<And>i. index_ok i \<Longrightarrow> pde m' d i = pde m d i"
  shows "paging_pages m' d = paging_pages m d" and "index_ok i \<Longrightarrow> has_table m' d i = has_table m d i"
    and "index_ok i \<Longrightarrow> table m' d i = table m d i"
proof -
  have h: "has_table m' d i = has_table m d i" "table m' d i = table m d i" if "index_ok i" for i
    using assms [OF that] by (simp_all add: has_table_def table_def)
  then show "index_ok i \<Longrightarrow> has_table m' d i = has_table m d i" "index_ok i \<Longrightarrow> table m' d i = table m d i" by simp_all
  have "tabled m' d = tabled m d" using h by (auto simp: tabled_def)
  moreover have "table m' d ` tabled m d = table m d ` tabled m d"
    using h by (intro image_cong refl) (simp add: tabled_def)
  ultimately show "paging_pages m' d = paging_pages m d" by (simp add: paging_pages_def)
qed

section \<open>Changes inside one directory\<close>

text \<open>A change to the structure of \<open>d\<close>, which may also have taken pages from \<open>A\<close>.\<close>

lemma spaces_change:
  assumes sp: "spaces m D A" and d: "d \<in> D" and wf: "dir_wf m' d A'" and sub: "A' \<subseteq> A"
    and pp: "paging_pages m' d \<subseteq> paging_pages m d \<union> A"
    and fr: "\<And>b. base b \<notin> paging_pages m d \<Longrightarrow> base b \<notin> A \<Longrightarrow> m' b = m b"
  shows "spaces m' D A'" and "e \<in> D \<Longrightarrow> e \<noteq> d \<Longrightarrow> walk m' e = walk m e"
    and "e \<in> D \<Longrightarrow> e \<noteq> d \<Longrightarrow> index_ok i \<Longrightarrow> pde m' e i = pde m e i"
    and "paging_frames m' D A' \<subseteq> paging_frames m D A"
proof -
  have same: "m' b = m b" if "e \<in> D" "e \<noteq> d" "base b \<in> paging_pages m e" for b e
    using spacesD(2) [OF sp that(1) d that(2,3)] spacesD(3) [OF sp that(1,3)] by (intro fr) auto
  note dw = data_write [OF spacesD(1) [OF sp] same]
  show "e \<in> D \<Longrightarrow> e \<noteq> d \<Longrightarrow> walk m' e = walk m e" using dw(2) [of e] by (intro ext) auto
  show "e \<in> D \<Longrightarrow> e \<noteq> d \<Longrightarrow> index_ok i \<Longrightarrow> pde m' e i = pde m e i" using dw(4) [of e] by auto
  have pe: "paging_pages m' e = paging_pages m e" if "e \<in> D" "e \<noteq> d" for e using dw(3) [of e] that by auto
  have w: "dir_wf m' e A'" if "e \<in> D" for e
    using dw(1) [of e] wf that dir_wf_mono [OF _ sub] by (cases "e = d") auto
  have "paging_pages m' d \<inter> paging_pages m' e = {}" if "e \<in> D" "e \<noteq> d" for e
    unfolding pe [OF that] using pp spacesD(2) [OF sp that(1) d that(2)] spacesD(3) [OF sp that(1)] by blast
  moreover have "paging_pages m' e \<inter> paging_pages m' f = {}" if "e \<in> D" "f \<in> D" "e \<noteq> f" "e \<noteq> d" "f \<noteq> d" for e f
    unfolding pe [OF that(1,4)] pe [OF that(2,5)] using spacesD(2) [OF sp that(1,2,3)] by blast
  ultimately have "paging_pages m' e \<inter> paging_pages m' f = {}" if "e \<in> D" "f \<in> D" "e \<noteq> f" for e f
    using that by (cases "e = d"; cases "f = d") (auto simp: Int_commute)
  then show "spaces m' D A'" using w by (simp add: spaces_def)
  have "paging_pages m' e \<subseteq> paging_frames m D A" if "e \<in> D" for e
    using pe [OF that] pp that d by (cases "e = d") (auto simp: paging_frames_def)
  then show "paging_frames m' D A' \<subseteq> paging_frames m D A" using sub by (auto simp: paging_frames_def)
qed

text \<open>Data written outside of the structures.\<close>

lemma spaces_data:
  assumes sp: "spaces m D A" and same: "\<And>b. base b \<in> kernel_frames \<Longrightarrow> m' b = m b"
  shows "spaces m' D A" and "d \<in> D \<Longrightarrow> walk m' d = walk m d" and "d \<in> D \<Longrightarrow> index_ok i \<Longrightarrow> pde m' d i = pde m d i"
    and "d \<in> D \<Longrightarrow> index_ok i \<Longrightarrow> has_table m' d i = has_table m d i"
    and "paging_frames m' D A = paging_frames m D A"
proof -
  have s: "m' b = m b" if "d \<in> D" "base b \<in> paging_pages m d" for b d
    using spacesD(3) [OF sp that] same by simp
  note dw = data_write [OF spacesD(1) [OF sp] s]
  show "d \<in> D \<Longrightarrow> walk m' d = walk m d" using dw(2) [of d] by (intro ext) auto
  show p: "d \<in> D \<Longrightarrow> index_ok i \<Longrightarrow> pde m' d i = pde m d i" for d i using dw(4) [of d] by auto
  then show "d \<in> D \<Longrightarrow> index_ok i \<Longrightarrow> has_table m' d i = has_table m d i" by (simp add: has_table_def)
  have pe: "paging_pages m' d = paging_pages m d" if "d \<in> D" for d using dw(3) [of d] that by auto
  then show "paging_frames m' D A = paging_frames m D A" by (simp add: paging_frames_def)
  note pe
  moreover have "dir_wf m' d A" if "d \<in> D" for d using dw(1) [of d] that by auto
  ultimately show "spaces m' D A" using sp by (simp add: spaces_def)
qed

section \<open>Mapping\<close>

text \<open>What a sequence of such changes keeps.\<close>

definition space_step :: "u32 set \<Rightarrow> 'a mmk_scheme \<Rightarrow> u32 set \<Rightarrow> 'a mmk_scheme \<Rightarrow> u32 set \<Rightarrow> bool" where
  "space_step D k A k' A' \<longleftrightarrow> mem_step k k' \<and> kernel_pool k' A' \<and> A' \<subseteq> A \<and> spaces (ram k') D A' \<and>
     (\<forall>e \<in> D. \<forall>i. index_ok i \<and> has_table (ram k) e i \<longrightarrow> has_table (ram k') e i) \<and>
     paging_frames (ram k') D A' \<subseteq> paging_frames (ram k) D A"

lemma space_stepD:
  assumes "space_step D k A k' A'"
  shows "mem_step k k'" "kernel_pool k' A'" "A' \<subseteq> A" "spaces (ram k') D A'"
    "e \<in> D \<Longrightarrow> index_ok i \<Longrightarrow> has_table (ram k) e i \<Longrightarrow> has_table (ram k') e i" "reg_cr3 k' = reg_cr3 k"
    "paging_frames (ram k') D A' \<subseteq> paging_frames (ram k) D A"
  using assms mem_step_fields(1) [of k k'] by (auto simp: space_step_def)

lemma space_step_trans: "space_step D k A k1 A1 \<Longrightarrow> space_step D k1 A1 k2 A2 \<Longrightarrow> space_step D k A k2 A2"
  using mem_step_trans by (fastforce simp: space_step_def)

lemma space_step_frame:
  assumes "space_step D k A k' A'" "base b \<notin> paging_frames (ram k) D A"
  shows "base b \<notin> paging_frames (ram k') D A'"
  using space_stepD(7) [OF assms(1)] assms(2) by blast

lemma spaces_map:
  assumes sp: "spaces (ram k) D A" and pool: "kernel_pool k A" and d: "d \<in> D"
    and slot: "has_table (ram k) d (pdi va) \<or> \<not> is_present (pde (ram k) d (pdi va)) \<and> A \<noteq> {}"
    and a: "attr AND NOT 0xFFF = 0" "attr AND MM_ATTR_SZ_4M = 0"
  shows "\<exists>e k' A'. mm_page_map va d pa 0 attr k = Some (e, k') \<and> space_step D k A k' A' \<and>
     card A \<le> Suc (card A') \<and> mapped_at (ram k) d va pa (ram k') \<and> (\<forall>e \<in> D. e \<noteq> d \<longrightarrow> walk (ram k') e = walk (ram k) e) \<and>
     has_table (ram k') d (pdi va) \<and> (has_table (ram k) d (pdi va) \<longrightarrow> A' = A) \<and>
     (\<forall>f \<in> D. \<forall>i. index_ok i \<and> (f \<noteq> d \<or> i \<noteq> pdi va) \<longrightarrow> pde (ram k') f i = pde (ram k) f i) \<and>
     (\<forall>b. base b \<notin> kernel_frames \<longrightarrow> ram k' b = ram k b) \<and>
     (\<forall>b. base b \<notin> paging_frames (ram k) D A \<longrightarrow> ram k' b = ram k b)"
proof -
  note wf = spacesD(1) [OF sp d]
  obtain k' A' where m: "mm_page_map va d pa 0 attr k = Some (entry (table (ram k') d (pdi va)) (pti va), k')"
    "mem_step k k'" "kernel_pool k' A'" "dir_wf (ram k') d A'" "A' \<subseteq> A" "card A \<le> Suc (card A')"
    "mapped_at (ram k) d va pa (ram k')" "has_table (ram k') d (pdi va)"
    "\<And>i. index_ok i \<Longrightarrow> i \<noteq> pdi va \<or> has_table (ram k) d (pdi va) \<Longrightarrow> pde (ram k') d i = pde (ram k) d i"
    and fr: "\<And>b. base b \<noteq> d \<Longrightarrow> base b \<notin> A - A' \<Longrightarrow> base b \<noteq> table (ram k') d (pdi va) \<Longrightarrow> ram k' b = ram k b"
    and t: "if has_table (ram k) d (pdi va) then A' = A else table (ram k') d (pdi va) \<in> A"
    using page_map_ok [OF wf pool slot a, of pa] by metis
  let ?t = "table (ram k') d (pdi va)"
  have tp: "?t \<in> paging_pages (ram k) d \<union> A"
  proof (cases "has_table (ram k) d (pdi va)")
    case True
    then have "?t = table (ram k) d (pdi va)" using m(9) [of "pdi va"] by (simp add: table_def)
    then show ?thesis using pages_of(1) [OF pdi_ok True] by simp
  qed (use t in simp)
  have pp: "paging_pages (ram k') d \<subseteq> paging_pages (ram k) d \<union> A"
  proof
    fix b assume "b \<in> paging_pages (ram k') d"
    then consider "b = d" | i where "index_ok i" "has_table (ram k') d i" "b = table (ram k') d i"
      by (auto simp: paging_pages_def tabled_def)
    then show "b \<in> paging_pages (ram k) d \<union> A"
    proof cases
      case 2
      show ?thesis
      proof (cases "i = pdi va")
        case False
        then have "has_table (ram k) d i" "b = table (ram k) d i"
          using 2 m(9) [of i] by (simp_all add: has_table_def table_def)
        then show ?thesis using pages_of(1) [OF 2(1)] by simp
      qed (use 2 tp in simp)
    qed (use pages_of(2) in simp)
  qed
  have fine: "ram k' b = ram k b" if "base b \<notin> paging_pages (ram k) d" "base b \<notin> A" for b
    using that tp pages_of(2) [of d "ram k"] by (intro fr) auto
  note ch = spaces_change [OF sp d m(4,5) pp fine]
  have "ram k' b = ram k b" if "base b \<notin> kernel_frames" for b
    using that spacesD(3) [OF sp d] kf.pool_sub [OF pool] tp by (intro fr) (auto simp: paging_pages_def)
  moreover have "has_table (ram k') e i" if "e \<in> D" "index_ok i" "has_table (ram k) e i" for e i
    using that m(8) m(9) [of i] ch(3) [of e i] by (cases "e = d"; cases "i = pdi va") (auto simp: has_table_def)
  moreover have pd: "pde (ram k') f i = pde (ram k) f i" if "f \<in> D" "index_ok i" "f \<noteq> d \<or> i \<noteq> pdi va" for f i
    using m(9) [of i] ch(3) [of f i] that by (cases "f = d") auto
  ultimately show ?thesis
    using m(1-8) pd ch(1,2,4) t fine paging_framesI [OF _ d]
    by (intro exI [of _ "entry ?t (pti va)"] exI [of _ k'] exI [of _ A']) (auto simp: space_step_def)
qed

section \<open>Unmapping and copying\<close>

lemma spaces_free:
  assumes sp: "spaces (ram k) D A" and d: "d \<in> D" and t: "has_table (ram k) d (pdi va)"
  shows "\<exists>r m. mm_page_free va d k = (r, k\<lparr>ram := m\<rparr>) \<and> spaces m D A \<and> unmapped_at (ram k) d va m \<and>
     (\<forall>e \<in> D. e \<noteq> d \<longrightarrow> walk m e = walk (ram k) e) \<and>
     (\<forall>e \<in> D. \<forall>i. index_ok i \<longrightarrow> has_table m e i = has_table (ram k) e i) \<and>
     (\<forall>b. base b \<notin> kernel_frames \<longrightarrow> m b = ram k b) \<and>
     (\<forall>b. base b \<notin> paging_frames (ram k) D A \<longrightarrow> m b = ram k b) \<and> paging_frames m D A \<subseteq> paging_frames (ram k) D A"
proof -
  note wf = spacesD(1) [OF sp d]
  let ?c = "entry (table (ram k) d (pdi va)) (pti va)"
  let ?m = "wr32 (ram k) ?c (rd32 (ram k) ?c AND NOT 1)"
  note f = page_free_ok [OF wf t]
  have p: "pde ?m d i = pde (ram k) d i" if "index_ok i" for i
    using pde_set_pte [OF wf t pdi_ok pti_ok that] .
  note se = same_entries [OF p]
  have tk: "table (ram k) d (pdi va) \<in> paging_pages (ram k) d" by (rule pages_of(1) [OF pdi_ok t])
  then have fr: "?m b = ram k b" if "base b \<notin> paging_pages (ram k) d" "base b \<notin> A" for b
    using that by (intro f(4)) auto
  have "paging_pages ?m d \<subseteq> paging_pages (ram k) d \<union> A" using se(1) by simp
  note ch = spaces_change [OF sp d f(2) order_refl this fr]
  have h: "has_table ?m e i = has_table (ram k) e i" if "e \<in> D" "index_ok i" for e i
    using that se(2) [of i] ch(3) [of e i] by (cases "e = d") (auto simp: has_table_def)
  have k: "?m b = ram k b" if "base b \<notin> kernel_frames" for b
    using that spacesD(3) [OF sp d tk] by (intro f(4)) auto
  show ?thesis
    by (rule exI [of _ "base (rd32 (ram k) ?c AND NOT 1)"], rule exI [of _ ?m])
      (use f(1,3) ch(1,2,4) h k fr paging_framesI [OF _ d] in simp)
qed

lemma temp_walk:
  assumes "mapped_at m d temp pt m'" "page_aligned pt" "i < 4096"
  shows "walk m' d (temp + of_nat i) = Some (pt + of_nat i)"
  using assms temp_facts offset_in_page [OF temp_facts(1) assms(3)] or_offset [OF assms(2,3)]
  by (simp add: mapped_at_def)

text \<open>\<open>mm_copy_vf\<close> of one page into a frame outside of the structures.\<close>

lemma spaces_copy:
  assumes sp: "spaces (ram k) D A" and pool: "kernel_pool k A" and d: "d \<in> D" "reg_cr3 k = d"
    and slot: "has_table (ram k) d (pdi temp) \<or> \<not> is_present (pde (ram k) d (pdi temp)) \<and> A \<noteq> {}"
    and v: "page_aligned v" "v \<noteq> temp"
    and src: "\<And>i. i < 4096 \<Longrightarrow> walk (ram k) d (v + of_nat i) = Some (ps + of_nat i)"
    and ps: "page_aligned ps" "ps \<notin> kernel_frames"
    and pt: "page_aligned pt" "pt \<notin> kernel_frames" "ps \<noteq> pt"
  shows "\<exists>k' A'. mm_copy_vf v pt PAGE_SIZE k = Some (0, k') \<and> space_step D k A k' A' \<and>
     unmapped_at (ram k) d temp (ram k') \<and> (\<forall>e \<in> D. e \<noteq> d \<longrightarrow> walk (ram k') e = walk (ram k) e) \<and>
     (\<forall>i < 4096. ram k' (pt + of_nat i) = ram k (ps + of_nat i)) \<and> has_table (ram k') d (pdi temp) \<and>
     (\<forall>b. base b \<notin> kernel_frames \<and> base b \<noteq> pt \<longrightarrow> ram k' b = ram k b) \<and>
     (\<forall>b. base b \<notin> paging_frames (ram k) D A \<and> base b \<noteq> pt \<longrightarrow> ram k' b = ram k b)"
proof -
  obtain e k1 A' where m: "mm_page_map temp d pt 0 (MM_ATTR_RW OR MM_ATTR_US_S) k = Some (e, k1)" "space_step D k A k1 A'"
    "mapped_at (ram k) d temp pt (ram k1)" "\<forall>e \<in> D. e \<noteq> d \<longrightarrow> walk (ram k1) e = walk (ram k) e"
    "has_table (ram k1) d (pdi temp)" "\<forall>b. base b \<notin> kernel_frames \<longrightarrow> ram k1 b = ram k b"
    "\<forall>b. base b \<notin> paging_frames (ram k) D A \<longrightarrow> ram k1 b = ram k b"
    using spaces_map [OF sp pool d(1) slot rw_attr, of pt] by blast
  note s1 = space_stepD [OF m(2)]
  have cr: "reg_cr3 k1 = d" using s1(6) d(2) by simp
  have src1: "walk (ram k1) d (v + of_nat i) = Some (ps + of_nat i)" if "i < 4096" for i
    using m(3) src [OF that] v temp_facts that by (simp add: mapped_at_def)
  have "pt \<notin> paging_pages (ram k1) d" using spacesD(3) [OF s1(4) d(1)] pt(2) by blast
  then obtain m2 where l: "for_range 0 4096 (\<lambda>i k. do { b \<leftarrow> vget k (v + of_nat i); vput (temp + of_nat i) b k }) k1 =
       Some (k1\<lparr>ram := m2\<rparr>)"
    "\<forall>i < 4096. m2 (pt + of_nat i) = ram k1 (ps + of_nat i)" "\<forall>b. base b \<noteq> pt \<longrightarrow> m2 b = ram k1 b"
    using copy_loop [OF spacesD(1) [OF s1(4) d(1)] cr order_refl src1 temp_walk [OF m(3) pt(1)] ps(1) pt(1,3)] by blast
  have "m2 b = ram k1 b" if "base b \<in> kernel_frames" for b using l(3) that pt(2) by auto
  note da = spaces_data [OF s1(4), of m2, OF this]
  let ?k2 = "k1\<lparr>ram := m2\<rparr>"
  have "spaces (ram ?k2) D A'" "has_table (ram ?k2) d (pdi temp)" using da(1,4) d(1) m(5) by simp_all
  from spaces_free [OF this(1) d(1) this(2)] obtain r m3 where f: "mm_page_free temp d ?k2 = (r, k1\<lparr>ram := m3\<rparr>)"
    "spaces m3 D A'" "unmapped_at m2 d temp m3" "\<forall>e \<in> D. e \<noteq> d \<longrightarrow> walk m3 e = walk m2 e"
    "\<forall>e \<in> D. \<forall>i. index_ok i \<longrightarrow> has_table m3 e i = has_table m2 e i"
    "\<forall>b. base b \<notin> kernel_frames \<longrightarrow> m3 b = m2 b"
    "\<forall>b. base b \<notin> paging_frames m2 D A' \<longrightarrow> m3 b = m2 b" "paging_frames m3 D A' \<subseteq> paging_frames m2 D A'" by auto
  let ?k3 = "k1\<lparr>ram := m3\<rparr>"
  have "mm_copy_vf v pt PAGE_SIZE k = Some (0, ?k3)"
    using one_page [OF v(1)] m(1) l(1) f(1) d(2) cr by (simp add: mm_copy_vf_def PAGE_SIZE_def split_def)
  moreover have "space_step D k A ?k3 A'"
    using s1 f(2,5,8) da(4,5) mem_step_trans [OF s1(1) mem_step_ram] by (auto simp: space_step_def)
  moreover have "unmapped_at (ram k) d temp m3"
    using f(3) m(3) da(2) [of d] d(1) by (auto simp: unmapped_at_def mapped_at_def)
  moreover have "walk m3 e = walk (ram k) e" if "e \<in> D" "e \<noteq> d" for e using f(4) da(2) m(4) that by simp
  moreover have "m3 (pt + of_nat i) = ram k (ps + of_nat i)" if "i < 4096" for i
    using f(6) l(2) m(6) that pt ps by simp
  moreover have "m3 b = ram k b" if "base b \<notin> kernel_frames" "base b \<noteq> pt" for b using f(6) l(3) m(6) that by simp
  moreover have "m3 b = ram k b" if "base b \<notin> paging_frames (ram k) D A" "base b \<noteq> pt" for b
    using f(7) da(5) space_step_frame [OF m(2) that(1)] l(3) m(7) that by simp
  moreover have "has_table m3 d (pdi temp)" using f(5) da(4) d(1) m(5) by simp
  ultimately show ?thesis by (intro exI [of _ ?k3] exI [of _ A']) simp
qed

section \<open>Fork\<close>

lemma spaces_fork:
  assumes sp: "spaces (ram k) D A" and pool: "kernel_pool k A" and d: "d \<in> D" and d0: "pde (ram k) d 0 = 0x81"
    and small: "\<forall>j. index_ok j \<and> j \<noteq> 0 \<and> is_present (pde (ram k) d j) \<longrightarrow> has_table (ram k) d j"
    and frames: "card (todo (ram k) d 1) < card A"
  shows "\<exists>c k' A'. mm_dir_fork d k = Some (c, k') \<and> c \<in> A \<and> c \<noteq> 0 \<and> space_step D k A k' A' \<and> spaces (ram k') (insert c D) A' \<and>
     walk (ram k') c = walk (ram k) d \<and> (\<forall>e \<in> D. walk (ram k') e = walk (ram k) e) \<and>
     (\<forall>i. index_ok i \<and> i \<noteq> 0 \<and> has_table (ram k) d i \<longrightarrow> has_table (ram k') c i) \<and>
     (\<forall>b. base b \<notin> kernel_frames \<longrightarrow> ram k' b = ram k b) \<and>
     (\<forall>b. base b \<notin> paging_frames (ram k) D A \<longrightarrow> ram k' b = ram k b) \<and>
     paging_frames (ram k') (insert c D) A' \<subseteq> paging_frames (ram k) D A"
proof -
  obtain c k' A' where f: "mm_dir_fork d k = Some (c, k')" "c \<in> A" "A' \<subseteq> A - {c}" "mem_step k k'" "kernel_pool k' A'"
    "dir_wf (ram k') d A'" "dir_wf (ram k') c A'" "paging_pages (ram k') d \<inter> paging_pages (ram k') c = {}"
    "walk (ram k') c = walk (ram k) d" "walk (ram k') d = walk (ram k) d" "forked (ram k) d c 1024 (ram k')"
    "\<forall>b. base b \<notin> kernel_frames \<longrightarrow> ram k' b = ram k b" "paging_pages (ram k') c \<subseteq> A"
    "\<And>b. base b \<notin> paging_pages (ram k) d \<Longrightarrow> base b \<notin> A \<Longrightarrow> ram k' b = ram k b"
    using dir_fork_ok [OF spacesD(1) [OF sp d] pool d0 small frames] by metis
  note se = same_entries [OF forkedD(1) [OF f(11)]]
  have sub: "A' \<subseteq> A" using f(3) by blast
  have "paging_pages (ram k') d \<subseteq> paging_pages (ram k) d \<union> A" using se(1) by simp
  note ch = spaces_change [OF sp d f(6) sub this f(14)]
  have pe: "paging_pages (ram k') e = paging_pages (ram k) e" if "e \<in> D" for e
    using se(1) same_entries(1) [of "ram k'" e "ram k"] ch(3) [of e] that by (cases "e = d") auto
  have dj: "paging_pages (ram k') e \<inter> paging_pages (ram k') c = {}" if "e \<in> D" for e
    using f(13) spacesD(3) [OF sp that] unfolding pe [OF that] by blast
  have "spaces (ram k') (insert c D) A'"
    using ch(1) f(7) dj by (auto simp: spaces_def Int_commute)
  moreover have "has_table (ram k') e i" if "e \<in> D" "index_ok i" "has_table (ram k) e i" for e i
    using that se(2) ch(3) [of e i] by (cases "e = d") (auto simp: has_table_def)
  then have "space_step D k A k' A'" using f(4,5) sub ch(1,4) by (auto simp: space_step_def)
  moreover have "paging_frames (ram k') (insert c D) A' \<subseteq> paging_frames (ram k) D A"
    using ch(4) f(13) by (auto simp: paging_frames_def)
  moreover have "ram k' b = ram k b" if "base b \<notin> paging_frames (ram k) D A" for b
    using f(14) paging_framesI [OF that d] by simp
  moreover have "walk (ram k') e = walk (ram k) e" if "e \<in> D" for e using f(10) ch(2) that by (cases "e = d") auto
  moreover have "has_table (ram k') c i" if "index_ok i" "i \<noteq> 0" "has_table (ram k) d i" for i
    using forkedD(3) [OF f(11) that(1,2)] that by (simp add: index_ok_def)
  moreover have "c \<noteq> 0" using kernel_frame_facts kf.pool_sub [OF pool] f(2) by blast
  ultimately show ?thesis using f(1,2,9,12) by (intro exI [of _ c] exI [of _ k'] exI [of _ A']) auto
qed

end
