(* ===== verification/Io.thy ===== *)
theory Io
  imports Fault
begin

text \<open>
  The instructions of include/i386.h that talk to the hardware. The model records every byte written
  to a port, in order, and reads from ports the bytes that the hardware delivers, a list given with
  the initial state: what the devices answer is not code of this repository. A read when the list is
  empty is \<open>None\<close>; a loop that polls a port is therefore \<open>None\<close> when the device never answers.
\<close>

record iok = faultk +
  outs :: "(u32 \<times> u8) list"
  inp :: "u8 list"
  eflags :: u32

definition outb :: "u32 \<Rightarrow> u8 \<Rightarrow> 'a iok_scheme \<Rightarrow> 'a iok_scheme" where
  "outb port data k = k\<lparr>outs := outs k @ [(port, data)]\<rparr>"

definition inb_port :: "u32 \<Rightarrow> 'a iok_scheme \<Rightarrow> (u8 \<times> 'a iok_scheme) option" where
  "inb_port port k = (case inp k of [] \<Rightarrow> None | b # bs \<Rightarrow> Some (b, k\<lparr>inp := bs\<rparr>))"

text \<open>Bit 9 of the flags register is the interrupt flag.\<close>

definition cli :: "'a iok_scheme \<Rightarrow> 'a iok_scheme" where
  "cli k = k\<lparr>eflags := UNSET_BIT (eflags k) 9\<rparr>"

definition sti :: "'a iok_scheme \<Rightarrow> 'a iok_scheme" where
  "sti k = k\<lparr>eflags := SET_BIT (eflags k) 9\<rparr>"

definition reflags :: "'a iok_scheme \<Rightarrow> u16" where
  "reflags k = ucast (eflags k)"

lemma outs_simps [simp]:
  "outs (outb p d k) = outs k @ [(p, d)]" "inp (outb p d k) = inp k" "eflags (outb p d k) = eflags k"
  "outs (cli k) = outs k" "inp (cli k) = inp k" "outs (sti k) = outs k" "inp (sti k) = inp k"
  by (simp_all add: outb_def cli_def sti_def)

end
