(* ===== verification/Lib_Str.thy ===== *)
theory Lib_Str
  imports Prelude
begin

text \<open>
  The string library, kernel/lib_str.c. A string is the array of bytes its pointer points at; a
  pointer into it is a suffix of that array or an index, as in the code. Reading or writing past
  the array, dividing by zero and not returning are \<open>None\<close>. The loops whose counter only walks along
  an array count in \<open>nat\<close>; the numbers they convert are machine words, with the signedness C gives
  each comparison and division.
\<close>

type_synonym str = "u8 list"

definition nget :: "'a list \<Rightarrow> nat \<Rightarrow> 'a option" where
  "nget xs i = (if i < length xs then Some (xs ! i) else None)"

definition nput :: "'a list \<Rightarrow> nat \<Rightarrow> 'a \<Rightarrow> 'a list option" where
  "nput xs i v = (if i < length xs then Some (xs[i := v]) else None)"

section \<open>Copying and comparing\<close>

function strncpy_from :: "str \<Rightarrow> str \<Rightarrow> u32 \<Rightarrow> nat \<Rightarrow> (nat \<times> str) option" where
  "strncpy_from dest src count i =
     (if (count = 0 \<or> i < unat count) \<and> i < length src then do {
        dest \<leftarrow> nput dest i (src ! i);
        if src ! i = 0 then Some (i, dest) else strncpy_from dest src count (i + 1) }
      else if count = 0 \<or> i < unat count then None
      else Some (i, dest))"
  by pat_completeness auto
termination
  by (relation "measure (\<lambda>(dest, src, count, i). length src - i)") auto

declare strncpy_from.simps [simp del]

definition strncpy :: "str \<Rightarrow> str \<Rightarrow> u32 \<Rightarrow> (nat \<times> str) option" where
  "strncpy dest src count = strncpy_from dest src count 0"

fun strcmp :: "str \<Rightarrow> str \<Rightarrow> int option" where
  "strcmp (p # ps) (q # qs) =
     (if p \<noteq> 0 \<and> q \<noteq> 0 \<and> p = q then strcmp ps qs
      else Some (if p \<noteq> 0 then (if q \<noteq> 0 then sint p - sint q else 1) else if q \<noteq> 0 then -1 else 0))"
| "strcmp _ _ = None"

fun strncmp :: "str \<Rightarrow> str \<Rightarrow> nat \<Rightarrow> int option" where
  "strncmp _ _ 0 = Some 0"
| "strncmp (p # ps) (q # qs) (Suc n) =
     (if p \<noteq> 0 \<and> q \<noteq> 0 \<and> p = q then strncmp ps qs n
      else Some (if p \<noteq> 0 then (if q \<noteq> 0 then sint p - sint q else 1) else if q \<noteq> 0 then -1 else 0))"
| "strncmp _ _ _ = None"

fun strlen :: "str \<Rightarrow> nat option" where
  "strlen [] = None"
| "strlen (c # s) = (if c \<noteq> 0 then map_option Suc (strlen s) else Some 0)"

text \<open>\<open>strchr\<close> returns an index, or -1. The character searched for is an \<open>int\<close>, compared signed.\<close>

function strchr_from :: "str \<Rightarrow> int \<Rightarrow> nat \<Rightarrow> int option" where
  "strchr_from s c i = do {
     n \<leftarrow> strlen s;
     if i < n then (if sint (s ! i) = c then Some (int i) else strchr_from s c (i + 1)) else Some (-1) }"
  by pat_completeness auto
termination
  by (relation "measure (\<lambda>(s, c, i). the (strlen s) - i)") auto

declare strchr_from.simps [simp del]

definition strchr :: "str \<Rightarrow> int \<Rightarrow> int option" where
  "strchr s c = strchr_from s c 0"

section \<open>Numbers into strings\<close>

text \<open>
  \<open>num_into_string\<close>: the first loop looks for the power of the base of the leading digit. The
  comparison is unsigned, because \<open>num\<close> is; a power that wraps to zero divides by zero.
\<close>

partial_function (option) grow_acum :: "u32 \<Rightarrow> u32 \<Rightarrow> u32 \<Rightarrow> u32 option" where
  "grow_acum num base acum =
     (if acum = 0 then None
      else if num div acum \<ge> base then grow_acum num base (acum * base) else Some acum)"

declare grow_acum.simps [code]

text \<open>\<open>"0123456789ABCDEF"\<close>, with its final NUL.\<close>

definition digits :: str where
  "digits = [48, 49, 50, 51, 52, 53, 54, 55, 56, 57, 65, 66, 67, 68, 69, 70, 0]"

text \<open>The second loop: here \<open>acum\<close> and \<open>base\<close> are both \<open>int\<close>, compared and divided signed.\<close>

partial_function (option) emit_digits :: "str \<Rightarrow> nat \<Rightarrow> u32 \<Rightarrow> u32 \<Rightarrow> u32 \<Rightarrow> (str \<times> nat) option" where
  "emit_digits s index num base acum =
     (if base \<le>s acum then
        (if acum = 0 \<or> base = 0 then None
         else do {
           d \<leftarrow> nget digits (unat (num div acum));
           s \<leftarrow> nput s index d;
           emit_digits s (index + 1) (num - num div acum * acum) base
             (word_of_int (sint acum sdiv sint base)) })
      else do {
        d \<leftarrow> nget digits (unat num);
        s \<leftarrow> nput s index d;
        Some (s, index + 1) })"

declare emit_digits.simps [code]

definition num_into_string :: "str \<Rightarrow> nat \<Rightarrow> u32 \<Rightarrow> u32 \<Rightarrow> (str \<times> nat) option" where
  "num_into_string s index num base = do {
     acum \<leftarrow> grow_acum num base 1;
     emit_digits s index num base acum }"

definition dec_into_string :: "str \<Rightarrow> nat \<Rightarrow> u32 \<Rightarrow> (str \<times> nat) option" where
  "dec_into_string s index num =
     (if num <s 0 then do {
        s \<leftarrow> nput s index 45;
        num_into_string s (index + 1) (- num) 10 }
      else num_into_string s index num 10)"

definition hex_into_string :: "str \<Rightarrow> nat \<Rightarrow> u32 \<Rightarrow> (str \<times> nat) option" where
  "hex_into_string s index num = num_into_string s index num 16"

text \<open>The predicted lengths.\<close>

partial_function (option) grow_len :: "u32 \<Rightarrow> u32 \<Rightarrow> nat \<Rightarrow> u32 \<Rightarrow> nat option" where
  "grow_len num base dignum acum =
     (if acum = 0 then None
      else if num div acum \<ge> base then grow_len num base (dignum + 1) (acum * base) else Some dignum)"

declare grow_len.simps [code]

definition num_into_string_len :: "u32 \<Rightarrow> u32 \<Rightarrow> nat option" where
  "num_into_string_len num base = grow_len num base 1 base"

definition dec_into_string_len :: "u32 \<Rightarrow> nat option" where
  "dec_into_string_len num =
     (if num <s 0 then map_option Suc (num_into_string_len num 10) else num_into_string_len num 10)"

definition hex_into_string_len :: "u32 \<Rightarrow> nat option" where
  "hex_into_string_len num = num_into_string_len num 16"

section \<open>Characters and strings into strings\<close>

definition char_into_string :: "str \<Rightarrow> nat \<Rightarrow> u8 \<Rightarrow> (str \<times> nat) option" where
  "char_into_string s index c = do { s \<leftarrow> nput s index c; Some (s, index + 1) }"

fun put_bytes :: "str \<Rightarrow> nat \<Rightarrow> str \<Rightarrow> (str \<times> nat) option" where
  "put_bytes s index [] = Some (s, index)"
| "put_bytes s index (c # cs) = do { s \<leftarrow> nput s index c; put_bytes s (index + 1) cs }"

definition str_into_string :: "str \<Rightarrow> nat \<Rightarrow> str \<Rightarrow> (str \<times> nat) option" where
  "str_into_string s index str2 = do { len \<leftarrow> strlen str2; put_bytes s index (take len str2) }"

definition mayuscula :: "int \<Rightarrow> int" where
  "mayuscula c = (if c \<ge> 97 \<and> c \<le> 122 then c - (97 - 65) else c)"

function str_convert_to_mayus :: "str \<Rightarrow> nat \<Rightarrow> nat \<Rightarrow> str option" where
  "str_convert_to_mayus s from to =
     (if from < to then do {
        c \<leftarrow> nget s from;
        s \<leftarrow> nput s from (word_of_int (mayuscula (sint c)));
        str_convert_to_mayus s (from + 1) to }
      else Some s)"
  by pat_completeness auto
termination
  by (relation "measure (\<lambda>(s, from, to). to - from)") auto

declare str_convert_to_mayus.simps [simp del]

section \<open>Strings into numbers\<close>

text \<open>The tests of the first loop of \<open>str_into_num\<close>; \<open>base\<close> is unsigned, and so are the comparisons with it.\<close>

definition is_digit_of :: "u8 \<Rightarrow> u32 \<Rightarrow> bool" where
  "is_digit_of c base \<longleftrightarrow>
     (sint c \<ge> 0x30 \<and> sint c < 0x3A \<and> scast c - 0x30 < base) \<or>
     (sint c \<ge> 0x41 \<and> sint c < 0x47 \<and> scast c + 10 < base + 0x41) \<or>
     (sint c \<ge> 0x61 \<and> sint c < 0x67 \<and> scast c + 10 < base + 0x61)"

function scan_digits :: "str \<Rightarrow> u32 \<Rightarrow> u32 \<Rightarrow> nat \<Rightarrow> nat option" where
  "scan_digits s len base count =
     (if len = 0 \<or> count < unat len then
        (if count < length s then
           (if is_digit_of (s ! count) base then scan_digits s len base (count + 1) else Some count)
         else None)
      else Some count)"
  by pat_completeness auto
termination
  by (relation "measure (\<lambda>(s, len, base, count). length s - count)") auto

declare scan_digits.simps [simp del]

definition digit_value :: "u8 \<Rightarrow> u32" where
  "digit_value c =
     (if sint c \<ge> 0x61 \<and> sint c < 0x67 then scast c - 0x61 + 10
      else if sint c \<ge> 0x41 \<and> sint c < 0x47 then scast c - 0x41 + 10
      else scast c - 0x30)"

text \<open>The last loop, over the digits found. \<open>acum\<close> is divided unsigned, by the unsigned base.\<close>

fun sum_digits :: "str \<Rightarrow> u32 \<Rightarrow> u32 \<Rightarrow> u32 \<Rightarrow> u32" where
  "sum_digits [] base acum num = num"
| "sum_digits (c # cs) base acum num = sum_digits cs base (acum div base) (num + digit_value c * acum)"

definition str_into_num :: "str \<Rightarrow> u32 \<Rightarrow> u32 \<Rightarrow> (int \<times> u32) option" where
  "str_into_num s len base = do {
     count \<leftarrow> scan_digits s len base 0;
     if count = 0 then Some (-1, 0)
     else Some (int count, sum_digits (take count s) base (base ^ (count - 1)) 0) }"

definition str_into_dec :: "str \<Rightarrow> u32 \<Rightarrow> (int \<times> u32) option" where
  "str_into_dec s len = do {
     c \<leftarrow> nget s 0;
     if c = 45 then do { (ret, num) \<leftarrow> str_into_num (drop 1 s) len 10; Some (ret, - num) }
     else str_into_num s len 10 }"

definition str_into_hex :: "str \<Rightarrow> u32 \<Rightarrow> (int \<times> u32) option" where
  "str_into_hex s len = do {
     c \<leftarrow> nget s 0;
     hex \<leftarrow> (if c = 48 then do { c \<leftarrow> nget s 1; Some (c = 120) } else Some False);
     if hex then str_into_num (drop 2 s) len 16 else str_into_num s len 16 }"

end
