(* ===== verification/Device.thy ===== *)
theory Device
  imports Io Lib_Str
begin

text \<open>
  Devices, kernel/device.c, and the structures of the device headers (device.h, con.h, serial.h,
  pipe.h, proc.h). The kernel allocates each structure in a kernel page and passes its address
  around; in the model \<open>objs\<close> maps such an address to the structure, apart from the bytes of \<open>ram\<close>. It is
  there from the call that makes it until the page is given back (\<open>drop_obj\<close>); after that, as where no
  structure was made, an operation on it has no result. So a store over the bytes of a structure, or a
  use of a freed page, is not something the model can follow. Every structure starts with a
  \<open>chardev\<close> header, whose function pointers are values of \<open>dev_fn\<close>, None for NULL. The bytes a
  structure shares with the rest of its page (a console's screen, a pipe's buffer, a file's first
  sectors) are in \<open>ram\<close>, at their offset.

  The table of file descriptors is an array of 32 rows, one per pid, of 32 pointers.
\<close>

section \<open>Structures\<close>

datatype dev_fn = Con_read | Con_write | Con_flush | Serial_read | Serial_write | Serial_flush
  | File_read | File_write | File_seek | File_flush | Pipe_read | Pipe_write | Pipe_flush
  | Cpuid_read | Cpuid_flush

record chardev =
  clase :: u32
  refcount :: u32
  fn_flush :: "dev_fn option"
  fn_read :: "dev_fn option"
  fn_write :: "dev_fn option"
  fn_seek :: "dev_fn option"

record chardev_console =
  con_dev :: chardev
  con_next :: u32
  con_prev :: u32
  con_fila :: u8
  con_columna :: u8
  con_style :: u8
  last_ps1_fila :: u8
  ps1_width :: u8
  con_buff :: str
  buff_index_start :: u8
  buff_index_end :: u8
  buff_cant :: u8
  con_busy :: u8
  read_expected :: u8
  con_sem :: sem

record chardev_serial =
  serial_dev :: chardev
  serial_port :: u32

record pipedev =
  pipe_dev :: chardev
  pipe_type :: u8
  pipe_other :: u32
  buffer_size :: u32
  pipe_cursor :: u32
  buffer_cant :: u32
  pipe_buffer :: u32
  pipe_page :: u32
  pipe_busy :: u8
  pipe_sem :: sem

record chardev_file =
  file_dev :: chardev
  file_cursor :: u32
  file_name :: str
  file_size :: u32
  cur_page :: u32
  cur_sectors :: u32
  more_pages :: u32
  data_pages :: "u32 list"

record proc_cpuid_dev =
  cpuid_chardev :: chardev
  cpuid_fp :: u16
  cpuid_buff :: str \<comment> \<open>the bytes that \<open>buff\<close> points at\<close>
  cpuid_busy :: u16

datatype obj = Con chardev_console | Serial chardev_serial | Pipe pipedev | File chardev_file
  | Cpuid proc_cpuid_dev

fun hdr :: "obj \<Rightarrow> chardev" where
  "hdr (Con c) = con_dev c"
| "hdr (Serial s) = serial_dev s"
| "hdr (Pipe p) = pipe_dev p"
| "hdr (File f) = file_dev f"
| "hdr (Cpuid c) = cpuid_chardev c"

fun map_hdr :: "(chardev \<Rightarrow> chardev) \<Rightarrow> obj \<Rightarrow> obj" where
  "map_hdr g (Con c) = Con (c\<lparr>con_dev := g (con_dev c)\<rparr>)"
| "map_hdr g (Serial s) = Serial (s\<lparr>serial_dev := g (serial_dev s)\<rparr>)"
| "map_hdr g (Pipe p) = Pipe (p\<lparr>pipe_dev := g (pipe_dev p)\<rparr>)"
| "map_hdr g (File f) = File (f\<lparr>file_dev := g (file_dev f)\<rparr>)"
| "map_hdr g (Cpuid c) = Cpuid (c\<lparr>cpuid_chardev := g (cpuid_chardev c)\<rparr>)"

definition MAX_FD :: nat where "MAX_FD = 32"
definition DEV_ID_PROC_CPUID :: u32 where "DEV_ID_PROC_CPUID = 0xA"
definition DEV_ID_CHAR_CON :: u32 where "DEV_ID_CHAR_CON = 0xC"
definition DEV_ID_CHAR_FILE :: u32 where "DEV_ID_CHAR_FILE = 0xE"
definition DEV_ID_CHAR_PIPE :: u32 where "DEV_ID_CHAR_PIPE = 0xF"
definition DEV_ERROR_NOFD :: u32 where "DEV_ERROR_NOFD = - 5"
definition ENOSYS :: u32 where "ENOSYS = 1"

text \<open>The descriptor table; \<open>objs\<close> is the contents of the pages that hold device structures.\<close>

record devk = iok +
  char_devices :: "u32 list list"
  objs :: "u32 \<Rightarrow> obj option"

definition put_obj :: "u32 \<Rightarrow> obj \<Rightarrow> 'a devk_scheme \<Rightarrow> 'a devk_scheme" where
  "put_obj a d k = k\<lparr>objs := (objs k)(a \<mapsto> d)\<rparr>"

definition drop_obj :: "u32 \<Rightarrow> 'a devk_scheme \<Rightarrow> 'a devk_scheme" where
  "drop_obj a k = k\<lparr>objs := (objs k)(a := None)\<rparr>"

definition add_ref :: "u32 \<Rightarrow> u32 \<Rightarrow> 'a devk_scheme \<Rightarrow> 'a devk_scheme option" where
  "add_ref n a k = do {
     d \<leftarrow> objs k a;
     Some (put_obj a (map_hdr (\<lambda>h. h\<lparr>refcount := refcount h + n\<rparr>) d) k) }"

section \<open>Storing a structure\<close>

lemma put_obj_ram [simp]: "ram (put_obj a d k) = ram k"
  by (simp add: put_obj_def)

lemma put_obj_same: "objs k a = Some d \<Longrightarrow> put_obj a d k = k"
  by (simp add: put_obj_def fun_upd_idem)

lemma put_obj_twice [simp]: "put_obj a d (put_obj a e k) = put_obj a d k"
  by (simp add: put_obj_def)

lemma put_obj_kern [simp]: "kern.truncate (put_obj a d k) = kern.truncate k" "kern.truncate (k\<lparr>ram := m\<rparr>) = kern.truncate k"
  by (simp_all add: put_obj_def kern.truncate_def)

lemma kern_rel_frame [simp]:
  "kern_rel (put_obj b d k) A W = kern_rel k A W" "kern_rel (k\<lparr>ram := m\<rparr>) A W = kern_rel k A W"
  "cur_pid (put_obj b d k) = cur_pid k"
  by (simp_all add: kern_rel_def kern_mid_def put_obj_def)

lemma kern_rel_truncate: "kern.truncate k' = kern.truncate k \<Longrightarrow> kern_rel k' A W = kern_rel k A W \<and> cur_pid k' = cur_pid k"
  by (cases k; cases k') (simp add: kern.truncate_def kern_rel_def kern_mid_def)

lemma drop_obj_simps [simp]:
  "objs (drop_obj a k) = (objs k)(a := None)" "ram (drop_obj a k) = ram k" "cur_pid (drop_obj a k) = cur_pid k"
  "char_devices (drop_obj a k) = char_devices k" "kern.truncate (drop_obj a k) = kern.truncate k"
  by (simp_all add: drop_obj_def kern.truncate_def)

lemma more_objs: "kern.more k = kern.more k' \<Longrightarrow> objs k = objs k' \<and> ram k = ram k'"
  by (cases k; cases k') simp

section \<open>Descriptors\<close>

definition fd_get :: "u32 list list \<Rightarrow> pid \<Rightarrow> u32 \<Rightarrow> u32 option" where
  "fd_get cd p fd = do { row \<leftarrow> aget cd p; aget row fd }"

definition fd_put :: "u32 list list \<Rightarrow> pid \<Rightarrow> u32 \<Rightarrow> u32 \<Rightarrow> u32 list list option" where
  "fd_put cd p fd dev = do { row \<leftarrow> aget cd p; row \<leftarrow> aput row fd dev; aput cd p row }"

function free_fd_from :: "'a devk_scheme \<Rightarrow> nat \<Rightarrow> u32 option" where
  "free_fd_from k i =
     (if i < MAX_FD then do {
        dev \<leftarrow> fd_get (char_devices k) (cur_pid k) (of_nat i);
        if dev = 0 then Some (of_nat i) else free_fd_from k (i + 1) }
      else Some (-1))"
  by pat_completeness auto
termination
  by (relation "measure (\<lambda>(k, i). MAX_FD - i)") auto

declare free_fd_from.simps [simp del]

definition get_next_free_fd_for_current_task :: "'a devk_scheme \<Rightarrow> u32 option" where
  "get_next_free_fd_for_current_task k = free_fd_from k 0"

definition device_descriptor :: "u32 \<Rightarrow> 'a devk_scheme \<Rightarrow> (u32 \<times> 'a devk_scheme) option" where
  "device_descriptor dev k = do {
     fd \<leftarrow> get_next_free_fd_for_current_task k;
     if fd = -1 then Some (- ENOSYS, k)
     else do {
       cd \<leftarrow> fd_put (char_devices k) (cur_pid k) fd dev;
       k \<leftarrow> add_ref 1 dev (k\<lparr>char_devices := cd\<rparr>);
       Some (fd, k) } }"

definition device_init :: "'a devk_scheme \<Rightarrow> 'a devk_scheme option" where
  "device_init k = do {
     k \<leftarrow> register_syscall 0x33 Sys_read k;
     k \<leftarrow> register_syscall 0x34 Sys_write k;
     k \<leftarrow> register_syscall 0x35 Sys_seek k;
     k \<leftarrow> register_syscall 0x36 Sys_close k;
     cd \<leftarrow> for_range 0 MAX_PID (\<lambda>i. for_range 0 MAX_FD (\<lambda>j cd. fd_put cd (of_nat i) (of_nat j) 0))
             (char_devices k);
     Some (k\<lparr>char_devices := cd\<rparr>) }"

definition device_fork_descriptors :: "pid \<Rightarrow> pid \<Rightarrow> 'a devk_scheme \<Rightarrow> 'a devk_scheme option" where
  "device_fork_descriptors pid1 pid2 k =
     for_range 0 MAX_FD (\<lambda>i k. do {
       dev \<leftarrow> fd_get (char_devices k) pid1 (of_nat i);
       cd \<leftarrow> fd_put (char_devices k) pid2 (of_nat i) dev;
       k \<leftarrow> Some (k\<lparr>char_devices := cd\<rparr>);
       if dev \<noteq> 0 then add_ref 1 dev k else Some k }) k"

section \<open>References\<close>

text \<open>The number of descriptors that point at a structure, in all tasks.\<close>

definition refs :: "u32 list list \<Rightarrow> u32 \<Rightarrow> nat" where
  "refs cd a = sum_list (map (\<lambda>row. count_list row a) cd)"

definition fd_table :: "u32 list list \<Rightarrow> bool" where
  "fd_table cd \<longleftrightarrow> length cd = MAX_PID \<and> (\<forall>p < MAX_PID. length (cd ! p) = MAX_FD)"

text \<open>
  Every descriptor in use points at a structure, and the reference counts of the structures at \<open>A\<close>
  are the numbers of descriptors.
\<close>

definition counted :: "u32 set \<Rightarrow> 'a devk_scheme \<Rightarrow> bool" where
  "counted A k \<longleftrightarrow> fd_table (char_devices k) \<and> 0 \<notin> A \<and>
     (\<forall>p < MAX_PID. \<forall>i < MAX_FD. char_devices k ! p ! i \<noteq> 0 \<longrightarrow> objs k (char_devices k ! p ! i) \<noteq> None) \<and>
     (\<forall>a \<in> A. \<exists>d. objs k a = Some d \<and> refcount (hdr d) = of_nat (refs (char_devices k) a))"

lemma count_list_update:
  "i < length xs \<Longrightarrow> count_list (xs[i := x]) a + of_bool (xs ! i = a) = count_list xs a + of_bool (x = a)"
proof (induction xs arbitrary: i)
  case (Cons y ys)
  then show ?case by (cases i) auto
qed simp

lemma sum_list_map_update:
  fixes f :: "'b \<Rightarrow> nat"
  shows "i < length xs \<Longrightarrow> sum_list (map f (xs[i := x])) + f (xs ! i) = sum_list (map f xs) + f x"
proof (induction xs arbitrary: i)
  case (Cons y ys)
  then show ?case by (cases i) (auto simp: algebra_simps)
qed simp

lemma fd_in:
  assumes "fd_table cd" "unat p < MAX_PID" "unat fd < MAX_FD"
  shows "fd_get cd p fd = Some (cd ! unat p ! unat fd)"
    and "fd_put cd p fd dev = Some (cd[unat p := (cd ! unat p)[unat fd := dev]])"
  using assms by (auto simp: fd_get_def fd_put_def aget_def aput_def fd_table_def)

lemma fd_table_put:
  "fd_table cd \<Longrightarrow> unat p < MAX_PID \<Longrightarrow> fd_put cd p fd dev = Some cd' \<Longrightarrow> fd_table cd'"
  by (auto simp: fd_table_def fd_put_def aget_def aput_def nth_list_update split: bind_splits if_splits)

text \<open>Overwriting one descriptor moves one reference.\<close>

lemma refs_put:
  assumes "fd_table cd" "unat p < MAX_PID" "unat fd < MAX_FD" "fd_get cd p fd = Some old"
    and "fd_put cd p fd dev = Some cd'"
  shows "refs cd' a + of_bool (old = a) = refs cd a + of_bool (dev = a)"
proof -
  have old: "old = cd ! unat p ! unat fd" using assms(4) fd_in(1) [OF assms(1-3)] by simp
  have cd': "cd' = cd[unat p := (cd ! unat p)[unat fd := dev]]" using assms(5) fd_in(2) [OF assms(1-3)] by simp
  have p: "unat p < length cd" and f: "unat fd < length (cd ! unat p)"
    using assms(1-3) by (auto simp: fd_table_def)
  show ?thesis
    using sum_list_map_update [OF p, of "\<lambda>row. count_list row a" "(cd ! unat p)[unat fd := dev]"]
      count_list_update [OF f, of dev a]
    by (simp add: refs_def cd' old)
qed

lemma add_ref_simps [simp]:
  "add_ref n a k = Some k' \<Longrightarrow> char_devices k' = char_devices k"
  "add_ref n a k = Some k' \<Longrightarrow> cur_pid k' = cur_pid k"
  by (auto simp: add_ref_def put_obj_def split: bind_splits)

lemma hdr_map [simp]: "hdr (map_hdr g d) = g (hdr d)"
  by (cases d) auto

lemma free_fd_done: "MAX_FD \<le> i \<Longrightarrow> free_fd_from k i = Some (-1)"
  by (simp add: free_fd_from.simps [of k i])

text \<open>\<open>free_fd_from\<close> finds the first free descriptor.\<close>

lemma free_fd_eq:
  assumes "fd_table (char_devices k)" "unat (cur_pid k) < MAX_PID" "i \<le> MAX_FD"
  shows "\<exists>fd. free_fd_from k i = Some fd \<and>
    (if fd = -1 then \<forall>j \<in> {i..<MAX_FD}. char_devices k ! unat (cur_pid k) ! j \<noteq> 0
     else i \<le> unat fd \<and> unat fd < MAX_FD \<and> char_devices k ! unat (cur_pid k) ! unat fd = 0 \<and>
       (\<forall>j \<in> {i..<unat fd}. char_devices k ! unat (cur_pid k) ! j \<noteq> 0))"
  using assms(3)
proof (induction "MAX_FD - i" arbitrary: i)
  case 0
  then show ?case by (intro exI [of _ "-1"]) (auto simp: free_fd_done)
next
  case (Suc n)
  then have i: "i < MAX_FD" by simp
  then have u: "unat (of_nat i :: u32) = i" by (simp add: unat_of_nat MAX_FD_def)
  have g: "fd_get (char_devices k) (cur_pid k) (of_nat i) = Some (char_devices k ! unat (cur_pid k) ! i)"
    using fd_in(1) [OF assms(1,2), of "of_nat i"] i u by simp
  have m: "of_nat i \<noteq> (-1 :: u32)"
  proof
    assume "of_nat i = (-1 :: u32)"
    then have "unat (of_nat i :: u32) = unat (-1 :: u32)" by (rule arg_cong)
    with u i show False by (simp add: MAX_FD_def unsigned_minus_1_eq_mask mask_eq_exp_minus_1)
  qed
  show ?case
  proof (cases "char_devices k ! unat (cur_pid k) ! i = 0")
    case True
    with g i u m show ?thesis by (simp add: free_fd_from.simps [of k i])
  next
    case False
    have "n = MAX_FD - (i + 1)" "i + 1 \<le> MAX_FD" using Suc.hyps(2) i by auto
    from Suc.hyps(1) [OF this] obtain fd where "free_fd_from k (i + 1) = Some fd"
      "(if fd = -1 then \<forall>j \<in> {i + 1..<MAX_FD}. char_devices k ! unat (cur_pid k) ! j \<noteq> 0
     else i + 1 \<le> unat fd \<and> unat fd < MAX_FD \<and> char_devices k ! unat (cur_pid k) ! unat fd = 0 \<and>
       (\<forall>j \<in> {i + 1..<unat fd}. char_devices k ! unat (cur_pid k) ! j \<noteq> 0))" by blast
    moreover have "{i..<m} = insert i {i + 1..<m}" if "i < m" for m using that by auto
    ultimately show ?thesis using False g i
      by (auto simp: free_fd_from.simps [of k i] split: if_splits)
  qed
qed

text \<open>Storing a pointer over a free descriptor and counting it.\<close>

lemma counted_put:
  assumes inv: "counted A k" and p: "unat p < MAX_PID" and fd: "unat fd < MAX_FD"
    and free: "char_devices k ! unat p ! unat fd = 0" and dev: "objs k dev = Some d" "dev \<noteq> 0"
  shows "\<exists>cd k'. fd_put (char_devices k) p fd dev = Some cd \<and> add_ref 1 dev (k\<lparr>char_devices := cd\<rparr>) = Some k' \<and>
     counted A k' \<and> cd = (char_devices k)[unat p := (char_devices k ! unat p)[unat fd := dev]] \<and>
     k' = k\<lparr>char_devices := cd, objs := (objs k)(dev \<mapsto> map_hdr (\<lambda>h. h\<lparr>refcount := refcount h + 1\<rparr>) d)\<rparr>"
proof -
  let ?cd = "(char_devices k)[unat p := (char_devices k ! unat p)[unat fd := dev]]"
  let ?k = "k\<lparr>char_devices := ?cd, objs := (objs k)(dev \<mapsto> map_hdr (\<lambda>h. h\<lparr>refcount := refcount h + 1\<rparr>) d)\<rparr>"
  have tab: "fd_table (char_devices k)" using inv by (simp add: counted_def)
  note put = fd_in(2) [OF tab p fd, of dev]
  have get: "fd_get (char_devices k) p fd = Some 0" using fd_in(1) [OF tab p fd] free by simp
  have add: "add_ref 1 dev (k\<lparr>char_devices := ?cd\<rparr>) = Some ?k"
    using dev by (simp add: add_ref_def put_obj_def)
  have r: "refs ?cd a = refs (char_devices k) a + of_bool (dev = a)" if "a \<in> A" for a
  proof -
    have "a \<noteq> 0" using that inv by (auto simp: counted_def)
    then show ?thesis using refs_put [OF tab p fd get put, of a] by simp
  qed
  have "\<exists>d'. objs ?k a = Some d' \<and> refcount (hdr d') = of_nat (refs ?cd a)" if "a \<in> A" for a
    using r [OF that] that inv dev by (auto simp: counted_def)
  moreover have "objs ?k (?cd ! q ! i) \<noteq> None" if "q < MAX_PID" "i < MAX_FD" "?cd ! q ! i \<noteq> 0" for q i
    using that inv dev tab p fd by (auto simp: counted_def fd_table_def nth_list_update split: if_splits)
  ultimately have "counted A ?k"
    using inv fd_table_put [OF tab p put] by (simp add: counted_def)
  with put add show ?thesis by blast
qed

text \<open>\<open>device_descriptor\<close> takes the first free descriptor of the current task, if there is one.\<close>

lemma device_descriptor_counted:
  assumes inv: "counted A k" and p: "unat (cur_pid k) < MAX_PID" and dev: "objs k dev = Some d" "dev \<noteq> 0"
  shows "\<exists>fd k'. device_descriptor dev k = Some (fd, k') \<and> counted A k' \<and>
    (if fd = - ENOSYS then k' = k \<and> (\<forall>j < MAX_FD. char_devices k ! unat (cur_pid k) ! j \<noteq> 0)
     else unat fd < MAX_FD \<and> char_devices k ! unat (cur_pid k) ! unat fd = 0 \<and>
       k' = k\<lparr>char_devices := (char_devices k)[unat (cur_pid k) := (char_devices k ! unat (cur_pid k))[unat fd := dev]],
              objs := (objs k)(dev \<mapsto> map_hdr (\<lambda>h. h\<lparr>refcount := refcount h + 1\<rparr>) d)\<rparr>)"
proof -
  have tab: "fd_table (char_devices k)" using inv by (simp add: counted_def)
  obtain fd where fd: "free_fd_from k 0 = Some fd"
    "(if fd = -1 then \<forall>j < MAX_FD. char_devices k ! unat (cur_pid k) ! j \<noteq> 0
     else unat fd < MAX_FD \<and> char_devices k ! unat (cur_pid k) ! unat fd = 0)"
    using free_fd_eq [OF tab p, of 0] by auto
  show ?thesis
  proof (cases "fd = -1")
    case True
    with fd inv show ?thesis
      by (auto simp: device_descriptor_def get_next_free_fd_for_current_task_def)
  next
    case False
    with fd have f: "unat fd < MAX_FD" "char_devices k ! unat (cur_pid k) ! unat fd = 0" by auto
    have "fd \<noteq> - ENOSYS" using f(1) by (auto simp: MAX_FD_def ENOSYS_def unsigned_minus_1_eq_mask mask_eq_exp_minus_1)
    with counted_put [OF inv p f dev] fd(1) False f show ?thesis
      by (auto simp: device_descriptor_def get_next_free_fd_for_current_task_def)
  qed
qed

text \<open>Structures keep their kind and their fields other than the reference count.\<close>

definition same_kinds :: "'a devk_scheme \<Rightarrow> 'a devk_scheme \<Rightarrow> bool" where
  "same_kinds k k' \<longleftrightarrow> (\<forall>a d. objs k a = Some d \<longrightarrow> (\<exists>n. objs k' a = Some (map_hdr (\<lambda>h. h\<lparr>refcount := n\<rparr>) d)))"

lemma map_hdr_same [simp]: "map_hdr (\<lambda>h. h\<lparr>refcount := refcount (hdr d)\<rparr>) d = d"
  by (cases d) auto

lemma map_hdr_twice [simp]:
  "map_hdr (\<lambda>h. h\<lparr>refcount := f (refcount h)\<rparr>) (map_hdr (\<lambda>h. h\<lparr>refcount := n\<rparr>) d) = map_hdr (\<lambda>h. h\<lparr>refcount := f n\<rparr>) d"
  by (cases d) auto

lemma same_kinds_refl [simp]: "same_kinds k k"
  using map_hdr_same by (metis same_kinds_def)

lemma same_kinds_step:
  assumes "same_kinds k k'" "objs k' dev = Some d"
  shows "same_kinds k (k'\<lparr>char_devices := cd, objs := (objs k')(dev \<mapsto> map_hdr (\<lambda>h. h\<lparr>refcount := refcount h + 1\<rparr>) d)\<rparr>)"
  unfolding same_kinds_def
proof (intro allI impI)
  fix a e assume e: "objs k a = Some e"
  with assms obtain n where n: "objs k' a = Some (map_hdr (\<lambda>h. h\<lparr>refcount := n\<rparr>) e)" by (auto simp: same_kinds_def)
  show "\<exists>m. objs (k'\<lparr>char_devices := cd, objs := (objs k')(dev \<mapsto> map_hdr (\<lambda>h. h\<lparr>refcount := refcount h + 1\<rparr>) d)\<rparr>) a =
      Some (map_hdr (\<lambda>h. h\<lparr>refcount := m\<rparr>) e)"
  proof (cases "a = dev")
    case True
    then have "d = map_hdr (\<lambda>h. h\<lparr>refcount := n\<rparr>) e" using n assms(2) by simp
    then show ?thesis using True by (intro exI [of _ "n + 1"]) (simp add: map_hdr_twice [of "\<lambda>x. x + 1"])
  next
    case False
    then show ?thesis using n by auto
  qed
qed

text \<open>Fork copies the descriptors into an empty row and counts them.\<close>

lemma device_fork_counted:
  assumes inv: "counted A k" and p: "unat p1 < MAX_PID" "unat p2 < MAX_PID" "p1 \<noteq> p2"
    and empty: "\<forall>i < MAX_FD. char_devices k ! unat p2 ! i = 0"
  shows "\<exists>k'. device_fork_descriptors p1 p2 k = Some k' \<and> counted A k' \<and>
    char_devices k' = (char_devices k)[unat p2 := char_devices k ! unat p1] \<and>
    cur_pid k' = cur_pid k \<and> same_kinds k k'"
proof -
  let ?src = "char_devices k ! unat p1"
  let ?I = "\<lambda>i k'. counted A k' \<and> cur_pid k' = cur_pid k \<and> same_kinds k k' \<and>
     char_devices k' = (char_devices k)[unat p2 := take i ?src @ replicate (MAX_FD - i) 0]"
  have tab: "fd_table (char_devices k)" using inv by (simp add: counted_def)
  have ne: "unat p1 \<noteq> unat p2" using p(3) by (simp add: word_unat_eq_iff)
  have len: "length ?src = MAX_FD" "length (char_devices k ! unat p2) = MAX_FD" "length (char_devices k) = MAX_PID"
    using tab p by (auto simp: fd_table_def)
  have row: "char_devices k ! unat p2 = replicate MAX_FD 0"
    using len empty by (intro nth_equalityI) auto
  have "\<exists>k'. device_fork_descriptors p1 p2 k = Some k' \<and> ?I MAX_FD k'"
    unfolding device_fork_descriptors_def
  proof (rule for_range_rule [where inv = ?I])
    show "?I 0 k" using inv row list_update_id [of "char_devices k" "unat p2"] by simp
  next
    fix i k' assume i: "i < MAX_FD" and I: "?I i k'"
    have u: "unat (of_nat i :: u32) = i" using i by (simp add: unat_of_nat MAX_FD_def)
    then have ui: "unat (of_nat i :: u32) < MAX_FD" using i by simp
    let ?dev = "?src ! i"
    from I have "counted A k'" by blast
    then have tab': "fd_table (char_devices k')" by (simp add: counted_def)
    have get: "fd_get (char_devices k') p1 (of_nat i) = Some ?dev"
      using fd_in(1) [OF tab' p(1) ui] I ne u len p by simp
    have free: "char_devices k' ! unat p2 ! unat (of_nat i :: u32) = 0"
      using I u len p i by (simp add: nth_append)
    have upd: "(char_devices k')[unat p2 := (char_devices k' ! unat p2)[unat (of_nat i :: u32) := ?dev]] =
        (char_devices k)[unat p2 := take (Suc i) ?src @ replicate (MAX_FD - Suc i) 0]"
    proof -
      have rep: "replicate (MAX_FD - i) 0 = 0 # replicate (MAX_FD - Suc i) 0"
        using i by (simp add: Suc_diff_Suc flip: replicate_Suc)
      show ?thesis using I u len p i by (auto simp: list_update_append take_Suc_conv_app_nth rep)
    qed
    show "\<exists>s'. (do { dev \<leftarrow> fd_get (char_devices k') p1 (of_nat i);
            cd \<leftarrow> fd_put (char_devices k') p2 (of_nat i) dev;
            k \<leftarrow> Some (k'\<lparr>char_devices := cd\<rparr>);
            if dev \<noteq> 0 then add_ref 1 dev k else Some k }) = Some s' \<and> ?I (Suc i) s'"
    proof (cases "?dev = 0")
      case True
      note put = fd_in(2) [OF tab' p(2) ui, of ?dev]
      have same: "(char_devices k')[unat p2 := (char_devices k' ! unat p2)[unat (of_nat i :: u32) := ?dev]] = char_devices k'"
        using True free by (metis list_update_id)
      have "?I (Suc i) k'" using I upd [symmetric] unfolding same by simp
      moreover have "(do { dev \<leftarrow> fd_get (char_devices k') p1 (of_nat i);
            cd \<leftarrow> fd_put (char_devices k') p2 (of_nat i) dev;
            k \<leftarrow> Some (k'\<lparr>char_devices := cd\<rparr>);
            if dev \<noteq> 0 then add_ref 1 dev k else Some k }) = Some k'"
        by (simp add: get True put [unfolded True] same [unfolded True])
      ultimately show ?thesis by blast
    next
      case False
      then have some: "objs k ?dev \<noteq> None" using inv p(1) i unfolding counted_def by blast
      then obtain d where "objs k ?dev = Some d" by blast
      moreover have "same_kinds k k'" using I by blast
      ultimately obtain d' where d': "objs k' ?dev = Some d'" by (auto simp: same_kinds_def)
      from counted_put [OF conjunct1 [OF I] p(2) ui free d' False] upd get False I
        same_kinds_step [OF \<open>same_kinds k k'\<close> d']
      show ?thesis by auto
    qed
  qed (simp add: MAX_FD_def)
  then show ?thesis using len by auto
qed
end
