(* ===== verification/Lib_Str_Spec.thy ===== *)
theory Lib_Str_Spec
  imports Lib_Str
begin

text \<open>
  What the number routines of kernel/lib_str.c compute. The reference is the textbook numeral
  \<open>digits_of\<close>; the code's loop, which starts from the leading power, is shown to write exactly that
  numeral, to predict its length one short, and to be undone by \<open>str_into_num\<close>.
\<close>

section \<open>Numerals\<close>

function digits_of :: "nat \<Rightarrow> nat \<Rightarrow> nat list" where
  "digits_of b n = (if n < b \<or> b < 2 then [n] else digits_of b (n div b) @ [n mod b])"
  by pat_completeness auto
termination
  by (relation "measure (\<lambda>(b, n). n)") auto

declare digits_of.simps [simp del]

text \<open>The digits from the place of \<open>b ^ k\<close> down, as the loop of \<open>num_into_string\<close> produces them.\<close>

fun places :: "nat \<Rightarrow> nat \<Rightarrow> nat \<Rightarrow> nat list" where
  "places b 0 n = [n]"
| "places b (Suc k) n = n div b ^ Suc k # places b k (n mod b ^ Suc k)"

definition leading :: "nat \<Rightarrow> nat \<Rightarrow> nat \<Rightarrow> bool" where
  "leading b k n \<longleftrightarrow> n < b ^ Suc k \<and> (k = 0 \<or> b ^ k \<le> n)"

definition digit_char :: "nat \<Rightarrow> u8" where
  "digit_char d = digits ! d"

lemma length_places [simp]: "length (places b k n) = Suc k"
  by (induction k arbitrary: n) auto

lemma places_snoc:
  assumes "0 < b"
  shows "places b (Suc k) n = places b k (n div b) @ [n mod b]"
proof (induction k arbitrary: n)
  case (Suc k)
  let ?m = "n mod b ^ Suc (Suc k)"
  have "?m div b = n div b mod b ^ Suc k"
    using assms by (simp add: mod_mult2_eq)
  moreover have "?m mod b = n mod b" by (simp add: mod_mod_cancel)
  moreover have "n div b ^ Suc (Suc k) = n div b div b ^ Suc k"
    by (simp add: div_mult2_eq)
  ultimately show ?case using Suc.IH [of ?m] by (simp only: places.simps append_Cons)
qed simp

lemma leading_div: "2 \<le> b \<Longrightarrow> leading b (Suc k) n \<Longrightarrow> leading b k (n div b)"
  by (auto simp: leading_def less_mult_imp_div_less mult.commute div_greater_zero_iff
      intro: power_increasing) (metis div_le_mono nonzero_mult_div_cancel_left not_numeral_le_zero)

lemma places_digits_of: "2 \<le> b \<Longrightarrow> leading b k n \<Longrightarrow> places b k n = digits_of b n"
proof (induction k arbitrary: n)
  case 0
  then show ?case by (simp add: leading_def digits_of.simps)
next
  case (Suc k)
  then have "b ^ Suc k \<le> n" by (simp add: leading_def)
  moreover have "b \<le> b ^ Suc k" using Suc.prems by (intro self_le_power) auto
  ultimately have "\<not> n < b" by linarith
  then show ?case
    using Suc.IH [OF Suc.prems(1) leading_div [OF Suc.prems]] Suc.prems(1)
    by (simp add: digits_of.simps [of b n] places_snoc del: places.simps)
qed

lemma leading_exists: "2 \<le> b \<Longrightarrow> \<exists>k. leading b k n"
proof (induction n rule: less_induct)
  case (less n)
  show ?case
  proof (cases "n < b")
    case True
    then have "leading b 0 n" by (simp add: leading_def)
    then show ?thesis ..
  next
    case False
    with less.prems obtain k where k: "leading b k (n div b)"
      using less.IH [of "n div b"] by auto
    have "n < b ^ Suc (Suc k)"
      using k less.prems by (simp add: leading_def div_mult2_eq flip: div_less_iff_less_mult)
    moreover have "b ^ Suc k \<le> n"
    proof (cases k)
      case 0 with False show ?thesis by simp
    next
      case (Suc j)
      with k have "b ^ k \<le> n div b" by (simp add: leading_def)
      then have "b ^ k * b \<le> n" using less.prems by (simp add: less_eq_div_iff_mult_less_eq)
      then show ?thesis by (simp add: mult.commute)
    qed
    ultimately have "leading b (Suc k) n" by (simp add: leading_def)
    then show ?thesis ..
  qed
qed

lemma length_digits_of: "2 \<le> b \<Longrightarrow> leading b k n \<Longrightarrow> length (digits_of b n) = Suc k"
  by (simp flip: places_digits_of)

lemma digits_of_less: "2 \<le> b \<Longrightarrow> \<forall>d \<in> set (digits_of b n). d < b"
  by (induction b n rule: digits_of.induct) (subst digits_of.simps, auto)

text \<open>Horner's rule reads a numeral back.\<close>

definition value_of :: "nat \<Rightarrow> nat list \<Rightarrow> nat" where
  "value_of b ds = foldl (\<lambda>n d. n * b + d) 0 ds"

lemma value_digits_of: "2 \<le> b \<Longrightarrow> value_of b (digits_of b n) = n"
  by (induction b n rule: digits_of.induct) (subst digits_of.simps, auto simp: value_of_def)

lemma value_snoc [simp]: "value_of b (ds @ [d]) = value_of b ds * b + d"
  by (simp add: value_of_def)

lemma value_Nil [simp]: "value_of b [] = 0"
  by (simp add: value_of_def)

lemma value_Cons: "value_of b (d # ds) = d * b ^ length ds + value_of b ds"
  by (induction ds rule: rev_induct) (simp_all add: value_of_def algebra_simps)

section \<open>Writing bytes\<close>

lemma put_bytes_eq:
  "put_bytes s i cs = (if cs = [] \<or> i + length cs \<le> length s
     then Some (take i s @ cs @ drop (i + length cs) s, i + length cs) else None)"
proof (induction cs arbitrary: s i)
  case (Cons c cs)
  show ?case
  proof (cases "i < length s")
    case True
    then have "take (Suc i) (s[i := c]) = take i s @ [c]"
      by (simp add: take_Suc_conv_app_nth take_update_cancel)
    with True Cons.IH [of "s[i := c]" "Suc i"] show ?thesis
      by (auto simp: nput_def)
  qed (simp add: nput_def)
qed simp

lemma put_bytes_append:
  "put_bytes s i (xs @ ys) = do { (s, i) \<leftarrow> put_bytes s i xs; put_bytes s i ys }"
  by (induction xs arbitrary: s i) (auto simp: Option.bind_assoc split: bind_splits)

lemma put_bytes_one: "put_bytes s i [c] = do { s \<leftarrow> nput s i c; Some (s, i + 1) }"
  by simp

section \<open>Numbers into strings\<close>

text \<open>The powers of the base stay below \<open>2 ^ 32\<close> while they are at most the number.\<close>

lemma unat_power_step:
  fixes num base acum :: u32
  assumes "unat acum = unat base ^ k" "acum \<noteq> 0" "base \<le> num div acum"
  shows "unat (acum * base) = unat base ^ Suc k" and "unat base ^ Suc k \<le> unat num"
proof -
  have "unat base * unat acum \<le> unat num"
    using assms by (simp add: word_le_nat_alt unat_div word_neq_0_conv less_eq_div_iff_mult_less_eq word_unat_eq_iff)
  then show 2: "unat base ^ Suc k \<le> unat num" using assms(1) by simp
  with unat_u32 [of num] assms(1) show "unat (acum * base) = unat base ^ Suc k"
    by (simp add: unat_word_ariths mult.commute)
qed
text \<open>The second loop, for a power of the base that is a nonnegative \<open>int\<close>.\<close>

lemma emit_digits_eq:
  assumes "2 \<le> unat base" "unat base \<le> 16" "unat acum = unat base ^ k" "unat base ^ k < 2 ^ 31"
    and "unat num < unat base ^ Suc k"
  shows "emit_digits s i num base acum = put_bytes s i (map digit_char (places (unat base) k (unat num)))"
  using assms
proof (induction k arbitrary: s i num acum)
  case 0
  then have "\<not> base \<le>s acum" by (simp add: sle_small)
  moreover have "nget digits (unat num) = Some (digit_char (unat num))"
    using 0 by (simp add: nget_def digits_def digit_char_def)
  ultimately show ?case using 0 by (simp add: emit_digits.simps [of s i num base acum])
next
  case (Suc k)
  have small: "unat base < 2 ^ 31" "unat acum < 2 ^ 31" using Suc.prems by simp_all
  have "unat base ^ 1 \<le> unat base ^ Suc k" using Suc.prems by (intro power_increasing) auto
  then have le: "base \<le>s acum" using Suc.prems small by (simp only: sle_small) simp
  have nz: "acum \<noteq> 0" "base \<noteq> 0" using Suc.prems by auto
  have d: "unat (num div acum) = unat num div unat base ^ Suc k"
    using Suc.prems by (simp add: unat_div)
  also have "\<dots> < unat base" using Suc.prems by (simp add: div_less_iff_less_mult)
  finally have "nget digits (unat (num div acum)) = Some (digit_char (unat num div unat base ^ Suc k))"
    using Suc.prems(2) d by (simp add: nget_def digits_def digit_char_def)
  moreover have "num - num div acum * acum = num mod acum" by (simp add: minus_div_mult_eq_mod)
  moreover have m: "unat (num mod acum) = unat num mod unat base ^ Suc k"
    using Suc.prems by (simp add: unat_mod)
  moreover have "emit_digits s' (Suc i) (num mod acum) base (acum div base) =
      put_bytes s' (Suc i) (map digit_char (places (unat base) k (unat num mod unat base ^ Suc k)))" for s'
    unfolding m [symmetric]
  proof (rule Suc.IH)
    show "unat (acum div base) = unat base ^ k" using Suc.prems by (simp add: unat_div)
    show "unat base ^ k < 2 ^ 31" using Suc.prems
      by (metis (no_types, lifting) le_less_trans not_numeral_le_zero le_add2 plus_1_eq_Suc power_increasing
          one_le_numeral order.trans)
    show "unat (num mod acum) < unat base ^ Suc k" using m Suc.prems by simp
  qed (use Suc.prems in simp_all)
  ultimately show ?case using le nz small
    by (simp add: emit_digits.simps [of s i num base acum] sdiv_small)
qed

lemma grow_acum_eq:
  assumes "2 \<le> unat base" "unat acum = unat base ^ i" "i = 0 \<or> unat base ^ i \<le> unat num"
  shows "\<exists>k a. grow_acum num base acum = Some a \<and> unat a = unat base ^ k \<and> leading (unat base) k (unat num)"
  using assms
proof (induction "unat num - unat acum" arbitrary: acum i rule: less_induct)
  case less
  have a0: "acum \<noteq> 0" using less.prems by (auto simp: word_unat_eq_iff)
  show ?case
  proof (cases "base \<le> num div acum")
    case True
    note p = unat_power_step [OF less.prems(2) a0 True]
    have "unat acum < unat base ^ Suc i" using less.prems by simp
    then have "unat num - unat (acum * base) < unat num - unat acum" using p by simp
    from less.hyps [OF this less.prems(1) p(1)] p(2) show ?thesis
      using a0 True by (simp add: grow_acum.simps [of num base acum])
  next
    case False
    then have "unat num div unat base ^ i < unat base"
      using less.prems by (simp add: word_le_nat_alt unat_div)
    then have "unat num < unat base ^ Suc i" using less.prems(1)
      by (simp add: div_less_iff_less_mult)
    then have "leading (unat base) i (unat num)" using less.prems(3) by (simp add: leading_def)
    with False a0 less.prems(2) show ?thesis by (auto simp: grow_acum.simps [of num base acum])
  qed
qed

text \<open>A base the code supports for a number: the leading power is a nonnegative \<open>int\<close>.\<close>

definition base_fits :: "u32 \<Rightarrow> u32 \<Rightarrow> bool" where
  "base_fits num base \<longleftrightarrow> 2 \<le> base \<and> base \<le> 16 \<and> (unat num < 2 ^ 31 \<or> base = 10 \<or> base = 16)"

lemma base_fits_unat: "base_fits num base \<Longrightarrow> 2 \<le> unat base \<and> unat base \<le> 16"
  by (simp add: base_fits_def word_le_nat_alt)

lemma leading_small:
  assumes "base_fits num base" "leading (unat base) k (unat num)"
  shows "unat base ^ k < 2 ^ 31"
proof (cases "k = 0")
  case False
  then have le: "unat base ^ k \<le> unat num" using assms(2) by (simp add: leading_def)
  consider "unat num < 2 ^ 31" | "base = 10" | "base = 16" using assms(1) by (auto simp: base_fits_def)
  then show ?thesis
  proof cases
    case 1 with le show ?thesis by simp
  next
    case 2
    with le unat_u32 [of num] have "(10::nat) ^ k < 10 ^ 10" by simp
    then have "k \<le> 9" using power_less_imp_less_exp [of "10::nat" k 10] by simp
    then have "(10::nat) ^ k \<le> 10 ^ 9" by (intro power_increasing) auto
    with 2 show ?thesis by simp
  next
    case 3
    with le unat_u32 [of num] have "(16::nat) ^ k < 16 ^ 8" by simp
    then have "k \<le> 7" using power_less_imp_less_exp [of "16::nat" k 8] by simp
    then have "(16::nat) ^ k \<le> 16 ^ 7" by (intro power_increasing) auto
    with 3 show ?thesis by simp
  qed
qed simp

definition numeral_text :: "nat \<Rightarrow> nat \<Rightarrow> str" where
  "numeral_text b n = map digit_char (digits_of b n)"

lemma num_into_string_eq:
  assumes "base_fits num base"
  shows "num_into_string s i num base = put_bytes s i (numeral_text (unat base) (unat num))"
proof -
  note b = base_fits_unat [OF assms]
  obtain k a where a: "grow_acum num base 1 = Some a" "unat a = unat base ^ k" "leading (unat base) k (unat num)"
    using grow_acum_eq [of base 1 0 num] b by auto
  have "emit_digits s i num base a = put_bytes s i (map digit_char (places (unat base) k (unat num)))"
    using a b leading_small [OF assms a(3)] by (intro emit_digits_eq) (simp_all add: leading_def)
  with a b show ?thesis by (simp add: num_into_string_def numeral_text_def places_digits_of)
qed

definition dec_text :: "u32 \<Rightarrow> str" where
  "dec_text num = (if num <s 0 then 45 # numeral_text 10 (unat (- num)) else numeral_text 10 (unat num))"

lemma dec_into_string_eq: "dec_into_string s i num = put_bytes s i (dec_text num)"
  by (simp add: dec_into_string_def dec_text_def num_into_string_eq base_fits_def)

lemma hex_into_string_eq: "hex_into_string s i num = put_bytes s i (numeral_text 16 (unat num))"
  by (simp add: hex_into_string_def num_into_string_eq base_fits_def)

lemma grow_len_eq:
  assumes "2 \<le> unat base" "unat acum = unat base ^ d"
  shows "\<exists>k. grow_len num base d acum = Some k \<and> d \<le> k \<and> unat num < unat base ^ Suc k \<and>
     (k = d \<or> unat base ^ k \<le> unat num)"
  using assms
proof (induction "unat num - unat acum" arbitrary: acum d rule: less_induct)
  case less
  have a0: "acum \<noteq> 0" using less.prems by (auto simp: word_unat_eq_iff)
  show ?case
  proof (cases "base \<le> num div acum")
    case True
    note p = unat_power_step [OF less.prems(2) a0 True]
    have "unat acum < unat base ^ Suc d" using less.prems by simp
    then have "unat num - unat (acum * base) < unat num - unat acum" using p by simp
    from less.hyps [OF this less.prems(1) p(1)] p(2) obtain k where
      "grow_len num base (Suc d) (acum * base) = Some k \<and> Suc d \<le> k \<and>
       unat num < unat base ^ Suc k \<and> (k = Suc d \<or> unat base ^ k \<le> unat num)" by blast
    with p(2) a0 True show ?thesis by (auto simp: grow_len.simps [of num base d acum])
  next
    case False
    then have "unat num div unat base ^ d < unat base"
      using less.prems by (simp add: word_le_nat_alt unat_div)
    then have "unat num < unat base ^ Suc d" using less.prems(1)
      by (simp add: div_less_iff_less_mult)
    with False a0 less.prems(2) show ?thesis by (auto simp: grow_len.simps [of num base d acum])
  qed
qed

text \<open>The predicted length is that of the numeral less one, and at least one.\<close>

lemma num_into_string_len_eq:
  assumes "2 \<le> unat base"
  shows "num_into_string_len num base = Some (max 1 (length (digits_of (unat base) (unat num)) - 1))"
proof -
  obtain k where k: "grow_len num base 1 base = Some k" "1 \<le> k" "unat num < unat base ^ Suc k"
      "k = 1 \<or> unat base ^ k \<le> unat num"
    using grow_len_eq [of base base 1 num] assms by auto
  show ?thesis
  proof (cases "unat base ^ k \<le> unat num")
    case True
    then have "leading (unat base) k (unat num)" using k by (simp add: leading_def)
    with k assms show ?thesis by (simp add: num_into_string_len_def length_digits_of)
  next
    case False
    with k have "leading (unat base) 0 (unat num)" "k = 1" by (auto simp: leading_def)
    with k assms show ?thesis by (simp add: num_into_string_len_def length_digits_of)
  qed
qed

section \<open>Reading a number back\<close>

text \<open>The character tests and values, checked for every digit and every base up to 16.\<close>

lemma digit_char_tests:
  "list_all (\<lambda>d. list_all (\<lambda>b. is_digit_of (digit_char d) (of_nat b) = (d < b)) [0..<17]) [0..<16]"
  "list_all (\<lambda>d. digit_value (digit_char d) = of_nat d) [0..<16]"
  by code_simp+

lemma digit_char_ok:
  assumes "d < 16" "unat base \<le> 16"
  shows "is_digit_of (digit_char d) base \<longleftrightarrow> d < unat base" and "digit_value (digit_char d) = of_nat d"
proof -
  have "d \<in> set [0..<16]" "unat base \<in> set [0..<17]" using assms by auto
  with digit_char_tests show "digit_value (digit_char d) = of_nat d"
    unfolding list_all_iff by blast
  from \<open>d \<in> _\<close> \<open>unat base \<in> _\<close> digit_char_tests(1)
  have "is_digit_of (digit_char d) (of_nat (unat base)) = (d < unat base)"
    unfolding list_all_iff by blast
  then show "is_digit_of (digit_char d) base \<longleftrightarrow> d < unat base" by simp
qed

lemma scan_numeral:
  assumes "\<forall>d \<in> set ds. d < unat base" "unat base \<le> 16" "\<not> is_digit_of c base" "i \<le> length ds"
  shows "scan_digits (map digit_char ds @ c # rest) 0 base i = Some (length ds)"
  using assms
proof (induction "length ds - i" arbitrary: i)
  case 0
  then show ?case by (simp add: scan_digits.simps [of _ 0 base i] nth_append)
next
  case (Suc n)
  then have i: "i < length ds" by simp
  with Suc.prems have "ds ! i < unat base" by simp
  with Suc.prems have "is_digit_of (digit_char (ds ! i)) base" using digit_char_ok(1) [of "ds ! i" base] by simp
  moreover have "scan_digits (map digit_char ds @ c # rest) 0 base (Suc i) = Some (length ds)"
    by (rule Suc.hyps(1)) (use Suc i in simp_all)
  ultimately show ?case using i by (simp add: scan_digits.simps [of _ 0 base i] nth_append)
qed

lemma sum_numeral:
  assumes "\<forall>d \<in> set ds. d < unat base" "2 \<le> unat base" "unat base \<le> 16" "unat base ^ (length ds - 1) < 2 ^ 32"
  shows "sum_digits (map digit_char ds) base (base ^ (length ds - 1)) num = num + of_nat (value_of (unat base) ds)"
  using assms
proof (induction ds arbitrary: num)
  case (Cons d ds)
  have dv: "digit_value (digit_char d) = of_nat d" using Cons.prems digit_char_ok(2) [of d base] by simp
  have u: "unat (base ^ length ds) = unat base ^ length ds"
    using Cons.prems by (intro unat_power) simp
  show ?case
  proof (cases ds)
    case Nil
    then show ?thesis using dv by (simp add: value_Cons)
  next
    case (Cons e es)
    then have less: "unat base ^ (length ds - 1) < 2 ^ 32"
      using Cons.prems by (auto intro: le_less_trans [OF power_increasing [of "length es" "Suc (length es)" "unat base"]])
    have "unat (base ^ length ds div base) = unat (base ^ (length ds - 1))"
      unfolding unat_div u unat_power [OF less] using Cons Cons.prems by simp
    then have "base ^ length ds div base = base ^ (length ds - 1)" by (simp only: word_unat_eq_iff)
    with Cons.IH [OF _ _ _ less] Cons.prems dv show ?thesis
      by (simp add: value_Cons algebra_simps)
  qed
qed simp

lemma digits_of_length: "2 \<le> b \<Longrightarrow> n < 2 ^ 32 \<Longrightarrow> length (digits_of b n) \<le> 32 \<and> b ^ (length (digits_of b n) - 1) < 2 ^ 32"
proof -
  assume b: "2 \<le> b" and n: "n < 2 ^ 32"
  obtain k where k: "leading b k n" using leading_exists [OF b] by blast
  have lt: "b ^ k < 2 ^ 32" using k n by (auto simp: leading_def)
  have "(2::nat) ^ k \<le> b ^ k" using b by (rule power_mono) simp
  then have "(2::nat) ^ k < 2 ^ 32" using lt by (rule le_less_trans)
  then have "k < 32" by (rule power_less_imp_less_exp [rotated]) simp
  with k lt b show ?thesis by (simp add: length_digits_of)
qed

lemma numeral_text_read:
  assumes "base_fits num base" "\<not> is_digit_of c base"
  shows "str_into_num (numeral_text (unat base) (unat num) @ c # rest) 0 base =
    Some (int (length (numeral_text (unat base) (unat num))), num)"
proof -
  let ?ds = "digits_of (unat base) (unat num)"
  note b = base_fits_unat [OF assms(1)]
  have less: "\<forall>d \<in> set ?ds. d < unat base" using b by (intro digits_of_less) simp
  have "?ds \<noteq> []" by (subst digits_of.simps) simp
  moreover have "scan_digits (map digit_char ?ds @ c # rest) 0 base 0 = Some (length ?ds)"
    using b less assms(2) by (intro scan_numeral) simp_all
  moreover have "sum_digits (map digit_char ?ds) base (base ^ (length ?ds - 1)) 0 = num"
    using b less digits_of_length [of "unat base" "unat num"] unat_u32 [of num]
    by (subst sum_numeral) (simp_all add: value_digits_of)
  ultimately show ?thesis by (simp add: str_into_num_def numeral_text_def)
qed

lemma put_then_drop:
  "i + length cs < length s \<Longrightarrow>
   drop i ((take i s @ cs @ drop (i + length cs) s)[i + length cs := c]) = cs @ c # drop (i + length cs + 1) s"
  by (simp add: list_update_append upd_conv_take_nth_drop)

text \<open>C22. A number printed by \<open>num_into_string\<close> is read back by \<open>str_into_num\<close>: in every base from 2 to 16
  (in bases 10 and 16 for every 32 bit number, in the others below \<open>2 ^ 31\<close>) the conversion writes at
  most 32 bytes, and reading from where it started, up to any byte that is not a digit of the base,
  gives the number and the count of bytes written.\<close>

theorem number_text_roundtrip:
  assumes "base_fits num base" "i + 32 < length s"
  shows "\<exists>t j. num_into_string s i num base = Some (t, j) \<and> i < j \<and> j \<le> i + 32 \<and>
    (\<forall>c. \<not> is_digit_of c base \<longrightarrow> str_into_num (drop i (t[j := c])) 0 base = Some (int (j - i), num))"
proof -
  let ?cs = "numeral_text (unat base) (unat num)"
  note b = base_fits_unat [OF assms(1)]
  have "length ?cs \<le> 32" "?cs \<noteq> []"
    using digits_of_length [of "unat base" "unat num"] b unat_u32 [of num]
    by (simp_all add: numeral_text_def) (subst digits_of.simps, simp)
  with assms(2) have len: "i + length ?cs < length s" "i < i + length ?cs" "i + length ?cs \<le> i + 32" by auto
  let ?t = "take i s @ ?cs @ drop (i + length ?cs) s"
  have "num_into_string s i num base = Some (?t, i + length ?cs)"
    using len by (simp add: num_into_string_eq [OF assms(1)] put_bytes_eq)
  moreover have "str_into_num (drop i (?t[i + length ?cs := c])) 0 base = Some (int (length ?cs), num)"
    if "\<not> is_digit_of c base" for c
    using numeral_text_read [OF assms(1) that] put_then_drop [OF len(1)] by simp
  ultimately show ?thesis using len by auto
qed

theorem number_text_roundtrip_witness:
  "\<exists>t j. num_into_string (replicate 40 0) 3 3735928559 16 = Some (t, j) \<and> 3 < j \<and> j \<le> 35 \<and>
    (\<forall>c. \<not> is_digit_of c 16 \<longrightarrow> str_into_num (drop 3 (t[j := c])) 0 16 = Some (int (j - 3), 3735928559))"
  using number_text_roundtrip [of 3735928559 16 3 "replicate 40 0"] by (simp add: base_fits_def)

end
