(* ===== verification/Lib_Printf.thy ===== *)
theory Lib_Printf
  imports Lib_Str_Spec
begin

text \<open>
  kernel/lib_printf.c: \<open>printf_len\<close>, which predicts how many characters a format needs, and
  \<open>sprintf_in\<close>, which writes them. The variable arguments are a list of integers and strings;
  taking an argument that is not there, or of the other type, is undefined in C and \<open>None\<close> here. The
  loop over the format, \<open>while (i < len)\<close> with \<open>len = strlen(fmt)\<close>, is recursion over the first
  \<open>strlen\<close> bytes of the format; a \<open>%\<close> that ends the format looks at the NUL after it and does nothing.
\<close>

datatype arg = VInt u32 | VStr str


section \<open>Model\<close>

fun printf_len_from :: "str \<Rightarrow> arg list \<Rightarrow> nat \<Rightarrow> nat option" where
  "printf_len_from [] args count = Some count"
| "printf_len_from [c] args count = Some (if c = 37 then count else count + 1)"
| "printf_len_from (c # d # f) args count =
     (if c = 37 then
        (if d = 99 then
           (case args of VInt _ # args \<Rightarrow> printf_len_from f args (count + 1) | _ \<Rightarrow> None)
         else if d = 100 \<or> d = 105 then
           (case args of VInt x # args \<Rightarrow> do { n \<leftarrow> dec_into_string_len x; printf_len_from f args (count + n) }
            | _ \<Rightarrow> None)
         else if d = 120 then
           (case args of VInt x # args \<Rightarrow> do { n \<leftarrow> hex_into_string_len x; printf_len_from f args (count + n) }
            | _ \<Rightarrow> None)
         else if d = 115 then
           (case args of VStr s # args \<Rightarrow> do { n \<leftarrow> strlen s; printf_len_from f args (count + n) }
            | _ \<Rightarrow> None)
         else printf_len_from f args count)
      else printf_len_from (d # f) args (count + 1))"

definition printf_len :: "str \<Rightarrow> arg list \<Rightarrow> nat option" where
  "printf_len fmt args = do { len \<leftarrow> strlen fmt; printf_len_from (take len fmt) args 0 }"

fun sprintf_from :: "str \<Rightarrow> nat \<Rightarrow> str \<Rightarrow> arg list \<Rightarrow> (str \<times> nat) option" where
  "sprintf_from s count [] args = Some (s, count)"
| "sprintf_from s count [c] args =
     (if c = 37 then Some (s, count) else do { s \<leftarrow> nput s count c; Some (s, count + 1) })"
| "sprintf_from s count (c # d # f) args =
     (if c = 37 then
        (if d = 99 then
           (case args of VInt x # args \<Rightarrow> do {
              (s, count) \<leftarrow> char_into_string s count (ucast x); sprintf_from s count f args }
            | _ \<Rightarrow> None)
         else if d = 100 \<or> d = 105 then
           (case args of VInt x # args \<Rightarrow> do {
              (s, count) \<leftarrow> dec_into_string s count x; sprintf_from s count f args }
            | _ \<Rightarrow> None)
         else if d = 120 then
           (case args of VInt x # args \<Rightarrow> do {
              (s, count) \<leftarrow> hex_into_string s count x; sprintf_from s count f args }
            | _ \<Rightarrow> None)
         else if d = 115 then
           (case args of VStr t # args \<Rightarrow> do {
              (s, count) \<leftarrow> str_into_string s count t; sprintf_from s count f args }
            | _ \<Rightarrow> None)
         else sprintf_from s count f args)
      else do { s \<leftarrow> nput s count c; sprintf_from s (count + 1) (d # f) args })"

definition sprintf_in :: "str \<Rightarrow> str \<Rightarrow> arg list \<Rightarrow> str option" where
  "sprintf_in s fmt args = do {
     len \<leftarrow> strlen fmt;
     (s, count) \<leftarrow> sprintf_from s 0 (take len fmt) args;
     nput s count 0 }"

section \<open>What is printed\<close>

text \<open>The text of one directive, and of a format.\<close>

definition int_text :: "u8 \<Rightarrow> u32 \<Rightarrow> str" where
  "int_text d x = (if d = 99 then [ucast x] else if d = 120 then numeral_text 16 (unat x) else dec_text x)"

definition c_string :: "str \<Rightarrow> str option" where
  "c_string s = map_option (\<lambda>n. take n s) (strlen s)"

fun format_text :: "str \<Rightarrow> arg list \<Rightarrow> str option" where
  "format_text [] args = Some []"
| "format_text [c] args = Some (if c = 37 then [] else [c])"
| "format_text (c # d # f) args =
     (if c \<noteq> 37 then map_option ((#) c) (format_text (d # f) args)
      else if d \<in> {99, 100, 105, 120} then
        (case args of VInt x # args \<Rightarrow> map_option ((@) (int_text d x)) (format_text f args) | _ \<Rightarrow> None)
      else if d = 115 then
        (case args of VStr s # args \<Rightarrow> do { t \<leftarrow> c_string s; map_option ((@) t) (format_text f args) } | _ \<Rightarrow> None)
      else format_text f args)"

text \<open>How many of the numbers printed have more than one digit.\<close>

fun wide_numbers :: "str \<Rightarrow> arg list \<Rightarrow> nat" where
  "wide_numbers (c # d # f) args =
     (if c \<noteq> 37 then wide_numbers (d # f) args
      else if d \<in> {99, 100, 105, 120, 115} then
        (case args of
           VInt x # args \<Rightarrow> (if d \<noteq> 99 \<and> length (int_text d x) > 1 then 1 else 0) + wide_numbers f args
         | _ # args \<Rightarrow> wide_numbers f args | [] \<Rightarrow> 0)
      else wide_numbers f args)"
| "wide_numbers _ args = 0"

lemma put_bytes_cons: "put_bytes s i (c # cs) = do { s \<leftarrow> nput s i c; put_bytes s (i + 1) cs }"
  by simp

text \<open>\<open>sprintf_in\<close> writes the text of its format, and a NUL, or leaves its buffer.\<close>

lemma sprintf_from_eq:
  "format_text f args = Some t \<Longrightarrow> sprintf_from s i f args = put_bytes s i t"
proof (induction f args arbitrary: s i t rule: format_text.induct)
  case (3 c d f args)
  consider (char) "c \<noteq> 37" | (int) x as1 where "c = 37" "d \<in> {99, 100, 105, 120}" "args = VInt x # as1"
    | (str) x as1 where "c = 37" "d = 115" "args = VStr x # as1" | (other) "c = 37" "d \<notin> {99, 100, 105, 120, 115}"
    using "3.prems" by (auto split: if_splits list.splits arg.splits) 
  then show ?case
  proof cases
    case char with 3 show ?thesis by (auto split: bind_splits)
  next
    case int 
    then obtain t' where t: "format_text f as1 = Some t'" "t = int_text d x @ t'" using "3.prems" by auto
    from int "3.IH"(2) [OF _ _ int(3)] t(1) have IH: "sprintf_from s i f as1 = put_bytes s i t'" for s i
      by simp
    have "put_bytes s i t = do {(s, i) \<leftarrow> put_bytes s i (int_text d x); sprintf_from s i f as1}" 
      unfolding t(2) put_bytes_append IH ..
    with int(1,2) show ?thesis unfolding int(3)
      by (auto simp: int_text_def char_into_string_def dec_into_string_eq hex_into_string_eq)
  next
    case str
    with "3.prems" obtain n t' where t: "strlen x = Some n" "format_text f as1 = Some t'" "t = take n x @ t'" 
      by (auto simp: c_string_def split: bind_splits)
    from str "3.IH"(3) [OF _ _ _ str(3)] t(1,2) have IH: "sprintf_from s i f as1 = put_bytes s i t'" for s i
      by (simp add: c_string_def)
    have "put_bytes s i t = do {(s, i) \<leftarrow> put_bytes s i (take n x); sprintf_from s i f as1}" 
      unfolding t(3) put_bytes_append IH ..
    with str t(1) show ?thesis by (simp add: str_into_string_def)
  next
    case other
    with 3 show ?thesis by simp
  qed
qed (auto split: if_splits)


lemma sprintf_in_eq:
  assumes "strlen fmt = Some l" "format_text (take l fmt) args = Some t"
  shows "sprintf_in s fmt args = map_option fst (put_bytes s 0 (t @ [0]))"
  using assms by (auto simp: sprintf_in_def sprintf_from_eq put_bytes_append split: bind_splits)

section \<open>The predicted length\<close>

lemma digits_of_nonempty: "digits_of b n \<noteq> []"
  by (subst digits_of.simps) simp

text \<open>A number that is not negative and its predicted length.\<close>

lemma predicted_int:
  assumes "0 \<le>s x" "d \<in> {100, 105, 120}"
  shows "\<exists>n. (if d = 120 then hex_into_string_len x else dec_into_string_len x) = Some n \<and>
     n + (if length (int_text d x) > 1 then 1 else 0) = length (int_text d x)"
proof -
  have "\<not> x <s 0" using assms(1) by simp
  with assms(2) digits_of_nonempty [of 10 "unat x"] digits_of_nonempty [of 16 "unat x"] show ?thesis
    by (cases "digits_of 10 (unat x)"; cases "digits_of 16 (unat x)") (auto simp: int_text_def dec_text_def numeral_text_def hex_into_string_len_def
        dec_into_string_len_def num_into_string_len_eq max_def not_less_eq_eq Suc_le_eq)
qed

lemma strlen_less: "strlen s = Some n \<Longrightarrow> n < length s"
  by (induction s arbitrary: n) (auto split: if_splits)

lemma printf_len_from_eq:
  assumes "format_text f args = Some t" "\<forall>x. VInt x \<in> set args \<longrightarrow> 0 \<le>s x"
  shows "\<exists>m. printf_len_from f args n = Some m \<and> m + wide_numbers f args = n + length t"
  using assms
proof (induction f args arbitrary: n t rule: format_text.induct)
  case (3 c d f args)
  consider (char) "c \<noteq> 37" | (single) x as1 where "c = 37" "d = 99" "args = VInt x # as1"
    | (int) x as1 where "c = 37" "d \<in> {100, 105, 120}" "args = VInt x # as1"
    | (str) x as1 where "c = 37" "d = 115" "args = VStr x # as1" | (other) "c = 37" "d \<notin> {99, 100, 105, 120, 115}"
    using "3.prems"(1) by (auto split: if_splits list.splits arg.splits) 
  then show ?case
  proof cases
    case char with "3.prems" "3.IH"(1) [OF char, of _ "n + 1"] show ?thesis by auto
  next
    case single 
    then obtain t' where t: "format_text f as1 = Some t'" "t = [ucast x] @ t'" 
      using "3.prems" by (auto simp: int_text_def)
    from single "3.IH"(2) [OF _ _ single(3), of x t' "n + 1"] "3.prems"(2) t
    show ?thesis by auto
  next
    case int 
    then obtain t' where t: "format_text f as1 = Some t'" "t = int_text d x @ t'" using "3.prems" by auto
    obtain k where k: "(if d = 120 then hex_into_string_len x else dec_into_string_len x) = Some k"
       "k + (if length (int_text d x) > 1 then 1 else 0) = length (int_text d x)"
      using predicted_int [of x d] int "3.prems"(2) by auto
    from int "3.IH"(2) [OF _ _ int(3), of x t' "n + k"] "3.prems"(2) t k
    show ?thesis by (auto split: if_splits)
  next
    case str
    with "3.prems" obtain k t' where t: "strlen x = Some k" "format_text f as1 = Some t'" "t = take k x @ t'" 
      by (auto simp: c_string_def split: bind_splits)
    from str "3.IH"(3) [OF _ _ _ str(3), of x "take k x" t' "n + k"] "3.prems"(2) t(1,2) 
    show ?thesis by (auto simp: t(3) c_string_def strlen_less [OF t(1)] min.absorb2 less_imp_le)
  next
    case other
    with 3 show ?thesis by simp
  qed
qed (auto split: if_splits)

text \<open>A buffer of the predicted length is left when a number of more than one digit is printed.\<close>

lemma wide_leaves_buffer:
  assumes "strlen fmt = Some l" "format_text (take l fmt) args = Some t"
    and "\<forall>x. VInt x \<in> set args \<longrightarrow> 0 \<le>s x" "wide_numbers (take l fmt) args \<noteq> 0"
  shows "\<exists>n. printf_len fmt args = Some n \<and> sprintf_in (replicate (n + 1) 0) fmt args = None"
proof -
  obtain n where "printf_len_from (take l fmt) args 0 = Some n" "n + wide_numbers (take l fmt) args = length t"
    using printf_len_from_eq [OF assms(2,3), of 0] by auto
  then show ?thesis using assms(1,4) by (auto simp: printf_len_def sprintf_in_eq [OF assms(1,2)] put_bytes_eq)
qed

text \<open>C26. The buffers that \<open>vga_printf\<close> and \<open>logf\<close> allocate, of \<open>printf_len + 1\<close> bytes, are too small for
  every format that prints a number of more than one digit: with no negative number among the
  arguments, the predicted length is the length of the text less the count of such numbers, and
  \<open>sprintf_in\<close> leaves the buffer exactly when there is one; otherwise it writes the text and a NUL.\<close>

theorem printf_buffer_too_small:
  assumes "strlen fmt = Some l" "format_text (take l fmt) args = Some t"
    and "\<forall>x. VInt x \<in> set args \<longrightarrow> 0 \<le>s x"
  shows "\<exists>n. printf_len fmt args = Some n \<and> n + wide_numbers (take l fmt) args = length t \<and>
    (\<forall>buf. length buf = n + 1 \<longrightarrow> sprintf_in buf fmt args =
       (if wide_numbers (take l fmt) args = 0 then Some (t @ [0]) else None))"
proof -
  obtain n where n: "printf_len_from (take l fmt) args 0 = Some n" "n + wide_numbers (take l fmt) args = length t"
    using printf_len_from_eq [OF assms(2,3), of 0] by auto
  then have "printf_len fmt args = Some n" using assms(1) by (simp add: printf_len_def)
  with n show ?thesis by (auto simp: sprintf_in_eq [OF assms(1,2)] put_bytes_eq)
qed

text \<open>\<open>"pid %d"\<close> with 42: the length is predicted as 5, the text has 6 characters.\<close>

theorem printf_buffer_too_small_witness:
  "\<exists>n. printf_len [112, 105, 100, 32, 37, 100, 0] [VInt 42] = Some n \<and> n + 1 = 6 \<and>
    (\<forall>buf. length buf = n + 1 \<longrightarrow> sprintf_in buf [112, 105, 100, 32, 37, 100, 0] [VInt 42] = None)"
proof -
  let ?f = "[112, 105, 100, 32, 37, 100, 0] :: str"
  have "\<not> (42 :: u32) <s 0" by (simp add: word_sless_alt)
  moreover have "digits_of 10 42 = [4, 2]" by (simp add: digits_of.simps)
  ultimately have i: "int_text 100 42 = [digit_char 4, digit_char 2]"
    by (simp add: int_text_def dec_text_def numeral_text_def)
  have l: "strlen ?f = Some 6" by simp
  have f: "format_text (take 6 ?f) [VInt 42] = Some [112, 105, 100, 32, digit_char 4, digit_char 2]"
    by (simp add: i)
  have n: "\<forall>x. VInt x \<in> set [VInt 42] \<longrightarrow> 0 \<le>s x" by (simp add: word_sle_eq)
  have w: "wide_numbers (take 6 ?f) [VInt 42] = 1" by (simp add: i)
  have len: "length [112, 105, 100, 32, digit_char 4, digit_char 2] = 6" by simp
  show ?thesis
    using printf_buffer_too_small [OF l f n] unfolding w len by simp
qed

end
