(* ===== verification/Vga.thy ===== *)
theory Vga
  imports Io Lib_Printf
begin

text \<open>
  The text screen, kernel/vga.c. Video memory is physical memory at \<open>0xB8000\<close>, two bytes per
  character, and the saved screens of the consoles have the same layout elsewhere, so every routine
  works on \<open>ram\<close> at an address.
\<close>

definition vga_addr :: u32 where "vga_addr = 0xB8000"
definition vga_cols :: u32 where "vga_cols = 80"
definition vga_rows :: u32 where "vga_rows = 25"

section \<open>Writing\<close>

text \<open>The loop of \<open>vga_write_in_memory\<close>, from character \<open>i\<close> on.\<close>

function vga_write_loop :: "str \<Rightarrow> u8 \<Rightarrow> u8 \<Rightarrow> nat \<Rightarrow> u32 \<Rightarrow> u32 \<Rightarrow> ram \<Rightarrow> ram option" where
  "vga_write_loop msg attr cant i video limit r =
     (if cant = 0 \<and> i \<ge> length msg then None
      else if ((cant = 0 \<and> msg ! i \<noteq> 0) \<or> (cant \<noteq> 0 \<and> i < unat cant)) \<and> video < limit then
        (if i < length msg
         then vga_write_loop msg attr cant (i + 1) (video + 2) limit (r(video := msg ! i, video + 1 := attr))
         else None)
      else Some r)"
  by pat_completeness auto
termination
  by (relation "measure (\<lambda>(msg, attr, cant, i, video, limit, r). length msg - i)") auto

declare vga_write_loop.simps [simp del]

text \<open>The limit is computed after the address has been moved to the row and the column.\<close>

definition vga_write_in_memory :: "u32 \<Rightarrow> u8 \<Rightarrow> u8 \<Rightarrow> str \<Rightarrow> u8 \<Rightarrow> u8 \<Rightarrow> ram \<Rightarrow> ram option" where
  "vga_write_in_memory video fila col msg attr cant r =
     (let video = video + (vga_cols * 2 * ucast fila + ucast col * 2);
          limit = video + 4000
      in vga_write_loop msg attr cant 0 video limit r)"

definition vga_write :: "u16 \<Rightarrow> u16 \<Rightarrow> str \<Rightarrow> u8 \<Rightarrow> ram \<Rightarrow> ram option" where
  "vga_write f c msg attr r = vga_write_in_memory vga_addr (ucast f) (ucast c) msg attr 0 r"

text \<open>The local buffer of \<open>vga_printf\<close>; its initial bytes are not read before they are written.\<close>

definition vga_printf :: "u16 \<Rightarrow> u16 \<Rightarrow> str \<Rightarrow> u8 \<Rightarrow> arg list \<Rightarrow> ram \<Rightarrow> ram option" where
  "vga_printf f c format attr args r = do {
     amount \<leftarrow> printf_len format args;
     buff \<leftarrow> sprintf_in (replicate (amount + 1) 0) format args;
     vga_write f c buff attr r }"

section \<open>Whole screens\<close>

text \<open>One row up: the rows are copied, then the last one is cleared with the last attribute.\<close>

definition move_scr_up :: "u32 \<Rightarrow> ram \<Rightarrow> ram" where
  "move_scr_up video_addr r =
     (let r = fold (\<lambda>i r. r(video_addr + of_nat i := r (video_addr + of_nat i + vga_cols * 2))) [0..<3840] r;
          bkg = r (video_addr + 3839)
      in fold (\<lambda>i r. r(video_addr + of_nat (3840 + 2 * i) := 0, video_addr + of_nat (3841 + 2 * i) := bkg)) [0..<80] r)"

definition make_format :: "u8 \<Rightarrow> u8 \<Rightarrow> u8 \<Rightarrow> u8 \<Rightarrow> u8" where
  "make_format blink front back bright =
     (front AND 7) OR push_bit 3 (of_bool (0 <s bright)) OR push_bit 4 (back AND 7) OR push_bit 7 (of_bool (0 <s blink))"

definition fill_screen :: "u8 \<Rightarrow> u8 \<Rightarrow> ram \<Rightarrow> ram" where
  "fill_screen color bright r =
     fold (\<lambda>i r. r(vga_addr + of_nat (2 * i) := 0, vga_addr + of_nat (2 * i + 1) := make_format 0 0 color bright))
       [0..<2000] r"

definition clear_screen :: "ram \<Rightarrow> ram" where
  "clear_screen = fill_screen 0 0"

definition copy_memory_to_screen :: "u32 \<Rightarrow> ram \<Rightarrow> ram" where
  "copy_memory_to_screen initial_position r =
     fold (\<lambda>i r. r(vga_addr + of_nat i := r (initial_position + of_nat i))) [0..<4000] r"

definition copy_screen_to_memory :: "u32 \<Rightarrow> ram \<Rightarrow> ram" where
  "copy_screen_to_memory initial_position r =
     fold (\<lambda>i r. r(initial_position + of_nat i := r (vga_addr + of_nat i))) [0..<4000] r"

end
