(* ===== verification/Console.thy ===== *)
theory Console
  imports Device Vga
begin

text \<open>
  Consoles, kernel/con.c. A console is a kernel page: the structure \<open>chardev_console\<close>, 80 bytes, and
  its saved screen of 4000 bytes. The open consoles are a ring through their \<open>next\<close> and \<open>prev\<close>;
  the current one is shown in video memory and receives what is typed, in a circular buffer of 30
  characters that \<open>con_read\<close> empties. A read of more than there is blocks the task: the operation is
  cut there, as in theory \<open>Pipe\<close>. An address that is not that of a console, in particular \<open>NULL\<close>,
  cannot be dereferenced; the model gives None.
\<close>

text \<open>The bytes of a C string literal.\<close>

definition cstr :: "string \<Rightarrow> str" where
  "cstr s = map of_char s @ [0]"

section \<open>State\<close>

definition CON_BUFF_SIZE :: u32 where "CON_BUFF_SIZE = 30"
definition CON_ERROR_READTOOLARGE :: u32 where "CON_ERROR_READTOOLARGE = - 5"
definition CONSOLE_STYLE_DEFAULT :: u8 where "CONSOLE_STYLE_DEFAULT = 0x00 OR 0x07 OR 0x08"
definition BLOCK_NO_BLINK :: u8 where "BLOCK_NO_BLINK = 0x00 OR 0x07 OR 0x08 OR 0x07"

text \<open>The array \<open>block\<close>: the cursor, a NUL and a space.\<close>

definition block :: str where "block = [219, 0, 32]"

record conk = devk +
  current_console :: u32
  empty_console :: u32
  altPressed :: u32
  shiftPressed :: u32

definition get_con :: "'a devk_scheme \<Rightarrow> u32 \<Rightarrow> chardev_console option" where
  "get_con k a = (case objs k a of Some (Con c) \<Rightarrow> Some c | _ \<Rightarrow> None)"

definition mod_con :: "u32 \<Rightarrow> (chardev_console \<Rightarrow> chardev_console) \<Rightarrow> 'a devk_scheme \<Rightarrow> 'a devk_scheme option" where
  "mod_con a f k = do { c \<leftarrow> get_con k a; Some (put_obj a (Con (f c)) k) }"

text \<open>The address of \<open>console_screen\<close>; computing it does not read the structure.\<close>

definition console_screen :: "u32 \<Rightarrow> u32" where
  "console_screen a = a + 80"

definition mod_ram :: "(ram \<Rightarrow> ram) \<Rightarrow> 'a devk_scheme \<Rightarrow> 'a devk_scheme" where
  "mod_ram f k = k\<lparr>ram := f (ram k)\<rparr>"

section \<open>Switching\<close>

definition move_to_right_console :: "'a conk_scheme \<Rightarrow> 'a conk_scheme option" where
  "move_to_right_console k =
     (if current_console k \<noteq> 0 then do {
        k \<leftarrow> Some (mod_ram (copy_screen_to_memory (console_screen (current_console k))) k);
        c \<leftarrow> get_con k (current_console k);
        k \<leftarrow> Some (mod_ram (copy_memory_to_screen (console_screen (con_next c))) k);
        Some (k\<lparr>current_console := con_next c\<rparr>) }
      else Some k)"

text \<open>The first copy comes before the test for \<open>NULL\<close>.\<close>

definition move_to_left_console :: "'a conk_scheme \<Rightarrow> 'a conk_scheme option" where
  "move_to_left_console k = do {
     k \<leftarrow> Some (mod_ram (copy_screen_to_memory (console_screen (current_console k))) k);
     if current_console k \<noteq> 0 then do {
       c \<leftarrow> get_con k (current_console k);
       k \<leftarrow> Some (mod_ram (copy_memory_to_screen (console_screen (con_prev c))) k);
       Some (k\<lparr>current_console := con_prev c\<rparr>) }
     else Some k }"

definition move_to_empty_console :: "'a conk_scheme \<Rightarrow> 'a conk_scheme" where
  "move_to_empty_console k =
     (mod_ram (copy_memory_to_screen (console_screen (empty_console k))) k)\<lparr>current_console := empty_console k\<rparr>"

definition set_console_style :: "u32 \<Rightarrow> u8 \<Rightarrow> 'a conk_scheme \<Rightarrow> 'a conk_scheme option" where
  "set_console_style console style k = do {
     k \<leftarrow> mod_con console (\<lambda>c. c\<lparr>con_style := style\<rparr>) k;
     k \<leftarrow> Some (mod_ram (fold (\<lambda>i r. r(console_screen console + of_nat (2 * i + 1) := style)) [0..<2000]) k);
     Some (if current_console k = console
           then mod_ram (copy_memory_to_screen (console_screen console)) k else k) }"

section \<open>Opening and closing\<close>

text \<open>The fields that \<open>con_open\<close> does not set keep the zeros of the new page.\<close>

definition new_console :: chardev_console where
  "new_console =
     \<lparr>con_dev = \<lparr>clase = DEV_ID_CHAR_CON, refcount = 0, fn_flush = Some Con_flush, fn_read = Some Con_read,
        fn_write = Some Con_write, fn_seek = None\<rparr>,
      con_next = 0, con_prev = 0, con_fila = 0, con_columna = 0, con_style = CONSOLE_STYLE_DEFAULT,
      last_ps1_fila = 0, ps1_width = 12, con_buff = replicate 30 0, buff_index_start = 0,
      buff_index_end = 0, buff_cant = 0, con_busy = 0, read_expected = 0, con_sem = SEM_NEW 0\<rparr>"

text \<open>Linking the new console after the current one.\<close>

definition con_link :: "u32 \<Rightarrow> 'a conk_scheme \<Rightarrow> 'a conk_scheme option" where
  "con_link new k =
     (if current_console k = 0 then do {
        k \<leftarrow> mod_con new (\<lambda>c. c\<lparr>con_next := new\<rparr>) k;
        mod_con new (\<lambda>c. c\<lparr>con_prev := new\<rparr>) k }
      else do {
        cur \<leftarrow> get_con k (current_console k);
        k \<leftarrow> mod_con new (\<lambda>c. c\<lparr>con_next := con_next cur\<rparr>) k;
        k \<leftarrow> mod_con new (\<lambda>c. c\<lparr>con_prev := current_console k\<rparr>) k;
        cur \<leftarrow> get_con k (current_console k);
        k \<leftarrow> mod_con (con_next cur) (\<lambda>c. c\<lparr>con_prev := new\<rparr>) k;
        mod_con (current_console k) (\<lambda>c. c\<lparr>con_next := new\<rparr>) k })"

text \<open>\<open>con_open\<close> does not look whether there was a page, nor whether there is a current console
  whose screen it can save.\<close>

definition con_open :: "'a conk_scheme \<Rightarrow> (u32 \<times> 'a conk_scheme) option" where
  "con_open k = do {
     (new, k) \<leftarrow> mm_mem_kalloc k;
     k \<leftarrow> Some (put_obj new (Con new_console) k);
     k \<leftarrow> Some (mod_ram (fold (\<lambda>i r. r(console_screen new + of_nat (2 * i) := 0,
            console_screen new + of_nat (2 * i + 1) := CONSOLE_STYLE_DEFAULT)) [0..<2000]) k);
     k \<leftarrow> con_link new k;
     k \<leftarrow> Some (mod_ram (copy_screen_to_memory (console_screen (current_console k))) k);
     k \<leftarrow> Some (k\<lparr>current_console := new\<rparr>);
     k \<leftarrow> Some (mod_ram (copy_memory_to_screen (console_screen new)) k);
     Some (new, k) }"

definition con_unlink :: "u32 \<Rightarrow> 'a conk_scheme \<Rightarrow> 'a conk_scheme option" where
  "con_unlink this k = do {
     c \<leftarrow> get_con k this;
     if con_next c \<noteq> this then do {
       k \<leftarrow> mod_con (con_next c) (\<lambda>d. d\<lparr>con_prev := con_prev c\<rparr>) k;
       c \<leftarrow> get_con k this;
       mod_con (con_prev c) (\<lambda>d. d\<lparr>con_next := con_next c\<rparr>) k }
     else Some k }"

definition con_flush :: "u32 \<Rightarrow> 'a conk_scheme \<Rightarrow> (u32 \<times> 'a conk_scheme) option" where
  "con_flush this k = do {
     c \<leftarrow> get_con k this;
     if refcount (con_dev c) > 1 then do { k \<leftarrow> add_ref (-1) this k; Some (0, k) }
     else do {
       k \<leftarrow> con_unlink this k;
       c \<leftarrow> get_con k this;
       k \<leftarrow> (if current_console k = this
             then (if con_next c = this then Some (move_to_empty_console k) else move_to_right_console k)
             else Some k);
       k \<leftarrow> mm_mem_free this k;
       Some (0, drop_obj this k) } }"

definition con_init :: "'a conk_scheme \<Rightarrow> 'a conk_scheme option" where
  "con_init k = do {
     (e, k) \<leftarrow> con_open k;
     k \<leftarrow> Some (k\<lparr>empty_console := e\<rparr>);
     k \<leftarrow> set_console_style e (0x40 OR 0x02 OR 0x08) k;
     k \<leftarrow> Some (k\<lparr>current_console := 0\<rparr>);
     r \<leftarrow> vga_write 12 35 (cstr ''EMPTY CONSOLE'') (0x40 OR 0x02 OR 0x08) (ram k);
     k \<leftarrow> Some (k\<lparr>ram := r\<rparr>);
     k \<leftarrow> Some (mod_ram (copy_screen_to_memory (console_screen e)) k);
     k \<leftarrow> register_syscall 0x39 Sys_run k;
     Some (outb 0x3D5 0xFF (outb 0x3D4 15 (outb 0x3D5 0xFF (outb 0x3D4 14 k)))) }"

section \<open>Reading\<close>

datatype 'k con_res = Read_done u32 str 'k | Read_waits 'k

text \<open>The copying loop.\<close>

primrec con_take :: "u32 \<Rightarrow> nat \<Rightarrow> 'a conk_scheme \<Rightarrow> (str \<times> 'a conk_scheme) option" where
  "con_take this 0 k = Some ([], k)"
| "con_take this (Suc n) k = do {
     c \<leftarrow> get_con k this;
     b \<leftarrow> aget (con_buff c) (ucast (buff_index_start c));
     k \<leftarrow> mod_con this (\<lambda>c. c\<lparr>buff_index_start := ucast ((ucast (buff_index_start c) + 1) mod CON_BUFF_SIZE)\<rparr>) k;
     (bs, k) \<leftarrow> con_take this n k;
     Some (b # bs, k) }"

text \<open>What a read does once it has not had to wait, or has been woken up.\<close>

definition con_read_rest :: "u32 \<Rightarrow> u32 \<Rightarrow> 'a conk_scheme \<Rightarrow> 'a conk_scheme con_res option" where
  "con_read_rest this sz k = do {
     (bs, k) \<leftarrow> con_take this (unat sz) k;
     k \<leftarrow> mod_con this (\<lambda>c. c\<lparr>buff_cant := buff_cant c - ucast sz\<rparr>) k;
     k \<leftarrow> mod_con this (\<lambda>c. c\<lparr>read_expected := 0\<rparr>) k;
     Some (Read_done 0 bs k) }"

definition con_read :: "u32 \<Rightarrow> u32 \<Rightarrow> 'a conk_scheme \<Rightarrow> 'a conk_scheme con_res option" where
  "con_read this sz k =
     (if sz > CON_BUFF_SIZE then Some (Read_done CON_ERROR_READTOOLARGE [] k)
      else do {
        c \<leftarrow> get_con k this;
        if ucast (buff_cant c) < sz then do {
          k \<leftarrow> mod_con this (\<lambda>c. c\<lparr>con_busy := 1, read_expected := ucast sz\<rparr>) k;
          c \<leftarrow> get_con k this;
          (s, k) \<leftarrow> sem_wait (con_sem c) k;
          k \<leftarrow> mod_con this (\<lambda>c. c\<lparr>con_sem := s\<rparr>) k;
          if vl (con_sem c) = 0 then Some (Read_waits k) else con_read_rest this sz k }
        else con_read_rest this sz k })"

section \<open>Writing\<close>

definition write_in_console :: "u32 \<Rightarrow> str \<Rightarrow> u8 \<Rightarrow> u8 \<Rightarrow> 'a conk_scheme \<Rightarrow> 'a conk_scheme option" where
  "write_in_console this msg style cant k = do {
     c \<leftarrow> get_con k this;
     r \<leftarrow> vga_write_in_memory (if current_console k = this then vga_addr else console_screen this)
            (con_fila c) (con_columna c) msg style cant (ram k);
     Some (k\<lparr>ram := r\<rparr>) }"

text \<open>One character: a new line, a backspace, which stops at column 14, or a character to show.\<close>

definition con_put :: "u32 \<Rightarrow> u8 \<Rightarrow> 'a conk_scheme \<Rightarrow> 'a conk_scheme option" where
  "con_put this b k =
     (if b = 10 then do {
        k \<leftarrow> write_in_console this (drop 2 block) BLOCK_NO_BLINK 1 k;
        k \<leftarrow> mod_con this (\<lambda>c. c\<lparr>con_fila := con_fila c + 1\<rparr>) k;
        mod_con this (\<lambda>c. c\<lparr>con_columna := 0\<rparr>) k }
      else if b = 8 then do {
        c \<leftarrow> get_con k this;
        if con_columna c \<ge> 14 then do {
          k \<leftarrow> (if con_columna c = 0
                then mod_con this (\<lambda>c. c\<lparr>con_columna := ucast (vga_cols - 1), con_fila := con_fila c - 1\<rparr>) k
                else mod_con this (\<lambda>c. c\<lparr>con_columna := con_columna c - 1\<rparr>) k);
          write_in_console this block BLOCK_NO_BLINK 2 k }
        else Some k }
      else do {
        c \<leftarrow> get_con k this;
        k \<leftarrow> write_in_console this [b] (con_style c) 1 k;
        k \<leftarrow> (if ucast (con_columna c) + 1 = vga_cols
              then mod_con this (\<lambda>c. c\<lparr>con_fila := con_fila c + 1\<rparr>) k else Some k);
        k \<leftarrow> mod_con this (\<lambda>c. c\<lparr>con_columna := ucast ((ucast (con_columna c) + 1) mod vga_cols)\<rparr>) k;
        write_in_console this block BLOCK_NO_BLINK 1 k })"

text \<open>The screen moves up when the cursor is on the last row: the saved screen, and the one in video
  memory whichever console it shows.\<close>

definition con_scroll :: "u32 \<Rightarrow> 'a conk_scheme \<Rightarrow> 'a conk_scheme option" where
  "con_scroll this k = do {
     c \<leftarrow> get_con k this;
     if ucast (con_fila c) = vga_rows - 1 then do {
       k \<leftarrow> mod_con this (\<lambda>c. c\<lparr>con_fila := con_fila c - 1\<rparr>) k;
       k \<leftarrow> Some (mod_ram (move_scr_up (console_screen this)) k);
       Some (mod_ram (move_scr_up 0xB8000) k) }
     else Some k }"

text \<open>The loop; \<open>video\<close> and \<open>screen_limit\<close> are not updated in it.\<close>

fun con_write_loop :: "u32 \<Rightarrow> u32 \<Rightarrow> u32 \<Rightarrow> str \<Rightarrow> u32 \<Rightarrow> 'a conk_scheme \<Rightarrow> (u32 \<times> 'a conk_scheme) option" where
  "con_write_loop this video screen_limit [] n k = Some (n, k)"
| "con_write_loop this video screen_limit (b # bs) n k =
     (if video < screen_limit then do {
        k \<leftarrow> con_put this b k;
        k \<leftarrow> con_scroll this k;
        con_write_loop this video screen_limit bs (n + 1) k }
      else Some (n, k))"

definition calculate_video_position :: "u32 \<Rightarrow> chardev_console \<Rightarrow> u32" where
  "calculate_video_position this c =
     console_screen this + vga_cols * 2 * ucast (con_fila c) + ucast (con_columna c) * 2"

definition con_write :: "u32 \<Rightarrow> str \<Rightarrow> 'a conk_scheme \<Rightarrow> (u32 \<times> 'a conk_scheme) option" where
  "con_write this bs k = do {
     c \<leftarrow> get_con k this;
     con_write_loop this (calculate_video_position this c) (console_screen this + 4000) bs 0 k }"

section \<open>The keyboard\<close>

text \<open>The table of \<open>getc\<close>; the codes of Alt and Shift, which return 0, are in \<open>getc\<close>.\<close>

definition scan_table :: "(u16 \<times> u8) list" where
  "scan_table =
     [(0x1e, 97), (0x30, 98), (0x2e, 99), (0x20, 100), (0x12, 101), (0x21, 102), (0x22, 103),
      (0x23, 104), (0x17, 105), (0x24, 106), (0x25, 107), (0x26, 108), (0x32, 109), (0x31, 110),
      (0x18, 111), (0x19, 112), (0x10, 113), (0x13, 114), (0x1f, 115), (0x14, 116), (0x16, 117),
      (0x2f, 118), (0x11, 119), (0x2d, 120), (0x15, 121), (0x2c, 122), (0x02, 49), (0x03, 50),
      (0x04, 51), (0x05, 52), (0x06, 53), (0x07, 54), (0x08, 55), (0x09, 56), (0x0a, 57), (0x0b, 48),
      (0x34, 46), (0x39, 32), (0x1c, 10), (0x0f, 9), (0x0e, 8)]"

definition getc :: "u16 \<Rightarrow> 'a conk_scheme \<Rightarrow> u8 \<times> 'a conk_scheme" where
  "getc scan_code k =
     (case map_of scan_table scan_code of Some c \<Rightarrow> (c, k)
      | None \<Rightarrow>
          if scan_code = 0x38 then (0, k\<lparr>altPressed := 1\<rparr>)
          else if scan_code = 0x2a then (0, k\<lparr>shiftPressed := 1\<rparr>)
          else if scan_code = 0x38 + 0x80 then (0, k\<lparr>altPressed := 0\<rparr>)
          else if scan_code = 0x2a + 0x80 then (0, k\<lparr>shiftPressed := 0\<rparr>)
          else (if (scan_code \<ge> 0x3b \<and> scan_code \<le> 0x44) \<or> (scan_code \<ge> 0x57 \<and> scan_code \<le> 0x58)
                then 95 else 0, k))"

text \<open>A character goes into the buffer of the current console if there is room.\<close>

definition con_store :: "u8 \<Rightarrow> 'a conk_scheme \<Rightarrow> 'a conk_scheme option" where
  "con_store incoming_char k = do {
     let cur = current_console k;
     c \<leftarrow> get_con k cur;
     if ucast (buff_cant c) < CON_BUFF_SIZE then do {
       let index = buff_index_end c;
       buff \<leftarrow> aput (con_buff c) (ucast index) incoming_char;
       k \<leftarrow> mod_con cur (\<lambda>c. c\<lparr>con_buff := buff, buff_index_end := ucast (ucast (index + 1) mod CON_BUFF_SIZE),
              buff_cant := buff_cant c + 1\<rparr>) k;
       c \<leftarrow> get_con k cur;
       if buff_cant c \<ge> read_expected c \<and> con_busy c \<noteq> 0 then do {
         k \<leftarrow> mod_con cur (\<lambda>c. c\<lparr>con_busy := 0\<rparr>) k;
         (s, k) \<leftarrow> sem_signal (con_sem c) k;
         mod_con cur (\<lambda>c. c\<lparr>con_sem := s\<rparr>) k }
       else Some k }
     else Some k }"

definition console_keyPressed :: "u16 \<Rightarrow> 'a conk_scheme \<Rightarrow> 'a conk_scheme option" where
  "console_keyPressed tecla k = do {
     k \<leftarrow> (if altPressed k = 1 \<and> shiftPressed k = 1 then
             (if tecla = 0x4d then move_to_right_console k
              else if tecla = 0x4b then move_to_left_console k else Some k)
           else Some k);
     let (incoming_char, k) = getc tecla k;
     if incoming_char \<noteq> 0 then con_store incoming_char k else Some k }"

text \<open>The interrupt handler of the keyboard, kernel/debug.c: the code is read into the low byte.\<close>

definition isr_keyboard_c :: "'a conk_scheme \<Rightarrow> 'a conk_scheme option" where
  "isr_keyboard_c k = do {
     (b, k) \<leftarrow> inb_port 0x60 k;
     k \<leftarrow> console_keyPressed (ucast b) k;
     Some (outb 0x20 0x20 k) }"

end
