(* ===== verification/Tables.thy ===== *)
theory Tables
  imports Console
begin

text \<open>
  The processor's tables and the interrupt controllers: kernel/gdt.c, kernel/tss.c, kernel/idt.c,
  kernel/pic.c. The addresses the linker gives to \<open>tss_entry\<close> and to the interrupt routines of
  kernel/isr.asm are not in the source; they are arguments (\<open>addr\<close> maps each routine to its address).
\<close>

section \<open>The global descriptor table\<close>

text \<open>The bit fields of \<open>str_gdt_entry_fld\<close>, in the order in which they are packed.\<close>

record gdt_entry =
  limit_0 :: u16
  base_01 :: u16
  base_2 :: u8
  seg_type :: "4 word"
  seg_s :: "1 word"
  dpl :: "2 word"
  seg_p :: "1 word"
  limit_1 :: "4 word"
  avl :: "1 word"
  seg_l :: "1 word"
  db :: "1 word"
  seg_g :: "1 word"
  base_3 :: u8

text \<open>The eight bytes of an entry. The fields are packed without gaps, each above the one before it, as the
  compiler lays out a packed structure and its bit fields on this processor; the union shows them as
  two words.\<close>

definition gdt_fields :: "gdt_entry \<Rightarrow> (nat \<times> 64 word) list" where
  "gdt_fields e =
     [(16, ucast (limit_0 e)), (16, ucast (base_01 e)), (8, ucast (base_2 e)), (4, ucast (seg_type e)),
      (1, ucast (seg_s e)), (2, ucast (dpl e)), (1, ucast (seg_p e)), (4, ucast (limit_1 e)),
      (1, ucast (avl e)), (1, ucast (seg_l e)), (1, ucast (db e)), (1, ucast (seg_g e)), (8, ucast (base_3 e))]"

fun pack_fields :: "(nat \<times> 64 word) list \<Rightarrow> 64 word" where
  "pack_fields [] = 0"
| "pack_fields ((w, v) # fs) = take_bit w v OR push_bit w (pack_fields fs)"

definition gdt_vl :: "gdt_entry \<Rightarrow> u32 \<times> u32" where
  "gdt_vl e = (let b = pack_fields (gdt_fields e) in (ucast b, ucast (drop_bit 32 b)))"

definition make_gdt_entry :: "u32 \<Rightarrow> u32 \<Rightarrow> u16 \<Rightarrow> gdt_entry" where
  "make_gdt_entry addr limit attr =
     \<lparr>limit_0 = ucast (limit AND 0xFFFF), base_01 = ucast (addr AND 0xFFFF),
      base_2 = ucast (drop_bit 16 addr AND 0xFF), seg_type = ucast (attr AND 0xF),
      seg_s = ucast (drop_bit 4 attr AND 1), dpl = ucast (drop_bit 5 attr AND 3),
      seg_p = ucast (drop_bit 7 attr AND 1), limit_1 = ucast (drop_bit 16 limit AND 0xF),
      avl = ucast (drop_bit 8 attr AND 1), seg_l = ucast (drop_bit 9 attr AND 1),
      db = ucast (drop_bit 10 attr AND 1), seg_g = ucast (drop_bit 11 attr AND 1),
      base_3 = ucast (drop_bit 24 addr AND 0xFF)\<rparr>"

definition GDT_ATTR_SEG :: u16 where "GDT_ATTR_SEG = 0x800 OR 0x010 OR 0x400 OR 0x080"
definition GDT_ATTR_SEG_CODE :: u16 where "GDT_ATTR_SEG_CODE = 0x008 OR 0x002"
definition GDT_ATTR_SEG_DATA :: u16 where "GDT_ATTR_SEG_DATA = 0x002"

definition STACK_0_VIRTUAL :: u32 where "STACK_0_VIRTUAL = 0xFFFFE000"
definition STACK_3_VIRTUAL :: u32 where "STACK_3_VIRTUAL = 0xFFFFD000"
definition GDT_COUNT :: nat where "GDT_COUNT = 8"

text \<open>The initial value of the table; the entries without initialiser are zero.\<close>

definition gdt_initial :: "gdt_entry list" where
  "gdt_initial =
     [make_gdt_entry 0 0 0,
      make_gdt_entry 0 0xFFFFF (GDT_ATTR_SEG OR GDT_ATTR_SEG_CODE OR 0x000),
      make_gdt_entry 0 0xFFFFF (GDT_ATTR_SEG OR GDT_ATTR_SEG_DATA OR 0x000),
      make_gdt_entry 0 0xFFFFF (GDT_ATTR_SEG OR GDT_ATTR_SEG_CODE OR 0x060),
      make_gdt_entry 0 0xFFFFF (GDT_ATTR_SEG OR GDT_ATTR_SEG_DATA OR 0x060)]
     @ replicate 3 (make_gdt_entry 0 0 0)"

text \<open>The fields of the task state segment that the kernel uses: the stack of ring 0, to which the
  processor switches on an interrupt of a task.\<close>

record tss =
  esp0_ :: u32
  ss0 :: u16

section \<open>State\<close>

text \<open>The tables, their registers, and the control registers; an interrupt gate is two 32 bit words.\<close>

record cpuk = conk +
  gdt :: "gdt_entry list"
  tss_entry :: tss
  tr :: u16
  idt :: "(u32 \<times> u32) list"
  idt_loaded :: bool
  cr0 :: u32
  cr4 :: u32

text \<open>\<open>sizeof(tss)\<close> is 104.\<close>

definition gdt_init :: "u32 \<Rightarrow> 'a cpuk_scheme \<Rightarrow> 'a cpuk_scheme option" where
  "gdt_init tss_addr k = do {
     k \<leftarrow> Some (k\<lparr>tss_entry := (tss_entry k)\<lparr>esp0_ := STACK_0_VIRTUAL + 0x1000\<rparr>\<rparr>);
     k \<leftarrow> Some (k\<lparr>tss_entry := (tss_entry k)\<lparr>ss0 := 0x10\<rparr>\<rparr>);
     g \<leftarrow> aput (gdt k) 5 (make_gdt_entry tss_addr 104 (0x080 OR 0x060 OR 0x009));
     Some (k\<lparr>gdt := g, tr := 0x28\<rparr>) }"

section \<open>The interrupt controllers\<close>

definition pic_reset :: "u8 \<Rightarrow> u8 \<Rightarrow> 'a iok_scheme \<Rightarrow> 'a iok_scheme" where
  "pic_reset addr_pic1 addr_pic2 k =
     fold (\<lambda>(p, b). outb p b)
       [(0x20, 0x11), (0x21, addr_pic1), (0x21, 0x04), (0x21, 0x01), (0x21, 0xFF),
        (0xA0, 0x11), (0xA1, addr_pic2), (0xA1, 0x02), (0xA1, 0x01), (0xA1, 0xFF)] k"

definition pic_enable :: "'a iok_scheme \<Rightarrow> 'a iok_scheme" where
  "pic_enable k = outb 0xA1 0x00 (outb 0x21 0x00 k)"

definition pic_disable :: "'a iok_scheme \<Rightarrow> 'a iok_scheme" where
  "pic_disable k = outb 0xA1 0xFF (outb 0x21 0xFF k)"

definition pic1_mask :: "u8 \<Rightarrow> 'a iok_scheme \<Rightarrow> 'a iok_scheme" where
  "pic1_mask m = outb 0x21 m"

definition pic2_mask :: "u8 \<Rightarrow> 'a iok_scheme \<Rightarrow> 'a iok_scheme" where
  "pic2_mask m = outb 0xA1 m"

definition pic1_intr_end :: "'a iok_scheme \<Rightarrow> 'a iok_scheme" where
  "pic1_intr_end = outb 0x20 0x20"

definition pic2_intr_end :: "'a iok_scheme \<Rightarrow> 'a iok_scheme" where
  "pic2_intr_end k = outb 0xA0 0x20 (outb 0x20 0x20 k)"

definition pic1_intr_end_what :: "u8 \<Rightarrow> 'a iok_scheme \<Rightarrow> 'a iok_scheme" where
  "pic1_intr_end_what irq = outb 0x20 (0x60 OR (irq AND 0x07))"

definition pic2_intr_end_what :: "u8 \<Rightarrow> 'a iok_scheme \<Rightarrow> 'a iok_scheme" where
  "pic2_intr_end_what irq = outb 0xA0 (0x60 OR (irq AND 0x07))"

section \<open>The interrupt descriptor table\<close>

datatype isr = Isr_timerTick | Isr_keyboard | Isr_page_fault | Isr_fdd | Isr_serial | Isr_syscall
  | Isr_dkp u32 \<comment> \<open>\<open>isr_0_DE\<close> to \<open>isr_13_XM\<close>, by number\<close>

definition make_idt_entry :: "u32 \<Rightarrow> u32 \<Rightarrow> u32 \<Rightarrow> u32 \<times> u32" where
  "make_idt_entry offset select attr =
     ((offset AND 0xFFFF) OR push_bit 16 select, (attr AND 0xFFFF) OR (offset AND 0xFFFF0000))"

definition IDT_INT :: u32 where "IDT_INT = 0x8000 OR 0x0000 OR 0x0800 OR 0x0600"
definition IDT_ATTR_DPL0 :: u32 where "IDT_ATTR_DPL0 = 0"
definition IDT_ATTR_DPL3 :: u32 where "IDT_ATTR_DPL3 = 0x6000"
definition SYS_INT :: u32 where "SYS_INT = 0x30"

definition idt_register :: "u32 \<Rightarrow> u32 \<Rightarrow> u32 \<Rightarrow> 'a cpuk_scheme \<Rightarrow> 'a cpuk_scheme option" where
  "idt_register intr isr pl k = do {
     t \<leftarrow> aput (idt k) intr (make_idt_entry isr 0x08 (IDT_INT OR (if pl = 3 then IDT_ATTR_DPL3 else IDT_ATTR_DPL0)));
     Some (k\<lparr>idt := t\<rparr>) }"

definition idt_init :: "(isr \<Rightarrow> u32) \<Rightarrow> 'a cpuk_scheme \<Rightarrow> 'a cpuk_scheme option" where
  "idt_init addr k = do {
     t \<leftarrow> for_range 0 128 (\<lambda>i t. aput t (of_nat i) (make_idt_entry 0 0 0)) (idt k);
     k \<leftarrow> Some (k\<lparr>idt := t, idt_loaded := True\<rparr>);
     idt_register SYS_INT (addr Isr_syscall) 3 (pic_enable (pic_reset 0x20 0x28 k)) }"

text \<open>\<open>debug_init\<close>, kernel/debug.c: the exceptions, whose handlers end in \<open>debug_kernelpanic\<close>, and
  the keyboard.\<close>

fun register_all :: "(u32 \<times> u32) list \<Rightarrow> 'a cpuk_scheme \<Rightarrow> 'a cpuk_scheme option" where
  "register_all [] k = Some k"
| "register_all ((n, a) # r) k = do { k \<leftarrow> idt_register n a 0 k; register_all r k }"

definition debug_init :: "(isr \<Rightarrow> u32) \<Rightarrow> 'a cpuk_scheme \<Rightarrow> 'a cpuk_scheme option" where
  "debug_init addr =
     register_all ((33, addr Isr_keyboard) #
       map (\<lambda>n. (n, addr (Isr_dkp n))) [0, 1, 2, 3, 4, 5, 6, 7, 8, 9, 10, 11, 12, 13, 14, 16, 17, 18, 19])"

section \<open>What the processor reads\<close>

text \<open>The base, the limit and the attributes of a segment descriptor, as the processor puts them together
  from the two words of the entry, \<open>vl0\<close> and \<open>vl1\<close> of the union; the attributes are numbered as the argument
  of \<open>make_gdt_entry\<close> has them.\<close>

definition seg_base :: "u32 \<times> u32 \<Rightarrow> u32" where
  "seg_base v = drop_bit 16 (fst v) OR push_bit 16 (snd v AND 0xFF) OR (snd v AND 0xFF000000)"

definition seg_limit :: "u32 \<times> u32 \<Rightarrow> u32" where
  "seg_limit v = (fst v AND 0xFFFF) OR (snd v AND 0xF0000)"

definition seg_attr :: "u32 \<times> u32 \<Rightarrow> u32" where
  "seg_attr v = (drop_bit 8 (snd v) AND 0xFF) OR (drop_bit 12 (snd v) AND 0xF00)"

definition gate_offset :: "u32 \<times> u32 \<Rightarrow> u32" where
  "gate_offset g = (fst g AND 0xFFFF) OR (snd g AND 0xFFFF0000)"

definition gate_selector :: "u32 \<times> u32 \<Rightarrow> u32" where
  "gate_selector g = drop_bit 16 (fst g)"

definition gate_present :: "u32 \<times> u32 \<Rightarrow> bool" where
  "gate_present g \<longleftrightarrow> bit (snd g) 15"

definition gate_dpl :: "u32 \<times> u32 \<Rightarrow> u32" where
  "gate_dpl g = drop_bit 13 (snd g) AND 3"

end
