(* ===== verification/Process.thy ===== *)
theory Process
  imports Tables
begin

text \<open>
  Processes: \<open>loader_load\<close> and \<open>sys_fork\<close> of kernel/loader.c and the switch of kernel/loader_switch.asm
  that ends a task. A new task gets a page directory, a stack of ring 3 and a stack of ring 0; on
  the latter the kernel writes the words that \<open>loader_switchto\<close> and then \<open>task_ret\<close> or \<open>fork_ret\<close>
  pop, through a temporary mapping at \<open>KERNEL_TEMP_PAGE\<close>. Nothing is checked to have succeeded,
  except the fork of the directory.

  The addresses of the assembly labels \<open>task_ret\<close> and \<open>fork_ret\<close> are arguments.
\<close>

text \<open>\<open>*stack0-- = w\<close> at a virtual address, and a sequence of them.\<close>

definition vput32 :: "u32 \<Rightarrow> u32 \<Rightarrow> 'a mmk_scheme \<Rightarrow> 'a mmk_scheme option" where
  "vput32 a w k = do {
     k \<leftarrow> vput a (ucast w) k;
     k \<leftarrow> vput (a + 1) (ucast (drop_bit 8 w)) k;
     k \<leftarrow> vput (a + 2) (ucast (drop_bit 16 w)) k;
     vput (a + 3) (ucast (drop_bit 24 w)) k }"

primrec vpush :: "u32 \<Rightarrow> u32 list \<Rightarrow> 'a mmk_scheme \<Rightarrow> 'a mmk_scheme option" where
  "vpush a [] k = Some k"
| "vpush a (w # ws) k = do { k \<leftarrow> vput32 a w k; vpush (a - 4) ws k }"

text \<open>The file header \<open>str_pso_file\<close>, in the kernel's memory.\<close>

definition pso_mem_start :: "'a mmk_scheme \<Rightarrow> u32 \<Rightarrow> u32" where
  "pso_mem_start k f = get32 k (f + 4)"

definition pso_mem_end_disk :: "'a mmk_scheme \<Rightarrow> u32 \<Rightarrow> u32" where
  "pso_mem_end_disk k f = get32 k (f + 8)"

definition pso_main :: "'a mmk_scheme \<Rightarrow> u32 \<Rightarrow> u32" where
  "pso_main k f = get32 k (f + 16)"

text \<open>The end of both: the process structure. A pid that is not in the table is not checked for.\<close>

definition new_process :: "u32 \<Rightarrow> 'a kern_scheme \<Rightarrow> (pid \<times> 'a kern_scheme) option" where
  "new_process dir k = do {
     (requested_pid, k) \<leftarrow> get_new_pid k;
     tt \<leftarrow> amod (task_table k) requested_pid (\<lambda>t. t\<lparr>cr3 := dir\<rparr>);
     tt \<leftarrow> amod tt requested_pid (\<lambda>t. t\<lparr>esp0 := STACK_0_VIRTUAL + 0xFD8\<rparr>);
     Some (requested_pid, k\<lparr>task_table := tt\<rparr>) }"

text \<open>\<open>sched_load\<close> in the kernel's state.\<close>

definition start_process :: "pid \<Rightarrow> 'a kern_scheme \<Rightarrow> 'a kern_scheme option" where
  "start_process p k = do {
     s \<leftarrow> sched_load p (sch k);
     Some (k\<lparr>sch := s, tasks_running := tasks_running k + 1\<rparr>) }"

definition loader_load :: "u32 \<Rightarrow> u32 \<Rightarrow> u32 \<Rightarrow> 'a mmk_scheme \<Rightarrow> (pid \<times> 'a mmk_scheme) option" where
  "loader_load task_ret f pl k = do {
     let old_cr3 = reg_cr3 k;
     (task_dir, k) \<leftarrow> mm_dir_new k;
     (puntero_page_tarea, k) \<leftarrow> mm_mem_alloc k;
     (task_stack3, k) \<leftarrow> mm_mem_alloc k;
     (task_stack0, k) \<leftarrow> mm_mem_alloc k;
     (_, k) \<leftarrow> mm_page_map STACK_3_VIRTUAL task_dir task_stack3 0 USR_STD_ATTR k;
     (_, k) \<leftarrow> mm_page_map STACK_0_VIRTUAL task_dir task_stack0 0 (MM_ATTR_RW OR MM_ATTR_US_S) k;
     (_, k) \<leftarrow> mm_page_map KERNEL_TEMP_PAGE old_cr3 task_stack0 0 (MM_ATTR_RW OR MM_ATTR_US_S) k;
     k \<leftarrow> vpush (KERNEL_TEMP_PAGE + 0xffC)
            [0x23, STACK_3_VIRTUAL + 0x1000, 0x202, if pl \<noteq> 0 then 0x1B else 0x08, pso_main k f, task_ret,
             reg_esp k, 0, 0, 0] k;
     (_, k) \<leftarrow> mm_page_map (pso_mem_start k f) task_dir puntero_page_tarea 0 USR_STD_ATTR k;
     (_, k) \<leftarrow> mm_page_map KERNEL_TEMP_PAGE old_cr3 puntero_page_tarea 0 USR_STD_ATTR k;
     let cant_to_copy = pso_mem_end_disk k f - pso_mem_start k f;
     k \<leftarrow> for_range 0 (unat cant_to_copy) (\<lambda>i k. vput (KERNEL_TEMP_PAGE + of_nat i) (ram k (f + of_nat i)) k) k;
     (requested_pid, k) \<leftarrow> new_process task_dir k;
     let (_, k) = mm_page_free KERNEL_TEMP_PAGE old_cr3 k;
     k \<leftarrow> start_process requested_pid k;
     Some (requested_pid, k) }"

definition sys_fork :: "u32 \<Rightarrow> u32 \<Rightarrow> u32 \<Rightarrow> 'a devk_scheme \<Rightarrow> (pid \<times> 'a devk_scheme) option" where
  "sys_fork fork_ret org_eip org_esp k = do {
     let old_cr3 = reg_cr3 k;
     (new_cr3, k) \<leftarrow> mm_dir_fork old_cr3 k;
     if new_cr3 = 0 then Some (-1, k)
     else do {
       (task_stack3, k) \<leftarrow> mm_mem_alloc k;
       (task_stack0, k) \<leftarrow> mm_mem_alloc k;
       (_, k) \<leftarrow> mm_page_map STACK_3_VIRTUAL new_cr3 task_stack3 0 USR_STD_ATTR k;
       (_, k) \<leftarrow> mm_page_map STACK_0_VIRTUAL new_cr3 task_stack0 0 (MM_ATTR_RW OR MM_ATTR_US_S) k;
       (_, k) \<leftarrow> mm_page_map KERNEL_TEMP_PAGE old_cr3 task_stack0 0 (MM_ATTR_RW OR MM_ATTR_US_S) k;
       k \<leftarrow> vpush (KERNEL_TEMP_PAGE + 0xffC)
              [0x23, org_esp, 0x202, 0x1B, org_eip, fork_ret, reg_esp k, 0, 0, 0] k;
       (_, k) \<leftarrow> mm_copy_vf STACK_3_VIRTUAL task_stack3 PAGE_SIZE k;
       let (_, k) = mm_page_free KERNEL_TEMP_PAGE old_cr3 k;
       (requested_pid, k) \<leftarrow> new_process new_cr3 k;
       k \<leftarrow> device_fork_descriptors (cur_pid k) requested_pid k;
       k \<leftarrow> start_process requested_pid k;
       Some (requested_pid, k) } }"

text \<open>\<open>loader_switchto_exit\<close>: the directory of the task that ends is freed once its successor runs.
  When the successor has to wait for that, the last step is still to come.\<close>

definition loader_switchto_exit :: "pid \<Rightarrow> u32 \<Rightarrow> 'a mmk_scheme \<Rightarrow> 'a mmk_scheme option" where
  "loader_switchto_exit p old_cr3 k = do {
     let old = cur_pid k;
     tt \<leftarrow> amod (task_table k) old (\<lambda>t. t\<lparr>esp0 := reg_esp k - 16\<rparr>);
     t \<leftarrow> aget tt p;
     k \<leftarrow> Some (k\<lparr>task_table := tt, reg_cr3 := cr3 t, reg_esp := esp0 t + 16, cur_pid := p\<rparr>);
     k \<leftarrow> mm_dir_free old_cr3 k;
     if cur_pid k \<noteq> p then Some k
     else do {
       tt \<leftarrow> amod (task_table k) old (\<lambda>t. t\<lparr>cr3 := 0\<rparr>);
       Some (k\<lparr>task_table := tt\<rparr>) } }"

end
