(* ===== verification/Dma.thy ===== *)
theory Dma
  imports Tables
begin

text \<open>
  The DMA controller as the floppy driver programs it, kernel/dma.c: every function is a sequence
  of writes to the controller's ports.
\<close>

definition DMAIO_ADDR :: u32 where "DMAIO_ADDR = 0x004"
definition DMAIO_TOP :: u32 where "DMAIO_TOP = 0x081"
definition DMAIO_COUNT :: u32 where "DMAIO_COUNT = 0x005"
definition DMAIO_FLIPFLOP :: u32 where "DMAIO_FLIPFLOP = 0x00C"
definition DMAIO_MODE :: u32 where "DMAIO_MODE = 0x00B"
definition DMAIO_MASK :: u32 where "DMAIO_MASK = 0x00F"
definition DMA_MASK_ALL :: u8 where "DMA_MASK_ALL = 0x6"
definition DMA_MASK_CH2 :: u8 where "DMA_MASK_CH2 = 0x1"

definition dma_setup :: "'a iok_scheme \<Rightarrow> u32 \<times> 'a iok_scheme" where
  "dma_setup k = (0, k)"

definition dma_set_mask :: "u8 \<Rightarrow> 'a iok_scheme \<Rightarrow> 'a iok_scheme" where
  "dma_set_mask m = outb DMAIO_MASK (m AND 0xF)"

definition dma_read_mask :: "'a iok_scheme \<Rightarrow> (u8 \<times> 'a iok_scheme) option" where
  "dma_read_mask = inb_port DMAIO_MASK"

text \<open>The parameters are of type \<open>char\<close>, which is signed.\<close>

definition dma_set_cmd_reg :: "u8 \<Rightarrow> u8 \<Rightarrow> u8 \<Rightarrow> 'a iok_scheme \<Rightarrow> 'a iok_scheme" where
  "dma_set_cmd_reg ce dreq_low dack_high =
     outb 0x8 (push_bit 2 (of_bool (ce \<le>s 0)) OR push_bit 6 (of_bool (0 <s dreq_low)) OR
               push_bit 7 (of_bool (0 <s dack_high)))"

definition dma_mode_byte :: "u8 \<Rightarrow> u8 \<Rightarrow> u8 \<Rightarrow> u8 \<Rightarrow> u8 \<Rightarrow> u8" where
  "dma_mode_byte ch tra auto_init down mode =
     (ch AND 0x3) OR push_bit 2 (tra AND 0x3) OR push_bit 4 (of_bool (0 <s auto_init)) OR
     push_bit 5 (of_bool (0 <s down)) OR push_bit 6 (mode AND 0x3)"

definition dma_set_mode :: "u8 \<Rightarrow> u8 \<Rightarrow> u8 \<Rightarrow> u8 \<Rightarrow> u8 \<Rightarrow> 'a iok_scheme \<Rightarrow> 'a iok_scheme" where
  "dma_set_mode ch tra auto_init down mode k =
     dma_set_mask 0x1 (outb DMAIO_MODE (dma_mode_byte ch tra auto_init down mode) (dma_set_mask 0x6 k))"

text \<open>\<open>outb\<close> takes the low byte of what it is given.\<close>

definition dma_set_floppy_read :: "u32 \<Rightarrow> 'a iok_scheme \<Rightarrow> 'a iok_scheme" where
  "dma_set_floppy_read dest k =
     (let k = dma_set_mask DMA_MASK_ALL k;
          k = dma_set_mode 2 1 0 0 1 k;
          k = outb DMAIO_FLIPFLOP 0xFF k;
          k = outb DMAIO_ADDR (ucast (dest AND 0xFF)) k;
          k = outb DMAIO_ADDR (ucast (drop_bit 8 dest)) k;
          k = outb DMAIO_FLIPFLOP 0xFF k;
          k = outb DMAIO_COUNT (511 AND 0xFF) k;
          k = outb DMAIO_COUNT (ucast (drop_bit 8 (511 :: u32))) k;
          k = outb DMAIO_TOP (ucast (drop_bit 16 dest AND 0xFF)) k
      in dma_set_mask DMA_MASK_CH2 k)"

definition dma_set_floppy_write :: "u32 \<Rightarrow> 'a iok_scheme \<Rightarrow> 'a iok_scheme" where
  "dma_set_floppy_write src k =
     (let k = dma_set_mask DMA_MASK_ALL k;
          k = dma_set_mode 2 2 0 0 1 k;
          k = outb DMAIO_FLIPFLOP 0xFF k;
          k = outb DMAIO_ADDR (ucast (src AND 0xFF)) k;
          k = outb DMAIO_ADDR (ucast (drop_bit 8 src)) k;
          k = outb DMAIO_TOP (ucast (drop_bit 16 src AND 0xFF)) k;
          k = outb DMAIO_FLIPFLOP 0xFF k;
          k = outb DMAIO_COUNT (511 AND 0xFF) k;
          k = outb DMAIO_COUNT (ucast (drop_bit 8 (511 :: u32))) k
      in dma_set_mask DMA_MASK_CH2 k)"

end
