(* ===== verification/Serial.thy ===== *)
theory Serial
  imports Tables
begin

text \<open>
  The serial ports, kernel/serial.c, and the log on the fourth of them, kernel/debug.c and the
  \<open>printf\<close> of kernel/vga.c. What the hardware answers when a port is read comes from the list of
  theory \<open>Io\<close>, so a loop that waits for the hardware ends when the list does, with None.
\<close>

definition COM1 :: u32 where "COM1 = 0x03F8"
definition COM2 :: u32 where "COM2 = 0x02F8"
definition COM3 :: u32 where "COM3 = 0x03E8"
definition COM4 :: u32 where "COM4 = 0x02E8"
definition SERIAL_BUFF_SIZE :: u32 where "SERIAL_BUFF_SIZE = 64"
definition SERIAL_ERROR_READTOOLARGE :: u32 where "SERIAL_ERROR_READTOOLARGE = - 1"

record serialk = cpuk +
  serial_buffer :: str
  serial_buf_pos :: u32
  serial_buf_end :: u32
  log_chardev :: u32

section \<open>Ports\<close>

definition serial_received :: "u32 \<Rightarrow> 'a iok_scheme \<Rightarrow> (u8 \<times> 'a iok_scheme) option" where
  "serial_received port k = do { (b, k) \<leftarrow> inb_port (port + 5) k; Some (b AND 1, k) }"

definition is_transmit_empty :: "u32 \<Rightarrow> 'a iok_scheme \<Rightarrow> (u8 \<times> 'a iok_scheme) option" where
  "is_transmit_empty port k = do { (b, k) \<leftarrow> inb_port (port + 5) k; Some (b AND 0x20, k) }"

definition port_addr :: "u32 \<Rightarrow> u32" where
  "port_addr com = (if com = 0 then COM1 else if com = 1 then COM2 else if com = 2 then COM3 else COM4)"

definition reset_serial_port :: "u32 \<Rightarrow> 'a iok_scheme \<Rightarrow> 'a iok_scheme" where
  "reset_serial_port port k =
     outb (port + 5) 0x60 (outb (port + 2) 0x00 (outb (port + 2) 0x01 (outb (port + 1) 0x00 k)))"

definition configure_serial_port :: "u32 \<Rightarrow> 'a iok_scheme \<Rightarrow> 'a iok_scheme" where
  "configure_serial_port port k =
     fold (\<lambda>(r, b). outb (port + r) b)
       [(1, 0x01), (3, 0x80), (0, 0x03), (1, 0x00), (3, 0x03), (2, 0xC7), (4, 0x0B)] k"

section \<open>Writing\<close>

text \<open>\<open>while (is_transmit_empty(port) == 0);\<close>\<close>

partial_function (option) wait_transmit :: "u32 \<Rightarrow> 'a iok_scheme \<Rightarrow> 'a iok_scheme option" where
  "wait_transmit port k = do {
     (b, k) \<leftarrow> is_transmit_empty port k;
     if b = 0 then wait_transmit port k else Some k }"

declare wait_transmit.simps [code]

primrec serial_write_loop :: "u32 \<Rightarrow> u32 \<Rightarrow> str \<Rightarrow> 'a iok_scheme \<Rightarrow> 'a iok_scheme option" where
  "serial_write_loop port i [] k = Some k"
| "serial_write_loop port i (b # bs) k = do {
     k \<leftarrow> (if i mod 16 = 0 then wait_transmit port k else Some k);
     serial_write_loop port (i + 1) bs (outb port b k) }"

definition get_serial :: "'a devk_scheme \<Rightarrow> u32 \<Rightarrow> chardev_serial option" where
  "get_serial k a = (case objs k a of Some (Serial s) \<Rightarrow> Some s | _ \<Rightarrow> None)"

text \<open>The bytes, then \<open>i % 16\<close> spaces; the result is the number of spaces.\<close>

definition serial_write :: "u32 \<Rightarrow> str \<Rightarrow> 'a devk_scheme \<Rightarrow> (u32 \<times> 'a devk_scheme) option" where
  "serial_write this bs k = do {
     s \<leftarrow> get_serial k this;
     let port = serial_port s;
     let flags = reflags k;
     k \<leftarrow> serial_write_loop port 0 bs (cli k);
     let sz = (of_nat (length bs) :: u32) mod 16;
     let k = fold (\<lambda>_. outb port 0x20) [0..<unat sz] k;
     Some (sz, if CHECK_BIT (ucast flags) 9 then sti k else k) }"

definition serial_flush :: "u32 \<Rightarrow> 'a devk_scheme \<Rightarrow> u32 \<times> 'a devk_scheme" where
  "serial_flush this k = (0, k)"

section \<open>Reading\<close>

text \<open>The copying loop. \<open>i\<close> has no initial value in the code: the model takes one, and returns the
  bytes with the index each is stored at.\<close>

partial_function (option) serial_read_loop ::
    "u32 \<Rightarrow> u32 \<Rightarrow> 'a serialk_scheme \<Rightarrow> ((u32 \<times> u8) list \<times> u32 \<times> 'a serialk_scheme) option" where
  "serial_read_loop sz i k = do {
     b \<leftarrow> aget (serial_buffer k) (serial_buf_pos k);
     let k = k\<lparr>serial_buf_pos := (serial_buf_pos k + 1) mod SERIAL_BUFF_SIZE\<rparr>;
     if i + 1 < sz \<and> serial_buf_pos k \<noteq> serial_buf_end k then do {
       (r, j, k) \<leftarrow> serial_read_loop sz (i + 1) k;
       Some ((i, b) # r, j, k) }
     else Some ([(i, b)], i + 1, k) }"

declare serial_read_loop.simps [code]

definition serial_read ::
    "u32 \<Rightarrow> u32 \<Rightarrow> 'a serialk_scheme \<Rightarrow> ((u32 \<times> u8) list \<times> u32 \<times> 'a serialk_scheme) option" where
  "serial_read sz i k =
     (if sz > SERIAL_BUFF_SIZE then Some ([], SERIAL_ERROR_READTOOLARGE, k) else serial_read_loop sz i k)"

section \<open>The interrupt handler\<close>

text \<open>The loop \<open>while (serial_received(COM1))\<close>.\<close>

partial_function (option) serial_receive_loop :: "'a serialk_scheme \<Rightarrow> 'a serialk_scheme option" where
  "serial_receive_loop k = do {
     (r, k) \<leftarrow> serial_received COM1 k;
     if r = 0 then Some k
     else do {
       (c, k) \<leftarrow> inb_port COM1 k;
       buf \<leftarrow> aput (serial_buffer k) (serial_buf_end k) c;
       let k = k\<lparr>serial_buffer := buf, serial_buf_end := (serial_buf_end k + 1) mod SERIAL_BUFF_SIZE\<rparr>;
       if (serial_buf_end k + 1) mod SERIAL_BUFF_SIZE = serial_buf_pos k then Some k
       else serial_receive_loop k } }"

declare serial_receive_loop.simps [code]

text \<open>When the buffer is full the handler returns before it acknowledges the interrupt.\<close>

definition isr_serial_c :: "'a serialk_scheme \<Rightarrow> 'a serialk_scheme option" where
  "isr_serial_c k = do {
     (_, k) \<leftarrow> inb_port (COM1 + 2) k;
     if (serial_buf_end k + 1) mod SERIAL_BUFF_SIZE = serial_buf_pos k then Some k
     else do {
       k \<leftarrow> serial_receive_loop k;
       Some (outb 0x20 0x20 k) } }"

section \<open>Opening\<close>

definition serial_open :: "u32 \<Rightarrow> 'a devk_scheme \<Rightarrow> (u32 \<times> 'a devk_scheme) option" where
  "serial_open nro k = do {
     (new_serial, k) \<leftarrow> mm_mem_kalloc k;
     let k = put_obj new_serial (Serial \<lparr>serial_dev = \<lparr>clase = 0, refcount = 0, fn_flush = Some Serial_flush,
               fn_read = Some Serial_read, fn_write = Some Serial_write, fn_seek = None\<rparr>,
             serial_port = port_addr nro\<rparr>) k;
     let k = configure_serial_port (port_addr nro) k;
     (_, k) \<leftarrow> serial_write new_serial (butlast (cstr ''Logger ready'')) k;
     Some (new_serial, k) }"

definition serial_init :: "(isr \<Rightarrow> u32) \<Rightarrow> 'a serialk_scheme \<Rightarrow> 'a serialk_scheme option" where
  "serial_init addr k = do {
     k \<leftarrow> idt_register 36 (addr Isr_serial) 0 k;
     k \<leftarrow> Some (k\<lparr>serial_buf_pos := 0, serial_buf_end := 0\<rparr>);
     buf \<leftarrow> aput (serial_buffer k) (serial_buf_pos k) 72;
     k \<leftarrow> Some (k\<lparr>serial_buffer := buf, serial_buf_pos := serial_buf_pos k + 1\<rparr>);
     Some (reset_serial_port COM4 (reset_serial_port COM3 (reset_serial_port COM2 (reset_serial_port COM1 k)))) }"

section \<open>The log\<close>

definition logger_init :: "'a serialk_scheme \<Rightarrow> 'a serialk_scheme option" where
  "logger_init k = do { (dev, k) \<leftarrow> serial_open 3 k; Some (k\<lparr>log_chardev := dev\<rparr>) }"

text \<open>\<open>logs\<close> writes the first bytes of a buffer; None when the buffer is not that long.\<close>

definition logs :: "str \<Rightarrow> u32 \<Rightarrow> 'a serialk_scheme \<Rightarrow> 'a serialk_scheme option" where
  "logs buff sz k =
     (if log_chardev k = 0 then Some k
      else if length buff < unat sz then None
      else do {
        (_, k) \<leftarrow> serial_write (log_chardev k) (take (unat sz) buff) k;
        (_, k) \<leftarrow> serial_write (log_chardev k) [10, 13] k;
        Some k })"

definition logf :: "str \<Rightarrow> arg list \<Rightarrow> 'a serialk_scheme \<Rightarrow> 'a serialk_scheme option" where
  "logf format args k = do {
     sz \<leftarrow> printf_len format args;
     buff \<leftarrow> sprintf_in (replicate (sz + 1) 0) format args;
     logs buff (of_nat sz) k }"

text \<open>\<open>printf\<close> of kernel/vga.c with \<open>ENABLE_SERIAL_DEBUG\<close>: a buffer of \<open>amount\<close> bytes, of which it logs
  \<open>amount + 1\<close>.\<close>

definition printf :: "str \<Rightarrow> arg list \<Rightarrow> 'a serialk_scheme \<Rightarrow> 'a serialk_scheme option" where
  "printf fmt args k = do {
     len \<leftarrow> printf_len fmt args;
     let amount = len + 1;
     buff \<leftarrow> sprintf_in (replicate amount 0) fmt args;
     logs buff (of_nat (amount + 1)) k }"

end
