(* ===== verification/Timer.thy ===== *)
theory Timer
  imports Serial
begin

text \<open>
  The timer interrupt, kernel/pit.c: a status line on the last row of the screen and the tick of the
  scheduler. \<open>in_panic\<close> is set once the kernel has panicked; tasks are then no longer switched.
\<close>

record timerk = serialk +
  tick :: u32

definition pit_init :: "(isr \<Rightarrow> u32) \<Rightarrow> 'a timerk_scheme \<Rightarrow> 'a timerk_scheme option" where
  "pit_init addr k = idt_register 32 (addr Isr_timerTick) 0 (k\<lparr>tick := 0\<rparr>)"

definition clock :: str where "clock = [92, 45, 47, 124]"

definition status_format :: str where
  "status_format = cstr ''Tasks: %d total, %d running, %d sleeping | Current pid: %d''"

definition print_status :: "'a timerk_scheme \<Rightarrow> 'a timerk_scheme option" where
  "print_status k = do {
     let style = 0x00 OR 0x02 OR 0x08;
     r \<leftarrow> vga_printf (ucast (vga_rows - 1)) 0 status_format style
            [VInt (tasks_running k + tasks_blocked k), VInt (tasks_running k), VInt (tasks_blocked k), VInt (cur_pid k)]
            (ram k);
     k \<leftarrow> Some (k\<lparr>ram := r\<rparr>);
     let i = sint (tick k) smod 4;
     c \<leftarrow> (if i < 0 then None else nget clock (nat i));
     k \<leftarrow> Some (k\<lparr>tick := tick k + 1\<rparr>);
     r \<leftarrow> vga_printf (ucast (vga_rows - 1)) (ucast (vga_cols - 1)) (cstr ''%c'') style [VInt (ucast c)] (ram k);
     Some (k\<lparr>ram := r\<rparr>) }"

text \<open>The second write to port \<open>0x20\<close> comes after the tick has switched tasks: it is the task that
  now runs which does it, at the end of the interrupt in which it was switched out.\<close>

definition isr_timerTick_c :: "'a timerk_scheme \<Rightarrow> 'a timerk_scheme option" where
  "isr_timerTick_c k = do {
     k \<leftarrow> Some (outb 0x20 0x20 k);
     k \<leftarrow> (if in_panic k
           then do {
             r \<leftarrow> vga_printf (ucast (vga_rows - 1)) (ucast (vga_cols - 2)) (cstr ''!H'') (0x00 OR 0x40) [] (ram k);
             Some (k\<lparr>ram := r\<rparr>) }
           else do { k \<leftarrow> print_status k; loader_tick k });
     Some (outb 0x20 0x20 k) }"

end
