(* ===== verification/Fdd.thy ===== *)
theory Fdd
  imports Dma Timer
begin

text \<open>
  The floppy driver, kernel/fdd.c. The controller is on the other side of its ports: what it answers
  comes from the list of theory \<open>Io\<close>, and the sectors it transfers through the DMA controller from
  \<open>dma_in\<close>, one per completed read command. A command completes with an interrupt, for which the
  driver waits on \<open>floppy_sem\<close>.

  The idle task, which boots the kernel, spins until the interrupt has been handled; in the model the
  handler runs there. Any other task blocks: \<open>rest\<close>, an argument of the operations, is what the rest
  of the system does until the interrupt has woken this task and the scheduler has given it the
  processor back. The address of the buffer of a drive, which the DMA controller is given, is a linker
  address and an argument too.
\<close>

section \<open>State\<close>

record fdc_stat =
  st0 :: u8
  st1 :: u8
  st2 :: u8
  fdc_c :: u8
  fdc_h :: u8
  fdc_r :: u8
  fdc_n :: u8
  dor :: u8
  srA :: u8
  srB :: u8
  dsr :: u8
  fdc_dir :: u8
  ccr :: u8
  msr :: u8
  config1 :: u8
  config2 :: u8
  pcn0 :: u8
  pcn1 :: u8
  pcn2 :: u8
  pcn3 :: u8
  srt_hut :: u8
  hlt_nd :: u8
  sc_eot :: u8
  perpendicular :: u8

record blockdev_floppy =
  floppy_refcount :: u32
  drive :: u8
  cylinder_count :: u8
  head_count :: u8
  sect_per_track :: u8
  floppy_buffer :: str

record fddk = timerk +
  fdc :: fdc_stat
  fdc_sem :: sem
  floppy_sem :: sem
  fdd_int_recv :: bool
  floppy_devs :: "blockdev_floppy list"
  dma_in :: "str list"

definition FDD_DEFAULT_TIMEOUT :: nat where "FDD_DEFAULT_TIMEOUT = 40000"
definition PORT_DOR :: u32 where "PORT_DOR = 0x3F0 + 0x02"
definition PORT_MSR :: u32 where "PORT_MSR = 0x3F0 + 0x04"
definition PORT_DSR :: u32 where "PORT_DSR = 0x3F0 + 0x04"
definition PORT_DATA :: u32 where "PORT_DATA = 0x3F0 + 0x05"
definition PORT_DIR :: u32 where "PORT_DIR = 0x3F0 + 0x07"
definition PORT_CCR :: u32 where "PORT_CCR = 0x3F0 + 0x07"

definition FDD_ERROR_TIMEOUT :: int where "FDD_ERROR_TIMEOUT = - 2"
definition FDD_ERROR_LOCKCMD :: int where "FDD_ERROR_LOCKCMD = - 4"
definition FDD_ERROR_SENSE_INT_INVALID :: int where "FDD_ERROR_SENSE_INT_INVALID = - 5"
definition FDD_ERROR_RECALIBRATE_NOTRK0 :: int where "FDD_ERROR_RECALIBRATE_NOTRK0 = - 6"
definition FDD_ERROR_RECALIBRATE_WDEV :: int where "FDD_ERROR_RECALIBRATE_WDEV = - 7"
definition FDD_ERROR_READ_ABNORM :: int where "FDD_ERROR_READ_ABNORM = - 9"
definition FDD_ERROR_READ_DE :: int where "FDD_ERROR_READ_DE = - 10"
definition FDD_ERROR_READ_ND :: int where "FDD_ERROR_READ_ND = - 11"
definition FDD_ERROR_READ_DD :: int where "FDD_ERROR_READ_DD = - 12"
definition FDD_ERROR_DEV_NOCONFIG :: int where "FDD_ERROR_DEV_NOCONFIG = - 13"
definition FDD_ERROR_DEV_NOREAD :: int where "FDD_ERROR_DEV_NOREAD = - 14"
definition FDD_ERROR_DEV_OVERHEAD :: int where "FDD_ERROR_DEV_OVERHEAD = - 15"
definition FDD_ERROR_IOCTL_WCMD :: int where "FDD_ERROR_IOCTL_WCMD = - 16"

definition mod_fdc :: "(fdc_stat \<Rightarrow> fdc_stat) \<Rightarrow> 'a fddk_scheme \<Rightarrow> 'a fddk_scheme" where
  "mod_fdc f k = k\<lparr>fdc := f (fdc k)\<rparr>"

section \<open>Interrupts\<close>

definition isr_fdd_c :: "'a fddk_scheme \<Rightarrow> 'a fddk_scheme option" where
  "isr_fdd_c k = do {
     k \<leftarrow> Some (k\<lparr>fdd_int_recv := True\<rparr>);
     (s, k) \<leftarrow> sem_signal (floppy_sem k) k;
     Some (outb 0x20 0x20 (k\<lparr>floppy_sem := s\<rparr>)) }"

definition fdd_wait_for_interrupt ::
    "('a fddk_scheme \<Rightarrow> 'a fddk_scheme option) \<Rightarrow> 'a fddk_scheme \<Rightarrow> 'a fddk_scheme option" where
  "fdd_wait_for_interrupt rest k = do {
     k \<leftarrow> (if cur_pid k = 0 then do {
             k \<leftarrow> (if fdd_int_recv k then Some k else isr_fdd_c k);
             Some (k\<lparr>fdd_int_recv := False\<rparr>) }
           else Some k);
     let blocked = (vl (floppy_sem k) = 0);
     (s, k) \<leftarrow> sem_wait (floppy_sem k) k;
     k \<leftarrow> Some (k\<lparr>floppy_sem := s\<rparr>);
     if blocked then rest k else Some k }"

section \<open>Bytes\<close>

text \<open>\<open>while (timeout-- && !ready) msr = inb(...);\<close> with \<open>timeout\<close> counted down from \<open>n\<close>; the result is
  its value after the loop, which is \<open>2 ^ 32 - 1\<close> when the count has run out.\<close>

primrec poll_msr :: "(u8 \<Rightarrow> bool) \<Rightarrow> nat \<Rightarrow> u8 \<Rightarrow> 'a iok_scheme \<Rightarrow> (u32 \<times> 'a iok_scheme) option" where
  "poll_msr ready 0 m k = Some (-1, k)"
| "poll_msr ready (Suc n) m k =
     (if ready m then Some (of_nat n, k)
      else do { (m, k) \<leftarrow> inb_port PORT_MSR k; poll_msr ready n m k })"

definition send_ready :: "u8 \<Rightarrow> bool" where
  "send_ready m \<longleftrightarrow> m AND 0x80 \<noteq> 0 \<and> m AND 0x40 = 0"

definition get_ready :: "u8 \<Rightarrow> bool" where
  "get_ready m \<longleftrightarrow> m AND 0x80 \<noteq> 0 \<and> m AND 0x40 \<noteq> 0"

definition fdd_send_byte :: "u8 \<Rightarrow> 'a iok_scheme \<Rightarrow> (int \<times> 'a iok_scheme) option" where
  "fdd_send_byte b k = do {
     (timeout, k) \<leftarrow> poll_msr send_ready FDD_DEFAULT_TIMEOUT 0 k;
     if timeout = 0 then Some (FDD_ERROR_TIMEOUT, k) else Some (0, outb PORT_DATA b k) }"

definition fdd_get_byte :: "'a iok_scheme \<Rightarrow> (int \<times> u8 \<times> 'a iok_scheme) option" where
  "fdd_get_byte k = do {
     (timeout, k) \<leftarrow> poll_msr get_ready FDD_DEFAULT_TIMEOUT 0 k;
     if timeout = 0 then Some (FDD_ERROR_TIMEOUT, 0, k)
     else do { (b, k) \<leftarrow> inb_port PORT_DATA k; Some (0, b, k) } }"

text \<open>A sequence of \<open>fdd_send_byte\<close>, or of \<open>fdd_get_byte\<close>, each of which ends the function when it fails.\<close>

fun send_bytes :: "u8 list \<Rightarrow> 'a iok_scheme \<Rightarrow> (int \<times> 'a iok_scheme) option" where
  "send_bytes [] k = Some (0, k)"
| "send_bytes (b # bs) k = do {
     (st, k) \<leftarrow> fdd_send_byte b k;
     if st < 0 then Some (st, k) else send_bytes bs k }"

primrec get_bytes :: "nat \<Rightarrow> 'a iok_scheme \<Rightarrow> (int \<times> u8 list \<times> 'a iok_scheme) option" where
  "get_bytes 0 k = Some (0, [], k)"
| "get_bytes (Suc n) k = do {
     (st, b, k) \<leftarrow> fdd_get_byte k;
     if st < 0 then Some (st, [], k)
     else do { (st, bs, k) \<leftarrow> get_bytes n k; Some (st, b # bs, k) } }"

section \<open>Commands\<close>

definition fdd_version :: "'a iok_scheme \<Rightarrow> (int \<times> 'a iok_scheme) option" where
  "fdd_version k = do {
     (st, k) \<leftarrow> fdd_send_byte 0x10 k;
     if st < 0 then Some (st, k)
     else do {
       (st, ver, k) \<leftarrow> fdd_get_byte k;
       if st < 0 then Some (st, k) else Some (uint ver, k) } }"

definition fdd_mot_en :: "u8 \<Rightarrow> bool \<Rightarrow> 'a fddk_scheme \<Rightarrow> 'a fddk_scheme" where
  "fdd_mot_en motor st k =
     (let d = (if st then dor (fdc k) OR push_bit (unat motor + 4) 1
               else dor (fdc k) AND NOT (push_bit (unat motor + 4) 1))
      in mod_fdc (\<lambda>f. f\<lparr>dor := d\<rparr>) (outb PORT_DOR d k))"

definition fdd_dev_sel :: "u8 \<Rightarrow> 'a fddk_scheme \<Rightarrow> 'a fddk_scheme" where
  "fdd_dev_sel dev k =
     (let d = (dor (fdc k) AND NOT 0x3) OR (dev AND 0x3)
      in outb PORT_DOR d (mod_fdc (\<lambda>f. f\<lparr>dor := d\<rparr>) k))"

definition fdd_dma_en :: "bool \<Rightarrow> 'a fddk_scheme \<Rightarrow> 'a fddk_scheme" where
  "fdd_dma_en st k =
     (let d = (if st then dor (fdc k) AND NOT 0x8 else dor (fdc k) OR 0x8)
      in mod_fdc (\<lambda>f. f\<lparr>dor := d\<rparr>) (outb PORT_DOR d k))"

definition get_dma_st :: "'a iok_scheme \<Rightarrow> (u8 \<times> 'a iok_scheme) option" where
  "get_dma_st k = do { (m, k) \<leftarrow> inb_port PORT_MSR k; Some (if m AND 0x20 \<noteq> 0 then 0 else 1, k) }"

definition fdd_configure :: "u8 \<Rightarrow> u8 \<Rightarrow> u8 \<Rightarrow> u8 \<Rightarrow> u8 \<Rightarrow> 'a fddk_scheme \<Rightarrow> (int \<times> 'a fddk_scheme) option" where
  "fdd_configure eis efifo poll fifothr pretrk k = do {
     let param1 = push_bit 6 (of_bool (0 <s eis)) OR push_bit 5 (of_bool (efifo \<le>s 0)) OR
                  push_bit 4 (of_bool (poll \<le>s 0)) OR (fifothr AND 0xF);
     (st, k) \<leftarrow> send_bytes [0x13, 0x00, param1] k;
     if st < 0 then Some (st, k)
     else do {
       k \<leftarrow> Some (mod_fdc (\<lambda>f. f\<lparr>config1 := param1\<rparr>) k);
       (st, k) \<leftarrow> fdd_send_byte pretrk k;
       if st < 0 then Some (st, k) else Some (0, mod_fdc (\<lambda>f. f\<lparr>config2 := pretrk\<rparr>) k) } }"

definition fdd_specify :: "u8 \<Rightarrow> u8 \<Rightarrow> u8 \<Rightarrow> u8 \<Rightarrow> 'a fddk_scheme \<Rightarrow> (int \<times> 'a fddk_scheme) option" where
  "fdd_specify srt hut hlt nd k = do {
     let param1 = push_bit 4 (srt AND 0x0F) OR (hut AND 0x0F);
     let param2 = push_bit 1 (hlt AND 0x7F) OR of_bool (0 <s nd);
     (st, k) \<leftarrow> send_bytes [0x03, param1, param2] k;
     if st < 0 then Some (st, k) else Some (0, mod_fdc (\<lambda>f. f\<lparr>srt_hut := param1, hlt_nd := param2\<rparr>) k) }"

text \<open>Each register is stored before the status of the read is looked at.\<close>

fun dump_into :: "(u8 \<Rightarrow> fdc_stat \<Rightarrow> fdc_stat) list \<Rightarrow> 'a fddk_scheme \<Rightarrow> (int \<times> 'a fddk_scheme) option" where
  "dump_into [] k = Some (0, k)"
| "dump_into (f # fs) k = do {
     (st, b, k) \<leftarrow> fdd_get_byte k;
     let k = mod_fdc (f b) k;
     if st < 0 then Some (st, k) else dump_into fs k }"

definition fdd_dumpreg :: "'a fddk_scheme \<Rightarrow> (int \<times> 'a fddk_scheme) option" where
  "fdd_dumpreg k = do {
     (st, k) \<leftarrow> fdd_send_byte 0x0E k;
     if st < 0 then Some (st, k)
     else dump_into [\<lambda>b f. f\<lparr>pcn0 := b\<rparr>, \<lambda>b f. f\<lparr>pcn1 := b\<rparr>, \<lambda>b f. f\<lparr>pcn2 := b\<rparr>, \<lambda>b f. f\<lparr>pcn3 := b\<rparr>,
            \<lambda>b f. f\<lparr>srt_hut := b\<rparr>, \<lambda>b f. f\<lparr>hlt_nd := b\<rparr>, \<lambda>b f. f\<lparr>sc_eot := b\<rparr>, \<lambda>b f. f,
            \<lambda>b f. f\<lparr>config1 := b\<rparr>, \<lambda>b f. f\<lparr>config2 := b\<rparr>] k }"

definition fdd_lock :: "u8 \<Rightarrow> 'a iok_scheme \<Rightarrow> (int \<times> 'a iok_scheme) option" where
  "fdd_lock lock k = do {
     (st, k) \<leftarrow> fdd_send_byte (0x14 OR push_bit 7 (of_bool (0 <s lock))) k;
     if st < 0 then Some (st, k)
     else do {
       (st, ret, k) \<leftarrow> fdd_get_byte k;
       if st < 0 then Some (st, k)
       else if ret \<noteq> push_bit 4 (of_bool (0 <s lock)) then Some (FDD_ERROR_LOCKCMD, k)
       else Some (0, k) } }"

definition fdd_sense_interrupt_status :: "'a fddk_scheme \<Rightarrow> (int \<times> 'a fddk_scheme) option" where
  "fdd_sense_interrupt_status k = do {
     (st, k) \<leftarrow> fdd_send_byte 0x08 k;
     if st < 0 then Some (st, k)
     else do {
       (st, bs, k) \<leftarrow> get_bytes 2 k;
       if st < 0 then Some (st, k)
       else if hd bs = 0x80 then Some (FDD_ERROR_SENSE_INT_INVALID, k)
       else Some (0, mod_fdc (\<lambda>f. f\<lparr>st0 := hd bs\<rparr>) k) } }"

text \<open>\<open>while (msr & 0x10) msr = inb(...);\<close>\<close>

partial_function (option) wait_not_busy :: "u8 \<Rightarrow> 'a iok_scheme \<Rightarrow> 'a iok_scheme option" where
  "wait_not_busy m k =
     (if m AND 0x10 \<noteq> 0 then do { (m, k) \<leftarrow> inb_port PORT_MSR k; wait_not_busy m k } else Some k)"

declare wait_not_busy.simps [code]

definition fdd_recalibrate ::
    "('a fddk_scheme \<Rightarrow> 'a fddk_scheme option) \<Rightarrow> u8 \<Rightarrow> 'a fddk_scheme \<Rightarrow> (int \<times> 'a fddk_scheme) option" where
  "fdd_recalibrate rest ds k = do {
     k \<leftarrow> Some (fdd_dev_sel ds (fdd_mot_en ds True k));
     (st, k) \<leftarrow> send_bytes [0x07, ds AND 0x3] k;
     if st < 0 then Some (st, k)
     else do {
       (m, k) \<leftarrow> inb_port PORT_MSR k;
       k \<leftarrow> wait_not_busy m k;
       k \<leftarrow> fdd_wait_for_interrupt rest k;
       (st, k) \<leftarrow> fdd_sense_interrupt_status k;
       if st < 0 then Some (st, k)
       else if st0 (fdc k) AND 0xC0 = 0x4 then Some (FDD_ERROR_RECALIBRATE_NOTRK0, k)
       else if sint (st0 (fdc k) AND 0x3) \<noteq> sint ds then Some (FDD_ERROR_RECALIBRATE_WDEV, k)
       else Some (0, k) } }"

definition fdd_update_R_regs :: "'a fddk_scheme \<Rightarrow> 'a fddk_scheme option" where
  "fdd_update_R_regs k = do {
     (b, k) \<leftarrow> inb_port 0x3F0 k; k \<leftarrow> Some (mod_fdc (\<lambda>f. f\<lparr>srA := b\<rparr>) k);
     (b, k) \<leftarrow> inb_port 0x3F1 k; k \<leftarrow> Some (mod_fdc (\<lambda>f. f\<lparr>srB := b\<rparr>) k);
     (b, k) \<leftarrow> inb_port PORT_MSR k; k \<leftarrow> Some (mod_fdc (\<lambda>f. f\<lparr>msr := b\<rparr>) k);
     (b, k) \<leftarrow> inb_port PORT_DIR k; Some (mod_fdc (\<lambda>f. f\<lparr>fdc_dir := b\<rparr>) k) }"

definition fdd_update_status :: "'a fddk_scheme \<Rightarrow> (int \<times> 'a fddk_scheme) option" where
  "fdd_update_status k = do {
     k \<leftarrow> fdd_update_R_regs k;
     (st, k) \<leftarrow> fdd_dumpreg k;
     if st < 0 then Some (st, k) else Some (0, k) }"

section \<open>Reading a sector\<close>

text \<open>The transfer that the controller makes before it interrupts, into the buffer of a drive.\<close>

definition dma_deliver :: "u32 \<Rightarrow> 'a fddk_scheme \<Rightarrow> 'a fddk_scheme option" where
  "dma_deliver dest k =
     (case dma_in k of [] \<Rightarrow> Some k
      | s # ss \<Rightarrow> do {
          ds \<leftarrow> amod (floppy_devs k) dest (\<lambda>f. f\<lparr>floppy_buffer := s\<rparr>);
          Some (k\<lparr>dma_in := ss, floppy_devs := ds\<rparr>) })"

text \<open>The seven bytes of the result, and the checks of the status registers.\<close>

definition read_result :: "'a fddk_scheme \<Rightarrow> (int \<times> 'a fddk_scheme) option" where
  "read_result k = do {
     (st, bs, k) \<leftarrow> get_bytes 7 k;
     if st < 0 then Some (st, k)
     else do {
       k \<leftarrow> Some (mod_fdc (\<lambda>f. f\<lparr>st0 := bs ! 0, st1 := bs ! 1, st2 := bs ! 2\<rparr>) k);
       if bs ! 0 AND 0xC0 \<noteq> 0 then Some (FDD_ERROR_READ_ABNORM, k)
       else if bs ! 1 AND 0x20 \<noteq> 0 then Some (FDD_ERROR_READ_DE, k)
       else if bs ! 1 AND 0x04 \<noteq> 0 then Some (FDD_ERROR_READ_ND, k)
       else if bs ! 2 AND 0x20 \<noteq> 0 then Some (FDD_ERROR_READ_DD, k)
       else Some (0, k) } }"

text \<open>The parameters \<open>c\<close> to \<open>drv\<close> are of type \<open>char\<close>; \<open>dest\<close> is the drive whose buffer is the destination.
  The loop \<open>while(count--);\<close> only takes time.\<close>

definition fdd_read_sector ::
    "('a fddk_scheme \<Rightarrow> 'a fddk_scheme option) \<Rightarrow> (u32 \<Rightarrow> u32) \<Rightarrow> u8 \<Rightarrow> u8 \<Rightarrow> u8 \<Rightarrow> u8 \<Rightarrow> u8 \<Rightarrow> u32 \<Rightarrow> u8 \<Rightarrow>
     'a fddk_scheme \<Rightarrow> (int \<times> 'a fddk_scheme) option" where
  "fdd_read_sector rest buf_addr c h r eot mt dest drv k = do {
     let cmd = 0x06 OR 0x40 OR push_bit 7 (of_bool (0 <s mt));
     let cmd2 = push_bit 2 (h AND 0x1) OR (drv AND 0x3);
     k \<leftarrow> Some (if dor (fdc k) AND push_bit 4 (drv AND 0xF) = 0 then fdd_mot_en drv True k else k);
     k \<leftarrow> Some (outb PORT_DOR 0x4 (outb PORT_CCR 0x0 k));
     k \<leftarrow> Some (fdd_dev_sel drv k);
     (_, k) \<leftarrow> fdd_recalibrate rest drv k;
     k \<leftarrow> Some (dma_set_floppy_read (buf_addr dest) k);
     (st, k) \<leftarrow> send_bytes [cmd, cmd2, c, h, r, 2, eot, 0x1b, 0xff] k;
     if st < 0 then Some (st, k)
     else do {
       k \<leftarrow> Some (mod_fdc (\<lambda>f. f\<lparr>fdc_c := c, fdc_h := h, fdc_r := r, fdc_n := 2\<rparr>) k);
       (_, k) \<leftarrow> inb_port PORT_MSR k;
       k \<leftarrow> dma_deliver dest k;
       k \<leftarrow> fdd_wait_for_interrupt rest k;
       (_, k) \<leftarrow> inb_port PORT_MSR k;
       read_result k } }"

section \<open>The block device\<close>

text \<open>The cylinder, head and sector of a block, and those that \<open>fdd_block_read\<close> goes on with.\<close>

definition first_chs :: "u32 \<Rightarrow> u32 \<Rightarrow> u32 \<times> u32 \<times> u32" where
  "first_chs spt pos = (pos div (spt * 2), (pos mod (spt * 2)) div spt, pos mod spt + 1)"

definition next_chs :: "u32 \<Rightarrow> u32 \<Rightarrow> u32 \<times> u32 \<times> u32 \<Rightarrow> u32 \<times> u32 \<times> u32" where
  "next_chs spt cyls = (\<lambda>(c, h, s).
     if s + 1 > spt then (if c + 1 > cyls then (0, h + 1, 1) else (c + 1, h, 1)) else (c, h, s + 1))"

text \<open>The loop over the sectors: \<open>n\<close> of them are left and \<open>sz\<close> bytes. The bytes copied to the caller's
  buffer are part of the result.\<close>

primrec fdd_read_loop ::
    "('a fddk_scheme \<Rightarrow> 'a fddk_scheme option) \<Rightarrow> (u32 \<Rightarrow> u32) \<Rightarrow> u32 \<Rightarrow> nat \<Rightarrow> u32 \<times> u32 \<times> u32 \<Rightarrow> nat \<Rightarrow>
     'a fddk_scheme \<Rightarrow> (int \<times> str \<times> 'a fddk_scheme) option" where
  "fdd_read_loop rest buf_addr this 0 chs sz k = Some (0, [], k)"
| "fdd_read_loop rest buf_addr this (Suc n) chs sz k = do {
     let (c, h, s) = chs;
     f \<leftarrow> aget (floppy_devs k) this;
     if h \<ge> ucast (head_count f) then Some (FDD_ERROR_DEV_OVERHEAD, [], k)
     else do {
       (st, k) \<leftarrow> fdd_read_sector rest buf_addr (ucast c) (ucast h) (ucast s) 1 0 this (drive f) k;
       if st < 0 then Some (FDD_ERROR_DEV_NOREAD, [], k)
       else do {
         f \<leftarrow> aget (floppy_devs k) this;
         let bs = take (min 512 sz) (floppy_buffer f);
         (st, bs', k) \<leftarrow> fdd_read_loop rest buf_addr this n
            (next_chs (ucast (sect_per_track f)) (ucast (cylinder_count f)) chs) (sz - 512) k;
         Some (st, bs @ bs', k) } } }"

text \<open>The semaphore \<open>fdc_sem\<close> is given back at the end only. \<open>size\<close> is unsigned; a division by zero
  is an exception of the processor.\<close>

definition fdd_block_read ::
    "('a fddk_scheme \<Rightarrow> 'a fddk_scheme option) \<Rightarrow> (u32 \<Rightarrow> u32) \<Rightarrow> u32 \<Rightarrow> u32 \<Rightarrow> u32 \<Rightarrow> 'a fddk_scheme \<Rightarrow>
     (int \<times> str \<times> 'a fddk_scheme) option" where
  "fdd_block_read rest buf_addr this pos sz k = do {
     f \<leftarrow> aget (floppy_devs k) this;
     let sect_count = sz div 512 + of_bool (sz mod 512 > 0);
     if pos \<noteq> 0 \<and> (cylinder_count f = 0 \<or> head_count f = 0 \<or> sect_per_track f = 0)
     then Some (FDD_ERROR_DEV_NOCONFIG, [], k)
     else do {
       let blocked = (vl (fdc_sem k) = 0);
       (s, k) \<leftarrow> sem_wait (fdc_sem k) k;
       k \<leftarrow> Some (k\<lparr>fdc_sem := s\<rparr>);
       k \<leftarrow> (if blocked then rest k else Some k);
       (st, bs, k) \<leftarrow>
         (if pos = 0 \<and> sect_count = 1 then do {
            (_, k) \<leftarrow> fdd_read_sector rest buf_addr 0 0 1 1 0 this (drive f) k;
            f \<leftarrow> aget (floppy_devs k) this;
            Some (0, take (unat sz) (floppy_buffer f), k) }
          else if sect_per_track f = 0 then None
          else fdd_read_loop rest buf_addr this (unat sect_count)
                 (first_chs (ucast (sect_per_track f)) pos) (unat sz) k);
       if st < 0 then Some (st, bs, k)
       else do {
         (s, k) \<leftarrow> sem_signal (fdc_sem k) k;
         Some (0, bs, k\<lparr>fdc_sem := s\<rparr>) } } }"

text \<open>Writing is not implemented; the rest of the function is not reached.\<close>

definition fdd_block_write :: "u32 \<Rightarrow> u32 \<Rightarrow> str \<Rightarrow> 'a fddk_scheme \<Rightarrow> int option" where
  "fdd_block_write this pos bs k = do {
     f \<leftarrow> aget (floppy_devs k) this;
     Some (if cylinder_count f = 0 \<or> head_count f = 0 \<or> sect_per_track f = 0 then FDD_ERROR_DEV_NOCONFIG
           else -1) }"

definition mod_floppy :: "u32 \<Rightarrow> (blockdev_floppy \<Rightarrow> blockdev_floppy) \<Rightarrow> 'a fddk_scheme \<Rightarrow> 'a fddk_scheme option" where
  "mod_floppy this f k = do { ds \<leftarrow> amod (floppy_devs k) this f; Some (k\<lparr>floppy_devs := ds\<rparr>) }"

definition fdd_block_flush :: "u32 \<Rightarrow> 'a fddk_scheme \<Rightarrow> (u32 \<times> 'a fddk_scheme) option" where
  "fdd_block_flush this k = do {
     k \<leftarrow> mod_floppy this (\<lambda>f. f\<lparr>floppy_refcount := floppy_refcount f - 1\<rparr>) k; Some (0, k) }"

definition FDD_IOCTL_CYL :: u32 where "FDD_IOCTL_CYL = 1"
definition FDD_IOCTL_HEAD :: u32 where "FDD_IOCTL_HEAD = 2"
definition FDD_IOCTL_SECT :: u32 where "FDD_IOCTL_SECT = 3"

definition fdd_block_ioctl :: "u32 \<Rightarrow> u32 \<Rightarrow> u32 \<Rightarrow> 'a fddk_scheme \<Rightarrow> (int \<times> 'a fddk_scheme) option" where
  "fdd_block_ioctl this cmd v k =
     (if cmd = FDD_IOCTL_CYL then do { k \<leftarrow> mod_floppy this (\<lambda>f. f\<lparr>cylinder_count := ucast v\<rparr>) k; Some (0, k) }
      else if cmd = FDD_IOCTL_HEAD then do { k \<leftarrow> mod_floppy this (\<lambda>f. f\<lparr>head_count := ucast v\<rparr>) k; Some (0, k) }
      else if cmd = FDD_IOCTL_SECT then do { k \<leftarrow> mod_floppy this (\<lambda>f. f\<lparr>sect_per_track := ucast v\<rparr>) k; Some (0, k) }
      else Some (FDD_ERROR_IOCTL_WCMD, k))"

text \<open>A block device is its index in \<open>floppy_devs\<close>.\<close>

definition fdd_open :: "u32 \<Rightarrow> u32" where
  "fdd_open nro = nro"

section \<open>Initialisation\<close>

primrec sense_drives :: "nat \<Rightarrow> 'a fddk_scheme \<Rightarrow> (int \<times> 'a fddk_scheme) option" where
  "sense_drives 0 k = Some (0, k)"
| "sense_drives (Suc n) k = do {
     (st, k) \<leftarrow> fdd_sense_interrupt_status k;
     if st < 0 then Some (st, k) else sense_drives n k }"

text \<open>The drives are recalibrated from the last one down.\<close>

primrec recalibrate_drives ::
    "('a fddk_scheme \<Rightarrow> 'a fddk_scheme option) \<Rightarrow> nat \<Rightarrow> 'a fddk_scheme \<Rightarrow> (int \<times> 'a fddk_scheme) option" where
  "recalibrate_drives rest 0 k = Some (0, k)"
| "recalibrate_drives rest (Suc n) k = do {
     (st, k) \<leftarrow> fdd_recalibrate rest (of_nat n) k;
     if st < 0 \<and> st \<noteq> FDD_ERROR_RECALIBRATE_NOTRK0 then Some (st, k) else recalibrate_drives rest n k }"

definition fdd_full_reset ::
    "('a fddk_scheme \<Rightarrow> 'a fddk_scheme option) \<Rightarrow> 'a fddk_scheme \<Rightarrow> (int \<times> 'a fddk_scheme) option" where
  "fdd_full_reset rest k = do {
     k \<leftarrow> Some (outb PORT_DSR 0x0 (outb PORT_CCR 0x0 (outb PORT_DSR 0x80 (outb PORT_DOR 0x0C k))));
     k \<leftarrow> Some (mod_fdc (\<lambda>f. f\<lparr>ccr := 0, dsr := 0, dor := 0x0C\<rparr>) k);
     k \<leftarrow> fdd_wait_for_interrupt rest k;
     k \<leftarrow> Some (outb PORT_DOR 0x0C (outb PORT_DSR 0x0 (outb PORT_CCR 0x0 k)));
     (st, k) \<leftarrow> sense_drives 4 k;
     if st < 0 then Some (st, k)
     else do {
       (st, k) \<leftarrow> fdd_configure 1 1 0 8 0x0 k;
       if st < 0 then Some (st, k)
       else do {
         (st, k) \<leftarrow> fdd_specify 8 5 15 0 k;
         if st < 0 then Some (st, k)
         else do {
           (st, k) \<leftarrow> recalibrate_drives rest 4 k;
           if st < 0 then Some (st, k)
           else Some (0, fdd_dev_sel 0 (fold (\<lambda>m. fdd_mot_en m False) [3, 2, 1, 0] k)) } } } }"

definition fdd_init ::
    "('a fddk_scheme \<Rightarrow> 'a fddk_scheme option) \<Rightarrow> (isr \<Rightarrow> u32) \<Rightarrow> 'a fddk_scheme \<Rightarrow> 'a fddk_scheme option" where
  "fdd_init rest addr k = do {
     (_, k) \<leftarrow> fdd_version k;
     k \<leftarrow> idt_register 38 (addr Isr_fdd) 0 k;
     (_, k) \<leftarrow> fdd_full_reset rest k;
     let (_, k) = dma_setup k;
     ds \<leftarrow> for_range 0 4 (\<lambda>i ds. amod ds (of_nat i)
             (\<lambda>f. f\<lparr>floppy_refcount := 0, drive := of_nat i, cylinder_count := 0, head_count := 0, sect_per_track := 0\<rparr>))
             (floppy_devs k);
     Some (k\<lparr>floppy_devs := ds, fdc_sem := SEM_NEW 1\<rparr>) }"

end
