(* ===== verification/Fat12.thy ===== *)
theory Fat12
  imports Fdd
begin

text \<open>
  The FAT12 file system, kernel/fat12.c. The file allocation table and the root directory are read
  from the disk into kernel pages, so they are bytes of \<open>ram\<close> and the model decodes them at the
  offsets of the packed structures of include/fat12.h. An open file is a kernel page: the structure
  \<open>chardev_file\<close> and, from byte 512 on, the first seven sectors of the file.
\<close>

section \<open>On the disk\<close>

record boot_sector =
  jumpBoot :: str
  SysName :: str
  bytesPerSector :: u16
  SectorsPerCluster :: u8
  ReservedSectors :: u16
  FATcount :: u8
  MaxRootEntries :: u16
  TotalSectors1 :: u16
  MediaDescriptor :: u8
  SectorsPerFAT :: u16
  SectorsPerTrack :: u16
  HeadCount :: u16
  HiddenSectors :: u32
  TotalSectors2 :: u32
  DriveNumber :: u8
  Reserved1 :: u8
  ExtBootSignature :: u8
  VolumeSerial :: u32
  VolumeLabel :: str
  Reserved2 :: str

record dir_entry =
  Filename :: str
  Extension :: str
  Attributes :: u8
  FstClusLO :: u16
  FileSize :: u32

definition rd16 :: "ram \<Rightarrow> u32 \<Rightarrow> u16" where
  "rd16 r a = ucast (r a) OR push_bit 8 (ucast (r (a + 1)))"

definition read_bytes :: "ram \<Rightarrow> u32 \<Rightarrow> nat \<Rightarrow> str" where
  "read_bytes r a n = map (\<lambda>i. r (a + of_nat i)) [0..<n]"

definition write_bytes :: "u32 \<Rightarrow> str \<Rightarrow> ram \<Rightarrow> ram" where
  "write_bytes a bs r = fold (\<lambda>i r. r(a + of_nat i := bs ! i)) [0..<length bs] r"

text \<open>The offsets of the fields in the 62 bytes of \<open>str_boot_sector\<close> and the 32 of \<open>str_dir_entry\<close>.\<close>

definition at16 :: "str \<Rightarrow> nat \<Rightarrow> u16" where
  "at16 b i = ucast (b ! i) OR push_bit 8 (ucast (b ! (i + 1)))"

definition at32 :: "str \<Rightarrow> nat \<Rightarrow> u32" where
  "at32 b i = ucast (at16 b i) OR push_bit 16 (ucast (at16 b (i + 2)))"

definition boot_of_bytes :: "str \<Rightarrow> boot_sector" where
  "boot_of_bytes b =
     \<lparr>jumpBoot = take 3 b, SysName = take 8 (drop 3 b), bytesPerSector = at16 b 11, SectorsPerCluster = b ! 13,
      ReservedSectors = at16 b 14, FATcount = b ! 16, MaxRootEntries = at16 b 17, TotalSectors1 = at16 b 19,
      MediaDescriptor = b ! 21, SectorsPerFAT = at16 b 22, SectorsPerTrack = at16 b 24, HeadCount = at16 b 26,
      HiddenSectors = at32 b 28, TotalSectors2 = at32 b 32, DriveNumber = b ! 36, Reserved1 = b ! 37,
      ExtBootSignature = b ! 38, VolumeSerial = at32 b 39, VolumeLabel = take 11 (drop 43 b), Reserved2 = take 8 (drop 54 b)\<rparr>"

definition dir_entry_size :: u32 where "dir_entry_size = 32"
definition boot_sector_size :: u32 where "boot_sector_size = 62"

definition read_dir_entry :: "ram \<Rightarrow> u32 \<Rightarrow> dir_entry" where
  "read_dir_entry r a =
     \<lparr>Filename = read_bytes r a 8, Extension = read_bytes r (a + 8) 3, Attributes = r (a + 11),
      FstClusLO = rd16 r (a + 26), FileSize = rd32 r (a + 28)\<rparr>"

record fat12 =
  fat_dev :: u32
  boot_sect :: boot_sector
  fat :: u32
  fat_cache :: u32

record fsk = fddk +
  disk :: fat12

definition FAT12_CACHE_SECTORS :: nat where "FAT12_CACHE_SECTORS = 7 + 8"
definition FAT12_SECT_SIZE :: u32 where "FAT12_SECT_SIZE = 512"
definition FAT12_SECT_PER_PAGE :: u32 where "FAT12_SECT_PER_PAGE = 8"
definition DEV_FILE_FIRST_LVL_PAGES :: u32 where "DEV_FILE_FIRST_LVL_PAGES = 100"
definition DEV_FILE_SECND_LVL_PAGES :: u32 where "DEV_FILE_SECND_LVL_PAGES = 1023"
definition FILE_ERROR_NOTFOUND :: int where "FILE_ERROR_NOTFOUND = - 3"

section \<open>The file allocation table\<close>

text \<open>An entry of the table is three bytes, two bit fields of twelve bits.\<close>

definition fat12_first :: "ram \<Rightarrow> u32 \<Rightarrow> u16" where
  "fat12_first r a = ucast (r a) OR push_bit 8 (ucast (r (a + 1) AND 0x0F))"

definition fat12_second :: "ram \<Rightarrow> u32 \<Rightarrow> u16" where
  "fat12_second r a = ucast (drop_bit 4 (r (a + 1))) OR push_bit 4 (ucast (r (a + 2)))"

definition fat12_next_sector :: "ram \<Rightarrow> u32 \<Rightarrow> u16 \<Rightarrow> u16" where
  "fat12_next_sector r entries index =
     (let offset = index div 2;
          e = entries + 3 * ucast offset
      in if index mod 2 \<noteq> 0 then fat12_second r e else fat12_first r e)"

section \<open>Finding a file\<close>

definition isFile :: "dir_entry \<Rightarrow> bool" where
  "isFile e \<longleftrightarrow> hd (Filename e) \<noteq> 0x0 \<and> hd (Filename e) \<noteq> 0x05 \<and> hd (Filename e) \<noteq> 0x2E \<and>
     hd (Filename e) \<noteq> 0xE5 \<and> Attributes e AND 0xDC = 0"

text \<open>The comparison of a file name with an entry: as many characters as the name has before its dot,
  8 at most, then the extension. \<open>strncmp\<close> is given the entry's bytes from the field on.\<close>

definition name_matches :: "str \<Rightarrow> str \<Rightarrow> bool option" where
  "name_matches filename ent = do {
     d \<leftarrow> strchr filename 46;
     n \<leftarrow> strncmp filename ent (unat (word_of_int (if 8 < d then 8 else d) :: u32));
     if n = 0 then do {
       e \<leftarrow> strncmp (drop (nat (d + 1)) filename) (drop 8 ent) 3;
       Some (e = 0) }
     else Some False }"

function find_from :: "ram \<Rightarrow> u32 \<Rightarrow> nat \<Rightarrow> nat \<Rightarrow> str \<Rightarrow> dir_entry option option" where
  "find_from r root i n filename =
     (if i < n then do {
        let a = root + dir_entry_size * of_nat i;
        let e = read_dir_entry r a;
        if \<not> isFile e then find_from r root (i + 1) n filename
        else do {
          m \<leftarrow> name_matches filename (read_bytes r a 512);
          if m then Some (Some e) else find_from r root (i + 1) n filename } }
      else Some None)"
  by pat_completeness auto
termination
  by (relation "measure (\<lambda>(r, root, i, n, filename). n - i)") auto

declare find_from.simps [simp del]

text \<open>The root directory is where the first word of the cache page points.\<close>

definition fat12_find_file :: "fat12 \<Rightarrow> str \<Rightarrow> 'a mmk_scheme \<Rightarrow> (int \<times> dir_entry option) option" where
  "fat12_find_file this filename k = do {
     r \<leftarrow> find_from (ram k) (get32 k (fat_cache this)) 0 (unat (MaxRootEntries (boot_sect this))) filename;
     Some (case r of None \<Rightarrow> FILE_ERROR_NOTFOUND | Some _ \<Rightarrow> 0, r) }"

section \<open>Reading and seeking in an open file\<close>

definition get_file :: "'a devk_scheme \<Rightarrow> u32 \<Rightarrow> chardev_file option" where
  "get_file k a = (case objs k a of Some (File f) \<Rightarrow> Some f | _ \<Rightarrow> None)"

definition mod_file :: "u32 \<Rightarrow> (chardev_file \<Rightarrow> chardev_file) \<Rightarrow> 'a devk_scheme \<Rightarrow> 'a devk_scheme option" where
  "mod_file a f k = do { p \<leftarrow> get_file k a; Some (put_obj a (File (f p)) k) }"

text \<open>One byte, from the buffer to the device when \<open>dir\<close>, else from the device; the index into the
  device's bytes is the whole cursor, and the cursor moves.\<close>

definition mov_byte :: "bool \<Rightarrow> u32 \<Rightarrow> u32 \<Rightarrow> nat \<Rightarrow> str \<Rightarrow> 'a devk_scheme \<Rightarrow> (str \<times> 'a devk_scheme) option" where
  "mov_byte dir this page i buf k = do {
     f \<leftarrow> get_file k this;
     if dir then do {
       b \<leftarrow> nget buf i;
       Some (buf, k\<lparr>ram := (ram k)(page + file_cursor f := b)\<rparr>) }
     else do {
       buf \<leftarrow> nput buf i (ram k (page + file_cursor f));
       Some (buf, k) } }"

text \<open>The three \<open>for\<close> loops: at most \<open>n\<close> bytes, while \<open>go\<close> holds of the cursor.\<close>

primrec mov_loop :: "(u32 \<Rightarrow> bool) \<Rightarrow> bool \<Rightarrow> u32 \<Rightarrow> u32 \<Rightarrow> nat \<Rightarrow> nat \<Rightarrow> str \<Rightarrow> 'a devk_scheme \<Rightarrow>
    (nat \<times> str \<times> 'a devk_scheme) option" where
  "mov_loop go dir this page 0 i buf k = Some (i, buf, k)"
| "mov_loop go dir this page (Suc n) i buf k = do {
     f \<leftarrow> get_file k this;
     if go (file_cursor f) then do {
       (buf, k) \<leftarrow> mov_byte dir this page i buf k;
       k \<leftarrow> mod_file this (\<lambda>f. f\<lparr>file_cursor := file_cursor f + 1\<rparr>) k;
       mov_loop go dir this page n (i + 1) buf k }
     else Some (i, buf, k) }"

definition page_bytes :: u32 where
  "page_bytes = FAT12_SECT_SIZE * FAT12_SECT_PER_PAGE"

definition not_page_end :: "u32 \<Rightarrow> bool" where
  "not_page_end cursor \<longleftrightarrow> cursor mod page_bytes \<noteq> page_bytes - 1"

text \<open>\<open>more_pages\<close> and its successors are kernel pages: a pointer to the next, then 1023 pointers.\<close>

definition sectors_next :: "'a mmk_scheme \<Rightarrow> u32 \<Rightarrow> u32" where
  "sectors_next k s = get32 k s"

definition sectors_page :: "'a mmk_scheme \<Rightarrow> u32 \<Rightarrow> u32 \<Rightarrow> u32 option" where
  "sectors_page k s i = (if i < DEV_FILE_SECND_LVL_PAGES then Some (get32 k (s + 4 + 4 * i)) else None)"

text \<open>The second \<open>while\<close>: \<open>i\<close> starts again at 0 in each round, and the last byte of a page is not
  counted in it.\<close>

partial_function (option) mov_second ::
    "bool \<Rightarrow> u32 \<Rightarrow> u32 \<Rightarrow> nat option \<Rightarrow> str \<Rightarrow> 'a devk_scheme \<Rightarrow>
     (bool \<times> nat option \<times> str \<times> 'a devk_scheme) option" where
  "mov_second dir this sz i0 buf k = do {
     f \<leftarrow> get_file k this;
     if file_cursor f < (7 + DEV_FILE_FIRST_LVL_PAGES * FAT12_SECT_PER_PAGE) * FAT12_SECT_SIZE then do {
       let page = cur_page f;
       (i, buf, k) \<leftarrow> mov_loop not_page_end dir this page (unat sz) 0 buf k;
       f \<leftarrow> get_file k this;
       (buf, k) \<leftarrow>
         (if i < unat sz \<and> \<not> not_page_end (file_cursor f) then do {
            (buf, k) \<leftarrow> mov_byte dir this page i buf k;
            let c = (file_cursor f - 7 * FAT12_SECT_SIZE) div page_bytes;
            k \<leftarrow> (if c < DEV_FILE_FIRST_LVL_PAGES - 1 then do {
                    p \<leftarrow> aget (data_pages f) (c + 1);
                    mod_file this (\<lambda>f. f\<lparr>cur_page := p\<rparr>) k }
                  else do {
                    p \<leftarrow> sectors_page k (more_pages f) 0;
                    mod_file this (\<lambda>f. f\<lparr>cur_sectors := more_pages f, cur_page := p\<rparr>) k });
            k \<leftarrow> mod_file this (\<lambda>f. f\<lparr>file_cursor := file_cursor f + 1\<rparr>) k;
            Some (buf, k) }
          else Some (buf, k));
       if i = unat sz then Some (True, Some i, buf, k) else mov_second dir this sz (Some i) buf k }
     else Some (False, i0, buf, k) }"

declare mov_second.simps [code]

text \<open>The third. \<open>i0\<close> is the value of \<open>i\<close> so far; when no loop has run it has none, and returning it is
  undefined.\<close>

partial_function (option) mov_third ::
    "bool \<Rightarrow> u32 \<Rightarrow> u32 \<Rightarrow> nat option \<Rightarrow> str \<Rightarrow> 'a devk_scheme \<Rightarrow> (u32 \<times> str \<times> 'a devk_scheme) option" where
  "mov_third dir this sz i0 buf k = do {
     f \<leftarrow> get_file k this;
     if file_cursor f < file_size f then do {
       let page = cur_page f;
       (i, buf, k) \<leftarrow> mov_loop not_page_end dir this page (unat sz) 0 buf k;
       f \<leftarrow> get_file k this;
       if i < unat sz \<and> \<not> not_page_end (file_cursor f) then do {
         (buf, k) \<leftarrow> mov_byte dir this page i buf k;
         let c = (file_cursor f - (7 + FAT12_SECT_SIZE * DEV_FILE_FIRST_LVL_PAGES) * FAT12_SECT_SIZE) div page_bytes;
         if c < DEV_FILE_SECND_LVL_PAGES - 1 then do {
           p \<leftarrow> aget (data_pages f) (c + 1);
           k \<leftarrow> mod_file this (\<lambda>f. f\<lparr>cur_page := p, file_cursor := file_cursor f + 1\<rparr>) k;
           mov_third dir this sz (Some i) buf k }
         else do {
           let s = sectors_next k (cur_sectors f);
           k \<leftarrow> mod_file this (\<lambda>f. f\<lparr>cur_sectors := s\<rparr>) k;
           if s = 0 then Some (-1, buf, k)
           else do {
             p \<leftarrow> sectors_page k s 0;
             k \<leftarrow> mod_file this (\<lambda>f. f\<lparr>cur_page := p, file_cursor := file_cursor f + 1\<rparr>) k;
             mov_third dir this sz (Some i) buf k } } }
       else if i = unat sz then Some (sz, buf, k)
       else mov_third dir this sz (Some i) buf k }
     else do { i \<leftarrow> i0; Some (of_nat i, buf, k) } }"

declare mov_third.simps [code]

text \<open>\<open>chardev_file_mov\<close>: the result, the buffer and the state.\<close>

definition chardev_file_mov :: "u32 \<Rightarrow> str \<Rightarrow> u32 \<Rightarrow> bool \<Rightarrow> 'a devk_scheme \<Rightarrow> (u32 \<times> str \<times> 'a devk_scheme) option" where
  "chardev_file_mov this buf sz dir k = do {
     f \<leftarrow> get_file k this;
     let sz = (if sz + file_cursor f > file_size f then file_size f - file_cursor f else sz);
     (done, i, buf, k) \<leftarrow>
       (if file_cursor f < 7 * FAT12_SECT_SIZE then do {
          (i, buf, k) \<leftarrow> mov_loop (\<lambda>c. c < 7 * FAT12_SECT_SIZE) dir this (this + 512) (unat sz) 0 buf k;
          f \<leftarrow> get_file k this;
          k \<leftarrow> (if file_cursor f \<ge> 7 * FAT12_SECT_SIZE then do {
                  p \<leftarrow> aget (data_pages f) 0;
                  mod_file this (\<lambda>f. f\<lparr>cur_page := p\<rparr>) k }
                else Some k);
          Some (i = unat sz, Some i, buf, k) }
        else Some (False, None, buf, k));
     if done then Some (sz, buf, k)
     else do {
       (done, i, buf, k) \<leftarrow> mov_second dir this sz i buf k;
       if done then Some (sz, buf, k) else mov_third dir this sz i buf k } }"

definition chardev_file_read :: "u32 \<Rightarrow> str \<Rightarrow> u32 \<Rightarrow> 'a devk_scheme \<Rightarrow> (u32 \<times> str \<times> 'a devk_scheme) option" where
  "chardev_file_read this buf sz k = chardev_file_mov this buf sz False k"

text \<open>The local copy of the bytes starts with the indeterminate contents of the stack, \<open>buffer\<close>. The
  direction is that of a read.\<close>

definition chardev_file_write :: "u32 \<Rightarrow> str \<Rightarrow> str \<Rightarrow> 'a devk_scheme \<Rightarrow> (u32 \<times> 'a devk_scheme) option" where
  "chardev_file_write this buffer bs k = do {
     (_, buffer) \<leftarrow> strncpy buffer bs (of_nat (length bs));
     (st, _, k) \<leftarrow> chardev_file_mov this buffer (of_nat (length bs)) False k;
     Some (st, k) }"

text \<open>\<open>while (c--) ...\<close> leaves \<open>c\<close> at \<open>2 ^ 32 - 1\<close>.\<close>

primrec seek_blocks :: "nat \<Rightarrow> u32 \<Rightarrow> 'a devk_scheme \<Rightarrow> 'a devk_scheme option" where
  "seek_blocks 0 this k = Some k"
| "seek_blocks (Suc n) this k = do {
     f \<leftarrow> get_file k this;
     k \<leftarrow> mod_file this (\<lambda>f. f\<lparr>cur_sectors := sectors_next k (cur_sectors f)\<rparr>) k;
     seek_blocks n this k }"

definition chardev_file_seek :: "u32 \<Rightarrow> u32 \<Rightarrow> 'a devk_scheme \<Rightarrow> (u32 \<times> 'a devk_scheme) option" where
  "chardev_file_seek this pos k = do {
     f \<leftarrow> get_file k this;
     k \<leftarrow> (if pos < 7 * FAT12_SECT_SIZE then mod_file this (\<lambda>f. f\<lparr>cur_sectors := 0, cur_page := this\<rparr>) k
           else if pos < (7 + DEV_FILE_FIRST_LVL_PAGES * FAT12_SECT_PER_PAGE) * FAT12_SECT_SIZE then do {
             p \<leftarrow> aget (data_pages f) ((pos - 7 * FAT12_SECT_SIZE) div page_bytes);
             mod_file this (\<lambda>f. f\<lparr>cur_sectors := 0, cur_page := p\<rparr>) k }
           else do {
             let s = pos - (7 + DEV_FILE_FIRST_LVL_PAGES * FAT12_SECT_PER_PAGE) * FAT12_SECT_SIZE;
             let c = s div (DEV_FILE_SECND_LVL_PAGES * FAT12_SECT_SIZE * FAT12_SECT_SIZE);
             k \<leftarrow> mod_file this (\<lambda>f. f\<lparr>cur_sectors := more_pages f\<rparr>) k;
             k \<leftarrow> seek_blocks (unat c) this k;
             f \<leftarrow> get_file k this;
             p \<leftarrow> sectors_page k (cur_sectors f) ((-1) div page_bytes);
             mod_file this (\<lambda>f. f\<lparr>cur_page := p\<rparr>) k });
     k \<leftarrow> mod_file this (\<lambda>f. f\<lparr>file_cursor := pos\<rparr>) k;
     Some (pos, k) }"

definition chardev_file_flush :: "u32 \<Rightarrow> 'a devk_scheme \<Rightarrow> u32 \<times> 'a devk_scheme" where
  "chardev_file_flush this k = (0, k)"

section \<open>Opening a file\<close>

definition new_file :: "u32 \<Rightarrow> u32 \<Rightarrow> str \<Rightarrow> chardev_file" where
  "new_file file sz name =
     \<lparr>file_dev = \<lparr>clase = DEV_ID_CHAR_FILE, refcount = 1, fn_flush = Some File_flush, fn_read = Some File_read,
        fn_write = Some File_write, fn_seek = Some File_seek\<rparr>,
      file_cursor = 0, file_name = name, file_size = sz, cur_page = file, cur_sectors = 0, more_pages = 0,
      data_pages = replicate 100 0\<rparr>"

definition data_start :: "boot_sector \<Rightarrow> u16" where
  "data_start b = ReservedSectors b + ucast (FATcount b) * SectorsPerFAT b +
     ucast ((ucast (MaxRootEntries b) * 32 :: u32) div FAT12_SECT_SIZE) - 2"

definition first_sectors :: "u32 \<Rightarrow> u32" where
  "first_sectors sz =
     (if sz > FAT12_SECT_SIZE * 7 then 7 else sz div FAT12_SECT_SIZE + of_bool (sz mod FAT12_SECT_SIZE > 0))"

text \<open>The loop that reads the first sectors, \<open>n\<close> of them left; it follows the file's chain.\<close>

primrec load_sectors ::
    "('a fddk_scheme \<Rightarrow> 'a fddk_scheme option) \<Rightarrow> (u32 \<Rightarrow> u32) \<Rightarrow> fat12 \<Rightarrow> u32 \<Rightarrow> nat \<Rightarrow> nat \<Rightarrow> u16 \<Rightarrow>
     'a fddk_scheme \<Rightarrow> (bool \<times> 'a fddk_scheme) option" where
  "load_sectors rest buf_addr this file 0 i sector k = Some (True, k)"
| "load_sectors rest buf_addr this file (Suc n) i sector k = do {
     (st, bs, k) \<leftarrow> fdd_block_read rest buf_addr (fat_dev this)
        (ucast (data_start (boot_sect this)) + ucast sector) 0x200 k;
     k \<leftarrow> Some (k\<lparr>ram := write_bytes (file + 0x200 * (of_nat i + 1)) bs (ram k)\<rparr>);
     if st < 0 then Some (False, k)
     else load_sectors rest buf_addr this file n (i + 1) (fat12_next_sector (ram k) (fat this) sector) k }"

text \<open>The result is the address of the device, or 0. The page is not checked: the test that should do
  it looks at \<open>this\<close>.\<close>

definition fat12_open ::
    "('a fddk_scheme \<Rightarrow> 'a fddk_scheme option) \<Rightarrow> (u32 \<Rightarrow> u32) \<Rightarrow> fat12 \<Rightarrow> str \<Rightarrow> u32 \<Rightarrow>
     'a fddk_scheme \<Rightarrow> (u32 \<times> 'a fddk_scheme) option" where
  "fat12_open rest buf_addr this filename flags k = do {
     (st, e) \<leftarrow> fat12_find_file this filename k;
     case e of None \<Rightarrow> Some (0, k)
     | Some file_entry \<Rightarrow> do {
         (file, k) \<leftarrow> mm_mem_kalloc k;
         len \<leftarrow> strlen filename;
         (_, name) \<leftarrow> strncpy (replicate 40 0) filename (of_nat len);
         k \<leftarrow> Some (put_obj file (File (new_file file (FileSize file_entry) name)) k);
         (ok, k) \<leftarrow> load_sectors rest buf_addr this file (unat (first_sectors (FileSize file_entry))) 0
            (FstClusLO file_entry) k;
         Some (if ok then file else 0, k) } }"

section \<open>Mounting the disk\<close>

text \<open>Tracks per side, sectors per track and sides; unchanged for a descriptor without a case.\<close>

definition fat12_media_desc :: "u8 \<Rightarrow> u32 \<times> u32 \<times> u32 \<Rightarrow> u32 \<times> u32 \<times> u32" where
  "fat12_media_desc d old =
     (if d = 0xF0 then (80, 18, 2) else if d = 0xF9 then (80, 9, 2) else if d = 0xFA then (80, 8, 1)
      else if d = 0xFB then (80, 8, 2) else if d = 0xFC then (40, 9, 1) else if d = 0xFD then (40, 9, 2)
      else if d = 0xFE then (40, 8, 1) else if d = 0xFF then (40, 8, 2) else old)"

primrec kalloc_pages :: "nat \<Rightarrow> 'a fddk_scheme \<Rightarrow> 'a fddk_scheme option" where
  "kalloc_pages 0 k = Some k"
| "kalloc_pages (Suc n) k = do { (_, k) \<leftarrow> mm_mem_kalloc k; kalloc_pages n k }"

definition mark_sectors :: "u32 \<Rightarrow> nat \<Rightarrow> u32 \<Rightarrow> 'a fddk_scheme \<Rightarrow> 'a fddk_scheme" where
  "mark_sectors cache n v k = fold (\<lambda>i. put32 (cache + 4 + 4 * of_nat i) v) [0..<n] k"

text \<open>\<open>fat12_create\<close> on the file system \<open>disk\<close>. \<open>geometry\<close> is the indeterminate initial value of the three
  local variables. It returns at the first read that fails. \<open>put32\<close> writes the cache's structure.\<close>

definition fat12_create ::
    "('a fsk_scheme \<Rightarrow> 'a fsk_scheme option) \<Rightarrow> (u32 \<Rightarrow> u32) \<Rightarrow> u32 \<times> u32 \<times> u32 \<Rightarrow> u32 \<Rightarrow>
     'a fsk_scheme \<Rightarrow> 'a fsk_scheme option" where
  "fat12_create rest buf_addr geometry dev k = do {
     k \<leftarrow> Some (k\<lparr>disk := (disk k)\<lparr>fat_dev := dev\<rparr>\<rparr>);
     (st, bs, k) \<leftarrow> fdd_block_read rest buf_addr dev 0 boot_sector_size k;
     if st < 0 then Some k
     else do {
       let b = boot_of_bytes bs;
       k \<leftarrow> Some (k\<lparr>disk := (disk k)\<lparr>boot_sect := b\<rparr>\<rparr>);
       let (cyl, sect, head) = fat12_media_desc (MediaDescriptor b) geometry;
       (_, k) \<leftarrow> fdd_block_ioctl dev FDD_IOCTL_CYL cyl k;
       (_, k) \<leftarrow> fdd_block_ioctl dev FDD_IOCTL_HEAD head k;
       (_, k) \<leftarrow> fdd_block_ioctl dev FDD_IOCTL_SECT sect k;
       (fat_page, k) \<leftarrow> mm_mem_kalloc k;
       k \<leftarrow> Some (k\<lparr>disk := (disk k)\<lparr>fat := fat_page\<rparr>\<rparr>);
       k \<leftarrow> kalloc_pages (unat (SectorsPerFAT b div 8 + of_bool (SectorsPerFAT b mod 8 > 0)) - 1) k;
       (st, bs, k) \<leftarrow> fdd_block_read rest buf_addr dev (ucast (ReservedSectors b)) (4 * 512) k;
       k \<leftarrow> Some (mod_ram (write_bytes fat_page bs) k);
       if st < 0 then Some k
       else do {
         (cache, k) \<leftarrow> mm_mem_kalloc k;
         k \<leftarrow> Some (k\<lparr>disk := (disk k)\<lparr>fat_cache := cache\<rparr>\<rparr>);
         (_, k) \<leftarrow> mm_mem_kalloc k;
         k \<leftarrow> Some (put32 cache (cache + 512) k);
         let sectPerRoot = (ucast (MaxRootEntries b) * dir_entry_size) div 512;
         if of_nat FAT12_CACHE_SECTORS \<le> sectPerRoot then Some k
         else do {
           (st, bs, k) \<leftarrow> fdd_block_read rest buf_addr dev
              (ucast (ReservedSectors b) + ucast (FATcount b) * ucast (SectorsPerFAT b)) (sectPerRoot * 512) k;
           k \<leftarrow> Some (mod_ram (write_bytes (get32 k cache) bs) k);
           if st < 0 then Some k
           else Some (mark_sectors cache (unat sectPerRoot) 1 (mark_sectors cache FAT12_CACHE_SECTORS 0 k)) } } } }"

end
