(* ===== verification/Pipe.thy ===== *)
theory Pipe
  imports Device
begin

text \<open>
  Pipes, kernel/pipe.c. A pipe is a kernel page with two \<open>pipedev\<close> structures, the read end at its
  start and the write end after it, and a circular buffer of 3072 bytes from byte 512 on. The
  semaphore of the write end is the mutex of the pipe, that of the read end the condition on which
  either side waits for the other.

  A read or a write may wait four times. The model cuts it there: an operation returns \<open>Done\<close> with its
  result, or \<open>Waits\<close> with a \<open>pipe_pc\<close>, the place where \<open>pipe_resume\<close> continues it when its task is
  scheduled again. The caller's buffer is the list of bytes copied out of it or into it.
\<close>

section \<open>Opening\<close>

definition PIPE_ERROR_NOPIPE :: u32 where "PIPE_ERROR_NOPIPE = - 5"
definition PIPE_ERROR_CLOSED :: u32 where "PIPE_ERROR_CLOSED = - 6"
definition SECTOR_SIZE :: u32 where "SECTOR_SIZE = 512"
definition PIPE_BUFF_SIZE :: u32 where "PIPE_BUFF_SIZE = SECTOR_SIZE * 6"

text \<open>\<open>sizeof(pipedev)\<close>: 24 bytes of header, then fields of 4 bytes, \<open>type\<close> and \<open>busy\<close> padded to 4.\<close>

definition pipedev_size :: u32 where "pipedev_size = 64"

definition pipe_open :: "'a devk_scheme \<Rightarrow> (u32 \<times> u32 \<times> u32 \<times> 'a devk_scheme) option" where
  "pipe_open k = do {
     (page, k) \<leftarrow> mm_mem_kalloc k;
     if page = 0 then Some (PIPE_ERROR_NOPIPE, 0, 0, k)
     else do {
       let read_pipe = \<lparr>pipe_dev = \<lparr>clase = DEV_ID_CHAR_PIPE, refcount = 0, fn_flush = Some Pipe_flush,
               fn_read = Some Pipe_read, fn_write = None, fn_seek = None\<rparr>,
             pipe_type = 82, pipe_other = page + pipedev_size, buffer_size = PIPE_BUFF_SIZE,
             pipe_cursor = 0, buffer_cant = 0, pipe_buffer = page + SECTOR_SIZE, pipe_page = page,
             pipe_busy = 0, pipe_sem = SEM_NEW 0\<rparr>;
       let write_pipe = \<lparr>pipe_dev = \<lparr>clase = DEV_ID_CHAR_PIPE, refcount = 0, fn_flush = Some Pipe_flush,
               fn_read = None, fn_write = Some Pipe_write, fn_seek = None\<rparr>,
             pipe_type = 87, pipe_other = page, buffer_size = PIPE_BUFF_SIZE,
             pipe_cursor = 0, buffer_cant = 0, pipe_buffer = page + SECTOR_SIZE, pipe_page = page,
             pipe_busy = 0, pipe_sem = SEM_NEW 1\<rparr>;
       let k = put_obj (page + pipedev_size) (Pipe write_pipe) (put_obj page (Pipe read_pipe) k);
       Some (0, page, page + pipedev_size, k) } }"

definition pipe_init :: "'a devk_scheme \<Rightarrow> 'a devk_scheme option" where
  "pipe_init = register_syscall 0x41 Sys_pipe"

section \<open>Access to a pipe\<close>

definition get_pipe :: "'a devk_scheme \<Rightarrow> u32 \<Rightarrow> pipedev option" where
  "get_pipe k a = (case objs k a of Some (Pipe p) \<Rightarrow> Some p | _ \<Rightarrow> None)"

definition mod_pipe :: "u32 \<Rightarrow> (pipedev \<Rightarrow> pipedev) \<Rightarrow> 'a devk_scheme \<Rightarrow> 'a devk_scheme option" where
  "mod_pipe a f k = do { p \<leftarrow> get_pipe k a; Some (put_obj a (Pipe (f p)) k) }"

text \<open>The calls of \<open>sem_wait\<close> and \<open>sem_signal\<close> on the semaphore of a pipe. A wait blocks the task when
  there is no free place; the first component says so.\<close>

definition pipe_wait :: "u32 \<Rightarrow> 'a devk_scheme \<Rightarrow> (bool \<times> 'a devk_scheme) option" where
  "pipe_wait a k = do {
     p \<leftarrow> get_pipe k a;
     (s, k) \<leftarrow> sem_wait (pipe_sem p) k;
     Some (vl (pipe_sem p) = 0, put_obj a (Pipe (p\<lparr>pipe_sem := s\<rparr>)) k) }"

definition pipe_signal :: "u32 \<Rightarrow> 'a devk_scheme \<Rightarrow> 'a devk_scheme option" where
  "pipe_signal a k = do {
     p \<leftarrow> get_pipe k a;
     (s, k) \<leftarrow> sem_signal (pipe_sem p) k;
     Some (put_obj a (Pipe (p\<lparr>pipe_sem := s\<rparr>)) k) }"

section \<open>Reading\<close>

datatype pipe_pc =
    Read_enter u32 u32 \<comment> \<open>waiting for the mutex at the start\<close>
  | Read_cond u32 u32 \<comment> \<open>waiting for something to read\<close>
  | Read_again u32 u32 \<comment> \<open>waiting for the mutex again\<close>
  | Write_enter u32 str \<comment> \<open>waiting for the mutex at the start\<close>
  | Write_cond u32 u32 str \<comment> \<open>waiting for space, with the bytes left to write\<close>
  | Write_again u32 u32 str \<comment> \<open>waiting for the mutex again\<close>

datatype 'k pipe_res = Done u32 str 'k | Waits pipe_pc 'k

text \<open>The copying loop: \<open>n\<close> bytes from the cursor on.\<close>

primrec pipe_take :: "u32 \<Rightarrow> nat \<Rightarrow> 'a devk_scheme \<Rightarrow> (str \<times> 'a devk_scheme) option" where
  "pipe_take this 0 k = Some ([], k)"
| "pipe_take this (Suc n) k = do {
     p \<leftarrow> get_pipe k this;
     k' \<leftarrow> mod_pipe this (\<lambda>p. p\<lparr>pipe_cursor := (pipe_cursor p + 1) mod buffer_size p\<rparr>) k;
     (bs, k') \<leftarrow> pipe_take this n k';
     Some (ram k (pipe_buffer p + pipe_cursor p) # bs, k') }"

text \<open>From the copying loop to the end of the critical section.\<close>

definition pipe_read_finish :: "u32 \<Rightarrow> u32 \<Rightarrow> 'a devk_scheme \<Rightarrow> 'a devk_scheme pipe_res option" where
  "pipe_read_finish this cnt k = do {
     p \<leftarrow> get_pipe k this;
     let other = pipe_other p;
     (bs, k) \<leftarrow> pipe_take this (unat cnt) k;
     k \<leftarrow> mod_pipe other (\<lambda>p. p\<lparr>buffer_cant := buffer_cant p - cnt\<rparr>) k;
     k \<leftarrow> mod_pipe this (\<lambda>p. p\<lparr>buffer_cant := buffer_cant p - cnt\<rparr>) k;
     o1 \<leftarrow> get_pipe k other;
     k \<leftarrow> (if pipe_busy o1 \<noteq> 0 then do {
             k \<leftarrow> mod_pipe other (\<lambda>p. p\<lparr>pipe_busy := 0\<rparr>) k;
             pipe_signal this k }
           else Some k);
     k \<leftarrow> pipe_signal other k;
     Some (Done cnt bs k) }"

definition pipe_read_rest :: "u32 \<Rightarrow> u32 \<Rightarrow> 'a devk_scheme \<Rightarrow> 'a devk_scheme pipe_res option" where
  "pipe_read_rest this sz k = do {
     p \<leftarrow> get_pipe k this;
     pipe_read_finish this (if buffer_cant p < sz then buffer_cant p else sz) k }"

definition pipe_read_woken :: "u32 \<Rightarrow> u32 \<Rightarrow> 'a devk_scheme \<Rightarrow> 'a devk_scheme pipe_res option" where
  "pipe_read_woken this sz k = do {
     p \<leftarrow> get_pipe k this;
     (blocked, k) \<leftarrow> pipe_wait (pipe_other p) k;
     if blocked then Some (Waits (Read_again this sz) k) else pipe_read_rest this sz k }"

definition pipe_read_locked :: "u32 \<Rightarrow> u32 \<Rightarrow> 'a devk_scheme \<Rightarrow> 'a devk_scheme pipe_res option" where
  "pipe_read_locked this sz k = do {
     p \<leftarrow> get_pipe k this;
     o1 \<leftarrow> get_pipe k (pipe_other p);
     if buffer_cant p \<ge> sz then pipe_read_finish this sz k
     else if pipe_busy o1 \<noteq> 0 then pipe_read_finish this (buffer_cant p) k
     else do {
       k \<leftarrow> mod_pipe this (\<lambda>p. p\<lparr>pipe_busy := 1\<rparr>) k;
       k \<leftarrow> pipe_signal (pipe_other p) k;
       (blocked, k) \<leftarrow> pipe_wait this k;
       if blocked then Some (Waits (Read_cond this sz) k) else pipe_read_woken this sz k } }"

definition pipe_read :: "u32 \<Rightarrow> u32 \<Rightarrow> 'a devk_scheme \<Rightarrow> 'a devk_scheme pipe_res option" where
  "pipe_read this sz k = do {
     p \<leftarrow> get_pipe k this;
     o1 \<leftarrow> get_pipe k (pipe_other p);
     if refcount (pipe_dev o1) = 0 then Some (Done PIPE_ERROR_CLOSED [] k)
     else do {
       (blocked, k) \<leftarrow> pipe_wait (pipe_other p) k;
       if blocked then Some (Waits (Read_enter this sz) k) else pipe_read_locked this sz k } }"

section \<open>Writing\<close>

text \<open>One byte into the buffer; both ends count it.\<close>

definition pipe_put :: "u32 \<Rightarrow> u8 \<Rightarrow> 'a devk_scheme \<Rightarrow> 'a devk_scheme option" where
  "pipe_put this b k = do {
     p \<leftarrow> get_pipe k this;
     k \<leftarrow> Some (k\<lparr>ram := (ram k)(pipe_buffer p + pipe_cursor p := b)\<rparr>);
     k \<leftarrow> mod_pipe this (\<lambda>p. p\<lparr>pipe_cursor := (pipe_cursor p + 1) mod buffer_size p\<rparr>) k;
     k \<leftarrow> mod_pipe this (\<lambda>p. p\<lparr>buffer_cant := buffer_cant p + 1\<rparr>) k;
     mod_pipe (pipe_other p) (\<lambda>p. p\<lparr>buffer_cant := buffer_cant p + 1\<rparr>) k }"

text \<open>The loop, with the bytes left. It does not look again whether there is space after it has waited.\<close>

fun pipe_write_loop :: "u32 \<Rightarrow> u32 \<Rightarrow> str \<Rightarrow> 'a devk_scheme \<Rightarrow> 'a devk_scheme pipe_res option" where
  "pipe_write_loop this sz [] k = do {
     p \<leftarrow> get_pipe k this;
     o1 \<leftarrow> get_pipe k (pipe_other p);
     k \<leftarrow> (if pipe_busy o1 \<noteq> 0 then pipe_signal (pipe_other p) k else Some k);
     k \<leftarrow> pipe_signal this k;
     Some (Done sz [] k) }"
| "pipe_write_loop this sz (b # bs) k = do {
     p \<leftarrow> get_pipe k this;
     o1 \<leftarrow> get_pipe k (pipe_other p);
     if buffer_cant p = buffer_size p then do {
       k \<leftarrow> mod_pipe this (\<lambda>p. p\<lparr>pipe_busy := 1\<rparr>) k;
       k \<leftarrow> pipe_signal this k;
       k \<leftarrow> (if pipe_busy o1 \<noteq> 0 then do {
               k \<leftarrow> mod_pipe (pipe_other p) (\<lambda>p. p\<lparr>pipe_busy := 0\<rparr>) k;
               pipe_signal (pipe_other p) k }
             else Some k);
       (blocked, k) \<leftarrow> pipe_wait (pipe_other p) k;
       if blocked then Some (Waits (Write_cond this sz (b # bs)) k)
       else do {
         (blocked, k) \<leftarrow> pipe_wait this k;
         if blocked then Some (Waits (Write_again this sz (b # bs)) k)
         else do { k \<leftarrow> pipe_put this b k; pipe_write_loop this sz bs k } } }
     else do { k \<leftarrow> pipe_put this b k; pipe_write_loop this sz bs k } }"

definition pipe_write :: "u32 \<Rightarrow> str \<Rightarrow> 'a devk_scheme \<Rightarrow> 'a devk_scheme pipe_res option" where
  "pipe_write this bs k = do {
     p \<leftarrow> get_pipe k this;
     o1 \<leftarrow> get_pipe k (pipe_other p);
     if refcount (pipe_dev o1) = 0 then Some (Done PIPE_ERROR_CLOSED [] k)
     else do {
       (blocked, k) \<leftarrow> pipe_wait this k;
       if blocked then Some (Waits (Write_enter this bs) k)
       else pipe_write_loop this (of_nat (length bs)) bs k } }"

text \<open>A task whose wait is over continues.\<close>

fun pipe_resume :: "pipe_pc \<Rightarrow> 'a devk_scheme \<Rightarrow> 'a devk_scheme pipe_res option" where
  "pipe_resume (Read_enter this sz) k = pipe_read_locked this sz k"
| "pipe_resume (Read_cond this sz) k = pipe_read_woken this sz k"
| "pipe_resume (Read_again this sz) k = pipe_read_rest this sz k"
| "pipe_resume (Write_enter this bs) k = pipe_write_loop this (of_nat (length bs)) bs k"
| "pipe_resume (Write_cond this sz bs) k = do {
     (blocked, k) \<leftarrow> pipe_wait this k;
     if blocked then Some (Waits (Write_again this sz bs) k)
     else (case bs of [] \<Rightarrow> None | b # bs \<Rightarrow> do { k \<leftarrow> pipe_put this b k; pipe_write_loop this sz bs k }) }"
| "pipe_resume (Write_again this sz bs) k =
     (case bs of [] \<Rightarrow> None | b # bs \<Rightarrow> do { k \<leftarrow> pipe_put this b k; pipe_write_loop this sz bs k })"

section \<open>Closing\<close>

definition pipe_flush :: "u32 \<Rightarrow> 'a devk_scheme \<Rightarrow> (u32 \<times> 'a devk_scheme) option" where
  "pipe_flush this k = do {
     k \<leftarrow> add_ref (-1) this k;
     p \<leftarrow> get_pipe k this;
     free \<leftarrow> (if refcount (pipe_dev p) = 0 then do {
               o1 \<leftarrow> get_pipe k (pipe_other p);
               Some (refcount (pipe_dev o1) = 0) }
             else Some False);
     k \<leftarrow> (if free then do {
             k \<leftarrow> mm_mem_free (pipe_page p) k;
             Some (drop_obj (pipe_other p) (drop_obj this k)) }
           else Some k);
     Some (0, k) }"

text \<open>\<open>sys_pipe\<close>: the two descriptors, or an error after both ends have been flushed. When there was one
  descriptor left, the first flush gives the page back and the second one uses it: there the call has no
  result.\<close>

definition sys_pipe :: "'a devk_scheme \<Rightarrow> (u32 \<times> (u32 \<times> u32) \<times> 'a devk_scheme) option" where
  "sys_pipe k = do {
     (st, r, w, k) \<leftarrow> pipe_open k;
     if st <s 0 then Some (st, (0, 0), k)
     else do {
       (fd0, k) \<leftarrow> device_descriptor r k;
       (fd1, k) \<leftarrow> device_descriptor w k;
       if fd0 <s 0 \<or> fd1 <s 0 then do {
         (_, k) \<leftarrow> pipe_flush r k;
         (_, k) \<leftarrow> pipe_flush w k;
         Some (DEV_ERROR_NOFD, (fd0, fd1), k) }
       else Some (0, (fd0, fd1), k) } }"

end
