(* ===== verification/Files.thy ===== *)
theory Files
  imports Fat12 Process Pipe
begin

text \<open>
  The system calls on devices and the end of a task: kernel/proc.c, kernel/fs.c, the second half of
  kernel/device.c, \<open>sys_run\<close> of kernel/con.c, \<open>loader_exit\<close> of kernel/loader.c and the table of system
  calls. A call on a descriptor goes through the function pointers of the device; a null pointer,
  device or function, is None.
\<close>

section \<open>The processor's information\<close>

definition cpuid_msg :: str where "cpuid_msg = cstr ''Paseee capooo '' @ [0]"

text \<open>The device is a global variable, whose address is an argument.\<close>

definition get_cpuid :: "'a devk_scheme \<Rightarrow> u32 \<Rightarrow> proc_cpuid_dev option" where
  "get_cpuid k a = (case objs k a of Some (Cpuid p) \<Rightarrow> Some p | _ \<Rightarrow> None)"

definition proc_cpuid_open :: "u32 \<Rightarrow> 'a devk_scheme \<Rightarrow> (u32 \<times> 'a devk_scheme) option" where
  "proc_cpuid_open cpuid_dev k = do {
     p \<leftarrow> get_cpuid k cpuid_dev;
     Some (cpuid_dev, put_obj cpuid_dev (Cpuid (p\<lparr>cpuid_fp := 0, cpuid_busy := 1, cpuid_buff := cpuid_msg,
       cpuid_chardev := (cpuid_chardev p)\<lparr>clase := DEV_ID_PROC_CPUID, fn_read := Some Cpuid_read, fn_write := None,
         fn_flush := Some Cpuid_flush\<rparr>\<rparr>)) k) }"

text \<open>Nothing keeps the position inside the message, nor \<open>size - 1\<close> inside the buffer.\<close>

definition proc_cpuid_read :: "u32 \<Rightarrow> str \<Rightarrow> u32 \<Rightarrow> 'a devk_scheme \<Rightarrow> (u32 \<times> str \<times> 'a devk_scheme) option" where
  "proc_cpuid_read this buf sz k = do {
     p \<leftarrow> get_cpuid k this;
     buf \<leftarrow> for_range 0 (unat sz) (\<lambda>i buf. do {
       b \<leftarrow> nget (cpuid_buff p) (i + unat (cpuid_fp p));
       nput buf i b }) buf;
     k \<leftarrow> Some (put_obj this (Cpuid (p\<lparr>cpuid_fp := cpuid_fp p + ucast sz\<rparr>)) k);
     buf \<leftarrow> (if sz = 0 then None else nput buf (unat sz - 1) 0);
     Some (sz, buf, k) }"

definition proc_cpuid_write :: "u32 \<Rightarrow> str \<Rightarrow> u32" where
  "proc_cpuid_write this bs = 0"

definition proc_cpuid_flush :: "u32 \<Rightarrow> 'a devk_scheme \<Rightarrow> (u32 \<times> 'a devk_scheme) option" where
  "proc_cpuid_flush cpuid_dev k = do {
     p \<leftarrow> get_cpuid k cpuid_dev;
     Some (0, put_obj cpuid_dev (Cpuid (p\<lparr>cpuid_busy := 0\<rparr>)) k) }"

section \<open>Opening\<close>

definition FS_OPEN_RDWR :: u32 where "FS_OPEN_RDWR = 0x0003"

text \<open>The addresses and the rest of the system that the drivers take as arguments, together.\<close>

record 'k env =
  rest_of :: "'k \<Rightarrow> 'k option"
  buf_addr :: "u32 \<Rightarrow> u32"
  cpuid_addr :: u32

definition fs_open :: "'a fsk_scheme env \<Rightarrow> str \<Rightarrow> u32 \<Rightarrow> 'a fsk_scheme \<Rightarrow> (u32 \<times> 'a fsk_scheme) option" where
  "fs_open E filename flags k =
     (if flags AND FS_OPEN_RDWR = 0 then Some (0, k)
      else do {
        r \<leftarrow> strcmp filename (cstr ''/serial0'');
        if r = 0 then serial_open 0 k
        else do {
          r \<leftarrow> strcmp filename (cstr ''/serial1'');
          if r = 0 then serial_open 1 k
          else do {
            r \<leftarrow> strcmp filename (cstr ''/console'');
            if r = 0 then con_open k
            else do {
              r \<leftarrow> strcmp filename (cstr ''/proc/cpuid'');
              if r = 0 then proc_cpuid_open (cpuid_addr E) k
              else do {
                r \<leftarrow> strncmp filename (cstr ''/disk/'') 6;
                if r = 0 then fat12_open (rest_of E) (buf_addr E) (disk k) (drop 6 filename) flags k
                else Some (0, k) } } } } })"

definition sys_open :: "'a fsk_scheme env \<Rightarrow> str \<Rightarrow> u32 \<Rightarrow> 'a fsk_scheme \<Rightarrow> (u32 \<times> 'a fsk_scheme) option" where
  "sys_open E filename flags k = do {
     (dev, k) \<leftarrow> fs_open E filename flags k;
     if dev = 0 then Some (-1, k) else device_descriptor dev k }"

definition fs_init ::
    "'a fsk_scheme env \<Rightarrow> u32 \<times> u32 \<times> u32 \<Rightarrow> 'a fsk_scheme \<Rightarrow> 'a fsk_scheme option" where
  "fs_init E geometry k = do {
     k \<leftarrow> fat12_create (rest_of E) (buf_addr E) geometry (fdd_open 0) k;
     register_syscall 0x37 Sys_open k }"

text \<open>\<open>sys_run\<close>, kernel/con.c. \<open>command\<close> is an array of four characters without a NUL.\<close>

definition sys_run :: "'a fsk_scheme env \<Rightarrow> u32 \<Rightarrow> str \<Rightarrow> 'a fsk_scheme \<Rightarrow> (u32 \<times> 'a fsk_scheme) option" where
  "sys_run E task_ret archivo k = do {
     k \<leftarrow> mod_con (current_console k) (\<lambda>c. c\<lparr>con_buff := replicate 30 0\<rparr>) k;
     r \<leftarrow> strncmp (map of_char ''run '') archivo 4;
     if r = 0 then do {
       (path, _) \<leftarrow> str_into_string (cstr ''/disk/'' @ replicate 43 0) 6 (drop 4 archivo);
       len \<leftarrow> strlen path;
       path \<leftarrow> str_convert_to_mayus path 6 len;
       (file, k) \<leftarrow> fs_open E path 0x3 k;
       if file \<noteq> 0 then loader_load task_ret (file + 0x200) 3 k else Some (-1, k) }
     else Some (-1, k) }"

section \<open>Reading, writing, seeking, closing\<close>

datatype wait_point = Wait_pipe pipe_pc | Wait_con u32 u32

datatype 'k io_res = Io_done u32 str 'k | Io_waits wait_point 'k

text \<open>The bytes a device delivers, at the start of the caller's buffer.\<close>

definition into_buf :: "str \<Rightarrow> u32 \<Rightarrow> str \<Rightarrow> 'k \<Rightarrow> 'k io_res option" where
  "into_buf buf st bs k = do { (buf, _) \<leftarrow> put_bytes buf 0 bs; Some (Io_done st buf k) }"

definition pipe_io :: "str \<Rightarrow> 'k pipe_res \<Rightarrow> 'k io_res option" where
  "pipe_io buf r = (case r of Done st bs k \<Rightarrow> into_buf buf st bs k | Waits pc k \<Rightarrow> Some (Io_waits (Wait_pipe pc) k))"

definition con_io :: "str \<Rightarrow> u32 \<Rightarrow> u32 \<Rightarrow> 'k con_res \<Rightarrow> 'k io_res option" where
  "con_io buf this sz r =
     (case r of Read_done st bs k \<Rightarrow> into_buf buf st bs k | Read_waits k \<Rightarrow> Some (Io_waits (Wait_con this sz) k))"

text \<open>\<open>i0\<close> is the indeterminate value with which \<open>serial_read\<close> starts.\<close>

definition dev_read :: "dev_fn \<Rightarrow> u32 \<Rightarrow> str \<Rightarrow> u32 \<Rightarrow> u32 \<Rightarrow> 'a serialk_scheme \<Rightarrow> 'a serialk_scheme io_res option" where
  "dev_read fn this buf sz i0 k =
     (case fn of
        Con_read \<Rightarrow> do { r \<leftarrow> con_read this sz k; con_io buf this sz r }
      | Pipe_read \<Rightarrow> do { r \<leftarrow> pipe_read this sz k; pipe_io buf r }
      | Serial_read \<Rightarrow> do {
          (ws, st, k) \<leftarrow> serial_read sz i0 k;
          buf \<leftarrow> foldr (\<lambda>(i, b) ob. do { buf \<leftarrow> ob; nput buf (unat i) b }) (rev ws) (Some buf);
          Some (Io_done st buf k) }
      | File_read \<Rightarrow> do { (st, buf, k) \<leftarrow> chardev_file_read this buf sz k; Some (Io_done st buf k) }
      | Cpuid_read \<Rightarrow> do { (st, buf, k) \<leftarrow> proc_cpuid_read this buf sz k; Some (Io_done st buf k) }
      | _ \<Rightarrow> None)"

definition sys_read :: "u32 \<Rightarrow> str \<Rightarrow> u32 \<Rightarrow> u32 \<Rightarrow> 'a serialk_scheme \<Rightarrow> 'a serialk_scheme io_res option" where
  "sys_read fd buf sz i0 k = do {
     dev \<leftarrow> fd_get (char_devices k) (cur_pid k) fd;
     d \<leftarrow> objs k dev;
     fn \<leftarrow> fn_read (hdr d);
     dev_read fn dev buf sz i0 k }"

text \<open>A write takes the bytes it is to write; \<open>stack\<close> is what \<open>chardev_file_write\<close> finds in its local
  buffer.\<close>

definition dev_write :: "dev_fn \<Rightarrow> u32 \<Rightarrow> str \<Rightarrow> str \<Rightarrow> 'a serialk_scheme \<Rightarrow> 'a serialk_scheme io_res option" where
  "dev_write fn this bs stack k =
     (case fn of
        Con_write \<Rightarrow> do { (st, k) \<leftarrow> con_write this bs k; Some (Io_done st [] k) }
      | Serial_write \<Rightarrow> do { (st, k) \<leftarrow> serial_write this bs k; Some (Io_done st [] k) }
      | File_write \<Rightarrow> do { (st, k) \<leftarrow> chardev_file_write this stack bs k; Some (Io_done st [] k) }
      | Pipe_write \<Rightarrow> do { r \<leftarrow> pipe_write this bs k; pipe_io [] r }
      | _ \<Rightarrow> None)"

definition sys_write :: "u32 \<Rightarrow> str \<Rightarrow> str \<Rightarrow> 'a serialk_scheme \<Rightarrow> 'a serialk_scheme io_res option" where
  "sys_write fd bs stack k = do {
     dev \<leftarrow> fd_get (char_devices k) (cur_pid k) fd;
     d \<leftarrow> objs k dev;
     fn \<leftarrow> fn_write (hdr d);
     dev_write fn dev bs stack k }"

definition sys_seek :: "u32 \<Rightarrow> u32 \<Rightarrow> 'a devk_scheme \<Rightarrow> (u32 \<times> 'a devk_scheme) option" where
  "sys_seek fd pos k = do {
     dev \<leftarrow> fd_get (char_devices k) (cur_pid k) fd;
     d \<leftarrow> objs k dev;
     fn \<leftarrow> fn_seek (hdr d);
     if fn = File_seek then chardev_file_seek dev pos k else None }"

definition dev_flush :: "dev_fn \<Rightarrow> u32 \<Rightarrow> 'a conk_scheme \<Rightarrow> (u32 \<times> 'a conk_scheme) option" where
  "dev_flush fn this k =
     (case fn of
        Con_flush \<Rightarrow> con_flush this k
      | Serial_flush \<Rightarrow> Some (serial_flush this k)
      | File_flush \<Rightarrow> Some (chardev_file_flush this k)
      | Pipe_flush \<Rightarrow> pipe_flush this k
      | Cpuid_flush \<Rightarrow> proc_cpuid_flush this k
      | _ \<Rightarrow> None)"

definition sys_close :: "u32 \<Rightarrow> 'a conk_scheme \<Rightarrow> (u32 \<times> 'a conk_scheme) option" where
  "sys_close fd k = do {
     dev \<leftarrow> fd_get (char_devices k) (cur_pid k) fd;
     cd \<leftarrow> fd_put (char_devices k) (cur_pid k) fd 0;
     k \<leftarrow> Some (k\<lparr>char_devices := cd\<rparr>);
     d \<leftarrow> objs k dev;
     fn \<leftarrow> fn_flush (hdr d);
     dev_flush fn dev k }"

definition device_release_devices :: "'a conk_scheme \<Rightarrow> 'a conk_scheme option" where
  "device_release_devices k =
     for_range 0 MAX_FD (\<lambda>i k. do {
       dev \<leftarrow> fd_get (char_devices k) (cur_pid k) (of_nat i);
       if dev \<noteq> 0 then do { (_, k) \<leftarrow> sys_close (of_nat i) k; Some k } else Some k }) k"

section \<open>The end of a task\<close>

definition loader_exit :: "'a conk_scheme \<Rightarrow> 'a conk_scheme option" where
  "loader_exit k = do {
     k \<leftarrow> Some (cli k);
     t \<leftarrow> aget (task_table k) (cur_pid k);
     k \<leftarrow> device_release_devices k;
     k \<leftarrow> free_pid (cur_pid k) k;
     (s, p) \<leftarrow> sched_exit (sch k);
     loader_switchto_exit p (cr3 t) (k\<lparr>tasks_running := tasks_running k - 1, sch := s\<rparr>) }"

definition sys_exit :: "'a conk_scheme \<Rightarrow> 'a conk_scheme option" where
  "sys_exit = loader_exit"

section \<open>The table of system calls\<close>

text \<open>\<open>isr_syscall\<close>, kernel/isr.asm: interrupts off, then the function whose number is in \<open>eax\<close>. The
  number is not checked against the table.\<close>

definition isr_syscall :: "u32 \<Rightarrow> 'a iok_scheme \<Rightarrow> (syscall \<times> 'a iok_scheme) option" where
  "isr_syscall eax k = do {
     h \<leftarrow> aget (syscall_list k) eax;
     h \<leftarrow> h;
     Some (h, cli k) }"

end
