(* ===== verification/Pipe_Spec.thy ===== *)
theory Pipe_Spec
  imports Pipe
begin

text \<open>
  A pipe as a queue of bytes. \<open>pipe_rel k a c r w\<close>: in state \<open>k\<close> the structures at \<open>a\<close> and after it
  are \<open>r\<close> and \<open>w\<close>, the ends of one pipe, and its circular buffer holds the bytes \<open>c\<close>.
\<close>

definition ring_holds :: "'a mmk_scheme \<Rightarrow> u32 \<Rightarrow> nat \<Rightarrow> str \<Rightarrow> bool" where
  "ring_holds k buf cur c \<longleftrightarrow> (\<forall>i < length c. ram k (buf + of_nat ((cur + i) mod 3072)) = c ! i)"

definition pipe_rel :: "'a devk_scheme \<Rightarrow> u32 \<Rightarrow> str \<Rightarrow> pipedev \<Rightarrow> pipedev \<Rightarrow> bool" where
  "pipe_rel k a c r w \<longleftrightarrow>
     get_pipe k a = Some r \<and> get_pipe k (a + pipedev_size) = Some w \<and>
     pipe_other r = a + pipedev_size \<and> pipe_other w = a \<and>
     buffer_size r = 3072 \<and> buffer_size w = 3072 \<and>
     pipe_buffer w = pipe_buffer r \<and> pipe_page r = a \<and> pipe_page w = a \<and>
     length c \<le> 3072 \<and> buffer_cant r = of_nat (length c) \<and> buffer_cant w = of_nat (length c) \<and>
     unat (pipe_cursor r) < 3072 \<and>
     unat (pipe_cursor w) = (unat (pipe_cursor r) + length c) mod 3072 \<and>
     ring_holds k (pipe_buffer r) (unat (pipe_cursor r)) c"

text \<open>Nobody is inside the pipe or waits for it, and both ends are open.\<close>

definition pipe_idle :: "pipedev \<Rightarrow> pipedev \<Rightarrow> bool" where
  "pipe_idle r w \<longleftrightarrow> pipe_sem w = SEM_NEW 1 \<and> pipe_busy w = 0 \<and>
     refcount (pipe_dev r) \<noteq> 0 \<and> refcount (pipe_dev w) \<noteq> 0"

section \<open>Structures\<close>

lemma ends_apart [simp]: "pipedev_size \<noteq> 0" "a + pipedev_size \<noteq> a" "a \<noteq> a + pipedev_size"
  by (simp_all add: pipedev_size_def)

lemma get_pipe_put [simp]: "get_pipe (put_obj a (Pipe p) k) b = (if a = b then Some p else get_pipe k b)"
  by (simp add: get_pipe_def put_obj_def)

lemma mod_pipe_get: "get_pipe k a = Some p \<Longrightarrow> mod_pipe a f k = Some (put_obj a (Pipe (f p)) k)"
  by (simp add: mod_pipe_def)

lemma get_pipe_ram [simp]: "get_pipe (k\<lparr>ram := m\<rparr>) a = get_pipe k a"
  by (simp add: get_pipe_def)

lemma get_pipe_objs: "get_pipe k a = Some p \<longleftrightarrow> objs k a = Some (Pipe p)"
  by (auto simp: get_pipe_def split: option.splits obj.splits)

text \<open>A semaphore with a place is taken and given back without a task switch.\<close>

lemma pipe_wait_free:
  assumes "get_pipe k a = Some p" "pipe_sem p = SEM_NEW 1"
  shows "pipe_wait a k = Some (False, put_obj a (Pipe (p\<lparr>pipe_sem := SEM_NEW 0\<rparr>)) k)"
  using assms by (simp add: pipe_wait_def sem_wait_def SEM_NEW_def)

lemma pipe_signal_free:
  assumes "get_pipe k a = Some p" "pipe_sem p = SEM_NEW v"
  shows "pipe_signal a k = Some (put_obj a (Pipe (p\<lparr>pipe_sem := SEM_NEW (v + 1)\<rparr>)) k)"
  using assms by (simp add: pipe_signal_def sem_signal_def SEM_NEW_def)

section \<open>The circular buffer\<close>

lemma of_nat_eq_unat: "unat (x :: u32) = n \<Longrightarrow> x = of_nat n"
  by auto

lemma mod_step: "unat (x :: u32) < 3072 \<Longrightarrow> unat ((x + 1) mod 3072) = (unat x + 1) mod 3072"
  by (simp add: unat_mod unat_word_ariths)

lemma slot_eq:
  assumes "i < 3072" "j < 3072"
  shows "(of_nat i :: u32) = of_nat j \<longleftrightarrow> i = j"
proof
  assume "(of_nat i :: u32) = of_nat j"
  then have "unat (of_nat i :: u32) = unat (of_nat j :: u32)" by simp
  then show "i = j" using assms by (simp add: unat_of_nat)
qed simp

lemma ring_append:
  assumes "ring_holds k buf cur c" "length c < 3072" "x = of_nat ((cur + length c) mod 3072)"
  shows "ring_holds (k\<lparr>ram := (ram k)(buf + x := b)\<rparr>) buf cur (c @ [b])"
  using assms mod_apart [of _ "length c" 3072 cur]
  by (auto simp: ring_holds_def nth_append less_Suc_eq slot_eq)

lemma pipe_put_rel:
  assumes "pipe_rel k a c r w" "length c < 3072"
  shows "\<exists>k' r' w'. pipe_put (a + pipedev_size) b k = Some k' \<and> pipe_rel k' a (c @ [b]) r' w' \<and>
     r' = r\<lparr>buffer_cant := buffer_cant r + 1\<rparr> \<and>
     w' = w\<lparr>pipe_cursor := (pipe_cursor w + 1) mod 3072, buffer_cant := buffer_cant w + 1\<rparr> \<and>
     kern.truncate k' = kern.truncate k"
proof -
  note R = assms(1) [unfolded pipe_rel_def]
  let ?r = "r\<lparr>buffer_cant := buffer_cant r + 1\<rparr>"
  let ?w = "w\<lparr>pipe_cursor := (pipe_cursor w + 1) mod 3072, buffer_cant := buffer_cant w + 1\<rparr>"
  let ?k = "put_obj a (Pipe ?r) (put_obj (a + pipedev_size) (Pipe ?w)
     (k\<lparr>ram := (ram k)(pipe_buffer w + pipe_cursor w := b)\<rparr>))"
  have "pipe_put (a + pipedev_size) b k = Some ?k"
    using R by (simp add: pipe_put_def mod_pipe_def)
  moreover have "kern.truncate ?k = kern.truncate k" by simp
  moreover have "pipe_cursor w = of_nat ((unat (pipe_cursor r) + length c) mod 3072)"
    using R by (intro of_nat_eq_unat) simp
  then have "ring_holds (k\<lparr>ram := (ram k)(pipe_buffer r + pipe_cursor w := b)\<rparr>) (pipe_buffer r) (unat (pipe_cursor r)) (c @ [b])"
    using R assms(2) by (intro ring_append) auto
  then have "pipe_rel ?k a (c @ [b]) ?r ?w"
    using R assms(2) by (simp add: pipe_rel_def ring_holds_def mod_step mod_Suc_eq)
  ultimately show ?thesis by blast
qed

lemma length_less_size: "length c < 3072 \<Longrightarrow> (of_nat (length c) :: u32) \<noteq> 3072"
  using slot_eq [of "length c"] by (auto dest!: arg_cong [where f = unat] simp: unat_of_nat)

text \<open>The writing loop while there is space.\<close>

lemma pipe_write_space:
  assumes "pipe_rel k a c r w" "length c + length bs \<le> 3072"
  shows "\<exists>k' r' w'. pipe_write_loop (a + pipedev_size) sz bs k = pipe_write_loop (a + pipedev_size) sz [] k' \<and>
     pipe_rel k' a (c @ bs) r' w' \<and>
     pipe_dev r' = pipe_dev r \<and> pipe_busy r' = pipe_busy r \<and> pipe_sem r' = pipe_sem r \<and>
     pipe_dev w' = pipe_dev w \<and> pipe_busy w' = pipe_busy w \<and> pipe_sem w' = pipe_sem w \<and>
     kern.truncate k' = kern.truncate k"
  using assms
proof (induction bs arbitrary: k c r w)
  case Nil
  then show ?case by auto
next
  case (Cons b bs)
  then have c: "length c < 3072" by simp
  obtain k' r' w' where k': "pipe_put (a + pipedev_size) b k = Some k'" "pipe_rel k' a (c @ [b]) r' w'"
     "r' = r\<lparr>buffer_cant := buffer_cant r + 1\<rparr>"
     "w' = w\<lparr>pipe_cursor := (pipe_cursor w + 1) mod 3072, buffer_cant := buffer_cant w + 1\<rparr>"
     "kern.truncate k' = kern.truncate k"
    using pipe_put_rel [OF Cons.prems(1) c] by blast
  have "pipe_write_loop (a + pipedev_size) sz (b # bs) k = pipe_write_loop (a + pipedev_size) sz bs k'"
    using Cons.prems(1) c k'(1) length_less_size [OF c] by (simp add: pipe_rel_def)
  with Cons.IH [OF k'(2)] Cons.prems(2) k'(3-5) show ?case by simp
qed

lemma ring_drop:
  "ring_holds k buf cur c \<Longrightarrow> n \<le> length c \<Longrightarrow> ring_holds k buf ((cur + n) mod 3072) (drop n c)"
  by (auto simp: ring_holds_def mod_simps add.assoc)

lemma ring_put_obj [simp]: "ring_holds (put_obj a d k) = ring_holds k"
  by (intro ext) (simp add: ring_holds_def)

text \<open>The copying loop of a read.\<close>

lemma pipe_take_eq:
  assumes "get_pipe k this = Some p" "buffer_size p = 3072" "unat (pipe_cursor p) < 3072"
    and "ring_holds k (pipe_buffer p) (unat (pipe_cursor p)) c" "n \<le> length c"
  shows "\<exists>p'. pipe_take this n k = Some (take n c, put_obj this (Pipe p') k) \<and>
     p' = p\<lparr>pipe_cursor := of_nat ((unat (pipe_cursor p) + n) mod 3072)\<rparr>"
  using assms
proof (induction n arbitrary: k p c)
  case 0
  then show ?case by (simp add: get_pipe_objs put_obj_same)
next
  case (Suc n)
  let ?p = "p\<lparr>pipe_cursor := (pipe_cursor p + 1) mod 3072\<rparr>"
  let ?k = "put_obj this (Pipe ?p) k"
  obtain b cs where c: "c = b # cs" using Suc.prems by (cases c) auto
  have cur: "unat (pipe_cursor ?p) = (unat (pipe_cursor p) + 1) mod 3072"
    using Suc.prems(3) by (simp add: mod_step)
  have "ring_holds ?k (pipe_buffer ?p) (unat (pipe_cursor ?p)) cs"
    using ring_drop [OF Suc.prems(4), of 1] cur by (simp add: c)
  moreover have "unat (pipe_cursor ?p) < 3072" unfolding cur by simp
  ultimately have "pipe_take this n ?k = Some (take n cs, put_obj this (Pipe (?p\<lparr>pipe_cursor :=
      of_nat ((unat (pipe_cursor ?p) + n) mod 3072)\<rparr>)) ?k)"
    using Suc.IH [of ?k ?p cs] Suc.prems by (simp add: c)
  moreover have "ram k (pipe_buffer p + pipe_cursor p) = b"
    using Suc.prems(3,4) by (auto simp: c ring_holds_def dest!: spec [of _ 0])
  ultimately show ?case using Suc.prems(1,2) cur by (simp add: mod_pipe_def c mod_simps)
qed

text \<open>The end of a read that takes no more than there is, when the writer does not wait.\<close>

lemma pipe_read_finish_rel:
  assumes R: "pipe_rel k a c r w" and n: "unat n \<le> length c" and b: "pipe_busy w = 0" 
    and s: "pipe_sem w = SEM_NEW v"
  shows "\<exists>k' r' w'. pipe_read_finish a n k = Some (Done n (take (unat n) c) k') \<and>
     pipe_rel k' a (drop (unat n) c) r' w' \<and>
     pipe_dev r' = pipe_dev r \<and> pipe_busy r' = pipe_busy r \<and> pipe_sem r' = pipe_sem r \<and>
     pipe_dev w' = pipe_dev w \<and> pipe_busy w' = 0 \<and> pipe_sem w' = SEM_NEW (v + 1)"
proof -
  note D = R [unfolded pipe_rel_def]
  let ?c = "(unat (pipe_cursor r) + unat n) mod 3072"
  let ?r = "r\<lparr>pipe_cursor := of_nat ?c, buffer_cant := buffer_cant r - n\<rparr>"
  let ?w = "w\<lparr>buffer_cant := buffer_cant w - n, pipe_sem := SEM_NEW (v + 1)\<rparr>"
  let ?k = "put_obj (a + pipedev_size) (Pipe ?w) (put_obj a (Pipe ?r) k)"
  have take: "pipe_take a (unat n) k = Some (take (unat n) c, put_obj a (Pipe (r\<lparr>pipe_cursor := of_nat ?c\<rparr>)) k)"
    using pipe_take_eq [of k a r c "unat n"] D n by simp
  have comm: "put_obj x d (put_obj y e k1) = put_obj y e (put_obj x d k1)" if "x \<noteq> y" for x y d e k1
    using that by (auto simp: put_obj_def fun_upd_twist)
  have fin: "pipe_read_finish a n k = Some (Done n (take (unat n) c) ?k)"
    using D b s by (simp add: pipe_read_finish_def Let_def take mod_pipe_def pipe_signal_def sem_signal_def SEM_NEW_def
        comm [of a "a + pipedev_size"])
  have "(of_nat (length c) :: u32) - n = of_nat (length c - unat n)" using n by simp
  moreover have "(unat (pipe_cursor r) + length c) mod 3072 = (?c + (length c - unat n)) mod 3072"
  proof -
    obtain m where "length c = unat n + m" using n by (metis le_add_diff_inverse)
    then show ?thesis by (simp add: mod_simps add.assoc)
  qed
  moreover have "length c - unat n \<le> 3072" using D by linarith
  ultimately have "pipe_rel ?k a (drop (unat n) c) ?r ?w"
    using D n ring_drop [of k "pipe_buffer r" "unat (pipe_cursor r)" c "unat n"]
    by (simp add: pipe_rel_def unat_of_nat)
  with fin show ?thesis using b by (intro exI [of _ ?k] exI [of _ ?r] exI [of _ ?w]) simp
qed

section \<open>Whole operations\<close>

lemma nat_word_le: "length c \<le> 3072 \<Longrightarrow> n \<le> (of_nat (length c) :: u32) \<longleftrightarrow> unat n \<le> length c"
  by (simp add: word_le_nat_alt unat_of_nat)

lemma pipe_rel_wait:
  "pipe_rel k a c r w \<Longrightarrow> pipe_rel (put_obj (a + pipedev_size) (Pipe (w\<lparr>pipe_sem := s\<rparr>)) k) a c r (w\<lparr>pipe_sem := s\<rparr>)"
  by (simp add: pipe_rel_def)

text \<open>The end of a write, with nobody waiting on the condition.\<close>

lemma pipe_write_end:
  assumes "get_pipe k (a + pipedev_size) = Some w" "get_pipe k a = Some r" "pipe_other w = a"
    and "pipe_sem r = SEM_NEW v" "pipe_sem w = SEM_NEW 0"
  shows "pipe_write_loop (a + pipedev_size) sz [] k = Some (Done sz []
    (put_obj (a + pipedev_size) (Pipe (w\<lparr>pipe_sem := SEM_NEW 1\<rparr>))
       (put_obj a (Pipe (r\<lparr>pipe_sem := SEM_NEW (if pipe_busy r \<noteq> 0 then v + 1 else v)\<rparr>)) k)))"
proof -
  have "r\<lparr>pipe_sem := SEM_NEW v\<rparr> = r" using assms(4) by simp
  then have same: "put_obj a (Pipe (r\<lparr>pipe_sem := SEM_NEW v\<rparr>)) k = k"
    using assms(2) by (simp add: get_pipe_objs put_obj_same)
  have signal: "pipe_signal (a + pipedev_size) k1 = Some (put_obj (a + pipedev_size) (Pipe (w\<lparr>pipe_sem := SEM_NEW 1\<rparr>)) k1)"
    if "get_pipe k1 (a + pipedev_size) = Some w" for k1 :: "'a devk_scheme"
    using pipe_signal_free [OF that assms(5)] by simp
  show ?thesis
  proof (cases "pipe_busy r = 0")
    case True
    then show ?thesis using assms signal by (simp add: same)
  next
    case False
    then show ?thesis using assms signal pipe_signal_free [OF assms(2,4)] by simp
  qed
qed

text \<open>A write that fits, with the condition's semaphore at \<open>v\<close> places and no queue. If the reader's
  \<open>busy\<close> is set, a place is added to it.\<close>

lemma pipe_write_rel:
  assumes R: "pipe_rel k a c r w" and I: "pipe_idle r w" and len: "length c + length bs \<le> 3072"
    and s: "pipe_sem r = SEM_NEW v"
  shows "\<exists>k' r' w'. pipe_write (a + pipedev_size) bs k = Some (Done (of_nat (length bs)) [] k') \<and>
     pipe_rel k' a (c @ bs) r' w' \<and> pipe_idle r' w' \<and> pipe_busy r' = pipe_busy r \<and>
     pipe_sem r' = SEM_NEW (if pipe_busy r \<noteq> 0 then v + 1 else v)"
proof -
  let ?w = "w\<lparr>pipe_sem := SEM_NEW 0\<rparr>"
  let ?k = "put_obj (a + pipedev_size) (Pipe ?w) k"
  have D: "get_pipe k (a + pipedev_size) = Some w" "get_pipe k a = Some r" "pipe_other w = a"
    using R by (simp_all add: pipe_rel_def)
  have "pipe_write (a + pipedev_size) bs k = pipe_write_loop (a + pipedev_size) (of_nat (length bs)) bs ?k"
    using D I by (simp add: pipe_write_def pipe_idle_def pipe_wait_free)
  also obtain k' r' w' where L: "pipe_write_loop (a + pipedev_size) (of_nat (length bs)) bs ?k =
      pipe_write_loop (a + pipedev_size) (of_nat (length bs)) [] k'" "pipe_rel k' a (c @ bs) r' w'"
     "pipe_dev r' = pipe_dev r" "pipe_busy r' = pipe_busy r" "pipe_sem r' = pipe_sem r"
     "pipe_dev w' = pipe_dev w" "pipe_busy w' = pipe_busy w" "pipe_sem w' = SEM_NEW 0"
    using pipe_write_space [OF pipe_rel_wait [OF R, of "SEM_NEW 0"] len, of "of_nat (length bs)"] by auto
  note L(1)
  finally have W: "pipe_write (a + pipedev_size) bs k = pipe_write_loop (a + pipedev_size) (of_nat (length bs)) [] k'" .
  have D': "get_pipe k' (a + pipedev_size) = Some w'" "get_pipe k' a = Some r'" "pipe_other w' = a"
    using L(2) by (simp_all add: pipe_rel_def)
  let ?r = "r'\<lparr>pipe_sem := SEM_NEW (if pipe_busy r \<noteq> 0 then v + 1 else v)\<rparr>"
  let ?k' = "put_obj (a + pipedev_size) (Pipe (w'\<lparr>pipe_sem := SEM_NEW 1\<rparr>)) (put_obj a (Pipe ?r) k')"
  have "pipe_write_loop (a + pipedev_size) (of_nat (length bs)) [] k' = Some (Done (of_nat (length bs)) [] ?k')"
    using pipe_write_end [OF D', of v] L s by simp
  moreover have "pipe_rel ?k' a (c @ bs) ?r (w'\<lparr>pipe_sem := SEM_NEW 1\<rparr>)"
    using L(2) by (simp add: pipe_rel_def)
  moreover have "pipe_idle ?r (w'\<lparr>pipe_sem := SEM_NEW 1\<rparr>)" using I L by (simp add: pipe_idle_def)
  ultimately show ?thesis unfolding W using L(4)
    by (intro exI [of _ ?k'] exI [of _ ?r] exI [of _ "w'\<lparr>pipe_sem := SEM_NEW 1\<rparr>"]) simp
qed

text \<open>A read of no more than there is.\<close>

lemma pipe_read_rel:
  assumes R: "pipe_rel k a c r w" and I: "pipe_idle r w" and n: "unat n \<le> length c"
  shows "\<exists>k' r' w'. pipe_read a n k = Some (Done n (take (unat n) c) k') \<and>
     pipe_rel k' a (drop (unat n) c) r' w' \<and> pipe_idle r' w' \<and> pipe_busy r' = pipe_busy r \<and>
     pipe_sem r' = pipe_sem r"
proof -
  let ?w = "w\<lparr>pipe_sem := SEM_NEW 0\<rparr>"
  let ?k = "put_obj (a + pipedev_size) (Pipe ?w) k"
  have D: "get_pipe k (a + pipedev_size) = Some w" "get_pipe k a = Some r" "pipe_other r = a + pipedev_size"
     "buffer_cant r = of_nat (length c)" "length c \<le> 3072"
    using R by (simp_all add: pipe_rel_def)
  have "pipe_read a n k = pipe_read_finish a n ?k"
    using D I n by (simp add: pipe_read_def pipe_idle_def pipe_wait_free pipe_read_locked_def nat_word_le)
  moreover obtain k' r' w' where "pipe_read_finish a n ?k = Some (Done n (take (unat n) c) k')"
     "pipe_rel k' a (drop (unat n) c) r' w'"
     "pipe_dev r' = pipe_dev r" "pipe_busy r' = pipe_busy r" "pipe_sem r' = pipe_sem r"
     "pipe_dev w' = pipe_dev ?w" "pipe_busy w' = 0" "pipe_sem w' = SEM_NEW (0 + 1)"
    using pipe_read_finish_rel [OF pipe_rel_wait [OF R] n, of "SEM_NEW 0" 0] I by (auto simp: pipe_idle_def)
  ultimately show ?thesis using I
    by (intro exI [of _ k'] exI [of _ r'] exI [of _ w']) (simp add: pipe_idle_def)
qed

section \<open>Runs\<close>

datatype pipe_event = Put str | Get u32

fun pipe_run :: "u32 \<Rightarrow> pipe_event list \<Rightarrow> 'a devk_scheme \<Rightarrow> (str \<times> 'a devk_scheme) option" where
  "pipe_run a [] k = Some ([], k)"
| "pipe_run a (Put bs # es) k =
     (case pipe_write (a + pipedev_size) bs k of Some (Done _ _ k) \<Rightarrow> pipe_run a es k | _ \<Rightarrow> None)"
| "pipe_run a (Get n # es) k =
     (case pipe_read a n k of
        Some (Done _ bs k) \<Rightarrow> do { (out, k) \<leftarrow> pipe_run a es k; Some (bs @ out, k) }
      | _ \<Rightarrow> None)"

fun pipe_fits :: "pipe_event list \<Rightarrow> nat \<Rightarrow> bool" where
  "pipe_fits [] m \<longleftrightarrow> True"
| "pipe_fits (Put bs # es) m \<longleftrightarrow> m + length bs \<le> 3072 \<and> pipe_fits es (m + length bs)"
| "pipe_fits (Get n # es) m \<longleftrightarrow> unat n \<le> m \<and> pipe_fits es (m - unat n)"

fun bytes_put :: "pipe_event list \<Rightarrow> str" where
  "bytes_put [] = []"
| "bytes_put (Put bs # es) = bs @ bytes_put es"
| "bytes_put (Get _ # es) = bytes_put es"

text \<open>A pipe in a kernel with two tasks, for examples.\<close>

definition with_pipe :: "kern \<Rightarrow> u32 \<Rightarrow> pipedev \<Rightarrow> pipedev \<Rightarrow> devk" where
  "with_pipe k a r w =
     \<lparr>sch = sch k, task_table = task_table k, cur_pid = cur_pid k, tasks_running = tasks_running k,
      tasks_blocked = tasks_blocked k, free_pids = free_pids k, next_free = next_free k,
      syscall_list = syscall_list k, reg_cr3 = reg_cr3 k, reg_esp = reg_esp k,
      ram = \<lambda>_. 0, kernel_pf_info = replicate 24 0, usr_pf_info = replicate 32 0, usr_pf_limit = 32,
      kernel_dir = 0, dir_free_sem = SEM_NEW 1, in_panic = False, outs = [], inp = [], eflags = 0,
      char_devices = replicate 32 (replicate 32 0),
      objs = [a \<mapsto> Pipe r, a + pipedev_size \<mapsto> Pipe w]\<rparr>"

definition read_end :: pipedev where
  "read_end = \<lparr>pipe_dev = \<lparr>clase = DEV_ID_CHAR_PIPE, refcount = 1, fn_flush = Some Pipe_flush,
       fn_read = Some Pipe_read, fn_write = None, fn_seek = None\<rparr>,
     pipe_type = 82, pipe_other = 0x100000 + pipedev_size, buffer_size = PIPE_BUFF_SIZE,
     pipe_cursor = 0, buffer_cant = 0, pipe_buffer = 0x100000 + SECTOR_SIZE, pipe_page = 0x100000,
     pipe_busy = 0, pipe_sem = SEM_NEW 0\<rparr>"

definition write_end :: pipedev where
  "write_end = \<lparr>pipe_dev = \<lparr>clase = DEV_ID_CHAR_PIPE, refcount = 1, fn_flush = Some Pipe_flush,
       fn_read = None, fn_write = Some Pipe_write, fn_seek = None\<rparr>,
     pipe_type = 87, pipe_other = 0x100000, buffer_size = PIPE_BUFF_SIZE,
     pipe_cursor = 0, buffer_cant = 0, pipe_buffer = 0x100000 + SECTOR_SIZE, pipe_page = 0x100000,
     pipe_busy = 0, pipe_sem = SEM_NEW 1\<rparr>"

abbreviation "pipe_kern \<equiv> with_pipe kern_two_tasks 0x100000 read_end write_end"

lemma pipe_kern_rel: "pipe_rel pipe_kern 0x100000 [] read_end write_end"
  by (simp add: pipe_rel_def with_pipe_def get_pipe_def devk.defs iok.defs faultk.defs mmk.defs kern.defs
      read_end_def write_end_def PIPE_BUFF_SIZE_def SECTOR_SIZE_def ring_holds_def pipedev_size_def)


text \<open>C18. A pipe is a queue of bytes: in a run of writes that fit and reads of no more than there is, on
  an open pipe that nobody waits for or has waited for, every operation completes, and what has been read, followed by what
  is left in the pipe, is what was there followed by what has been written, in order.\<close>

theorem pipe_is_fifo:
  assumes "pipe_rel k a c r w" "pipe_idle r w" "pipe_busy r = 0" "pipe_sem r = SEM_NEW 0" "pipe_fits es (length c)"
  shows "\<exists>out rest k' r' w'. pipe_run a es k = Some (out, k') \<and> c @ bytes_put es = out @ rest \<and>
     pipe_rel k' a rest r' w' \<and> pipe_idle r' w'"
  using assms
proof (induction es arbitrary: k c r w)
  case Nil
  then show ?case by auto
next
  case (Cons e es)
  show ?case
  proof (cases e)
    case (Put bs)
    with Cons.prems obtain k1 r1 w1 where "pipe_write (a + pipedev_size) bs k = Some (Done (of_nat (length bs)) [] k1)"
      "pipe_rel k1 a (c @ bs) r1 w1" "pipe_idle r1 w1" "pipe_busy r1 = 0" "pipe_sem r1 = SEM_NEW 0"
      using pipe_write_rel [OF Cons.prems(1,2), of bs 0] by auto
    with Cons.IH [of k1 "c @ bs" r1 w1] Cons.prems Put show ?thesis by auto
  next
    case (Get n)
    with Cons.prems obtain k1 r1 w1 where k1: "pipe_read a n k = Some (Done n (take (unat n) c) k1)"
      "pipe_rel k1 a (drop (unat n) c) r1 w1" "pipe_idle r1 w1" "pipe_busy r1 = 0" "pipe_sem r1 = SEM_NEW 0"
      using pipe_read_rel [OF Cons.prems(1,2), of n] by auto
    with Cons.IH [of k1 "drop (unat n) c" r1 w1] Cons.prems Get obtain out rest k' r' w' where
      "pipe_run a es k1 = Some (out, k')" "drop (unat n) c @ bytes_put es = out @ rest"
      "pipe_rel k' a rest r' w'" "pipe_idle r' w'" by auto
    moreover from this(2) have "c @ bytes_put es = (take (unat n) c @ out) @ rest"
      by (metis append.assoc append_take_drop_id)
    ultimately show ?thesis using Get k1(1) by auto
  qed
qed

theorem pipe_is_fifo_witness:
  "\<exists>out rest k' r' w'. pipe_run 0x100000 [Put [1, 2, 3], Get 2, Put [4], Get 1] pipe_kern = Some (out, k') \<and>
     [1, 2, 3, 4] = out @ rest \<and> pipe_rel k' 0x100000 rest r' w' \<and> pipe_idle r' w'"
  using pipe_is_fifo [OF pipe_kern_rel, of "[Put [1, 2, 3], Get 2, Put [4], Get 1]"]
  by (simp add: pipe_idle_def read_end_def write_end_def)

end
