(* ===== verification/Pipe_Wait.thy ===== *)
theory Pipe_Wait
  imports Pipe_Spec
begin

text \<open>
  Tasks that wait for a pipe: a reader that finds too little blocks on the condition and is woken up
  by the next write. The reader's \<open>busy\<close> flag, which nothing resets, then lets a writer into a full
  pipe without waiting.
\<close>

section \<open>The state of the scheduler\<close>

lemma same_rest_pipe:
  assumes "same_rest k k'" shows "get_pipe k' = get_pipe k" "ram k' = ram k"
  using assms more_objs [of k k'] by (auto simp: same_rest_def get_pipe_def)

text \<open>A reader without enough to read blocks on the condition and leaves the mutex free.\<close>

lemma pipe_read_blocks:
  assumes R: "pipe_rel k a c r w" and I: "pipe_idle r w" and n: "length c < unat n"
    and s: "pipe_sem r = SEM_NEW 0" and K: "kern_rel k A ([] # W)" "busy A"
  shows "\<exists>k' s. pipe_read a n k = Some (Waits (Read_cond a n) k') \<and>
     pipe_rel k' a c (r\<lparr>pipe_busy := 1, pipe_sem := s\<rparr>) w \<and> sem_rel s 0 [cur_pid k] \<and>
     kern_rel k' (a_leave STATE_BLOCKED A) ([cur_pid k] # W)"
proof -
  note D = R [unfolded pipe_rel_def]
  have idle: "pipe_sem w = SEM_NEW 1" "pipe_busy w = 0" "refcount (pipe_dev w) \<noteq> 0"
    using I by (simp_all add: pipe_idle_def)
  let ?w = "w\<lparr>pipe_sem := SEM_NEW 0\<rparr>"
  let ?r = "r\<lparr>pipe_busy := 1\<rparr>"
  let ?k1 = "put_obj (a + pipedev_size) (Pipe w) (put_obj a (Pipe ?r) (put_obj (a + pipedev_size) (Pipe ?w) k))"
  have w1: "w\<lparr>pipe_sem := SEM_NEW 1\<rparr> = w" using idle(1) by simp
  have "length c \<le> 3072" using D by simp
  then have c: "\<not> n \<le> of_nat (length c)" using n by (simp add: nat_word_le)
  obtain s' k2 where sw: "sem_wait (SEM_NEW 0) ?k1 = Some (s', k2)" "sem_rel s' 0 ([] @ [cur_pid ?k1])"
    "kern_rel k2 (a_leave STATE_BLOCKED A) (([] @ [cur_pid ?k1]) # W)" "same_rest ?k1 k2"
    using wait_blocks [OF sem_rel_new, of 0 ?k1 A W] K by auto
  let ?k3 = "put_obj a (Pipe (?r\<lparr>pipe_sem := s'\<rparr>)) k2"
  have "pipe_wait a ?k1 = Some (True, ?k3)"
    using s sw(1) by (simp add: pipe_wait_def SEM_NEW_def)
  then have "pipe_read a n k = Some (Waits (Read_cond a n) ?k3)"
    using D idle(2,3) c s pipe_wait_free [of k _ w] idle(1)
    by (simp add: pipe_read_def pipe_read_locked_def mod_pipe_def pipe_signal_free w1)
  moreover have "pipe_rel ?k3 a c (?r\<lparr>pipe_sem := s'\<rparr>) w"
    using D same_rest_pipe [OF sw(4)] by (simp add: pipe_rel_def ring_holds_def)
  ultimately show ?thesis using sw(2,3) by auto
qed


text \<open>A write that fits wakes it up.\<close>

lemma pipe_write_wakes:
  assumes R: "pipe_rel k a c r w" and I: "pipe_idle r w" and len: "length c + length bs \<le> 3072"
    and b: "pipe_busy r \<noteq> 0" and s: "sem_rel (pipe_sem r) 0 (p # ps)" and K: "kern_rel k A ((p # ps) # W)"
  shows "\<exists>k' r' w'. pipe_write (a + pipedev_size) bs k = Some (Done (of_nat (length bs)) [] k') \<and>
     pipe_rel k' a (c @ bs) r' w' \<and> pipe_idle r' w' \<and> pipe_busy r' = pipe_busy r \<and>
     sem_rel (pipe_sem r') 0 ps \<and> kern_rel k' (a_unblock p A) (ps # W)"
proof -
  let ?w = "w\<lparr>pipe_sem := SEM_NEW 0\<rparr>"
  let ?k = "put_obj (a + pipedev_size) (Pipe ?w) k"
  have D: "get_pipe k (a + pipedev_size) = Some w" "get_pipe k a = Some r" "pipe_other w = a"
    using R by (simp_all add: pipe_rel_def)
  have "pipe_write (a + pipedev_size) bs k = pipe_write_loop (a + pipedev_size) (of_nat (length bs)) bs ?k"
    using D I by (simp add: pipe_write_def pipe_idle_def pipe_wait_free)
  also obtain k' r' w' where L: "pipe_write_loop (a + pipedev_size) (of_nat (length bs)) bs ?k =
      pipe_write_loop (a + pipedev_size) (of_nat (length bs)) [] k'" "pipe_rel k' a (c @ bs) r' w'"
     "pipe_dev r' = pipe_dev r" "pipe_busy r' = pipe_busy r" "pipe_sem r' = pipe_sem r"
     "pipe_dev w' = pipe_dev w" "pipe_busy w' = pipe_busy w" "pipe_sem w' = SEM_NEW 0"
     "kern.truncate k' = kern.truncate ?k"
    using pipe_write_space [OF pipe_rel_wait [OF R, of "SEM_NEW 0"] len, of "of_nat (length bs)"] by auto
  note L(1)
  finally have W: "pipe_write (a + pipedev_size) bs k = pipe_write_loop (a + pipedev_size) (of_nat (length bs)) [] k'" .
  have K': "kern_rel k' A ((p # ps) # W)" using K kern_rel_truncate [OF L(9)] by simp
  note D' = L(2) [unfolded pipe_rel_def]
  obtain s' k2 where sw: "sem_signal (pipe_sem r) k' = Some (s', k2)" "sem_rel s' 0 ps"
    "kern_rel k2 (a_unblock p A) (ps # W)" "same_rest k' k2"
    using signal_wakes [OF s K'] by blast
  note same = same_rest_pipe [OF sw(4)]
  let ?r = "r'\<lparr>pipe_sem := s'\<rparr>" and ?w' = "w'\<lparr>pipe_sem := SEM_NEW 1\<rparr>"
  let ?k3 = "put_obj (a + pipedev_size) (Pipe ?w') (put_obj a (Pipe ?r) k2)"
  have "pipe_signal a k' = Some (put_obj a (Pipe ?r) k2)"
    using D' L(5) sw(1) by (simp add: pipe_signal_def)
  moreover have "pipe_signal (a + pipedev_size) (put_obj a (Pipe ?r) k2) = Some ?k3"
    using pipe_signal_free [of "put_obj a (Pipe ?r) k2" "a + pipedev_size" w' 0] D' L(8) same by simp
  ultimately have "pipe_write_loop (a + pipedev_size) (of_nat (length bs)) [] k' = Some (Done (of_nat (length bs)) [] ?k3)"
    using D' b L(4) by simp
  moreover have "pipe_rel ?k3 a (c @ bs) ?r ?w'"
    using D' same by (simp add: pipe_rel_def ring_holds_def)
  moreover have "pipe_idle ?r ?w'" using I L by (simp add: pipe_idle_def)
  ultimately show ?thesis unfolding W using L(4) sw(2,3)
    by (intro exI [of _ ?k3] exI [of _ ?r] exI [of _ ?w']) simp
qed

text \<open>The reader goes on with as much as there is.\<close>

lemma pipe_read_resumes:
  assumes R: "pipe_rel k a c r w" and I: "pipe_idle r w"
  shows "\<exists>k' r' w' m. pipe_resume (Read_cond a n) k = Some (Done m (take (unat n) c) k') \<and>
     unat m = min (unat n) (length c) \<and> pipe_rel k' a (drop (unat n) c) r' w' \<and> pipe_idle r' w' \<and> 
     pipe_busy r' = pipe_busy r"
proof -
  let ?w = "w\<lparr>pipe_sem := SEM_NEW 0\<rparr>"
  let ?k = "put_obj (a + pipedev_size) (Pipe ?w) k"
  let ?m = "if of_nat (length c) < n then of_nat (length c) else n :: u32"
  have D: "get_pipe k (a + pipedev_size) = Some w" "get_pipe k a = Some r" "pipe_other r = a + pipedev_size"
     "buffer_cant r = of_nat (length c)" "length c \<le> 3072"
    using R by (simp_all add: pipe_rel_def)
  have m: "unat ?m = min (unat n) (length c)" using nat_word_le [OF D(5), of n] D(5)
    by (auto simp: not_le not_less unat_of_nat)
  have "pipe_resume (Read_cond a n) k = pipe_read_finish a ?m ?k"
    using D I by (simp add: pipe_idle_def pipe_wait_free pipe_read_woken_def pipe_read_rest_def)
  moreover obtain k' r' w' where "pipe_read_finish a ?m ?k = Some (Done ?m (take (unat ?m) c) k')"
     "pipe_rel k' a (drop (unat ?m) c) r' w'"
     "pipe_dev r' = pipe_dev r" "pipe_busy r' = pipe_busy r" "pipe_sem r' = pipe_sem r"
     "pipe_dev w' = pipe_dev ?w" "pipe_busy w' = 0" "pipe_sem w' = SEM_NEW (0 + 1)"
    using pipe_read_finish_rel [OF pipe_rel_wait [OF R], of ?m "SEM_NEW 0" 0] I m by (auto simp: pipe_idle_def)
  moreover have "take (unat ?m) c = take (unat n) c" "drop (unat ?m) c = drop (unat n) c"
    unfolding m by (simp_all add: min_def)
  ultimately show ?thesis using I m
    by (intro exI [of _ k'] exI [of _ r'] exI [of _ w'] exI [of _ ?m]) (simp add: pipe_idle_def)
qed

text \<open>C19. A task that reads more than the pipe holds blocks and leaves the pipe free; a write that fits
  puts the task back in the run queue, and when it runs again its read returns the bytes in order, as
  many as there are and no more than it asked for. Its \<open>busy\<close> flag is left set.\<close>

theorem pipe_reader_woken:
  assumes "pipe_rel k a c r w" "pipe_idle r w" "pipe_sem r = SEM_NEW 0"
    and "kern_rel k A ([] # W)" "busy A"
    and "length c < unat n" "length c + length bs \<le> 3072"
  shows "\<exists>k1 k2 k3 m r' w'.
     pipe_read a n k = Some (Waits (Read_cond a n) k1) \<and>
     kern_rel k1 (a_leave STATE_BLOCKED A) ([cur_pid k] # W) \<and>
     pipe_write (a + pipedev_size) bs k1 = Some (Done (of_nat (length bs)) [] k2) \<and>
     kern_rel k2 (a_unblock (cur_pid k) (a_leave STATE_BLOCKED A)) ([] # W) \<and>
     pipe_resume (Read_cond a n) k2 = Some (Done m (take (unat n) (c @ bs)) k3) \<and>
     unat m = min (unat n) (length (c @ bs)) \<and>
     pipe_rel k3 a (drop (unat n) (c @ bs)) r' w' \<and> pipe_idle r' w' \<and> pipe_busy r' \<noteq> 0"
proof -
  obtain k1 s where k1: "pipe_read a n k = Some (Waits (Read_cond a n) k1)"
     "pipe_rel k1 a c (r\<lparr>pipe_busy := 1, pipe_sem := s\<rparr>) w" "sem_rel s 0 [cur_pid k]"
     "kern_rel k1 (a_leave STATE_BLOCKED A) ([cur_pid k] # W)"
    using pipe_read_blocks assms by blast
  have I1: "pipe_idle (r\<lparr>pipe_busy := 1, pipe_sem := s\<rparr>) w" using assms(2) by (simp add: pipe_idle_def)
  obtain k2 r2 w2 where k2: "pipe_write (a + pipedev_size) bs k1 = Some (Done (of_nat (length bs)) [] k2)"
     "pipe_rel k2 a (c @ bs) r2 w2" "pipe_idle r2 w2" "pipe_busy r2 = 1"
     "kern_rel k2 (a_unblock (cur_pid k) (a_leave STATE_BLOCKED A)) ([] # W)"
    using pipe_write_wakes [OF k1(2) I1 assms(7) _ _ k1(4)] k1(3) by auto
  from pipe_read_resumes [OF k2(2,3), of n] k1 k2 show ?thesis by fastforce
qed

lemma with_pipe_kern: "kern_rel (with_pipe k a r w) A W = kern_rel k A W" "cur_pid (with_pipe k a r w) = cur_pid k"
  by (simp_all add: with_pipe_def kern_rel_def kern_mid_def)

theorem pipe_reader_woken_witness:
  "\<exists>k1 k2 k3 m r' w'.
     pipe_read 0x100000 4 pipe_kern = Some (Waits (Read_cond 0x100000 4) k1) \<and>
     pipe_write (0x100000 + pipedev_size) [1, 2, 3] k1 = Some (Done 3 [] k2) \<and>
     pipe_resume (Read_cond 0x100000 4) k2 = Some (Done m [1, 2, 3] k3) \<and>
     unat m = 3 \<and> pipe_rel k3 0x100000 [] r' w' \<and> pipe_busy r' \<noteq> 0"
proof -
  have K: "kern_rel pipe_kern two_tasks ([] # [[]])" using kern_two_tasks_rel by (simp add: with_pipe_kern)
  have I: "pipe_idle read_end write_end" "pipe_sem read_end = SEM_NEW 0" "busy two_tasks"
    by (simp_all add: pipe_idle_def read_end_def write_end_def two_tasks_eq)
  have "length ([] :: str) < unat (4 :: u32)" "length ([] :: str) + length [1, 2, 3 :: u8] \<le> 3072" by simp_all
  from pipe_reader_woken [OF pipe_kern_rel I(1,2) K I(3) this] obtain k1 k2 k3 m r' w' where
    "pipe_read 0x100000 4 pipe_kern = Some (Waits (Read_cond 0x100000 4) k1)"
    "pipe_write (0x100000 + pipedev_size) [1, 2, 3] k1 = Some (Done (of_nat (length [1, 2, 3 :: u8])) [] k2)"
    "pipe_resume (Read_cond 0x100000 4) k2 = Some (Done m (take (unat (4 :: u32)) ([] @ [1, 2, 3])) k3)"
    "unat m = min (unat (4 :: u32)) (length ([] @ [1, 2, 3 :: u8]))"
    "pipe_rel k3 0x100000 (drop (unat (4 :: u32)) ([] @ [1, 2, 3])) r' w'" "pipe_busy r' \<noteq> 0"
    by (elim exE conjE)
  then show ?thesis
    by (intro exI [of _ k1] exI [of _ k2] exI [of _ k3] exI [of _ m] exI [of _ r'] exI [of _ w']) simp
qed

text \<open>C23. The flag left by a reader that once waited makes a write into a full pipe overwrite the
  oldest unread byte instead of waiting: it returns at once, and both ends count one byte more than
  the buffer has.\<close>

theorem pipe_write_overwrites:
  assumes R: "pipe_rel k a c r w" and I: "pipe_idle r w" and full: "length c = 3072"
    and s: "pipe_busy r \<noteq> 0" "pipe_sem r = SEM_NEW 0"
  shows "\<exists>k' r' w'. pipe_write (a + pipedev_size) [b] k = Some (Done 1 [] k') \<and>
     get_pipe k' a = Some r' \<and> get_pipe k' (a + pipedev_size) = Some w' \<and>
     buffer_cant r' = 3073 \<and> buffer_cant w' = 3073 \<and>
     pipe_cursor r' = pipe_cursor r \<and> ram k' (pipe_buffer r' + pipe_cursor r') = b"
proof -
  note D = R [unfolded pipe_rel_def]
  have idle: "pipe_sem w = SEM_NEW 1" "pipe_busy w = 0" "refcount (pipe_dev r) \<noteq> 0"
    using I by (simp_all add: pipe_idle_def)
  have "unat (pipe_cursor w) = unat (pipe_cursor r)" using D full by simp
  then have cur: "pipe_cursor w = pipe_cursor r" by (simp add: word_unat_eq_iff)
  let ?k1 = "put_obj (a + pipedev_size) (Pipe (w\<lparr>pipe_sem := SEM_NEW 0\<rparr>)) k"
  have "pipe_write (a + pipedev_size) [b] k = pipe_write_loop (a + pipedev_size) 1 [b] ?k1"
    using D I idle by (simp add: pipe_write_def pipe_wait_free [of k _ w])
  then show ?thesis
    using D idle s cur full
    by (simp add: mod_pipe_def pipe_signal_def sem_signal_def pipe_wait_def sem_wait_def SEM_NEW_def pipe_put_def)
qed

theorem pipe_write_overwrites_witness:
  "\<exists>(k :: devk) a c r w k' r'. pipe_rel k a c r w \<and> length c = 3072 \<and> hd c = 0 \<and>
     pipe_write (a + pipedev_size) [7] k = Some (Done 1 [] k') \<and> get_pipe k' a = Some r' \<and>
     buffer_cant r' = 3073 \<and> ram k' (pipe_buffer r' + pipe_cursor r') = 7"
proof -
  define n :: nat where "n = 3072"
  let ?r = "read_end\<lparr>buffer_cant := 3072, pipe_busy := 1\<rparr>" and ?w = "write_end\<lparr>buffer_cant := 3072\<rparr>"
  let ?k = "with_pipe kern_two_tasks 0x100000 ?r ?w"
  have R: "pipe_rel ?k 0x100000 (replicate n 0) ?r ?w"
    by (simp add: pipe_rel_def with_pipe_def get_pipe_def read_end_def write_end_def PIPE_BUFF_SIZE_def
        SECTOR_SIZE_def ring_holds_def pipedev_size_def)
      (simp add: n_def)
  moreover have l: "length (replicate n (0 :: u8)) = 3072" "hd (replicate n (0 :: u8)) = 0" by (simp_all add: n_def)
  moreover have "pipe_idle ?r ?w" "pipe_busy ?r \<noteq> 0" "pipe_sem ?r = SEM_NEW 0"
    by (simp_all add: pipe_idle_def read_end_def write_end_def)
  ultimately show ?thesis using pipe_write_overwrites [OF R _ l(1), of 7] by blast
qed

end
