(* ===== verification/Console_Spec.thy ===== *)
theory Console_Spec
  imports Console Pipe_Wait
begin

text \<open>
  The keyboard buffer of a console as a queue. \<open>con_holds c w\<close>: the circular buffer of \<open>c\<close> holds the
  characters \<open>w\<close>. A run of key presses and reads behaves as a queue of at most 30 characters, and a
  reader that waits is woken by the key press that completes its read.
\<close>

section \<open>The buffer as a queue\<close>

definition con_holds :: "chardev_console \<Rightarrow> str \<Rightarrow> bool" where
  "con_holds c w \<longleftrightarrow> length (con_buff c) = 30 \<and> length w \<le> 30 \<and> unat (buff_index_start c) < 30 \<and>
     unat (buff_index_end c) = (unat (buff_index_start c) + length w) mod 30 \<and>
     unat (buff_cant c) = length w \<and>
     (\<forall>i < length w. con_buff c ! ((unat (buff_index_start c) + i) mod 30) = w ! i)"

lemma get_con_put [simp]: "get_con (put_obj a (Con c) k) b = (if a = b then Some c else get_con k b)"
  by (simp add: get_con_def put_obj_def)

lemma get_con_objs: "get_con k a = Some c \<longleftrightarrow> objs k a = Some (Con c)"
  by (auto simp: get_con_def split: option.splits obj.splits)

lemma mod_con_get: "get_con k a = Some c \<Longrightarrow> mod_con a f k = Some (put_obj a (Con (f c)) k)"
  by (simp add: mod_con_def)

lemma put_obj_con [simp]:
  "current_console (put_obj a d k) = current_console k"
  "altPressed (put_obj a d k) = altPressed k" "shiftPressed (put_obj a d k) = shiftPressed k"
  by (simp_all add: put_obj_def)

lemma unat_up [simp]: "unat (ucast (x :: u8) :: u32) = unat x"
  using unsigned_less [of x, where 'a = nat] by (simp add: unsigned_ucast_eq take_bit_nat_eq_self)

lemma next_index: "unat (x :: u8) < 30 \<Longrightarrow> unat (ucast ((ucast (x + 1) :: u32) mod 30) :: u8) = (unat x + 1) mod 30"
  by (simp add: unsigned_ucast_eq unat_mod unat_word_ariths take_bit_eq_mod)

lemma next_index': "unat (x :: u8) < 30 \<Longrightarrow> unat (ucast ((ucast x + 1 :: u32) mod 30) :: u8) = (unat x + 1) mod 30"
  by (simp add: unsigned_ucast_eq unat_mod unat_word_ariths take_bit_eq_mod)

definition stored :: "u8 \<Rightarrow> chardev_console \<Rightarrow> chardev_console" where
  "stored b c = c\<lparr>con_buff := (con_buff c)[unat (buff_index_end c) := b],
     buff_index_end := ucast ((ucast (buff_index_end c + 1) :: u32) mod 30), buff_cant := buff_cant c + 1\<rparr>"

lemma stored_holds:
  assumes "con_holds c w" "length w < 30"
  shows "con_holds (stored b c) (w @ [b])"
proof -
  let ?s = "unat (buff_index_start c)"
  note H = assms(1) [unfolded con_holds_def]
  have e: "unat (buff_index_end c) = (?s + length w) mod 30" using H by simp
  have "unat (buff_index_end (stored b c)) = (?s + length (w @ [b])) mod 30"
    using next_index [of "buff_index_end c"] e by (simp add: stored_def mod_simps)
  moreover have "unat (buff_cant c + 1) = length w + 1"
    using H assms(2) by (simp add: unat_word_ariths)
  moreover have "con_buff (stored b c) ! ((?s + i) mod 30) = (w @ [b]) ! i" if "i < length (w @ [b])" for i
    using that H assms(2) e mod_apart [of i "length w" 30 ?s]
    by (auto simp: stored_def nth_append less_Suc_eq nth_list_update)
  ultimately show ?thesis using H assms(2) by (simp add: con_holds_def stored_def)
qed

lemma con_full: "con_holds c w \<Longrightarrow> (ucast (buff_cant c) :: u32) < 30 \<longleftrightarrow> length w < 30"
  by (simp add: con_holds_def word_less_nat_alt)

lemma con_store_full:
  "get_con k (current_console k) = Some c \<Longrightarrow> con_holds c w \<Longrightarrow> length w = 30 \<Longrightarrow> con_store b k = Some k"
  using con_full [of c w] by (simp add: con_store_def Let_def CON_BUFF_SIZE_def)

lemma con_store_quiet:
  assumes g: "get_con k (current_console k) = Some c" and h: "con_holds c w" "length w < 30"
    and no: "\<not> (buff_cant c + 1 \<ge> read_expected c \<and> con_busy c \<noteq> 0)"
  shows "con_store b k = Some (put_obj (current_console k) (Con (stored b c)) k)"
proof -
  have "unat (buff_index_end c) < length (con_buff c)" using h by (simp add: con_holds_def)
  then have "aput (con_buff c) (ucast (buff_index_end c)) b = Some ((con_buff c)[unat (buff_index_end c) := b])"
    by (simp add: aput_def)
  then show ?thesis using g con_full [OF h(1)] h(2) no
    by (auto simp: con_store_def Let_def CON_BUFF_SIZE_def mod_con_def stored_def)
qed

text \<open>Taking bytes out.\<close>

definition taken :: "nat \<Rightarrow> chardev_console \<Rightarrow> chardev_console" where
  "taken n c = c\<lparr>buff_index_start := of_nat ((unat (buff_index_start c) + n) mod 30)\<rparr>"

lemma con_take_eq:
  assumes "get_con k a = Some c" "length (con_buff c) = 30" "unat (buff_index_start c) < 30"
    and "\<forall>i < length w. con_buff c ! ((unat (buff_index_start c) + i) mod 30) = w ! i" "n \<le> length w"
  shows "con_take a n k = Some (take n w, put_obj a (Con (taken n c)) k)"
  using assms
proof (induction n arbitrary: k c w)
  case 0
  then have "taken 0 c = c" by (simp add: taken_def)
  with 0 show ?case by (simp add: get_con_objs put_obj_same)
next
  case (Suc n)
  let ?s = "unat (buff_index_start c)"
  obtain b qs where w: "w = b # qs" using Suc.prems by (cases w) auto
  let ?c = "c\<lparr>buff_index_start := ucast ((ucast (buff_index_start c) + 1 :: u32) mod 30)\<rparr>"
  let ?k = "put_obj a (Con ?c) k"
  have s: "unat (buff_index_start ?c) = (?s + 1) mod 30" using next_index' [of "buff_index_start c"] Suc.prems(3) by simp
  have b: "con_buff c ! ?s = b" using Suc.prems(3,4) w by (auto dest!: spec [of _ 0])
  have "con_buff ?c ! ((unat (buff_index_start ?c) + i) mod 30) = qs ! i" if "i < length qs" for i
    using Suc.prems(4) [rule_format, of "Suc i"] that w s by (simp add: mod_simps)
  moreover have "unat (buff_index_start ?c) < 30" unfolding s by simp
  ultimately have "con_take a n ?k = Some (take n qs, put_obj a (Con (taken n ?c)) ?k)"
    using Suc.IH [of ?k ?c qs] Suc.prems(2,5) w by simp
  moreover have "taken n ?c = taken (Suc n) c" using s by (simp add: taken_def mod_simps)
  moreover have "aget (con_buff c) (ucast (buff_index_start c)) = Some b"
    using Suc.prems(2,3) b by (simp add: aget_def)
  ultimately show ?case using Suc.prems(1) w by (simp add: mod_con_def CON_BUFF_SIZE_def)
qed

lemma con_read_rest_eq:
  assumes g: "get_con k a = Some c" and h: "con_holds c w" and n: "unat n \<le> length w"
  shows "\<exists>c'. con_read_rest a n k = Some (Read_done 0 (take (unat n) w) (put_obj a (Con c') k)) \<and>
    con_holds c' (drop (unat n) w) \<and> con_busy c' = con_busy c \<and> con_sem c' = con_sem c"
proof -
  note H = h [unfolded con_holds_def]
  let ?s = "unat (buff_index_start c)"
  let ?c = "(taken (unat n) c)\<lparr>buff_cant := buff_cant c - ucast n, read_expected := 0\<rparr>"
  have "con_read_rest a n k = Some (Read_done 0 (take (unat n) w) (put_obj a (Con ?c) k))"
    using con_take_eq [OF g, of w "unat n"] H n by (simp add: con_read_rest_def mod_con_def taken_def)
  moreover have "unat (buff_cant c - ucast n :: u8) = length w - unat n"
  proof -
    have "unat (ucast n :: u8) = unat n" using H n by (simp add: unsigned_ucast_eq take_bit_eq_mod)
    then show ?thesis using H n by (simp add: unat_sub_if_size)
  qed
  moreover have "(?s + length w) mod 30 = ((?s + unat n) mod 30 + (length w - unat n)) mod 30"
  proof -
    obtain m where "length w = unat n + m" using n by (metis le_add_diff_inverse)
    then show ?thesis by (simp add: mod_simps add.assoc)
  qed
  moreover have "(unat (of_nat ((?s + unat n) mod 30) :: u8)) = (?s + unat n) mod 30" by (simp add: unat_of_nat)
  moreover have "length w - unat n \<le> 30" using H by linarith
  ultimately have "con_holds ?c (drop (unat n) w)"
    using H n by (auto simp: con_holds_def taken_def mod_simps add.assoc)
  with \<open>con_read_rest a n k = _\<close> show ?thesis by (intro exI [of _ ?c]) (simp add: taken_def)
qed
section \<open>Typing\<close>

text \<open>The character of a key, 0 for none.\<close>

definition key_char :: "u16 \<Rightarrow> u8" where
  "key_char t = (case map_of scan_table t of Some c \<Rightarrow> c
     | None \<Rightarrow> if (t \<ge> 0x3b \<and> t \<le> 0x44) \<or> (t \<ge> 0x57 \<and> t \<le> 0x58) then 95 else 0)"

text \<open>Without Alt a key cannot switch consoles.\<close>

definition plain :: "u16 \<Rightarrow> bool" where
  "plain t \<longleftrightarrow> t \<noteq> 0x38"

lemma getc_plain:
  assumes "plain t" "altPressed k \<noteq> 1"
  shows "\<exists>k'. getc t k = (key_char t, k') \<and> altPressed k' \<noteq> 1 \<and> current_console k' = current_console k \<and>
     conk.truncate k' = (conk.truncate k)\<lparr>altPressed := altPressed k', shiftPressed := shiftPressed k'\<rparr>"
proof -
  have F: "\<not> (0x3b \<le> t \<and> t \<le> 0x44)" "\<not> (0x57 \<le> t \<and> t \<le> 0x58)" if "t = 0x2a \<or> t = 0xb8 \<or> t = 0xaa"
    using that by auto
  show ?thesis using assms F
    by (auto simp: getc_def key_char_def plain_def conk.truncate_def split: option.splits)
qed

lemma truncate_objs:
  "conk.truncate k' = (conk.truncate k)\<lparr>altPressed := x, shiftPressed := y\<rparr> \<Longrightarrow>
   objs k' = objs k \<and> kern.truncate k' = kern.truncate k"
  by (cases k; cases k') (simp add: conk.truncate_def kern.truncate_def)

lemma key_idle:
  assumes "plain t" "altPressed k \<noteq> 1"
  shows "\<exists>k1. console_keyPressed t k = (if key_char t \<noteq> 0 then con_store (key_char t) k1 else Some k1) \<and>
     altPressed k1 \<noteq> 1 \<and> current_console k1 = current_console k \<and> objs k1 = objs k \<and>
     kern.truncate k1 = kern.truncate k"
proof -
  obtain k1 where g: "getc t k = (key_char t, k1)" "altPressed k1 \<noteq> 1" "current_console k1 = current_console k"
    "conk.truncate k1 = (conk.truncate k)\<lparr>altPressed := altPressed k1, shiftPressed := shiftPressed k1\<rparr>"
    using getc_plain [OF assms] by blast
  have "console_keyPressed t k = (if key_char t \<noteq> 0 then con_store (key_char t) k1 else Some k1)"
    using g(1) assms(2) by (simp add: console_keyPressed_def)
  then show ?thesis using g(2,3) truncate_objs [OF g(4)] by blast
qed

section \<open>Runs\<close>

datatype con_event = Key u16 | Get_chars u32

fun con_run :: "con_event list \<Rightarrow> 'a conk_scheme \<Rightarrow> (str \<times> 'a conk_scheme) option" where
  "con_run [] k = Some ([], k)"
| "con_run (Key t # es) k = do { k \<leftarrow> console_keyPressed t k; con_run es k }"
| "con_run (Get_chars n # es) k =
     (case con_read (current_console k) n k of
        Some (Read_done st bs k) \<Rightarrow> do { (out, k) \<leftarrow> con_run es k; Some (bs @ out, k) }
      | _ \<Rightarrow> None)"

text \<open>A queue of at most 30 characters; what is typed when it is full is lost.\<close>

fun con_abs :: "con_event list \<Rightarrow> str \<Rightarrow> (str \<times> str) option" where
  "con_abs [] w = Some ([], w)"
| "con_abs (Key t # es) w = (if plain t then
     con_abs es (if key_char t \<noteq> 0 \<and> length w < 30 then w @ [key_char t] else w) else None)"
| "con_abs (Get_chars n # es) w = (if unat n \<le> length w then do {
     (out, v) \<leftarrow> con_abs es (drop (unat n) w); Some (take (unat n) w @ out, v) } else None)"

lemma con_read_enough:
  assumes g: "get_con k a = Some c" and h: "con_holds c w" and n: "unat n \<le> length w"
  shows "con_read a n k = con_read_rest a n k"
proof -
  have "length w \<le> 30" "unat (buff_cant c) = length w" using h by (simp_all add: con_holds_def)
  then have "\<not> n > 30" "\<not> ucast (buff_cant c) < n" using n by (simp_all add: word_less_nat_alt)
  then show ?thesis using g by (simp add: con_read_def CON_BUFF_SIZE_def)
qed

section \<open>A console in a kernel with two tasks, for examples\<close>

definition with_con :: "kern \<Rightarrow> u32 \<Rightarrow> chardev_console \<Rightarrow> conk" where
  "with_con k a c =
     \<lparr>sch = sch k, task_table = task_table k, cur_pid = cur_pid k, tasks_running = tasks_running k,
      tasks_blocked = tasks_blocked k, free_pids = free_pids k, next_free = next_free k,
      syscall_list = syscall_list k, reg_cr3 = reg_cr3 k, reg_esp = reg_esp k,
      ram = \<lambda>_. 0, kernel_pf_info = replicate 24 0, usr_pf_info = replicate 32 0, usr_pf_limit = 32,
      kernel_dir = 0, dir_free_sem = SEM_NEW 1, in_panic = False, outs = [], inp = [], eflags = 0,
      char_devices = replicate 32 (replicate 32 0), objs = [a \<mapsto> Con c],
      current_console = a, empty_console = 0, altPressed = 0, shiftPressed = 0\<rparr>"

abbreviation "con_kern \<equiv> with_con kern_two_tasks 0x100000 new_console"

lemma with_con_fields [simp]:
  "objs (with_con k a c) = [a \<mapsto> Con c]" "current_console (with_con k a c) = a"
  "altPressed (with_con k a c) = 0" "cur_pid (with_con k a c) = cur_pid k"
  by (simp_all add: with_con_def conk.defs devk.defs iok.defs faultk.defs mmk.defs kern.defs)

lemma with_con_kern [simp]: "kern_rel (with_con k a c) = kern_rel k"
  by (intro ext) (simp add: with_con_def kern_rel_def kern_mid_def)

lemma get_con_with [simp]: "get_con (with_con k a c) a = Some c"
  by (simp add: get_con_def)

lemma new_console_holds: "con_holds new_console []"
  by (simp add: con_holds_def new_console_def)

text \<open>C20. The keyboard buffer is a bounded queue: in a run of key presses and reads of no more than
  there is, on a console nobody waits for, the characters read are those typed, in order, except the
  ones typed while 30 were waiting, which are lost.\<close>

theorem keyboard_is_bounded_queue:
  assumes "get_con k (current_console k) = Some c" "con_holds c w" "con_busy c = 0" "altPressed k \<noteq> 1"
    and "con_abs es w = Some (out, v)"
  shows "\<exists>k' c'. con_run es k = Some (out, k') \<and> current_console k' = current_console k \<and>
     get_con k' (current_console k) = Some c' \<and> con_holds c' v"
  using assms
proof (induction es arbitrary: k c w out)
  case Nil
  then show ?case by auto
next
  case (Cons e es)
  show ?case
  proof (cases e)
    case (Key t)
    with Cons.prems have pl: "plain t" by (simp split: if_splits)
    obtain k1 where k1: "console_keyPressed t k = (if key_char t \<noteq> 0 then con_store (key_char t) k1 else Some k1)"
      "altPressed k1 \<noteq> 1" "current_console k1 = current_console k" "objs k1 = objs k"
      using key_idle [OF pl Cons.prems(4)] by blast
    have g1: "get_con k1 (current_console k1) = Some c" using Cons.prems(1) k1(3,4) by (simp add: get_con_def)
    show ?thesis
    proof (cases "key_char t \<noteq> 0 \<and> length w < 30")
      case True
      let ?c = "stored (key_char t) c" and ?k = "put_obj (current_console k1) (Con (stored (key_char t) c)) k1"
      have "con_store (key_char t) k1 = Some ?k"
        using con_store_quiet [OF g1 Cons.prems(2)] True Cons.prems(3) by simp
      moreover have "con_busy ?c = 0" using Cons.prems(3) by (simp add: stored_def)
      ultimately show ?thesis
        using Cons.IH [of ?k ?c "w @ [key_char t]" out] k1 True Key pl Cons.prems stored_holds [OF Cons.prems(2)]
        by simp
    next
      case False
      have "length w \<le> 30" using Cons.prems(2) by (simp add: con_holds_def)
      then have "console_keyPressed t k = Some k1"
        using False k1(1) con_store_full [OF g1 Cons.prems(2)] by auto
      then show ?thesis using Cons.IH [of k1 c w out] g1 k1(2,3) False Key pl Cons.prems by auto
    qed
  next
    case (Get_chars n)
    with Cons.prems obtain out1 where n: "unat n \<le> length w" and o1: "con_abs es (drop (unat n) w) = Some (out1, v)"
      "out = take (unat n) w @ out1" by (auto split: if_splits bind_splits)
    obtain c' where c': "con_read (current_console k) n k =
        Some (Read_done 0 (take (unat n) w) (put_obj (current_console k) (Con c') k))"
      "con_holds c' (drop (unat n) w)" "con_busy c' = con_busy c"
      using con_read_rest_eq [OF Cons.prems(1,2) n] con_read_enough [OF Cons.prems(1,2) n] by auto
    then show ?thesis
      using Cons.IH [of "put_obj (current_console k) (Con c') k" c' "drop (unat n) w" out1] o1 Get_chars Cons.prems
      by auto
  qed
qed

theorem keyboard_is_bounded_queue_witness:
  "\<exists>k' c'. con_run [Key 0x1e, Key 0x30, Get_chars 1, Key 0x2e] con_kern = Some ([97], k') \<and>
     get_con k' 0x100000 = Some c' \<and> con_holds c' [98, 99]"
proof -
  have "con_abs [Key 0x1e, Key 0x30, Get_chars 1, Key 0x2e] [] = Some ([97], [98, 99])"
    by (simp add: plain_def key_char_def scan_table_def)
  moreover have "con_busy new_console = 0" by (simp add: new_console_def)
  ultimately show ?thesis
    using keyboard_is_bounded_queue [of con_kern new_console "[]" "[Key 0x1e, Key 0x30, Get_chars 1, Key 0x2e]" "[97]" "[98, 99]"]
      new_console_holds by auto
qed

section \<open>A task that waits for the keyboard\<close>

lemma more_con:
  "same_rest k k' \<Longrightarrow> objs k' = objs k \<and> current_console k' = current_console k \<and> altPressed k' = altPressed k"
  by (cases k; cases k') (simp add: same_rest_def)

lemma con_read_blocks:
  assumes g: "get_con k a = Some c" and h: "con_holds c w" and n: "length w < unat n" "n \<le> 30"
    and s: "con_sem c = SEM_NEW 0" and K: "kern_rel k A ([] # W)" "busy A"
  shows "\<exists>k' s. con_read a n k = Some (Read_waits k') \<and>
     get_con k' a = Some (c\<lparr>con_busy := 1, read_expected := ucast n, con_sem := s\<rparr>) \<and>
     sem_rel s 0 [cur_pid k] \<and> kern_rel k' (a_leave STATE_BLOCKED A) ([cur_pid k] # W) \<and>
     current_console k' = current_console k \<and> altPressed k' = altPressed k"
proof -
  let ?c = "c\<lparr>con_busy := 1, read_expected := ucast n\<rparr>"
  let ?k = "put_obj a (Con ?c) k"
  have "unat (buff_cant c) = length w" using h by (simp add: con_holds_def)
  then have c: "(ucast (buff_cant c) :: u32) < n" using n by (simp add: word_less_nat_alt)
  obtain s' k2 where sw: "sem_wait (SEM_NEW 0) ?k = Some (s', k2)" "sem_rel s' 0 ([] @ [cur_pid ?k])"
    "kern_rel k2 (a_leave STATE_BLOCKED A) (([] @ [cur_pid ?k]) # W)" "same_rest ?k k2"
    using wait_blocks [OF sem_rel_new, of 0 ?k A W] K by auto
  note M = more_con [OF sw(4)]
  have g2: "get_con k2 a = Some ?c" using M by (simp add: get_con_def put_obj_def)
  let ?k' = "put_obj a (Con (?c\<lparr>con_sem := s'\<rparr>)) k2"
  have "con_read a n k = Some (Read_waits ?k')"
    using g c n s sw(1) g2 by (simp add: con_read_def CON_BUFF_SIZE_def mod_con_def SEM_NEW_def)
  then show ?thesis using sw(2,3) M by (intro exI [of _ ?k'] exI [of _ s']) simp
qed

text \<open>The state while the reader waits: fewer than \<open>n\<close> characters have been typed.\<close>

definition con_waiting :: "'a conk_scheme \<Rightarrow> u32 \<Rightarrow> str \<Rightarrow> u32 \<Rightarrow> pid \<Rightarrow> asched \<Rightarrow> pid list list \<Rightarrow> bool" where
  "con_waiting k a w n p A W \<longleftrightarrow> current_console k = a \<and> altPressed k \<noteq> 1 \<and> kern_rel k A ([p] # W) \<and>
     (\<exists>c. get_con k a = Some c \<and> con_holds c w \<and> con_busy c = 1 \<and> unat (read_expected c) = unat n \<and>
        sem_rel (con_sem c) 0 [p])"

definition con_ready :: "'a conk_scheme \<Rightarrow> u32 \<Rightarrow> str \<Rightarrow> asched \<Rightarrow> pid list list \<Rightarrow> bool" where
  "con_ready k a w A W \<longleftrightarrow> current_console k = a \<and> altPressed k \<noteq> 1 \<and> kern_rel k A ([] # W) \<and>
     (\<exists>c. get_con k a = Some c \<and> con_holds c w \<and> con_busy c = 0 \<and> sem_rel (con_sem c) 0 [])"

lemma key_while_waiting:
  assumes wt: "con_waiting k a w n p A W" and t: "plain t" "key_char t \<noteq> 0" and n: "length w < unat n" "n \<le> 30"
  shows "\<exists>k'. console_keyPressed t k = Some k' \<and>
     (if Suc (length w) < unat n then con_waiting k' a (w @ [key_char t]) n p A W
      else con_ready k' a (w @ [key_char t]) (a_unblock p A) W)"
proof -
  obtain c where c: "get_con k a = Some c" "con_holds c w" "con_busy c = 1" "unat (read_expected c) = unat n"
    "sem_rel (con_sem c) 0 [p]" "current_console k = a" "altPressed k \<noteq> 1" "kern_rel k A ([p] # W)"
    using wt by (auto simp: con_waiting_def)
  obtain k1 where k1: "console_keyPressed t k = con_store (key_char t) k1" "altPressed k1 \<noteq> 1"
    "current_console k1 = a" "objs k1 = objs k" "kern.truncate k1 = kern.truncate k"
    using key_idle [OF t(1) c(7)] t(2) c(6) by auto
  have g1: "get_con k1 (current_console k1) = Some c" using c(1) k1(3,4) by (simp add: get_con_def)
  have K1: "kern_rel k1 A ([p] # W)" using kern_rel_truncate [OF k1(5)] c(8) by simp
  have n30: "unat n \<le> 30" using n(2) by (simp add: word_le_nat_alt)
  then have len: "length w < 30" using n by simp
  have cant: "unat (buff_cant c + 1) = Suc (length w)"
    using c(2) len by (simp add: con_holds_def unat_word_ariths)
  let ?c = "stored (key_char t) c"
  have h: "con_holds ?c (w @ [key_char t])" by (rule stored_holds [OF c(2) len])
  show ?thesis
  proof (cases "Suc (length w) < unat n")
    case True
    have "\<not> (buff_cant c + 1 \<ge> read_expected c \<and> con_busy c \<noteq> 0)"
      using True cant c(4) by (simp add: word_le_nat_alt)
    from con_store_quiet [OF g1 c(2) len this]
    have "console_keyPressed t k = Some (put_obj a (Con ?c) k1)" using k1(1,3) by simp
    moreover have "con_waiting (put_obj a (Con ?c) k1) a (w @ [key_char t]) n p A W"
      using k1(2,3) K1 c(3-5) h by (simp add: con_waiting_def stored_def)
    ultimately show ?thesis using True by simp
  next
    case False
    have "unat (buff_index_end c) < length (con_buff c)" using c(2) by (simp add: con_holds_def)
    then have put: "aput (con_buff c) (ucast (buff_index_end c)) (key_char t) =
        Some ((con_buff c)[unat (buff_index_end c) := key_char t])" by (simp add: aput_def)
    have ge: "read_expected c \<le> buff_cant c + 1" using False cant c(4) n by (simp add: word_le_nat_alt)
    have room: "(ucast (buff_cant c) :: u32) < CON_BUFF_SIZE" using con_full [OF c(2)] len by (simp add: CON_BUFF_SIZE_def)
    let ?c0 = "?c\<lparr>con_busy := 0\<rparr>"
    let ?k2 = "put_obj a (Con ?c0) k1"
    have "kern_rel ?k2 A ([p] # W)" using K1 by simp
    then obtain s' k3 where sw: "sem_signal (con_sem c) ?k2 = Some (s', k3)" "sem_rel s' 0 []"
      "kern_rel k3 (a_unblock p A) ([] # W)" "same_rest ?k2 k3"
      using signal_wakes [OF c(5)] by blast
    note M = more_con [OF sw(4)]
    have g3: "get_con k3 a = Some ?c0" using M by (simp add: get_con_def put_obj_def)
    let ?k4 = "put_obj a (Con (?c0\<lparr>con_sem := s'\<rparr>)) k3"
    have "con_store (key_char t) k1 = Some ?k4"
      using g1 put ge room c(3) k1(3) sw(1) g3
      by (simp add: con_store_def Let_def mod_con_def stored_def CON_BUFF_SIZE_def)
    moreover have "con_holds (?c0\<lparr>con_sem := s'\<rparr>) (w @ [key_char t])" using h by (simp add: con_holds_def)
    then have "con_ready ?k4 a (w @ [key_char t]) (a_unblock p A) W"
      using M k1(2,3) sw(2,3) by (simp add: con_ready_def)
    ultimately show ?thesis using False k1(1) by simp
  qed
qed

fun press_keys :: "u16 list \<Rightarrow> 'a conk_scheme \<Rightarrow> 'a conk_scheme option" where
  "press_keys [] k = Some k"
| "press_keys (t # ts) k = do { k \<leftarrow> console_keyPressed t k; press_keys ts k }"

lemma keys_wake:
  assumes "con_waiting k a w n p A W" "\<forall>t \<in> set ts. plain t \<and> key_char t \<noteq> 0" "n \<le> 30"
    and "ts \<noteq> []" "length w + length ts = unat n"
  shows "\<exists>k'. press_keys ts k = Some k' \<and> con_ready k' a (w @ map key_char ts) (a_unblock p A) W"
  using assms
proof (induction ts arbitrary: k w)
  case (Cons t ts)
  from key_while_waiting [OF Cons.prems(1), of t] Cons.prems obtain k1 where
    k1: "console_keyPressed t k = Some k1" "if Suc (length w) < unat n then con_waiting k1 a (w @ [key_char t]) n p A W
      else con_ready k1 a (w @ [key_char t]) (a_unblock p A) W" by auto
  show ?case
  proof (cases "ts = []")
    case True
    then show ?thesis using k1 Cons.prems by simp
  next
    case False
    then have "Suc (length w) < unat n" using Cons.prems(5) by (cases ts) auto
    then show ?thesis using Cons.IH [of k1 "w @ [key_char t]"] k1 False Cons.prems by simp
  qed
qed simp

text \<open>C21. A task that reads \<open>n\<close> characters, at most 30, when there are fewer is blocked; after exactly
  the missing number of key presses it is ready again, and its read then returns what was waiting
  followed by what has been typed.\<close>

theorem keyboard_wakes_reader:
  assumes "get_con k (current_console k) = Some c" "con_holds c w" "con_sem c = SEM_NEW 0" "altPressed k \<noteq> 1"
    and "kern_rel k A ([] # W)" "busy A"
    and "length w < unat n" "n \<le> 30" "\<forall>t \<in> set ts. plain t \<and> key_char t \<noteq> 0" "length w + length ts = unat n"
  shows "\<exists>k1 k2 k3 c3. con_read (current_console k) n k = Some (Read_waits k1) \<and>
     kern_rel k1 (a_leave STATE_BLOCKED A) ([cur_pid k] # W) \<and>
     press_keys ts k1 = Some k2 \<and>
     kern_rel k2 (a_unblock (cur_pid k) (a_leave STATE_BLOCKED A)) ([] # W) \<and>
     con_read_rest (current_console k) n k2 = Some (Read_done 0 (w @ map key_char ts) k3) \<and>
     get_con k3 (current_console k) = Some c3 \<and> con_holds c3 []"
proof -
  let ?a = "current_console k"
  obtain k1 s where k1: "con_read ?a n k = Some (Read_waits k1)"
     "get_con k1 ?a = Some (c\<lparr>con_busy := 1, read_expected := ucast n, con_sem := s\<rparr>)"
     "sem_rel s 0 [cur_pid k]" "kern_rel k1 (a_leave STATE_BLOCKED A) ([cur_pid k] # W)"
     "current_console k1 = ?a" "altPressed k1 = altPressed k"
    using con_read_blocks [OF assms(1,2,7,8,3,5,6)] by blast
  have "unat n \<le> 30" using assms(8) by (simp add: word_le_nat_alt)
  then have "unat (ucast n :: u8) = unat n" by (simp add: unsigned_ucast_eq take_bit_eq_mod)
  then have "con_waiting k1 ?a w n (cur_pid k) (a_leave STATE_BLOCKED A) W"
    using k1 assms(2,4) by (simp add: con_waiting_def con_holds_def)
  moreover have "ts \<noteq> []" using assms(7,10) by auto
  ultimately obtain k2 where k2: "press_keys ts k1 = Some k2"
     "con_ready k2 ?a (w @ map key_char ts) (a_unblock (cur_pid k) (a_leave STATE_BLOCKED A)) W"
    using keys_wake assms(8-10) by blast
  then obtain c2 where c2: "get_con k2 ?a = Some c2" "con_holds c2 (w @ map key_char ts)"
    by (auto simp: con_ready_def)
  from con_read_rest_eq [OF c2, of n] assms(10) obtain c3 where
     "con_read_rest ?a n k2 = Some (Read_done 0 (w @ map key_char ts) (put_obj ?a (Con c3) k2))" "con_holds c3 []"
    by auto
  then show ?thesis using k1(1,4) k2 by (auto simp: con_ready_def)
qed

theorem keyboard_wakes_reader_witness:
  "\<exists>k1 k2 k3. con_read 0x100000 2 con_kern = Some (Read_waits k1) \<and>
     press_keys [0x1e, 0x30] k1 = Some k2 \<and>
     con_read_rest 0x100000 2 k2 = Some (Read_done 0 [97, 98] k3)"
proof -
  have "kern_rel con_kern two_tasks ([] # [[]])" "busy two_tasks" "con_sem new_console = SEM_NEW 0"
    using kern_two_tasks_rel by (simp_all add: two_tasks_eq new_console_def)
  moreover have "\<forall>t \<in> set [0x1e, 0x30]. plain t \<and> key_char t \<noteq> 0" "map key_char [0x1e, 0x30] = [97, 98]"
    by (simp_all add: plain_def key_char_def scan_table_def)
  ultimately show ?thesis
    using keyboard_wakes_reader [of con_kern new_console "[]" two_tasks "[[]]" 2 "[0x1e, 0x30]"]
      new_console_holds by auto
qed

end
