(* ===== verification/Device_Spec.thy ===== *)
theory Device_Spec
  imports Files Console_Spec
begin

text \<open>
  Descriptors and reference counts: opening, fork, and the closes that give no page back. What the last
  close does is in theory \<open>Descriptors\<close>, with the runs of all of them.
\<close>

section \<open>What the operations on descriptors leave alone\<close>

lemma for_range_trans:
  assumes "for_range i n f s = Some s'" and "\<And>s. R s s" and "\<And>a b c. R a b \<Longrightarrow> R b c \<Longrightarrow> R a c"
    and "\<And>j s s'. f j s = Some s' \<Longrightarrow> R s s'"
  shows "R s s'"
  using assms
proof (induction i n f s rule: for_range.induct)
  case (1 i n f s)
  show ?case
  proof (cases "i < n")
    case True
    then obtain s1 where s1: "f i s = Some s1" "for_range (Suc i) n f s1 = Some s'"
      using "1.prems"(1) by (auto simp: for_range_step split: Option.bind_splits)
    show ?thesis by (rule "1.prems"(3) [OF "1.prems"(4) [OF s1(1)] "1.IH" [OF True s1 "1.prems"(2-4)]])
  qed (use "1.prems"(1,2) in simp)
qed

text \<open>Only the descriptor table and the structures change.\<close>

definition dev_step :: "'a devk_scheme \<Rightarrow> 'a devk_scheme \<Rightarrow> bool" where
  "dev_step k k' \<longleftrightarrow> k' = k\<lparr>char_devices := char_devices k', objs := objs k'\<rparr>"

lemma dev_step_trans: "dev_step k k1 \<Longrightarrow> dev_step k1 k2 \<Longrightarrow> dev_step k k2"
proof -
  assume a: "dev_step k k1" and b: "dev_step k1 k2"
  have "k2 = k1\<lparr>char_devices := char_devices k2, objs := objs k2\<rparr>" using b by (simp add: dev_step_def)
  also have "\<dots> = k\<lparr>char_devices := char_devices k2, objs := objs k2\<rparr>" by (subst a [unfolded dev_step_def]) simp
  finally show "dev_step k k2" by (simp add: dev_step_def)
qed

lemma device_fork_frame:
  assumes "device_fork_descriptors p1 p2 k = Some k'"
  shows "dev_step k k'"
proof (rule for_range_trans [OF assms [unfolded device_fork_descriptors_def]])
  fix j :: nat and s s' :: "'a devk_scheme"
  assume "do { dev \<leftarrow> fd_get (char_devices s) p1 (of_nat j); cd \<leftarrow> fd_put (char_devices s) p2 (of_nat j) dev;
    k \<leftarrow> Some (s\<lparr>char_devices := cd\<rparr>); if dev \<noteq> 0 then add_ref 1 dev k else Some k } = Some s'"
  then obtain dev cd where "(if dev \<noteq> 0 then add_ref 1 dev (s\<lparr>char_devices := cd\<rparr>) else Some (s\<lparr>char_devices := cd\<rparr>)) = Some s'"
    by (auto split: Option.bind_splits)
  moreover have "dev_step s s'" if r: "add_ref 1 dev (s\<lparr>char_devices := cd\<rparr>) = Some s'"
  proof -
    obtain d where "s' = put_obj dev d (s\<lparr>char_devices := cd\<rparr>)" using r by (auto simp: add_ref_def split: Option.bind_splits)
    then show ?thesis by (simp add: dev_step_def put_obj_def)
  qed
  moreover have "dev_step s s'" if "Some (s\<lparr>char_devices := cd\<rparr>) = Some s'" using that by (auto simp: dev_step_def)
  ultimately show "dev_step s s'" by (cases "dev = 0") simp_all
next
  show "dev_step s s" for s :: "'a devk_scheme" by (simp add: dev_step_def)
  show "dev_step a b \<Longrightarrow> dev_step b c \<Longrightarrow> dev_step a c" for a b c :: "'a devk_scheme" by (rule dev_step_trans)
qed

lemma device_descriptor_frame:
  assumes "device_descriptor dev k = Some (fd, k')"
  shows "dev_step k k'"
proof -
  have r: "dev_step k s'" if a: "add_ref 1 dev (k\<lparr>char_devices := cd\<rparr>) = Some s'" for cd s'
  proof -
    obtain d where "s' = put_obj dev d (k\<lparr>char_devices := cd\<rparr>)" using a by (auto simp: add_ref_def split: Option.bind_splits)
    then show ?thesis by (simp add: dev_step_def put_obj_def)
  qed
  have "dev_step k k" by (simp add: dev_step_def)
  then show ?thesis using assms r
    by (auto simp: device_descriptor_def split: Option.bind_splits if_splits)
qed

text \<open>No device touches the descriptors when it is flushed.\<close>

abbreviation same_fds :: "'a devk_scheme \<Rightarrow> 'a devk_scheme \<Rightarrow> bool" where
  "same_fds k k' \<equiv> cur_pid k' = cur_pid k \<and> char_devices k' = char_devices k"

lemma mm_mem_free_fds: "mm_mem_free a k = Some k' \<Longrightarrow> same_fds k k'"
  by (auto simp: mm_mem_free_def Let_def split: bind_splits if_splits)

lemma mod_con_fds: "mod_con a f k = Some k' \<Longrightarrow> same_fds k k'"
  by (auto simp: mod_con_def put_obj_def split: bind_splits)

lemma con_unlink_fds: "con_unlink a k = Some k' \<Longrightarrow> same_fds k k'"
  by (auto simp: con_unlink_def dest!: mod_con_fds split: bind_splits if_splits)

lemma move_console_fds:
  "same_fds k (move_to_empty_console k)" "move_to_right_console k = Some k' \<Longrightarrow> same_fds k k'"
  by (auto simp: move_to_empty_console_def move_to_right_console_def mod_ram_def split: bind_splits if_splits)

lemma con_flush_fds: "con_flush a k = Some (st, k') \<Longrightarrow> same_fds k k'"
  by (auto simp: con_flush_def bind_eq_Some_conv move_console_fds(1) split: if_splits
      dest!: mm_mem_free_fds con_unlink_fds move_console_fds(2))

lemma pipe_flush_fds:
  assumes "pipe_flush a k = Some (st, k')" shows "same_fds k k'"
proof -
  obtain k1 where k1: "add_ref (-1) a k = Some k1" using assms by (auto simp: pipe_flush_def split: bind_splits)
  have "same_fds k k1" using add_ref_simps [OF k1] by simp
  moreover have "same_fds k1 k'" using assms k1
    by (auto simp: pipe_flush_def split: bind_splits if_splits dest!: mm_mem_free_fds)
  ultimately show ?thesis by simp
qed

lemma dev_flush_fds: "dev_flush fn a k = Some (st, k') \<Longrightarrow> same_fds k k'"
  by (cases fn) (auto simp: dev_flush_def serial_flush_def chardev_file_flush_def proc_cpuid_flush_def put_obj_def
      bind_eq_Some_conv split: if_splits dest!: con_flush_fds pipe_flush_fds)

section \<open>Closing a descriptor when there are others\<close>

text \<open>The structures whose \<open>flush\<close> counts: a console's and a pipe's.\<close>

fun counting :: "obj \<Rightarrow> bool" where
  "counting (Con c) \<longleftrightarrow> fn_flush (con_dev c) = Some Con_flush"
| "counting (Pipe p) \<longleftrightarrow> fn_flush (pipe_dev p) = Some Pipe_flush"
| "counting _ \<longleftrightarrow> False"

lemma counting_map_hdr [simp]: "counting (map_hdr (\<lambda>h. h\<lparr>refcount := n h\<rparr>) d) = counting d"
  by (cases d) auto

definition fds_ok :: "u32 set \<Rightarrow> 'a devk_scheme \<Rightarrow> bool" where
  "fds_ok A k \<longleftrightarrow> counted A k \<and> (\<forall>a \<in> A. \<exists>d. objs k a = Some d \<and> counting d) \<and> unat (cur_pid k) < MAX_PID"

lemma refs_bound:
  assumes "fd_table cd"
  shows "refs cd a \<le> MAX_PID * MAX_FD"
proof -
  have "refs cd a \<le> sum_list (map (\<lambda>_. MAX_FD) cd)"
    unfolding refs_def
  proof (rule sum_list_mono)
    fix row assume "row \<in> set cd"
    then have "length row = MAX_FD" using assms by (auto simp: fd_table_def in_set_conv_nth)
    then show "count_list row a \<le> MAX_FD" using count_le_length [of row a] by simp
  qed
  then show ?thesis using assms by (simp add: sum_list_triv fd_table_def)
qed

lemma table_upd:
  assumes "fd_table cd" "unat p < MAX_PID" "unat fd < MAX_FD" "r < MAX_PID" "i < MAX_FD"
  shows "cd[unat p := (cd ! unat p)[unat fd := x]] ! r ! i = (if r = unat p \<and> i = unat fd then x else cd ! r ! i)"
  using assms by (auto simp: fd_table_def nth_list_update)

text \<open>The page stays when the structure has other descriptors, or when the other end of the pipe has.\<close>

definition stays :: "'a devk_scheme \<Rightarrow> u32 \<Rightarrow> bool" where
  "stays k a \<longleftrightarrow> 1 < refs (char_devices k) a \<or>
     (\<exists>p q. objs k a = Some (Pipe p) \<and> pipe_other p \<noteq> a \<and> objs k (pipe_other p) = Some (Pipe q) \<and>
        refcount (pipe_dev q) \<noteq> 0)"

lemma dev_flush_counts:
  assumes "objs k a = Some d" "counting d"
    and "1 < refcount (hdr d) \<or> (\<exists>p q. d = Pipe p \<and> pipe_other p \<noteq> a \<and> objs k (pipe_other p) = Some (Pipe q) \<and>
      refcount (pipe_dev q) \<noteq> 0)"
  shows "\<exists>fn. fn_flush (hdr d) = Some fn \<and>
    dev_flush fn a k = Some (0, put_obj a (map_hdr (\<lambda>h. h\<lparr>refcount := refcount h - 1\<rparr>) d) k)"
  using assms
proof (cases d)
  case (Con c)
  then show ?thesis using assms
    by (auto simp: dev_flush_def con_flush_def get_con_def add_ref_def)
next
  case (Pipe p)
  then have "refcount (pipe_dev p) - 1 \<noteq> 0 \<or> (\<exists>q. pipe_other p \<noteq> a \<and> objs k (pipe_other p) = Some (Pipe q) \<and> refcount (pipe_dev q) \<noteq> 0)"
    using assms(3) by auto
  then show ?thesis using Pipe assms(1,2)
    by (auto simp: dev_flush_def pipe_flush_def get_pipe_def add_ref_def put_obj_def)
qed auto

lemma refs_zero:
  assumes "fd_table T" "refs T a = 0" "p < MAX_PID" "i < MAX_FD"
  shows "T ! p ! i \<noteq> a"
proof -
  have "T ! p \<in> set T" "T ! p ! i \<in> set (T ! p)" using assms by (simp_all add: fd_table_def)
  moreover from this(1) have "count_list (T ! p) a = 0" using assms(2) by (auto simp: refs_def)
  ultimately show ?thesis by (auto simp: count_list_0_iff)
qed

lemma refs_small: "fd_table cd \<Longrightarrow> unat (of_nat (refs cd a) :: u32) = refs cd a"
  using refs_bound [of cd a] by (simp add: unat_of_nat MAX_PID_def MAX_FD_def)

text \<open>A close, whatever is done to the structure: the table, and the counts that it should have.\<close>

lemma refs_closed:
  assumes tab: "fd_table (T :: u32 list list)" and p: "unat (p :: pid) < MAX_PID" and fd: "unat (fd :: u32) < MAX_FD"
    and dev: "dev = T ! unat p ! unat fd" "dev \<noteq> 0"
    and a: "a \<noteq> 0"
  shows "refs (T[unat p := (T ! unat p)[unat fd := 0]]) a = (if a = dev then refs T a - 1 else refs T a)" "1 \<le> refs T dev"
proof -
  note get = fd_in(1) [OF tab p fd] and put = fd_in(2) [OF tab p fd, of 0]
  show "refs (T[unat p := (T ! unat p)[unat fd := 0]]) a = (if a = dev then refs T a - 1 else refs T a)"
    using refs_put [OF tab p fd get put, of a] a dev(1) by auto
  show "1 \<le> refs T dev" using refs_zero [OF tab _ p fd, of dev] dev(1) by fastforce
qed

lemma same_kinds_put:
  assumes "objs k a = Some d"
  shows "same_kinds k (put_obj a (map_hdr (\<lambda>h. h\<lparr>refcount := f (refcount h)\<rparr>) d) k)"
proof -
  have "map_hdr (\<lambda>h. h\<lparr>refcount := f (refcount h)\<rparr>) d = map_hdr (\<lambda>h. h\<lparr>refcount := f (refcount (hdr d))\<rparr>) d"
    by (cases d) auto
  moreover have "\<exists>n. e = map_hdr (\<lambda>h. h\<lparr>refcount := n\<rparr>) e" for e by (metis map_hdr_same)
  ultimately show ?thesis using assms by (auto simp: same_kinds_def put_obj_def)
qed

lemma sys_close_counted:
  assumes ok: "fds_ok A k" and fd: "unat fd < MAX_FD"
    and dev: "dev = char_devices k ! unat (cur_pid k) ! unat fd" "dev \<in> A" "stays k dev"
  shows "\<exists>k'. sys_close fd k = Some (0, k') \<and> fds_ok A k' \<and> cur_pid k' = cur_pid k \<and>
    char_devices k' = (char_devices k)[unat (cur_pid k) := (char_devices k ! unat (cur_pid k))[unat fd := 0]] \<and>
    same_kinds k k' \<and> dev_step k k'"
proof -
  let ?p = "cur_pid k" and ?cd = "(char_devices k)[unat (cur_pid k) := (char_devices k ! unat (cur_pid k))[unat fd := 0]]"
  have inv: "counted A k" and p: "unat ?p < MAX_PID" using ok by (simp_all add: fds_ok_def)
  have tab: "fd_table (char_devices k)" and z: "0 \<notin> A" using inv by (simp_all add: counted_def)
  note get = fd_in(1) [OF tab p fd] and put = fd_in(2) [OF tab p fd, of 0]
  obtain d where d: "objs k dev = Some d" "counting d" "refcount (hdr d) = of_nat (refs (char_devices k) dev)"
    using ok dev(2) by (fastforce simp: fds_ok_def counted_def)
  let ?k1 = "k\<lparr>char_devices := ?cd\<rparr>"
  have "1 < refcount (hdr d)" if "1 < refs (char_devices k) dev"
    using that d(3) refs_small [OF tab, of dev] by (simp add: word_less_nat_alt)
  then have "1 < refcount (hdr d) \<or> (\<exists>p q. d = Pipe p \<and> pipe_other p \<noteq> dev \<and> objs ?k1 (pipe_other p) = Some (Pipe q) \<and>
      refcount (pipe_dev q) \<noteq> 0)" using dev(3) d(1) by (auto simp: stays_def)
  from dev_flush_counts [of ?k1, OF _ d(2) this] d(1) obtain fn where
    fn: "fn_flush (hdr d) = Some fn" "dev_flush fn dev ?k1 = Some (0, put_obj dev (map_hdr (\<lambda>h. h\<lparr>refcount := refcount h - 1\<rparr>) d) ?k1)"
    by auto
  let ?k = "put_obj dev (map_hdr (\<lambda>h. h\<lparr>refcount := refcount h - 1\<rparr>) d) ?k1"
  have close: "sys_close fd k = Some (0, ?k)"
    using get put fn d(1) by (simp add: sys_close_def dev(1))
  have dz: "dev \<noteq> 0" using z dev(2) by auto
  note r = refs_closed [OF tab p fd dev(1) dz]
  have "\<exists>d'. objs ?k a = Some d' \<and> refcount (hdr d') = of_nat (refs ?cd a)" if "a \<in> A" for a
  proof -
    have "a \<noteq> 0" using that z by auto
    then show ?thesis using r(1) [of a] r(2) [OF dz] that inv d(3) by (auto simp: counted_def put_obj_def of_nat_diff)
  qed
  moreover have "objs ?k (?cd ! r ! i) \<noteq> None" if "r < MAX_PID" "i < MAX_FD" "?cd ! r ! i \<noteq> 0" for r i
  proof -
    from that(3) have "\<not> (r = unat ?p \<and> i = unat fd)" unfolding table_upd [OF tab p fd that(1,2)] by auto
    then have "?cd ! r ! i = char_devices k ! r ! i" using table_upd [OF tab p fd that(1,2)] by auto
    then have "objs k (?cd ! r ! i) \<noteq> None" using inv that by (simp add: counted_def)
    then show ?thesis by (simp add: put_obj_def)
  qed
  ultimately have "counted A ?k"
    using inv fd_table_put [OF tab p put] by (simp add: counted_def put_obj_def)
  moreover have "\<forall>a \<in> A. \<exists>d. objs ?k a = Some d \<and> counting d"
    using ok d(2) unfolding fds_ok_def put_obj_def by simp
  moreover have "same_kinds k ?k"
    using same_kinds_put [OF d(1), of "\<lambda>n. n - 1"] unfolding same_kinds_def put_obj_def by simp
  moreover have "dev_step k ?k" by (simp add: dev_step_def put_obj_def)
  ultimately show ?thesis using p close by (intro exI [of _ ?k]) (simp add: fds_ok_def put_obj_def)
qed

section \<open>Opening and fork\<close>

lemma takeWhile_first:
  assumes "\<forall>j < n. xs ! j \<noteq> 0" "n < length xs" "xs ! n = 0"
  shows "length (takeWhile (\<lambda>x. x \<noteq> (0 :: u32)) xs) = n"
proof -
  have "takeWhile (\<lambda>x. x \<noteq> 0) xs = take n xs"
    using assms by (intro takeWhile_eq_take_P_nth) auto
  then show ?thesis using assms(2) by simp
qed

lemma open_counted:
  assumes ok: "fds_ok A k" and dev: "dev \<in> A"
  defines "j \<equiv> length (takeWhile (\<lambda>x. x \<noteq> 0) (char_devices k ! unat (cur_pid k)))"
  shows "\<exists>fd k'. device_descriptor dev k = Some (fd, k') \<and> fds_ok A k' \<and> cur_pid k' = cur_pid k \<and>
    char_devices k' = (if j < MAX_FD then (char_devices k)[unat (cur_pid k) := (char_devices k ! unat (cur_pid k))[j := dev]]
      else char_devices k)"
proof -
  let ?row = "char_devices k ! unat (cur_pid k)"
  have inv: "counted A k" and p: "unat (cur_pid k) < MAX_PID" using ok by (simp_all add: fds_ok_def)
  have tab: "fd_table (char_devices k)" and z: "0 \<notin> A" using inv by (simp_all add: counted_def)
  have len: "length ?row = MAX_FD" using tab p by (simp add: fd_table_def)
  obtain d where d: "objs k dev = Some d" "counting d" using ok dev by (auto simp: fds_ok_def)
  have "dev \<noteq> 0" using dev z by auto
  from device_descriptor_counted [OF inv p d(1) this] obtain fd k' where k': "device_descriptor dev k = Some (fd, k')"
    "counted A k'" "if fd = - ENOSYS then k' = k \<and> (\<forall>j < MAX_FD. ?row ! j \<noteq> 0)
     else unat fd < MAX_FD \<and> ?row ! unat fd = 0 \<and>
       k' = k\<lparr>char_devices := (char_devices k)[unat (cur_pid k) := ?row[unat fd := dev]],
              objs := (objs k)(dev \<mapsto> map_hdr (\<lambda>h. h\<lparr>refcount := refcount h + 1\<rparr>) d)\<rparr>" by blast
  show ?thesis
  proof (cases "fd = - ENOSYS")
    case True
    then have "\<forall>x \<in> set ?row. x \<noteq> 0" using k'(3) len by (auto simp: in_set_conv_nth)
    then have "takeWhile (\<lambda>x. x \<noteq> 0) ?row = ?row" by (simp add: takeWhile_eq_all_conv)
    then have "j = MAX_FD" unfolding j_def using len by (rule ssubst)
    then show ?thesis using True k' ok by auto
  next
    case False
    obtain f where f: "free_fd_from k 0 = Some f" "(if f = -1 then \<forall>j < MAX_FD. ?row ! j \<noteq> 0
       else unat f < MAX_FD \<and> ?row ! unat f = 0 \<and> (\<forall>j < unat f. ?row ! j \<noteq> 0))"
      using free_fd_eq [OF tab p, of 0] by auto
    have "f = fd" "f \<noteq> -1" using k'(1) f False
      by (auto simp: device_descriptor_def get_next_free_fd_for_current_task_def split: if_splits bind_splits)
    then have "j = unat fd" using f len unfolding j_def by (intro takeWhile_first) auto
    then show ?thesis using False k' ok d(2) p by (auto simp: fds_ok_def)
  qed
qed

lemma fork_counted:
  assumes ok: "fds_ok A k" and p: "unat p2 < MAX_PID" "p2 \<noteq> cur_pid k" "\<forall>x \<in> set (char_devices k ! unat p2). x = 0"
  shows "\<exists>k'. device_fork_descriptors (cur_pid k) p2 k = Some k' \<and> fds_ok A k' \<and> cur_pid k' = cur_pid k \<and>
    char_devices k' = (char_devices k)[unat p2 := char_devices k ! unat (cur_pid k)] \<and> same_kinds k k'"
proof -
  have inv: "counted A k" "unat (cur_pid k) < MAX_PID" using ok by (simp_all add: fds_ok_def)
  then have "length (char_devices k ! unat p2) = MAX_FD" using p(1) by (simp add: counted_def fd_table_def)
  then have "\<forall>i < MAX_FD. char_devices k ! unat p2 ! i = 0" using p(3) by (auto dest: nth_mem)
  from device_fork_counted [OF inv(1,2) p(1) _ this] p(2) obtain k' where
    "device_fork_descriptors (cur_pid k) p2 k = Some k'" "counted A k'" "cur_pid k' = cur_pid k" "same_kinds k k'"
    "char_devices k' = (char_devices k)[unat p2 := char_devices k ! unat (cur_pid k)]" by metis
  moreover from this(4) have "\<forall>a \<in> A. \<exists>d. objs k' a = Some d \<and> counting d"
    using ok by (fastforce simp: fds_ok_def same_kinds_def)
  ultimately show ?thesis using inv(2) by (simp add: fds_ok_def)
qed

end
