(* ===== verification/Fork_Process.thy ===== *)
theory Fork_Process
  imports Spaces Mem_Props Pids Process Device_Spec
begin

text \<open>
  A process is made out of the parts of the kernel: \<open>sys_fork\<close> of kernel/loader.c composes the
  directories of mm.c, the two frame allocators, the pids, the descriptors of device.c and the run
  queue of sched.c.
\<close>

section \<open>Writing through a window\<close>

text \<open>A page of virtual memory that is mapped to a frame outside of the current directory's structure.\<close>

definition window :: "'a mmk_scheme \<Rightarrow> u32 \<Rightarrow> u32 \<Rightarrow> bool" where
  "window k v s \<longleftrightarrow> (\<exists>A. dir_wf (ram k) (reg_cr3 k) A) \<and> page_aligned s \<and> s \<notin> paging_pages (ram k) (reg_cr3 k) \<and>
     (\<forall>i < 4096. walk (ram k) (reg_cr3 k) (v + of_nat i) = Some (s + of_nat i))"

lemma window_write:
  assumes "window k v s" and "\<And>b. base b \<noteq> s \<Longrightarrow> m b = ram k b"
  shows "window (k\<lparr>ram := m\<rparr>) v s"
proof -
  obtain A where wf: "dir_wf (ram k) (reg_cr3 k) A" and s: "s \<notin> paging_pages (ram k) (reg_cr3 k)"
    using assms(1) by (auto simp: window_def)
  have "m b = ram k b" if "base b \<in> paging_pages (ram k) (reg_cr3 k)" for b
    using assms(2) s that by metis
  note dw = data_write [OF wf, of m, OF this]
  show ?thesis using assms(1) dw(1-3) by (auto simp: window_def)
qed

lemma vput_window:
  assumes "window k v s" and "i < 4096"
  shows "vput (v + of_nat i) b k = Some (k\<lparr>ram := (ram k)(s + of_nat i := b)\<rparr>)"
    and "window (k\<lparr>ram := (ram k)(s + of_nat i := b)\<rparr>) v s"
proof -
  have s: "page_aligned s" using assms(1) by (simp add: window_def)
  show "vput (v + of_nat i) b k = Some (k\<lparr>ram := (ram k)(s + of_nat i := b)\<rparr>)"
    using assms by (simp add: vput_def window_def)
  show "window (k\<lparr>ram := (ram k)(s + of_nat i := b)\<rparr>) v s"
    by (rule window_write [OF assms(1)]) (use s assms(2) in auto)
qed

lemma vput32_window:
  assumes w: "window k v s" and n: "n < 1024"
  shows "vput32 (v + of_nat (4 * n)) x k = Some (k\<lparr>ram := wr32 (ram k) (entry s (of_nat n)) x\<rparr>)"
proof -
  have a: "y + of_nat (4 * n) + 1 = y + of_nat (4 * n + 1)" "y + of_nat (4 * n) + 2 = y + of_nat (4 * n + 2)"
    "y + of_nat (4 * n) + 3 = y + of_nat (4 * n + 3)" for y :: u32 by (simp_all add: algebra_simps)
  have i: "4 * n < 4096" "4 * n + 1 < 4096" "4 * n + 2 < 4096" "4 * n + 3 < 4096" using n by simp_all
  have e: "entry s (of_nat n) = s + of_nat (4 * n)" by (simp add: entry_def)
  note w1 = vput_window [OF w i(1)] note w2 = vput_window [OF w1(2) i(2)] note w3 = vput_window [OF w2(2) i(3)]
  show ?thesis
    unfolding vput32_def e wr32_def a w1(1) bind.bind_lunit w2(1) w3(1) vput_window(1) [OF w3(2) i(4)]
    by simp
qed

text \<open>A sequence of words from the \<open>n\<close>-th of the page downwards.\<close>

lemma vpush_window:
  assumes "window k v s" and "n < 1024" and "length ws \<le> Suc n"
  shows "\<exists>m. vpush (v + of_nat (4 * n)) ws k = Some (k\<lparr>ram := m\<rparr>) \<and>
     (\<forall>j < length ws. rd32 m (entry s (of_nat (n - j))) = ws ! j) \<and>
     (\<forall>j. n < j \<and> j < 1024 \<longrightarrow> rd32 m (entry s (of_nat j)) = rd32 (ram k) (entry s (of_nat j))) \<and>
     (\<forall>b. base b \<noteq> s \<longrightarrow> m b = ram k b)"
  using assms
proof (induction ws arbitrary: n k)
  case Nil
  then show ?case by (intro exI [of _ "ram k"]) simp
next
  case (Cons x ws)
  have s: "page_aligned s" using Cons.prems(1) by (simp add: window_def)
  let ?m = "wr32 (ram k) (entry s (of_nat n)) x" and ?k = "k\<lparr>ram := wr32 (ram k) (entry s (of_nat n)) x\<rparr>"
  have i: "index_ok (of_nat j)" "(of_nat j = (of_nat n :: u32)) = (j = n)" if "j < 1024" for j
    using that index_of_nat Cons.prems(2) by metis+
  have o: "?m b = ram k b" if "base b \<noteq> s" for b
    using that s i(1) [OF Cons.prems(2)] by (intro wr32_other_page) simp_all
  have w: "window ?k v s" using window_write [OF Cons.prems(1), of ?m] o by simp
  have r: "rd32 ?m (entry s (of_nat j)) = (if j = n then x else rd32 (ram k) (entry s (of_nat j)))" if "j < 1024" for j
    using i(1) [OF that] i(1) [OF Cons.prems(2)] i(2) [OF that] s
    by (cases "j = n") (simp_all add: rd32_wr32_other entry_eq eq_commute [of "of_nat n"])
  have code: "vpush (v + of_nat (4 * n)) (x # ws) k = vpush (v + of_nat (4 * n) - 4) ws ?k"
    using vput32_window [OF Cons.prems(1,2), of x] by simp
  show ?case
  proof (cases "ws = []")
    case True
    then show ?thesis using code r o Cons.prems(2) by (intro exI [of _ ?m]) auto
  next
    case False
    then obtain p where p: "n = Suc p" using Cons.prems(3) by (cases n) auto
    have v: "v + of_nat (4 * n) - 4 = v + of_nat (4 * p)" by (simp add: p algebra_simps)
    obtain m where m: "vpush (v + of_nat (4 * p)) ws ?k = Some (?k\<lparr>ram := m\<rparr>)"
      "\<forall>j < length ws. rd32 m (entry s (of_nat (p - j))) = ws ! j"
      "\<forall>j. p < j \<and> j < 1024 \<longrightarrow> rd32 m (entry s (of_nat j)) = rd32 ?m (entry s (of_nat j))"
      "\<forall>b. base b \<noteq> s \<longrightarrow> m b = ?m b"
      using Cons.IH [OF w, of p] p Cons.prems by auto
    have "rd32 m (entry s (of_nat (n - j))) = (x # ws) ! j" if "j < length (x # ws)" for j
      using that m(2,3) r [of n] p Cons.prems(2) by (cases j) auto
    then show ?thesis using code v m r o p by (intro exI [of _ m]) auto
  qed
qed

section \<open>The stacks\<close>

lemma stack_pages:
  "page_aligned STACK_3_VIRTUAL" "page_aligned STACK_0_VIRTUAL" "base STACK_3_VIRTUAL = STACK_3_VIRTUAL"
  "base STACK_0_VIRTUAL = STACK_0_VIRTUAL" "pdi STACK_3_VIRTUAL = 1023" "pdi STACK_0_VIRTUAL = 1023" "pdi temp = 1023"
  "STACK_3_VIRTUAL \<noteq> temp" "STACK_0_VIRTUAL \<noteq> temp" "STACK_0_VIRTUAL \<noteq> STACK_3_VIRTUAL" "index_ok 1023"
  by (simp_all add: STACK_3_VIRTUAL_def STACK_0_VIRTUAL_def KERNEL_TEMP_PAGE_def page_aligned_def base_def pdi_def index_ok_def)

text \<open>The three mappings both \<open>sys_fork\<close> and \<open>loader_load\<close> make: the stacks of the new task in its
  directory \<open>c\<close>, and the stack of ring 0 in the current one.\<close>

definition stacks_over :: "(u32 \<Rightarrow> u32 option) \<Rightarrow> u32 \<Rightarrow> u32 \<Rightarrow> (u32 \<Rightarrow> u32 option) \<Rightarrow> bool" where
  "stacks_over f s3 s0 g \<longleftrightarrow>
     (\<forall>w. g w = (if base w = STACK_3_VIRTUAL then Some (s3 OR (w AND 0xFFF))
        else if base w = STACK_0_VIRTUAL then Some (s0 OR (w AND 0xFFF)) else f w))"

lemma map_stacks:
  assumes sp: "spaces (ram k) E A" and pool: "kernel_pool k A" and c: "c \<in> E" and d: "d \<in> E" "c \<noteq> d"
    and cs: "has_table (ram k) c 1023 \<or> \<not> is_present (pde (ram k) c 1023) \<and> A \<noteq> {}"
    and ds: "has_table (ram k) d 1023 \<or> \<not> is_present (pde (ram k) d 1023) \<and> 2 \<le> card A"
    and s: "page_aligned s3" "page_aligned s0"
  shows "\<exists>e1 k1 e2 k2 e3 k3 A'. mm_page_map STACK_3_VIRTUAL c s3 0 USR_STD_ATTR k = Some (e1, k1) \<and>
     mm_page_map STACK_0_VIRTUAL c s0 0 (MM_ATTR_RW OR MM_ATTR_US_S) k1 = Some (e2, k2) \<and>
     mm_page_map temp d s0 0 (MM_ATTR_RW OR MM_ATTR_US_S) k2 = Some (e3, k3) \<and>
     space_step E k A k3 A' \<and> card A \<le> card A' + 2 \<and> stacks_over (walk (ram k) c) s3 s0 (walk (ram k3) c) \<and>
     mapped_at (ram k) d temp s0 (ram k3) \<and> (\<forall>e \<in> E. e \<noteq> c \<and> e \<noteq> d \<longrightarrow> walk (ram k3) e = walk (ram k) e) \<and>
     has_table (ram k3) c 1023 \<and> has_table (ram k3) d 1023 \<and> (\<forall>b. base b \<notin> kernel_frames \<longrightarrow> ram k3 b = ram k b) \<and>
     (\<forall>i. index_ok i \<and> i \<noteq> 1023 \<longrightarrow> pde (ram k3) c i = pde (ram k) c i) \<and>
     (\<forall>b. base b \<notin> paging_frames (ram k) E A \<longrightarrow> ram k3 b = ram k b)"
proof -
  obtain e1 k1 A1 where m1: "mm_page_map STACK_3_VIRTUAL c s3 0 USR_STD_ATTR k = Some (e1, k1)" "space_step E k A k1 A1"
    "card A \<le> Suc (card A1)" "mapped_at (ram k) c STACK_3_VIRTUAL s3 (ram k1)"
    "\<forall>e \<in> E. e \<noteq> c \<longrightarrow> walk (ram k1) e = walk (ram k) e" "has_table (ram k1) c 1023"
    "\<forall>b. base b \<notin> kernel_frames \<longrightarrow> ram k1 b = ram k b"
    "\<forall>f \<in> E. \<forall>i. index_ok i \<and> (f \<noteq> c \<or> i \<noteq> 1023) \<longrightarrow> pde (ram k1) f i = pde (ram k) f i"
    "\<forall>b. base b \<notin> paging_frames (ram k) E A \<longrightarrow> ram k1 b = ram k b"
    using spaces_map [OF sp pool c, of STACK_3_VIRTUAL USR_STD_ATTR s3] cs std_attr unfolding stack_pages by blast
  note p1 = space_stepD [OF m1(2)]
  obtain e2 k2 A2 where m2: "mm_page_map STACK_0_VIRTUAL c s0 0 (MM_ATTR_RW OR MM_ATTR_US_S) k1 = Some (e2, k2)"
    "space_step E k1 A1 k2 A2" "A2 = A1" "mapped_at (ram k1) c STACK_0_VIRTUAL s0 (ram k2)"
    "\<forall>e \<in> E. e \<noteq> c \<longrightarrow> walk (ram k2) e = walk (ram k1) e" "has_table (ram k2) c 1023"
    "\<forall>b. base b \<notin> kernel_frames \<longrightarrow> ram k2 b = ram k1 b"
    "\<forall>f \<in> E. \<forall>i. index_ok i \<and> (f \<noteq> c \<or> i \<noteq> 1023) \<longrightarrow> pde (ram k2) f i = pde (ram k1) f i"
    "\<forall>b. base b \<notin> paging_frames (ram k1) E A1 \<longrightarrow> ram k2 b = ram k1 b"
    using spaces_map [OF p1(4,2) c, of STACK_0_VIRTUAL "MM_ATTR_RW OR MM_ATTR_US_S" s0] m1(6) rw_attr
    unfolding stack_pages by blast
  note p2 = space_stepD [OF m2(2)]
  have "pde (ram k2) d 1023 = pde (ram k) d 1023" using m1(8) m2(8) d stack_pages(11) by auto
  moreover have "A2 \<noteq> {}" if "2 \<le> card A" using that m1(3) m2(3) by auto
  ultimately have "has_table (ram k2) d 1023 \<or> \<not> is_present (pde (ram k2) d 1023) \<and> A2 \<noteq> {}"
    using ds by (auto simp: has_table_def)
  then obtain e3 k3 A3 where m3: "mm_page_map temp d s0 0 (MM_ATTR_RW OR MM_ATTR_US_S) k2 = Some (e3, k3)"
    "space_step E k2 A2 k3 A3" "card A2 \<le> Suc (card A3)" "mapped_at (ram k2) d temp s0 (ram k3)"
    "\<forall>e \<in> E. e \<noteq> d \<longrightarrow> walk (ram k3) e = walk (ram k2) e" "has_table (ram k3) d 1023"
    "\<forall>b. base b \<notin> kernel_frames \<longrightarrow> ram k3 b = ram k2 b"
    "\<forall>f \<in> E. \<forall>i. index_ok i \<and> (f \<noteq> d \<or> i \<noteq> 1023) \<longrightarrow> pde (ram k3) f i = pde (ram k2) f i"
    "\<forall>b. base b \<notin> paging_frames (ram k2) E A2 \<longrightarrow> ram k3 b = ram k2 b"
    using spaces_map [OF p2(4,2) d(1), of temp "MM_ATTR_RW OR MM_ATTR_US_S" s0] rw_attr
    unfolding stack_pages by blast
  have "space_step E k A k3 A3" using space_step_trans [OF space_step_trans [OF m1(2) m2(2)] m3(2)] .
  moreover have "stacks_over (walk (ram k) c) s3 s0 (walk (ram k3) c)"
    using m1(4) m2(4) m3(5) c d s stack_pages by (simp add: stacks_over_def mapped_at_def)
  moreover have "mapped_at (ram k) d temp s0 (ram k3)" using m3(4) m1(5) m2(5) d by (simp add: mapped_at_def)
  moreover have "has_table (ram k3) c 1023" using space_stepD(5) [OF m3(2) c stack_pages(11) m2(6)] .
  moreover have "card A \<le> card A3 + 2" using m1(3) m2(3) m3(3) by simp
  moreover have "\<forall>i. index_ok i \<and> i \<noteq> 1023 \<longrightarrow> pde (ram k3) c i = pde (ram k) c i"
    using m1(8) m2(8) m3(8) c d(2) by simp
  moreover have "\<forall>e \<in> E. e \<noteq> c \<and> e \<noteq> d \<longrightarrow> walk (ram k3) e = walk (ram k) e" using m1(5) m2(5) m3(5) by simp
  moreover have "\<forall>b. base b \<notin> kernel_frames \<longrightarrow> ram k3 b = ram k b" using m1(7) m2(7) m3(7) by simp
  moreover have "ram k3 b = ram k b" if "base b \<notin> paging_frames (ram k) E A" for b
    using m1(9) m2(9) m3(9) that space_step_frame [OF m1(2) that] space_step_frame [OF m2(2) space_step_frame [OF m1(2) that]] by simp
  ultimately show ?thesis using m1(1) m2(1) m3(1,6) by blast
qed

lemma window_temp:
  assumes "spaces (ram k) E A" "reg_cr3 k \<in> E" "mapped_at m (reg_cr3 k) temp s (ram k)" "page_aligned s" "s \<notin> kernel_frames"
  shows "window k temp s"
  using assms temp_walk [OF assms(3,4)] spacesD(1,3) [OF assms(1,2)] by (auto simp: window_def)

text \<open>The words on the stack of ring 0, from the saved registers up.\<close>

definition stack_words :: "ram \<Rightarrow> u32 \<Rightarrow> u32 list" where
  "stack_words m s = map (\<lambda>i. rd32 m (entry s (of_nat i))) [1014..<1024]"

lemma push_context:
  assumes w: "window k temp s" and l: "length ws = 10"
  shows "\<exists>m. vpush (temp + 0xffC) ws k = Some (k\<lparr>ram := m\<rparr>) \<and> stack_words m s = rev ws \<and>
     (\<forall>b. base b \<noteq> s \<longrightarrow> m b = ram k b)"
proof -
  have a: "temp + of_nat (4 * 1023) = temp + 0xffC" by simp
  obtain m where m: "vpush (temp + of_nat (4 * 1023)) ws k = Some (k\<lparr>ram := m\<rparr>)"
    "\<forall>j < length ws. rd32 m (entry s (of_nat (1023 - j))) = ws ! j" "\<forall>b. base b \<noteq> s \<longrightarrow> m b = ram k b"
    using vpush_window [OF w, of 1023 ws] l by auto
  have "stack_words m s = rev ws"
  proof (rule nth_equalityI)
    fix i assume "i < length (stack_words m s)"
    then have i: "i < 10" by (simp add: stack_words_def)
    have "9 - i < length ws" using l by simp
    then have "rd32 m (entry s (of_nat (1023 - (9 - i)))) = ws ! (9 - i)" using m(2) by blast
    moreover have "1023 - (9 - i) = 1014 + i" using i by simp
    moreover have "[1014..<1024] ! i = 1014 + i" using i by (intro nth_upt) simp
    ultimately have "stack_words m s ! i = ws ! (9 - i)" unfolding stack_words_def
      by (subst nth_map) (use i in simp, simp only:)
    then show "stack_words m s ! i = rev ws ! i" using i l by (simp add: rev_nth)
  qed (simp add: stack_words_def l)
  then show ?thesis using m(1,3) unfolding a by blast
qed

lemma stack_words_cong:
  assumes "page_aligned s" "\<And>b. base b = s \<Longrightarrow> m' b = m b"
  shows "stack_words m' s = stack_words m s"
  unfolding stack_words_def using assms index_of_nat(1) by (intro map_cong refl read_other) (auto simp: index_ok_def)

text \<open>What \<open>sys_fork\<close> does to memory once the directory \<open>c\<close> is there.\<close>

lemma fork_memory:
  assumes sp: "spaces (ram k) E A" and pool: "kernel_pool k A" and c: "c \<in> E" and d: "d \<in> E" "c \<noteq> d"
    and tb: "has_table (ram k) c 1023" "has_table (ram k) d 1023" and cr: "reg_cr3 k = d"
    and s: "page_aligned s3" "page_aligned s0" "s3 \<notin> kernel_frames" "s0 \<notin> kernel_frames" "s3 \<noteq> s0"
    and src: "\<forall>i < 4096. walk (ram k) d (STACK_3_VIRTUAL + of_nat i) = Some (ps + of_nat i)"
    and ps: "page_aligned ps" "ps \<notin> kernel_frames" "ps \<noteq> s3" "ps \<noteq> s0" and ws: "length ws = 10"
  shows "\<exists>e1 k1 e2 k2 e3 k3 k4 k5 r k6 A'. mm_page_map STACK_3_VIRTUAL c s3 0 USR_STD_ATTR k = Some (e1, k1) \<and>
     mm_page_map STACK_0_VIRTUAL c s0 0 (MM_ATTR_RW OR MM_ATTR_US_S) k1 = Some (e2, k2) \<and>
     mm_page_map temp d s0 0 (MM_ATTR_RW OR MM_ATTR_US_S) k2 = Some (e3, k3) \<and> reg_esp k3 = reg_esp k \<and>
     vpush (temp + 0xffC) ws k3 = Some k4 \<and> mm_copy_vf STACK_3_VIRTUAL s3 PAGE_SIZE k4 = Some (0, k5) \<and>
     mm_page_free temp d k5 = (r, k6) \<and>
     space_step E k A k6 A' \<and> stacks_over (walk (ram k) c) s3 s0 (walk (ram k6) c) \<and> unmapped_at (ram k) d temp (ram k6) \<and>
     (\<forall>e \<in> E. e \<noteq> c \<and> e \<noteq> d \<longrightarrow> walk (ram k6) e = walk (ram k) e) \<and> stack_words (ram k6) s0 = rev ws \<and>
     (\<forall>i < 4096. ram k6 (s3 + of_nat i) = ram k (ps + of_nat i)) \<and>
     (\<forall>b. base b \<notin> paging_frames (ram k) E A \<and> base b \<noteq> s3 \<and> base b \<noteq> s0 \<longrightarrow> ram k6 b = ram k b)"
proof -
  obtain e1 k1 e2 k2 e3 k3 A3 where code: "mm_page_map STACK_3_VIRTUAL c s3 0 USR_STD_ATTR k = Some (e1, k1)"
      "mm_page_map STACK_0_VIRTUAL c s0 0 (MM_ATTR_RW OR MM_ATTR_US_S) k1 = Some (e2, k2)"
      "mm_page_map temp d s0 0 (MM_ATTR_RW OR MM_ATTR_US_S) k2 = Some (e3, k3)"
    and m3: "space_step E k A k3 A3" "stacks_over (walk (ram k) c) s3 s0 (walk (ram k3) c)" "mapped_at (ram k) d temp s0 (ram k3)"
      "\<forall>e \<in> E. e \<noteq> c \<and> e \<noteq> d \<longrightarrow> walk (ram k3) e = walk (ram k) e" "has_table (ram k3) d 1023"
      "\<forall>b. base b \<notin> kernel_frames \<longrightarrow> ram k3 b = ram k b"
      "\<forall>b. base b \<notin> paging_frames (ram k) E A \<longrightarrow> ram k3 b = ram k b"
    using map_stacks [OF sp pool c d _ _ s(1,2)] tb by blast
  note p3 = space_stepD [OF m3(1)]
  have cr3: "reg_cr3 k3 = d" using p3(6) cr by simp
  have "window k3 temp s0" using window_temp [OF p3(4) _ _ s(2,4)] m3(3) cr3 d(1) by simp
  from push_context [OF this ws] obtain m4 where m4: "vpush (temp + 0xffC) ws k3 = Some (k3\<lparr>ram := m4\<rparr>)"
    "stack_words m4 s0 = rev ws" "\<forall>b. base b \<noteq> s0 \<longrightarrow> m4 b = ram k3 b" by blast
  have "m4 b = ram k3 b" if "base b \<in> kernel_frames" for b using m4(3) s(4) that by auto
  note da = spaces_data [OF p3(4), of m4, OF this]
  let ?k4 = "k3\<lparr>ram := m4\<rparr>"
  have sp4: "spaces (ram ?k4) E A3" "kernel_pool ?k4 A3" "has_table (ram ?k4) d (pdi temp)"
    using da(1,4) p3(2) m3(5) d(1) stack_pages by simp_all
  have src4: "walk (ram ?k4) d (STACK_3_VIRTUAL + of_nat i) = Some (ps + of_nat i)" if "i < 4096" for i
    using src that m3(3) da(2) [of d] d(1) stack_pages temp_facts that by (simp add: mapped_at_def)
  obtain k5 A5 where m5: "mm_copy_vf STACK_3_VIRTUAL s3 PAGE_SIZE ?k4 = Some (0, k5)" "space_step E ?k4 A3 k5 A5"
    "unmapped_at m4 d temp (ram k5)" "\<forall>e \<in> E. e \<noteq> d \<longrightarrow> walk (ram k5) e = walk m4 e"
    "\<forall>i < 4096. ram k5 (s3 + of_nat i) = m4 (ps + of_nat i)" "has_table (ram k5) d (pdi temp)"
    "\<forall>b. base b \<notin> kernel_frames \<and> base b \<noteq> s3 \<longrightarrow> ram k5 b = m4 b"
    "\<forall>b. base b \<notin> paging_frames m4 E A3 \<and> base b \<noteq> s3 \<longrightarrow> ram k5 b = m4 b"
    using spaces_copy [OF sp4(1,2) d(1) _ _ stack_pages(1,8) src4 ps(1,2) s(1,3) ps(3)] cr3 sp4(3) by auto
  note p5 = space_stepD [OF m5(2)]
  obtain r m6 where m6: "mm_page_free temp d k5 = (r, k5\<lparr>ram := m6\<rparr>)" "spaces m6 E A5" "unmapped_at (ram k5) d temp m6"
    "\<forall>e \<in> E. e \<noteq> d \<longrightarrow> walk m6 e = walk (ram k5) e" "\<forall>e \<in> E. \<forall>i. index_ok i \<longrightarrow> has_table m6 e i = has_table (ram k5) e i"
    "\<forall>b. base b \<notin> kernel_frames \<longrightarrow> m6 b = ram k5 b"
    "\<forall>b. base b \<notin> paging_frames (ram k5) E A5 \<longrightarrow> m6 b = ram k5 b" "paging_frames m6 E A5 \<subseteq> paging_frames (ram k5) E A5"
    using spaces_free [OF p5(4) d(1) m5(6)] by blast
  let ?k6 = "k5\<lparr>ram := m6\<rparr>"
  have "space_step E k3 A3 ?k4 A3" using da(1,4,5) p3(2) by (auto simp: space_step_def)
  moreover have "space_step E k5 A5 ?k6 A5" using m6(2,5,8) p5(2) by (auto simp: space_step_def)
  ultimately have st: "space_step E k A ?k6 A5" using m3(1) m5(2) space_step_trans by metis
  have sm: "stacks_over (walk (ram k) c) s3 s0 (walk (ram ?k6) c)"
    using m3(2) da(2) m5(4) m6(4) c d(2) by (simp add: stacks_over_def)
  have um: "unmapped_at (ram k) d temp (ram ?k6)"
    using m3(3) da(2) [of d] m5(3) m6(3) d(1) by (auto simp: mapped_at_def unmapped_at_def)
  have ow: "\<forall>e \<in> E. e \<noteq> c \<and> e \<noteq> d \<longrightarrow> walk (ram ?k6) e = walk (ram k) e"
    using m3(4) da(2) m5(4) m6(4) by simp
  have sw: "stack_words (ram ?k6) s0 = rev ws"
    using stack_words_cong [OF s(2), of m6 m4] m4(2) m5(7) m6(6) s by simp
  have cp: "\<forall>i < 4096. ram ?k6 (s3 + of_nat i) = ram k (ps + of_nat i)"
    using m3(6) m4(3) m5(5) m6(6) s ps by simp
  have fr: "ram ?k6 b = ram k b" if b: "base b \<notin> paging_frames (ram k) E A" "base b \<noteq> s3" "base b \<noteq> s0" for b
  proof -
    have "base b \<notin> paging_frames m4 E A3" using space_step_frame [OF m3(1) b(1)] da(5) by simp
    moreover from this have "base b \<notin> paging_frames (ram k5) E A5" using space_step_frame [OF m5(2), of b] by simp
    ultimately show ?thesis using b m3(7) m4(3) m5(8) m6(7) by simp
  qed
  then have fr: "\<forall>b. base b \<notin> paging_frames (ram k) E A \<and> base b \<noteq> s3 \<and> base b \<noteq> s0 \<longrightarrow> ram ?k6 b = ram k b" by blast
  show ?thesis
    by (rule exI [of _ e1], rule exI [of _ k1], rule exI [of _ e2], rule exI [of _ k2], rule exI [of _ e3], rule exI [of _ k3],
        rule exI [of _ ?k4], rule exI [of _ k5], rule exI [of _ r], rule exI [of _ ?k6], rule exI [of _ A5])
      (intro conjI code m4(1) m5(1) m6(1) st sm um ow sw cp fr mem_step_fields(11) [OF p3(1)])
qed

section \<open>Pids, descriptors, run queue\<close>

lemma new_process_ok:
  assumes pp: "pid_pool k P" "P \<noteq> {}" and l: "length (task_table k) = MAX_PID"
  shows "\<exists>p n. new_process dir k = Some (p, k\<lparr>next_free := n,
       task_table := upd (task_table k) p (\<lambda>t. t\<lparr>cr3 := dir, esp0 := STACK_0_VIRTUAL + 0xFD8\<rparr>)\<rparr>) \<and>
     p \<in> P \<and> pid_pool (k\<lparr>next_free := n\<rparr>) (P - {p})"
proof -
  obtain p k' where p: "get_new_pid k = Some (p, k')" "p \<in> P" "pid_pool k' (P - {p})"
    using get_new_pid_pool [OF pp] by blast
  then obtain n where n: "k' = k\<lparr>next_free := n\<rparr>" by (auto simp: get_new_pid_def split: Option.bind_splits)
  have i: "inb (task_table k) p" using p(2) pid_pool_sub [OF pp(1)] l by (auto simp: user_pids_def inb_def)
  have "upd (upd (task_table k) p (\<lambda>t. t\<lparr>cr3 := dir\<rparr>)) p (\<lambda>t. t\<lparr>esp0 := e\<rparr>) =
      upd (task_table k) p (\<lambda>t. t\<lparr>cr3 := dir, esp0 := e\<rparr>)" for e
    using i by (simp add: upd_def inb_def)
  then show ?thesis using p i unfolding n
    by (intro exI [of _ p] exI [of _ n]) (simp add: new_process_def amod_in inb_upd)
qed

lemma mem_step_dev: "mem_step k k' \<Longrightarrow> char_devices k' = char_devices k \<and> objs k' = objs k"
  unfolding mem_step_def by (erule ssubst) simp

lemma fds_ok_cong:
  "fds_ok C k \<Longrightarrow> char_devices k' = char_devices k \<Longrightarrow> objs k' = objs k \<Longrightarrow> cur_pid k' = cur_pid k \<Longrightarrow> fds_ok C k'"
  by (simp add: fds_ok_def counted_def)

lemma walk_mapped_page:
  assumes d: "page_aligned d" and t: "has_table m d (pdi v)" and v: "page_aligned v" and w: "walk m d v = Some p"
  shows "page_aligned p" and "i < 4096 \<Longrightarrow> walk m d (v + of_nat i) = Some (p + of_nat i)"
proof -
  let ?e = "rd32 m (entry (table m d (pdi v)) (pti v))"
  have z: "v AND 0xFFF = 0" using offset_in_page [OF v, of 0] by simp
  have p: "is_present ?e" "p = base ?e"
    using w t z by (auto simp: walk_eq [OF d] has_table_def Let_def split: if_splits)
  show "page_aligned p" using p(2) by simp
  show "i < 4096 \<Longrightarrow> walk m d (v + of_nat i) = Some (p + of_nat i)"
    using walk_page [OF d t _ refl p(1), of i] v p(2) by simp
qed

lemma dev_step_fields:
  assumes "dev_step k k'"
  shows "ram k' = ram k" "task_table k' = task_table k" "sch k' = sch k" "usr_pf_info k' = usr_pf_info k"
    "usr_pf_limit k' = usr_pf_limit k" "kernel_pf_info k' = kernel_pf_info k" "free_pids k' = free_pids k"
    "next_free k' = next_free k" "tasks_running k' = tasks_running k" "reg_cr3 k' = reg_cr3 k"
  by (subst assms [unfolded dev_step_def], simp)+

lemma usr_pool_cong: "usr_pool n k B \<Longrightarrow> usr_pf_info k' = usr_pf_info k \<Longrightarrow> usr_pf_limit k' = usr_pf_limit k \<Longrightarrow> usr_pool n k' B"
  by (simp add: usr_pool_def)

lemma kernel_pool_cong: "kernel_pool k A \<Longrightarrow> kernel_pf_info k' = kernel_pf_info k \<Longrightarrow> kernel_pool k' A"
  by (simp add: kernel_pool_def)

lemma pid_pool_cong: "pid_pool k P \<Longrightarrow> free_pids k' = free_pids k \<Longrightarrow> next_free k' = next_free k \<Longrightarrow> pid_pool k' P"
  by (simp add: pid_pool_def)

text \<open>Two frames for the stacks.\<close>

lemma two_frames:
  assumes "usr_pool n k B" and "2 \<le> card B"
  shows "\<exists>s3 k1 s0 f. mm_mem_alloc k = Some (s3, k1) \<and> mm_mem_alloc k1 = Some (s0, k\<lparr>usr_pf_info := f\<rparr>) \<and>
     s3 \<in> B \<and> s0 \<in> B \<and> s3 \<noteq> s0 \<and> usr_pool n (k\<lparr>usr_pf_info := f\<rparr>) (B - {s3, s0}) \<and>
     page_aligned s3 \<and> page_aligned s0 \<and> s3 \<notin> kernel_frames \<and> s0 \<notin> kernel_frames"
proof -
  have "B \<noteq> {}" using assms(2) by auto
  then obtain s3 f1 where s3: "mm_mem_alloc k = Some (s3, k\<lparr>usr_pf_info := f1\<rparr>)" "s3 \<in> B"
    "usr_pool n (k\<lparr>usr_pf_info := f1\<rparr>) (B - {s3})" "page_aligned s3" "s3 \<notin> kernel_frames"
    using usr_alloc_spec [OF assms(1)] by blast
  have "B - {s3} \<noteq> {}"
  proof
    assume "B - {s3} = {}"
    then have "card B \<le> card {s3}" by (intro card_mono) auto
    then show False using assms(2) by simp
  qed
  then obtain s0 f2 where s0: "mm_mem_alloc (k\<lparr>usr_pf_info := f1\<rparr>) = Some (s0, k\<lparr>usr_pf_info := f2\<rparr>)" "s0 \<in> B - {s3}"
    "usr_pool n (k\<lparr>usr_pf_info := f2\<rparr>) (B - {s3} - {s0})" "page_aligned s0" "s0 \<notin> kernel_frames"
    using usr_alloc_spec [OF s3(3)] by auto
  have "B - {s3, s0} = B - {s3} - {s0}" by auto
  then have "usr_pool n (k\<lparr>usr_pf_info := f2\<rparr>) (B - {s3, s0})" by (rule ssubst) (rule s0(3))
  moreover have "s0 \<in> B" "s3 \<noteq> s0" using s0(2) by auto
  ultimately show ?thesis
    by (intro exI [of _ s3] exI [of _ "k\<lparr>usr_pf_info := f1\<rparr>"] exI [of _ s0] exI [of _ f2] conjI)
      (assumption | rule s3 s0)+
qed

section \<open>Fork\<close>

text \<open>\<open>sys_fork\<close> up to the release of the temporary page.\<close>

definition fork_space :: "u32 \<Rightarrow> u32 \<Rightarrow> u32 \<Rightarrow> 'a mmk_scheme \<Rightarrow> (u32 \<times> u32 \<times> u32 \<times> 'a mmk_scheme) option" where
  "fork_space fork_ret org_eip org_esp k = do {
     let old_cr3 = reg_cr3 k;
     (new_cr3, k) \<leftarrow> mm_dir_fork old_cr3 k;
     (task_stack3, k) \<leftarrow> mm_mem_alloc k;
     (task_stack0, k) \<leftarrow> mm_mem_alloc k;
     (_, k) \<leftarrow> mm_page_map STACK_3_VIRTUAL new_cr3 task_stack3 0 USR_STD_ATTR k;
     (_, k) \<leftarrow> mm_page_map STACK_0_VIRTUAL new_cr3 task_stack0 0 (MM_ATTR_RW OR MM_ATTR_US_S) k;
     (_, k) \<leftarrow> mm_page_map KERNEL_TEMP_PAGE old_cr3 task_stack0 0 (MM_ATTR_RW OR MM_ATTR_US_S) k;
     k \<leftarrow> vpush (KERNEL_TEMP_PAGE + 0xffC)
            [0x23, org_esp, 0x202, 0x1B, org_eip, fork_ret, reg_esp k, 0, 0, 0] k;
     (_, k) \<leftarrow> mm_copy_vf STACK_3_VIRTUAL task_stack3 PAGE_SIZE k;
     let (_, k) = mm_page_free KERNEL_TEMP_PAGE old_cr3 k;
     Some (new_cr3, task_stack3, task_stack0, k) }"

lemma sys_fork_parts:
  assumes "fork_space fork_ret org_eip org_esp k = Some (c, s3, s0, k1)" "c \<noteq> 0"
  shows "sys_fork fork_ret org_eip org_esp k = do {
       (requested_pid, k) \<leftarrow> new_process c k1;
       k \<leftarrow> device_fork_descriptors (cur_pid k) requested_pid k;
       k \<leftarrow> start_process requested_pid k;
       Some (requested_pid, k) }"
  using assms by (auto simp: fork_space_def sys_fork_def Let_def split_def bind_eq_Some_conv simp del: vpush.simps)

lemma fork_space_ok:
  assumes sp: "spaces (ram k) D A" and pool: "kernel_pool k A" and d: "reg_cr3 k = d" "d \<in> D" "pde (ram k) d 0 = 0x81"
    and small: "\<forall>j. index_ok j \<and> j \<noteq> 0 \<and> is_present (pde (ram k) d j) \<longrightarrow> has_table (ram k) d j"
    and frames: "card (todo (ram k) d 1) < card A" "usr_pool n k B" "2 \<le> card B"
    and stack: "walk (ram k) d STACK_3_VIRTUAL = Some ps" "ps \<notin> kernel_frames" "ps \<notin> B"
  shows "\<exists>c s3 s0 fi k' A'. fork_space fork_ret eip esp k = Some (c, s3, s0, k') \<and> mem_step (k\<lparr>usr_pf_info := fi\<rparr>) k' \<and>
     c \<noteq> 0 \<and> c \<notin> D \<and> spaces (ram k') (insert c D) A' \<and> kernel_pool k' A' \<and> A' \<subseteq> A \<and>
     s3 \<in> B \<and> s0 \<in> B \<and> s3 \<noteq> s0 \<and> usr_pool n k' (B - {s3, s0}) \<and>
     stacks_over (walk (ram k) d) s3 s0 (walk (ram k') c) \<and> unmapped_at (ram k) d temp (ram k') \<and>
     (\<forall>e \<in> D. e \<noteq> d \<longrightarrow> walk (ram k') e = walk (ram k) e) \<and>
     (\<forall>i < 4096. ram k' (s3 + of_nat i) = ram k (ps + of_nat i)) \<and>
     stack_words (ram k') s0 = [0, 0, 0, reg_esp k, fork_ret, eip, 0x1B, 0x202, esp, 0x23] \<and>
     (\<forall>b. base b \<notin> paging_frames (ram k) D A \<and> base b \<noteq> s3 \<and> base b \<noteq> s0 \<longrightarrow> ram k' b = ram k b)"
proof -
  have da: "page_aligned d" using dir_wf_aligned(1) [OF spacesD(1) [OF sp d(2)]] .
  have tb: "has_table (ram k) d 1023"
  proof -
    have "is_present (pde (ram k) d 1023)" using stack(1) stack_pages by (auto simp: walk_eq [OF da] split: if_splits)
    then show ?thesis using small stack_pages(11) by simp
  qed
  have tb': "has_table (ram k) d (pdi STACK_3_VIRTUAL)" using tb stack_pages by simp
  note wp = walk_mapped_page [OF da _ stack_pages(1) stack(1)]
  obtain c k1 A1 where f: "mm_dir_fork d k = Some (c, k1)" "c \<in> A" "c \<noteq> 0" "space_step D k A k1 A1"
    "spaces (ram k1) (insert c D) A1" "walk (ram k1) c = walk (ram k) d" "\<forall>e \<in> D. walk (ram k1) e = walk (ram k) e"
    "\<forall>i. index_ok i \<and> i \<noteq> 0 \<and> has_table (ram k) d i \<longrightarrow> has_table (ram k1) c i"
    "\<forall>b. base b \<notin> kernel_frames \<longrightarrow> ram k1 b = ram k b"
    "\<forall>b. base b \<notin> paging_frames (ram k) D A \<longrightarrow> ram k1 b = ram k b"
    "paging_frames (ram k1) (insert c D) A1 \<subseteq> paging_frames (ram k) D A"
    using spaces_fork [OF sp pool d(2,3) small frames(1)] by blast
  note p1 = space_stepD [OF f(4)] note m1 = mem_step_fields [OF p1(1)]
  have cD: "c \<notin> D" using dir_wf_aligned(2) [OF spacesD(1) [OF sp]] f(2) by blast
  have "usr_pool n k1 B" using usr_pool_cong [OF frames(2) m1(3,4)] .
  from two_frames [OF this frames(3)] obtain s3 k2 s0 fi where s: "mm_mem_alloc k1 = Some (s3, k2)"
    "mm_mem_alloc k2 = Some (s0, k1\<lparr>usr_pf_info := fi\<rparr>)" "s3 \<in> B" "s0 \<in> B" "s3 \<noteq> s0"
    "usr_pool n (k1\<lparr>usr_pf_info := fi\<rparr>) (B - {s3, s0})" "page_aligned s3" "page_aligned s0"
    "s3 \<notin> kernel_frames" "s0 \<notin> kernel_frames" by blast
  let ?k2 = "k1\<lparr>usr_pf_info := fi\<rparr>" and ?E = "insert c D"
  let ?ws = "[0x23, esp, 0x202, 0x1B, eip, fork_ret, reg_esp ?k2, 0, 0, 0]"
  have sp2: "spaces (ram ?k2) ?E A1" "kernel_pool ?k2 A1" "c \<in> ?E" "d \<in> ?E" "c \<noteq> d" "reg_cr3 ?k2 = d"
    using f(5) p1(2,6) d cD by (auto intro: kernel_pool_cong)
  have tb2: "has_table (ram ?k2) c 1023" "has_table (ram ?k2) d 1023"
    using f(8) tb p1(5) [OF d(2) _ tb] stack_pages(11) by simp_all
  have src: "\<forall>i < 4096. walk (ram ?k2) d (STACK_3_VIRTUAL + of_nat i) = Some (ps + of_nat i)"
    using wp(2) [OF tb'] f(7) d(2) by simp
  have ne: "ps \<noteq> s3" "ps \<noteq> s0" "length ?ws = 10" using s(3,4) stack(3) by auto
  obtain e1 k1' e2 k2' e3 k3 k4 k5 r k6 A' where code: "mm_page_map STACK_3_VIRTUAL c s3 0 USR_STD_ATTR ?k2 = Some (e1, k1')"
     "mm_page_map STACK_0_VIRTUAL c s0 0 (MM_ATTR_RW OR MM_ATTR_US_S) k1' = Some (e2, k2')"
     "mm_page_map temp d s0 0 (MM_ATTR_RW OR MM_ATTR_US_S) k2' = Some (e3, k3)" "reg_esp k3 = reg_esp ?k2"
     "vpush (temp + 0xffC) ?ws k3 = Some k4" "mm_copy_vf STACK_3_VIRTUAL s3 PAGE_SIZE k4 = Some (0, k5)"
     "mm_page_free temp d k5 = (r, k6)"
    and m6: "space_step ?E ?k2 A1 k6 A'" "stacks_over (walk (ram ?k2) c) s3 s0 (walk (ram k6) c)" "unmapped_at (ram ?k2) d temp (ram k6)"
     "\<forall>e \<in> ?E. e \<noteq> c \<and> e \<noteq> d \<longrightarrow> walk (ram k6) e = walk (ram ?k2) e" "stack_words (ram k6) s0 = rev ?ws"
     "\<forall>i < 4096. ram k6 (s3 + of_nat i) = ram ?k2 (ps + of_nat i)"
     "\<forall>b. base b \<notin> paging_frames (ram ?k2) ?E A1 \<and> base b \<noteq> s3 \<and> base b \<noteq> s0 \<longrightarrow> ram k6 b = ram ?k2 b"
    using fork_memory [OF sp2(1-5) tb2 sp2(6) s(7-10,5) src wp(1) [OF tb'] stack(2) ne] by (elim exE conjE) (rule that)
  note p6 = space_stepD [OF m6(1)] note m7 = mem_step_fields [OF p6(1)]
  have fs: "fork_space fork_ret eip esp k = Some (c, s3, s0, k6)"
    using f(1) s(1,2) code d(1) by (simp add: fork_space_def del: vpush.simps)
  have ms: "mem_step (k\<lparr>usr_pf_info := fi\<rparr>) k6"
  proof -
    have "mem_step (k\<lparr>usr_pf_info := fi\<rparr>) ?k2" unfolding mem_step_def by (subst p1(1) [unfolded mem_step_def]) simp
    then show ?thesis by (rule mem_step_trans) (rule p6(1))
  qed
  have up: "usr_pool n k6 (B - {s3, s0})" using usr_pool_cong [OF s(6) m7(3,4)] .
  have so: "stacks_over (walk (ram k) d) s3 s0 (walk (ram k6) c)" using m6(2) f(6) by simp
  have um: "unmapped_at (ram k) d temp (ram k6)" using m6(3) f(7) d(2) by (simp add: unmapped_at_def)
  have ow: "\<forall>e \<in> D. e \<noteq> d \<longrightarrow> walk (ram k6) e = walk (ram k) e" using m6(4) f(7) cD by auto
  have cp: "\<forall>i < 4096. ram k6 (s3 + of_nat i) = ram k (ps + of_nat i)"
    using m6(6) f(9) stack(2) wp(1) [OF tb'] by simp
  have sw: "stack_words (ram k6) s0 = [0, 0, 0, reg_esp k, fork_ret, eip, 0x1B, 0x202, esp, 0x23]" using m6(5) m1(11) by simp
  have fr: "\<forall>b. base b \<notin> paging_frames (ram k) D A \<and> base b \<noteq> s3 \<and> base b \<noteq> s0 \<longrightarrow> ram k6 b = ram k b"
    using m6(7) f(10,11) by (simp add: subset_iff) metis
  have sub: "A' \<subseteq> A" using p6(3) p1(3) by blast
  show ?thesis
    by (rule exI [of _ c], rule exI [of _ s3], rule exI [of _ s0], rule exI [of _ fi], rule exI [of _ k6], rule exI [of _ A'])
      (intro conjI fs ms f(3) cD p6(2,4) sub s(3-5) up so um ow cp sw fr)
qed

text \<open>The rest of \<open>sys_fork\<close>: the pid, the descriptors and the run queue.\<close>

lemma child_started:
  assumes pids: "pid_pool k P" "P \<noteq> {}" "cur_pid k \<notin> P" "length (task_table k) = MAX_PID"
    and fds: "fds_ok C k" "\<forall>p \<in> P. \<forall>x \<in> set (char_devices k ! unat p). x = 0"
    and run: "sched_rel (sch k) a" "busy a" "P \<inter> set (runq a) = {}"
  shows "\<exists>p k'. do { (p, k) \<leftarrow> new_process c k; k \<leftarrow> device_fork_descriptors (cur_pid k) p k;
       k \<leftarrow> start_process p k; Some (p, k) } = Some (p, k') \<and> p \<in> P \<and> pid_pool k' (P - {p}) \<and>
     task_table k' = upd (task_table k) p (\<lambda>t. t\<lparr>cr3 := c, esp0 := STACK_0_VIRTUAL + 0xFD8\<rparr>) \<and>
     char_devices k' = (char_devices k)[unat p := char_devices k ! unat (cur_pid k)] \<and> fds_ok C k' \<and>
     sched_rel (sch k') (a_load p a) \<and> tasks_running k' = tasks_running k + 1 \<and> cur_pid k' = cur_pid k \<and>
     ram k' = ram k \<and> usr_pf_info k' = usr_pf_info k \<and> usr_pf_limit k' = usr_pf_limit k \<and> kernel_pf_info k' = kernel_pf_info k"
proof -
  let ?t = "\<lambda>t. t\<lparr>cr3 := c, esp0 := STACK_0_VIRTUAL + 0xFD8\<rparr>"
  obtain p n where p: "new_process c k = Some (p, k\<lparr>next_free := n, task_table := upd (task_table k) p ?t\<rparr>)"
    "p \<in> P" "pid_pool (k\<lparr>next_free := n\<rparr>) (P - {p})"
    using new_process_ok [OF pids(1,2,4)] by blast
  let ?k1 = "k\<lparr>next_free := n, task_table := upd (task_table k) p ?t\<rparr>"
  have u: "unat p < MAX_PID" "p \<noteq> 0" "p \<noteq> cur_pid k" using pid_pool_sub [OF pids(1)] p(2) pids(3) by (auto simp: user_pids_def)
  have "fds_ok C ?k1" by (rule fds_ok_cong [OF fds(1)]) simp_all
  from fork_counted [OF this, of p] u p(2) fds(2) obtain k2 where k2: "device_fork_descriptors (cur_pid k) p ?k1 = Some k2"
    "fds_ok C k2" "cur_pid k2 = cur_pid k" "char_devices k2 = (char_devices k)[unat p := char_devices k ! unat (cur_pid k)]"
    by auto
  note df = dev_step_fields [OF device_fork_frame [OF k2(1)]]
  have "p \<notin> set (runq a)" "unat p < 32" using run(3) p(2) u(1) by (auto simp: MAX_PID_def)
  then obtain s where s: "sched_load p (sch k) = Some s" "sched_rel s (a_load p a)"
    using load_refines [OF run(1) _ u(2)] run(2) by blast
  let ?k = "k2\<lparr>sch := s, tasks_running := tasks_running k2 + 1\<rparr>"
  have "pid_pool ?k (P - {p})" by (rule pid_pool_cong [OF p(3)]) (simp_all add: df)
  moreover have "fds_ok C ?k" by (rule fds_ok_cong [OF k2(2)]) simp_all
  ultimately show ?thesis using p(1,2) k2 s df
    by (intro exI [of _ p] exI [of _ ?k]) (simp add: start_process_def)
qed


section \<open>A task that forks\<close>

text \<open>Task 1 of two, with a stack of ring 3 and an open console.\<close>

definition parent_task :: "(u32 \<times> u32 \<times> conk) option" where
  "parent_task = do {
     (d, k) \<leftarrow> mm_dir_new (with_con kern_two_tasks 0x80000 new_console);
     (p, k) \<leftarrow> mm_mem_alloc k;
     (_, k) \<leftarrow> mm_page_map STACK_3_VIRTUAL d p 0 USR_STD_ATTR k;
     (_, k) \<leftarrow> device_descriptor 0x80000 k;
     Some (d, p, k\<lparr>reg_cr3 := d\<rparr>) }"

lemma with_con_pools:
  "kernel_pool (with_con k a c) kernel_frames" "usr_pool 32 (with_con k a c) (usr_frames 32)"
  by (auto simp: with_con_def intro: kernel_pool_fresh usr_pool_fresh)

text \<open>A new directory with one page mapped in its last table.\<close>

lemma stack_task:
  assumes pool: "kernel_pool k kernel_frames" and up: "usr_pool n k (usr_frames n)" "usr_frames n \<noteq> {}"
  shows "\<exists>d k1 p k2 e k3 fi A. mm_dir_new k = Some (d, k1) \<and> mm_mem_alloc k1 = Some (p, k2) \<and>
     mm_page_map STACK_3_VIRTUAL d p 0 USR_STD_ATTR k2 = Some (e, k3) \<and> mem_step (k\<lparr>usr_pf_info := fi\<rparr>) k3 \<and>
     dir_wf (ram k3) d A \<and> kernel_pool k3 A \<and> 766 \<le> card A \<and> pde (ram k3) d 0 = 0x81 \<and>
     (\<forall>i. index_ok i \<and> i \<noteq> 0 \<and> i \<noteq> 1023 \<longrightarrow> pde (ram k3) d i = 0) \<and> has_table (ram k3) d 1023 \<and>
     walk (ram k3) d STACK_3_VIRTUAL = Some p \<and> p \<in> usr_frames n \<and> usr_pool n k3 (usr_frames n - {p}) \<and> p \<notin> kernel_frames"
proof -
  have "kernel_frames \<noteq> {}" using card_kernel_frames by auto
  then obtain d k1 where d: "mm_dir_new k = Some (d, k1)" "d \<in> kernel_frames" "mem_step k k1"
    "kernel_pool k1 (kernel_frames - {d})" "dir_wf (ram k1) d (kernel_frames - {d})" "pde (ram k1) d 0 = 0x81"
    "\<forall>i. index_ok i \<and> i \<noteq> 0 \<longrightarrow> pde (ram k1) d i = 0"
    using dir_new_ok [OF pool] by blast
  let ?A = "kernel_frames - {d}"
  have c: "card ?A = 767" using card_kernel_frames d(2) by simp
  have "usr_pool n k1 (usr_frames n)" by (rule usr_pool_cong [OF up(1) mem_step_fields(3,4) [OF d(3)]])
  then obtain p fi where p: "mm_mem_alloc k1 = Some (p, k1\<lparr>usr_pf_info := fi\<rparr>)" "p \<in> usr_frames n"
    "usr_pool n (k1\<lparr>usr_pf_info := fi\<rparr>) (usr_frames n - {p})" "page_aligned p" "p \<notin> kernel_frames"
    using usr_alloc_spec [OF _ up(2), of n k1] by blast
  let ?k2 = "k1\<lparr>usr_pf_info := fi\<rparr>"
  have "?A \<noteq> {}" using c by (metis card.empty zero_neq_numeral)
  moreover have "\<not> is_present (pde (ram ?k2) d 1023)" using d(7) stack_pages(11) by (simp add: is_present_def)
  moreover have "dir_wf (ram ?k2) d ?A" "kernel_pool ?k2 ?A" using d(4,5) by (simp_all add: kernel_pool_def)
  ultimately obtain k3 A where m: "mm_page_map STACK_3_VIRTUAL d p 0 USR_STD_ATTR ?k2 = Some (entry (table (ram k3) d 1023) (pti STACK_3_VIRTUAL), k3)"
    "mem_step ?k2 k3" "kernel_pool k3 A" "dir_wf (ram k3) d A" "card ?A \<le> Suc (card A)" "mapped_at (ram ?k2) d STACK_3_VIRTUAL p (ram k3)"
    "has_table (ram k3) d 1023" "\<forall>i. index_ok i \<and> (i \<noteq> 1023 \<or> has_table (ram ?k2) d 1023) \<longrightarrow> pde (ram k3) d i = pde (ram ?k2) d i"
    using page_map_ok [of ?k2 d ?A STACK_3_VIRTUAL USR_STD_ATTR p] std_attr unfolding stack_pages by metis
  have z: "STACK_3_VIRTUAL AND 0xFFF = 0" by (simp add: STACK_3_VIRTUAL_def)
  have "mem_step (k\<lparr>usr_pf_info := fi\<rparr>) ?k2" unfolding mem_step_def by (subst d(3) [unfolded mem_step_def]) simp
  from mem_step_trans [OF this m(2)] have ms: "mem_step (k\<lparr>usr_pf_info := fi\<rparr>) k3" .
  have up3: "usr_pool n k3 (usr_frames n - {p})" by (rule usr_pool_cong [OF p(3) mem_step_fields(3,4) [OF m(2)]])
  have w: "walk (ram k3) d STACK_3_VIRTUAL = Some p" using m(6) p(4) z by (simp add: mapped_at_def)
  have "pde (ram k3) d 0 = 0x81" using m(8) d(6) by (simp add: index_ok_def)
  moreover have "\<forall>i. index_ok i \<and> i \<noteq> 0 \<and> i \<noteq> 1023 \<longrightarrow> pde (ram k3) d i = 0" using m(8) d(7) by simp
  moreover have "766 \<le> card A" using m(5) c by simp
  ultimately show ?thesis using d(1) p(1,2,5) m(1,3,4,7) ms up3 w by blast
qed

lemma small_tables:
  assumes "\<forall>i. index_ok i \<and> i \<noteq> 0 \<and> i \<noteq> 1023 \<longrightarrow> pde m d i = 0" "has_table m d 1023"
  shows "\<forall>j. index_ok j \<and> j \<noteq> 0 \<and> is_present (pde m d j) \<longrightarrow> has_table m d j" and "card (todo m d 1) \<le> 1"
proof -
  have z: "j = 1023" if "index_ok j" "j \<noteq> 0" "is_present (pde m d j)" for j
    using assms(1) that by (force simp: is_present_def)
  then show "\<forall>j. index_ok j \<and> j \<noteq> 0 \<and> is_present (pde m d j) \<longrightarrow> has_table m d j" using assms(2) by blast
  have "todo m d 1 \<subseteq> {1023}"
  proof
    fix j assume "j \<in> todo m d 1"
    then have j: "1 \<le> j" "j < 1024" "is_present (pde m d (of_nat j))" by (auto simp: todo_def has_table_def)
    have "of_nat j \<noteq> (0 :: u32)" using index_of_nat(2) [OF j(2)] j(1) by auto
    then have "of_nat j = (1023 :: u32)" using z index_of_nat(1) [OF j(2)] j(3) by blast
    then have "unat (of_nat j :: u32) = 1023" by simp
    then show "j \<in> {1023}" using index_of_nat(2) [OF j(2)] by simp
  qed
  then have "card (todo m d 1) \<le> card {1023 :: nat}" by (intro card_mono) auto
  then show "card (todo m d 1) \<le> 1" by simp
qed

lemma two_tasks_pids: "pid_pool kern_two_tasks {3}"
  by (simp add: pid_pool_def kern_two_tasks_def MAX_PID_def) (intro exI [of _ "[3]"], simp add: inb_def rd_def)

text \<open>The state of the example, as the hypotheses need it.\<close>

lemma parent_task_facts:
  obtains d p k A where "parent_task = Some (d, p, k)" "spaces (ram k) {d} A" "kernel_pool k A" "reg_cr3 k = d" "d \<noteq> 0"
    "pde (ram k) d 0 = 0x81" "\<forall>j. index_ok j \<and> j \<noteq> 0 \<and> is_present (pde (ram k) d j) \<longrightarrow> has_table (ram k) d j"
    "card (todo (ram k) d 1) < card A" "usr_pool 32 k (usr_frames 32 - {p})" "2 \<le> card (usr_frames 32 - {p})"
    "walk (ram k) d STACK_3_VIRTUAL = Some p" "p \<notin> kernel_frames" "pid_pool k {3}" "cur_pid k = 1"
    "length (task_table k) = MAX_PID" "fds_ok {0x80000} k" "\<forall>x \<in> set (char_devices k ! 3). x = 0"
    "char_devices k = (replicate 32 (replicate 32 0))[1 := (replicate 32 0)[0 := 0x80000]]" "sched_rel (sch k) two_tasks"
proof -
  let ?k0 = "with_con kern_two_tasks 0x80000 new_console"
  have "usr_frames 32 \<noteq> {}" by (simp add: usr_frames_def lessThan_empty_iff)
  then obtain d k1 p k2 e k3 fi A where s: "mm_dir_new ?k0 = Some (d, k1)" "mm_mem_alloc k1 = Some (p, k2)"
     "mm_page_map STACK_3_VIRTUAL d p 0 USR_STD_ATTR k2 = Some (e, k3)" "mem_step (?k0\<lparr>usr_pf_info := fi\<rparr>) k3"
     "dir_wf (ram k3) d A" "kernel_pool k3 A" "766 \<le> card A" "pde (ram k3) d 0 = 0x81"
     "\<forall>i. index_ok i \<and> i \<noteq> 0 \<and> i \<noteq> 1023 \<longrightarrow> pde (ram k3) d i = 0" "has_table (ram k3) d 1023"
     "walk (ram k3) d STACK_3_VIRTUAL = Some p" "p \<in> usr_frames 32" "usr_pool 32 k3 (usr_frames 32 - {p})" "p \<notin> kernel_frames"
    using stack_task [OF with_con_pools] by blast
  note ms = mem_step_fields [OF s(4), simplified] mem_step_dev [OF s(4), simplified]
  let ?T = "replicate 32 (replicate 32 0) :: u32 list list"
  have k0: "char_devices ?k0 = ?T" "objs ?k0 = [0x80000 \<mapsto> Con new_console]" "cur_pid ?k0 = 1"
    by (simp_all add: with_con_def conk.defs devk.defs kern_two_tasks_def)
  have "refs ?T 0x80000 = 0" "fd_table ?T" by code_simp+
  then have "fds_ok {0x80000} ?k0" unfolding fds_ok_def counted_def k0
    by (auto simp: new_console_def MAX_PID_def MAX_FD_def)
  then have ok: "fds_ok {0x80000} k3" by (rule fds_ok_cong) (simp_all add: ms)
  have row: "char_devices k3 = ?T" "cur_pid k3 = 1" using k0 by (simp_all add: ms)
  from open_counted [OF ok, of "0x80000"] obtain fd k4 where k4: "device_descriptor 0x80000 k3 = Some (fd, k4)"
    "fds_ok {0x80000} k4" "cur_pid k4 = 1" "char_devices k4 = ?T[1 := (?T ! 1)[0 := 0x80000]]"
    unfolding row by (auto simp: MAX_FD_def)
  note df = dev_step_fields [OF device_descriptor_frame [OF k4(1)]]
  let ?k = "k4\<lparr>reg_cr3 := d\<rparr>"
  show thesis
  proof (rule that)
    show "parent_task = Some (d, p, ?k)" using s(1-3) k4(1) by (simp add: parent_task_def)
    show "spaces (ram ?k) {d} A" using s(5) by (simp add: spaces_def df)
    show "kernel_pool ?k A" by (rule kernel_pool_cong [OF s(6)]) (simp add: df)
    show "d \<noteq> 0" using kernel_frame_facts dir_wf_aligned(3) [OF s(5)] by blast
    show "\<forall>j. index_ok j \<and> j \<noteq> 0 \<and> is_present (pde (ram ?k) d j) \<longrightarrow> has_table (ram ?k) d j" "card (todo (ram ?k) d 1) < card A"
      using small_tables [OF s(9,10)] s(7) by (simp_all add: df)
    show "usr_pool 32 ?k (usr_frames 32 - {p})" by (rule usr_pool_cong [OF s(13)]) (simp_all add: df)
    show "2 \<le> card (usr_frames 32 - {p})" using card_usr_frames [of 32] s(12) by simp
    show "pid_pool ?k {3}" by (rule pid_pool_cong [OF two_tasks_pids]) (simp_all add: df ms with_con_def)
    show "fds_ok {0x80000} ?k" by (rule fds_ok_cong [OF k4(2)]) simp_all
    show "sched_rel (sch ?k) two_tasks" using kern_two_tasks_rel by (simp add: df ms with_con_def kern_rel_def kern_mid_def)
    show "length (task_table ?k) = MAX_PID" by (simp add: df ms with_con_def kern_two_tasks_def)
  qed (use s k4 in \<open>simp_all add: df\<close>)
qed


end
