(* ===== verification/Load_Process.thy ===== *)
theory Load_Process
  imports Fork_Process
begin

text \<open>
  \<open>loader_load\<close> of kernel/loader.c: a task is made from a file that is in the kernel's memory. As with
  \<open>sys_fork\<close>, the parts of the kernel are composed.
\<close>

section \<open>A new directory among others\<close>

lemma spaces_new:
  assumes sp: "spaces (ram k) D A" and pool: "kernel_pool k A" "A \<noteq> {}"
  shows "\<exists>c k'. mm_dir_new k = Some (c, k') \<and> c \<in> A \<and> mem_step k k' \<and> kernel_pool k' (A - {c}) \<and>
     spaces (ram k') (insert c D) (A - {c}) \<and> (\<forall>i. index_ok i \<and> i \<noteq> 0 \<longrightarrow> pde (ram k') c i = 0) \<and>
     (\<forall>w. walk (ram k') c w = (if unat w < 4194304 then Some w else None)) \<and>
     (\<forall>e \<in> D. walk (ram k') e = walk (ram k) e \<and> (\<forall>i. index_ok i \<longrightarrow> pde (ram k') e i = pde (ram k) e i)) \<and>
     (\<forall>b. base b \<notin> paging_frames (ram k) D A \<longrightarrow> ram k' b = ram k b) \<and>
     paging_frames (ram k') (insert c D) (A - {c}) \<subseteq> paging_frames (ram k) D A"
proof -
  obtain c k' where c: "mm_dir_new k = Some (c, k')" "c \<in> A" "mem_step k k'" "kernel_pool k' (A - {c})"
    "dir_wf (ram k') c (A - {c})" "pde (ram k') c 0 = 0x81" "\<forall>i. index_ok i \<and> i \<noteq> 0 \<longrightarrow> pde (ram k') c i = 0"
    "\<forall>w. walk (ram k') c w = (if unat w < 4194304 then Some w else None)" "\<forall>b. base b \<noteq> c \<longrightarrow> ram k' b = ram k b"
    using dir_new_ok [OF pool] by blast
  have s: "ram k' b = ram k b" if "e \<in> D" "base b \<in> paging_pages (ram k) e" for b e
    using spacesD(3) [OF sp that] c(2,9) by metis
  note dw = data_write [OF spacesD(1) [OF sp] s]
  have pe: "paging_pages (ram k') e = paging_pages (ram k) e" if "e \<in> D" for e using dw(3) [of e] that by auto
  have "\<not> has_table (ram k') c i" if "index_ok i" for i
    using c(6,7) that by (cases "i = 0") (auto simp: has_table_def is_present_def MM_ATTR_SZ_4M_def)
  then have pc: "paging_pages (ram k') c = {c}" by (auto simp: paging_pages_def tabled_def)
  have nc: "c \<notin> paging_pages (ram k) e" if "e \<in> D" for e using spacesD(3) [OF sp that] c(2) by blast
  have "dir_wf (ram k') e (A - {c})" if "e \<in> D" for e
    using dir_wf_mono [OF dw(1) [of e]] that by auto
  then have "spaces (ram k') (insert c D) (A - {c})"
    using c(5) sp nc unfolding spaces_def by (auto simp: pc pe)
  moreover have "walk (ram k') e = walk (ram k) e" "\<forall>i. index_ok i \<longrightarrow> pde (ram k') e i = pde (ram k) e i" if "e \<in> D" for e
    using dw(2,4) [of e] that by auto
  moreover have "ram k' b = ram k b" if "base b \<notin> paging_frames (ram k) D A" for b
    using c(2,9) that by (auto simp: paging_frames_def)
  moreover have "paging_frames (ram k') (insert c D) (A - {c}) \<subseteq> paging_frames (ram k) D A"
    using c(2) by (auto simp: paging_frames_def pc pe)
  ultimately show ?thesis using c(1-4,7,8) by (intro exI [of _ c] exI [of _ k']) auto
qed

section \<open>Copying a file through a window\<close>

lemma fill_window:
  assumes w: "window k v s" and n: "n \<le> 4096" and src: "\<And>i. i < n \<Longrightarrow> base (f + of_nat i) \<noteq> s"
  shows "\<exists>m. for_range 0 n (\<lambda>i k. vput (v + of_nat i) (ram k (f + of_nat i)) k) k = Some (k\<lparr>ram := m\<rparr>) \<and>
     (\<forall>i < n. m (s + of_nat i) = ram k (f + of_nat i)) \<and> (\<forall>i. n \<le> i \<and> i < 4096 \<longrightarrow> m (s + of_nat i) = ram k (s + of_nat i)) \<and>
     (\<forall>b. base b \<noteq> s \<longrightarrow> m b = ram k b)"
proof -
  have s: "page_aligned s" using w by (simp add: window_def)
  let ?inv = "\<lambda>j r. \<exists>m. r = k\<lparr>ram := m\<rparr> \<and> window (k\<lparr>ram := m\<rparr>) v s \<and> (\<forall>i < j. m (s + of_nat i) = ram k (f + of_nat i)) \<and>
     (\<forall>i. j \<le> i \<and> i < 4096 \<longrightarrow> m (s + of_nat i) = ram k (s + of_nat i)) \<and> (\<forall>b. base b \<noteq> s \<longrightarrow> m b = ram k b)"
  have "\<exists>r. for_range 0 n (\<lambda>i k. vput (v + of_nat i) (ram k (f + of_nat i)) k) k = Some r \<and> ?inv n r"
  proof (rule for_range_rule [where inv = ?inv])
    show "?inv 0 k" using w by (intro exI [of _ "ram k"]) simp
  next
    fix j r assume j: "j < n" and "?inv j r"
    then obtain m where m: "r = k\<lparr>ram := m\<rparr>" "window (k\<lparr>ram := m\<rparr>) v s" "\<forall>i < j. m (s + of_nat i) = ram k (f + of_nat i)"
      "\<forall>i. j \<le> i \<and> i < 4096 \<longrightarrow> m (s + of_nat i) = ram k (s + of_nat i)" "\<forall>b. base b \<noteq> s \<longrightarrow> m b = ram k b" by blast
    have i: "j < 4096" using j n by simp
    let ?m = "m(s + of_nat j := ram k (f + of_nat j))"
    have "vput (v + of_nat j) (ram r (f + of_nat j)) r = Some (k\<lparr>ram := ?m\<rparr>)" "window (k\<lparr>ram := ?m\<rparr>) v s"
      using vput_window [OF m(2) i] m(5) src [OF j] by (simp_all add: m(1))
    moreover have "?m (s + of_nat i) = ram k (f + of_nat i)" if "i < Suc j" for i
      using that m(3) j n s by (auto simp: page_plus_inject less_Suc_eq)
    moreover have "?m (s + of_nat i) = ram k (s + of_nat i)" if "Suc j \<le> i" "i < 4096" for i
      using that m(4) i page_plus_inject [OF s that(2) i] by simp
    moreover have "?m b = ram k b" if "base b \<noteq> s" for b using that m(5) s i by auto
    ultimately show "\<exists>r'. vput (v + of_nat j) (ram r (f + of_nat j)) r = Some r' \<and> ?inv (Suc j) r'" by blast
  qed simp
  then show ?thesis by blast
qed

text \<open>A file of \<open>n\<close> bytes, with a header of twenty, outside of frames that are going to be written; it does
  not change.\<close>

definition file_apart :: "u32 \<Rightarrow> nat \<Rightarrow> u32 set \<Rightarrow> bool" where
  "file_apart f n X \<longleftrightarrow> (\<forall>i < max 20 n. base (f + of_nat i) \<notin> X)"

definition same_file :: "u32 \<Rightarrow> nat \<Rightarrow> 'a mmk_scheme \<Rightarrow> 'b mmk_scheme \<Rightarrow> bool" where
  "same_file f n k k' \<longleftrightarrow> (\<forall>i < max 20 n. ram k' (f + of_nat i) = ram k (f + of_nat i))"

lemma same_file_header:
  assumes "same_file f n k k'"
  shows "pso_mem_start k' f = pso_mem_start k f" "pso_mem_end_disk k' f = pso_mem_end_disk k f" "pso_main k' f = pso_main k f"
proof -
  have b: "ram k' (f + of_nat i) = ram k (f + of_nat i)" if "i < 20" for i using assms that by (simp add: same_file_def)
  show "pso_mem_start k' f = pso_mem_start k f" using b [of 4] b [of 5] b [of 6] b [of 7]
    by (simp add: pso_mem_start_def get32_def rd32_def add.assoc)
  show "pso_mem_end_disk k' f = pso_mem_end_disk k f" using b [of 8] b [of 9] b [of 10] b [of 11]
    by (simp add: pso_mem_end_disk_def get32_def rd32_def add.assoc)
  show "pso_main k' f = pso_main k f" using b [of 16] b [of 17] b [of 18] b [of 19]
    by (simp add: pso_main_def get32_def rd32_def add.assoc)
qed

lemma same_file_frames:
  "file_apart f n X \<Longrightarrow> (\<And>b. base b \<notin> X \<Longrightarrow> ram k' b = ram k b) \<Longrightarrow> same_file f n k k'"
  by (simp add: file_apart_def same_file_def)

section \<open>The memory of the new task\<close>

text \<open>What \<open>loader_load\<close> does to memory once the directory \<open>c\<close> and the three frames are there.\<close>

lemma load_memory:
  assumes sp: "spaces (ram k) E A" and pool: "kernel_pool k A" and c: "c \<in> E" and d: "d \<in> E" "c \<noteq> d" "reg_cr3 k = d"
    and cs: "\<forall>i. index_ok i \<and> i \<noteq> 0 \<longrightarrow> pde (ram k) c i = 0"
    and ds: "has_table (ram k) d 1023 \<or> \<not> is_present (pde (ram k) d 1023)" and A: "3 \<le> card A"
    and s: "page_aligned pg" "page_aligned s3" "page_aligned s0" "pg \<notin> kernel_frames" "s0 \<notin> kernel_frames" "s0 \<noteq> pg"
    and f: "file_apart f n (insert pg (insert s0 (paging_frames (ram k) E A)))" and va: "pdi va \<noteq> 0" "base va \<noteq> STACK_3_VIRTUAL" "base va \<noteq> STACK_0_VIRTUAL"
    and n: "n \<le> 4096" and ws: "length ws = 10"
  shows "\<exists>e1 k1 e2 k2 e3 k3 k4 e5 k5 e6 k6 k7 A'. mm_page_map STACK_3_VIRTUAL c s3 0 USR_STD_ATTR k = Some (e1, k1) \<and>
     mm_page_map STACK_0_VIRTUAL c s0 0 (MM_ATTR_RW OR MM_ATTR_US_S) k1 = Some (e2, k2) \<and>
     mm_page_map temp d s0 0 (MM_ATTR_RW OR MM_ATTR_US_S) k2 = Some (e3, k3) \<and> reg_esp k3 = reg_esp k \<and> same_file f n k k3 \<and>
     vpush (temp + 0xffC) ws k3 = Some k4 \<and> same_file f n k k4 \<and> mm_page_map va c pg 0 USR_STD_ATTR k4 = Some (e5, k5) \<and>
     mm_page_map temp d pg 0 USR_STD_ATTR k5 = Some (e6, k6) \<and> same_file f n k k6 \<and>
     for_range 0 n (\<lambda>i k. vput (temp + of_nat i) (ram k (f + of_nat i)) k) k6 = Some k7 \<and>
     space_step E k A k7 A' \<and> has_table (ram k7) d 1023 \<and>
     stacks_over (\<lambda>w. if base w = base va then Some (pg OR (w AND 0xFFF)) else walk (ram k) c w) s3 s0 (walk (ram k7) c) \<and>
     mapped_at (ram k) d temp pg (ram k7) \<and>
     (\<forall>e \<in> E. e \<noteq> c \<and> e \<noteq> d \<longrightarrow> walk (ram k7) e = walk (ram k) e) \<and> stack_words (ram k7) s0 = rev ws \<and>
     (\<forall>i < n. ram k7 (pg + of_nat i) = ram k (f + of_nat i)) \<and>
     (\<forall>i. n \<le> i \<and> i < 4096 \<longrightarrow> ram k7 (pg + of_nat i) = ram k (pg + of_nat i)) \<and>
     (\<forall>b. base b \<notin> paging_frames (ram k) E A \<and> base b \<noteq> pg \<and> base b \<noteq> s0 \<longrightarrow> ram k7 b = ram k b)"
proof -
  have "has_table (ram k) c 1023 \<or> \<not> is_present (pde (ram k) c 1023) \<and> A \<noteq> {}"
    using cs A stack_pages(11) by (auto simp: is_present_def)
  moreover have "has_table (ram k) d 1023 \<or> \<not> is_present (pde (ram k) d 1023) \<and> 2 \<le> card A" using ds A by auto
  ultimately obtain e1 k1 e2 k2 e3 k3 A3 where code: "mm_page_map STACK_3_VIRTUAL c s3 0 USR_STD_ATTR k = Some (e1, k1)"
      "mm_page_map STACK_0_VIRTUAL c s0 0 (MM_ATTR_RW OR MM_ATTR_US_S) k1 = Some (e2, k2)"
      "mm_page_map temp d s0 0 (MM_ATTR_RW OR MM_ATTR_US_S) k2 = Some (e3, k3)"
    and m3: "space_step E k A k3 A3" "card A \<le> card A3 + 2" "stacks_over (walk (ram k) c) s3 s0 (walk (ram k3) c)"
      "mapped_at (ram k) d temp s0 (ram k3)"
      "\<forall>e \<in> E. e \<noteq> c \<and> e \<noteq> d \<longrightarrow> walk (ram k3) e = walk (ram k) e" "has_table (ram k3) c 1023" "has_table (ram k3) d 1023"
      "\<forall>b. base b \<notin> kernel_frames \<longrightarrow> ram k3 b = ram k b"
      "\<forall>i. index_ok i \<and> i \<noteq> 1023 \<longrightarrow> pde (ram k3) c i = pde (ram k) c i"
      "\<forall>b. base b \<notin> paging_frames (ram k) E A \<longrightarrow> ram k3 b = ram k b"
    using map_stacks [OF sp pool c d(1,2) _ _ s(2,3)] by blast
  note p3 = space_stepD [OF m3(1)]
  have cr3: "reg_cr3 k3 = d" using p3(6) d(3) by simp
  have "window k3 temp s0" using window_temp [OF p3(4) _ _ s(3,5)] m3(4) cr3 d(1) by simp
  from push_context [OF this ws] obtain m4 where m4: "vpush (temp + 0xffC) ws k3 = Some (k3\<lparr>ram := m4\<rparr>)"
    "stack_words m4 s0 = rev ws" "\<forall>b. base b \<noteq> s0 \<longrightarrow> m4 b = ram k3 b" by blast
  have "m4 b = ram k3 b" if "base b \<in> kernel_frames" for b using m4(3) s(5) that by auto
  note da = spaces_data [OF p3(4), of m4, OF this]
  let ?k4 = "k3\<lparr>ram := m4\<rparr>"
  have st4: "space_step E k3 A3 ?k4 A3" using da(1,4,5) p3(2) by (auto simp: space_step_def)
  note p4 = space_stepD [OF st4]
  have "has_table (ram ?k4) c (pdi va) \<or> \<not> is_present (pde (ram ?k4) c (pdi va)) \<and> A3 \<noteq> {}"
  proof (cases "pdi va = 1023")
    case True
    then show ?thesis using m3(6) da(4) c stack_pages(11) by simp
  next
    case False
    have "A3 \<noteq> {}" using m3(2) A by auto
    then show ?thesis using False m3(9) da(3) c cs va(1) by (simp add: is_present_def)
  qed
  then obtain e5 k5 A5 where m5: "mm_page_map va c pg 0 USR_STD_ATTR ?k4 = Some (e5, k5)" "space_step E ?k4 A3 k5 A5"
    "mapped_at m4 c va pg (ram k5)" "\<forall>e \<in> E. e \<noteq> c \<longrightarrow> walk (ram k5) e = walk m4 e"
    "\<forall>b. base b \<notin> kernel_frames \<longrightarrow> ram k5 b = m4 b"
    "\<forall>b. base b \<notin> paging_frames m4 E A3 \<longrightarrow> ram k5 b = m4 b"
    using spaces_map [OF p4(4,2) c, of va USR_STD_ATTR pg] std_attr by auto
  note p5 = space_stepD [OF m5(2)]
  have "has_table (ram k5) d (pdi temp)" using p5(5) [OF d(1) stack_pages(11)] da(4) d(1) m3(7) stack_pages by simp
  then obtain e6 k6 A6 where m6: "mm_page_map temp d pg 0 USR_STD_ATTR k5 = Some (e6, k6)" "space_step E k5 A5 k6 A6"
    "mapped_at (ram k5) d temp pg (ram k6)" "\<forall>e \<in> E. e \<noteq> d \<longrightarrow> walk (ram k6) e = walk (ram k5) e" "has_table (ram k6) d 1023"
    "\<forall>b. base b \<notin> kernel_frames \<longrightarrow> ram k6 b = ram k5 b"
    "\<forall>b. base b \<notin> paging_frames (ram k5) E A5 \<longrightarrow> ram k6 b = ram k5 b"
    using spaces_map [OF p5(4,2) d(1), of temp USR_STD_ATTR pg] std_attr unfolding stack_pages by blast
  note p6 = space_stepD [OF m6(2)]
  have cr6: "reg_cr3 k6 = d" using p6(6) p5(6) cr3 by simp
  have fr6: "ram k6 b = ram k b" if "base b \<notin> paging_frames (ram k) E A" "base b \<noteq> s0" for b
  proof -
    have "base b \<notin> paging_frames m4 E A3" using space_step_frame [OF m3(1) that(1)] da(5) by simp
    moreover from this have "base b \<notin> paging_frames (ram k5) E A5" using space_step_frame [OF m5(2), of b] by simp
    ultimately show ?thesis using that m3(10) m4(3) m5(6) m6(7) by simp
  qed
  have sub: "paging_frames (ram k) E A \<subseteq> kernel_frames" by (rule paging_frames_kernel [OF sp kf.pool_sub [OF pool]])
  have sf: "same_file f n k k3" "same_file f n k ?k4" "same_file f n k k6"
    using m3(10) m4(3) fr6 by (intro same_file_frames [OF f]; simp)+
  have "window k6 temp pg" using window_temp [OF p6(4) _ _ s(1,4)] m6(3) cr6 d(1) by simp
  from fill_window [OF this n, of f] f n obtain m7 where
    m7: "for_range 0 n (\<lambda>i k. vput (temp + of_nat i) (ram k (f + of_nat i)) k) k6 = Some (k6\<lparr>ram := m7\<rparr>)"
     "\<forall>i < n. m7 (pg + of_nat i) = ram k6 (f + of_nat i)"
     "\<forall>i. n \<le> i \<and> i < 4096 \<longrightarrow> m7 (pg + of_nat i) = ram k6 (pg + of_nat i)" "\<forall>b. base b \<noteq> pg \<longrightarrow> m7 b = ram k6 b"
    by (auto simp: file_apart_def)
  have "m7 b = ram k6 b" if "base b \<in> kernel_frames" for b using m7(4) s(4) that by auto
  note db = spaces_data [OF p6(4), of m7, OF this]
  let ?k7 = "k6\<lparr>ram := m7\<rparr>"
  have "space_step E k6 A6 ?k7 A6" using db(1,4,5) p6(2) by (auto simp: space_step_def)
  then have st: "space_step E k A ?k7 A6" using m3(1) st4 m5(2) m6(2) space_step_trans by metis
  have tb: "has_table (ram ?k7) d 1023" using m6(5) db(4) d(1) stack_pages(11) by simp
  have so: "stacks_over (\<lambda>w. if base w = base va then Some (pg OR (w AND 0xFFF)) else walk (ram k) c w) s3 s0 (walk (ram ?k7) c)"
    using m3(3) da(2) [of c] m5(3) m6(4) db(2) [of c] c d(2) s(1) va by (auto simp: stacks_over_def mapped_at_def)
  have mp: "mapped_at (ram k) d temp pg (ram ?k7)"
    using m3(4) da(2) [of d] m5(4) m6(3) db(2) [of d] d(1,2) by (auto simp: mapped_at_def)
  have ow: "\<forall>e \<in> E. e \<noteq> c \<and> e \<noteq> d \<longrightarrow> walk (ram ?k7) e = walk (ram k) e"
    using m3(5) da(2) m5(4) m6(4) db(2) by simp
  have sw: "stack_words (ram ?k7) s0 = rev ws"
    using stack_words_cong [OF s(3), of m7 m4] m4(2) m5(5) m6(6) m7(4) s by simp
  have cp: "\<forall>i < n. ram ?k7 (pg + of_nat i) = ram k (f + of_nat i)"
    using m7(2) sf(3) n by (simp add: same_file_def)
  have np: "pg \<notin> paging_frames (ram k) E A" using sub s(4) by auto
  have un: "\<forall>i. n \<le> i \<and> i < 4096 \<longrightarrow> ram ?k7 (pg + of_nat i) = ram k (pg + of_nat i)"
    using m7(3) fr6 s(1,4,6) np by simp
  have fr: "\<forall>b. base b \<notin> paging_frames (ram k) E A \<and> base b \<noteq> pg \<and> base b \<noteq> s0 \<longrightarrow> ram ?k7 b = ram k b"
    using m7(4) fr6 by simp
  show ?thesis
    by (rule exI [of _ e1], rule exI [of _ k1], rule exI [of _ e2], rule exI [of _ k2], rule exI [of _ e3], rule exI [of _ k3],
        rule exI [of _ ?k4], rule exI [of _ e5], rule exI [of _ k5], rule exI [of _ e6], rule exI [of _ k6],
        rule exI [of _ ?k7], rule exI [of _ A6])
      (intro conjI code m4(1) m5(1) m6(1) m7(1) sf st tb so mp ow sw cp un fr mem_step_fields(11) [OF p3(1)])
qed

text \<open>\<open>loader_load\<close> up to the copy of the file.\<close>

definition load_space :: "u32 \<Rightarrow> u32 \<Rightarrow> u32 \<Rightarrow> 'a mmk_scheme \<Rightarrow> (u32 \<times> u32 \<times> u32 \<times> u32 \<times> 'a mmk_scheme) option" where
  "load_space task_ret f pl k = do {
     let old_cr3 = reg_cr3 k;
     (task_dir, k) \<leftarrow> mm_dir_new k;
     (puntero_page_tarea, k) \<leftarrow> mm_mem_alloc k;
     (task_stack3, k) \<leftarrow> mm_mem_alloc k;
     (task_stack0, k) \<leftarrow> mm_mem_alloc k;
     (_, k) \<leftarrow> mm_page_map STACK_3_VIRTUAL task_dir task_stack3 0 USR_STD_ATTR k;
     (_, k) \<leftarrow> mm_page_map STACK_0_VIRTUAL task_dir task_stack0 0 (MM_ATTR_RW OR MM_ATTR_US_S) k;
     (_, k) \<leftarrow> mm_page_map KERNEL_TEMP_PAGE old_cr3 task_stack0 0 (MM_ATTR_RW OR MM_ATTR_US_S) k;
     k \<leftarrow> vpush (KERNEL_TEMP_PAGE + 0xffC)
            [0x23, STACK_3_VIRTUAL + 0x1000, 0x202, if pl \<noteq> 0 then 0x1B else 0x08, pso_main k f, task_ret,
             reg_esp k, 0, 0, 0] k;
     (_, k) \<leftarrow> mm_page_map (pso_mem_start k f) task_dir puntero_page_tarea 0 USR_STD_ATTR k;
     (_, k) \<leftarrow> mm_page_map KERNEL_TEMP_PAGE old_cr3 puntero_page_tarea 0 USR_STD_ATTR k;
     let cant_to_copy = pso_mem_end_disk k f - pso_mem_start k f;
     k \<leftarrow> for_range 0 (unat cant_to_copy) (\<lambda>i k. vput (KERNEL_TEMP_PAGE + of_nat i) (ram k (f + of_nat i)) k) k;
     Some (task_dir, puntero_page_tarea, task_stack3, task_stack0, k) }"

lemma loader_load_parts:
  assumes "load_space task_ret f pl k = Some (c, pg, s3, s0, k1)"
  shows "loader_load task_ret f pl k = do {
       (requested_pid, k2) \<leftarrow> new_process c k1;
       k2 \<leftarrow> start_process requested_pid (snd (mm_page_free KERNEL_TEMP_PAGE (reg_cr3 k) k2));
       Some (requested_pid, k2) }"
  using assms by (auto simp: load_space_def loader_load_def Let_def split_def bind_eq_Some_conv simp del: vpush.simps)

text \<open>The address space of the new task, apart from its stacks: the first 4 MB and the page of its file.\<close>

definition task_space :: "u32 \<Rightarrow> u32 \<Rightarrow> u32 \<Rightarrow> u32 option" where
  "task_space va pg w = (if base w = base va then Some (pg OR (w AND 0xFFF))
     else if unat w < 4194304 then Some w else None)"

lemma three_frames:
  assumes "usr_pool n k B" and "3 \<le> card B"
  shows "\<exists>pg k1 s3 k2 s0 fi. mm_mem_alloc k = Some (pg, k1) \<and> mm_mem_alloc k1 = Some (s3, k2) \<and>
     mm_mem_alloc k2 = Some (s0, k\<lparr>usr_pf_info := fi\<rparr>) \<and> pg \<in> B \<and> s3 \<in> B \<and> s0 \<in> B \<and> distinct [pg, s3, s0] \<and>
     usr_pool n (k\<lparr>usr_pf_info := fi\<rparr>) (B - {pg, s3, s0}) \<and> page_aligned pg \<and> page_aligned s3 \<and> page_aligned s0 \<and>
     pg \<notin> kernel_frames \<and> s3 \<notin> kernel_frames \<and> s0 \<notin> kernel_frames"
proof -
  have "B \<noteq> {}" using assms(2) by auto
  then obtain pg f1 where pg: "mm_mem_alloc k = Some (pg, k\<lparr>usr_pf_info := f1\<rparr>)" "pg \<in> B"
    "usr_pool n (k\<lparr>usr_pf_info := f1\<rparr>) (B - {pg})" "page_aligned pg" "pg \<notin> kernel_frames"
    using usr_alloc_spec [OF assms(1)] by blast
  have "2 \<le> card (B - {pg})" using assms(2) pg(2) by (simp add: card_Diff_singleton_if)
  from two_frames [OF pg(3) this] obtain s3 k2 s0 fi where s: "mm_mem_alloc (k\<lparr>usr_pf_info := f1\<rparr>) = Some (s3, k2)"
    "mm_mem_alloc k2 = Some (s0, k\<lparr>usr_pf_info := fi\<rparr>)" "s3 \<in> B - {pg}" "s0 \<in> B - {pg}" "s3 \<noteq> s0"
    "usr_pool n (k\<lparr>usr_pf_info := fi\<rparr>) (B - {pg} - {s3, s0})" "page_aligned s3" "page_aligned s0"
    "s3 \<notin> kernel_frames" "s0 \<notin> kernel_frames" by auto
  have "B - {pg, s3, s0} = B - {pg} - {s3, s0}" by auto
  then have u: "usr_pool n (k\<lparr>usr_pf_info := fi\<rparr>) (B - {pg, s3, s0})" by (rule ssubst) (rule s(6))
  have m: "s3 \<in> B" "s0 \<in> B" "distinct [pg, s3, s0]" using s(3-5) by auto
  show ?thesis
    by (rule exI [of _ pg], rule exI [of _ "k\<lparr>usr_pf_info := f1\<rparr>"], rule exI [of _ s3], rule exI [of _ k2],
        rule exI [of _ s0], rule exI [of _ fi]) (intro conjI pg(1,2,4,5) s(1,2,7-10) u m)
qed

lemma load_space_ok:
  assumes sp: "spaces (ram k) D A" and pool: "kernel_pool k A" "4 \<le> card A" and d: "reg_cr3 k = d" "d \<in> D"
    and slot: "has_table (ram k) d 1023 \<or> \<not> is_present (pde (ram k) d 1023)"
    and frames: "usr_pool n k B" "3 \<le> card B"
    and fil: "file_apart f (unat (pso_mem_end_disk k f - pso_mem_start k f)) (paging_frames (ram k) D A \<union> B)"
      "unat (pso_mem_end_disk k f - pso_mem_start k f) \<le> 4096"
    and va: "va = pso_mem_start k f" "4194304 \<le> unat va" "base va \<noteq> STACK_3_VIRTUAL" "base va \<noteq> STACK_0_VIRTUAL"
  shows "\<exists>c pg s3 s0 fi k' A'. load_space task_ret f pl k = Some (c, pg, s3, s0, k') \<and> mem_step (k\<lparr>usr_pf_info := fi\<rparr>) k' \<and>
     c \<notin> D \<and> spaces (ram k') (insert c D) A' \<and> kernel_pool k' A' \<and> A' \<subseteq> A \<and> has_table (ram k') d 1023 \<and>
     pg \<in> B \<and> s3 \<in> B \<and> s0 \<in> B \<and> distinct [pg, s3, s0] \<and> usr_pool n k' (B - {pg, s3, s0}) \<and>
     stacks_over (task_space va pg) s3 s0 (walk (ram k') c) \<and> mapped_at (ram k) d temp pg (ram k') \<and>
     (\<forall>e \<in> D. e \<noteq> d \<longrightarrow> walk (ram k') e = walk (ram k) e) \<and>
     (\<forall>i < unat (pso_mem_end_disk k f - va). ram k' (pg + of_nat i) = ram k (f + of_nat i)) \<and>
     (\<forall>i. unat (pso_mem_end_disk k f - va) \<le> i \<and> i < 4096 \<longrightarrow> ram k' (pg + of_nat i) = ram k (pg + of_nat i)) \<and>
     stack_words (ram k') s0 = [0, 0, 0, reg_esp k, task_ret, pso_main k f, if pl \<noteq> 0 then 0x1B else 0x08,
        0x202, STACK_3_VIRTUAL + 0x1000, 0x23] \<and>
     (\<forall>b. base b \<notin> paging_frames (ram k) D A \<and> base b \<noteq> pg \<and> base b \<noteq> s0 \<longrightarrow> ram k' b = ram k b) \<and>
     paging_frames (ram k') (insert c D) A' \<subseteq> paging_frames (ram k) D A"
proof -
  have "A \<noteq> {}" using pool(2) by auto
  then obtain c k1 where c: "mm_dir_new k = Some (c, k1)" "c \<in> A" "mem_step k k1" "kernel_pool k1 (A - {c})"
     "spaces (ram k1) (insert c D) (A - {c})" "\<forall>i. index_ok i \<and> i \<noteq> 0 \<longrightarrow> pde (ram k1) c i = 0"
     "\<forall>w. walk (ram k1) c w = (if unat w < 4194304 then Some w else None)"
     "\<forall>e \<in> D. walk (ram k1) e = walk (ram k) e \<and> (\<forall>i. index_ok i \<longrightarrow> pde (ram k1) e i = pde (ram k) e i)"
     "\<forall>b. base b \<notin> paging_frames (ram k) D A \<longrightarrow> ram k1 b = ram k b"
     "paging_frames (ram k1) (insert c D) (A - {c}) \<subseteq> paging_frames (ram k) D A"
    using spaces_new [OF sp pool(1)] by blast
  note m1 = mem_step_fields [OF c(3)]
  have cD: "c \<notin> D" using dir_wf_aligned(2) [OF spacesD(1) [OF sp]] c(2) by blast
  from three_frames [OF usr_pool_cong [OF frames(1) m1(3,4)] frames(2)] obtain pg k2 s3 k3 s0 fi where
    s: "mm_mem_alloc k1 = Some (pg, k2)" "mm_mem_alloc k2 = Some (s3, k3)" "mm_mem_alloc k3 = Some (s0, k1\<lparr>usr_pf_info := fi\<rparr>)"
     "pg \<in> B" "s3 \<in> B" "s0 \<in> B" "distinct [pg, s3, s0]" "usr_pool n (k1\<lparr>usr_pf_info := fi\<rparr>) (B - {pg, s3, s0})"
     "page_aligned pg" "page_aligned s3" "page_aligned s0" "pg \<notin> kernel_frames" "s3 \<notin> kernel_frames" "s0 \<notin> kernel_frames"
    by (elim exE conjE) (rule that)
  let ?k = "k1\<lparr>usr_pf_info := fi\<rparr>" and ?E = "insert c D"
  let ?ws = "[0x23, STACK_3_VIRTUAL + 0x1000, 0x202, if pl \<noteq> 0 then 0x1B else 0x08, pso_main k f, task_ret, reg_esp k, 0, 0, 0]"
  have sp2: "spaces (ram ?k) ?E (A - {c})" "kernel_pool ?k (A - {c})" "c \<in> ?E" "d \<in> ?E" "c \<noteq> d" "reg_cr3 ?k = d"
    using c(4,5) d cD m1(1) by (auto intro: kernel_pool_cong)
  have pd: "pde (ram ?k) d 1023 = pde (ram k) d 1023" using c(8) d(2) stack_pages(11) by simp
  have hy: "\<forall>i. index_ok i \<and> i \<noteq> 0 \<longrightarrow> pde (ram ?k) c i = 0" "has_table (ram ?k) d 1023 \<or> \<not> is_present (pde (ram ?k) d 1023)"
    "3 \<le> card (A - {c})" "s0 \<noteq> pg"
    "file_apart f (unat (pso_mem_end_disk k f - pso_mem_start k f)) (insert pg (insert s0 (paging_frames (ram ?k) ?E (A - {c}))))" "pdi va \<noteq> 0" "length ?ws = 10"
    using c(2,6,10) slot pd pool(2) s(4,6,7) fil(1) low_index [of va] va(2)
    by (auto simp: has_table_def card_Diff_singleton_if file_apart_def)
  obtain e1 k1' e2 k2' e3 k3' k4 e5 k5 e6 k6 k7 A' where code: "mm_page_map STACK_3_VIRTUAL c s3 0 USR_STD_ATTR ?k = Some (e1, k1')"
     "mm_page_map STACK_0_VIRTUAL c s0 0 (MM_ATTR_RW OR MM_ATTR_US_S) k1' = Some (e2, k2')"
     "mm_page_map temp d s0 0 (MM_ATTR_RW OR MM_ATTR_US_S) k2' = Some (e3, k3')" "reg_esp k3' = reg_esp ?k" "same_file f (unat (pso_mem_end_disk k f - pso_mem_start k f)) ?k k3'"
     "vpush (temp + 0xffC) ?ws k3' = Some k4" "same_file f (unat (pso_mem_end_disk k f - pso_mem_start k f)) ?k k4" "mm_page_map va c pg 0 USR_STD_ATTR k4 = Some (e5, k5)"
     "mm_page_map temp d pg 0 USR_STD_ATTR k5 = Some (e6, k6)" "same_file f (unat (pso_mem_end_disk k f - pso_mem_start k f)) ?k k6"
     "for_range 0 (unat (pso_mem_end_disk k f - pso_mem_start k f)) (\<lambda>i k. vput (temp + of_nat i) (ram k (f + of_nat i)) k) k6 = Some k7"
    and m7: "space_step ?E ?k (A - {c}) k7 A'" "has_table (ram k7) d 1023"
     "stacks_over (\<lambda>w. if base w = base va then Some (pg OR (w AND 0xFFF)) else walk (ram ?k) c w) s3 s0 (walk (ram k7) c)"
     "mapped_at (ram ?k) d temp pg (ram k7)"
     "\<forall>e \<in> ?E. e \<noteq> c \<and> e \<noteq> d \<longrightarrow> walk (ram k7) e = walk (ram ?k) e" "stack_words (ram k7) s0 = rev ?ws"
     "\<forall>i < unat (pso_mem_end_disk k f - pso_mem_start k f). ram k7 (pg + of_nat i) = ram ?k (f + of_nat i)"
     "\<forall>i. unat (pso_mem_end_disk k f - pso_mem_start k f) \<le> i \<and> i < 4096 \<longrightarrow> ram k7 (pg + of_nat i) = ram ?k (pg + of_nat i)"
     "\<forall>b. base b \<notin> paging_frames (ram ?k) ?E (A - {c}) \<and> base b \<noteq> pg \<and> base b \<noteq> s0 \<longrightarrow> ram k7 b = ram ?k b"
    using load_memory [OF sp2 hy(1-3) s(9-11,12,14) hy(4,5,6) va(3,4) fil(2) hy(7)] by (elim exE conjE) (rule that)
  have sf: "same_file f (unat (pso_mem_end_disk k f - pso_mem_start k f)) k ?k"
    using c(9) by (intro same_file_frames [OF fil(1)]) simp
  have out: "base b \<notin> paging_frames (ram k) D A" if "base b \<notin> kernel_frames" for b
    using that paging_frames_kernel [OF sp kf.pool_sub [OF pool(1)]] by blast
  have hd: "pso_main k3' f = pso_main k f" "pso_mem_start k4 f = va" "pso_mem_end_disk k6 f = pso_mem_end_disk k f"
      "pso_mem_start k6 f = pso_mem_start k f"
    using same_file_header [OF sf] same_file_header [OF code(5)] same_file_header [OF code(7)] same_file_header [OF code(10)]
    by (simp_all add: va(1))
  have ls: "load_space task_ret f pl k = Some (c, pg, s3, s0, k7)"
    using c(1) s(1-3) code d(1) m1(11) by (simp add: load_space_def hd del: vpush.simps)
  note p7 = space_stepD [OF m7(1)]
  have ms: "mem_step (k\<lparr>usr_pf_info := fi\<rparr>) k7"
  proof -
    have "mem_step (k\<lparr>usr_pf_info := fi\<rparr>) ?k" unfolding mem_step_def by (subst c(3) [unfolded mem_step_def]) simp
    then show ?thesis by (rule mem_step_trans) (rule p7(1))
  qed
  have up: "usr_pool n k7 (B - {pg, s3, s0})" using usr_pool_cong [OF s(8) mem_step_fields(3,4) [OF p7(1)]] .
  have so: "stacks_over (task_space va pg) s3 s0 (walk (ram k7) c)" using m7(3) c(7) by (simp add: stacks_over_def task_space_def)
  have mp: "mapped_at (ram k) d temp pg (ram k7)" using m7(4) c(8) d(2) by (simp add: mapped_at_def)
  have ow: "\<forall>e \<in> D. e \<noteq> d \<longrightarrow> walk (ram k7) e = walk (ram k) e" using m7(5) c(8) cD by auto
  have cp: "\<forall>i < unat (pso_mem_end_disk k f - va). ram k7 (pg + of_nat i) = ram k (f + of_nat i)"
    using m7(7) sf fil(2) by (simp add: same_file_def va(1))
  have un: "\<forall>i. unat (pso_mem_end_disk k f - va) \<le> i \<and> i < 4096 \<longrightarrow> ram k7 (pg + of_nat i) = ram k (pg + of_nat i)"
    using m7(8) c(9) s(9,12) out [of pg] by (simp add: va(1) base_of_aligned)
  have sw: "stack_words (ram k7) s0 = [0, 0, 0, reg_esp k, task_ret, pso_main k f, if pl \<noteq> 0 then 0x1B else 0x08,
        0x202, STACK_3_VIRTUAL + 0x1000, 0x23]" using m7(6) by simp
  have fr: "\<forall>b. base b \<notin> paging_frames (ram k) D A \<and> base b \<noteq> pg \<and> base b \<noteq> s0 \<longrightarrow> ram k7 b = ram k b"
    using m7(9) c(9,10) by (simp add: subset_iff) metis
  have sub: "A' \<subseteq> A" using p7(3) by blast
  have pf: "paging_frames (ram k7) ?E A' \<subseteq> paging_frames (ram k) D A" using space_stepD(7) [OF m7(1)] c(10) by simp
  show ?thesis
    by (rule exI [of _ c], rule exI [of _ pg], rule exI [of _ s3], rule exI [of _ s0], rule exI [of _ fi],
        rule exI [of _ k7], rule exI [of _ A']) (intro conjI ls ms cD p7(2,4) sub m7(2) s(4-7) up so mp ow cp un sw fr pf)
qed

text \<open>The rest of \<open>loader_load\<close>: the pid, the temporary page and the run queue.\<close>

lemma task_started:
  assumes pids: "pid_pool k P" "P \<noteq> {}" "length (task_table k) = MAX_PID"
    and sp: "spaces (ram k) E A" "d \<in> E" "has_table (ram k) d 1023"
    and run: "sched_rel (sch k) a" "busy a \<or> runq a = []" "P \<inter> set (runq a) = {}"
  shows "\<exists>p k'. do { (p, k2) \<leftarrow> new_process c k; k2 \<leftarrow> start_process p (snd (mm_page_free temp d k2)); Some (p, k2) } = Some (p, k') \<and>
     p \<in> P \<and> pid_pool k' (P - {p}) \<and>
     task_table k' = upd (task_table k) p (\<lambda>t. t\<lparr>cr3 := c, esp0 := STACK_0_VIRTUAL + 0xFD8\<rparr>) \<and>
     spaces (ram k') E A \<and> unmapped_at (ram k) d temp (ram k') \<and> (\<forall>e \<in> E. e \<noteq> d \<longrightarrow> walk (ram k') e = walk (ram k) e) \<and>
     (\<forall>b. base b \<notin> paging_frames (ram k) E A \<longrightarrow> ram k' b = ram k b) \<and>
     sched_rel (sch k') (a_load p a) \<and> tasks_running k' = tasks_running k + 1 \<and> cur_pid k' = cur_pid k \<and>
     usr_pf_info k' = usr_pf_info k \<and> usr_pf_limit k' = usr_pf_limit k \<and> kernel_pf_info k' = kernel_pf_info k"
proof -
  let ?t = "\<lambda>t. t\<lparr>cr3 := c, esp0 := STACK_0_VIRTUAL + 0xFD8\<rparr>"
  obtain p x where p: "new_process c k = Some (p, k\<lparr>next_free := x, task_table := upd (task_table k) p ?t\<rparr>)"
    "p \<in> P" "pid_pool (k\<lparr>next_free := x\<rparr>) (P - {p})"
    using new_process_ok [OF pids(1,2,3)] by blast
  let ?k2 = "k\<lparr>next_free := x, task_table := upd (task_table k) p ?t\<rparr>"
  have "spaces (ram ?k2) E A" "has_table (ram ?k2) d (pdi temp)" using sp stack_pages by simp_all
  from spaces_free [OF this(1) sp(2) this(2)] obtain r m where m: "mm_page_free temp d ?k2 = (r, ?k2\<lparr>ram := m\<rparr>)" "spaces m E A"
    "unmapped_at (ram k) d temp m" "\<forall>e \<in> E. e \<noteq> d \<longrightarrow> walk m e = walk (ram k) e"
    "\<forall>b. base b \<notin> paging_frames (ram k) E A \<longrightarrow> m b = ram k b" by auto
  have "unat p < 32" "p \<noteq> 0" "p \<notin> set (runq a)"
    using pid_pool_sub [OF pids(1)] p(2) run(3) by (auto simp: user_pids_def MAX_PID_def)
  then obtain s where s: "sched_load p (sch k) = Some s" "sched_rel s (a_load p a)"
    using load_refines [OF run(1)] run(2) by blast
  let ?k = "?k2\<lparr>ram := m, sch := s, tasks_running := tasks_running k + 1\<rparr>"
  have "pid_pool ?k (P - {p})" by (rule pid_pool_cong [OF p(3)]) simp_all
  then show ?thesis using p(1,2) m s by (intro exI [of _ p] exI [of _ ?k]) (simp add: start_process_def)
qed

section \<open>Loading\<close>

text \<open>C4. \<open>loader_load\<close> makes a task out of a file of at most a page. The file may be anywhere but in frames
  that are free or hold a directory or table of a process; so it may be in a page of the kernel, as the
  files that \<open>sys_run\<close> passes are. The pid is a free one. The task's directory is new and shares no page
  table with any process: it maps the first 4 MB onto themselves, the page of the file to a new frame with
  the bytes of the file, and the two stacks, of which that of ring 0 has the words that \<open>loader_switchto\<close>
  and \<open>task_ret\<close> pop, the entry point and the selector of its ring among them. The current directory keeps
  its translations, apart from the temporary page, which ends unmapped, and every other process keeps all
  of them. Memory is written in the new frames of the page and of the stack of ring 0, in the frames of
  the directories and tables, and in kernel frames that were free, and nowhere else. The task is next in
  the run queue.\<close>

theorem loader_makes_task:
  assumes sp: "spaces (ram k) D A" and pool: "kernel_pool k A" "4 \<le> card A" and d: "reg_cr3 k = d" "d \<in> D"
    and slot: "has_table (ram k) d 1023 \<or> \<not> is_present (pde (ram k) d 1023)"
    and frames: "usr_pool n k B" "3 \<le> card B"
    and fil: "file_apart f (unat (pso_mem_end_disk k f - pso_mem_start k f)) (paging_frames (ram k) D A \<union> B)"
      "unat (pso_mem_end_disk k f - pso_mem_start k f) \<le> 4096"
    and va: "va = pso_mem_start k f" "4194304 \<le> unat va" "base va \<noteq> STACK_3_VIRTUAL" "base va \<noteq> STACK_0_VIRTUAL"
    and pids: "pid_pool k P" "P \<noteq> {}" "length (task_table k) = MAX_PID"
    and run: "sched_rel (sch k) a" "busy a \<or> runq a = []" "P \<inter> set (runq a) = {}"
  shows "\<exists>p k' c pg s3 s0 A'. loader_load task_ret f pl k = Some (p, k') \<and>
     p \<in> P \<and> pid_pool k' (P - {p}) \<and> c \<notin> D \<and> spaces (ram k') (insert c D) A' \<and> kernel_pool k' A' \<and> A' \<subseteq> A \<and>
     pg \<in> B \<and> s3 \<in> B \<and> s0 \<in> B \<and> distinct [pg, s3, s0] \<and> usr_pool n k' (B - {pg, s3, s0}) \<and>
     task_table k' = upd (task_table k) p (\<lambda>t. t\<lparr>cr3 := c, esp0 := STACK_0_VIRTUAL + 0xFD8\<rparr>) \<and>
     stacks_over (task_space va pg) s3 s0 (walk (ram k') c) \<and> unmapped_at (ram k) d temp (ram k') \<and>
     (\<forall>e \<in> D. e \<noteq> d \<longrightarrow> walk (ram k') e = walk (ram k) e) \<and>
     (\<forall>i < unat (pso_mem_end_disk k f - va). ram k' (pg + of_nat i) = ram k (f + of_nat i)) \<and>
     (\<forall>i. unat (pso_mem_end_disk k f - va) \<le> i \<and> i < 4096 \<longrightarrow> ram k' (pg + of_nat i) = ram k (pg + of_nat i)) \<and>
     stack_words (ram k') s0 = [0, 0, 0, reg_esp k, task_ret, pso_main k f, if pl \<noteq> 0 then 0x1B else 0x08,
        0x202, STACK_3_VIRTUAL + 0x1000, 0x23] \<and>
     (\<forall>b. base b \<notin> paging_frames (ram k) D A \<and> base b \<noteq> pg \<and> base b \<noteq> s0 \<longrightarrow> ram k' b = ram k b) \<and>
     sched_rel (sch k') (a_load p a) \<and> tasks_running k' = tasks_running k + 1 \<and> cur_pid k' = cur_pid k"
proof -
  obtain c pg s3 s0 fi k1 A' where l: "load_space task_ret f pl k = Some (c, pg, s3, s0, k1)" "mem_step (k\<lparr>usr_pf_info := fi\<rparr>) k1"
     "c \<notin> D" "spaces (ram k1) (insert c D) A'" "kernel_pool k1 A'" "A' \<subseteq> A" "has_table (ram k1) d 1023"
     "pg \<in> B" "s3 \<in> B" "s0 \<in> B" "distinct [pg, s3, s0]" "usr_pool n k1 (B - {pg, s3, s0})"
     "stacks_over (task_space va pg) s3 s0 (walk (ram k1) c)" "mapped_at (ram k) d temp pg (ram k1)"
     "\<forall>e \<in> D. e \<noteq> d \<longrightarrow> walk (ram k1) e = walk (ram k) e"
     "\<forall>i < unat (pso_mem_end_disk k f - va). ram k1 (pg + of_nat i) = ram k (f + of_nat i)"
     "\<forall>i. unat (pso_mem_end_disk k f - va) \<le> i \<and> i < 4096 \<longrightarrow> ram k1 (pg + of_nat i) = ram k (pg + of_nat i)"
     "stack_words (ram k1) s0 = [0, 0, 0, reg_esp k, task_ret, pso_main k f, if pl \<noteq> 0 then 0x1B else 0x08,
        0x202, STACK_3_VIRTUAL + 0x1000, 0x23]"
     "\<forall>b. base b \<notin> paging_frames (ram k) D A \<and> base b \<noteq> pg \<and> base b \<noteq> s0 \<longrightarrow> ram k1 b = ram k b"
     "paging_frames (ram k1) (insert c D) A' \<subseteq> paging_frames (ram k) D A"
    using load_space_ok [OF sp pool d slot frames fil va, of task_ret pl] by (elim exE conjE) (rule that)
  note ms = mem_step_fields [OF l(2), simplified]
  have "pid_pool k1 P" "length (task_table k1) = MAX_PID" "sched_rel (sch k1) a" using pids run(1) by (auto simp: ms intro: pid_pool_cong)
  from task_started [OF this(1) pids(2) this(2) l(4) _ l(7) this(3) run(2,3), of c] d(2) obtain p k' where
    g: "do { (p, k2) \<leftarrow> new_process c k1; k2 \<leftarrow> start_process p (snd (mm_page_free temp d k2)); Some (p, k2) } = Some (p, k')"
     "p \<in> P" "pid_pool k' (P - {p})" "task_table k' = upd (task_table k1) p (\<lambda>t. t\<lparr>cr3 := c, esp0 := STACK_0_VIRTUAL + 0xFD8\<rparr>)"
     "spaces (ram k') (insert c D) A'" "unmapped_at (ram k1) d temp (ram k')"
     "\<forall>e \<in> insert c D. e \<noteq> d \<longrightarrow> walk (ram k') e = walk (ram k1) e"
     "\<forall>b. base b \<notin> paging_frames (ram k1) (insert c D) A' \<longrightarrow> ram k' b = ram k1 b" "sched_rel (sch k') (a_load p a)"
     "tasks_running k' = tasks_running k1 + 1" "cur_pid k' = cur_pid k1"
     "usr_pf_info k' = usr_pf_info k1" "usr_pf_limit k' = usr_pf_limit k1" "kernel_pf_info k' = kernel_pf_info k1" by auto
  have code: "loader_load task_ret f pl k = Some (p, k')"
    using loader_load_parts [OF l(1)] g(1) d(1) by simp
  have fr: "s0 \<notin> kernel_frames" "pg \<notin> kernel_frames" "page_aligned s0" "page_aligned pg"
    using usr_frame_facts [of _ n] uf.pool_sub [OF frames(1)] l(8,10) frames(1) by (auto simp: usr_pool_def)
  have out: "base b \<notin> paging_frames (ram k1) (insert c D) A'" if "base b \<notin> kernel_frames" for b
    using that paging_frames_kernel [OF l(4) kf.pool_sub [OF l(5)]] by blast
  have so: "stacks_over (task_space va pg) s3 s0 (walk (ram k') c)" using l(13) g(7) l(3) d(2) by auto
  have um: "unmapped_at (ram k) d temp (ram k')" using l(14) g(6) by (simp add: unmapped_at_def mapped_at_def)
  have ow: "\<forall>e \<in> D. e \<noteq> d \<longrightarrow> walk (ram k') e = walk (ram k) e" using l(15) g(7) by simp
  have cp: "\<forall>i < unat (pso_mem_end_disk k f - va). ram k' (pg + of_nat i) = ram k (f + of_nat i)"
    using l(16) g(8) fr(2,4) out [of pg] fil(2) va(1) by (simp add: base_of_aligned)
  have un: "\<forall>i. unat (pso_mem_end_disk k f - va) \<le> i \<and> i < 4096 \<longrightarrow> ram k' (pg + of_nat i) = ram k (pg + of_nat i)"
    using l(17) g(8) fr(2,4) out [of pg] by (simp add: base_of_aligned)
  have sw: "stack_words (ram k') s0 = [0, 0, 0, reg_esp k, task_ret, pso_main k f, if pl \<noteq> 0 then 0x1B else 0x08,
        0x202, STACK_3_VIRTUAL + 0x1000, 0x23]"
    using stack_words_cong [OF fr(3), of "ram k'" "ram k1"] g(8) fr(1,3) out [of s0] l(18) by (simp add: base_of_aligned)
  have ot: "\<forall>b. base b \<notin> paging_frames (ram k) D A \<and> base b \<noteq> pg \<and> base b \<noteq> s0 \<longrightarrow> ram k' b = ram k b"
    using l(19,20) g(8) by (simp add: subset_iff) metis
  have rest: "task_table k' = upd (task_table k) p (\<lambda>t. t\<lparr>cr3 := c, esp0 := STACK_0_VIRTUAL + 0xFD8\<rparr>)"
      "tasks_running k' = tasks_running k + 1" "cur_pid k' = cur_pid k" using g(4,10,11) by (simp_all only: ms)
  show ?thesis
    by (rule exI [of _ p], rule exI [of _ k'], rule exI [of _ c], rule exI [of _ pg], rule exI [of _ s3], rule exI [of _ s0],
        rule exI [of _ A'])
      (intro conjI code g(2,3,5,9) l(3,6,8-11) so um ow cp un sw ot rest usr_pool_cong [OF l(12) g(12,13)] kernel_pool_cong [OF l(5) g(14)])
qed

text \<open>Past the page, the loop goes on at address 0: byte 4096 + j of a larger file is written to physical
  address j, over whatever is there.\<close>

lemma large_file_overwrites_memory:
  assumes "page_aligned (reg_cr3 k)" "pde (ram k) (reg_cr3 k) 0 = 0x81" "4096 \<le> i" "i < 4096 + 4194304"
  shows "vput (KERNEL_TEMP_PAGE + of_nat i) b k = Some (k\<lparr>ram := (ram k)(of_nat (i - 4096) := b)\<rparr>)"
proof -
  have "KERNEL_TEMP_PAGE = - (of_nat 4096 :: u32)" by (simp add: KERNEL_TEMP_PAGE_def)
  then have a: "KERNEL_TEMP_PAGE + of_nat i = of_nat (i - 4096)" using assms(3) by (simp add: of_nat_diff)
  have u: "unat (of_nat (i - 4096) :: u32) < 4194304" using assms(4) by (simp add: unat_of_nat)
  then have "walk (ram k) (reg_cr3 k) (of_nat (i - 4096)) = Some (of_nat (i - 4096))"
    using walk_large [OF assms(1), of "ram k" "of_nat (i - 4096)"] low_index [of "of_nat (i - 4096)"] low_address [of "of_nat (i - 4096)"] assms(2)
    by (simp del: of_nat_diff)
  then show ?thesis unfolding a by (simp add: vput_def)
qed

text \<open>The kernel with two tasks and a file of 24 bytes, for the page at 4 MB, in a page of the kernel, at the
  offset at which \<open>fat12_open\<close> puts the first bytes of a file.\<close>

definition file_kern :: "(u32 \<times> conk) option" where
  "file_kern = do {
     (p, k) \<leftarrow> mm_mem_kalloc (with_con kern_two_tasks 0x80000 new_console);
     Some (p, k\<lparr>ram := wr32 (wr32 (wr32 (ram k) (entry p 129) 0x400000) (entry p 130) 0x400018) (entry p 132) 0x400014\<rparr>) }"

lemma file_in_page:
  assumes "page_aligned p"
  shows "i < 3584 \<Longrightarrow> base (p + 0x200 + of_nat i) = p"
    and "p + 0x200 + 4 = entry p 129" "p + 0x200 + 8 = entry p 130" "p + 0x200 + 16 = entry p 132"
proof -
  assume i: "i < 3584"
  have "p + 0x200 + of_nat i = p + of_nat (512 + i)" by simp
  then show "base (p + 0x200 + of_nat i) = p" using base_plus_nat [OF assms, of "512 + i"] i by (simp only: \<open>p + 0x200 + of_nat i = _\<close>)
qed (simp_all add: entry_def)

text \<open>The state of the example, as the hypotheses need it.\<close>

lemma file_kern_facts:
  obtains p k where "file_kern = Some (p, k)" "page_aligned p" "p \<in> kernel_frames" "kernel_pool k (kernel_frames - {p})"
    "usr_pool 32 k (usr_frames 32)" "pso_mem_start k (p + 0x200) = 0x400000" "pso_mem_end_disk k (p + 0x200) = 0x400018"
    "pso_main k (p + 0x200) = 0x400014" "sch k = sch kern_two_tasks" "task_table k = task_table kern_two_tasks"
    "free_pids k = free_pids kern_two_tasks" "next_free k = next_free kern_two_tasks" "reg_esp k = 0"
proof -
  let ?k0 = "with_con kern_two_tasks 0x80000 new_console"
  have "kernel_frames \<noteq> {}" using card_kernel_frames by auto
  then obtain p k where k: "mm_mem_kalloc ?k0 = Some (p, k)" "p \<in> kernel_frames" "kernel_pool k (kernel_frames - {p})"
    using kf.alloc_some [OF with_con_pools(1)] by blast
  obtain fi m where k': "k = ?k0\<lparr>kernel_pf_info := fi, ram := m\<rparr>" using k(1) by (auto simp: mm_mem_kalloc_def split: bind_splits)
  have a: "page_aligned p" using kernel_frame_facts k(2) by blast
  let ?k = "k\<lparr>ram := wr32 (wr32 (wr32 (ram k) (entry p 129) 0x400000) (entry p 130) 0x400018) (entry p 132) 0x400014\<rparr>"
  show thesis
  proof (rule that)
    show "file_kern = Some (p, ?k)" using k(1) by (simp add: file_kern_def)
    show "kernel_pool ?k (kernel_frames - {p})" using k(3) by (simp add: kernel_pool_def)
    show "usr_pool 32 ?k (usr_frames 32)" using with_con_pools(2) [of kern_two_tasks]
      by (simp add: usr_pool_def k')
    show "pso_mem_start ?k (p + 0x200) = 0x400000" "pso_mem_end_disk ?k (p + 0x200) = 0x400018" "pso_main ?k (p + 0x200) = 0x400014"
      using a by (simp_all add: pso_mem_start_def pso_mem_end_disk_def pso_main_def get32_def file_in_page(2-4) [OF a]
          rd32_wr32 entry_eq index_ok_def)
  qed (use k(2) a in \<open>simp_all add: k' with_con_def\<close>, simp add: kern_two_tasks_def)
qed

theorem loader_makes_task_witness:
  "\<exists>q k0 d k. file_kern = Some (q, k0) \<and> mm_dir_new k0 = Some (d, k) \<and>
     (\<exists>k' c pg s0. loader_load 0x1000 (q + 0x200) 1 (k\<lparr>reg_cr3 := d\<rparr>) = Some (3, k') \<and>
     cr3 (rd (task_table k') 3) = c \<and> c \<noteq> d \<and> walk (ram k') c 0x400000 = Some pg \<and> walk (ram k') c 0x100000 = Some 0x100000 \<and>
     (\<forall>i < 24. ram k' (pg + of_nat i) = ram k0 (q + 0x200 + of_nat i)) \<and>
     stack_words (ram k') s0 = [0, 0, 0, 0, 0x1000, 0x400014, 0x1B, 0x202, 0xFFFFE000, 0x23] \<and>
     sched_rel (sch k') (a_load 3 two_tasks))"
proof -
  obtain q k0 where q: "file_kern = Some (q, k0)" "page_aligned q" "q \<in> kernel_frames" "kernel_pool k0 (kernel_frames - {q})"
    "usr_pool 32 k0 (usr_frames 32)"
    and hd0: "pso_mem_start k0 (q + 0x200) = 0x400000" "pso_mem_end_disk k0 (q + 0x200) = 0x400018" "pso_main k0 (q + 0x200) = 0x400014"
    and e0: "sch k0 = sch kern_two_tasks" "task_table k0 = task_table kern_two_tasks"
    "free_pids k0 = free_pids kern_two_tasks" "next_free k0 = next_free kern_two_tasks" "reg_esp k0 = 0"
    by (rule file_kern_facts)
  let ?f = "q + 0x200" and ?A = "kernel_frames - {q}"
  have cA: "card ?A = 767" using card_kernel_frames q(3) by simp
  then have "?A \<noteq> {}" by (metis card.empty zero_neq_numeral)
  moreover have "spaces (ram k0) {} ?A" by (simp add: spaces_def)
  ultimately obtain d k where d: "mm_dir_new k0 = Some (d, k)" "d \<in> ?A" "mem_step k0 k"
    "kernel_pool k (?A - {d})" "spaces (ram k) {d} (?A - {d})"
    "\<forall>i. index_ok i \<and> i \<noteq> 0 \<longrightarrow> pde (ram k) d i = 0" "\<forall>b. base b \<notin> paging_frames (ram k0) {} ?A \<longrightarrow> ram k b = ram k0 b"
    "paging_frames (ram k) {d} (?A - {d}) \<subseteq> paging_frames (ram k0) {} ?A"
    using spaces_new [OF _ q(4)] by metis
  note ms = mem_step_fields [OF d(3)]
  let ?k = "k\<lparr>reg_cr3 := d\<rparr>"
  have "q \<notin> usr_frames 32" using q(3) usr_frame_facts [of q 32] by auto
  then have ap: "file_apart ?f 24 (paging_frames (ram k0) {} ?A \<union> usr_frames 32)"
    using file_in_page(1) [OF q(2)] by (simp add: file_apart_def paging_frames_def)
  have sf: "same_file ?f 24 k0 ?k" using d(7) by (intro same_file_frames [OF ap]) simp
  note hd = same_file_header [OF sf, unfolded hd0]
  have fl: "file_apart ?f (unat (pso_mem_end_disk ?k ?f - pso_mem_start ?k ?f)) (paging_frames (ram ?k) {d} (?A - {d}) \<union> usr_frames 32)"
    "unat (pso_mem_end_disk ?k ?f - pso_mem_start ?k ?f) \<le> 4096"
    using ap d(8) unfolding hd by (auto simp: file_apart_def)
  have c: "4 \<le> card (?A - {d})" "3 \<le> card (usr_frames 32)"
    using cA d(2) card_usr_frames [of 32] by simp_all
  have s: "has_table (ram ?k) d 1023 \<or> \<not> is_present (pde (ram ?k) d 1023)" using d(6) stack_pages(11) by (simp add: is_present_def)
  have va: "0x400000 = pso_mem_start ?k ?f" "4194304 \<le> unat (0x400000 :: u32)"
    "base 0x400000 \<noteq> STACK_3_VIRTUAL" "base 0x400000 \<noteq> STACK_0_VIRTUAL"
    unfolding hd by (simp_all add: base_def STACK_3_VIRTUAL_def STACK_0_VIRTUAL_def)
  have e: "sch ?k = sch kern_two_tasks" "task_table ?k = task_table kern_two_tasks" "free_pids ?k = free_pids kern_two_tasks"
    "next_free ?k = next_free kern_two_tasks" "reg_esp ?k = 0" using e0 by (simp_all add: ms)
  have p: "pid_pool ?k {3}" by (rule pid_pool_cong [OF two_tasks_pids]) (simp_all only: e)
  have l: "length (task_table ?k) = MAX_PID" by (simp only: e) (simp add: kern_two_tasks_def)
  have r: "sched_rel (sch ?k) two_tasks" using kern_two_tasks_rel by (simp only: e) (simp add: kern_rel_def kern_mid_def)
  have u: "usr_pool 32 ?k (usr_frames 32)" by (rule usr_pool_cong [OF q(5)]) (simp_all add: ms)
  have sp: "spaces (ram ?k) {d} (?A - {d})" "kernel_pool ?k (?A - {d})" "reg_cr3 ?k = d" "d \<in> {d}"
    "{3} \<noteq> ({} :: pid set)" "busy two_tasks \<or> runq two_tasks = []" "{3} \<inter> set (runq two_tasks) = {}"
    using d(4,5) two_tasks_eq by (simp_all add: kernel_pool_def)
  obtain x k' c pg s3 s0 where o: "loader_load 0x1000 ?f 1 ?k = Some (x, k')" "x \<in> {3}" "c \<notin> {d}"
    "pg \<in> usr_frames 32" "task_table k' = upd (task_table ?k) x (\<lambda>t. t\<lparr>cr3 := c, esp0 := STACK_0_VIRTUAL + 0xFD8\<rparr>)"
    "stacks_over (task_space 0x400000 pg) s3 s0 (walk (ram k') c)"
    "\<forall>i < unat (pso_mem_end_disk ?k ?f - 0x400000). ram k' (pg + of_nat i) = ram ?k (?f + of_nat i)"
    "stack_words (ram k') s0 = [0, 0, 0, reg_esp ?k, 0x1000, pso_main ?k ?f, if (1 :: u32) \<noteq> 0 then 0x1B else 0x08,
        0x202, STACK_3_VIRTUAL + 0x1000, 0x23]" "sched_rel (sch k') (a_load x two_tasks)"
    using loader_makes_task [OF sp(1,2) c(1) sp(3,4) s u c(2) fl va p sp(5) l r sp(6,7), of "0x1000" 1]
    by (elim exE conjE) (rule that)
  have "base 0x400000 = (0x400000 :: u32)" "base 0x100000 = (0x100000 :: u32)" "(0x400000 :: u32) AND 0xFFF = 0"
    by (simp_all add: base_def)
  then have w: "walk (ram k') c 0x400000 = Some pg" "walk (ram k') c 0x100000 = Some 0x100000"
    using o(6) by (simp_all add: stacks_over_def task_space_def STACK_3_VIRTUAL_def STACK_0_VIRTUAL_def)
  have b: "\<forall>i < 24. ram k' (pg + of_nat i) = ram k0 (?f + of_nat i)"
    using o(7) sf unfolding hd by (simp add: same_file_def)
  have sw: "stack_words (ram k') s0 = [0, 0, 0, 0, 0x1000, 0x400014, 0x1B, 0x202, 0xFFFFE000, 0x23]"
    using o(8) hd e(5) by (simp add: STACK_3_VIRTUAL_def)
  have tt: "cr3 (rd (task_table k') 3) = c" using o(2,5) l by (simp add: rd_upd inb_def MAX_PID_def)
  have x: "x = 3" and cd: "c \<noteq> d" using o(2,3) by simp_all
  show ?thesis
    by (intro exI [of _ q] exI [of _ k0] exI [of _ d] exI [of _ k] conjI exI [of _ k'] exI [of _ c] exI [of _ pg] exI [of _ s0]
        q(1) d(1) o(1) [unfolded x] tt cd w b sw o(9) [unfolded x])
qed

end
