(* ===== verification/Console_Ring.thy ===== *)
theory Console_Ring
  imports Console_Spec
begin

text \<open>
  The open consoles as a circular doubly linked list. Their \<open>next\<close> and \<open>prev\<close> fields are a
  \<open>ring_store\<close>, so the surgery of \<open>con_link\<close> and \<open>con_unlink\<close> rests on the lemmas of theory \<open>Ring\<close>;
  the pages of the consoles come from the pool of kernel frames.
\<close>

section \<open>The links as a store of nodes\<close>

definition con_valid :: "'a devk_scheme \<Rightarrow> pid \<Rightarrow> bool" where
  "con_valid k a \<longleftrightarrow> get_con k a \<noteq> None"

definition con_nx :: "'a devk_scheme \<Rightarrow> pid \<Rightarrow> pid" where
  "con_nx k a = (case get_con k a of Some c \<Rightarrow> con_next c | None \<Rightarrow> 0)"

definition con_pv :: "'a devk_scheme \<Rightarrow> pid \<Rightarrow> pid" where
  "con_pv k a = (case get_con k a of Some c \<Rightarrow> con_prev c | None \<Rightarrow> 0)"

definition set_con :: "(chardev_console \<Rightarrow> chardev_console) \<Rightarrow> pid \<Rightarrow> 'a devk_scheme \<Rightarrow> 'a devk_scheme" where
  "set_con f a k = (case get_con k a of Some c \<Rightarrow> put_obj a (Con (f c)) k | None \<Rightarrow> k)"

abbreviation "set_con_next a v \<equiv> set_con (\<lambda>c. c\<lparr>con_next := v\<rparr>) a"
abbreviation "set_con_prev a v \<equiv> set_con (\<lambda>c. c\<lparr>con_prev := v\<rparr>) a"

lemma mod_con_valid: "con_valid k a \<Longrightarrow> mod_con a f k = Some (set_con f a k)"
  by (auto simp: con_valid_def mod_con_def set_con_def)

lemma con_nx_get: "con_valid k a \<Longrightarrow> \<exists>c. get_con k a = Some c \<and> con_next c = con_nx k a \<and> con_prev c = con_pv k a"
  by (auto simp: con_valid_def con_nx_def con_pv_def)

interpretation cr: ring_store con_nx con_pv "\<lambda>a v. set_con_next a v" "\<lambda>a v. set_con_prev a v" con_valid
  by unfold_locales (auto simp: con_valid_def con_nx_def con_pv_def set_con_def fun_eq_iff split: option.splits)

abbreviation con_held :: "'a devk_scheme \<Rightarrow> pid list \<Rightarrow> bool" where
  "con_held \<equiv> held con_nx con_pv con_valid"

lemma con_held_objs: "objs k' = objs k \<Longrightarrow> con_held k' cs = con_held k cs"
  by (simp add: held_def con_valid_def con_nx_def [abs_def] con_pv_def [abs_def] get_con_def)

lemma held_append: "con_held k (xs @ ys) \<longleftrightarrow> con_held k (ys @ xs)"
proof (induction xs arbitrary: ys)
  case (Cons x xs)
  have "con_held k (x # xs @ ys) \<longleftrightarrow> con_held k (xs @ (ys @ [x]))" using cr.rotate [of k x "xs @ ys"] by simp
  also have "\<dots> \<longleftrightarrow> con_held k (ys @ x # xs)" using Cons.IH [of "ys @ [x]"] by simp
  finally show ?case by simp
qed simp

lemma con_held_mem: "con_held k cs \<Longrightarrow> a \<in> set cs \<Longrightarrow> con_valid k a"
  by (simp add: held_def)

lemma con_held_next: "con_held k (c # cs) \<Longrightarrow> con_nx k c = hd (cs @ [c]) \<and> con_pv k c = last (c # cs)"
  by (meson held_def ring_next_head ring_prev_head)

section \<open>The state of the consoles\<close>

text \<open>The ring is \<open>cs\<close>, seen from the current console; \<open>A\<close> are the kernel frames not in use. Before the
  first console is opened there is no current one. The empty console is in the ring, or a ring of its
  own.\<close>

definition con_ring :: "u32 set \<Rightarrow> u32 list \<Rightarrow> 'a conk_scheme \<Rightarrow> bool" where
  "con_ring A cs k \<longleftrightarrow> kernel_pool k A \<and> con_held k cs \<and> set cs \<subseteq> kernel_frames - A \<and>
     current_console k = (case cs of [] \<Rightarrow> 0 | c # _ \<Rightarrow> c) \<and>
     empty_console k \<in> kernel_frames - A \<and> (empty_console k \<in> set cs \<or> con_held k [empty_console k])"

lemma kernel_frame_nonzero: "0 \<notin> kernel_frames"
proof
  assume "0 \<in> kernel_frames"
  then obtain f where f: "f < 768" "frame_at KRN_MEM_START f = 0" by (auto simp: kernel_frames_def)
  then have "unat (frame_at KRN_MEM_START f) = 1048576 + f * 4096"
    by (subst unat_frame_at) (simp_all add: KRN_MEM_START_def)
  with f show False by simp
qed

lemma mod_ram_simps [simp]:
  "objs (mod_ram f k) = objs k" "kernel_pool (mod_ram f k) A = kernel_pool k A"
  "get_con (mod_ram f k) = get_con k" "kernel_pf_info (mod_ram f k) = kernel_pf_info k"
  by (simp_all add: mod_ram_def kernel_pool_def get_con_def fun_eq_iff)

lemma mod_ram_conk [simp]: "current_console (mod_ram f k) = current_console k" "empty_console (mod_ram f k) = empty_console k"
  by (simp_all add: mod_ram_def)

lemma set_con_conk [simp]: "current_console (set_con f a k) = current_console k" "empty_console (set_con f a k) = empty_console k"
  "kernel_pool (set_con f a k) A = kernel_pool k A"
  by (simp_all add: set_con_def kernel_pool_def put_obj_def split: option.splits)

lemma put_obj_pool [simp]: "kernel_pool (put_obj a d k) A = kernel_pool k A"
  by (simp add: kernel_pool_def put_obj_def)

lemma current_pool [simp]: "kernel_pool (k\<lparr>current_console := c\<rparr>) A = kernel_pool k A"
  "con_held (k\<lparr>current_console := c\<rparr>) cs = con_held k cs" "con_held (mod_ram f k) cs = con_held k cs"
  by (simp add: kernel_pool_def) (rule con_held_objs; simp add: mod_ram_def)+

lemma right_ring:
  assumes "con_ring A cs k"
  shows "\<exists>k'. move_to_right_console k = Some k' \<and> con_ring A (rotate1 cs) k' \<and> objs k' = objs k"
proof (cases cs)
  case Nil
  then show ?thesis using assms by (simp add: con_ring_def move_to_right_console_def)
next
  case (Cons c xs)
  have "c \<noteq> 0" using assms kernel_frame_nonzero by (auto simp: con_ring_def Cons)
  moreover have h: "con_held k (c # xs)" "current_console k = c" using assms by (auto simp: con_ring_def Cons)
  moreover obtain d where "get_con k c = Some d" "con_next d = hd (xs @ [c])"
    using con_nx_get [OF con_held_mem [OF h(1), of c]] con_held_next [OF h(1)] by auto
  moreover have "hd (xs @ [c]) = (case xs @ [c] of [] \<Rightarrow> 0 | c # _ \<Rightarrow> c)" by (cases xs) auto
  ultimately show ?thesis using assms cr.rotate [of k c xs]
    by (auto simp: move_to_right_console_def con_ring_def Cons)
qed

lemma left_ring:
  assumes "con_ring A cs k"
  shows "\<exists>k'. move_to_left_console k = Some k' \<and> con_ring A (if cs = [] then [] else last cs # butlast cs) k'"
proof (cases cs)
  case Nil
  then show ?thesis using assms by (auto simp: con_ring_def move_to_left_console_def)
next
  case (Cons c xs)
  have "c \<noteq> 0" using assms kernel_frame_nonzero by (auto simp: con_ring_def Cons)
  moreover have h: "con_held k (c # xs)" "current_console k = c" using assms by (auto simp: con_ring_def Cons)
  moreover obtain d where "get_con k c = Some d" "con_prev d = last (c # xs)"
    using con_nx_get [OF con_held_mem [OF h(1), of c]] con_held_next [OF h(1)] by auto
  moreover have "set (last cs # butlast cs) = set cs" using Cons
    by (metis append_butlast_last_id list.simps(3) rotate1.simps(2) set_rotate1)
  moreover have "con_held k (last cs # butlast cs)"
    using cr.rotate [of k "last cs" "butlast cs"] h(1) Cons by (metis append_butlast_last_id list.simps(3))
  ultimately show ?thesis using assms
    by (simp add: move_to_left_console_def con_ring_def Cons)
qed

section \<open>Opening\<close>

lemma get_con_set: "get_con (set_con f a k) b = (if a = b then map_option f (get_con k b) else get_con k b)"
  by (auto simp: set_con_def split: option.splits)

lemma con_valid_set [simp]: "con_valid (set_con f a k) b = con_valid k b"
  by (simp add: con_valid_def get_con_set)

lemma set_con_comm: "set_con_prev a v (set_con_next a w k) = set_con_next a w (set_con_prev a v k)"
proof (cases "get_con k a")
  case (Some c)
  then show ?thesis by (cases c) (simp add: set_con_def)
qed (simp add: set_con_def)

lemma con_held_cong: "\<forall>a \<in> set cs. get_con k' a = get_con k a \<Longrightarrow> con_held k' cs = con_held k cs"
  using ring_cong [of cs "con_nx k'" "con_nx k" "con_pv k'" "con_pv k"]
  by (auto simp: held_def con_valid_def con_nx_def con_pv_def)

lemma link_ring:
  assumes h: "con_held k cs" and new: "con_valid k new" "new \<notin> set cs"
    and cur: "current_console k = (case cs of [] \<Rightarrow> 0 | c # _ \<Rightarrow> c)" "0 \<notin> set cs"
  shows "\<exists>k'. con_link new k = Some k' \<and> con_held k' (case cs of [] \<Rightarrow> [new] | c # xs \<Rightarrow> c # new # xs) \<and>
    (\<forall>a. a \<notin> set (new # cs) \<longrightarrow> get_con k' a = get_con k a) \<and>
    current_console k' = current_console k \<and> empty_console k' = empty_console k \<and>
    (\<forall>A. kernel_pool k' A = kernel_pool k A)"
proof (cases cs)
  case Nil
  then have "con_link new k = Some (set_con_prev new new (set_con_next new new k))"
    using cur new by (simp add: con_link_def mod_con_valid)
  then show ?thesis using Nil cr.alone [OF new(1)] by (auto simp: get_con_set)
next
  case (Cons c xs)
  have c: "current_console k = c" "c \<noteq> 0" "c \<noteq> new" "con_valid k c" "con_valid k (con_nx k c)"
    "con_nx k c \<in> set (c # xs)"
    using cur new h Cons con_held_mem [OF h] ring_next_mem [of "con_nx k" "con_pv k" c xs] by (auto simp: held_def)
  obtain d where d: "get_con k c = Some d" "con_next d = con_nx k c" using con_nx_get [OF c(4)] by blast
  let ?k2 = "set_con_prev new c (set_con_next new (con_nx k c) k)"
  let ?k' = "set_con_next c new (set_con_prev (con_nx k c) new ?k2)"
  have "con_link new k = Some ?k'"
    using c new d by (simp add: con_link_def mod_con_valid get_con_set)
  moreover have "con_held ?k' (c # new # xs)"
    unfolding set_con_comm using cr.insert_after [of k c xs new] h new Cons by simp
  ultimately show ?thesis using Cons c by (auto simp: get_con_set)
qed

lemma hd_case: "cs \<noteq> [] \<Longrightarrow> (case cs of [] \<Rightarrow> z | c # _ \<Rightarrow> c) = hd cs"
  by (cases cs) auto

lemma kalloc_frame:
  assumes "mm_mem_kalloc k = Some (p, k')"
  shows "objs k' = objs k" "current_console k' = current_console k" "empty_console k' = empty_console k"
  using assms by (auto simp: mm_mem_kalloc_def split: bind_splits)

lemma free_frame:
  assumes "mm_mem_free p k = Some k'"
  shows "objs k' = objs k" "current_console k' = current_console k" "empty_console k' = empty_console k"
  using assms by (auto simp: mm_mem_free_def Let_def split: bind_splits if_splits)

lemma open_ring:
  assumes r: "con_ring A cs k" and A: "A \<noteq> {}"
  shows "\<exists>new k'. con_open k = Some (new, k') \<and> new \<in> A \<and> con_ring (A - {new}) (case cs of [] \<Rightarrow> [new] | c # xs \<Rightarrow> new # xs @ [c]) k'"
proof -
  note R = r [unfolded con_ring_def]
  obtain new k1 where k1: "mm_mem_kalloc k = Some (new, k1)" "new \<in> A" "kernel_pool k1 (A - {new})"
    using kf.alloc_some [of k A] R A by blast
  note F = kalloc_frame [OF k1(1)]
  let ?k2 = "mod_ram (fold (\<lambda>i r. r(console_screen new + of_nat (2 * i) := 0,
            console_screen new + of_nat (2 * i + 1) := CONSOLE_STYLE_DEFAULT)) [0..<2000]) (put_obj new (Con new_console) k1)"
  have g: "get_con ?k2 a = get_con k a" if "a \<noteq> new" for a using that F by (simp add: get_con_def put_obj_def)
  have n: "new \<notin> set cs" "new \<noteq> empty_console k" using R k1(2) by auto
  have "con_held k cs" using R by simp
  then have h: "con_held ?k2 cs" using con_held_cong [of cs ?k2 k] g n by auto
  have v: "con_valid ?k2 new" by (simp add: con_valid_def)
  have cur: "current_console ?k2 = (case cs of [] \<Rightarrow> 0 | c # _ \<Rightarrow> c)" using R F by (simp add: put_obj_def)
  have z: "0 \<notin> set cs" using R kernel_frame_nonzero by auto
  let ?cs = "case cs of [] \<Rightarrow> [new] | c # xs \<Rightarrow> c # new # xs"
  obtain k3 where k3: "con_link new ?k2 = Some k3" "con_held k3 ?cs" "\<forall>a. a \<notin> set (new # cs) \<longrightarrow> get_con k3 a = get_con ?k2 a"
     "current_console k3 = current_console ?k2" "empty_console k3 = empty_console ?k2"
     "\<forall>A. kernel_pool k3 A = kernel_pool ?k2 A"
    using link_ring [OF h v n(1) cur z] by blast
  let ?k4 = "mod_ram (copy_memory_to_screen (console_screen new))
     ((mod_ram (copy_screen_to_memory (console_screen (current_console k3))) k3)\<lparr>current_console := new\<rparr>)"
  define cs' where "cs' = (case cs of [] \<Rightarrow> [new] | c # xs \<Rightarrow> new # xs @ [c])"
  have s: "set cs' = insert new (set cs)" "set ?cs = insert new (set cs)"
    by (auto simp: cs'_def split: list.splits)
  have hd: "(case cs' of [] \<Rightarrow> 0 | c # _ \<Rightarrow> c) = new" by (auto simp: cs'_def split: list.splits)
  have "con_open k = Some (new, ?k4)" using k1(1) k3(1) by (simp add: con_open_def)
  moreover have "con_ring (A - {new}) cs' ?k4"
    unfolding con_ring_def
  proof (intro conjI)
    show "kernel_pool ?k4 (A - {new})" using k1(3) k3(6) by simp
    have "con_held k3 cs'"
    proof (cases cs)
      case (Cons c xs)
      then show ?thesis using k3(2) cr.rotate [of k3 c "new # xs"] by (simp add: cs'_def)
    qed (use k3(2) in \<open>simp add: cs'_def\<close>)
    then show "con_held ?k4 cs'" by simp
    have "new \<in> kernel_frames" using kf.pool_sub R k1(2) by blast
    then show "set cs' \<subseteq> kernel_frames - (A - {new})" using R unfolding s by blast
    show "current_console ?k4 = (case cs' of [] \<Rightarrow> 0 | c # _ \<Rightarrow> c)" unfolding hd by simp
    have e: "empty_console ?k4 = empty_console k" using k3(5) F by (simp add: put_obj_def)
    show "empty_console ?k4 \<in> kernel_frames - (A - {new})" unfolding e using R by blast
    show "empty_console ?k4 \<in> set cs' \<or> con_held ?k4 [empty_console ?k4]"
    proof (cases "empty_console k \<in> set cs")
      case False
      then have "con_held k [empty_console k]" using R by blast
      moreover have "get_con k3 (empty_console k) = get_con k (empty_console k)" using k3(3) False n g by simp
      ultimately show ?thesis using con_held_cong [of "[empty_console k]" k3 k] e by simp
    next
      case True
      then show ?thesis unfolding e s by blast
    qed
  qed
  ultimately show ?thesis using k1(2) unfolding cs'_def by blast
qed

section \<open>Closing\<close>

lemma unlink_ring:
  assumes h: "con_held k (a # xs)" and ne: "xs \<noteq> []"
  shows "\<exists>k'. con_unlink a k = Some k' \<and> con_held k' xs \<and> get_con k' a = get_con k a \<and>
    (\<forall>b. b \<notin> set xs \<longrightarrow> get_con k' b = get_con k b) \<and>
    current_console k' = current_console k \<and> empty_console k' = empty_console k \<and>
    (\<forall>A. kernel_pool k' A = kernel_pool k A)"
proof -
  have r: "ring (con_nx k) (con_pv k) (a # xs)" using h by (simp add: held_def)
  obtain d where d: "get_con k a = Some d" "con_next d = con_nx k a" "con_prev d = con_pv k a"
    using con_nx_get [OF con_held_mem [OF h, of a]] by auto
  have m: "con_nx k a \<in> set xs" "con_pv k a \<in> set xs" "con_nx k a \<noteq> a" "con_pv k a \<noteq> a"
    using con_held_next [OF h] ring_distinct [OF r] ne by (auto simp: last_in_set)
  then have v: "con_valid k (con_nx k a)" "con_valid k (con_pv k a)" using con_held_mem [OF h] by auto
  let ?k' = "set_con_next (con_pv k a) (con_nx k a) (set_con_prev (con_nx k a) (con_pv k a) k)"
  have "con_unlink a k = Some ?k'"
    using d m v by (simp add: con_unlink_def mod_con_valid get_con_set)
  moreover have "con_held ?k' xs" by (rule cr.unlink [OF h ne])
  ultimately show ?thesis using m by (auto simp: get_con_set)
qed

lemma close_shared:
  assumes r: "con_ring A cs k" and c: "get_con k a = Some c" "1 < refcount (con_dev c)"
  shows "\<exists>k'. con_flush a k = Some (0, k') \<and> con_ring A cs k'"
proof -
  let ?k = "set_con (\<lambda>c. c\<lparr>con_dev := (con_dev c)\<lparr>refcount := refcount (con_dev c) - 1\<rparr>\<rparr>) a k"
  have "con_flush a k = Some (0, ?k)"
    using c c(1) [unfolded get_con_objs] by (simp add: con_flush_def add_ref_def set_con_def)
  moreover have "con_valid ?k = con_valid k" "con_nx ?k = con_nx k" "con_pv ?k = con_pv k"
    using c by (auto simp: con_nx_def con_pv_def get_con_set fun_eq_iff)
  then have "con_held ?k = con_held k" by (simp add: held_def [abs_def])
  ultimately show ?thesis using r by (simp add: con_ring_def)
qed

lemma drop_obj_conk [simp]:
  "current_console (drop_obj a k) = current_console k" "empty_console (drop_obj a k) = empty_console k"
  "kernel_pool (drop_obj a k) A = kernel_pool k A" "get_con (drop_obj a k) = (get_con k)(a := None)"
  by (auto simp: drop_obj_def kernel_pool_def get_con_def)

lemma release_ring:
  assumes "kernel_pool k A" "con_held k cs" "set cs \<subseteq> kernel_frames - insert a A" "a \<in> kernel_frames - A"
    "current_console k = (case cs of [] \<Rightarrow> 0 | c # _ \<Rightarrow> c)" "empty_console k \<in> kernel_frames - insert a A"
    "empty_console k \<in> set cs \<or> con_held k [empty_console k]"
  shows "\<exists>k'. mm_mem_free a k = Some k' \<and> con_ring (insert a A) cs (drop_obj a k')"
proof -
  obtain k' where k': "mm_mem_free a k = Some k'" "kernel_pool k' (insert a A)"
    using kf.release_back [of k A a] assms(1,4) by blast
  note F = free_frame [OF k'(1)]
  have g: "get_con (drop_obj a k') b = get_con k b" if "b \<noteq> a" for b using that F(1) by (simp add: get_con_def)
  moreover have "a \<notin> set cs" "empty_console k \<noteq> a" using assms(3,6) by auto
  ultimately have "con_held (drop_obj a k') cs = con_held k cs"
    "con_held (drop_obj a k') [empty_console k] = con_held k [empty_console k]"
    by (intro con_held_cong; auto)+
  then show ?thesis using assms k' F by (simp add: con_ring_def)
qed

lemma close_last:
  assumes r: "con_ring A cs k" and a: "a \<in> set cs" "a \<noteq> empty_console k"
    and c: "get_con k a = Some c" "\<not> 1 < refcount (con_dev c)"
  shows "\<exists>k'. con_flush a k = Some (0, k') \<and> con_ring (insert a A) (if cs = [a] then [empty_console k] else remove1 a cs) k'"
proof -
  note R = r [unfolded con_ring_def]
  obtain ys zs where cs: "cs = ys @ a # zs" "a \<notin> set ys" using split_list_first [OF a(1)] by blast
  have h: "con_held k (a # zs @ ys)" using R held_append [of k ys "a # zs"] by (simp add: cs)
  have ring: "ring (con_nx k) (con_pv k) (a # zs @ ys)" using h by (simp add: held_def)
  obtain d where d: "get_con k a = Some d" "con_next d = con_nx k a" "con_prev d = con_pv k a"
    using con_nx_get [OF con_held_mem [OF h, of a]] by auto
  then have cd: "c = d" using c by simp
  have a0: "a \<noteq> 0" "a \<in> kernel_frames - A" using R a(1) kernel_frame_nonzero by auto
  show ?thesis
  proof (cases "zs @ ys = []")
    case True
    then have one: "cs = [a]" "con_next d = a" "current_console k = a" using cs R h d(2) by (auto simp: held_def)
    let ?k = "move_to_empty_console k"
    have "con_held k [empty_console k]" using R one a(2) by auto
    then obtain k' where "mm_mem_free a ?k = Some k'" "con_ring (insert a A) [empty_console k] (drop_obj a k')"
      using release_ring [of ?k A "[empty_console k]" a] R a(2) a0(2) by (auto simp: move_to_empty_console_def)
    then show ?thesis using one c cd by (auto simp: con_flush_def con_unlink_def)
  next
    case False
    then have ne: "con_next d \<noteq> a" using ring_alone_iff [OF ring] d(2) by simp
    obtain k2 where k2: "con_unlink a k = Some k2" "con_held k2 (zs @ ys)" "get_con k2 a = get_con k a"
      "\<forall>b. b \<notin> set (zs @ ys) \<longrightarrow> get_con k2 b = get_con k b"
      "current_console k2 = current_console k" "empty_console k2 = empty_console k"
      "\<forall>A. kernel_pool k2 A = kernel_pool k A" using unlink_ring [OF h False] by blast
    have h2: "con_held k2 (ys @ zs)" using k2(2) held_append by blast
    have ring2: "remove1 a cs = ys @ zs" using cs by (simp add: remove1_append)
    have sub: "set (ys @ zs) \<subseteq> kernel_frames - insert a A" using R a(2) cs(2) ring_distinct [OF ring] by (auto simp: cs(1))
    have e: "empty_console k \<in> set (ys @ zs) \<or> con_held k2 [empty_console k]"
      using R a(2) k2(4) con_held_cong [of "[empty_console k]" k2 k] by (auto simp: cs)
    define k3 where "k3 = (if current_console k2 = a then the (move_to_right_console k2) else k2)"
    have k3: "(if current_console k2 = a then (if con_next d = a then Some (move_to_empty_console k2)
         else move_to_right_console k2) else Some k2) = Some k3"
      "objs k3 = objs k2" "empty_console k3 = empty_console k2" "\<forall>A. kernel_pool k3 A = kernel_pool k2 A"
      "current_console k3 = (if current_console k2 = a then con_nx k a else current_console k2)"
      using ne a0(1) k2(3) d by (auto simp: k3_def move_to_right_console_def)
    have cur: "current_console k3 = (case ys @ zs of [] \<Rightarrow> 0 | c # _ \<Rightarrow> c)"
    proof (cases ys)
      case Nil
      then have "current_console k2 = a" using R k2(5) by (simp add: cs)
      moreover have "con_nx k a = hd zs" using con_held_next [OF h] False Nil by (cases zs) auto
      ultimately show ?thesis using k3(5) False Nil by (cases zs) auto
    next
      case (Cons y ys')
      then have "current_console k2 = y" "y \<noteq> a" using R k2(5) cs by auto
      then show ?thesis using k3(5) Cons by simp
    qed
    have "con_held k3 = con_held k2" using con_held_objs [OF k3(2)] by blast
    then obtain k' where "mm_mem_free a k3 = Some k'" "con_ring (insert a A) (ys @ zs) (drop_obj a k')"
      using release_ring [of k3 A "ys @ zs" a] R k2(6,7) k3(3,4) h2 sub a0(2) cur e a(2) by auto
    moreover have "cs \<noteq> [a]" using cs(1) False by (cases ys) auto
    ultimately show ?thesis using c d k2(1,3) k3(1) cd ring2 by (auto simp: con_flush_def)
  qed
qed

section \<open>What opening and closing leave alone\<close>

text \<open>A structure is as it was, but for the links of a console.\<close>

fun no_links :: "obj \<Rightarrow> obj" where
  "no_links (Con c) = Con (c\<lparr>con_next := 0, con_prev := 0\<rparr>)"
| "no_links d = d"

lemma no_links_con: "no_links d = Con (c\<lparr>con_next := 0, con_prev := 0\<rparr>) \<Longrightarrow> \<exists>c'. d = Con c' \<and> con_dev c' = con_dev c"
proof (cases d)
  case (Con c')
  assume "no_links d = Con (c\<lparr>con_next := 0, con_prev := 0\<rparr>)"
  then have "con_dev (c'\<lparr>con_next := 0, con_prev := 0\<rparr>) = con_dev (c\<lparr>con_next := 0, con_prev := 0\<rparr>)" by (simp add: Con)
  then show ?thesis using Con by simp
qed simp_all

lemma no_links_pipe: "no_links d = Pipe p \<Longrightarrow> d = Pipe p"
  by (cases d) auto

definition relinked :: "'a devk_scheme \<Rightarrow> 'b devk_scheme \<Rightarrow> u32 \<Rightarrow> bool" where
  "relinked k k' b \<longleftrightarrow> map_option no_links (objs k' b) = map_option no_links (objs k b)"

lemma mod_con_relinked:
  "mod_con a (\<lambda>c. c\<lparr>con_next := v\<rparr>) k = Some k' \<Longrightarrow> relinked k k' b"
  "mod_con a (\<lambda>c. c\<lparr>con_prev := v\<rparr>) k = Some k' \<Longrightarrow> relinked k k' b"
  by (auto simp: mod_con_def relinked_def put_obj_def get_con_def split: bind_splits option.splits obj.splits)

lemma con_unlink_relinked: "con_unlink a k = Some k' \<Longrightarrow> relinked k k' b"
  by (auto simp: con_unlink_def relinked_def split: bind_splits if_splits
      dest!: mod_con_relinked [where b = b, unfolded relinked_def])

lemma con_link_relinked: "con_link a k = Some k' \<Longrightarrow> relinked k k' b"
  by (auto simp: con_link_def relinked_def split: bind_splits if_splits
      dest!: mod_con_relinked [where b = b, unfolded relinked_def])

lemma move_objs:
  "objs (move_to_empty_console k) = objs k" "move_to_right_console k = Some k' \<Longrightarrow> objs k' = objs k"
  "move_to_left_console k = Some k' \<Longrightarrow> objs k' = objs k"
  by (auto simp: move_to_empty_console_def move_to_right_console_def move_to_left_console_def split: bind_splits if_splits)

lemma con_close_relinked:
  assumes "con_flush a k = Some (st, k')" "get_con k a = Some c" "\<not> 1 < refcount (con_dev c)"
  shows "objs k' a = None" "b \<noteq> a \<Longrightarrow> relinked k k' b"
proof -
  obtain k1 where k1: "con_unlink a k = Some k1" using assms by (auto simp: con_flush_def split: bind_splits if_splits)
  obtain d where d: "get_con k1 a = Some d" using assms k1 by (auto simp: con_flush_def split: bind_splits)
  let ?m = "if current_console k1 = a then if con_next d = a then Some (move_to_empty_console k1) else move_to_right_console k1
        else Some k1"
  obtain k2 where m: "?m = Some k2" using assms k1 d by (cases ?m) (simp_all add: con_flush_def)
  have "mm_mem_free a k2 \<bind> (\<lambda>k. Some (0, drop_obj a k)) = Some (st, k')" using assms k1 d m by (simp add: con_flush_def)
  then obtain k3 where k3: "mm_mem_free a k2 = Some k3" and k': "k' = drop_obj a k3" by (auto split: bind_splits)
  have k2: "objs k2 = objs k1" using m by (auto simp: move_objs dest: move_objs(2) split: if_splits)
  show "objs k' a = None" by (simp add: k')
  assume "b \<noteq> a"
  then have "objs k' b = objs k1 b" using k2 free_frame(1) [OF k3] by (simp add: k')
  then show "relinked k k' b" using con_unlink_relinked [OF k1, of b] by (simp add: relinked_def)
qed

lemma con_open_relinked:
  assumes "con_open k = Some (new, k')"
  shows "b \<noteq> new \<Longrightarrow> relinked k k' b" "\<exists>c. get_con k' new = Some c \<and> con_dev c = con_dev new_console"
proof -
  obtain k1 where k1: "mm_mem_kalloc k = Some (new, k1)" using assms by (auto simp: con_open_def split: bind_splits)
  define k2 where "k2 = mod_ram (fold (\<lambda>i r. r(console_screen new + of_nat (2 * i) := 0,
            console_screen new + of_nat (2 * i + 1) := CONSOLE_STYLE_DEFAULT)) [0..<2000]) (put_obj new (Con new_console) k1)"
  then have k2: "objs k2 = (objs k1)(new \<mapsto> Con new_console)" by (simp add: put_obj_def)
  obtain k3 where k3: "con_link new k2 = Some k3" and k': "objs k' = objs k3"
    using assms k1 by (auto simp: con_open_def k2_def split: bind_splits)
  have r: "map_option no_links (objs k' b) = map_option no_links (objs k2 b)" for b
    using con_link_relinked [OF k3, of b] k' by (simp add: relinked_def)
  show "\<exists>c. get_con k' new = Some c \<and> con_dev c = con_dev new_console"
    using r [of new] k2 by (auto simp: get_con_def dest: no_links_con split: option.splits obj.splits)
  assume "b \<noteq> new"
  then show "relinked k k' b" using r [of b] k2 kalloc_frame(1) [OF k1] by (simp add: relinked_def)
qed

lemma relinked_get:
  assumes "relinked k k' b"
  shows "get_con k b = Some c \<Longrightarrow> \<exists>c'. get_con k' b = Some c' \<and> con_dev c' = con_dev c"
    and "get_con k b = None \<longleftrightarrow> get_con k' b = None" and "objs k b = Some (Pipe p) \<Longrightarrow> objs k' b = Some (Pipe p)"
  using assms no_links_con no_links_pipe
  by (fastforce simp: relinked_def get_con_def split: option.splits obj.splits)+

lemma refer_ring:
  assumes r: "con_ring A cs k" and a: "a \<in> set cs"
  shows "\<exists>k'. add_ref n a k = Some k' \<and> con_ring A cs k'"
proof -
  have "con_valid k a" using r a con_held_mem by (auto simp: con_ring_def)
  then obtain c where c: "get_con k a = Some c" by (auto simp: con_valid_def)
  let ?k = "set_con (\<lambda>c. c\<lparr>con_dev := (con_dev c)\<lparr>refcount := refcount (con_dev c) + n\<rparr>\<rparr>) a k"
  have "add_ref n a k = Some ?k" using c c [unfolded get_con_objs] by (simp add: add_ref_def set_con_def)
  moreover have "con_valid ?k = con_valid k" "con_nx ?k = con_nx k" "con_pv ?k = con_pv k"
    using c by (auto simp: con_nx_def con_pv_def get_con_set fun_eq_iff)
  then have "con_held ?k = con_held k" by (simp add: held_def [abs_def])
  ultimately show ?thesis using r by (simp add: con_ring_def)
qed

lemma mod_con_conk:
  "mod_con a f k = Some k' \<Longrightarrow> empty_console k' = empty_console k"
  by (auto simp: mod_con_def put_obj_def split: bind_splits)

lemma move_empty:
  "empty_console (move_to_empty_console k) = empty_console k"
  "move_to_right_console k = Some k' \<Longrightarrow> empty_console k' = empty_console k"
  "move_to_left_console k = Some k' \<Longrightarrow> empty_console k' = empty_console k"
  by (auto simp: move_to_empty_console_def move_to_right_console_def move_to_left_console_def split: bind_splits if_splits)

lemma con_open_empty: "con_open k = Some (a, k') \<Longrightarrow> empty_console k' = empty_console k"
  by (auto simp: con_open_def con_link_def put_obj_def split: bind_splits if_splits dest!: mod_con_conk kalloc_frame(3))

lemma con_flush_empty: "con_flush a k = Some (st, k') \<Longrightarrow> empty_console k' = empty_console k"
  by (auto simp: con_flush_def con_unlink_def add_ref_def put_obj_def move_empty(1) split: bind_splits if_splits
      dest!: mod_con_conk move_empty(2) free_frame(3))

section \<open>Runs\<close>

text \<open>What happens to consoles. A console is opened at the address that the event names; \<open>C_refer\<close> counts one
  more descriptor, as an open or a fork does; \<open>C_close\<close> is a call of \<open>con_flush\<close>.\<close>

datatype con_event = C_open u32 | C_refer u32 | C_close u32 | C_right | C_left

inductive con_run :: "'a conk_scheme \<Rightarrow> con_event list \<Rightarrow> 'a conk_scheme \<Rightarrow> bool" for k0 where
  start: "con_run k0 [] k0"
| opens: "con_run k0 es k \<Longrightarrow> con_open k = Some (a, k') \<Longrightarrow> con_run k0 (es @ [C_open a]) k'"
| refers: "con_run k0 es k \<Longrightarrow> add_ref 1 a k = Some k' \<Longrightarrow> con_run k0 (es @ [C_refer a]) k'"
| closes: "con_run k0 es k \<Longrightarrow> con_flush a k = Some (st, k') \<Longrightarrow> con_run k0 (es @ [C_close a]) k'"
| right: "con_run k0 es k \<Longrightarrow> move_to_right_console k = Some k' \<Longrightarrow> con_run k0 (es @ [C_right]) k'"
| left: "con_run k0 es k \<Longrightarrow> move_to_left_console k = Some k' \<Longrightarrow> con_run k0 (es @ [C_left]) k'"

text \<open>The same on a list of consoles, seen from the current one, and the number of descriptors of each. A
  console is opened behind the current one and becomes the current one; the close of the last descriptor
  takes it off the list, and in place of the last console the empty console \<open>e\<close> is shown. None is an
  illegal event: a second console at the same address, the close of a console that is not open, or the
  empty console, which has no descriptor, as the argument of an event.\<close>

fun con_spec1 :: "u32 \<Rightarrow> con_event \<Rightarrow> u32 list \<times> (u32 \<Rightarrow> nat) \<Rightarrow> (u32 list \<times> (u32 \<Rightarrow> nat)) option" where
  "con_spec1 e (C_open a) (cs, r) =
     (if a \<noteq> 0 \<and> a \<noteq> e \<and> a \<notin> set cs then Some (case cs of [] \<Rightarrow> [a] | c # xs \<Rightarrow> a # xs @ [c], r(a := 0)) else None)"
| "con_spec1 e (C_refer a) (cs, r) =
     (if a \<in> set cs \<and> a \<noteq> e \<and> r a < MAX_PID * MAX_FD then Some (cs, r(a := r a + 1)) else None)"
| "con_spec1 e (C_close a) (cs, r) =
     (if a \<in> set cs \<and> a \<noteq> e
      then if 1 < r a then Some (cs, r(a := r a - 1)) else Some (if cs = [a] then [e] else remove1 a cs, r(a := 0))
      else None)"
| "con_spec1 e C_right (cs, r) = Some (rotate1 cs, r)"
| "con_spec1 e C_left (cs, r) = Some (if cs = [] then [] else last cs # butlast cs, r)"

fun con_spec :: "u32 \<Rightarrow> con_event list \<Rightarrow> u32 list \<times> (u32 \<Rightarrow> nat) \<Rightarrow> (u32 list \<times> (u32 \<Rightarrow> nat)) option" where
  "con_spec e [] s = Some s"
| "con_spec e (x # es) s = do { s' \<leftarrow> con_spec1 e x s; con_spec e es s' }"

lemma con_spec_snoc: "con_spec e (es @ [x]) s = do { s' \<leftarrow> con_spec e es s; con_spec1 e x s' }"
proof (induction es arbitrary: s)
  case Nil
  have "con_spec e [] = Some" by (rule ext) simp
  then show ?case by simp
next
  case (Cons y es)
  then show ?case by (cases "con_spec1 e y s") simp_all
qed

text \<open>The kernel's state represents a list of consoles with their counts: the list is the ring, there is no
  other console but the empty one, and the counts are in the structures.\<close>

definition con_repr :: "u32 set \<Rightarrow> u32 list \<times> (u32 \<Rightarrow> nat) \<Rightarrow> 'a conk_scheme \<Rightarrow> bool" where
  "con_repr A s k \<longleftrightarrow> (case s of (cs, r) \<Rightarrow> con_ring A cs k \<and>
     (\<forall>a. get_con k a \<noteq> None \<longleftrightarrow> a \<in> insert (empty_console k) (set cs)) \<and>
     (\<forall>a \<in> set cs - {empty_console k}. r a \<le> MAX_PID * MAX_FD \<and>
        (\<exists>c. get_con k a = Some c \<and> refcount (con_dev c) = of_nat (r a))))"

lemma con_repr_ring: "con_repr A (cs, r) k \<Longrightarrow> con_ring A cs k"
  by (simp add: con_repr_def)

lemma ring_no_zero: "con_ring A cs k \<Longrightarrow> 0 \<notin> set cs \<and> 0 \<notin> A \<and> A \<inter> insert (empty_console k) (set cs) = {}"
  using kernel_frame_nonzero kf.pool_sub [of k A] by (auto simp: con_ring_def)

text \<open>Each operation does what the event says.\<close>

lemma open_repr:
  assumes R: "con_repr A (cs, r) k" and A: "A \<noteq> {}"
  shows "\<exists>a k' s'. con_open k = Some (a, k') \<and> a \<in> A \<and> con_spec1 (empty_console k) (C_open a) (cs, r) = Some s' \<and>
     con_repr (A - {a}) s' k' \<and> empty_console k' = empty_console k"
proof -
  let ?e = "empty_console k" and ?cs = "\<lambda>a. case cs of [] \<Rightarrow> [a] | c # xs \<Rightarrow> a # xs @ [c]"
  note ring = con_repr_ring [OF R]
  obtain a k' where k': "con_open k = Some (a, k')" "a \<in> A" "con_ring (A - {a}) (?cs a) k'"
    using open_ring [OF ring A] by blast
  have e: "empty_console k' = ?e" using con_open_empty [OF k'(1)] .
  have n: "a \<noteq> 0" "a \<noteq> ?e" "a \<notin> set cs" using ring_no_zero [OF ring] k'(2) by auto
  have s: "set (?cs a) = insert a (set cs)" by (auto split: list.splits)
  obtain c where c: "get_con k' a = Some c" "con_dev c = con_dev new_console" using con_open_relinked(2) [OF k'(1)] by blast
  have g: "get_con k' b = None \<longleftrightarrow> get_con k b = None" if "b \<noteq> a" for b
    using relinked_get(2) [OF con_open_relinked(1) [OF k'(1) that]] by simp
  have "get_con k' b \<noteq> None \<longleftrightarrow> b \<in> insert ?e (set (?cs a))" for b
    using R g [of b] c(1) unfolding s by (cases "b = a") (auto simp: con_repr_def)
  moreover have "(r(a := 0)) b \<le> MAX_PID * MAX_FD \<and> (\<exists>c. get_con k' b = Some c \<and> refcount (con_dev c) = of_nat ((r(a := 0)) b))"
    if "b \<in> set (?cs a) - {?e}" for b
  proof (cases "b = a")
    case True
    then show ?thesis using c by (simp add: new_console_def)
  next
    case False
    then have "b \<in> set cs - {?e}" using that s by auto
    then show ?thesis using R relinked_get(1) [OF con_open_relinked(1) [OF k'(1) False]] False
      by (fastforce simp: con_repr_def)
  qed
  ultimately have "con_repr (A - {a}) (?cs a, r(a := 0)) k'" using k'(3) by (simp add: con_repr_def e)
  then show ?thesis using k'(1,2) n e by simp
qed

lemma add_ref_con:
  assumes "get_con k a = Some c"
  shows "add_ref n a k = Some (set_con (\<lambda>c. c\<lparr>con_dev := (con_dev c)\<lparr>refcount := refcount (con_dev c) + n\<rparr>\<rparr>) a k)"
  using assms assms [unfolded get_con_objs] by (simp add: add_ref_def set_con_def)

lemma count_repr:
  assumes R: "con_repr A (cs, r) k" and a: "a \<in> set cs" "a \<noteq> empty_console k"
    and n: "m \<le> MAX_PID * MAX_FD" "of_nat m = of_nat (r a) + n"
  shows "\<exists>k'. add_ref n a k = Some k' \<and> con_repr A (cs, r(a := m)) k' \<and> empty_console k' = empty_console k"
proof -
  obtain c where c: "get_con k a = Some c" "refcount (con_dev c) = of_nat (r a)" using R a by (auto simp: con_repr_def)
  let ?k = "set_con (\<lambda>c. c\<lparr>con_dev := (con_dev c)\<lparr>refcount := refcount (con_dev c) + n\<rparr>\<rparr>) a k"
  obtain k' where k': "add_ref n a k = Some k'" "con_ring A cs k'" using refer_ring [OF con_repr_ring [OF R] a(1)] by blast
  then have "k' = ?k" using add_ref_con [OF c(1), of n] by simp
  then have "con_repr A (cs, r(a := m)) k'" "empty_console k' = empty_console k"
    using R k'(2) c n by (auto simp: con_repr_def get_con_set)
  then show ?thesis using k'(1) by blast
qed

lemma close_repr:
  assumes R: "con_repr A (cs, r) k" and a: "a \<in> set cs" "a \<noteq> empty_console k"
  shows "\<exists>k' s' A'. con_flush a k = Some (0, k') \<and> con_spec1 (empty_console k) (C_close a) (cs, r) = Some s' \<and>
     con_repr A' s' k' \<and> empty_console k' = empty_console k"
proof -
  let ?e = "empty_console k" and ?cs = "if cs = [a] then [empty_console k] else remove1 a cs"
  note ring = con_repr_ring [OF R]
  obtain c where c: "get_con k a = Some c" "refcount (con_dev c) = of_nat (r a)" "r a \<le> MAX_PID * MAX_FD"
    using R a by (auto simp: con_repr_def)
  then have ref: "1 < refcount (con_dev c) \<longleftrightarrow> 1 < r a" by (simp add: word_less_nat_alt unat_of_nat MAX_PID_def MAX_FD_def)
  show ?thesis
  proof (cases "1 < r a")
    case True
    then have "of_nat (r a - 1) = (of_nat (r a) :: u32) + (-1)" by (simp add: of_nat_diff)
    moreover have "r a - 1 \<le> MAX_PID * MAX_FD" using c(3) by linarith
    ultimately obtain k' where "add_ref (-1) a k = Some k'"
      "con_repr A (cs, r(a := r a - 1)) k'" "empty_console k' = ?e"
      using count_repr [OF R a] by metis
    then show ?thesis using True a c(1) ref by (auto simp: con_flush_def)
  next
    case False
    then have nc: "\<not> 1 < refcount (con_dev c)" using ref by simp
    obtain k' where k': "con_flush a k = Some (0, k')" "con_ring (insert a A) ?cs k'"
      using close_last [OF ring a c(1) nc] by blast
    note rl = con_close_relinked [OF k'(1) c(1) nc]
    have e: "empty_console k' = ?e" using con_flush_empty [OF k'(1)] .
    have "distinct cs" using ring ring_distinct by (auto simp: con_ring_def held_def)
    then have s: "insert ?e (set ?cs) = insert ?e (set cs) - {a}" "set ?cs - {?e} = set cs - {a, ?e}" using a by auto
    have g: "get_con k' b = None \<longleftrightarrow> get_con k b = None" if "b \<noteq> a" for b using relinked_get(2) [OF rl(2) [OF that]] by simp
    have "get_con k' b \<noteq> None \<longleftrightarrow> b \<in> insert ?e (set ?cs)" for b
      using R g [of b] rl(1) unfolding s(1) by (cases "b = a") (auto simp: con_repr_def get_con_def)
    moreover have "(r(a := 0)) b \<le> MAX_PID * MAX_FD \<and> (\<exists>c. get_con k' b = Some c \<and> refcount (con_dev c) = of_nat ((r(a := 0)) b))"
      if "b \<in> set ?cs - {?e}" for b
    proof -
      have b: "b \<noteq> a" "b \<in> set cs - {?e}" using that unfolding s(2) by auto
      then show ?thesis using R relinked_get(1) [OF rl(2) [OF b(1)]] by (fastforce simp: con_repr_def)
    qed
    ultimately have "con_repr (insert a A) (?cs, r(a := 0)) k'" using k'(2) by (simp add: con_repr_def e)
    then show ?thesis using False a k'(1) e by auto
  qed
qed

lemma move_repr:
  assumes R: "con_repr A (cs, r) k"
  shows "\<exists>k'. move_to_right_console k = Some k' \<and> con_repr A (rotate1 cs, r) k' \<and> empty_console k' = empty_console k"
    and "\<exists>k'. move_to_left_console k = Some k' \<and> con_repr A (if cs = [] then [] else last cs # butlast cs, r) k' \<and>
      empty_console k' = empty_console k"
proof -
  have m: "con_repr A (cs', r) k'" if "con_ring A cs' k'" "set cs' = set cs" "objs k' = objs k" "empty_console k' = empty_console k" for k' cs'
    using R that by (simp add: con_repr_def get_con_def [abs_def])
  obtain k' where k': "move_to_right_console k = Some k'" "con_ring A (rotate1 cs) k'" using right_ring [OF con_repr_ring [OF R]] by blast
  with m [OF k'(2)] move_empty(2) [OF k'(1)] move_objs(2) [OF k'(1)]
  show "\<exists>k'. move_to_right_console k = Some k' \<and> con_repr A (rotate1 cs, r) k' \<and> empty_console k' = empty_console k" by auto
  obtain k' where k': "move_to_left_console k = Some k'" "con_ring A (if cs = [] then [] else last cs # butlast cs) k'"
    using left_ring [OF con_repr_ring [OF R]] by blast
  have "cs \<noteq> [] \<Longrightarrow> set (last cs # butlast cs) = set cs"
    by (metis append_butlast_last_id rotate1.simps(2) set_rotate1)
  with m [OF k'(2)] move_empty(3) [OF k'(1)] move_objs(3) [OF k'(1)] k'(1)
  show "\<exists>k'. move_to_left_console k = Some k' \<and> con_repr A (if cs = [] then [] else last cs # butlast cs, r) k' \<and>
      empty_console k' = empty_console k" by auto
qed

lemma kalloc_none: "kernel_pool k {} \<Longrightarrow> mm_mem_kalloc k = None"
proof -
  assume p: "kernel_pool k {}"
  have "kernel_pf_info k ! j = PFI_OCCUPIED" if "j < 24" for j
  proof (rule ccontr)
    assume "kernel_pf_info k ! j \<noteq> PFI_OCCUPIED"
    then obtain n where "n < 32" "\<not> bit (kernel_pf_info k ! j) n" by (auto simp: not_occupied)
    then have "32 * j + n \<in> frames_free (kernel_pf_info k) 24" using that by (simp add: frames_free_def)
    then show False using p by (auto simp: kernel_pool_def)
  qed
  then show ?thesis using p pfi_scan_out [of 96 "kernel_pf_info k" 0]
    by (simp add: kernel_pool_def mm_mem_kalloc_def page_frame_info_alloc_def)
qed

lemma con_step_repr:
  assumes R: "con_repr A s k" and S: "con_spec1 (empty_console k) x s = Some s'"
    and run: "case x of C_open a \<Rightarrow> con_open k = Some (a, k') | C_refer a \<Rightarrow> add_ref 1 a k = Some k'
       | C_close a \<Rightarrow> (\<exists>st. con_flush a k = Some (st, k')) | C_right \<Rightarrow> move_to_right_console k = Some k'
       | C_left \<Rightarrow> move_to_left_console k = Some k'"
  shows "empty_console k' = empty_console k \<and> (\<exists>A'. con_repr A' s' k')"
proof -
  obtain cs r where s: "s = (cs, r)" by (cases s)
  note R = R [unfolded s] and S = S [unfolded s]
  show ?thesis
  proof (cases x)
    case (C_open a)
    have "kernel_pool k A" using con_repr_ring [OF R] by (simp add: con_ring_def)
    moreover have "\<exists>k1. mm_mem_kalloc k = Some (a, k1)" using run C_open by (auto simp: con_open_def split: bind_splits)
    ultimately have "A \<noteq> {}" using kalloc_none [of k] by auto
    from open_repr [OF R this] run S C_open show ?thesis by auto
  next
    case (C_refer a)
    then have "a \<in> set cs" "a \<noteq> empty_console k" "r a + 1 \<le> MAX_PID * MAX_FD" "s' = (cs, r(a := r a + 1))"
      using S by (auto split: if_splits)
    with count_repr [OF R this(1-3), of 1] run C_refer show ?thesis by auto
  next
    case (C_close a)
    then have "a \<in> set cs" "a \<noteq> empty_console k" using S by (auto split: if_splits)
    from close_repr [OF R this] run S C_close show ?thesis by auto
  next
    case C_right
    then show ?thesis using move_repr(1) [OF R] run S by auto
  next
    case C_left
    then show ?thesis using move_repr(2) [OF R] run S by auto
  qed
qed

text \<open>C28. The consoles are the ring: after any run of opens, references, closes and switches that is legal for
  an abstract list of consoles with their numbers of descriptors, the circular doubly linked list of the
  kernel is that list, beginning at the current console; there is no other console but the empty one, each
  lies on a kernel page in use, and its structure has its number of descriptors. A close with
  descriptors left only counts; the last one takes the console off the ring. And from there every
  operation returns: an open, while there is a kernel page, a close of any console of the list but the
  empty one, and the switches in both directions.\<close>

theorem console_ring_kept:
  assumes "con_repr A0 s0 k0" and "con_run k0 es k" and "con_spec (empty_console k0) es s0 = Some (cs, r)"
  shows "\<exists>A. con_repr A (cs, r) k \<and> (A \<noteq> {} \<longrightarrow> con_open k \<noteq> None) \<and>
     (\<forall>a \<in> set cs. a \<noteq> empty_console k0 \<longrightarrow> con_flush a k \<noteq> None) \<and>
     move_to_right_console k \<noteq> None \<and> move_to_left_console k \<noteq> None"
proof -
  let ?e = "empty_console k0"
  have "empty_console k = ?e \<and> (\<exists>A. con_repr A s k)" if "con_spec ?e es s0 = Some s" for s
    using assms(2) that
  proof (induction arbitrary: s rule: con_run.induct)
    case start
    then show ?case using assms(1) by auto
  next
    case (opens es k a k')
    then obtain s1 A where "empty_console k = ?e" "con_repr A s1 k" "con_spec1 ?e (C_open a) s1 = Some s"
      by (fastforce simp: con_spec_snoc bind_eq_Some_conv)
    with con_step_repr [of A s1 k "C_open a" s k'] opens.hyps(2) show ?case by simp
  next
    case (refers es k a k')
    then obtain s1 A where "empty_console k = ?e" "con_repr A s1 k" "con_spec1 ?e (C_refer a) s1 = Some s"
      by (fastforce simp: con_spec_snoc bind_eq_Some_conv)
    with con_step_repr [of A s1 k "C_refer a" s k'] refers.hyps(2) show ?case by simp
  next
    case (closes es k a st k')
    then obtain s1 A where "empty_console k = ?e" "con_repr A s1 k" "con_spec1 ?e (C_close a) s1 = Some s"
      by (fastforce simp: con_spec_snoc bind_eq_Some_conv)
    with con_step_repr [of A s1 k "C_close a" s k'] closes.hyps(2) show ?case by simp
  next
    case (right es k k')
    then obtain s1 A where "empty_console k = ?e" "con_repr A s1 k" "con_spec1 ?e C_right s1 = Some s"
      by (fastforce simp: con_spec_snoc bind_eq_Some_conv)
    with con_step_repr [of A s1 k C_right s k'] right.hyps(2) show ?case by simp
  next
    case (left es k k')
    then obtain s1 A where "empty_console k = ?e" "con_repr A s1 k" "con_spec1 ?e C_left s1 = Some s"
      by (fastforce simp: con_spec_snoc bind_eq_Some_conv)
    with con_step_repr [of A s1 k C_left s k'] left.hyps(2) show ?case by simp
  qed
  from this [OF assms(3)] obtain A where e: "empty_console k = ?e" and R: "con_repr A (cs, r) k" by blast
  have "A \<noteq> {} \<longrightarrow> con_open k \<noteq> None" using open_repr [OF R] by fastforce
  moreover have "a \<in> set cs \<Longrightarrow> a \<noteq> ?e \<Longrightarrow> con_flush a k \<noteq> None" for a using close_repr [OF R, of a] e by auto
  moreover have "move_to_right_console k \<noteq> None" "move_to_left_console k \<noteq> None" using move_repr [OF R] by auto
  ultimately show ?thesis using R by blast
qed

text \<open>The state after \<open>con_init\<close>: the empty console on the first kernel page, and no current one.\<close>

definition con_start :: conk where
  "con_start = (with_con kern_two_tasks 0x100000 (new_console\<lparr>con_next := 0x100000, con_prev := 0x100000\<rparr>))
     \<lparr>current_console := 0, empty_console := 0x100000, kernel_pf_info := 1 # replicate 23 0\<rparr>"

lemma frame_zero: "frame_at KRN_MEM_START 0 = 0x100000"
  by (simp add: frame_at_def KRN_MEM_START_def)

lemma con_start_ring: "\<exists>A. con_ring A [] con_start \<and> A \<noteq> {}"
proof -
  let ?A = "frame_at KRN_MEM_START ` frames_free (1 # replicate 23 0) 24"
  have "0 \<notin> frames_free (1 # replicate 23 0) 24" "1 \<in> frames_free (1 # replicate 23 0) 24"
    by (simp_all add: frames_free_def)
  moreover from this(1) have "0x100000 \<notin> ?A"
    using frame_at_inj [of KRN_MEM_START _ 0] frame_zero by (auto simp: frames_free_def KRN_MEM_START_def)
  moreover have "0x100000 \<in> kernel_frames" using frame_zero by (auto simp: kernel_frames_def intro!: image_eqI [of _ _ 0])
  moreover have "con_held con_start [0x100000]"
    by (simp add: held_def con_nx_def con_pv_def con_valid_def con_start_def get_con_def)
  ultimately have "con_ring ?A [] con_start" "?A \<noteq> {}"
    by (auto simp: con_ring_def kernel_pool_def con_start_def held_def)
  then show ?thesis by blast
qed

lemma con_start_repr: "\<exists>A. con_repr A ([], \<lambda>_. 0) con_start \<and> A \<noteq> {}"
proof -
  obtain A where "con_ring A [] con_start" "A \<noteq> {}" using con_start_ring by blast
  moreover have "get_con con_start a \<noteq> None \<longleftrightarrow> a = empty_console con_start" for a
    by (simp add: con_start_def get_con_def with_con_def)
  ultimately show ?thesis by (auto simp: con_repr_def)
qed

text \<open>A console with two descriptors, of which one is closed.\<close>

theorem console_ring_kept_witness:
  "\<exists>(k :: conk) a c. con_run con_start [C_open a, C_refer a, C_refer a, C_close a] k \<and> current_console k = a \<and>
     get_con k a = Some c \<and> refcount (con_dev c) = 1 \<and> con_flush a k \<noteq> None"
proof -
  let ?e = "empty_console con_start"
  obtain A where A: "con_repr A ([], \<lambda>_. 0) con_start" "A \<noteq> {}" using con_start_repr by blast
  obtain a k1 where k1: "con_open con_start = Some (a, k1)" "a \<noteq> 0" "a \<noteq> ?e" "con_repr (A - {a}) ([a], (\<lambda>_. 0)(a := 0)) k1"
     "empty_console k1 = ?e" using open_repr [OF A] by (auto split: if_splits)
  obtain k2 where k2: "add_ref 1 a k1 = Some k2" "con_repr (A - {a}) ([a], (\<lambda>_. 0)(a := 1)) k2" "empty_console k2 = ?e"
    using count_repr [OF k1(4), of a 1 1] k1 by (auto simp: MAX_PID_def MAX_FD_def)
  obtain k3 where k3: "add_ref 1 a k2 = Some k3" "con_repr (A - {a}) ([a], (\<lambda>_. 0)(a := 2)) k3" "empty_console k3 = ?e"
    using count_repr [OF k2(2), of a 2 1] k2 k1 by (auto simp: MAX_PID_def MAX_FD_def)
  obtain k4 where k4: "con_flush a k3 = Some (0, k4)" using close_repr [OF k3(2), of a] k3(3) k1(3) by auto
  have "con_run con_start ([] @ [C_open a]) k1" by (rule con_run.opens [OF con_run.start k1(1)])
  from con_run.closes [OF con_run.refers [OF con_run.refers [OF this k2(1)] k3(1)] k4]
  have run: "con_run con_start [C_open a, C_refer a, C_refer a, C_close a] k4" by simp
  have "con_spec ?e [C_open a, C_refer a, C_refer a, C_close a] ([], \<lambda>_. 0) = Some ([a], (\<lambda>_. 0)(a := 1))"
    using k1(2,3) by (simp add: MAX_PID_def MAX_FD_def)
  from console_ring_kept [OF A(1) run this] k1(3) obtain B where
    "con_repr B ([a], (\<lambda>_. 0)(a := 1)) k4" "con_flush a k4 \<noteq> None" by auto
  moreover have "empty_console k4 = ?e" using con_flush_empty [OF k4] k3(3) by simp
  ultimately show ?thesis using run k1(3) by (auto simp: con_repr_def con_ring_def)
qed

text \<open>C24. After the last console is closed the empty console is shown, and is the current one: the next
  console opened is linked to it. From then on the switch to the right shows the empty console, which
  is in no descriptor and can never be closed.\<close>

theorem empty_console_joins_ring:
  assumes r: "con_ring A [a] k" and a: "a \<noteq> empty_console k"
    and c: "get_con k a = Some c" "refcount (con_dev c) \<le> 1"
  shows "\<exists>k1 new k2 k3 B. con_flush a k = Some (0, k1) \<and> current_console k1 = empty_console k \<and>
     con_open k1 = Some (new, k2) \<and> con_ring B [new, empty_console k] k2 \<and>
     move_to_right_console k2 = Some k3 \<and> current_console k3 = empty_console k"
proof -
  obtain k1 where k1: "con_flush a k = Some (0, k1)" "con_ring (insert a A) [empty_console k] k1"
    using close_last [OF r _ a c(1)] c(2) by (auto simp: not_less)
  obtain new k2 where k2: "con_open k1 = Some (new, k2)" "con_ring (insert a A - {new}) [new, empty_console k] k2"
    using open_ring [OF k1(2)] by auto
  obtain k3 where k3: "move_to_right_console k2 = Some k3" "con_ring (insert a A - {new}) [empty_console k, new] k3"
    using right_ring [OF k2(2)] by auto
  have "current_console k1 = empty_console k" "current_console k3 = empty_console k"
    using k1(2) k3(2) by (simp_all add: con_ring_def)
  with k1(1) k2 k3(1) show ?thesis by blast
qed

definition con_one :: conk where
  "con_one = con_start\<lparr>objs := (objs con_start)(0x101000 \<mapsto> Con (new_console\<lparr>con_next := 0x101000, con_prev := 0x101000\<rparr>)),
     current_console := 0x101000, kernel_pf_info := 3 # replicate 23 0\<rparr>"

lemma con_one_ring: "\<exists>A. con_ring A [0x101000] con_one"
proof -
  let ?A = "frame_at KRN_MEM_START ` frames_free (3 # replicate 23 0) 24"
  have f: "0 \<notin> frames_free (3 # replicate 23 0) 24" "1 \<notin> frames_free (3 # replicate 23 0) 24"
    by (simp_all add: frames_free_def bit_1_iff [of 0] bit_numeral_rec)
  have one: "frame_at KRN_MEM_START 1 = 0x101000" by (simp add: frame_at_def KRN_MEM_START_def PAGE_SIZE_def)
  have "0x100000 \<notin> ?A" "0x101000 \<notin> ?A"
    using f frame_at_inj [of KRN_MEM_START _ 0] frame_at_inj [of KRN_MEM_START _ 1] frame_zero one
    by (auto simp: frames_free_def KRN_MEM_START_def)
  moreover have "0x100000 \<in> kernel_frames" "0x101000 \<in> kernel_frames"
    using frame_zero one by (auto simp: kernel_frames_def intro: image_eqI [of _ _ 0] image_eqI [of _ _ 1])
  moreover have "con_held con_one [0x100000]" "con_held con_one [0x101000]"
    by (simp_all add: held_def con_nx_def con_pv_def con_valid_def con_start_def con_one_def get_con_def)
  ultimately have "con_ring ?A [0x101000] con_one"
    by (auto simp: con_ring_def kernel_pool_def con_one_def con_start_def)
  then show ?thesis by blast
qed

theorem empty_console_joins_ring_witness:
  "\<exists>k1 new k2 k3. con_flush 0x101000 con_one = Some (0, k1) \<and> con_open k1 = Some (new, k2) \<and>
     move_to_right_console k2 = Some k3 \<and> current_console k3 = 0x100000"
proof -
  obtain A where A: "con_ring A [0x101000] con_one" using con_one_ring by blast
  have c: "get_con con_one 0x101000 = Some (new_console\<lparr>con_next := 0x101000, con_prev := 0x101000\<rparr>)"
    by (simp add: con_one_def get_con_def)
  have e: "empty_console con_one = 0x100000" by (simp add: con_one_def con_start_def)
  have ne: "0x101000 \<noteq> empty_console con_one" by (simp add: e)
  have "refcount (con_dev (new_console\<lparr>con_next := 0x101000, con_prev := 0x101000\<rparr>)) \<le> 1" by (simp add: new_console_def)
  from empty_console_joins_ring [OF A ne c this] show ?thesis unfolding e by blast
qed

end
