(* ===== verification/Console_Screen.thy ===== *)
theory Console_Screen
  imports Console_Spec
begin

text \<open>
  Where a write to a console goes: to the screen of the console and to video memory, with the cursor
  kept above the status line, and the rows of video memory whichever console it shows.
\<close>

section \<open>Addresses of a screen\<close>

definition screen :: "u32 \<Rightarrow> u32 set" where
  "screen v = (\<lambda>i. v + of_nat i) ` {..<4000}"

definition cell :: "u8 \<Rightarrow> u8 \<Rightarrow> nat" where
  "cell fila col = 160 * unat fila + 2 * unat col"

lemma cell_addr: "vga_cols * 2 * ucast fila + ucast col * 2 = (of_nat (cell fila col) :: u32)"
proof -
  have "(ucast x :: u32) = of_nat (unat x)" for x :: u8 by simp
  then show ?thesis by (simp add: cell_def vga_cols_def)
qed

lemma cell_bound: "fila \<le> 24 \<Longrightarrow> col < 80 \<Longrightarrow> cell fila col < 4000"
  by (simp add: cell_def word_le_nat_alt word_less_nat_alt)

lemma in_screen: "i < 4000 \<Longrightarrow> v + of_nat i \<in> screen v"
  by (auto simp: screen_def)

text \<open>Memory that differs only on the screens at \<open>a\<close> and in video memory.\<close>

definition same_off :: "u32 \<Rightarrow> ram \<Rightarrow> ram \<Rightarrow> bool" where
  "same_off a r r' \<longleftrightarrow> (\<forall>x. x \<notin> screen a \<longrightarrow> x \<notin> screen vga_addr \<longrightarrow> r' x = r x)"

lemma same_off_refl [simp]: "same_off a r r"
  by (simp add: same_off_def)

lemma same_off_trans: "same_off a r s \<Longrightarrow> same_off a s t \<Longrightarrow> same_off a r t"
  by (simp add: same_off_def)

section \<open>Writing one character\<close>

lemma loop_ends: "cant \<noteq> 0 \<Longrightarrow> i \<ge> unat cant \<Longrightarrow> vga_write_loop msg attr cant i video limit r = Some r"
  by (subst vga_write_loop.simps) auto

lemma loop_step: "cant \<noteq> 0 \<Longrightarrow> i < unat cant \<Longrightarrow> i < length msg \<Longrightarrow> video < limit \<Longrightarrow>
  vga_write_loop msg attr cant i video limit r = vga_write_loop msg attr cant (i + 1) (video + 2) limit (r(video := msg ! i, video + 1 := attr))"
  by (subst vga_write_loop.simps) auto

lemma below_limit: "(v :: u32) < 0xC00000 \<Longrightarrow> i < 4000 \<Longrightarrow> v + of_nat i < v + of_nat i + 4000 \<and> v + of_nat i + 2 < v + of_nat i + 4000"
  by (simp add: word_less_nat_alt unat_word_ariths unat_of_nat)

lemma write_one:
  assumes "v < 0xC00000" "cell fila col < 4000"
  shows "vga_write_in_memory v fila col (b # bs) attr 1 r =
    Some (r(v + of_nat (cell fila col) := b, v + of_nat (cell fila col) + 1 := attr))"
  using below_limit [OF assms]
  by (simp add: vga_write_in_memory_def cell_addr loop_step loop_ends Let_def)

lemma write_two:
  assumes "v < 0xC00000" "cell fila col < 4000"
  shows "vga_write_in_memory v fila col (b # b' # bs) attr 2 r =
    Some (r(v + of_nat (cell fila col) := b, v + of_nat (cell fila col) + 1 := attr,
            v + of_nat (cell fila col) + 2 := b', v + of_nat (cell fila col) + 2 + 1 := attr))"
  using below_limit [OF assms]
  by (simp add: vga_write_in_memory_def cell_addr loop_step loop_ends Let_def)

definition home :: "u32 \<Rightarrow> 'a conk_scheme \<Rightarrow> u32" where
  "home this k = (if current_console k = this then vga_addr else console_screen this)"

lemma home_low: "this < 0x400000 \<Longrightarrow> home this k < 0xC00000"
  by (auto simp: home_def vga_addr_def console_screen_def word_less_nat_alt unat_word_ariths)

lemma home_screen: "i < 4000 \<Longrightarrow> home this k + of_nat i \<in> screen (console_screen this) \<union> screen vga_addr"
  using in_screen by (auto simp: home_def)

lemma even_cell: "even (cell fila col)"
  by (simp add: cell_def)

lemma home_off:
  "i + j < 4000 \<Longrightarrow> home this k + of_nat i + of_nat j \<in> screen (console_screen this) \<or>
     home this k + of_nat i + of_nat j \<in> screen vga_addr"
  using home_screen [of "i + j" this k] by (simp add: add.assoc)

lemma same_off_upd: "x \<in> screen a \<or> x \<in> screen vga_addr \<Longrightarrow> same_off a r s \<Longrightarrow> same_off a r (s(x := b))"
  by (auto simp: same_off_def)

lemma write_in_one:
  assumes "get_con k this = Some c" "this < 0x400000" "cell (con_fila c) (con_columna c) < 4000"
  shows "\<exists>r'. write_in_console this (b # bs) style 1 k = Some (k\<lparr>ram := r'\<rparr>) \<and> same_off (console_screen this) (ram k) r'"
proof -
  let ?i = "cell (con_fila c) (con_columna c)"
  let ?r = "(ram k)(home this k + of_nat ?i := b, home this k + of_nat ?i + 1 := style)"
  have i: "?i + 1 < 4000" using assms(3) even_cell [of "con_fila c" "con_columna c"] by presburger
  have "same_off (console_screen this) (ram k) ?r"
    using home_off [of ?i 0 this k] home_off [of ?i 1 this k] i by (intro same_off_upd) simp_all
  moreover have "write_in_console this (b # bs) style 1 k = Some (k\<lparr>ram := ?r\<rparr>)"
    using assms(1) write_one [OF home_low [OF assms(2), of k] assms(3)] by (simp add: write_in_console_def home_def [symmetric])
  ultimately show ?thesis by blast
qed

lemma write_in_two:
  assumes "get_con k this = Some c" "this < 0x400000" "cell (con_fila c) (con_columna c) < 3998"
  shows "\<exists>r'. write_in_console this (b # b' # bs) style 2 k = Some (k\<lparr>ram := r'\<rparr>) \<and> same_off (console_screen this) (ram k) r'"
proof -
  let ?i = "cell (con_fila c) (con_columna c)"
  let ?r = "(ram k)(home this k + of_nat ?i := b, home this k + of_nat ?i + 1 := style,
      home this k + of_nat ?i + 2 := b', home this k + of_nat ?i + 2 + 1 := style)"
  have i: "?i + 3 < 4000" using assms(3) even_cell [of "con_fila c" "con_columna c"] by presburger
  have "same_off (console_screen this) (ram k) ?r"
    using home_off [of ?i 0 this k] home_off [of ?i 1 this k] home_off [of ?i 2 this k] home_off [of ?i 3 this k] i
    by (intro same_off_upd) (simp_all add: add.assoc)
  moreover have "write_in_console this (b # b' # bs) style 2 k = Some (k\<lparr>ram := ?r\<rparr>)"
    using assms i write_two [OF home_low [OF assms(2), of k], of "con_fila c" "con_columna c"] by (simp add: write_in_console_def home_def [symmetric])
  ultimately show ?thesis by blast
qed

section \<open>Rows moved up\<close>

lemma fold_other: "\<forall>x \<in> set xs. \<forall>r. g x r a = r a \<Longrightarrow> fold g xs r a = r a"
  by (induction xs arbitrary: r) auto

lemma clear_row_other:
  fixes v :: u32 and b :: u8
  assumes "\<forall>i. 3840 \<le> i \<longrightarrow> i < 4000 \<longrightarrow> x \<noteq> v + of_nat i"
  shows "fold (\<lambda>i r. r(v + of_nat (3840 + 2 * i) := 0, v + of_nat (3841 + 2 * i) := b)) [0..<80] r x = r x"
proof (rule fold_other, intro ballI allI)
  fix i and r :: ram assume "i \<in> set [0..<80 :: nat]"
  then have "x \<noteq> v + of_nat (3840 + 2 * i)" "x \<noteq> v + of_nat (3841 + 2 * i)"
    using assms [rule_format, of "3840 + 2 * i"] assms [rule_format, of "3841 + 2 * i"] by auto
  then show "(r(v + of_nat (3840 + 2 * i) := 0, v + of_nat (3841 + 2 * i) := b)) x = r x"
    by (simp only: fun_upd_apply if_False)
qed

lemma move_scr_up_other: "x \<notin> screen v \<Longrightarrow> move_scr_up v r x = r x"
proof -
  assume x: "x \<notin> screen v"
  have ne: "x \<noteq> v + of_nat i" if "i < 4000" for i using x that in_screen by auto
  have "fold (\<lambda>i r. r(v + of_nat i := r (v + of_nat i + vga_cols * 2))) [0..<3840] r x = r x"
    using ne by (intro fold_other) auto
  then show ?thesis using ne unfolding move_scr_up_def Let_def by (subst clear_row_other) auto
qed

text \<open>The first 24 rows become what the rows below were.\<close>

lemma addr_inj: "i < 4000 \<Longrightarrow> j < 4000 \<Longrightarrow> v + of_nat i = v + of_nat j \<longleftrightarrow> i = (j :: nat)" for v :: u32
proof -
  assume "i < 4000" "j < 4000"
  then have "unat (of_nat i :: u32) = i" "unat (of_nat j :: u32) = j" by (simp_all add: unat_of_nat)
  then show ?thesis by (metis add_left_cancel)
qed

lemma fold_upt_Suc: "fold g [0..<Suc n] r = g n (fold g [0..<n] r)"
  by simp

lemma shift_rows:
  "n \<le> 3840 \<Longrightarrow> j < 4000 \<Longrightarrow>
   fold (\<lambda>i r. r(v + of_nat i := r (v + of_nat i + vga_cols * 2))) [0..<n] r (v + of_nat j) =
     r (v + of_nat (if j < n then j + 160 else j))" for v :: u32
proof (induction n arbitrary: j)
  case (Suc n)
  let ?r = "fold (\<lambda>i r. r(v + of_nat i := r (v + of_nat i + vga_cols * 2))) [0..<n] r"
  have "v + of_nat n + vga_cols * 2 = v + of_nat (n + 160)" by (simp add: vga_cols_def)
  moreover have "?r (v + of_nat (n + 160)) = r (v + of_nat (n + 160))" using Suc.prems by (subst Suc.IH) auto
  moreover have "?r (v + of_nat j) = r (v + of_nat (if j < n then j + 160 else j))"
    using Suc.prems by (subst Suc.IH) auto
  ultimately show ?case using Suc.prems addr_inj [of j n v]
    unfolding fold_upt_Suc fun_upd_apply by (cases "j = n") (simp_all only: less_Suc_eq simp_thms if_True if_False split: if_split)
qed simp

lemma move_scr_up_rows:
  assumes "j < 3840"
  shows "move_scr_up v r (v + of_nat j) = r (v + of_nat (j + 160))"
proof -
  have "v + of_nat j \<noteq> v + of_nat i" if "3840 \<le> i" "i < 4000" for i
    using addr_inj [of j i v] that assms by simp
  then show ?thesis
    unfolding move_scr_up_def Let_def
    using shift_rows [of 3840 j v r] assms by (subst clear_row_other) (simp_all del: of_nat_add)
qed

section \<open>The cursor\<close>

text \<open>An operation that has changed a console's cursor and the screens only.\<close>

definition screen_step :: "u32 \<Rightarrow> chardev_console \<Rightarrow> 'a conk_scheme \<Rightarrow> nat \<Rightarrow> 'a conk_scheme \<Rightarrow> bool" where
  "screen_step this c k rows k' \<longleftrightarrow> (\<exists>f col r. k' = put_obj this (Con (c\<lparr>con_fila := f, con_columna := col\<rparr>)) (k\<lparr>ram := r\<rparr>) \<and>
     unat f \<le> rows \<and> col < 80 \<and> same_off (console_screen this) (ram k) r)"

lemma screen_stepI:
  "k' = put_obj this (Con (c\<lparr>con_fila := f, con_columna := col\<rparr>)) (k\<lparr>ram := r\<rparr>) \<Longrightarrow>
   unat f \<le> rows \<Longrightarrow> col < 80 \<Longrightarrow> same_off (console_screen this) (ram k) r \<Longrightarrow> screen_step this c k rows k'"
  unfolding screen_step_def by blast

lemma cursor_swap [simp]: "c\<lparr>con_columna := x, con_fila := y\<rparr> = c\<lparr>con_fila := y, con_columna := x\<rparr>"
  by (cases c) simp

lemma put_obj_ram_comm [simp]: "(put_obj a d k)\<lparr>ram := r\<rparr> = put_obj a d (k\<lparr>ram := r\<rparr>)"
  by (simp add: put_obj_def)

lemma get_con_ram [simp]: "get_con (k\<lparr>ram := r\<rparr>) a = get_con k a"
  by (simp add: get_con_def)

lemma con_put_step:
  assumes g: "get_con k this = Some c" and low: "this < 0x400000" and p: "con_fila c \<le> 23" "con_columna c < 80"
  shows "\<exists>k'. con_put this b k = Some k' \<and> screen_step this c k 24 k'"
proof -
  have f: "unat (con_fila c) \<le> 23" "unat (con_columna c) < 80" using p by (simp_all add: word_le_nat_alt word_less_nat_alt)
  have cell: "cell (con_fila c) (con_columna c) < 3839" using f by (simp add: cell_def)
  have inc: "unat (con_fila c + 1) = unat (con_fila c) + 1" using f by (simp add: unat_word_ariths)
  consider (nl) "b = 10" | (bs) "b = 8" | (other) "b \<noteq> 10" "b \<noteq> 8" by blast
  then show ?thesis
  proof cases
    case nl
    obtain r where r: "write_in_console this (drop 2 block) BLOCK_NO_BLINK 1 k = Some (k\<lparr>ram := r\<rparr>)"
      "same_off (console_screen this) (ram k) r"
      using write_in_one [OF g low, of 32 "[]"] cell by (auto simp: block_def)
    then show ?thesis using nl g f inc
      by (auto simp: con_put_def mod_con_def intro!: screen_stepI [where f = "con_fila c + 1" and col = 0 and r = r])
  next
    case bs
    show ?thesis
    proof (cases "con_columna c \<ge> 14")
      case True
      let ?c = "c\<lparr>con_columna := con_columna c - 1\<rparr>"
      have u: "unat (con_columna c - 1) = unat (con_columna c) - 1" "con_columna c \<noteq> 0"
        using True by (auto simp: unat_sub_if_size word_le_nat_alt)
      then have "cell (con_fila ?c) (con_columna ?c) < 3998" using f by (simp add: cell_def)
      then obtain r where r: "write_in_console this block BLOCK_NO_BLINK 2 (put_obj this (Con ?c) k) = Some (put_obj this (Con ?c) (k\<lparr>ram := r\<rparr>))"
        "same_off (console_screen this) (ram k) r"
        using write_in_two [of "put_obj this (Con ?c) k" this ?c 219 0 "[32]" BLOCK_NO_BLINK] low by (auto simp: block_def)
      moreover have "con_columna c - 1 < 80" using u f by (simp add: word_less_nat_alt)
      ultimately show ?thesis using bs g f True u(2)
        by (auto simp: con_put_def mod_con_def intro!: screen_stepI [where f = "con_fila c" and col = "con_columna c - 1" and r = r])
    next
      case False
      have "k = put_obj this (Con c) (k\<lparr>ram := ram k\<rparr>)" using g by (simp add: put_obj_same get_con_objs)
      then show ?thesis using bs g f False p
        by (auto simp: con_put_def intro!: screen_stepI [where f = "con_fila c" and col = "con_columna c" and r = "ram k"])
    qed
  next
    case other
    obtain r where r: "write_in_console this [b] (con_style c) 1 k = Some (k\<lparr>ram := r\<rparr>)"
      "same_off (console_screen this) (ram k) r"
      using write_in_one [OF g low] cell by fastforce
    define f' where "f' = (if ucast (con_columna c) + 1 = vga_cols then con_fila c + 1 else con_fila c)"
    define col' where "col' = (ucast ((ucast (con_columna c) + 1) mod vga_cols) :: u8)"
    let ?c = "c\<lparr>con_fila := f', con_columna := col'\<rparr>"
    let ?k = "put_obj this (Con ?c) (k\<lparr>ram := r\<rparr>)"
    have f': "unat f' \<le> 24" using f inc by (simp add: f'_def)
    have "(ucast (con_columna c) + 1 :: u32) mod vga_cols < 80" by (simp add: vga_cols_def word_less_nat_alt unat_mod)
    then have col': "col' < 80"
      by (simp add: col'_def word_less_nat_alt unsigned_ucast_eq take_bit_eq_mod)
    then have "cell (con_fila ?c) (con_columna ?c) < 4000" using f' by (simp add: cell_def word_less_nat_alt)
    then obtain r' where r': "write_in_console this block BLOCK_NO_BLINK 1 ?k = Some (put_obj this (Con ?c) (k\<lparr>ram := r'\<rparr>))"
      "same_off (console_screen this) (ram k) r'"
      using write_in_one [of ?k this ?c 219 "[0, 32]" BLOCK_NO_BLINK] low same_off_trans [OF r(2)] by (auto simp: block_def)
    have "con_put this b k = write_in_console this block BLOCK_NO_BLINK 1 ?k"
      using other g r(1) by (auto simp: con_put_def mod_con_def f'_def col'_def)
    then show ?thesis using r' f' col' by (auto simp: screen_step_def)
  qed
qed

lemma con_scroll_step:
  assumes "screen_step this c k 24 k'"
  shows "\<exists>k''. con_scroll this k' = Some k'' \<and> screen_step this c k 23 k''"
proof -
  obtain f col r where k': "k' = put_obj this (Con (c\<lparr>con_fila := f, con_columna := col\<rparr>)) (k\<lparr>ram := r\<rparr>)"
    and f: "unat f \<le> 24" and rest: "col < 80" "same_off (console_screen this) (ram k) r"
    using assms by (auto simp: screen_step_def)
  have u: "(ucast f :: u32) = vga_rows - 1 \<longleftrightarrow> unat f = 24"
    by (simp add: vga_rows_def word_unat_eq_iff)
  show ?thesis
  proof (cases "unat f = 24")
    case True
    let ?r = "move_scr_up 0xB8000 (move_scr_up (console_screen this) r)"
    have "same_off (console_screen this) (ram k) ?r"
      using rest(2) move_scr_up_other by (simp add: same_off_def vga_addr_def)
    moreover have "unat (f - 1) \<le> 23" using True by (simp add: unat_sub_if_size)
    ultimately show ?thesis using u True rest(1)
      by (auto simp: con_scroll_def k' mod_con_def mod_ram_def intro!: screen_stepI [where f = "f - 1" and col = col and r = ?r])
  next
    case False
    then show ?thesis using u f rest
      by (auto simp: con_scroll_def k' intro!: screen_stepI [where f = f and col = col and r = r])
  qed
qed

lemma screen_step_trans:
  assumes s: "screen_step this c k n k1" and g: "get_con k1 this = Some c1" and t: "screen_step this c1 k1 m k2"
  shows "screen_step this c k m k2"
proof -
  obtain f col r where k1: "k1 = put_obj this (Con (c\<lparr>con_fila := f, con_columna := col\<rparr>)) (k\<lparr>ram := r\<rparr>)"
    "same_off (console_screen this) (ram k) r" using s by (auto simp: screen_step_def)
  obtain f' col' r' where k2: "k2 = put_obj this (Con (c1\<lparr>con_fila := f', con_columna := col'\<rparr>)) (k1\<lparr>ram := r'\<rparr>)"
    "unat f' \<le> m" "col' < 80" "same_off (console_screen this) (ram k1) r'" using t by (auto simp: screen_step_def)
  have c1: "c1 = c\<lparr>con_fila := f, con_columna := col\<rparr>" using g k1(1) by simp
  have "same_off (console_screen this) r r'" using k2(4) k1(1) by simp
  then have "same_off (console_screen this) (ram k) r'" using same_off_trans k1(2) by blast
  then show ?thesis using k2 k1(1) by (intro screen_stepI [where f = f' and col = col' and r = r']) (simp_all add: c1)
qed

lemma con_loop_step:
  assumes "get_con k this = Some c" "this < 0x400000" "con_fila c \<le> 23" "con_columna c < 80" "video < limit"
  shows "\<exists>k'. con_write_loop this video limit bs n k = Some (n + of_nat (length bs), k') \<and> screen_step this c k 23 k'"
  using assms
proof (induction bs arbitrary: k c n)
  case Nil
  have "k = put_obj this (Con c) (k\<lparr>ram := ram k\<rparr>)" using Nil by (simp add: put_obj_same get_con_objs)
  then show ?case using Nil
    by (auto simp: word_le_nat_alt intro!: screen_stepI [where f = "con_fila c" and col = "con_columna c" and r = "ram k"])
next
  case (Cons b bs)
  obtain k1 where k1: "con_put this b k = Some k1" "screen_step this c k 24 k1"
    using con_put_step [OF Cons.prems(1-4)] by blast
  obtain k2 where k2: "con_scroll this k1 = Some k2" "screen_step this c k 23 k2"
    using con_scroll_step [OF k1(2)] by blast
  then obtain c2 where c2: "get_con k2 this = Some c2" "con_fila c2 \<le> 23" "con_columna c2 < 80"
    by (auto simp: screen_step_def word_le_nat_alt)
  obtain k3 where "con_write_loop this video limit bs (n + 1) k2 = Some (n + 1 + of_nat (length bs), k3)"
    "screen_step this c2 k2 23 k3" using Cons.IH [OF c2(1) Cons.prems(2) c2(2,3) Cons.prems(5)] by blast
  then show ?case using k1(1) k2 Cons.prems(5) screen_step_trans [OF k2(2) c2(1)] by (auto simp: add_ac)
qed

lemma position_low:
  assumes "this < 0x400000" "con_fila c \<le> 23" "con_columna c < 80"
  shows "calculate_video_position this c < console_screen this + 4000"
proof -
  have "cell (con_fila c) (con_columna c) < 4000" using cell_bound [of "con_fila c" "con_columna c"] assms
    by (simp add: word_le_nat_alt)
  moreover have "calculate_video_position this c = console_screen this + of_nat (cell (con_fila c) (con_columna c))"
    unfolding calculate_video_position_def using cell_addr by (simp add: add.assoc)
  ultimately show ?thesis using assms(1)
    by (simp add: console_screen_def word_less_nat_alt unat_word_ariths unat_of_nat)
qed

text \<open>C29. Writing to a console takes every byte, keeps the cursor on the screen, above the status line,
  and changes nothing else of the console, of any other structure, or of memory outside of the
  console's saved screen and of video memory.\<close>

theorem con_write_stays_on_screen:
  assumes "get_con k this = Some c" "this < 0x400000" "con_fila c \<le> 23" "con_columna c < 80"
  shows "\<exists>f col r. con_write this bs k =
       Some (of_nat (length bs), put_obj this (Con (c\<lparr>con_fila := f, con_columna := col\<rparr>)) (k\<lparr>ram := r\<rparr>)) \<and>
     f \<le> 23 \<and> col < 80 \<and> (\<forall>x. r x \<noteq> ram k x \<longrightarrow> x \<in> screen (console_screen this) \<union> screen vga_addr)"
proof -
  obtain k' where "con_write this bs k = Some (of_nat (length bs), k')" "screen_step this c k 23 k'"
    using con_loop_step [OF assms position_low [OF assms(2-4)], of bs 0] assms(1) by (auto simp: con_write_def)
  then show ?thesis unfolding screen_step_def same_off_def by (auto simp: word_le_nat_alt)
qed

theorem con_write_stays_on_screen_witness:
  "\<exists>f col r. con_write 0x100000 [104, 105, 10, 8] con_kern =
       Some (4, put_obj 0x100000 (Con (new_console\<lparr>con_fila := f, con_columna := col\<rparr>)) (con_kern\<lparr>ram := r\<rparr>)) \<and>
     f \<le> 23 \<and> col < 80"
proof -
  have "get_con con_kern 0x100000 = Some new_console" "con_fila new_console \<le> 23" "con_columna new_console < 80"
    by (simp_all add: new_console_def)
  with con_write_stays_on_screen [of con_kern "0x100000" new_console "[104, 105, 10, 8]"] show ?thesis
    by (fastforce simp del: get_con_with)
qed

lemma screens_apart:
  assumes "0x100000 \<le> this" "this < 0x400000" "x \<in> screen vga_addr"
  shows "x \<notin> screen (console_screen this)"
proof
  assume "x \<in> screen (console_screen this)"
  then obtain i j where "i < 4000" "j < 4000" "console_screen this + of_nat i = vga_addr + (of_nat j :: u32)"
    using assms(3) unfolding screen_def by blast
  from arg_cong [OF this(3), of unat] have "unat (this + 80 + of_nat i) = unat (0xB8000 + (of_nat j :: u32))"
    by (simp only: console_screen_def vga_addr_def)
  then show False using assms \<open>i < 4000\<close> \<open>j < 4000\<close>
    by (simp add: word_less_nat_alt word_le_nat_alt unat_word_ariths unat_of_nat)
qed

lemma mem_ne: "x \<notin> S \<Longrightarrow> y \<in> S \<Longrightarrow> x \<noteq> y"
  by blast

text \<open>C25. A console that is not shown scrolls the screen of the one that is: a new line on its row 23
  moves every row of video memory up.\<close>

theorem background_console_scrolls_screen:
  assumes g: "get_con k this = Some c" and low: "0x100000 \<le> this" "this < 0x400000"
    and p: "con_fila c = 23" "con_columna c < 80" and bg: "current_console k \<noteq> this"
  shows "\<exists>k'. con_write this [10] k = Some (1, k') \<and> current_console k' = current_console k \<and>
     (\<forall>j < 3840. ram k' (vga_addr + of_nat j) = ram k (vga_addr + of_nat (j + 160)))"
proof -
  let ?i = "cell (con_fila c) (con_columna c)"
  let ?r = "(ram k)(console_screen this + of_nat ?i := 32, console_screen this + of_nat ?i + 1 := BLOCK_NO_BLINK)"
  let ?r' = "move_scr_up 0xB8000 (move_scr_up (console_screen this) ?r)"
  let ?k' = "put_obj this (Con (c\<lparr>con_fila := 23, con_columna := 0\<rparr>)) (k\<lparr>ram := ?r'\<rparr>)"
  have i: "?i + 1 < 4000" using p by (simp add: cell_def word_less_nat_alt)
  have "home this k < 0xC00000" by (rule home_low [OF low(2)])
  then have "write_in_console this [32] BLOCK_NO_BLINK 1 k = Some (k\<lparr>ram := ?r\<rparr>)"
    using g bg write_one [of "console_screen this" "con_fila c" "con_columna c" 32 "[]"] i
    by (simp add: write_in_console_def home_def)
  then have "con_put this 10 k = Some (put_obj this (Con (c\<lparr>con_fila := 24, con_columna := 0\<rparr>)) (k\<lparr>ram := ?r\<rparr>))"
    using g p by (simp add: con_put_def mod_con_def block_def)
  then have "con_write this [10] k = Some (1, ?k')"
    using g p position_low [OF low(2), of c]
    by (simp add: con_write_def con_scroll_def mod_con_def mod_ram_def vga_rows_def)
  moreover have "?r' (vga_addr + of_nat j) = ram k (vga_addr + of_nat (j + 160))" if "j < 3840" for j
  proof -
    have x: "vga_addr + of_nat (j + 160) \<in> screen vga_addr" using that by (intro in_screen) simp
    have "?r' (vga_addr + of_nat j) = ?r (vga_addr + of_nat (j + 160))"
      using move_scr_up_rows [OF that] move_scr_up_other [OF screens_apart [OF low x]]
      by (simp only: vga_addr_def)
    moreover have "console_screen this + of_nat ?i + 1 \<in> screen (console_screen this)"
      using in_screen [OF i, of "console_screen this"] by (simp add: add_ac)
    from mem_ne [OF screens_apart [OF low x] this]
    have "vga_addr + of_nat (j + 160) \<noteq> console_screen this + of_nat ?i + 1" .
    moreover have "vga_addr + of_nat (j + 160) \<noteq> console_screen this + of_nat ?i"
      by (rule mem_ne [OF screens_apart [OF low x] in_screen]) (use i in simp)
    ultimately show ?thesis by (simp only: fun_upd_apply if_False)
  qed
  ultimately show ?thesis by (intro exI [of _ ?k']) (simp del: of_nat_add)
qed

theorem background_console_scrolls_screen_witness:
  "\<exists>(k :: conk) k'. current_console k \<noteq> 0x100000 \<and> con_write 0x100000 [10] k = Some (1, k') \<and>
     ram k (vga_addr + 160) = 65 \<and> ram k' vga_addr = 65"
proof -
  let ?c = "new_console\<lparr>con_fila := 23\<rparr>"
  let ?k = "(with_con kern_two_tasks 0x100000 ?c)\<lparr>current_console := 0x101000, ram := (\<lambda>_. 65)\<rparr>"
  have "get_con ?k 0x100000 = Some ?c" by (simp add: get_con_def)
  moreover have "(0x100000 :: u32) \<le> 0x100000" "(0x100000 :: u32) < 0x400000" by simp_all
  moreover have "con_fila ?c = 23" "con_columna ?c < 80" by (simp_all add: new_console_def)
  moreover have "current_console ?k \<noteq> 0x100000" by simp
  ultimately obtain k' where "con_write 0x100000 [10] ?k = Some (1, k')"
    "\<forall>j < 3840. ram k' (vga_addr + of_nat j) = ram ?k (vga_addr + of_nat (j + 160))"
    using background_console_scrolls_screen [of ?k "0x100000" ?c] by blast
  moreover from this(2) [rule_format, of 0] have "ram k' vga_addr = 65" by simp
  ultimately show ?thesis by (intro exI [of _ ?k] exI [of _ k']) simp
qed

end
