(* ===== verification/Descriptors.thy ===== *)
theory Descriptors
  imports Device_Spec Console_Ring
begin

text \<open>
  Descriptors over the whole life of a table: opening, fork, close and the change of task, the last close of
  a structure included, which gives its page back. The table evolves as \<open>fd_spec\<close> says, which knows
  nothing of reference counts.
\<close>

section \<open>Where the structures are\<close>

text \<open>Every structure has a mate: the other end of a pipe, and a console itself; and a page, which it shares with
  its mate only. A console is in the ring \<open>cs\<close>.\<close>

fun placed :: "(u32 \<Rightarrow> u32) \<Rightarrow> (u32 \<Rightarrow> u32) \<Rightarrow> u32 list \<Rightarrow> u32 \<Rightarrow> obj \<Rightarrow> bool" where
  "placed mate pg cs a (Con c) \<longleftrightarrow> mate a = a \<and> pg a = a \<and> a \<in> set cs"
| "placed mate pg cs a (Pipe p) \<longleftrightarrow> mate a \<noteq> a \<and> pipe_other p = mate a \<and> pipe_page p = pg a \<and> pg a \<notin> set cs"
| "placed mate pg cs a _ \<longleftrightarrow> False"

text \<open>The structures \<open>A\<close> with their counts, none of them the empty console; \<open>F\<close> are the kernel frames not in use.\<close>

definition devs_ok :: "(u32 \<Rightarrow> u32) \<Rightarrow> (u32 \<Rightarrow> u32) \<Rightarrow> u32 set \<Rightarrow> u32 set \<Rightarrow> 'a conk_scheme \<Rightarrow> bool" where
  "devs_ok mate pg A F k \<longleftrightarrow> fds_ok A k \<and>
     (\<forall>a \<in> A. mate a \<in> A \<and> mate (mate a) = a \<and> pg a \<in> kernel_frames - F \<and> pg a \<noteq> empty_console k) \<and>
     (\<forall>a \<in> A. \<forall>b \<in> A. pg a = pg b \<longleftrightarrow> b = a \<or> b = mate a) \<and>
     (\<exists>cs. con_ring F cs k \<and> (\<forall>a \<in> A. \<exists>d. objs k a = Some d \<and> placed mate pg cs a d))"

lemma devs_okD:
  assumes "devs_ok mate pg A F k" "a \<in> A"
  shows "fds_ok A k" "mate a \<in> A" "mate (mate a) = a" "pg (mate a) = pg a"
proof -
  show "fds_ok A k" and m: "mate a \<in> A" "mate (mate a) = a" using assms by (simp_all add: devs_ok_def)
  have "pg a = pg (mate a) \<longleftrightarrow> mate a = a \<or> mate a = mate a" using assms m(1) unfolding devs_ok_def by blast
  then show "pg (mate a) = pg a" by simp
qed

lemma placed_simps [simp]: "placed mate pg cs a (map_hdr f d) = placed mate pg cs a d"
  "placed mate pg cs a (no_links d) = placed mate pg cs a d"
  by (cases d; simp)+

lemma no_links_simps [simp]: "hdr (no_links d) = hdr d" "counting (no_links d) = counting d"
  by (cases d; simp)+

lemma relinked_obj:
  assumes "relinked k k' b" "objs k b = Some d"
  shows "\<exists>d'. objs k' b = Some d' \<and> no_links d' = no_links d"
  using assms by (auto simp: relinked_def)

lemma fds_okD:
  assumes "fds_ok A k" "a \<in> A" "objs k a = Some d"
  shows "counting d" "refcount (hdr d) = of_nat (refs (char_devices k) a)"
  using assms by (fastforce simp: fds_ok_def counted_def)+

section \<open>Steps that only count\<close>

lemma con_ring_kinds:
  assumes r: "con_ring F cs k" and s: "same_kinds k k'" "dev_step k k'"
  shows "con_ring F cs k'"
proof -
  have g: "\<exists>n. get_con k' a = Some (c\<lparr>con_dev := (con_dev c)\<lparr>refcount := n\<rparr>\<rparr>)" if "get_con k a = Some c" for a c
  proof -
    have "objs k a = Some (Con c)" using that by (auto simp: get_con_def split: option.splits obj.splits)
    then obtain n where "objs k' a = Some (map_hdr (\<lambda>h. h\<lparr>refcount := n\<rparr>) (Con c))" using s(1) unfolding same_kinds_def by blast
    then show ?thesis by (auto simp: get_con_def)
  qed
  have v: "con_valid k' a \<and> con_nx k' a = con_nx k a \<and> con_pv k' a = con_pv k a" if a: "con_valid k a" for a
  proof -
    obtain c where c: "get_con k a = Some c" using a by (auto simp: con_valid_def)
    with g [OF c] show ?thesis by (auto simp: con_valid_def con_nx_def con_pv_def)
  qed
  have h: "con_held k' xs" if "con_held k xs" for xs
    using that v ring_cong [of xs "con_nx k'" "con_nx k" "con_pv k'" "con_pv k"] by (auto simp: held_def)
  have "kernel_pf_info k' = kernel_pf_info k" "current_console k' = current_console k" "empty_console k' = empty_console k"
    by (subst s(2) [unfolded dev_step_def], simp)+
  then show ?thesis using r h by (auto simp: con_ring_def kernel_pool_def)
qed

lemma devs_ok_kinds:
  assumes d: "devs_ok mate pg A F k" and f: "fds_ok A k'" and s: "same_kinds k k'" "dev_step k k'"
  shows "devs_ok mate pg A F k'"
proof -
  obtain cs where cs: "con_ring F cs k" "\<forall>a \<in> A. \<exists>d. objs k a = Some d \<and> placed mate pg cs a d"
    using d by (auto simp: devs_ok_def)
  have "\<exists>d. objs k' a = Some d \<and> placed mate pg cs a d" if a: "a \<in> A" for a
  proof -
    obtain d where "objs k a = Some d" "placed mate pg cs a d" using cs(2) a by blast
    moreover from this(1) obtain n where "objs k' a = Some (map_hdr (\<lambda>h. h\<lparr>refcount := n\<rparr>) d)"
      using s(1) unfolding same_kinds_def by blast
    ultimately show ?thesis by simp
  qed
  moreover have "empty_console k' = empty_console k" by (subst s(2) [unfolded dev_step_def], simp)
  ultimately show ?thesis using d f con_ring_kinds [OF cs(1) s] unfolding devs_ok_def by auto
qed

lemma device_descriptor_kinds: "device_descriptor dev k = Some (fd, k') \<Longrightarrow> same_kinds k k'"
proof -
  assume "device_descriptor dev k = Some (fd, k')"
  moreover have "same_kinds k s" if a: "add_ref 1 dev (k\<lparr>char_devices := cd\<rparr>) = Some s" for cd s
  proof -
    obtain d where d: "objs k dev = Some d" "s = put_obj dev (map_hdr (\<lambda>h. h\<lparr>refcount := refcount h + 1\<rparr>) d) (k\<lparr>char_devices := cd\<rparr>)"
      using a by (auto simp: add_ref_def split: Option.bind_splits)
    then show ?thesis using same_kinds_put [OF d(1), of "\<lambda>n. n + 1"] unfolding same_kinds_def put_obj_def by simp
  qed
  ultimately show ?thesis by (auto simp: device_descriptor_def split: Option.bind_splits if_splits)
qed

section \<open>The last close\<close>

text \<open>The structures \<open>D\<close> go, which no descriptor points at any more; the others keep all but their links.\<close>

lemma fds_ok_drop:
  assumes ok: "fds_ok A k" and fd: "unat (fd :: u32) < MAX_FD" and dev: "dev = char_devices k ! unat (cur_pid k) ! unat fd" "dev \<in> D" "dev \<noteq> 0"
    and k': "char_devices k' = (char_devices k)[unat (cur_pid k) := (char_devices k ! unat (cur_pid k))[unat fd := 0]]"
      "cur_pid k' = cur_pid k" and D: "\<forall>a \<in> D. refs (char_devices k') a = 0" and r: "\<And>b. b \<notin> D \<Longrightarrow> relinked k k' b"
  shows "fds_ok (A - D) k'"
proof -
  let ?T = "char_devices k" and ?p = "cur_pid k"
  have inv: "counted A k" and p: "unat ?p < MAX_PID" using ok by (simp_all add: fds_ok_def)
  have tab: "fd_table ?T" and z: "0 \<notin> A" using inv by (simp_all add: counted_def)
  have tab': "fd_table (char_devices k')" using fd_table_put [OF tab p fd_in(2) [OF tab p fd]] k'(1) by simp
  have old: "objs k' (char_devices k' ! q ! i) \<noteq> None" if i: "q < MAX_PID" "i < MAX_FD" "char_devices k' ! q ! i \<noteq> 0" for q i
  proof -
    have "char_devices k' ! q ! i = (if q = unat ?p \<and> i = unat fd then 0 else ?T ! q ! i)"
      unfolding k'(1) by (rule table_upd [OF tab p fd i(1,2)])
    then have "char_devices k' ! q ! i = ?T ! q ! i" using i(3) by (cases "q = unat ?p \<and> i = unat fd") simp_all
    moreover from this have "?T ! q ! i \<noteq> 0" using i(3) by simp
    then have "objs k (?T ! q ! i) \<noteq> None" using inv i(1,2) by (simp add: counted_def)
    moreover have "char_devices k' ! q ! i \<notin> D" using refs_zero [OF tab' _ i(1,2)] D by blast
    ultimately show ?thesis using r [of "?T ! q ! i"] relinked_obj by fastforce
  qed
  have new: "\<exists>d. objs k' a = Some d \<and> counting d \<and> refcount (hdr d) = of_nat (refs (char_devices k') a)" if a: "a \<in> A - D" for a
  proof -
    obtain d where d: "objs k a = Some d" "counting d" "refcount (hdr d) = of_nat (refs ?T a)"
      using ok a by (fastforce simp: fds_ok_def counted_def)
    obtain d' where d': "objs k' a = Some d'" "no_links d' = no_links d" using relinked_obj [OF r d(1)] a by auto
    have "counting d' = counting d" "hdr d' = hdr d" using d'(2) no_links_simps by metis+
    moreover have "a \<noteq> 0" "a \<noteq> dev" using a z dev(2) by auto
    then have "refs (char_devices k') a = refs ?T a" using refs_closed(1) [OF tab p fd dev(1,3), of a] k'(1) by simp
    ultimately show ?thesis using d d'(1) by simp
  qed
  then show ?thesis using tab' z p k'(2) old by (fastforce simp: fds_ok_def counted_def)
qed

lemma devs_ok_drop:
  assumes ok: "devs_ok mate pg A F k" and f: "fds_ok (A - {a, mate a}) k'" and a: "a \<in> A" "empty_console k' = empty_console k"
    and cs: "con_ring F cs k" "con_ring (insert (pg a) F) cs' k'"
      "set cs - {pg a} \<subseteq> set cs'" "set cs' \<subseteq> insert (empty_console k) (set cs)"
    and pl: "\<forall>b \<in> A. \<exists>d. objs k b = Some d \<and> placed mate pg cs b d" and r: "\<And>b. b \<notin> {a, mate a} \<Longrightarrow> relinked k k' b"
  shows "devs_ok mate pg (A - {a, mate a}) (insert (pg a) F) k'"
proof -
  note I = ok [unfolded devs_ok_def]
  have mm: "mate b \<in> A" "mate (mate b) = b" if "b \<in> A" for b using I that by blast+
  have pg: "pg b \<noteq> pg a" if "b \<in> A - {a, mate a}" for b
  proof -
    have "pg a = pg b \<longleftrightarrow> b = a \<or> b = mate a" using I a(1) that by blast
    then show ?thesis using that by auto
  qed
  have m: "mate b \<in> A - {a, mate a}" if b: "b \<in> A - {a, mate a}" for b
  proof -
    have "b \<in> A" "b \<noteq> a" "b \<noteq> mate a" using b by auto
    then show ?thesis using mm(1) [of b] mm(2) [of b] mm(2) [OF a(1)] by auto
  qed
  have "\<exists>d. objs k' b = Some d \<and> placed mate pg cs' b d" if b: "b \<in> A - {a, mate a}" for b
  proof -
    obtain d where d: "objs k b = Some d" "placed mate pg cs b d" using pl b by blast
    obtain d' where d': "objs k' b = Some d'" "no_links d' = no_links d" using relinked_obj [OF r d(1)] b by auto
    have "pg b \<noteq> empty_console k" using I b by blast
    then have "pg b \<in> set cs \<longleftrightarrow> pg b \<in> set cs'" using cs(3,4) pg [OF b] by blast
    then have "placed mate pg cs' b d" using d(2) by (cases d) auto
    then show ?thesis using d' placed_simps(2) by metis
  qed
  moreover have "mate b \<in> A - {a, mate a} \<and> mate (mate b) = b \<and> pg b \<in> kernel_frames - insert (pg a) F \<and> pg b \<noteq> empty_console k'"
    if b: "b \<in> A - {a, mate a}" for b
    using m [OF b] mm(2) [of b] pg [OF b] a(2) I b by auto
  moreover have "\<forall>b \<in> A - {a, mate a}. \<forall>c \<in> A - {a, mate a}. pg b = pg c \<longleftrightarrow> c = b \<or> c = mate b" using I by blast
  ultimately show ?thesis using f cs(2) unfolding devs_ok_def by blast
qed

lemma close_last_console:
  assumes ok: "devs_ok mate pg A F k" and fd: "unat fd < MAX_FD"
    and dev: "dev = char_devices k ! unat (cur_pid k) ! unat fd" "dev \<in> A" "refs (char_devices k) dev = 1" "objs k dev = Some (Con c)"
  defines "cd \<equiv> (char_devices k)[unat (cur_pid k) := (char_devices k ! unat (cur_pid k))[unat fd := 0]]"
  shows "\<exists>k'. sys_close fd k = Some (0, k') \<and> devs_ok mate pg (A - {dev, mate dev}) (insert (pg dev) F) k' \<and>
     cur_pid k' = cur_pid k \<and> char_devices k' = cd \<and> objs k' dev = None \<and> objs k' (mate dev) = None"
proof -
  have f: "fds_ok A k" using ok by (simp add: devs_ok_def)
  then have p: "unat (cur_pid k) < MAX_PID" and tab: "fd_table (char_devices k)" and z: "dev \<noteq> 0"
    using dev(2) by (auto simp: fds_ok_def counted_def)
  obtain cs where cs: "con_ring F cs k" "\<forall>b \<in> A. \<exists>d. objs k b = Some d \<and> placed mate pg cs b d"
    using ok by (auto simp: devs_ok_def)
  have pl: "mate dev = dev" "pg dev = dev" "dev \<in> set cs" "dev \<noteq> empty_console k"
    using cs(2) dev(2,4) ok by (fastforce simp: devs_ok_def)+
  have c: "fn_flush (con_dev c) = Some Con_flush" "refcount (con_dev c) = 1"
    using fds_okD [OF f dev(2,4)] dev(3) by simp_all
  let ?k1 = "k\<lparr>char_devices := cd\<rparr>"
  have r1: "con_ring F cs ?k1" using cs(1) con_held_objs [of ?k1 k] by (auto simp: con_ring_def kernel_pool_def)
  have g: "get_con ?k1 dev = Some c" using dev(4) by (simp add: get_con_def)
  obtain k' where k': "con_flush dev ?k1 = Some (0, k')"
    "con_ring (insert dev F) (if cs = [dev] then [empty_console k] else remove1 dev cs) k'"
    using close_last [OF r1 pl(3) _ g] pl(4) c(2) by (auto cong: if_cong)
  have fd': "cur_pid k' = cur_pid k" "char_devices k' = cd" using con_flush_fds [OF k'(1)] by simp_all
  have e: "empty_console k' = empty_console k" using con_flush_empty [OF k'(1)] by simp
  have nr: "\<not> 1 < refcount (con_dev c)" using c(2) by simp
  have n: "objs k' dev = None" using con_close_relinked(1) [OF k'(1) g nr] .
  have rl: "relinked k k' b" if "b \<noteq> dev" for b using con_close_relinked(2) [OF k'(1) g nr that] by (simp add: relinked_def)
  have "refs cd dev = 0" using refs_closed(1) [OF tab p fd dev(1) z z] dev(3) by (simp add: cd_def)
  then have "fds_ok (A - {dev}) k'"
    using fds_ok_drop [OF f fd dev(1) _ z, of "{dev}" k'] fd' rl by (simp add: cd_def)
  moreover have "set cs - {dev} \<subseteq> set (remove1 dev cs)" by (metis Diff_iff in_set_remove1 singletonI subsetI)
  moreover have "set (remove1 dev cs) \<subseteq> set cs" by (rule set_remove1_subset)
  ultimately have "devs_ok mate pg (A - {dev, mate dev}) (insert (pg dev) F) k'"
    using devs_ok_drop [OF ok _ dev(2) e cs(1), of "if cs = [dev] then [empty_console k] else remove1 dev cs"] k'(2) cs(2) rl
    by (auto simp: pl(1,2) split: if_splits)
  moreover have "sys_close fd k = Some (0, k')"
    using k'(1) fd_in(1) [OF tab p fd] fd_in(2) [OF tab p fd, of 0] dev(4) c(1) by (simp add: sys_close_def cd_def dev_flush_def flip: dev(1))
  ultimately show ?thesis using fd' n pl(1) by auto
qed

lemma close_last_pipe:
  assumes ok: "devs_ok mate pg A F k" and fd: "unat fd < MAX_FD"
    and dev: "dev = char_devices k ! unat (cur_pid k) ! unat fd" "dev \<in> A" "refs (char_devices k) dev = 1"
      "refs (char_devices k) (mate dev) = 0" "objs k dev = Some (Pipe pd)"
  defines "cd \<equiv> (char_devices k)[unat (cur_pid k) := (char_devices k ! unat (cur_pid k))[unat fd := 0]]"
  shows "\<exists>k'. sys_close fd k = Some (0, k') \<and> devs_ok mate pg (A - {dev, mate dev}) (insert (pg dev) F) k' \<and>
     cur_pid k' = cur_pid k \<and> char_devices k' = cd \<and> objs k' dev = None \<and> objs k' (mate dev) = None"
proof -
  have f: "fds_ok A k" using ok by (simp add: devs_ok_def)
  then have p: "unat (cur_pid k) < MAX_PID" and tab: "fd_table (char_devices k)" and z: "dev \<noteq> 0" "0 \<notin> A"
    using dev(2) by (auto simp: fds_ok_def counted_def)
  obtain cs where cs: "con_ring F cs k" "\<forall>b \<in> A. \<exists>d. objs k b = Some d \<and> placed mate pg cs b d"
    using ok by (auto simp: devs_ok_def)
  have m: "mate dev \<in> A" "mate (mate dev) = dev" "pg dev \<in> kernel_frames - F" "pg dev \<noteq> empty_console k"
    using ok dev(2) by (auto simp: devs_ok_def)
  have pl: "mate dev \<noteq> dev" "pipe_other pd = mate dev" "pipe_page pd = pg dev" "pg dev \<notin> set cs"
    using cs(2) dev(2,5) by fastforce+
  obtain d where d: "objs k (mate dev) = Some d" "placed mate pg cs (mate dev) d" using cs(2) m(1) by blast
  then obtain po where po: "objs k (mate dev) = Some (Pipe po)" using m(2) pl(1) by (cases d) auto
  have c: "fn_flush (pipe_dev pd) = Some Pipe_flush" "refcount (pipe_dev pd) = 1" "refcount (pipe_dev po) = 0"
    using fds_okD [OF f dev(2,5)] fds_okD [OF f m(1) po] dev(3,4) by simp_all
  let ?k1 = "k\<lparr>char_devices := cd\<rparr>"
  let ?k2 = "put_obj dev (Pipe (pd\<lparr>pipe_dev := (pipe_dev pd)\<lparr>refcount := 0\<rparr>\<rparr>)) ?k1"
  have "kernel_pool ?k2 F" using cs(1) by (simp add: con_ring_def kernel_pool_def put_obj_def)
  then obtain k3 where k3: "mm_mem_free (pg dev) ?k2 = Some k3" "kernel_pool k3 (insert (pg dev) F)"
    using kf.release_back [of ?k2 F "pg dev"] m(3) by blast
  let ?k' = "drop_obj (mate dev) (drop_obj dev k3)"
  note F = free_frame [OF k3(1)] and S = mm_mem_free_fds [OF k3(1)]
  have flush: "pipe_flush dev ?k1 = Some (0, ?k')"
    using dev(5) po c(2,3) pl k3(1) by (simp add: pipe_flush_def add_ref_def get_pipe_def put_obj_def)
  have close: "sys_close fd k = Some (0, ?k')"
    using flush fd_in(1) [OF tab p fd] fd_in(2) [OF tab p fd, of 0] dev(5) c(1) by (simp add: sys_close_def cd_def dev_flush_def flip: dev(1))
  have fd': "cur_pid ?k' = cur_pid k" "char_devices ?k' = cd" using S by (simp_all add: put_obj_def)
  have e: "empty_console ?k' = empty_console k" using F(3) by (simp add: put_obj_def)
  have g: "get_con ?k' b = get_con k b" for b using F(1) dev(5) po by (auto simp: get_con_def put_obj_def)
  have "con_held ?k' xs = con_held k xs" for xs by (rule con_held_cong) (blast intro: g)
  then have r': "con_ring (insert (pg dev) F) cs ?k'"
    using cs(1) k3(2) F m(3,4) pl(4) by (auto simp: con_ring_def put_obj_def)
  have rl: "relinked k ?k' b" if "b \<notin> {dev, mate dev}" for b using that F(1) by (simp add: relinked_def put_obj_def)
  have "mate dev \<noteq> 0" using m(1) z(2) by auto
  then have "\<forall>b \<in> {dev, mate dev}. refs cd b = 0"
    using refs_closed(1) [OF tab p fd dev(1) z(1)] z(1) dev(3,4) pl(1) by (simp add: cd_def)
  then have "fds_ok (A - {dev, mate dev}) ?k'"
    using fds_ok_drop [OF f fd dev(1) _ z(1), of "{dev, mate dev}" ?k'] fd' rl by (simp add: cd_def)
  then have "devs_ok mate pg (A - {dev, mate dev}) (insert (pg dev) F) ?k'"
    using devs_ok_drop [OF ok _ dev(2) e cs(1) r'] cs(2) rl by auto
  then show ?thesis using close fd' by auto
qed

section \<open>Runs\<close>

text \<open>What tasks do with descriptors, one after the other: \<open>Run_task p\<close> makes \<open>p\<close> the current one.\<close>

datatype fd_event = Open_fd u32 | Fork_fds pid | Close_fd u32 | Run_task pid

fun fd_run :: "fd_event list \<Rightarrow> 'a conk_scheme \<Rightarrow> 'a conk_scheme option" where
  "fd_run [] k = Some k"
| "fd_run (Open_fd dev # es) k = do { (_, k) \<leftarrow> device_descriptor dev k; fd_run es k }"
| "fd_run (Fork_fds p # es) k = do { k \<leftarrow> device_fork_descriptors (cur_pid k) p k; fd_run es k }"
| "fd_run (Close_fd fd # es) k = do { (_, k) \<leftarrow> sys_close fd k; fd_run es k }"
| "fd_run (Run_task p # es) k = fd_run es (k\<lparr>cur_pid := p\<rparr>)"

text \<open>The table alone, and the structures \<open>A\<close> that there are. A structure goes when neither it nor its mate
  has a descriptor any more. A structure that is gone is not opened, and a fork is into a row without
  descriptors.\<close>

fun fd_spec :: "(u32 \<Rightarrow> u32) \<Rightarrow> fd_event list \<Rightarrow> pid \<times> u32 list list \<times> u32 set \<Rightarrow> (pid \<times> u32 list list \<times> u32 set) option" where
  "fd_spec mate [] s = Some s"
| "fd_spec mate (Open_fd dev # es) (p, T, A) =
     (if dev \<in> A then
        (let row = T ! unat p; j = length (takeWhile (\<lambda>x. x \<noteq> 0) row)
         in fd_spec mate es (p, if j < MAX_FD then T[unat p := row[j := dev]] else T, A))
      else None)"
| "fd_spec mate (Fork_fds p2 # es) (p, T, A) =
     (if unat p2 < MAX_PID \<and> p2 \<noteq> p \<and> (\<forall>x \<in> set (T ! unat p2). x = 0)
      then fd_spec mate es (p, T[unat p2 := T ! unat p], A) else None)"
| "fd_spec mate (Close_fd fd # es) (p, T, A) =
     (let dev = T ! unat p ! unat fd; T' = T[unat p := (T ! unat p)[unat fd := 0]]
      in if unat fd < MAX_FD \<and> dev \<in> A
         then fd_spec mate es (p, T', if refs T' dev = 0 \<and> refs T' (mate dev) = 0 then A - {dev, mate dev} else A)
         else None)"
| "fd_spec mate (Run_task p2 # es) (p, T, A) = (if unat p2 < MAX_PID then fd_spec mate es (p2, T, A) else None)"

text \<open>A structure that is gone stays gone.\<close>

lemma same_kinds_none:
  "device_descriptor dev k = Some (fd, k') \<Longrightarrow> objs k a = None \<Longrightarrow> objs k' a = None"
  "device_fork_descriptors p1 p2 k = Some k' \<Longrightarrow> objs k a = None \<Longrightarrow> objs k' a = None"
proof -
  have add: "objs s a = None" if "add_ref n dev k = Some s" "objs k a = None" for n dev s and k :: "'c devk_scheme"
    using that by (auto simp: add_ref_def put_obj_def split: Option.bind_splits)
  show "device_descriptor dev k = Some (fd, k') \<Longrightarrow> objs k a = None \<Longrightarrow> objs k' a = None"
    by (auto simp: device_descriptor_def split: Option.bind_splits if_splits dest!: add)
  let ?R = "\<lambda>k k'. objs k a = None \<longrightarrow> objs k' a = None"
  show "objs k' a = None" if f: "device_fork_descriptors p1 p2 k = Some k'" "objs k a = None" for k k' :: "'b devk_scheme"
  proof -
    have "?R k k'"
    proof (rule for_range_trans [OF f(1) [unfolded device_fork_descriptors_def]])
      fix j :: nat and s s' :: "'b devk_scheme"
      assume "do { dev \<leftarrow> fd_get (char_devices s) p1 (of_nat j); cd \<leftarrow> fd_put (char_devices s) p2 (of_nat j) dev;
        k \<leftarrow> Some (s\<lparr>char_devices := cd\<rparr>); if dev \<noteq> 0 then add_ref 1 dev k else Some k } = Some s'"
      then show "?R s s'" by (auto split: Option.bind_splits if_splits dest!: add)
    qed auto
    then show ?thesis using f(2) by blast
  qed
qed

lemma con_flush_none:
  assumes "con_flush a k = Some (st, k')" "objs k b = None" shows "objs k' b = None"
proof -
  obtain c where c: "get_con k a = Some c" using assms(1) by (auto simp: con_flush_def split: bind_splits)
  show ?thesis
  proof (cases "1 < refcount (con_dev c)")
    case True
    then show ?thesis using assms c by (auto simp: con_flush_def add_ref_def put_obj_def split: bind_splits)
  next
    case False
    then show ?thesis using con_close_relinked(1) [OF assms(1) c] con_close_relinked(2) [OF assms(1) c False, of b] assms(2)
      by (cases "b = a") (simp_all add: relinked_def)
  qed
qed

lemma pipe_flush_none:
  assumes "pipe_flush a k = Some (st, k')" "objs k b = None" shows "objs k' b = None"
proof -
  obtain k1 where k1: "add_ref (-1) a k = Some k1" using assms by (auto simp: pipe_flush_def split: bind_splits)
  then have "objs k1 b = None" using assms(2) by (auto simp: add_ref_def put_obj_def split: bind_splits)
  moreover have "objs k2 = objs k1" if "mm_mem_free q' k1 = Some k2" for q' k2
    using that by (auto simp: mm_mem_free_def Let_def split: bind_splits if_splits)
  ultimately show ?thesis using assms(1) k1 by (auto simp: pipe_flush_def split: bind_splits if_splits)
qed

lemma sys_close_none:
  assumes c: "sys_close fd k = Some (st, k')" "fds_ok A k" "unat fd < MAX_FD" "char_devices k ! unat (cur_pid k) ! unat fd \<in> A" "objs k b = None"
  shows "objs k' b = None"
proof -
  have t: "fd_table (char_devices k)" "unat (cur_pid k) < MAX_PID" using c(2) by (simp_all add: fds_ok_def counted_def)
  obtain d where d: "objs k (char_devices k ! unat (cur_pid k) ! unat fd) = Some d" "counting d" using c(2,4) by (auto simp: fds_ok_def)
  then show ?thesis using c(1,5) fd_in [OF t c(3)]
    by (cases d) (auto simp: sys_close_def dev_flush_def dest: con_flush_none pipe_flush_none)
qed

lemma close_ok:
  assumes ok: "devs_ok mate pg A F k" and fd: "unat fd < MAX_FD" and dev: "char_devices k ! unat (cur_pid k) ! unat fd \<in> A"
  defines "dev \<equiv> char_devices k ! unat (cur_pid k) ! unat fd"
    and "T \<equiv> (char_devices k)[unat (cur_pid k) := (char_devices k ! unat (cur_pid k))[unat fd := 0]]"
  defines "gone \<equiv> refs T dev = 0 \<and> refs T (mate dev) = 0"
  shows "\<exists>k'. sys_close fd k = Some (0, k') \<and>
     devs_ok mate pg (if gone then A - {dev, mate dev} else A) (if gone then insert (pg dev) F else F) k' \<and>
     cur_pid k' = cur_pid k \<and> char_devices k' = T \<and> (gone \<longrightarrow> objs k' dev = None \<and> objs k' (mate dev) = None)"
proof -
  note dA = dev [folded dev_def]
  have de: "dev = char_devices k ! unat (cur_pid k) ! unat fd" by (simp add: dev_def)
  have f: "fds_ok A k" using ok by (simp add: devs_ok_def)
  then have p: "unat (cur_pid k) < MAX_PID" and tab: "fd_table (char_devices k)" and z: "dev \<noteq> 0" "0 \<notin> A"
    using dA by (auto simp: fds_ok_def counted_def)
  obtain cs where cs: "\<forall>b \<in> A. \<exists>d. objs k b = Some d \<and> placed mate pg cs b d" using ok by (auto simp: devs_ok_def)
  have m: "mate dev \<in> A" "mate (mate dev) = dev" "mate dev \<noteq> 0" using ok dA z by (auto simp: devs_ok_def)
  note r = refs_closed [OF tab p fd de z(1), folded T_def]
  have r1: "refs T dev = refs (char_devices k) dev - 1" "1 \<le> refs (char_devices k) dev" using r [OF z(1)] by simp_all
  obtain d where d: "objs k dev = Some d" "placed mate pg cs dev d" using cs dA by blast
  show ?thesis
  proof (cases gone)
    case True
    show ?thesis
    proof (cases d)
      case (Con c)
      then show ?thesis using close_last_console [OF ok fd de dA, of c, folded T_def] True d(1) r1 by (auto simp: gone_def)
    next
      case (Pipe pd)
      then have "mate dev \<noteq> dev" using d(2) by simp
      then have "refs (char_devices k) (mate dev) = 0" using True r(1) [OF m(3)] by (simp add: gone_def)
      then show ?thesis using close_last_pipe [OF ok fd de dA, of pd, folded T_def] True d(1) Pipe r1 by (auto simp: gone_def)
    qed (use d(2) in simp_all)
  next
    case False
    have "stays k dev"
    proof (cases "1 < refs (char_devices k) dev")
      case False
      then have one: "refs T dev = 0" using r1 by simp
      then have mt: "refs T (mate dev) \<noteq> 0" using \<open>\<not> gone\<close> by (simp add: gone_def)
      then have ne: "mate dev \<noteq> dev" using one by auto
      then obtain pd where pd: "d = Pipe pd" "pipe_other pd = mate dev" using d(2) by (cases d) auto
      obtain e where e: "objs k (mate dev) = Some e" "placed mate pg cs (mate dev) e" using cs m(1) by blast
      then obtain po where po: "e = Pipe po" using m(2) ne by (cases e) auto
      have "refs (char_devices k) (mate dev) \<noteq> 0" using mt r(1) [OF m(3)] ne by simp
      then have "refcount (pipe_dev po) \<noteq> 0"
        using fds_okD(2) [OF f m(1) e(1)] refs_small [OF tab, of "mate dev"] po by (metis hdr.simps(3) unat_0)
      then show ?thesis using d(1) pd e(1) po ne by (simp add: stays_def)
    qed (simp add: stays_def)
    from sys_close_counted [OF f fd de dA this, folded T_def] False devs_ok_kinds [OF ok]
    show ?thesis by auto
  qed
qed

lemma open_ok:
  assumes ok: "devs_ok mate pg A F k" and dev: "dev \<in> A"
  defines "j \<equiv> length (takeWhile (\<lambda>x. x \<noteq> 0) (char_devices k ! unat (cur_pid k)))"
  shows "\<exists>fd k'. device_descriptor dev k = Some (fd, k') \<and> devs_ok mate pg A F k' \<and> cur_pid k' = cur_pid k \<and>
    char_devices k' = (if j < MAX_FD then (char_devices k)[unat (cur_pid k) := (char_devices k ! unat (cur_pid k))[j := dev]]
      else char_devices k)"
proof -
  have f: "fds_ok A k" using ok by (simp add: devs_ok_def)
  from open_counted [OF f dev] obtain fd k' where k': "device_descriptor dev k = Some (fd, k')" "fds_ok A k'"
    "cur_pid k' = cur_pid k" "char_devices k' = (if j < MAX_FD then (char_devices k)[unat (cur_pid k) := (char_devices k ! unat (cur_pid k))[j := dev]]
      else char_devices k)" unfolding j_def by blast
  with devs_ok_kinds [OF ok k'(2) device_descriptor_kinds [OF k'(1)] device_descriptor_frame [OF k'(1)]] show ?thesis by blast
qed

lemma fork_ok:
  assumes ok: "devs_ok mate pg A F k" and p: "unat p2 < MAX_PID" "p2 \<noteq> cur_pid k" "\<forall>x \<in> set (char_devices k ! unat p2). x = 0"
  shows "\<exists>k'. device_fork_descriptors (cur_pid k) p2 k = Some k' \<and> devs_ok mate pg A F k' \<and> cur_pid k' = cur_pid k \<and>
    char_devices k' = (char_devices k)[unat p2 := char_devices k ! unat (cur_pid k)]"
proof -
  have f: "fds_ok A k" using ok by (simp add: devs_ok_def)
  from fork_counted [OF f p] obtain k' where k': "device_fork_descriptors (cur_pid k) p2 k = Some k'" "fds_ok A k'"
    "cur_pid k' = cur_pid k" "char_devices k' = (char_devices k)[unat p2 := char_devices k ! unat (cur_pid k)]" "same_kinds k k'" by blast
  with devs_ok_kinds [OF ok k'(2) k'(5) device_fork_frame [OF k'(1)]] show ?thesis by blast
qed

lemma if_Some: "(if P then x else None) = Some y \<Longrightarrow> P \<and> x = Some y"
  by (simp split: if_splits)

lemma gone_pages:
  assumes "A1 = (if g then A - {d, mate d} else A)" "F1 = (if g then insert (pg d) F else F)" "d \<in> A" "mate d \<in> A"
    "pg (mate d) = pg d" "A' \<subseteq> A1"
  shows "F1 \<union> pg ` (A1 - A') = F \<union> pg ` (A - A')" "A1 \<subseteq> A" "A - A1 = (if g then {d, mate d} else {})"
proof -
  show "A1 \<subseteq> A" "A - A1 = (if g then {d, mate d} else {})" using assms by auto
  show "F1 \<union> pg ` (A1 - A') = F \<union> pg ` (A - A')"
  proof (cases g)
    case True
    then have "A - A' = {d, mate d} \<union> (A1 - A')" using assms by auto
    then show ?thesis using True assms(2,5) by (simp add: image_Un)
  qed (use assms in simp)
qed

lemma fd_run_ok:
  assumes "devs_ok mate pg A F k" "fd_spec mate es (cur_pid k, char_devices k, A) = Some (p, T, A')"
  shows "\<exists>k'. fd_run es k = Some k' \<and> cur_pid k' = p \<and> char_devices k' = T \<and> A' \<subseteq> A \<and>
     devs_ok mate pg A' (F \<union> pg ` (A - A')) k' \<and> (\<forall>a \<in> A - A'. objs k' a = None) \<and> (\<forall>a. objs k a = None \<longrightarrow> objs k' a = None)"
  using assms
proof (induction es arbitrary: k A F)
  case Nil
  then show ?case by simp
next
  case (Cons e es)
  note ok = Cons.prems(1)
  show ?case
  proof (cases e)
    case (Open_fd dev)
    then have "dev \<in> A" using Cons.prems(2) by (simp split: if_splits)
    from open_ok [OF ok this] obtain fd k1 where k1: "device_descriptor dev k = Some (fd, k1)" "devs_ok mate pg A F k1"
      "fd_spec mate es (cur_pid k1, char_devices k1, A) = Some (p, T, A')"
      using Cons.prems(2) Open_fd \<open>dev \<in> A\<close> by (auto simp: Let_def)
    from Cons.IH [OF k1(2,3)] k1(1) Open_fd same_kinds_none(1) [OF k1(1)] show ?thesis by auto
  next
    case (Fork_fds p2)
    then have "unat p2 < MAX_PID" "p2 \<noteq> cur_pid k" "\<forall>x \<in> set (char_devices k ! unat p2). x = 0"
      using Cons.prems(2) by (auto split: if_splits)
    from fork_ok [OF ok this] obtain k1 where k1: "device_fork_descriptors (cur_pid k) p2 k = Some k1" "devs_ok mate pg A F k1"
      "fd_spec mate es (cur_pid k1, char_devices k1, A) = Some (p, T, A')"
      using Cons.prems(2) Fork_fds by (auto split: if_splits)
    from Cons.IH [OF k1(2,3)] k1(1) Fork_fds same_kinds_none(2) [OF k1(1)] show ?thesis by auto
  next
    case (Close_fd fd)
    let ?dev = "char_devices k ! unat (cur_pid k) ! unat fd"
    let ?T = "(char_devices k)[unat (cur_pid k) := (char_devices k ! unat (cur_pid k))[unat fd := 0]]"
    let ?g = "refs ?T ?dev = 0 \<and> refs ?T (mate ?dev) = 0"
    define A1 F1 where "A1 = (if ?g then A - {?dev, mate ?dev} else A)" and "F1 = (if ?g then insert (pg ?dev) F else F)"
    have "(if unat fd < MAX_FD \<and> ?dev \<in> A then fd_spec mate es (cur_pid k, ?T, A1) else None) = Some (p, T, A')"
      using Cons.prems(2) unfolding Close_fd A1_def by (simp only: fd_spec.simps Let_def)
    from if_Some [OF this] have c: "unat fd < MAX_FD" "?dev \<in> A" and s: "fd_spec mate es (cur_pid k, ?T, A1) = Some (p, T, A')"
      by blast+
    from close_ok [OF ok c, folded A1_def F1_def] obtain k1 where k1: "sys_close fd k = Some (0, k1)" "devs_ok mate pg A1 F1 k1"
      "cur_pid k1 = cur_pid k" "char_devices k1 = ?T" "?g \<longrightarrow> objs k1 ?dev = None \<and> objs k1 (mate ?dev) = None" by blast
    have f: "fds_ok A k" and m: "mate ?dev \<in> A" "pg (mate ?dev) = pg ?dev" using devs_okD [OF ok c(2)] by simp_all
    have "fd_spec mate es (cur_pid k1, char_devices k1, A1) = Some (p, T, A')" using s by (simp only: k1(3,4))
    from Cons.IH [OF k1(2) this] obtain k2 where k2: "fd_run es k1 = Some k2" "cur_pid k2 = p" "char_devices k2 = T" "A' \<subseteq> A1"
      "devs_ok mate pg A' (F1 \<union> pg ` (A1 - A')) k2" "\<forall>a \<in> A1 - A'. objs k2 a = None" "\<forall>a. objs k1 a = None \<longrightarrow> objs k2 a = None"
      by blast
    note G = gone_pages [of A1 ?g A ?dev mate F1 pg F A', OF A1_def F1_def c(2) m k2(4)]
    have "objs k2 a = None" if a: "a \<in> A - A'" for a
    proof (cases "a \<in> A1")
      case False
      then have "?g" "a \<in> {?dev, mate ?dev}" using a G(3) by (auto split: if_splits)
      then show ?thesis using k1(5) k2(7) by auto
    qed (use a k2(6) in blast)
    moreover have "fd_run (e # es) k = Some k2" using k1(1) k2(1) Close_fd by simp
    moreover have "\<forall>a. objs k a = None \<longrightarrow> objs k2 a = None" using k2(7) sys_close_none [OF k1(1) f c] by blast
    ultimately show ?thesis using k2(2-5) G(1,2) by (intro exI [of _ k2]) auto
  next
    case (Run_task p2)
    then have p2: "unat p2 < MAX_PID" "fd_spec mate es (p2, char_devices k, A) = Some (p, T, A')"
      using Cons.prems(2) by (auto split: if_splits)
    let ?k = "k\<lparr>cur_pid := p2\<rparr>"
    have "con_ring F cs ?k = con_ring F cs k" for cs
      using con_held_objs [of ?k k] by (simp add: con_ring_def kernel_pool_def)
    then have "devs_ok mate pg A F ?k" using ok p2(1) by (simp add: devs_ok_def fds_ok_def counted_def)
    from Cons.IH [OF this] p2(2) Run_task show ?thesis by simp
  qed
qed

text \<open>C27. Reference counts are right: however tasks open descriptors, inherit them by fork and close them,
  every call returns, the table is what the first free places make it, every descriptor in use points at a
  structure, and the reference count of every console and pipe end is the number of descriptors, of all
  tasks, that point at it. A console goes with its last descriptor, and the two ends of a pipe when neither
  has one left: the structure is gone, its page is free again, and the consoles that stay are a ring.\<close>

theorem descriptors_counted:
  assumes "devs_ok mate pg A F k" and "fd_spec mate es (cur_pid k, char_devices k, A) = Some (p, T, A')"
  shows "\<exists>k' cs. fd_run es k = Some k' \<and> cur_pid k' = p \<and> char_devices k' = T \<and> A' \<subseteq> A \<and>
     (\<forall>q < MAX_PID. \<forall>i < MAX_FD. T ! q ! i \<noteq> 0 \<longrightarrow> objs k' (T ! q ! i) \<noteq> None) \<and>
     (\<forall>a \<in> A'. \<exists>d. objs k' a = Some d \<and> refcount (hdr d) = of_nat (refs T a)) \<and>
     (\<forall>a \<in> A - A'. objs k' a = None) \<and> kernel_pool k' (F \<union> pg ` (A - A')) \<and>
     con_ring (F \<union> pg ` (A - A')) cs k' \<and> (\<forall>a \<in> A'. get_con k' a \<noteq> None \<longrightarrow> a \<in> set cs)"
proof -
  obtain k' where k': "fd_run es k = Some k'" "cur_pid k' = p" "char_devices k' = T" "A' \<subseteq> A"
     "devs_ok mate pg A' (F \<union> pg ` (A - A')) k'" "\<forall>a \<in> A - A'. objs k' a = None"
    using fd_run_ok [OF assms] by blast
  obtain cs where cs: "con_ring (F \<union> pg ` (A - A')) cs k'" "\<forall>a \<in> A'. \<exists>d. objs k' a = Some d \<and> placed mate pg cs a d"
    using k'(5) by (auto simp: devs_ok_def)
  have "a \<in> set cs" if "a \<in> A'" "get_con k' a \<noteq> None" for a
    using cs(2) that by (fastforce simp: get_con_def split: obj.splits option.splits)
  moreover have "counted A' k'" using k'(5) by (simp add: devs_ok_def fds_ok_def)
  ultimately show ?thesis using k' cs(1) by (intro exI [of _ k'] exI [of _ cs]) (auto simp: counted_def con_ring_def)
qed

text \<open>A console is opened, inherited by a fork, and closed by both tasks.\<close>

theorem descriptors_counted_witness:
  "\<exists>k' cs F. fd_run [Open_fd 0x101000, Fork_fds 2, Close_fd 0, Run_task 2, Close_fd 0] con_one = Some k' \<and> cur_pid k' = 2 \<and>
     objs k' 0x101000 = None \<and> con_ring F cs k' \<and> 0x101000 \<in> F"
proof -
  let ?T = "replicate 32 (replicate 32 0) :: u32 list list" and ?A = "{0x101000 :: u32}"
  let ?es = "[Open_fd 0x101000, Fork_fds 2, Close_fd 0, Run_task 2, Close_fd 0]"
  obtain F where F: "con_ring F [0x101000] con_one" using con_one_ring by blast
  have k: "char_devices con_one = ?T" "cur_pid con_one = 1" "empty_console con_one = 0x100000"
    "objs con_one 0x101000 = Some (Con (new_console\<lparr>con_next := 0x101000, con_prev := 0x101000\<rparr>))"
    by (simp_all add: con_one_def con_start_def with_con_def conk.defs devk.defs kern_two_tasks_def)
  have "refs ?T 0x101000 = 0" "fd_table ?T" by code_simp+
  moreover have "?T ! p ! i = 0" if "p < MAX_PID" "i < MAX_FD" for p i using that by (simp add: MAX_PID_def MAX_FD_def)
  ultimately have "fds_ok ?A con_one"
    unfolding fds_ok_def counted_def k(1,2) by (auto simp: k(4) new_console_def MAX_PID_def)
  moreover have "0x101000 \<in> kernel_frames - F" using F by (simp add: con_ring_def)
  ultimately have ok: "devs_ok id id ?A F con_one" using F k(3,4) by (auto simp: devs_ok_def intro!: exI [of _ "[0x101000]"])
  have "map_option (\<lambda>(p, T, A). (p, A)) (fd_spec id ?es (1, ?T, ?A)) = Some (2, {})" by code_simp
  then obtain T where T: "fd_spec id ?es (cur_pid con_one, char_devices con_one, ?A) = Some (2, T, {})" unfolding k(1,2) by auto
  from descriptors_counted [OF ok T] show ?thesis by auto
qed

end
