(* ===== verification/Fat12_Spec.thy ===== *)
theory Fat12_Spec
  imports Files Console_Spec
begin

text \<open>
  Files on the disk: reading within the first sectors of an open file, what a write does, the decoding
  of the file allocation table, and which entry of the directory is taken for a name.
\<close>

section \<open>Copying within the first sectors\<close>

lemma get_file_put [simp]: "get_file (put_obj a (File p) k) b = (if a = b then Some p else get_file k b)"
  by (simp add: get_file_def put_obj_def)

lemma get_file_objs: "get_file k a = Some p \<longleftrightarrow> objs k a = Some (File p)"
  by (auto simp: get_file_def split: option.splits obj.splits)

definition file_bytes :: "'a devk_scheme \<Rightarrow> u32 \<Rightarrow> u32 \<Rightarrow> nat \<Rightarrow> str" where
  "file_bytes k page cur n = map (\<lambda>j. ram k (page + (cur + of_nat j))) [0..<n]"

lemma file_bytes_Suc: "file_bytes k page cur (Suc n) = ram k (page + cur) # file_bytes k page (cur + 1) n"
  by (simp add: file_bytes_def upt_conv_Cons map_Suc_upt [symmetric] del: upt_Suc map_Suc_upt)
     (simp add: add.assoc)

lemma mov_loop_first:
  assumes "get_file k this = Some f" "unat (file_cursor f) + n \<le> 3584" "i + n \<le> length buf"
  shows "mov_loop (\<lambda>c. c < 7 * FAT12_SECT_SIZE) False this page n i buf k =
    Some (i + n, take i buf @ file_bytes k page (file_cursor f) n @ drop (i + n) buf,
      put_obj this (File (f\<lparr>file_cursor := file_cursor f + of_nat n\<rparr>)) k)"
  using assms
proof (induction n arbitrary: i buf k f)
  case 0
  then show ?case by (simp add: get_file_objs put_obj_same file_bytes_def)
next
  case (Suc n)
  let ?f = "f\<lparr>file_cursor := file_cursor f + 1\<rparr>"
  let ?b = "ram k (page + file_cursor f)"
  have c: "file_cursor f < 7 * FAT12_SECT_SIZE" using Suc.prems(2) by (simp add: FAT12_SECT_SIZE_def word_less_nat_alt)
  have u: "unat (file_cursor ?f) = unat (file_cursor f) + 1" using Suc.prems(2) by (simp add: unat_word_ariths)
  have "mov_loop (\<lambda>c. c < 7 * FAT12_SECT_SIZE) False this page n (i + 1) (buf[i := ?b]) (put_obj this (File ?f) k) =
    Some (i + 1 + n, take (i + 1) (buf[i := ?b]) @ file_bytes (put_obj this (File ?f) k) page (file_cursor ?f) n @ drop (i + 1 + n) (buf[i := ?b]),
      put_obj this (File (?f\<lparr>file_cursor := file_cursor ?f + of_nat n\<rparr>)) (put_obj this (File ?f) k))"
    using Suc.prems u by (intro Suc.IH) auto
  moreover have "take (i + 1) (buf[i := ?b]) = take i buf @ [?b]"
    using Suc.prems(3) by (simp add: take_Suc_conv_app_nth)
  moreover have "file_bytes (put_obj this (File ?f) k) page = file_bytes k page"
    by (intro ext) (simp add: file_bytes_def)
  ultimately show ?case using Suc.prems c
    by (simp add: mov_byte_def mod_file_def nput_def file_bytes_Suc add_ac)
qed

text \<open>The result of moving \<open>m\<close> bytes: the buffer, and the file with its cursor moved and, at the end of
  the first sectors, the first page of data made current.\<close>

definition moved :: "chardev_file \<Rightarrow> nat \<Rightarrow> chardev_file" where
  "moved f m = f\<lparr>file_cursor := file_cursor f + of_nat m,
     cur_page := if unat (file_cursor f) + m = 3584 then data_pages f ! 0 else cur_page f\<rparr>"

lemma mov_first:
  assumes g: "get_file k this = Some f" and s: "file_cursor f \<le> file_size f" "unat (file_cursor f) < 3584"
    and n: "n = min (unat sz) (unat (file_size f) - unat (file_cursor f))" "unat (file_cursor f) + n \<le> 3584"
    and w: "unat sz + unat (file_cursor f) < 2 ^ 32" and b: "n \<le> length buf" and d: "data_pages f \<noteq> []"
  shows "chardev_file_mov this buf sz False k =
    Some (of_nat n, file_bytes k (this + 512) (file_cursor f) n @ drop n buf, put_obj this (File (moved f n)) k)"
proof -
  define m where "m = (if sz + file_cursor f > file_size f then file_size f - file_cursor f else sz)"
  have "unat (sz + file_cursor f) = unat sz + unat (file_cursor f)" using w by (simp add: unat_word_ariths)
  then have um: "unat m = n" using s(1) n(1) by (auto simp: m_def word_less_nat_alt word_le_nat_alt unat_sub)
  then have m: "m = of_nat n" by auto
  have c: "file_cursor f < 7 * FAT12_SECT_SIZE" using s(2) by (simp add: FAT12_SECT_SIZE_def word_less_nat_alt)
  have u: "unat (file_cursor f + of_nat n) = unat (file_cursor f) + n"
    using n(2) by (simp add: unat_word_ariths unat_of_nat)
  have e: "7 * FAT12_SECT_SIZE \<le> file_cursor f + of_nat n \<longleftrightarrow> unat (file_cursor f) + n = 3584"
    using u n(2) by (simp add: FAT12_SECT_SIZE_def word_le_nat_alt)
  have p: "aget (data_pages f) 0 = Some (data_pages f ! 0)" using d by (simp add: aget_def)
  have l: "mov_loop (\<lambda>c. c < 7 * FAT12_SECT_SIZE) False this (this + 512) n 0 buf k =
      Some (n, file_bytes k (this + 512) (file_cursor f) n @ drop n buf,
        put_obj this (File (f\<lparr>file_cursor := file_cursor f + of_nat n\<rparr>)) k)"
    using mov_loop_first [OF g n(2), of 0 buf "this + 512"] b by simp
  show ?thesis
    using g c l um p e m
    by (simp add: chardev_file_mov_def m_def [symmetric] mod_file_def moved_def Let_def)
qed

text \<open>C30. A read that stays within the first seven sectors of an open file returns the number of bytes
  asked for, or of those left in the file, delivers the bytes of the file at its cursor, and moves the
  cursor past them.\<close>

theorem file_read_first_sectors:
  assumes "get_file k this = Some f" "file_cursor f \<le> file_size f" "unat (file_cursor f) < 3584"
    and "n = min (unat sz) (unat (file_size f) - unat (file_cursor f))" "unat (file_cursor f) + n \<le> 3584"
    and "unat sz + unat (file_cursor f) < 2 ^ 32" "n \<le> length buf" "data_pages f \<noteq> []"
  shows "\<exists>buf' k' f'. chardev_file_read this buf sz k = Some (of_nat n, buf', k') \<and> get_file k' this = Some f' \<and>
     take n buf' = map (\<lambda>j. ram k (this + 512 + (file_cursor f + of_nat j))) [0..<n] \<and> drop n buf' = drop n buf \<and>
     file_cursor f' = file_cursor f + of_nat n \<and> file_size f' = file_size f \<and> ram k' = ram k"
proof -
  have "length (file_bytes k (this + 512) (file_cursor f) n) = n" by (simp add: file_bytes_def)
  then show ?thesis using mov_first [OF assms]
    by (auto simp: chardev_file_read_def moved_def) (simp add: file_bytes_def)
qed

text \<open>A file of five bytes, just opened, for examples.\<close>

definition file_kern :: conk where
  "file_kern = con_kern\<lparr>objs := [0x101000 \<mapsto> File (new_file 0x101000 5 [65, 0])], ram := (\<lambda>a. if a = 0x101200 then 72 else 33)\<rparr>"

lemma file_kern_get: "get_file file_kern 0x101000 = Some (new_file 0x101000 5 [65, 0])"
  by (simp add: file_kern_def get_file_def)

lemma new_file_fields [simp]:
  "file_cursor (new_file a n s) = 0" "file_size (new_file a n s) = n" "data_pages (new_file a n s) = replicate 100 0"
  by (simp_all add: new_file_def)

theorem file_read_first_sectors_witness:
  "\<exists>buf' k'. chardev_file_read 0x101000 (replicate 8 0) 7 file_kern = Some (5, buf', k') \<and>
     take 5 buf' = [72, 33, 33, 33, 33]"
proof -
  have n: "(5 :: nat) = min (unat (7 :: u32)) (unat (file_size (new_file 0x101000 5 [65, 0])) -
      unat (file_cursor (new_file 0x101000 5 [65, 0])))" by simp
  have d: "data_pages (new_file 0x101000 5 [65, 0]) \<noteq> []" by (simp add: numeral_eq_Suc)
  obtain buf' k' where "chardev_file_read 0x101000 (replicate 8 0) 7 file_kern = Some (of_nat 5, buf', k')"
    "take 5 buf' = map (\<lambda>j. ram file_kern (0x101000 + 512 + (0 + of_nat j))) [0..<5]"
    using file_read_first_sectors [OF file_kern_get _ _ n _ _ _ d, of "replicate 8 0"] by auto
  then show ?thesis by (intro exI [of _ buf'] exI [of _ k']) (simp add: file_kern_def upt_rec)
qed

section \<open>Writing\<close>

lemma strncpy_from_copies:
  assumes "length dest = length src" "cnt = of_nat (length src)" "cnt \<noteq> 0" "length src < 2 ^ 32"
  shows "\<exists>i dest'. strncpy_from dest src cnt j = Some (i, dest') \<and> length dest' = length src"
  using assms
proof (induction "length src - j" arbitrary: j dest)
  case 0
  then have "\<not> j < unat cnt" by (simp add: unat_of_nat)
  with 0 show ?case by (subst strncpy_from.simps) auto
next
  case (Suc n)
  then have j: "j < length src" "j < unat cnt" by (auto simp: unat_of_nat)
  have "n = length src - (j + 1)" using Suc.hyps(2) by simp
  from Suc.hyps(1) [OF this, of "dest[j := src ! j]"] Suc.prems
  obtain i dest' where "strncpy_from (dest[j := src ! j]) src cnt (j + 1) = Some (i, dest')" "length dest' = length src"
    by auto
  with j Suc.prems show ?case by (subst strncpy_from.simps) (auto simp: nput_def)
qed

text \<open>Writing to a file returns the number of bytes and moves the cursor, but changes no byte of the
  file, nor any byte of memory: the bytes written are lost.\<close>

theorem file_write_is_lost:
  assumes "get_file k this = Some f" "file_cursor f \<le> file_size f"
    and "unat (file_cursor f) + length bs \<le> 3584" "unat (file_cursor f) + length bs \<le> unat (file_size f)"
    and "bs \<noteq> []" "length stack = length bs" "data_pages f \<noteq> []"
  shows "\<exists>k' f'. chardev_file_write this stack bs k = Some (of_nat (length bs), k') \<and> ram k' = ram k \<and>
     get_file k' this = Some f' \<and> file_cursor f' = file_cursor f + of_nat (length bs) \<and>
     (\<forall>a. a \<noteq> this \<longrightarrow> objs k' a = objs k a)"
proof -
  let ?n = "length bs"
  have u: "unat (of_nat ?n :: u32) = ?n" "(of_nat ?n :: u32) \<noteq> 0"
    using assms(3,5) by (auto simp: unat_of_nat word_unat_eq_iff)
  then obtain i dest where d: "strncpy stack bs (of_nat ?n) = Some (i, dest)" "length dest = ?n"
    using strncpy_from_copies [of stack bs "of_nat ?n" 0] assms(3,6) by (auto simp: strncpy_def)
  have "unat (file_cursor f) < 3584" using assms(3,5) by (cases bs) auto
  then have "chardev_file_mov this dest (of_nat ?n) False k =
    Some (of_nat ?n, file_bytes k (this + 512) (file_cursor f) ?n @ drop ?n dest, put_obj this (File (moved f ?n)) k)"
    using assms(3,4) u(1) d(2) by (intro mov_first [OF assms(1,2) _ _ _ _ _ assms(7)]) auto
  then show ?thesis using d(1) 
    by (simp add: chardev_file_write_def moved_def) (simp add: put_obj_def)
qed

theorem file_write_is_lost_witness:
  "\<exists>k'. chardev_file_write 0x101000 [0, 0] [65, 66] file_kern = Some (2, k') \<and> ram k' = ram file_kern"
proof -
  have "data_pages (new_file 0x101000 5 [65, 0]) \<noteq> []" by (simp add: numeral_eq_Suc)
  with file_write_is_lost [OF file_kern_get, of "[65, 66]" "[0, 0]"] show ?thesis by auto
qed

section \<open>The file allocation table\<close>

text \<open>Two entries of twelve bits in three bytes, as the format defines them.\<close>

definition fat_pack :: "12 word \<Rightarrow> 12 word \<Rightarrow> str" where
  "fat_pack v w = [ucast v, ucast (drop_bit 8 v) OR push_bit 4 (ucast w), ucast (drop_bit 4 w)]"

lemma low_nibble: "(0x0F :: u8) = mask 4"
  by (simp add: mask_eq_exp_minus_1)

lemma fat_pack_first: "ucast (ucast v :: u8) OR push_bit 8 (ucast ((ucast (drop_bit 8 v) OR push_bit 4 (ucast w) :: u8) AND 0x0F)) = (ucast v :: u16)"
  for v w :: "12 word"
  unfolding low_nibble by (rule bit_word_eqI) (auto simp: bit_simps dest: bit_imp_le_length)

lemma fat_pack_second: "ucast (drop_bit 4 (ucast (drop_bit 8 v) OR push_bit 4 (ucast w) :: u8)) OR push_bit 4 (ucast (ucast (drop_bit 4 w) :: u8)) = (ucast w :: u16)"
  for v w :: "12 word"
  by (rule bit_word_eqI) (auto simp: bit_simps dest: bit_imp_le_length)

text \<open>C31. The decoding of the file allocation table inverts the packing of its entries: whatever the
  values of two entries, the even index of their three bytes gives the first and the odd the second.\<close>

theorem fat_entries_roundtrip:
  assumes "i < 2048" "read_bytes r (entries + 3 * of_nat i) 3 = fat_pack v w"
  shows "fat12_next_sector r entries (of_nat (2 * i)) = ucast v \<and>
    fat12_next_sector r entries (of_nat (2 * i + 1)) = ucast w"
proof -
  let ?a = "entries + 3 * of_nat i :: u32"
  have b: "r ?a = ucast v" "r (?a + 1) = ucast (drop_bit 8 v) OR push_bit 4 (ucast w)" "r (?a + 2) = ucast (drop_bit 4 w)"
    using assms(2) by (simp_all add: read_bytes_def fat_pack_def upt_rec numeral_2_eq_2)
  have e: "unat (of_nat (2 * i) :: u16) = 2 * i" "unat (of_nat (2 * i + 1) :: u16) = 2 * i + 1"
    using assms(1) by (simp_all only: unat_of_nat) simp_all
  have "(of_nat (2 * i) :: u16) div 2 = of_nat i" "(of_nat (2 * i + 1) :: u16) div 2 = of_nat i"
    using assms(1) e by (simp_all only: word_unat_eq_iff unat_div unat_of_nat) simp_all
  moreover have "(ucast (of_nat i :: u16) :: u32) = of_nat i"
    using assms(1) by (simp add: word_unat_eq_iff unat_of_nat unsigned_ucast_eq take_bit_eq_mod)
  moreover have "(of_nat (2 * i) :: u16) mod 2 = 0" "(of_nat (2 * i + 1) :: u16) mod 2 = 1"
    using assms(1) e by (simp_all only: word_unat_eq_iff unat_mod unat_of_nat) simp_all
  ultimately show ?thesis
    using fat_pack_first [of v w] fat_pack_second [of v w] b
    by (simp add: fat12_next_sector_def fat12_first_def fat12_second_def Let_def del: of_nat_add of_nat_mult)
qed

theorem fat_entries_roundtrip_witness:
  "fat12_next_sector (\<lambda>a. if a = 103 then 0x23 else if a = 104 then 0x61 else 0x45) 100 2 = 0x123 \<and>
   fat12_next_sector (\<lambda>a. if a = 103 then 0x23 else if a = 104 then 0x61 else 0x45) 100 3 = 0x456"
proof -
  let ?r = "\<lambda>a :: u32. if a = 103 then 0x23 else if a = 104 then 0x61 else 0x45 :: u8"
  have "read_bytes ?r (100 + 3 * of_nat 1) 3 = fat_pack 0x123 0x456" by code_simp
  with fat_entries_roundtrip [of 1 ?r 100 "0x123" "0x456"] show ?thesis by simp
qed

section \<open>Finding a file\<close>

lemma sint_eq: "sint (x :: u8) = sint y \<longleftrightarrow> x = y"
  using signed_word_eqI by auto

lemma strncmp_take:
  "n \<le> length s \<Longrightarrow> n \<le> length t \<Longrightarrow> 0 \<notin> set (take n s) \<Longrightarrow>
   \<exists>d. strncmp s t n = Some d \<and> (d = 0 \<longleftrightarrow> take n t = take n s)"
proof (induction s t n rule: strncmp.induct)
  case (2 p ps c qs n)
  then show ?case using sint_eq [of p c] by auto
qed auto

lemma strlen_app: "0 \<notin> set s \<Longrightarrow> strlen (s @ 0 # t) = Some (length s)"
  by (induction s) auto

lemma strchr_dot:
  assumes "46 \<notin> set p" "0 \<notin> set p" "0 \<notin> set e" "i \<le> length p"
  shows "strchr_from (p @ 46 # e @ [0]) 46 i = Some (int (length p))"
  using assms(4)
proof (induction "length p - i" arbitrary: i)
  have l: "strlen (p @ 46 # e @ [0]) = Some (length (p @ 46 # e))"
    using strlen_app [of "p @ 46 # e" "[]"] assms(2,3) by simp
  { case 0
    then have "(p @ 46 # e @ [0]) ! i = 46" "i = length p" by (simp_all add: nth_append)
    then show ?case using l by (subst strchr_from.simps) simp
  next
    case (Suc n)
    then have i: "i < length p" by simp
    then have "(p @ 46 # e @ [0]) ! i = p ! i" by (simp add: nth_append)
    moreover have "p ! i \<noteq> 46" using i assms(1) nth_mem by metis
    then have "sint (p ! i) \<noteq> 46" using sint_eq [of "p ! i" 46] by simp
    moreover have "strchr_from (p @ 46 # e @ [0]) 46 (i + 1) = Some (int (length p))"
      using Suc.hyps(2) i by (intro Suc.hyps(1)) auto
    ultimately show ?case using l i by (subst strchr_from.simps) simp }
qed

text \<open>A directory entry is taken for the file asked for whenever its name begins with the name asked
  for and the extension is the same: looking up \<open>A.TXT\<close> finds \<open>ABC.TXT\<close>. Only a name of eight
  characters is compared as a whole.\<close>

theorem file_name_prefix_matches:
  assumes "46 \<notin> set p" "0 \<notin> set p" "length p \<le> 8" "0 \<notin> set e" "length e = 3" "11 \<le> length ent"
  shows "name_matches (p @ 46 # e @ [0]) ent = Some (take (length p) ent = p \<and> take 3 (drop 8 ent) = e)"
proof -
  have c: "strchr (p @ 46 # e @ [0]) 46 = Some (int (length p))"
    using strchr_dot [OF assms(1,2,4), of 0] by (simp add: strchr_def)
  have n: "unat (word_of_int (if 8 < int (length p) then 8 else int (length p)) :: u32) = length p"
    using assms(3) by (simp add: unat_of_nat)
  obtain d where d: "strncmp (p @ 46 # e @ [0]) ent (length p) = Some d" "d = 0 \<longleftrightarrow> take (length p) ent = p"
    using strncmp_take [of "length p" "p @ 46 # e @ [0]" ent] assms(2,3,6) by auto
  have "3 \<le> length (drop 8 ent)" using assms(6) by simp
  then obtain d' where d': "strncmp (e @ [0]) (drop 8 ent) 3 = Some d'" "d' = 0 \<longleftrightarrow> take 3 (drop 8 ent) = e"
    using strncmp_take [of 3 "e @ [0]" "drop 8 ent"] assms(4,5) by auto
  have dr: "drop (nat (int (length p) + 1)) (p @ 46 # e @ [0]) = e @ [0]" by (simp add: nat_add_distrib)
  show ?thesis unfolding name_matches_def c
    using d d' n dr by (cases "d = 0"; cases "d' = 0") simp_all
qed

theorem file_name_prefix_matches_witness:
  "name_matches [65, 46, 84, 88, 84, 0] [65, 66, 67, 32, 32, 32, 32, 32, 84, 88, 84] = Some True"
  using file_name_prefix_matches [of "[65]" "[84, 88, 84]" "[65, 66, 67, 32, 32, 32, 32, 32, 84, 88, 84]"] by simp

end
