(* ===== verification/Boot.thy ===== *)
theory Boot
  imports Files
begin

text \<open>
  Starting the kernel: the detection of memory and the initialisation of the memory manager,
  kernel/mm.c, and \<open>kernel_init\<close>, kernel/kernel.c. How much memory is installed is an argument,
  \<open>mem_top\<close>: a write above it is lost and a read gives all ones.
\<close>

definition MAGIC_NUMBER :: u32 where "MAGIC_NUMBER = 0x4D324432"

definition mem_store :: "u32 \<Rightarrow> u32 \<Rightarrow> u32 \<Rightarrow> ram \<Rightarrow> ram" where
  "mem_store mem_top a v r = (if a < mem_top then wr32 r a v else r)"

definition mem_load :: "u32 \<Rightarrow> u32 \<Rightarrow> ram \<Rightarrow> u32" where
  "mem_load mem_top a r = (if a < mem_top then rd32 r a else -1)"

text \<open>The pointers are to words of four bytes, and so is \<open>jump\<close>.\<close>

partial_function (option) detect_loop :: "u32 \<Rightarrow> u32 \<Rightarrow> u32 \<Rightarrow> ram \<Rightarrow> (u32 \<times> ram) option" where
  "detect_loop mem_top jump maxfree r =
     (if mem_load mem_top (maxfree + 4 * jump - 4) r = MAGIC_NUMBER then
        (let maxfree = maxfree + 4 * jump;
             r = mem_store mem_top (maxfree - 4) 0 r;
             r = mem_store mem_top (maxfree + 4 * jump - 4) MAGIC_NUMBER r
         in detect_loop mem_top jump maxfree r)
      else Some (maxfree, r))"

declare detect_loop.simps [code]

definition memory_detect :: "u32 \<Rightarrow> u32 \<Rightarrow> u32 \<Rightarrow> ram \<Rightarrow> (u32 \<times> ram) option" where
  "memory_detect mem_top start jump r =
     detect_loop mem_top jump start (mem_store mem_top (start + 4 * jump - 4) MAGIC_NUMBER r)"

definition activate_paging :: "bool \<Rightarrow> 'a cpuk_scheme \<Rightarrow> 'a cpuk_scheme" where
  "activate_paging on k =
     k\<lparr>cr0 := if on then cr0 k OR push_bit 31 1 else cr0 k AND NOT (push_bit 31 1)\<rparr>"

definition activate_pse :: "bool \<Rightarrow> 'a cpuk_scheme \<Rightarrow> 'a cpuk_scheme" where
  "activate_pse on k =
     k\<lparr>cr4 := if on then cr4 k OR push_bit 4 1 else cr4 k AND NOT (push_bit 4 1)\<rparr>"

text \<open>The two loops that clear the bitmaps run to \<open>sizeof\<close>, four times their number of entries.\<close>

definition clear_pf_info :: "u32 list \<Rightarrow> u32 list option" where
  "clear_pf_info l = for_range 0 (4 * length l) (\<lambda>i l. aput l (of_nat i) 0) l"

definition mm_init :: "u32 \<Rightarrow> (isr \<Rightarrow> u32) \<Rightarrow> 'a cpuk_scheme \<Rightarrow> 'a cpuk_scheme option" where
  "mm_init mem_top addr k = do {
     k \<leftarrow> idt_register 0x0e (addr Isr_page_fault) 0 k;
     (lim, r) \<leftarrow> memory_detect mem_top USR_MEM_START PAGE_SIZE (ram k);
     k \<leftarrow> Some (k\<lparr>ram := r, usr_pf_limit := (lim - USR_MEM_START) div (PAGE_SIZE * 32)\<rparr>);
     kp \<leftarrow> clear_pf_info (kernel_pf_info k);
     k \<leftarrow> Some (k\<lparr>kernel_pf_info := kp\<rparr>);
     up \<leftarrow> clear_pf_info (usr_pf_info k);
     k \<leftarrow> Some (k\<lparr>usr_pf_info := up\<rparr>);
     k \<leftarrow> Some (activate_pse True k);
     (d, k) \<leftarrow> mm_dir_new k;
     k \<leftarrow> Some (k\<lparr>kernel_dir := d, reg_cr3 := d\<rparr>);
     k \<leftarrow> Some (activate_paging True k);
     k \<leftarrow> register_syscall 0x30 Sys_palloc k;
     k \<leftarrow> register_syscall 0x40 Sys_share_page k;
     Some (k\<lparr>dir_free_sem := SEM_NEW 1\<rparr>) }"

text \<open>\<open>kernel_init\<close>: \<open>tss_addr\<close>, \<open>addr\<close>, \<open>task_ret\<close> and \<open>taskinit\<close> are linker addresses.\<close>

definition kernel_init ::
    "'a fsk_scheme env \<Rightarrow> u32 \<Rightarrow> u32 \<Rightarrow> (isr \<Rightarrow> u32) \<Rightarrow> u32 \<Rightarrow> u32 \<Rightarrow> u32 \<times> u32 \<times> u32 \<Rightarrow>
     'a fsk_scheme \<Rightarrow> 'a fsk_scheme option" where
  "kernel_init E mem_top tss_addr addr task_ret taskinit geometry k = do {
     k \<leftarrow> gdt_init tss_addr k;
     k \<leftarrow> Some (mod_ram clear_screen k);
     k \<leftarrow> idt_init addr k;
     k \<leftarrow> debug_init addr k;
     k \<leftarrow> mm_init mem_top addr k;
     k \<leftarrow> serial_init addr k;
     k \<leftarrow> logger_init k;
     k \<leftarrow> pit_init addr k;
     k \<leftarrow> Some (k\<lparr>sch := sched_init (sch k)\<rparr>);
     k \<leftarrow> loader_init k;
     k \<leftarrow> device_init k;
     k \<leftarrow> con_init k;
     k \<leftarrow> Some (sti k);
     k \<leftarrow> fdd_init (rest_of E) addr k;
     k \<leftarrow> fs_init E geometry k;
     k \<leftarrow> pipe_init k;
     (_, k) \<leftarrow> loader_load task_ret taskinit 0 k;
     Some k }"

end
