(* ===== verification/Tables_Spec.thy ===== *)
theory Tables_Spec
  imports Boot Console_Spec
begin

text \<open>
  The processor's tables: what a segment descriptor and an interrupt gate mean to the processor, and
  the interrupt table that the start of the kernel leaves. At the end a concrete kernel state, used by
  the examples of the drivers too.
\<close>

section \<open>Segment descriptors and gates\<close>

lemma field_bits: "(0xFFFF :: u32) = mask 16" "(0xFF :: u32) = mask 8" "(0xF :: u32) = mask 4" "(0xFFFFF :: u32) = mask 20"
  "(0xF :: u16) = mask 4" "(3 :: u16) = mask 2" "(1 :: u16) = mask 1" "(0xFFF :: u16) = mask 12"
  "(0xFFFF0000 :: u32) = NOT (mask 16)" "(3 :: u32) = mask 2"
  by (simp_all add: mask_eq_exp_minus_1)

lemma bit_packed:
  "bit (pack_fields ((w, v) # fs)) n \<longleftrightarrow> n < 64 \<and> (if n < w then bit v n else bit (pack_fields fs) (n - w))"
  by (auto simp: bit_simps dest: bit_imp_le_length)

definition below32 :: "nat set" where
  "below32 = {0, 1, 2, 3, 4, 5, 6, 7, 8, 9, 10, 11, 12, 13, 14, 15, 16, 17,
     18, 19, 20, 21, 22, 23, 24, 25, 26, 27, 28, 29, 30, 31}"

lemma bits32: "(\<And>n. n \<in> below32 \<Longrightarrow> bit v n = bit w n) \<Longrightarrow> v = (w :: u32)"
proof (rule bit_word_eqI)
  fix n assume eq: "\<And>n. n \<in> below32 \<Longrightarrow> bit v n = bit w n" and "n < LENGTH(32)"
  then have "n \<in> {..<32}" by simp
  then have "n \<in> below32" by (simp add: lessThan_nat_numeral below32_def) blast
  then show "bit v n = bit w n" by (rule eq)
qed

lemmas seg_bits = gdt_vl_def gdt_fields_def make_gdt_entry_def Let_def bit_packed bit_simps

lemma seg_base_made: "seg_base (gdt_vl (make_gdt_entry addr limit attr)) = addr"
proof (rule bits32)
  fix n assume "n \<in> below32"
  then show "bit (seg_base (gdt_vl (make_gdt_entry addr limit attr))) n = bit addr n"
    unfolding below32_def insert_iff empty_iff by (elim disjE; simp add: seg_base_def seg_bits del: pack_fields.simps)
qed

lemma seg_limit_made: "seg_limit (gdt_vl (make_gdt_entry addr limit attr)) = limit AND 0xFFFFF"
proof (rule bits32)
  fix n assume "n \<in> below32"
  then show "bit (seg_limit (gdt_vl (make_gdt_entry addr limit attr))) n = bit (limit AND 0xFFFFF) n"
    unfolding below32_def insert_iff empty_iff by (elim disjE; simp add: seg_limit_def seg_bits del: pack_fields.simps)
qed

lemma seg_attr_made: "seg_attr (gdt_vl (make_gdt_entry addr limit attr)) = ucast attr AND 0xFFF"
proof (rule bits32)
  fix n assume "n \<in> below32"
  then show "bit (seg_attr (gdt_vl (make_gdt_entry addr limit attr))) n = bit (ucast attr AND 0xFFF :: u32) n"
    unfolding below32_def insert_iff empty_iff by (elim disjE; simp add: seg_attr_def seg_bits del: pack_fields.simps)
qed

text \<open>C39. An entry made of a base, a limit and attributes, packed into its eight bytes as gdt.h lays out its
  fields, is read by the processor, which knows only the two words, as a segment with that base, the
  low twenty bits of that limit and the low twelve of those attributes; the rest of the limit and of the
  attributes is dropped, there is no room for it in a descriptor.\<close>

theorem gdt_entry_roundtrip:
  "seg_base (gdt_vl (make_gdt_entry addr limit attr)) = addr \<and>
   seg_limit (gdt_vl (make_gdt_entry addr limit attr)) = limit AND 0xFFFFF \<and>
   seg_attr (gdt_vl (make_gdt_entry addr limit attr)) = ucast attr AND 0xFFF"
  by (simp add: seg_base_made seg_limit_made seg_attr_made)

lemma gate_decodes:
  assumes "select < 0x10000" "attr < 0x10000"
  shows "gate_offset (make_idt_entry offset select attr) = offset"
    "gate_selector (make_idt_entry offset select attr) = select"
    "gate_present (make_idt_entry offset select attr) = bit attr 15"
    "gate_dpl (make_idt_entry offset select attr) = drop_bit 13 attr AND 3"
proof -
  have "take_bit 16 select = select"
    using assms(1) by (simp add: word_unat_eq_iff unsigned_take_bit_eq word_less_nat_alt take_bit_nat_eq_self)
  then have s: "bit select n \<Longrightarrow> n < 16" for n
    by (metis bit_take_bit_iff)
  show "gate_offset (make_idt_entry offset select attr) = offset"
    unfolding gate_offset_def make_idt_entry_def field_bits fst_conv snd_conv
    by (rule bit_word_eqI) (auto simp: bit_simps)
  show "gate_selector (make_idt_entry offset select attr) = select"
    unfolding gate_selector_def make_idt_entry_def field_bits fst_conv snd_conv
    by (rule bit_word_eqI) (auto simp: bit_simps dest: s)
  show "gate_present (make_idt_entry offset select attr) = bit attr 15"
    unfolding gate_present_def make_idt_entry_def field_bits fst_conv snd_conv
    by (auto simp: bit_simps)
  show "gate_dpl (make_idt_entry offset select attr) = drop_bit 13 attr AND 3"
    unfolding gate_dpl_def make_idt_entry_def field_bits fst_conv snd_conv
    by (rule bit_word_eqI) (auto simp: bit_simps)
qed

section \<open>The interrupt table after the start\<close>

text \<open>What the table must be for the handlers \<open>h\<close>: a handler of each number, with the privilege from
  which it may be called by an instruction, or no gate.\<close>

definition idt_for :: "(nat \<Rightarrow> (u32 \<times> u32) option) \<Rightarrow> (u32 \<times> u32) list \<Rightarrow> bool" where
  "idt_for h t \<longleftrightarrow> length t = 128 \<and> (\<forall>n < 128. case h n of None \<Rightarrow> \<not> gate_present (t ! n)
     | Some (a, pl) \<Rightarrow> gate_present (t ! n) \<and> gate_offset (t ! n) = a \<and> gate_selector (t ! n) = 8 \<and> gate_dpl (t ! n) = pl)"

lemma registered_gate:
  "gate_present (make_idt_entry a 8 (IDT_INT OR (if pl = 3 then IDT_ATTR_DPL3 else IDT_ATTR_DPL0)))"
  "gate_offset (make_idt_entry a 8 (IDT_INT OR (if pl = 3 then IDT_ATTR_DPL3 else IDT_ATTR_DPL0))) = a"
  "gate_selector (make_idt_entry a 8 (IDT_INT OR (if pl = 3 then IDT_ATTR_DPL3 else IDT_ATTR_DPL0))) = 8"
  "gate_dpl (make_idt_entry a 8 (IDT_INT OR (if pl = 3 then IDT_ATTR_DPL3 else IDT_ATTR_DPL0))) = (if pl = 3 then 3 else 0)"
  using gate_decodes [of 8 "IDT_INT OR (if pl = 3 then IDT_ATTR_DPL3 else IDT_ATTR_DPL0)" a]
  by (auto simp: IDT_INT_def IDT_ATTR_DPL3_def IDT_ATTR_DPL0_def bit_numeral_rec)

lemma no_gate: "\<not> gate_present (make_idt_entry 0 0 0)"
  using gate_decodes(3) [of 0 0 0] by simp

text \<open>Registering a handler.\<close>

lemma idt_register_for:
  assumes "idt_for h (idt k)" "unat n < 128"
  shows "\<exists>k'. idt_register n a pl k = Some k' \<and> idt_for (h(unat n := Some (a, if pl = 3 then 3 else 0))) (idt k')"
  using assms registered_gate [of a pl]
  by (auto simp: idt_register_def aput_def idt_for_def nth_list_update split: option.splits)

lemma register_all_for:
  assumes "idt_for h (idt k)" "\<forall>(n, a) \<in> set rs. unat n < 128"
  shows "\<exists>k'. register_all rs k = Some k' \<and> idt_for (h ++ map_of (rev (map (\<lambda>(n, a). (unat n, (a, 0))) rs))) (idt k')"
  using assms
proof (induction rs arbitrary: h k)
  case Nil
  then show ?case by simp
next
  case (Cons r rs)
  obtain n a where r: "r = (n, a)" by (cases r)
  obtain k1 where k1: "idt_register n a 0 k = Some k1" "idt_for (h(unat n := Some (a, 0))) (idt k1)"
    using idt_register_for [OF Cons.prems(1), of n a 0] Cons.prems(2) r by auto
  have eq: "h(unat n := Some (a, 0)) ++ map_of (rev (map (\<lambda>(n, a). (unat n, (a, 0))) rs)) =
      h ++ map_of (rev (map (\<lambda>(n, a). (unat n, (a, 0))) (r # rs)))"
    by (simp add: r map_add_upd_left map_add_assoc [symmetric])
  have "\<forall>(n, a) \<in> set rs. unat n < 128" using Cons.prems(2) by simp
  then obtain k' where k': "register_all rs k1 = Some k'"
    "idt_for (h(unat n := Some (a, 0)) ++ map_of (rev (map (\<lambda>(n, a). (unat n, (a, 0))) rs))) (idt k')"
    using Cons.IH [OF k1(2)] by blast
  moreover have "register_all (r # rs) k = Some k'" using k1(1) k'(1) by (simp add: r)
  ultimately show ?case unfolding eq by blast
qed

text \<open>The handlers of \<open>idt_init\<close> and \<open>debug_init\<close>.\<close>

definition start_handlers :: "(isr \<Rightarrow> u32) \<Rightarrow> nat \<Rightarrow> (u32 \<times> u32) option" where
  "start_handlers addr n =
     (if n = 48 then Some (addr Isr_syscall, 3)
      else if n = 33 then Some (addr Isr_keyboard, 0)
      else if n < 20 \<and> n \<noteq> 15 then Some (addr (Isr_dkp (of_nat n)), 0)
      else None)"

lemma idt_cleared: "idt_for (\<lambda>_. None) (map (\<lambda>_. make_idt_entry 0 0 0) [0..<128])"
  by (simp add: idt_for_def no_gate)

lemma outb_idt [simp]: "idt (outb p d k) = idt k" "idt_loaded (outb p d k) = idt_loaded k"
  by (simp_all add: outb_def)

lemma exception_numbers:
  "n < 20 \<Longrightarrow> n \<noteq> 15 \<Longrightarrow> n \<in> {0, 1, 2, 3, 4, 5, 6, 7, 8, 9, 10, 11, 12, 13, 14, 16, 17, 18, 19}" for n :: nat
  by (simp add: numeral_eq_Suc less_Suc_eq)

definition debug_handlers :: "(isr \<Rightarrow> u32) \<Rightarrow> (u32 \<times> u32) list" where
  "debug_handlers addr = (33, addr Isr_keyboard) #
     map (\<lambda>n. (n, addr (Isr_dkp n))) [0, 1, 2, 3, 4, 5, 6, 7, 8, 9, 10, 11, 12, 13, 14, 16, 17, 18, 19]"

lemma handlers_eq:
  "((\<lambda>_. None)(48 := Some (addr Isr_syscall, 3)) ++ map_of (rev (map (\<lambda>(n, a). (unat n, (a, 0))) (debug_handlers addr)))) =
   start_handlers addr"
proof
  fix n
  have "map_of (rev (map (\<lambda>(n, a). (unat n, (a, 0))) (debug_handlers addr))) n =
      (if n = 33 then Some (addr Isr_keyboard, 0) else if n < 20 \<and> n \<noteq> 15 then Some (addr (Isr_dkp (of_nat n)), 0) else None)"
  proof (cases "n < 20 \<and> n \<noteq> 15")
    case True
    from exception_numbers [OF conjunct1 [OF True] conjunct2 [OF True]] show ?thesis
      by (elim insertE emptyE) (simp_all add: debug_handlers_def)
  next
    case False
    then show ?thesis by (auto simp: debug_handlers_def)
  qed
  then show "((\<lambda>_. None)(48 := Some (addr Isr_syscall, 3)) ++ map_of (rev (map (\<lambda>(n, a). (unat n, (a, 0))) (debug_handlers addr)))) n =
      start_handlers addr n"
    unfolding map_add_def by (rule ssubst) (simp add: start_handlers_def)
qed

lemma register_all_loaded: "register_all rs k = Some k' \<Longrightarrow> idt_loaded k' = idt_loaded k"
proof (induction rs arbitrary: k)
  case (Cons r rs)
  then obtain k1 where "idt_register (fst r) (snd r) 0 k = Some k1" "register_all rs k1 = Some k'"
    by (cases r) (auto split: bind_splits)
  moreover from this(1) have "idt_loaded k1 = idt_loaded k" by (auto simp: idt_register_def split: bind_splits)
  ultimately show ?case using Cons.IH by blast
qed simp

text \<open>C40. After \<open>idt_init\<close> and \<open>debug_init\<close> the interrupt table has a present gate to the right routine, in
  the kernel's code segment, for every exception of the processor, for the keyboard and for system
  calls, and no other; only the gate of system calls can be used by a task.\<close>

theorem interrupt_table_at_start:
  assumes "length (idt k) = 128"
  shows "\<exists>k1 k2. idt_init addr k = Some k1 \<and> debug_init addr k1 = Some k2 \<and> idt_loaded k2 \<and>
     idt_for (start_handlers addr) (idt k2)"
proof -
  let ?t = "map (\<lambda>_. make_idt_entry 0 0 0) [0..<128]"
  have "for_range 0 128 (\<lambda>i t. aput t (of_nat i) (make_idt_entry 0 0 0)) (idt k) = Some ?t"
    using for_range_fill [of 0 128 "idt k" "\<lambda>_. make_idt_entry 0 0 0"] assms by (simp cong: map_cong)
  moreover define k0 where "k0 = pic_enable (pic_reset 0x20 0x28 (k\<lparr>idt := ?t, idt_loaded := True\<rparr>))"
  ultimately have init: "idt_init addr k = idt_register SYS_INT (addr Isr_syscall) 3 k0"
    by (simp add: idt_init_def)
  have "idt_for (\<lambda>_. None) (idt k0)" "idt_loaded k0"
    using idt_cleared by (simp_all add: k0_def pic_enable_def pic_reset_def)
  then obtain k1 where k1: "idt_init addr k = Some k1" "idt_for ((\<lambda>_. None)(48 := Some (addr Isr_syscall, 3))) (idt k1)"
    using idt_register_for [of "\<lambda>_. None" k0 SYS_INT "addr Isr_syscall" 3] init by (auto simp: SYS_INT_def)
  moreover have "idt_loaded k1" using k1(1) \<open>idt_loaded k0\<close> init by (auto simp: idt_register_def split: bind_splits)
  moreover have "\<forall>(n, a) \<in> set (debug_handlers addr). unat n < 128" by (simp add: debug_handlers_def)
  ultimately obtain k2 where "debug_init addr k1 = Some k2" "idt_for (start_handlers addr) (idt k2)" "idt_loaded k2"
    using register_all_for [OF k1(2), of "debug_handlers addr"] register_all_loaded
    unfolding handlers_eq debug_handlers_def [symmetric] debug_init_def by blast
  with k1(1) show ?thesis by blast
qed

section \<open>A machine for the examples\<close>

definition no_fdc :: fdc_stat where
  "no_fdc = \<lparr>st0 = 0, st1 = 0, st2 = 0, fdc_c = 0, fdc_h = 0, fdc_r = 0, fdc_n = 0, dor = 0, srA = 0, srB = 0, dsr = 0,
     fdc_dir = 0, ccr = 0, msr = 0, config1 = 0, config2 = 0, pcn0 = 0, pcn1 = 0, pcn2 = 0, pcn3 = 0,
     srt_hut = 0, hlt_nd = 0, sc_eot = 0, perpendicular = 0\<rparr>"

definition no_drive :: blockdev_floppy where
  "no_drive = \<lparr>floppy_refcount = 0, drive = 0, cylinder_count = 0, head_count = 0, sect_per_track = 0,
     floppy_buffer = replicate 512 0\<rparr>"

text \<open>The boot sector of a floppy disk of 1.44 MB.\<close>

definition floppy_boot :: boot_sector where
  "floppy_boot = \<lparr>jumpBoot = [0xEB, 0x3C, 0x90], SysName = map of_char ''mkdosfs'' @ [0], bytesPerSector = 512,
     SectorsPerCluster = 1, ReservedSectors = 1, FATcount = 2, MaxRootEntries = 224, TotalSectors1 = 2880,
     MediaDescriptor = 0xF0, SectorsPerFAT = 9, SectorsPerTrack = 18, HeadCount = 2, HiddenSectors = 0, TotalSectors2 = 0,
     DriveNumber = 0, Reserved1 = 0, ExtBootSignature = 41, VolumeSerial = 0, VolumeLabel = replicate 11 32,
     Reserved2 = map of_char ''FAT12'' @ replicate 3 32\<rparr>"

text \<open>The variables of the kernel as they are loaded, with two tasks.\<close>

definition loaded_kernel :: fsk where
  "loaded_kernel =
     \<lparr>sch = sch kern_two_tasks, task_table = task_table kern_two_tasks, cur_pid = cur_pid kern_two_tasks,
      tasks_running = 2, tasks_blocked = 0, free_pids = free_pids kern_two_tasks, next_free = next_free kern_two_tasks,
      syscall_list = replicate 128 None, reg_cr3 = 0, reg_esp = 0,
      ram = \<lambda>_. 0, kernel_pf_info = replicate 24 0, usr_pf_info = replicate 32 0, usr_pf_limit = 32,
      kernel_dir = 0, dir_free_sem = SEM_NEW 1, in_panic = False, outs = [], inp = [], eflags = 0,
      char_devices = replicate 32 (replicate 32 0), objs = \<lambda>_. None,
      current_console = 0, empty_console = 0, altPressed = 0, shiftPressed = 0,
      gdt = gdt_initial, tss_entry = \<lparr>esp0_ = 0, ss0 = 0\<rparr>, tr = 0, idt = replicate 128 (0, 0), idt_loaded = False,
      cr0 = 1, cr4 = 0, serial_buffer = replicate 64 0, serial_buf_pos = 0, serial_buf_end = 0, log_chardev = 0,
      tick = 0, fdc = no_fdc, fdc_sem = SEM_NEW 1, floppy_sem = SEM_NEW 0, fdd_int_recv = False,
      floppy_devs = replicate 4 no_drive, dma_in = [],
      disk = \<lparr>fat_dev = 0, boot_sect = floppy_boot, fat = 0, fat_cache = 0\<rparr>\<rparr>"

lemma loaded_kernel_tables [simp]:
  "idt loaded_kernel = replicate 128 (0, 0)" "gdt loaded_kernel = gdt_initial" "serial_buffer loaded_kernel = replicate 64 0"
  "kernel_pf_info loaded_kernel = replicate 24 0" "outs loaded_kernel = []" "inp loaded_kernel = []"
  by (simp_all add: loaded_kernel_def)

theorem interrupt_table_at_start_witness:
  "\<exists>k1 k2. idt_init (\<lambda>_. 7) loaded_kernel = Some k1 \<and> debug_init (\<lambda>_. 7) k1 = Some k2 \<and>
     gate_present (idt k2 ! 48) \<and> gate_dpl (idt k2 ! 48) = 3 \<and> \<not> gate_present (idt k2 ! 15)"
proof -
  obtain k1 k2 where k: "idt_init (\<lambda>_. 7) loaded_kernel = Some k1" "debug_init (\<lambda>_. 7) k1 = Some k2"
    "idt_for (start_handlers (\<lambda>_. 7)) (idt k2)"
    using interrupt_table_at_start [of loaded_kernel "\<lambda>_. 7"] by auto
  then have "case start_handlers (\<lambda>_. 7) n of None \<Rightarrow> \<not> gate_present (idt k2 ! n)
     | Some (a, pl) \<Rightarrow> gate_present (idt k2 ! n) \<and> gate_offset (idt k2 ! n) = a \<and> gate_selector (idt k2 ! n) = 8 \<and> gate_dpl (idt k2 ! n) = pl"
    if "n < 128" for n using that by (simp add: idt_for_def)
  from this [of 48] this [of 15] k show ?thesis by (simp add: start_handlers_def)
qed

end
