(* ===== verification/Boot_Spec.thy ===== *)
theory Boot_Spec
  imports Tables_Spec
begin

text \<open>
  Starting the memory manager: the detection of memory ends with the right count, and the
  initialisation writes beyond an array.
\<close>

section \<open>Detecting memory\<close>

lemma detect_address:
  assumes "unat start + 16384 * (i + 1) < 4294967296"
  shows "unat (start + 16384 * of_nat i + 4 * 4096 - 4 :: u32) = unat start + 16384 * (i + 1) - 4"
proof -
  have "start + 16384 * of_nat i + 4 * 4096 - 4 = of_nat (16380 + (unat start + 16384 * i))" by simp
  then show ?thesis using assms by (simp only: unat_of_nat) simp
qed

lemma blocks: "n = (d + 3) div 16384 \<Longrightarrow> 16384 * n \<le> d + 3 \<and> d + 3 < 16384 * (n + 1)" for n d :: nat
  by (metis Suc_eq_plus1 dividend_less_times_div div_times_less_eq_dividend mult.commute zero_less_numeral add.commute mult_Suc_right)

text \<open>The loop, with \<open>n - i\<close> as its measure: \<open>n\<close> is the number of blocks below \<open>mem_top\<close>.\<close>

lemma detect_loop_counts:
  assumes top: "unat mem_top + 32768 < 4294967296" "unat start \<le> unat mem_top"
    and n: "n = (unat mem_top - unat start + 3) div 16384" and i: "i \<le> n"
    and magic: "i < n \<longrightarrow> rd32 r (start + 16384 * of_nat i + 4 * 4096 - 4) = MAGIC_NUMBER"
  shows "\<exists>r'. detect_loop mem_top 4096 (start + 16384 * of_nat i) r = Some (start + 16384 * of_nat n, r')"
proof -
  note N = conjunct1 [OF blocks [OF n]] conjunct2 [OF blocks [OF n]]
  show ?thesis using i magic
proof (induction "n - i" arbitrary: i r)
  case 0
  then have "i = n" by simp
  have b: "unat start + 16384 * (n + 1) < 4294967296" using N top by simp
  have "\<not> start + 16384 * of_nat n + 4 * 4096 - 4 < mem_top"
    using detect_address [OF b] N top(2) by (simp add: word_less_nat_alt)
  then show ?case using \<open>i = n\<close> by (subst detect_loop.simps) (simp add: mem_load_def MAGIC_NUMBER_def)
next
  case (Suc m)
  then have i: "i < n" by simp
  have b: "unat start + 16384 * (i + 1) < 4294967296" using N i top by simp
  have "start + 16384 * of_nat i + 4 * 4096 - 4 < mem_top"
    using detect_address [OF b] N i top(2) by (simp add: word_less_nat_alt)
  then have hit: "mem_load mem_top (start + 16384 * of_nat i + 4 * 4096 - 4) r = MAGIC_NUMBER"
    using Suc.prems(2) i by (simp add: mem_load_def)
  have next_start: "start + 16384 * of_nat i + 4 * 4096 = start + 16384 * of_nat (Suc i)" by (simp add: algebra_simps)
  let ?s = "start + 16384 * of_nat (Suc i)"
  let ?r = "mem_store mem_top (?s + 4 * 4096 - 4) MAGIC_NUMBER (mem_store mem_top (?s - 4) 0 r)"
  have "Suc i < n \<longrightarrow> rd32 ?r (?s + 4 * 4096 - 4) = MAGIC_NUMBER"
  proof
    assume s: "Suc i < n"
    then have "unat start + 16384 * (Suc i + 1) < 4294967296" using N top by simp
    from detect_address [OF this] have "?s + 4 * 4096 - 4 < mem_top"
      using N s top(2) by (simp add: word_less_nat_alt)
    then show "rd32 ?r (?s + 4 * 4096 - 4) = MAGIC_NUMBER" by (simp add: mem_store_def)
  qed
  moreover have "m = n - Suc i" "Suc i \<le> n" using Suc.hyps(2) i by arith+
  ultimately obtain r' where "detect_loop mem_top 4096 ?s ?r = Some (start + 16384 * of_nat n, r')"
    using Suc.hyps(1) [of "Suc i" ?r] by blast
  moreover have "detect_loop mem_top 4096 (start + 16384 * of_nat i) r = detect_loop mem_top 4096 ?s ?r"
    by (subst detect_loop.simps) (simp only: next_start hit [unfolded next_start] if_True Let_def simp_thms)
  ultimately show ?case by simp
qed
qed

text \<open>C38. The detection of memory ends. It goes by blocks of 16 KB, since \<open>jump\<close>, a page, counts words, and its
  result is the first address past the whole blocks after the start whose last word is memory.\<close>

theorem memory_detect_counts:
  assumes "unat mem_top + 32768 < 4294967296" "start \<le> mem_top"
  shows "\<exists>r'. memory_detect mem_top start 4096 r =
    Some (start + 16384 * of_nat ((unat mem_top - unat start + 3) div 16384), r')"
proof -
  let ?n = "(unat mem_top - unat start + 3) div 16384"
  let ?r = "mem_store mem_top (start + 4 * 4096 - 4) MAGIC_NUMBER r"
  have s: "unat start \<le> unat mem_top" using assms(2) by (simp add: word_le_nat_alt)
  have "0 < ?n \<longrightarrow> rd32 ?r (start + 16384 * of_nat 0 + 4 * 4096 - 4) = MAGIC_NUMBER"
  proof
    assume n: "0 < ?n"
    then have d: "16384 \<le> unat mem_top - unat start + 3" by (simp add: div_greater_zero_iff)
    then have "unat start + 16384 * (0 + 1) < 4294967296" using assms(1) s by simp
    from detect_address [OF this] d have "start + 4 * 4096 - 4 < mem_top"
      by (simp add: word_less_nat_alt)
    then show "rd32 ?r (start + 16384 * of_nat 0 + 4 * 4096 - 4) = MAGIC_NUMBER" by (simp add: mem_store_def)
  qed
  from detect_loop_counts [OF assms(1) s refl _ this] show ?thesis by (simp add: memory_detect_def)
qed

theorem memory_detect_counts_witness:
  "\<exists>r'. memory_detect 0x1000000 USR_MEM_START PAGE_SIZE (\<lambda>_. 0) = Some (0x1000000, r')"
  using memory_detect_counts [of "0x1000000" USR_MEM_START "\<lambda>_. 0"] by (simp add: USR_MEM_START_def PAGE_SIZE_def)

text \<open>The initialisation of the memory manager writes beyond the bitmap of the kernel's frames: the
  loop that clears it counts bytes where the array is of words.\<close>

theorem mm_init_overruns:
  assumes "unat mem_top + 32768 < 4294967296" "USR_MEM_START \<le> mem_top" "length (idt k) = 128" "length (kernel_pf_info k) = 24"
  shows "\<exists>k1 lim r. idt_register 0x0e (addr Isr_page_fault) 0 k = Some k1 \<and>
     memory_detect mem_top USR_MEM_START PAGE_SIZE (ram k1) = Some (lim, r) \<and>
     clear_pf_info (kernel_pf_info k1) = None \<and> mm_init mem_top addr k = None"
proof -
  obtain k1 where k1: "idt_register 0x0e (addr Isr_page_fault) 0 k = Some k1" "kernel_pf_info k1 = kernel_pf_info k"
    using assms(3) by (auto simp: idt_register_def aput_def)
  obtain lim r where d: "memory_detect mem_top USR_MEM_START PAGE_SIZE (ram k1) = Some (lim, r)"
    using memory_detect_counts [OF assms(1,2), of "ram k1"] by (auto simp: PAGE_SIZE_def)
  have "clear_pf_info (kernel_pf_info k1) = None"
    unfolding clear_pf_info_def k1(2) assms(4) using assms(4) by (intro for_range_fill_out) simp_all
  moreover from this k1 d have "mm_init mem_top addr k = None" by (simp add: mm_init_def)
  ultimately show ?thesis using k1(1) d by blast
qed

theorem mm_init_overruns_witness:
  "mm_init 0x1000000 (\<lambda>_. 7) loaded_kernel = None"
  using mm_init_overruns [of "0x1000000" loaded_kernel "\<lambda>_. 7"] by (auto simp: USR_MEM_START_def)

end
