(* ===== verification/Drivers_Spec.thy ===== *)
theory Drivers_Spec
  imports Tables_Spec
begin

text \<open>
  Properties of the drivers: the serial port after its initialisation, the timeout of the floppy
  controller, and the order in which a read visits the sectors of the disk.
\<close>

section \<open>The serial port after its initialisation\<close>

text \<open>After \<open>serial_init\<close> the receive buffer counts as full: whatever the port has received, its
  interrupt handler takes no byte, and it returns without acknowledging the interrupt.\<close>

theorem serial_deaf_after_init:
  assumes "length (idt k) = 128" "serial_buffer k \<noteq> []"
  shows "\<exists>k1. serial_init addr k = Some k1 \<and>
     (\<forall>b bs. isr_serial_c (k1\<lparr>inp := b # bs\<rparr>) = Some (k1\<lparr>inp := bs\<rparr>))"
proof -
  obtain k1 where r: "idt_register 36 (addr Isr_serial) 0 k = Some k1" "serial_buffer k1 = serial_buffer k"
    using assms(1) by (auto simp: idt_register_def aput_def)
  obtain buf where buf: "aput (serial_buffer k) 0 72 = Some buf" using assms(2) by (simp add: aput_def)
  have o: "serial_buf_pos (reset_serial_port p x) = serial_buf_pos x" "serial_buf_end (reset_serial_port p x) = serial_buf_end x"
    for p and x :: "'a serialk_scheme" by (simp_all add: reset_serial_port_def outb_def)
  obtain k2 where k2: "serial_init addr k = Some k2" "serial_buf_pos k2 = 1" "serial_buf_end k2 = 0"
    using r buf by (auto simp: serial_init_def o)
  have "isr_serial_c (k2\<lparr>inp := b # bs\<rparr>) = Some (k2\<lparr>inp := bs\<rparr>)" for b bs
    using k2 by (simp add: isr_serial_c_def inb_port_def SERIAL_BUFF_SIZE_def)
  with k2(1) show ?thesis by blast
qed

theorem serial_deaf_after_init_witness:
  "\<exists>k1. serial_init (\<lambda>_. 7) loaded_kernel = Some k1 \<and>
     isr_serial_c (k1\<lparr>inp := [0xC4, 1, 65]\<rparr>) = Some (k1\<lparr>inp := [1, 65]\<rparr>)"
  using serial_deaf_after_init [of loaded_kernel "\<lambda>_. 7"] by auto

section \<open>Waiting for the floppy controller\<close>

lemma inb_inp: "inp k = m # ms \<Longrightarrow> inb_port p k = Some (m, k\<lparr>inp := ms\<rparr>)"
  by (simp add: inb_port_def)

text \<open>The count runs out: the loop leaves \<open>timeout\<close> at \<open>2 ^ 32 - 1\<close>.\<close>

lemma poll_never:
  assumes "\<not> ready m" "\<forall>x \<in> set ms. \<not> ready x" "inp k = ms @ rest" "length ms = n"
  shows "poll_msr ready n m k = Some (-1, k\<lparr>inp := rest\<rparr>)"
  using assms
proof (induction n arbitrary: m ms k)
  case 0
  then have "k\<lparr>inp := rest\<rparr> = k" by simp
  then show ?case by simp
next
  case (Suc n)
  then obtain x xs where ms: "ms = x # xs" by (cases ms) auto
  with Suc.prems have "poll_msr ready n x (k\<lparr>inp := xs @ rest\<rparr>) = Some (-1, k\<lparr>inp := xs @ rest, inp := rest\<rparr>)"
    by (intro Suc.IH [of x xs]) auto
  with Suc.prems ms show ?case by (simp add: inb_inp [of k x "xs @ rest"])
qed

text \<open>The controller is ready at the answer after \<open>ms\<close>.\<close>

lemma poll_ready:
  assumes "\<not> ready m" "\<forall>x \<in> set ms. \<not> ready x" "ready y" "inp k = ms @ y # rest" "length ms + 2 \<le> n"
  shows "poll_msr ready n m k = Some (of_nat (n - length ms - 2), k\<lparr>inp := rest\<rparr>)"
  using assms
proof (induction n arbitrary: m ms k)
  case (Suc n)
  obtain n' where n': "n = Suc n'" using Suc.prems(5) by (cases n) auto
  show ?case
  proof (cases ms)
    case Nil
    with Suc.prems n' show ?thesis by (simp add: inb_inp [of k y rest])
  next
    case (Cons x xs)
    with Suc.prems have "poll_msr ready n x (k\<lparr>inp := xs @ y # rest\<rparr>) =
        Some (of_nat (n - length xs - 2), k\<lparr>inp := xs @ y # rest, inp := rest\<rparr>)"
      by (intro Suc.IH [of x xs]) auto
    with Suc.prems Cons show ?thesis by (simp add: inb_inp [of k x "xs @ y # rest"])
  qed
qed simp

text \<open>The timeout of the floppy driver is tested the wrong way round: when the controller is never
  ready, the byte is sent as if it were; the error is reported only when the controller becomes ready
  in the very last poll but one, and before that the byte is sent.\<close>

theorem fdd_timeout_inverted:
  assumes "\<forall>x \<in> set ms. \<not> send_ready x" "send_ready y"
  shows "(length ms = 40000 \<and> inp k = ms @ rest \<longrightarrow> fdd_send_byte b k = Some (0, outb PORT_DATA b (k\<lparr>inp := rest\<rparr>))) \<and>
    (inp k = ms @ y # rest \<and> length ms < 39998 \<longrightarrow> fdd_send_byte b k = Some (0, outb PORT_DATA b (k\<lparr>inp := rest\<rparr>))) \<and>
    (inp k = ms @ y # rest \<and> length ms = 39998 \<longrightarrow> fdd_send_byte b k = Some (FDD_ERROR_TIMEOUT, k\<lparr>inp := rest\<rparr>))"
proof (intro conjI impI; elim conjE)
  have z: "\<not> send_ready 0" by (simp add: send_ready_def)
  { assume "length ms = 40000" "inp k = ms @ rest"
    then show "fdd_send_byte b k = Some (0, outb PORT_DATA b (k\<lparr>inp := rest\<rparr>))"
      using poll_never [OF z assms(1), of k rest 40000] by (simp add: fdd_send_byte_def FDD_DEFAULT_TIMEOUT_def) }
  note R = poll_ready [OF z assms, of k rest 40000]
  { assume l: "inp k = ms @ y # rest" "length ms < 39998"
    then have "unat (of_nat (40000 - length ms - 2) :: u32) = 40000 - length ms - 2" by (simp only: unat_of_nat) simp
    then have "(of_nat (40000 - length ms - 2) :: u32) \<noteq> 0" using l(2) by (intro notI) simp
    with R l show "fdd_send_byte b k = Some (0, outb PORT_DATA b (k\<lparr>inp := rest\<rparr>))"
      by (simp add: fdd_send_byte_def FDD_DEFAULT_TIMEOUT_def) }
  assume "inp k = ms @ y # rest" "length ms = 39998"
  then show "fdd_send_byte b k = Some (FDD_ERROR_TIMEOUT, k\<lparr>inp := rest\<rparr>)"
    using R by (simp add: fdd_send_byte_def FDD_DEFAULT_TIMEOUT_def)
qed

theorem fdd_timeout_inverted_witness:
  "\<exists>ms (k :: fsk). (\<forall>m \<in> set ms. \<not> send_ready m) \<and> inp k = ms \<and> length ms = 40000 \<and>
     fdd_send_byte 8 k = Some (0, outb PORT_DATA 8 (k\<lparr>inp := []\<rparr>))"
proof -
  define n :: nat where "n = 40000"
  have s: "\<forall>x \<in> set (replicate n 0). \<not> send_ready x" "send_ready 0x80" by (auto simp: send_ready_def)
  have "length (replicate n (0 :: u8)) = 40000" by (simp add: n_def)
  with fdd_timeout_inverted [OF s, of "loaded_kernel\<lparr>inp := replicate n 0\<rparr>" "[]" 8] s(1) show ?thesis
    by (intro exI [of _ "replicate n 0"] exI [of _ "loaded_kernel\<lparr>inp := replicate n 0\<rparr>"]) simp
qed

section \<open>The order of the sectors\<close>

text \<open>The number of a block on a disk with two heads, sectors of a track being counted from 1.\<close>

definition lba :: "u32 \<Rightarrow> u32 \<times> u32 \<times> u32 \<Rightarrow> nat" where
  "lba spt = (\<lambda>(c, h, s). unat c * (2 * unat spt) + unat h * unat spt + unat s - 1)"

lemma chs_nat:
  assumes "0 < spt" "spt < 256"
  shows "first_chs spt pos = (c, h, s) \<Longrightarrow> unat c = unat pos div (2 * unat spt) \<and>
    unat h = (unat pos mod (2 * unat spt)) div unat spt \<and> unat s = unat pos mod unat spt + 1 \<and> unat s \<le> unat spt"
proof -
  have S: "0 < unat spt" using unat_mono [OF assms(1)] by simp
  have S2: "unat spt < 256" using unat_mono [OF assms(2)] by simp
  have d: "unat (spt * 2) = 2 * unat spt" using S2 by (simp add: unat_word_ariths)
  have m: "unat pos mod unat spt < unat spt" using S by simp
  have m1: "Suc (unat pos mod unat spt) < 4294967296" using m S2 by linarith
  assume "first_chs spt pos = (c, h, s)"
  then show ?thesis
    using d m m1 by (auto simp: first_chs_def unat_div unat_mod unat_word_ariths)
qed

text \<open>A read of several sectors starts at the block asked for and goes on with the next one, but at the
  end of a track it goes to the next cylinder without changing the head, and so skips a track: the
  bytes delivered from there on are those of another part of the disk.\<close>

theorem fdd_read_skips_track:
  assumes "0 < spt" "spt < 256" "first_chs spt pos = (c, h, s)" "c + 1 \<le> cyls"
  shows "lba spt (c, h, s) = unat pos \<and>
    lba spt (next_chs spt cyls (c, h, s)) = (if unat s < unat spt then unat pos + 1 else unat pos + 1 + unat spt)"
proof -
  note N = chs_nat [OF assms(1-3)]
  let ?S = "unat spt" and ?P = "unat pos"
  have S: "?S < 256" using assms(2) by (simp add: word_less_nat_alt)
  have "?P mod (2 * ?S) = ((?P mod (2 * ?S)) div ?S) * ?S + ?P mod ?S"
    by (metis div_mult_mod_eq dvd_triv_right mod_mod_cancel)
  then have P: "?P = (?P div (2 * ?S)) * (2 * ?S) + (((?P mod (2 * ?S)) div ?S) * ?S + ?P mod ?S)"
    by (metis div_mult_mod_eq)
  have l: "lba spt (c, h, s) = ?P" using N P by (simp add: lba_def)
  have s1: "unat (s + 1) = unat s + 1" using N S by (simp add: unat_word_ariths)
  show ?thesis
  proof (cases "unat s < ?S")
    case True
    then have "next_chs spt cyls (c, h, s) = (c, h, s + 1)"
      using s1 by (simp add: next_chs_def word_less_nat_alt)
    then show ?thesis using True l s1 N by (simp add: lba_def)
  next
    case False
    then have e: "unat s = ?S" using N by simp
    have S0: "0 < ?S" using unat_mono [OF assms(1)] by simp
    have "unat c \<le> ?P div 2" using N S0 by (simp add: div_le_mono2)
    moreover have "?P < 4294967296" using unsigned_less [of pos] by simp
    ultimately have "unat c + 1 < 4294967296" by linarith
    then have "unat (c + 1) = unat c + 1" by (simp add: unat_word_ariths)
    moreover have "next_chs spt cyls (c, h, s) = (c + 1, h, 1)"
      using s1 e assms(4) by (simp add: next_chs_def word_less_nat_alt word_le_nat_alt)
    ultimately show ?thesis using e l N False by (simp add: lba_def algebra_simps)
  qed
qed

text \<open>The last sector of the first track of a 1.44 MB disk is followed by sector 36, not 18.\<close>

theorem fdd_read_skips_track_witness:
  "lba 18 (next_chs 18 80 (0, 0, 18)) = 36"
proof -
  have "first_chs 18 17 = (0, 0, 18)" by (simp add: first_chs_def)
  with fdd_read_skips_track [of 18 17 0 0 18 80] show ?thesis by simp
qed

end
