(* ===== verification/Report.thy ===== *)
theory Report
  imports Files
begin

text \<open>
  Parts of the kernel that only report, or are not written yet: the dumps of the task table
  (kernel/sched.c), of the page tables (kernel/mm.c), of the floppy controller (kernel/fdd.c) and of the
  boot sector and the directory (kernel/fat12.c), the machine status (kernel/klib_machine.c), the
  start of the file system (kernel/fat12.c), and the stubs for FAT16 and the hard disk (kernel/fat16.c,
  kernel/hdd.c). All they do is log; what they log goes through \<open>printf\<close>.
\<close>

section \<open>Tasks and pages\<close>

definition states :: "task_state \<Rightarrow> str" where
  "states s = (case s of STATE_RUNNING \<Rightarrow> cstr ''running'' | STATE_BLOCKED \<Rightarrow> cstr ''blocked''
     | STATE_FINISHED \<Rightarrow> cstr ''finished'')"

definition show_task_structure :: "pid \<Rightarrow> 'a serialk_scheme \<Rightarrow> 'a serialk_scheme option" where
  "show_task_structure pd k = do {
     k \<leftarrow> printf (cstr ''----------'') [] k;
     t \<leftarrow> aget (tasks (sch k)) pd;
     printf (cstr ''mi pid: %d estado: %s next: %d prev: %d '')
       [VInt pd, VStr (states (state t)), VInt (t_next t), VInt (t_prev t)] k }"

definition showTasks :: "'a serialk_scheme \<Rightarrow> 'a serialk_scheme option" where
  "showTasks k = do {
     k \<leftarrow> for_range 0 5 (\<lambda>i. show_task_structure (of_nat i)) k;
     k \<leftarrow> printf (cstr ''current pid: %d'') [VInt (current_pid (sch k))] k;
     printf (cstr ''last: %d'') [VInt (last_pid (sch k))] k }"

text \<open>The page tables of every task. An entry 0 of the directory, the kernel's, is skipped.\<close>

definition dump_table :: "nat \<Rightarrow> u32 \<Rightarrow> 'a serialk_scheme \<Rightarrow> 'a serialk_scheme option" where
  "dump_table j t k =
     for_range 0 1024 (\<lambda>i k.
       let e = rd32 (ram k) (t + 4 * of_nat i) in
       if e AND 1 \<noteq> 0 then
         printf (cstr ''  PAGE %x at virtual %x'') [VInt e, VInt (push_bit 22 (of_nat j) + push_bit 12 (of_nat i))] k
       else Some k) k"

definition dump_dir :: "u32 \<Rightarrow> 'a serialk_scheme \<Rightarrow> 'a serialk_scheme option" where
  "dump_dir r k =
     for_range 1 1024 (\<lambda>j k.
       let e = rd32 (ram k) (r + 4 * of_nat j) in
       if e AND 1 \<noteq> 0 then do {
         k \<leftarrow> printf (cstr '' >> TABLE %x at virtual %x'') [VInt e, VInt (push_bit 22 (of_nat j))] k;
         dump_table j (e AND NOT 0xFFF) k }
       else Some k) k"

definition mm_dump :: "'a serialk_scheme \<Rightarrow> 'a serialk_scheme option" where
  "mm_dump k = do {
     k \<leftarrow> printf (cstr ''---- DUMP MM ----'') [] k;
     for_range 0 MAX_PID (\<lambda>i k. do {
       t \<leftarrow> aget (task_table k) (of_nat i);
       if cr3 t = 0 then printf (cstr ''TASK %d: CR3 NULL'') [VInt (of_nat i)] k
       else do {
         k \<leftarrow> printf (cstr ''TASK %d: CR3 = %x'') [VInt (of_nat i), VInt (cr3 t)] k;
         k \<leftarrow> dump_dir (cr3 t) k;
         printf (cstr '''') [] k } }) k }"

section \<open>The machine\<close>

text \<open>\<open>print_machine_stat\<close> passes the functions that read the registers, not their results: what it logs
  are their addresses, which are arguments here. Only \<open>tr\<close> is read.\<close>

datatype reg_fn = Fn_rcr0 | Fn_rcr2 | Fn_rcr3 | Fn_rcr4 | Fn_rcs | Fn_rds | Fn_res | Fn_rfs | Fn_rgs | Fn_rss

definition line_of :: "string \<Rightarrow> str" where
  "line_of s = map of_char s @ [10, 0]"

definition print_machine_stat :: "(reg_fn \<Rightarrow> u32) \<Rightarrow> 'a serialk_scheme \<Rightarrow> 'a serialk_scheme option" where
  "print_machine_stat fn k = do {
     k \<leftarrow> printf (line_of ''Machine status'') [] k;
     k \<leftarrow> printf (line_of ''    cr0: %x | cr2: %x | cr3: %x | cr4: %x '')
            (map (VInt \<circ> fn) [Fn_rcr0, Fn_rcr2, Fn_rcr3, Fn_rcr4]) k;
     k \<leftarrow> printf (line_of ''    tr: %x'') [VInt (ucast (tr k))] k;
     k \<leftarrow> printf [10, 0] [] k;
     printf (line_of ''    cs: %x | ds: %x | es: %x | fs: %x | gs: %x | ss: %x '')
       (map (VInt \<circ> fn) [Fn_rcs, Fn_rds, Fn_res, Fn_rfs, Fn_rgs, Fn_rss]) k }"

section \<open>The floppy controller\<close>

definition fdd_print_status :: "'a fddk_scheme \<Rightarrow> 'a fddk_scheme option" where
  "fdd_print_status k = do {
     (st, k) \<leftarrow> fdd_update_status k;
     if st < 0 then printf (cstr ''! FDC: Error en fdd_update_status.'') [] k
     else do {
       let f = fdc k;
       let bytes = map (VInt \<circ> (ucast :: u8 \<Rightarrow> u32));
       k \<leftarrow> printf (cstr ''Fdd internal status: '') [] k;
       k \<leftarrow> printf (cstr '' st0 %x | st1 %x | c %x | h %x | r %x | n %x'') (bytes [st0 f, st1 f, fdc_c f, fdc_h f, fdc_r f, fdc_n f]) k;
       k \<leftarrow> printf (cstr '' dor %x | srA %x | srB %x | dsr %x | dir %x | ccr %x | msr %x'')
              (bytes [dor f, srA f, srB f, dsr f, fdc_dir f, ccr f, msr f]) k;
       k \<leftarrow> printf (cstr '' config1 %x | config2 %x'') (bytes [config1 f, config2 f]) k;
       k \<leftarrow> printf (cstr '' pcn0 %x | pcn1 %x | pcn2 %x | pcn3 %x'') (bytes [pcn0 f, pcn1 f, pcn2 f, pcn3 f]) k;
       printf (cstr '' str_hut %x | hlt_nd %x | sc_eot %x | perp %x'') (bytes [srt_hut f, hlt_nd f, sc_eot f, perpendicular f]) k } }"

section \<open>The disk\<close>

text \<open>The packed structure in memory. The name of the system has no NUL of its own: \<open>%s\<close> prints on into the
  fields behind it.\<close>

definition bytes16 :: "u16 \<Rightarrow> str" where "bytes16 x = [ucast x, ucast (drop_bit 8 x)]"
definition bytes32 :: "u32 \<Rightarrow> str" where "bytes32 x = bytes16 (ucast x) @ bytes16 (ucast (drop_bit 16 x))"

definition boot_bytes :: "boot_sector \<Rightarrow> str" where
  "boot_bytes b = jumpBoot b @ SysName b @ bytes16 (bytesPerSector b) @ [SectorsPerCluster b] @ bytes16 (ReservedSectors b) @
     [FATcount b] @ bytes16 (MaxRootEntries b) @ bytes16 (TotalSectors1 b) @ [MediaDescriptor b] @ bytes16 (SectorsPerFAT b) @
     bytes16 (SectorsPerTrack b) @ bytes16 (HeadCount b) @ bytes32 (HiddenSectors b) @ bytes32 (TotalSectors2 b) @
     [DriveNumber b, Reserved1 b, ExtBootSignature b] @ bytes32 (VolumeSerial b) @ VolumeLabel b @ Reserved2 b"

definition fat12_print_boot_sect :: "boot_sector \<Rightarrow> 'a serialk_scheme \<Rightarrow> 'a serialk_scheme option" where
  "fat12_print_boot_sect b k = do {
     k \<leftarrow> printf (cstr ''Sysname %s'') [VStr (drop 3 (boot_bytes b))] k;
     k \<leftarrow> printf (cstr ''Bytes per sector %d, Sectors per cluster %d, Reserved Sectors %d'')
            [VInt (ucast (bytesPerSector b)), VInt (ucast (SectorsPerCluster b)), VInt (ucast (ReservedSectors b))] k;
     k \<leftarrow> printf (cstr ''FAT Count %d, Max Root Entries %d, Total Sectors %d'')
            [VInt (ucast (FATcount b)), VInt (ucast (MaxRootEntries b)), VInt (ucast (TotalSectors1 b))] k;
     k \<leftarrow> printf (cstr ''Media Descriptor %x, Sectors per FAT %d, Sectors per Track %d'')
            [VInt (ucast (MediaDescriptor b)), VInt (ucast (SectorsPerFAT b)), VInt (ucast (SectorsPerTrack b))] k;
     printf (cstr ''Head Count %d, Hidden Sectors %d, Drive Number %d'')
       [VInt (ucast (HeadCount b)), VInt (HiddenSectors b), VInt (ucast (DriveNumber b))] k }"

text \<open>One entry of the sixteen: what is printed of it, if anything.\<close>

definition dir_line :: "dir_entry \<Rightarrow> arg list option" where
  "dir_line e =
     (if hd (Filename e) \<in> {0, 0x05, 0x2E} \<or> Attributes e = 0x80 then None
      else Some [VStr (Filename e @ 46 # Extension e @ [0]), VInt (ucast (Attributes e))])"

definition fat12_print_directory :: "u32 \<Rightarrow> 'a serialk_scheme \<Rightarrow> 'a serialk_scheme option" where
  "fat12_print_directory dir k = do {
     k \<leftarrow> printf (cstr ''Imprimiendo directorio.'') [] k;
     for_range 0 16 (\<lambda>i k.
       case dir_line (read_dir_entry (ram k) (dir + dir_entry_size * of_nat i)) of
         None \<Rightarrow> Some k
       | Some args \<Rightarrow> printf (cstr ''%s %x'') args k) k }"

lemma bytes_of_at:
  "bytes16 (at16 b i) = [b ! i, b ! (i + 1)]"
  "bytes32 (at32 b i) = [b ! i, b ! (i + 1), b ! (i + 2), b ! (i + 3)]"
proof -
  have w: "ucast (ucast x OR push_bit 8 (ucast y) :: u16) = x" for x y :: u8
    by (rule bit_word_eqI) (auto simp: bit_simps)
  have w': "ucast (drop_bit 8 (ucast x OR push_bit 8 (ucast y) :: u16)) = y" for x y :: u8
    by (rule bit_word_eqI) (use bit_imp_le_length [of x] in \<open>fastforce simp: bit_simps\<close>)
  have v: "ucast (ucast x OR push_bit 16 (ucast y) :: u32) = x" for x y :: u16
    by (rule bit_word_eqI) (auto simp: bit_simps)
  have v': "ucast (drop_bit 16 (ucast x OR push_bit 16 (ucast y) :: u32)) = y" for x y :: u16
    by (rule bit_word_eqI) (use bit_imp_le_length [of x] in \<open>fastforce simp: bit_simps\<close>)
  show 1: "bytes16 (at16 b i) = [b ! i, b ! (i + 1)]" for i unfolding bytes16_def at16_def w w' ..
  show "bytes32 (at32 b i) = [b ! i, b ! (i + 1), b ! (i + 2), b ! (i + 3)]"
    unfolding bytes32_def at32_def v v' 1 by (simp add: numeral_eq_Suc)
qed

lemma nth_drop_join: "i < length b \<Longrightarrow> j = Suc i \<Longrightarrow> b ! i # drop j b = drop i b"
  by (simp add: Cons_nth_drop_Suc)

lemma take_drop_join: "j = i + n \<Longrightarrow> take n (drop i b) @ drop j b = drop i b"
  by (metis append_take_drop_id drop_drop add.commute)

text \<open>The decoding of the boot sector loses nothing.\<close>

lemma boot_sector_roundtrip:
  assumes "length b = 62" shows "boot_bytes (boot_of_bytes b) = b"
proof -
  have t: "take 8 (drop 54 b) = drop 54 b" using assms by simp
  show ?thesis
    by (simp add: boot_bytes_def boot_of_bytes_def bytes_of_at t take_drop_join nth_drop_join assms del: take_drop drop_drop)
qed
section \<open>Stubs\<close>

definition fat12_init :: "u32 \<Rightarrow> 'a serialk_scheme \<Rightarrow> 'a serialk_scheme option" where
  "fat12_init fat12_node k = printf (cstr ''FAT12: Creating fat12 node for drive 0 @ %x'') [VInt fat12_node] k"

definition fat16_open :: "u32 \<Rightarrow> str \<Rightarrow> u32 \<Rightarrow> u32" where "fat16_open this filename flags = 0"
definition fat16_create :: "u32 \<Rightarrow> u32 \<Rightarrow> 'k \<Rightarrow> 'k" where "fat16_create this dev k = k"
definition fat16_init :: "'k \<Rightarrow> 'k" where "fat16_init k = k"
definition hdd_block_write :: "u32 \<Rightarrow> u32 \<Rightarrow> str \<Rightarrow> int" where "hdd_block_write this pos bs = -1"
definition hdd_block_read :: "u32 \<Rightarrow> u32 \<Rightarrow> u32 \<Rightarrow> int" where "hdd_block_read this pos sz = 0"
definition hdd_open :: "u32 \<Rightarrow> u32" where "hdd_open nro = 0"
definition hdd_init :: "'k \<Rightarrow> 'k" where "hdd_init k = k"

end
