(* ===== verification/Panic.thy ===== *)
theory Panic
  imports Report
begin

text \<open>
  The panic screen, kernel/debug.c: the names of functions looked up in the symbol file that
  kernel_sym.asm links into the kernel, the stack, the backtrace and \<open>debug_kernelpanic\<close>, which shows
  them with the registers.

  The symbol file is the list of bytes from \<open>kernel_syme\<close> on, and goes on after \<open>kernel_sym_ende\<close> with
  whatever the linker puts there; a pointer into it is an index, and reading past the list is None.
\<close>

section \<open>Classes of characters\<close>

text \<open>The macros of include/lib_str.h, on signed characters. \<open>isDigit\<close> also takes the letter g.\<close>

definition isDigit :: "u8 \<Rightarrow> bool" where
  "isDigit x \<longleftrightarrow> (0x30 \<le> sint x \<and> sint x \<le> 0x39) \<or> (0x41 \<le> sint x \<and> sint x \<le> 0x46) \<or> (0x61 \<le> sint x \<and> sint x \<le> 0x67)"

definition isCharacter :: "u8 \<Rightarrow> bool" where
  "isCharacter x \<longleftrightarrow> (0x41 \<le> sint x \<and> sint x \<le> 0x5A) \<or> (0x61 \<le> sint x \<and> sint x \<le> 0x7A)"

definition isSymbol :: "u8 \<Rightarrow> bool" where
  "isSymbol x \<longleftrightarrow> (0x21 \<le> sint x \<and> sint x \<le> 0x2F) \<or> (0x3A \<le> sint x \<and> sint x \<le> 0x40) \<or>
     (0x5B \<le> sint x \<and> sint x \<le> 0x60) \<or> (0x7B \<le> sint x \<and> sint x \<le> 0x7E)"

definition isSpace :: "u8 \<Rightarrow> bool" where
  "isSpace x \<longleftrightarrow> x = 0x20 \<or> x = 10"

section \<open>Names of functions\<close>

text \<open>\<open>while (P(*kernel_sym)) kernel_sym++;\<close>\<close>

function skip_while :: "(u8 \<Rightarrow> bool) \<Rightarrow> str \<Rightarrow> nat \<Rightarrow> nat option" where
  "skip_while P m p =
     (if p < length m then (if P (m ! p) then skip_while P m (p + 1) else Some p) else None)"
  by pat_completeness auto
termination
  by (relation "measure (\<lambda>(P, m, p). length m - p)") auto

declare skip_while.simps [simp del]

text \<open>The pointer after \<open>kernel_sym += ret\<close>; \<open>str_into_hex\<close> returns -1 when there is no digit.\<close>

definition advance :: "nat \<Rightarrow> int \<Rightarrow> nat option" where
  "advance p ret = (if 0 \<le> int p + ret then Some (nat (int p + ret)) else None)"

text \<open>The loop over the lines. The tests \<open>eip - dir < 0\<close> and \<open>ret < 0\<close> of the code compare unsigned values
  with zero, and never hold.\<close>

partial_function (option) find_loop :: "str \<Rightarrow> nat \<Rightarrow> u32 \<Rightarrow> nat \<Rightarrow> nat \<Rightarrow> u32 \<Rightarrow> nat option" where
  "find_loop m sym_end eip p closest_name closest_dir =
     (if p < sym_end then do {
        (ret, dir) \<leftarrow> str_into_hex (drop p m) 0;
        p \<leftarrow> advance p ret;
        p \<leftarrow> skip_while isDigit m p;
        p \<leftarrow> skip_while isSpace m (p + 1);
        let closer = eip - dir < eip - closest_dir;
        let closest_dir = (if closer then dir else closest_dir);
        let closest_name = (if closer then p else closest_name);
        p \<leftarrow> skip_while (\<lambda>c. \<not> isSpace c) m p;
        p \<leftarrow> skip_while (\<lambda>c. \<not> isDigit c) m p;
        find_loop m sym_end eip p closest_name closest_dir }
      else Some closest_name)"

declare find_loop.simps [code]

text \<open>The name found is ended with a NUL, in the symbol file itself.\<close>

definition find_function_name :: "nat \<Rightarrow> u32 \<Rightarrow> str \<Rightarrow> (nat \<times> str) option" where
  "find_function_name sym_end eip m = do {
     name \<leftarrow> find_loop m sym_end eip 0 0 0x7FFFFFFF;
     p \<leftarrow> skip_while (\<lambda>c. isCharacter c \<or> c = 95) m name;
     m \<leftarrow> nput m p 0;
     Some (name, m) }"

section \<open>State\<close>

text \<open>The structure that the interrupt routines push, and the globals of the panic screen.\<close>

record exp_state =
  es_gs :: u32
  es_fs :: u32
  es_es :: u32
  es_ds :: u32
  es_ss :: u32
  es_edi :: u32
  es_esi :: u32
  es_ebp :: u32
  es_esp :: u32
  es_ebx :: u32
  es_edx :: u32
  es_ecx :: u32
  es_eax :: u32
  errcode :: u32
  org_eip :: u32
  org_cs :: u32
  es_eflags :: u32
  org_esp :: u32
  org_ss :: u32

record panick = fsk +
  error_num :: u32
  kernel_sym :: str
  kernel_sym_end :: nat
  cr2 :: u32

definition exp_name :: "str list" where
  "exp_name = map cstr
     [''Divide Error'', ''Debug Interrupt'', ''NMI Interrupt'', ''Breakpoint'', ''Interrupt on overflow'',
      ''BOUND range exceeded'', ''Invalid Opcode'', ''Device not available'', ''Double fault'',
      ''Coprocessor Segment Overrun'', ''Invalid TSS'', ''Segment not present'', ''Stack exception'',
      ''General protection fault'', ''Page fault'', ''Reserved'', ''Floating point exception'',
      ''Alignment check'', ''Undefined 18'', ''Undefined 19'', ''Undefined 20'', ''Undefined 21'',
      ''Undefined 22'', ''Undefined 23'', ''Undefined 24'', ''Undefined 25'', ''Undefined 26'',
      ''Undefined 27'', ''Undefined 28'', ''Undefined 29'', ''Undefined 30'', ''Undefined 31'',
      ''Timer Tick'', ''Keyboard'']"

text \<open>\<open>sizeof(exp_name)\<close>: 34 pointers of four bytes.\<close>

definition sizeof_exp_name :: u32 where "sizeof_exp_name = 136"

definition PANIC_GEN_COL :: u32 where "PANIC_GEN_COL = 0"
definition PANIC_GEN_ROW :: u32 where "PANIC_GEN_ROW = 2"
definition PANIC_STACK_COL :: u32 where "PANIC_STACK_COL = 0"
definition PANIC_STACK_ROW :: u32 where "PANIC_STACK_ROW = 7"
definition PANIC_BT_ROW :: u32 where "PANIC_BT_ROW = 20"
definition PANIC_BT_COL :: u32 where "PANIC_BT_COL = 0"
definition VGA_HEX_MAX_WIDTH :: u32 where "VGA_HEX_MAX_WIDTH = 10"

text \<open>The colours: white on black, red, green, magenta and cyan, bright; blue on black; and
  \<open>VGA_FC_BLACK | VGA_FC_WHITE | VGA_FC_LIGHT\<close>, which is the first.\<close>

definition on_black :: u8 where "on_black = 0x00 OR 0x07 OR 0x08"
definition on_red :: u8 where "on_red = 0x07 OR 0x40 OR 0x08"
definition on_green :: u8 where "on_green = 0x20 OR 0x07 OR 0x08"
definition on_magenta :: u8 where "on_magenta = 0x50 OR 0x07 OR 0x08"
definition on_cyan :: u8 where "on_cyan = 0x30 OR 0x07 OR 0x08"
definition blue_on_black :: u8 where "blue_on_black = 0x00 OR 0x01 OR 0x08"

text \<open>\<open>vga_write\<close> and \<open>vga_printf\<close> on the state; the row and the column are cut to 16 bits.\<close>

definition put_text :: "u32 \<Rightarrow> u32 \<Rightarrow> string \<Rightarrow> u8 \<Rightarrow> 'a mmk_scheme \<Rightarrow> 'a mmk_scheme option" where
  "put_text f c msg attr k = do {
     r \<leftarrow> vga_write (ucast f) (ucast c) (cstr msg) attr (ram k);
     Some (k\<lparr>ram := r\<rparr>) }"

definition put_format :: "u32 \<Rightarrow> u32 \<Rightarrow> string \<Rightarrow> u8 \<Rightarrow> arg list \<Rightarrow> 'a mmk_scheme \<Rightarrow> 'a mmk_scheme option" where
  "put_format f c fmt attr args k = do {
     r \<leftarrow> vga_printf (ucast f) (ucast c) (cstr fmt) attr args (ram k);
     Some (k\<lparr>ram := r\<rparr>) }"

section \<open>The stack\<close>

text \<open>\<open>i * 8 + j\<close> is an index of bytes, \<open>i\<close> one of words.\<close>

definition print_stack :: "u32 \<Rightarrow> u32 \<Rightarrow> u32 \<Rightarrow> u32 \<Rightarrow> u32 \<Rightarrow> 'a mmk_scheme \<Rightarrow> 'a mmk_scheme option" where
  "print_stack f c dwords cols stack k = do {
     k \<leftarrow> put_text f c ''Stack:'' on_green k;
     k \<leftarrow> put_format f (c + 6) '' %x'' on_black [VInt stack] k;
     (_, _, k) \<leftarrow> for_range 0 (unat dwords) (\<lambda>i (f, col_count, k).
       if cols = 0 then None
       else do {
         (f, col_count, k) \<leftarrow> (if (of_nat i :: u32) mod cols = 0 then do {
             (_, k) \<leftarrow> for_range i (unat (of_nat i + cols * 8)) (\<lambda>j (col_count, k). do {
               k \<leftarrow> put_format (f + 1) col_count ''%c'' blue_on_black
                      [VInt (scast (ram k (stack + of_nat (i * 8 + j))))] k;
               Some (col_count + 1, k) }) (1 + c + (VGA_HEX_MAX_WIDTH + 1) * cols, k);
             Some (f + 1, c, k) }
           else Some (f, col_count, k));
         k \<leftarrow> put_format f col_count ''%x'' on_black [VInt (rd32 (ram k) (stack + 4 * of_nat i))] k;
         Some (f, col_count + (VGA_HEX_MAX_WIDTH + 1), k) }) (f, c, k);
     Some k }"

section \<open>The backtrace\<close>

text \<open>The frame of the caller and the address it goes on at.\<close>

definition obtain_prev_func :: "u32 \<Rightarrow> ram \<Rightarrow> u32 \<times> u32" where
  "obtain_prev_func ebp r = (rd32 r ebp, rd32 r (ebp + 4))"

text \<open>One line: the name, then for each parameter its address; \<open>%s\<close> prints up to the NUL just written.\<close>

definition print_frame :: "u32 \<Rightarrow> u32 \<Rightarrow> u32 \<Rightarrow> u32 \<Rightarrow> u32 \<Rightarrow> 'a panick_scheme \<Rightarrow> 'a panick_scheme option" where
  "print_frame f c params ebp eip k = do {
     (name, m) \<leftarrow> find_function_name (kernel_sym_end k) eip (kernel_sym k);
     let k = k\<lparr>kernel_sym := m\<rparr>;
     let func_name = drop name m;
     k \<leftarrow> put_format f c '' (%x) %s( '' on_black [VInt eip, VStr func_name] k;
     len \<leftarrow> strlen func_name;
     k \<leftarrow> for_range 0 (unat params) (\<lambda>j k.
       put_format f (c + of_nat len + 10 + 10 * of_nat j) ''%x'' on_black [VInt (ebp + 8 + of_nat j * 4)] k) k;
     put_text f (c + of_nat len + 10 + 10 * params) '')'' on_black k }"

definition print_backtrace ::
    "u32 \<Rightarrow> u32 \<Rightarrow> u32 \<Rightarrow> u32 \<Rightarrow> u32 \<Rightarrow> u32 \<Rightarrow> 'a panick_scheme \<Rightarrow> 'a panick_scheme option" where
  "print_backtrace f c level params ebp last_eip k = do {
     k \<leftarrow> put_text f c ''Backtrace:'' on_cyan k;
     k \<leftarrow> print_frame (f + 1) c params ebp last_eip k;
     (_, k) \<leftarrow> for_range 0 (unat level) (\<lambda>i (ebp_hold, k).
       (case obtain_prev_func ebp_hold (ram k) of (ebp_hold, eip) \<Rightarrow> do {
          k \<leftarrow> print_frame (f + 2 + of_nat i) c params ebp_hold eip k;
          Some (ebp_hold, k) })) (ebp, k);
     Some k }"

section \<open>The panic\<close>

text \<open>The registers, on rows 2 to 5.\<close>

definition print_registers :: "exp_state \<Rightarrow> 'a panick_scheme \<Rightarrow> 'a panick_scheme option" where
  "print_registers expst k = do {
     k \<leftarrow> put_format PANIC_GEN_ROW PANIC_GEN_COL ''EAX %x, EBX %x, ECX %x, EDX %x, CS %x, DS %x, SS %x'' on_black
            [VInt (es_eax expst), VInt (es_ebx expst), VInt (es_ecx expst), VInt (es_edx expst),
             VInt (org_cs expst), VInt (es_ds expst), VInt (es_ss expst)] k;
     k \<leftarrow> put_format (PANIC_GEN_ROW + 1) PANIC_GEN_COL ''ESI %x, EDI %x, ESP %x, EIP %x, FLAGS %x'' on_black
            [VInt (es_esi expst), VInt (es_edi expst), VInt (es_esp expst), VInt (org_eip expst),
             VInt (es_eflags expst)] k;
     k \<leftarrow> put_format (PANIC_GEN_ROW + 2) PANIC_GEN_COL ''ERRCODE %x, ORG_CS %x, ORG_SS %x, ORG_ESP %x'' on_black
            [VInt (errcode expst), VInt (org_cs expst), VInt (org_ss expst), VInt (org_esp expst)] k;
     put_format (PANIC_GEN_ROW + 3) PANIC_GEN_COL ''TR %x, CR2 %x, CR3 %x, PID %x'' on_black
       [VInt (ucast (tr k)), VInt (cr2 k), VInt (reg_cr3 k), VInt (cur_pid k)] k }"

text \<open>The name of the exception, at the right of the first row. The widths are subtracted from
  \<open>vga_cols\<close>.\<close>

definition print_exception :: "'a panick_scheme \<Rightarrow> 'a panick_scheme option" where
  "print_exception k =
     (if error_num k > 0 \<and> error_num k < sizeof_exp_name then do {
        name \<leftarrow> aget exp_name (error_num k);
        len \<leftarrow> strlen name;
        put_format 0 (vga_cols - of_nat len - 13) '' Exception: %s '' on_magenta [VStr name] k }
      else do {
        len \<leftarrow> dec_into_string_len (error_num k);
        put_format 0 (vga_cols - 22 - of_nat len) '' Undefined Exception %d'' on_magenta [VInt (error_num k)] k })"

definition kernelpanic :: "u32 \<Rightarrow> exp_state \<Rightarrow> 'a panick_scheme \<Rightarrow> 'a panick_scheme fault_outcome option" where
  "kernelpanic stack expst k =
     (case debug_kernelpanic k of
        Resume k \<Rightarrow> do {
          let k = mod_ram clear_screen k;
          k \<leftarrow> put_text 0 0 ''Kernel Panic!'' on_red k;
          k \<leftarrow> print_registers expst k;
          k \<leftarrow> print_stack PANIC_STACK_ROW PANIC_STACK_COL (12 * 4) 4 stack k;
          k \<leftarrow> print_exception k;
          let k = k\<lparr>error_num := -1\<rparr>;
          k \<leftarrow> print_backtrace PANIC_BT_ROW PANIC_BT_COL 4 5 (es_ebp expst) (org_eip expst) k;
          Some (Resume k) }
      | r \<Rightarrow> Some r)"

text \<open>\<open>print_expst\<close> logs the structure, whose address is an argument.\<close>

definition print_expst :: "u32 \<Rightarrow> exp_state \<Rightarrow> 'a serialk_scheme \<Rightarrow> 'a serialk_scheme option" where
  "print_expst expst_addr e k = do {
     k \<leftarrow> printf (line_of ''exp_state @ %x'') [VInt expst_addr] k;
     k \<leftarrow> printf (line_of ''>gs: %x, fs: %x, es: %x, ds: %x, ss: %x'')
            [VInt (es_gs e), VInt (es_fs e), VInt (es_es e), VInt (es_ds e), VInt (es_ss e)] k;
     k \<leftarrow> printf (line_of ''>edi: %x, esi: %x, ebp: %x, esp: %x'')
            [VInt (es_edi e), VInt (es_esi e), VInt (es_ebp e), VInt (es_esp e)] k;
     k \<leftarrow> printf (line_of ''>ebx: %x, edx: %x, ecx: %x, eax: %x'')
            [VInt (es_ebx e), VInt (es_edx e), VInt (es_ecx e), VInt (es_eax e)] k;
     printf (line_of ''>errorcode: %x, org_eip: %x, org_cs: %x, eflags: %x, org_esp: %x, org_ss: %x'')
       [VInt (errcode e), VInt (org_eip e), VInt (org_cs e), VInt (es_eflags e), VInt (org_esp e), VInt (org_ss e)] k }"

end
