(* ===== verification/Panic_Spec.thy ===== *)
theory Panic_Spec
  imports Panic Tables_Spec
begin

text \<open>
  Properties of the panic screen: the lookup of a function in the symbol file returns the closest
  symbol below the address, but damages the file for the next lookup; and the registers are printed
  through a buffer that is too small for them.
\<close>

section \<open>The symbol file\<close>

text \<open>What \<open>nm | cut -d ' ' -f 1,3\<close> prints for a symbol: the address in eight digits, a space, the name.\<close>

definition hex_char :: "nat \<Rightarrow> u8" where
  "hex_char d = (if d < 10 then 48 + of_nat d else 87 + of_nat d)"

definition hex8 :: "u32 \<Rightarrow> str" where
  "hex8 a = map hex_char (places 16 7 (unat a))"

definition sym_line :: "u32 \<times> str \<Rightarrow> str" where
  "sym_line e = hex8 (fst e) @ 32 # snd e @ [10]"

definition sym_file :: "(u32 \<times> str) list \<Rightarrow> str" where
  "sym_file es = concat (map sym_line es)"

definition sym_name :: "str \<Rightarrow> bool" where
  "sym_name nm \<longleftrightarrow> nm \<noteq> [] \<and> (\<forall>c \<in> set nm. \<not> isSpace c)"

lemma hex_char_tests:
  "list_all (\<lambda>d. is_digit_of (hex_char d) 16 \<and> isDigit (hex_char d) \<and> hex_char d \<noteq> 120 \<and>
     digit_value (hex_char d) = of_nat d) [0..<16]"
  by code_simp

lemma hex_char_ok:
  "d < 16 \<Longrightarrow> is_digit_of (hex_char d) 16 \<and> isDigit (hex_char d) \<and> hex_char d \<noteq> 120 \<and> digit_value (hex_char d) = of_nat d"
  using hex_char_tests by (simp add: list_all_iff)

lemma places_less: "2 \<le> b \<Longrightarrow> n < b ^ Suc k \<Longrightarrow> \<forall>d \<in> set (places b k n). d < b"
proof (induction k arbitrary: n)
  case (Suc k)
  then have "n div b ^ Suc k < b" by (simp add: less_mult_imp_div_less)
  moreover have "0 < b ^ Suc k" using Suc.prems(1) by simp
  then have "n mod b ^ Suc k < b ^ Suc k" by (rule mod_less_divisor)
  with Suc have "\<forall>d \<in> set (places b k (n mod b ^ Suc k)). d < b" by blast
  ultimately show ?case by simp
qed simp

lemma value_places: "value_of b (places b k n) = n"
proof (induction k arbitrary: n)
  case (Suc k)
  then show ?case using div_mult_mod_eq [of n "b ^ Suc k"] by (simp only: places.simps value_Cons length_places)
qed (simp add: value_Cons)

lemma sum_digits_value: "map digit_value cs = map digit_value ds \<Longrightarrow> sum_digits cs b acum num = sum_digits ds b acum num"
proof (induction cs arbitrary: ds acum num)
  case (Cons c cs)
  then obtain d ds' where "ds = d # ds'" "digit_value c = digit_value d" "map digit_value cs = map digit_value ds'"
    by (cases ds) auto
  with Cons.IH show ?case by simp
qed simp

lemma scan_all_digits:
  assumes "\<forall>d \<in> set ds. is_digit_of d bs" "\<not> is_digit_of c bs" "i \<le> length ds"
  shows "scan_digits (ds @ c # rest) 0 bs i = Some (length ds)"
  using assms
proof (induction "length ds - i" arbitrary: i)
  case 0
  then show ?case by (simp add: scan_digits.simps [of _ 0 bs i] nth_append)
next
  case (Suc n)
  then have i: "i < length ds" by simp
  have "scan_digits (ds @ c # rest) 0 bs (Suc i) = Some (length ds)"
    by (rule Suc.hyps(1)) (use Suc i in simp_all)
  with i Suc.prems show ?case by (simp add: scan_digits.simps [of _ 0 bs i] nth_append)
qed

lemma hex8_digits: "\<forall>d \<in> set (places 16 7 (unat (a :: u32))). d < 16"
  using unat_u32 [of a] by (intro places_less) simp_all

lemma length_hex8 [simp]: "length (hex8 a) = 8"
  by (simp add: hex8_def)

lemma hex8_chars: "c \<in> set (hex8 a) \<Longrightarrow> isDigit c \<and> is_digit_of c 16 \<and> c \<noteq> 120"
  using hex8_digits [of a] hex_char_ok by (auto simp: hex8_def)

lemma hex8_read: "str_into_hex (hex8 a @ 32 # rest) 0 = Some (8, a)"
proof -
  let ?ds = "places 16 7 (unat a)"
  have 0: "nget (hex8 a @ 32 # rest) 0 = Some (hex8 a ! 0)" "nget (hex8 a @ 32 # rest) 1 = Some (hex8 a ! 1)"
    by (simp_all add: nget_def nth_append)
  have x: "hex8 a ! 1 \<noteq> 120" using hex8_chars [of "hex8 a ! 1" a] by (simp add: nth_mem)
  have scan: "scan_digits (hex8 a @ 32 # rest) 0 16 0 = Some 8"
    using scan_all_digits [of "hex8 a" 16 32 0 rest] hex8_chars [of _ a] by (simp add: is_digit_of_def)
  have v: "map digit_value (hex8 a) = map digit_value (map digit_char ?ds)"
    using hex8_digits [of a] hex_char_ok digit_char_ok(2) [of _ 16] by (simp add: hex8_def)
  have "sum_digits (map digit_char ?ds) 16 (16 ^ (length ?ds - 1)) 0 = a"
    using hex8_digits [of a] by (subst sum_numeral) (simp_all add: value_places)
  then have "sum_digits (hex8 a) 16 (16 ^ (8 - 1)) 0 = a"
    unfolding sum_digits_value [OF v] by simp
  then have "str_into_num (hex8 a @ 32 # rest) 0 16 = Some (8, a)"
    using scan by (simp add: str_into_num_def)
  with 0 x show ?thesis by (simp add: str_into_hex_def)
qed

section \<open>One line\<close>

lemma skip_while_run:
  assumes "\<forall>c \<in> set xs. P c" "\<not> P c"
  shows "skip_while P (pre @ xs @ c # rest) (length pre) = Some (length pre + length xs)"
  using assms
proof (induction xs arbitrary: pre)
  case Nil
  then show ?case by (simp add: skip_while.simps [of P _ "length pre"])
next
  case (Cons x xs)
  from Cons.IH [of "pre @ [x]"] Cons.prems show ?case
    by (simp add: skip_while.simps [of P _ "length pre"])
qed

lemma skip_while_stop: "p < length m \<Longrightarrow> \<not> P (m ! p) \<Longrightarrow> skip_while P m p = Some p"
  by (simp add: skip_while.simps [of P m p])

lemma skip_while_total: "p \<le> i \<Longrightarrow> i < length m \<Longrightarrow> \<not> P (m ! i) \<Longrightarrow> \<exists>q \<ge> p. skip_while P m p = Some q"
proof (induction P m p rule: skip_while.induct)
  case (1 P m p)
  show ?case
  proof (cases "P (m ! p)")
    case True
    with "1.prems" have "p < length m" "p + 1 \<le> i" by (auto simp: le_less)
    with "1.IH" [OF _ True] "1.prems" obtain q where "q \<ge> p + 1" "skip_while P m (p + 1) = Some q" by auto
    with True \<open>p < length m\<close> show ?thesis by (auto simp: skip_while.simps [of P m p])
  next
    case False
    with "1.prems" show ?thesis by (auto simp: skip_while_stop)
  qed
qed

text \<open>What the loop has found after the lines \<open>es\<close>, the first of which is at \<open>p\<close>.\<close>

fun best :: "u32 \<Rightarrow> nat \<Rightarrow> nat \<times> u32 \<Rightarrow> (u32 \<times> str) list \<Rightarrow> nat \<times> u32" where
  "best eip p b [] = b"
| "best eip p b ((a, nm) # es) =
     best eip (p + 10 + length nm) (if eip - a < eip - snd b then (p + 9, a) else b) es"

lemma digit_not_space: "isDigit c \<Longrightarrow> \<not> isSpace c"
  by (auto simp: isDigit_def isSpace_def)

lemma hex8_Cons: "\<exists>c cs. hex8 a = c # cs \<and> isDigit c"
  using hex8_chars [of "hex8 a ! 0" a] by (cases "hex8 a") (use length_hex8 [of a] in auto)

text \<open>One pass of the loop over a line that is followed by a digit.\<close>

lemma find_line:
  assumes m: "m = pre @ sym_line (a, nm) @ rest" and nm: "sym_name nm"
    and nx: "\<exists>q \<ge> length pre + 10 + length nm. skip_while (\<lambda>c. \<not> isDigit c) m (length pre + 10 + length nm) = Some q"
    and e: "length pre < sym_end"
  shows "\<exists>q. skip_while (\<lambda>c. \<not> isDigit c) m (length pre + 10 + length nm) = Some q \<and>
    find_loop m sym_end eip (length pre) (fst b) (snd b) =
    (let b = (if eip - a < eip - snd b then (length pre + 9, a) else b) in find_loop m sym_end eip q (fst b) (snd b))"
proof -
  let ?p = "length pre" and ?nd = "\<lambda>c. \<not> isDigit c"
  obtain c cs where c: "nm = c # cs" "\<not> isSpace c" using nm by (cases nm) (auto simp: sym_name_def)
  have l: "m = pre @ hex8 a @ 32 # nm @ 10 # rest" by (simp add: m sym_line_def)
  have 1: "str_into_hex (drop ?p m) 0 = Some (8, a)" unfolding l using hex8_read by simp
  have "\<not> isDigit 32" by (simp add: isDigit_def)
  then have 2: "skip_while isDigit m (?p + 8) = Some (?p + 8)"
    by (intro skip_while_stop) (simp_all add: l nth_append)
  have p: "?p + 8 + 1 = ?p + 9" by simp
  have "skip_while isSpace m (?p + 9) = Some (?p + 9)"
    by (intro skip_while_stop) (simp_all add: l c nth_append)
  then have 3: "skip_while isSpace m (?p + 8 + 1) = Some (?p + 9)" unfolding p .
  have 4: "skip_while (\<lambda>c. \<not> isSpace c) m (?p + 9) = Some (?p + 9 + length nm)"
    using skip_while_run [of nm "\<lambda>c. \<not> isSpace c" 10 "pre @ hex8 a @ [32]" rest] nm
    by (simp add: l sym_name_def isSpace_def)
  obtain q where q: "skip_while ?nd m (?p + 10 + length nm) = Some q" using nx by blast
  have "m ! (?p + 9 + length nm) = 10" by (simp add: l nth_append)
  moreover have lt: "?p + 9 + length nm < length m" by (simp add: l)
  moreover have suc: "?p + 9 + length nm + 1 = ?p + 10 + length nm" by simp
  moreover have "\<not> isDigit 10" by (simp add: isDigit_def)
  ultimately have 5: "skip_while ?nd m (?p + 9 + length nm) = Some q"
    using q lt suc by (subst skip_while.simps) (simp only: if_True simp_thms)
  have "nat (int ?p + 8) = ?p + 8" by simp
  then show ?thesis using 1 2 3 4 5 q e
    by (subst find_loop.simps) (simp add: advance_def Let_def)
qed

lemma find_lines:
  assumes m: "m = pre @ sym_file es @ tail" and names: "\<forall>e \<in> set es. sym_name (snd e)"
    and tail: "\<exists>c \<in> set tail. isDigit c" and e: "sym_end = length pre + length (sym_file es)"
  shows "find_loop m sym_end eip (length pre) (fst b) (snd b) = Some (fst (best eip (length pre) b es))"
  using assms
proof (induction es arbitrary: pre b)
  case Nil
  then show ?case by (simp add: sym_file_def find_loop.simps [of _ "length pre"])
next
  case (Cons x es)
  obtain a nm where x: "x = (a, nm)" by (cases x)
  let ?n = "length pre + 10 + length nm" and ?nd = "\<lambda>c. \<not> isDigit c"
  let ?b = "if eip - a < eip - snd b then (length pre + 9, a) else b"
  have m: "m = pre @ sym_line (a, nm) @ sym_file es @ tail" using Cons.prems(1) by (simp add: x sym_file_def)
  have n: "length (pre @ sym_line (a, nm)) = ?n" by (simp add: sym_line_def)
  obtain i where i: "i < length tail" "isDigit (tail ! i)" using tail by (auto simp: in_set_conv_nth)
  have "m ! (?n + length (sym_file es) + i) = tail ! i"
    using n by (simp add: m nth_append sym_line_def)
  then have nx: "\<exists>q \<ge> ?n. skip_while ?nd m ?n = Some q"
    by (intro skip_while_total [of _ "?n + length (sym_file es) + i"]) (use i n in \<open>simp_all add: m sym_line_def\<close>)
  moreover have "length pre < sym_end" "sym_name nm" using Cons.prems(2,4) by (auto simp: x sym_file_def sym_line_def)
  ultimately obtain q where q: "skip_while ?nd m ?n = Some q"
      "find_loop m sym_end eip (length pre) (fst b) (snd b) = find_loop m sym_end eip q (fst ?b) (snd ?b)"
    using find_line [OF m, of sym_end eip b] unfolding Let_def by blast
  have "find_loop m sym_end eip q (fst ?b) (snd ?b) = Some (fst (best eip ?n ?b es))"
  proof (cases es)
    case Nil
    then have "sym_end \<le> q" using q nx Cons.prems(4) by (auto simp: x sym_file_def sym_line_def)
    then show ?thesis using Nil by (simp add: find_loop.simps [of _ _ _ q])
  next
    case (Cons y ys)
    obtain c cs where "sym_file es = c # cs" "isDigit c"
      using hex8_Cons [of "fst y"] by (auto simp: Cons sym_file_def sym_line_def)
    then have "skip_while ?nd m ?n = Some ?n"
      by (intro skip_while_stop) (use n in \<open>simp_all add: m nth_append sym_line_def\<close>)
    then have "q = ?n" using q by simp
    moreover have "find_loop m sym_end eip (length (pre @ sym_line (a, nm))) (fst ?b) (snd ?b) =
        Some (fst (best eip (length (pre @ sym_line (a, nm))) ?b es))"
      by (rule Cons.IH) (use Cons.prems m in \<open>simp_all add: x sym_file_def\<close>)
    ultimately show ?thesis unfolding n by simp
  qed
  with q show ?case by (simp add: x)
qed

section \<open>The closest symbol\<close>

lemma closer_is_below:
  fixes eip :: u32
  assumes "eip - a < eip - d" "d = 0x7FFFFFFF \<or> d \<le> eip" "a < 0x7FFFFFFF" "eip < 0x7FFFFFFF"
  shows "a \<le> eip"
proof (rule ccontr)
  assume "\<not> a \<le> eip"
  then have "unat (eip - a) = unat eip + 4294967296 - unat a"
    using unat_sub_if' [of eip a] by (simp add: word_le_nat_alt)
  moreover have "unat (eip - d) = (if d \<le> eip then unat eip - unat d else unat eip + 4294967296 - unat d)"
    using unat_sub_if' [of eip d] by (simp add: word_le_nat_alt)
  ultimately show False using assms by (auto simp: word_less_nat_alt word_le_nat_alt)
qed

lemma below_is_closer:
  fixes eip :: u32
  assumes "a \<le> eip" "eip < 0x7FFFFFFF"
  shows "eip - a < eip - 0x7FFFFFFF"
proof -
  have "unat (eip - a) = unat eip - unat a"
    using unat_sub_if' [of eip a] assms by (simp add: word_le_nat_alt)
  moreover have "unat (eip - 0x7FFFFFFF) = unat eip + 4294967296 - 0x7FFFFFFF"
    using unat_sub_if' [of eip "0x7FFFFFFF"] assms by (simp add: word_less_nat_alt)
  ultimately show ?thesis using assms by (simp add: word_less_nat_alt)
qed

lemma best_closest:
  assumes "m = pre @ sym_file es @ tail" "\<forall>(a, nm) \<in> set es. a < 0x7FFFFFFF" "eip < 0x7FFFFFFF"
    and "snd b = 0x7FFFFFFF \<or> snd b \<le> eip"
  shows "eip - snd (best eip (length pre) b es) \<le> eip - snd b \<and>
    (\<forall>(a, nm) \<in> set es. eip - snd (best eip (length pre) b es) \<le> eip - a) \<and>
    (best eip (length pre) b es = b \<or>
     (\<exists>(a, nm) \<in> set es. a \<le> eip \<and> snd (best eip (length pre) b es) = a \<and>
       (\<exists>v. drop (fst (best eip (length pre) b es)) m = nm @ 10 # v)))"
  using assms
proof (induction es arbitrary: pre b)
  case (Cons x es)
  obtain a nm where x: "x = (a, nm)" by (cases x)
  let ?b = "if eip - a < eip - snd b then (length pre + 9, a) else b"
  have m: "m = (pre @ sym_line (a, nm)) @ sym_file es @ tail" using Cons.prems(1) by (simp add: x sym_file_def)
  have n: "length (pre @ sym_line (a, nm)) = length pre + 10 + length nm" by (simp add: sym_line_def)
  have b: "snd ?b = 0x7FFFFFFF \<or> snd ?b \<le> eip"
    using closer_is_below [of eip a "snd b"] Cons.prems by (auto simp: x)
  have le: "eip - snd ?b \<le> eip - snd b \<and> eip - snd ?b \<le> eip - a" by auto
  have new: "eip - a < eip - snd b \<Longrightarrow> a \<le> eip \<and> (\<exists>v. drop (length pre + 9) m = nm @ 10 # v)"
    using closer_is_below [of eip a "snd b"] Cons.prems by (auto simp: x m sym_line_def)
  show ?case using Cons.IH [OF m _ Cons.prems(3) b] Cons.prems(2) le new unfolding n by (auto simp: x split: if_splits)
qed simp

definition ident :: "u8 \<Rightarrow> bool" where
  "ident c \<longleftrightarrow> isCharacter c \<or> c = 95"

lemma c_string_zero: "0 \<notin> set xs \<Longrightarrow> c_string (xs @ 0 # v) = Some xs"
proof -
  assume "0 \<notin> set xs"
  then have "strlen (xs @ 0 # v) = Some (length xs)" by (induction xs) auto
  then show ?thesis by (simp add: c_string_def)
qed

lemma end_name:
  assumes "drop p m = nm @ 10 # v" "nm \<noteq> []"
  shows "\<exists>q m'. skip_while (\<lambda>c. isCharacter c \<or> c = 95) m p = Some q \<and> nput m q 0 = Some m' \<and>
    c_string (drop p m') = Some (takeWhile ident nm)"
proof -
  let ?n = "takeWhile ident nm"
  obtain c w where w: "nm @ 10 # v = ?n @ c # w" "\<not> ident c"
  proof (cases "dropWhile ident nm")
    case Nil
    then have "?n = nm" by (metis append_Nil2 takeWhile_dropWhile_id)
    with that [of 10 v] show ?thesis by (simp add: ident_def isCharacter_def)
  next
    case (Cons d ds)
    with that [of d "ds @ 10 # v"] show ?thesis
      by (metis append.assoc append_Cons hd_dropWhile list.discI list.sel(1) takeWhile_dropWhile_id)
  qed
  have p: "p \<le> length m" using assms by (cases "p \<le> length m") auto
  have m: "m = take p m @ ?n @ c # w" using assms(1) w(1) by (metis append_take_drop_id)
  have lp: "length (take p m) = p" using p by simp
  have i: "(\<lambda>c. isCharacter c \<or> c = 95) = ident" by (auto simp: ident_def)
  have "\<forall>c \<in> set ?n. ident c" by (auto dest: set_takeWhileD)
  then have 1: "skip_while ident m p = Some (p + length ?n)"
    using skip_while_run [of ?n ident c "take p m" w] w(2) lp m by metis
  have "p + length ?n < length m" using arg_cong [OF m, of length] lp by simp
  then have 2: "nput m (p + length ?n) 0 = Some (m[p + length ?n := 0])" by (simp add: nput_def)
  have "m[p + length ?n := 0] = take p m @ ?n @ 0 # w"
    using lp by (subst m) (simp add: list_update_append)
  then have "drop p (m[p + length ?n := 0]) = ?n @ 0 # w" using lp by (metis append_eq_conv_conj)
  moreover have "0 \<notin> set ?n" by (auto dest: set_takeWhileD simp: ident_def isCharacter_def)
  ultimately show ?thesis using 1 2 by (simp add: i c_string_zero)
qed

text \<open>C35. The lookup of an address in a symbol file as \<open>nm\<close> writes it terminates, stays inside the file
  and returns the leading letters and underscores of the name of the closest symbol, the one with the
  greatest address not above the one looked up. The name is cut at its first other character: of
  \<open>isr_0_DE\<close> only \<open>isr_\<close> is left.\<close>

theorem find_function_name_closest:
  assumes "\<forall>(a, nm) \<in> set es. a < 0x7FFFFFFF \<and> sym_name nm" "\<exists>(a, nm) \<in> set es. a \<le> eip" "eip < 0x7FFFFFFF"
    and "\<exists>c \<in> set tail. isDigit c"
  shows "\<exists>p m' a nm. find_function_name (length (sym_file es)) eip (sym_file es @ tail) = Some (p, m') \<and>
    (a, nm) \<in> set es \<and> a \<le> eip \<and> (\<forall>(b, _) \<in> set es. b \<le> eip \<longrightarrow> b \<le> a) \<and>
    c_string (drop p m') = Some (takeWhile ident nm)"
proof -
  let ?m = "sym_file es @ tail" and ?b = "best eip 0 (0, 0x7FFFFFFF) es"
  have names: "\<forall>e \<in> set es. sym_name (snd e)" using assms(1) by auto
  have loop: "find_loop ?m (length (sym_file es)) eip 0 0 0x7FFFFFFF = Some (fst ?b)"
    using find_lines [of ?m "[]" es tail "length (sym_file es)" eip "(0, 0x7FFFFFFF)"] names assms(4) by simp
  have B: "(\<forall>(a, nm) \<in> set es. eip - snd ?b \<le> eip - a) \<and> (?b = (0, 0x7FFFFFFF) \<or>
      (\<exists>(a, nm) \<in> set es. a \<le> eip \<and> snd ?b = a \<and> (\<exists>v. drop (fst ?b) ?m = nm @ 10 # v)))"
    using best_closest [of ?m "[]" es tail eip "(0, 0x7FFFFFFF)"] assms(1,3) by auto
  obtain a0 nm0 where "(a0, nm0) \<in> set es" "a0 \<le> eip" using assms(2) by auto
  then have "?b \<noteq> (0, 0x7FFFFFFF)" using B below_is_closer [OF _ assms(3), of a0] by auto
  then obtain a nm v where a: "(a, nm) \<in> set es" "a \<le> eip" "snd ?b = a" "drop (fst ?b) ?m = nm @ 10 # v"
    using B by blast
  have "b \<le> a" if "(b, x) \<in> set es" "b \<le> eip" for b x
  proof -
    have "eip - a \<le> eip - b" using B that(1) a(3) by auto
    moreover have "unat (eip - a) = unat eip - unat a" "unat (eip - b) = unat eip - unat b"
      using a(2) that(2) unat_sub_if' [of eip] by (simp_all add: word_le_nat_alt)
    ultimately show ?thesis using a(2) that(2) by (simp add: word_le_nat_alt)
  qed
  moreover have "nm \<noteq> []" using a(1) assms(1) by (auto simp: sym_name_def)
  from end_name [OF a(4) this] obtain q m' where
    "skip_while (\<lambda>c. isCharacter c \<or> c = 95) ?m (fst ?b) = Some q" "nput ?m q 0 = Some m'"
    "c_string (drop (fst ?b) m') = Some (takeWhile ident nm)" by blast
  ultimately show ?thesis using loop a(1,2) by (auto simp: find_function_name_def)
qed

text \<open>Two functions, and an address inside the second.\<close>

definition two_symbols :: "(u32 \<times> str) list" where
  "two_symbols = [(0x1200, map of_char ''hlt''), (0x1300, map of_char ''sti'')]"

theorem find_function_name_closest_witness:
  "\<exists>p m'. find_function_name (length (sym_file two_symbols)) 0x1304 (sym_file two_symbols @ [48]) = Some (p, m') \<and>
     c_string (drop p m') = Some (map of_char ''sti'')"
proof -
  have t: "takeWhile ident (map of_char ''sti'') = map of_char ''sti''" "takeWhile ident (map of_char ''hlt'') = map of_char ''hlt''"
    by code_simp+
  have "sym_name (map of_char ''hlt'')" "sym_name (map of_char ''sti'')" by code_simp+
  then have "\<forall>(a, nm) \<in> set two_symbols. a < 0x7FFFFFFF \<and> sym_name nm" by (simp add: two_symbols_def)
  moreover have "\<exists>(a, nm) \<in> set two_symbols. a \<le> (0x1304 :: u32)" by (simp add: two_symbols_def)
  moreover have "\<exists>c \<in> set [48]. isDigit c" by (simp add: isDigit_def)
  ultimately obtain p m' a nm where r:
    "find_function_name (length (sym_file two_symbols)) 0x1304 (sym_file two_symbols @ [48]) = Some (p, m')"
    "(a, nm) \<in> set two_symbols" "\<forall>(b, _) \<in> set two_symbols. b \<le> (0x1304 :: u32) \<longrightarrow> b \<le> a"
    "c_string (drop p m') = Some (takeWhile ident nm)"
    using find_function_name_closest [of two_symbols "0x1304" "[48]"] by auto
  then have "nm = map of_char ''sti''" by (auto simp: two_symbols_def)
  with r(1,4) t(1) show ?thesis by auto
qed

text \<open>The lookup ends the name it finds with a NUL in the file, over the newline, and the line after it is
  no longer seen: once \<open>hlt\<close> has been looked up, the address of \<open>sti\<close> is taken for one in \<open>hlt\<close>.\<close>

lemma find_step:
  assumes "str_into_hex (drop p m) 0 = Some (int n, dir)" "skip_while isDigit m (p + n) = Some p1"
    and "skip_while isSpace m (p1 + 1) = Some p2" "skip_while (\<lambda>c. \<not> isSpace c) m p2 = Some p3"
    and "skip_while (\<lambda>c. \<not> isDigit c) m p3 = Some p4" "p < sym_end"
  shows "find_loop m sym_end eip p nm d =
    (if eip - dir < eip - d then find_loop m sym_end eip p4 p2 dir else find_loop m sym_end eip p4 nm d)"
proof -
  have "nat (int p + int n) = p + n" by simp
  then show ?thesis using assms by (subst find_loop.simps) (simp add: advance_def Let_def)
qed

definition two_lines :: str where
  "two_lines = map of_char ''00001200 hlt'' @ 10 # map of_char ''00001300 sti'' @ [10, 48]"

definition two_lines_after :: str where
  "two_lines_after = map of_char ''00001200 hlt'' @ 0 # map of_char ''00001300 sti'' @ [10, 48]"

lemma second_lookup_wrong:
  "find_function_name 26 0x1204 two_lines = Some (9, two_lines_after)"
  "\<exists>m. find_function_name 26 0x1304 two_lines_after = Some (9, m) \<and> c_string (drop 9 m) = Some (map of_char ''hlt'')"
proof -
  let ?nd = "\<lambda>c. \<not> isDigit c" and ?ns = "\<lambda>c. \<not> isSpace c" and ?m = two_lines_after
  have 1: "(str_into_hex (drop 0 two_lines) 0, skip_while isDigit two_lines (0 + 8), skip_while isSpace two_lines (8 + 1),
      skip_while ?ns two_lines 9, skip_while ?nd two_lines 12) = (Some (int 8, 0x1200), Some 8, Some 9, Some 12, Some 13)"
    by code_simp
  have 2: "(str_into_hex (drop 13 two_lines) 0, skip_while isDigit two_lines (13 + 8), skip_while isSpace two_lines (21 + 1),
      skip_while ?ns two_lines 22, skip_while ?nd two_lines 25) = (Some (int 8, 0x1300), Some 21, Some 22, Some 25, Some 26)"
    by code_simp
  have 3: "(str_into_hex (drop 0 ?m) 0, skip_while isDigit ?m (0 + 8), skip_while isSpace ?m (8 + 1),
      skip_while ?ns ?m 9, skip_while ?nd ?m 21) = (Some (int 8, 0x1200), Some 8, Some 9, Some 21, Some 26)"
    by code_simp
  have 4: "skip_while (\<lambda>c. isCharacter c \<or> c = 95) two_lines 9 = Some 12" "nput two_lines 12 0 = Some ?m"
    "skip_while (\<lambda>c. isCharacter c \<or> c = 95) ?m 9 = Some 12" "nput ?m 12 0 = Some ?m"
    "c_string (drop 9 ?m) = Some (map of_char ''hlt'')"
    by code_simp+
  have "find_loop two_lines 26 0x1204 0 0 0x7FFFFFFF = find_loop two_lines 26 0x1204 13 9 0x1200"
    using 1 by (subst find_step [of 0 _ 8]) (assumption | simp)+
  also have "\<dots> = find_loop two_lines 26 0x1204 26 9 0x1200"
    using 2 by (subst find_step [of 13 _ 8]) (assumption | simp)+
  also have "\<dots> = Some 9" by (subst find_loop.simps) simp
  finally show "find_function_name 26 0x1204 two_lines = Some (9, ?m)" using 4 by (simp add: find_function_name_def)
  have "find_loop ?m 26 0x1304 0 0 0x7FFFFFFF = find_loop ?m 26 0x1304 26 9 0x1200"
    using 3 by (subst find_step [of 0 _ 8]) (assumption | simp)+
  also have "\<dots> = Some 9" by (subst find_loop.simps) simp
  finally show "\<exists>m. find_function_name 26 0x1304 ?m = Some (9, m) \<and> c_string (drop 9 m) = Some (map of_char ''hlt'')"
    using 4 by (simp add: find_function_name_def)
qed

section \<open>The registers\<close>

lemma int_text_wide: "length (int_text 120 x) > 1 \<longleftrightarrow> 16 \<le> x"
proof -
  have "digits_of 16 (unat x) = (if unat x < 16 then [unat x] else digits_of 16 (unat x div 16) @ [unat x mod 16])"
    by (subst digits_of.simps) simp
  then show ?thesis using digits_of_nonempty [of 16 "unat x div 16"]
    by (cases "digits_of 16 (unat x div 16)") (auto simp: int_text_def numeral_text_def word_le_nat_alt)
qed

lemma panic_format:
  "cstr ''EAX %x, EBX %x, ECX %x, EDX %x, CS %x, DS %x, SS %x'' =
     [69, 65, 88, 32, 37, 120, 44, 32, 69, 66, 88, 32, 37, 120, 44, 32, 69, 67, 88, 32, 37, 120, 44, 32, 69, 68, 88, 32, 37, 120,
      44, 32, 67, 83, 32, 37, 120, 44, 32, 68, 83, 32, 37, 120, 44, 32, 83, 83, 32, 37, 120, 0]"
  by code_simp

lemma print_registers_overruns:
  assumes "\<forall>x \<in> set [es_eax e, es_ebx e, es_ecx e, es_edx e, org_cs e, es_ds e, es_ss e]. 0 \<le>s x"
    and "\<exists>x \<in> set [es_eax e, es_ebx e, es_ecx e, es_edx e, org_cs e, es_ds e, es_ss e]. 16 \<le> x"
  shows "print_registers e k = None"
proof -
  let ?args = "map VInt [es_eax e, es_ebx e, es_ecx e, es_edx e, org_cs e, es_ds e, es_ss e]"
  let ?fmt = "cstr ''EAX %x, EBX %x, ECX %x, EDX %x, CS %x, DS %x, SS %x''"
  have l: "strlen ?fmt = Some 51" unfolding panic_format by simp
  obtain t where t: "format_text (take 51 ?fmt) ?args = Some t" unfolding panic_format by simp
  have w: "wide_numbers (take 51 ?fmt) ?args \<noteq> 0" unfolding panic_format
    using assms(2) int_text_wide by auto
  have "\<forall>x. VInt x \<in> set ?args \<longrightarrow> 0 \<le>s x" using assms(1) by auto
  from wide_leaves_buffer [OF l t this w] show ?thesis by (auto simp: print_registers_def put_format_def vga_printf_def)
qed

text \<open>\<open>fat12_create\<close> prints the boot sector when the kernel starts: a sector of 512 bytes leaves the buffer of
  the line that shows it.\<close>

lemma boot_format:
  "cstr ''Bytes per sector %d, Sectors per cluster %d, Reserved Sectors %d'' =
     [66, 121, 116, 101, 115, 32, 112, 101, 114, 32, 115, 101, 99, 116, 111, 114, 32, 37, 100, 44, 32, 83, 101, 99, 116, 111, 114,
      115, 32, 112, 101, 114, 32, 99, 108, 117, 115, 116, 101, 114, 32, 37, 100, 44, 32, 82, 101, 115, 101, 114, 118, 101, 100, 32,
      83, 101, 99, 116, 111, 114, 115, 32, 37, 100, 0]"
  by code_simp

lemma boot_report_overruns:
  fixes k :: "'a serialk_scheme"
  assumes "bytesPerSector b = 512" shows "fat12_print_boot_sect b k = None"
proof -
  let ?args = "[VInt (ucast (bytesPerSector b)), VInt (ucast (SectorsPerCluster b)), VInt (ucast (ReservedSectors b))]"
  let ?fmt = "cstr ''Bytes per sector %d, Sectors per cluster %d, Reserved Sectors %d''"
  have l: "strlen ?fmt = Some 64" unfolding boot_format by simp
  obtain t where t: "format_text (take 64 ?fmt) ?args = Some t" unfolding boot_format by simp
  have "digits_of 10 512 = [5, 1, 2]" by (simp add: digits_of.simps)
  then have "length (int_text 100 512) = 3" by (simp add: int_text_def dec_text_def numeral_text_def word_sless_alt)
  then have w: "wide_numbers (take 64 ?fmt) ?args \<noteq> 0" unfolding boot_format using assms by simp
  have p: "0 \<le>s (ucast x :: u32)" "0 \<le>s (ucast y :: u32)" for x :: u8 and y :: u16
    using bit_imp_le_length [of x 31] bit_imp_le_length [of y 31]
    by (auto simp: word_sle_eq sint_uint signed_take_bit_eq_if_positive bit_simps)
  have "\<forall>x. VInt x \<in> set ?args \<longrightarrow> 0 \<le>s x" using p by auto
  from wide_leaves_buffer [OF l t this w] have "printf ?fmt ?args k = None" for k :: "'a serialk_scheme"
    by (auto simp: printf_def Let_def)
  then show ?thesis by (simp add: fat12_print_boot_sect_def split: bind_splits)
qed

text \<open>A panic inside a panic halts the machine and leaves everything as it was; the first panic leaves
  the buffer of the registers' line as soon as one of the seven registers it shows has a value above
  fifteen, because \<open>vga_printf\<close> allocates too little.\<close>

theorem panic_screen_overruns:
  fixes k :: "'a panick_scheme"
  assumes "\<forall>x \<in> set [es_eax e, es_ebx e, es_ecx e, es_edx e, org_cs e, es_ds e, es_ss e]. 0 \<le>s x"
    and "\<exists>x \<in> set [es_eax e, es_ebx e, es_ecx e, es_edx e, org_cs e, es_ds e, es_ss e]. 16 \<le> x"
  shows "kernelpanic stack e k = (if in_panic k then Some (Halted k) else None)"
proof -
  have "print_registers e k' = None" for k' :: "'a panick_scheme" by (rule print_registers_overruns [OF assms, of k'])
  then show ?thesis
    by (auto simp: kernelpanic_def debug_kernelpanic_def Let_def split: bind_splits)
qed

definition fault_state :: exp_state where
  "fault_state = \<lparr>es_gs = 0x10, es_fs = 0x10, es_es = 0x10, es_ds = 0x10, es_ss = 0x10, es_edi = 0, es_esi = 0,
     es_ebp = 0, es_esp = 0x1000, es_ebx = 0, es_edx = 0, es_ecx = 0, es_eax = 0, errcode = 14, org_eip = 0x1200,
     org_cs = 8, es_eflags = 2, org_esp = 0x1000, org_ss = 0x10\<rparr>"

text \<open>The segment registers of the kernel are enough.\<close>

definition faulty_kernel :: panick where
  "faulty_kernel = fsk.extend loaded_kernel (panick.fields 14 [] 0 0)"

theorem panic_screen_overruns_witness:
  "kernelpanic 0x1000 fault_state faulty_kernel = None"
  using panic_screen_overruns [of fault_state "0x1000" faulty_kernel]
  by (simp add: fault_state_def faulty_kernel_def loaded_kernel_def fsk.defs word_sle_eq)

end
