(* ===== verification/Shell.thy ===== *)
theory Shell
  imports Files
begin

text \<open>
  The shell, tasks/console.c, the only interactive user program: it reads keys from its console, echoes
  them, edits a line and has the kernel run it. The model is the loop of \<open>main\<close> and \<open>run_command\<close>, over
  the keys that \<open>read\<close> delivers, with the system calls it makes as its output; what the call \<open>run\<close>
  returns for a line is an argument. A key that would be stored outside the array \<open>command\<close> is None.
\<close>

section \<open>Model\<close>

datatype sh_call = Open str u32 | Write_con str | Run str | Exit

record shell =
  command :: str
  idx :: u32

definition ps1 :: str where "ps1 = map of_char ''console@pso: ''"
definition exit_cmd :: str where "exit_cmd = cstr ''exit''"
definition invalid_command :: str where "invalid_command = map of_char ''command not found''"

text \<open>The calls made, and whether the program goes on; the kernel reads the command up to its NUL.\<close>

definition run_command :: "(str \<Rightarrow> int) \<Rightarrow> str \<Rightarrow> (sh_call list \<times> bool) option" where
  "run_command run cmd = do {
     r \<leftarrow> strcmp cmd exit_cmd;
     if r = 0 then Some ([Exit], False)
     else do {
       l \<leftarrow> c_string cmd;
       Some (Run l # (if run l < 0 then [Write_con [10], Write_con invalid_command] else [])
             @ [Write_con [10], Write_con ps1], True) } }"

definition clear_command :: "str \<Rightarrow> str option" where
  "clear_command c = for_range 0 100 (\<lambda>i c. aput c (of_nat i) 0) c"

definition sh_key :: "(str \<Rightarrow> int) \<Rightarrow> u8 \<Rightarrow> shell \<Rightarrow> (sh_call list \<times> bool \<times> shell) option" where
  "sh_key run msg s =
     (if msg = 10 then do {
        (calls, on) \<leftarrow> run_command run (command s);
        if on then do {
          c \<leftarrow> clear_command (command s);
          Some (calls, True, s\<lparr>command := c, idx := 0\<rparr>) }
        else Some (calls, False, s) }
      else if msg \<noteq> 8 then do {
        c \<leftarrow> aput (command s) (idx s) msg;
        Some ([Write_con [msg]], True, s\<lparr>command := c, idx := idx s + 1\<rparr>) }
      else if idx s \<noteq> 0 then do {
        c \<leftarrow> aput (command s) (idx s - 1) 0;
        Some ([Write_con [msg]], True, s\<lparr>command := c, idx := idx s - 1\<rparr>) }
      else Some ([Write_con [msg]], True, s))"

fun sh_loop :: "(str \<Rightarrow> int) \<Rightarrow> u8 list \<Rightarrow> shell \<Rightarrow> sh_call list option" where
  "sh_loop run [] s = Some []"
| "sh_loop run (msg # keys) s = do {
     (calls, on, s) \<leftarrow> sh_key run msg s;
     if on then map_option ((@) calls) (sh_loop run keys s) else Some calls }"

definition open_console :: sh_call where "open_console = Open (map of_char ''/console'') 0x3"

text \<open>\<open>main\<close> does not initialise \<open>command\<close>: what is on the stack is an argument.\<close>

definition sh_main :: "(str \<Rightarrow> int) \<Rightarrow> str \<Rightarrow> u8 list \<Rightarrow> sh_call list option" where
  "sh_main run stack keys =
     map_option (\<lambda>calls. open_console # Write_con ps1 # calls) (sh_loop run keys \<lparr>command = stack, idx = 0\<rparr>)"

section \<open>The line editor\<close>

text \<open>What a shell does, over the line typed so far.\<close>

fun session :: "(str \<Rightarrow> int) \<Rightarrow> str \<Rightarrow> u8 list \<Rightarrow> sh_call list" where
  "session run line [] = []"
| "session run line (c # keys) =
     (if c = 10 then
        (if line = map of_char ''exit'' then [Exit]
         else Run line # (if run line < 0 then [Write_con [10], Write_con invalid_command] else [])
              @ [Write_con [10], Write_con ps1] @ session run [] keys)
      else Write_con [c] # session run (if c = 8 then butlast line else line @ [c]) keys)"

text \<open>The line never gets longer than the array, less its NUL.\<close>

fun line_fits :: "nat \<Rightarrow> u8 list \<Rightarrow> bool" where
  "line_fits n [] \<longleftrightarrow> n < 100"
| "line_fits n (c # keys) \<longleftrightarrow> n < 100 \<and> line_fits (if c = 10 then 0 else if c = 8 then n - 1 else n + 1) keys"

definition holds_line :: "shell \<Rightarrow> str \<Rightarrow> bool" where
  "holds_line s line \<longleftrightarrow> command s = line @ replicate (100 - length line) 0 \<and> idx s = of_nat (length line) \<and>
     length line < 100 \<and> 0 \<notin> set line"

lemma line_string: "length l < 100 \<Longrightarrow> 0 \<notin> set l \<Longrightarrow> c_string (l @ replicate (100 - length l) 0) = Some l"
proof -
  assume l: "length l < 100" "0 \<notin> set l"
  then obtain n where "100 - length l = Suc n" by (metis Suc_diff_Suc diff_zero)
  moreover have "strlen (l @ 0 # r) = Some (length l)" for r using l(2) by (induction l) auto
  ultimately show ?thesis by (simp add: c_string_def)
qed

lemma strcmp_zero:
  "0 \<notin> set p \<Longrightarrow> 0 \<notin> set u \<Longrightarrow> \<exists>r. strcmp (p @ 0 # x) (u @ 0 # y) = Some r \<and> (r = 0 \<longleftrightarrow> p = u)"
proof (induction p arbitrary: u)
  case Nil
  then show ?case by (cases u) auto
next
  case (Cons a p)
  show ?case
  proof (cases u)
    case (Cons b us)
    have "sint a - sint b = 0 \<longleftrightarrow> a = b" by (auto intro: signed_word_eqI)
    with Cons Cons.IH [of us] Cons.prems show ?thesis by auto
  qed (use Cons.prems in auto)
qed

lemma clear_command_eq: "length c = 100 \<Longrightarrow> clear_command c = Some (replicate 100 0)"
proof -
  assume l: "length c = 100"
  have "map (\<lambda>j. if 0 \<le> j \<and> j < 100 then 0 else c ! j) [0..<length c] = replicate 100 0"
    using l by (intro nth_equalityI) auto
  then show ?thesis using for_range_fill [of 0 100 c "\<lambda>_. 0"] l by (simp add: clear_command_def)
qed

lemma run_command_line:
  assumes "holds_line s line"
  shows "run_command run (command s) = Some (if line = map of_char ''exit'' then ([Exit], False) else
    (Run line # (if run line < 0 then [Write_con [10], Write_con invalid_command] else [])
       @ [Write_con [10], Write_con ps1], True))"
proof -
  have l: "command s = line @ replicate (100 - length line) 0" "length line < 100" "0 \<notin> set line"
    using assms by (auto simp: holds_line_def)
  obtain n where n: "100 - length line = Suc n" using l(2) by (metis Suc_diff_Suc diff_zero)
  have z: "0 \<notin> set (map of_char ''exit'' :: str)" by code_simp
  obtain r where "strcmp (line @ 0 # replicate n 0) (map of_char ''exit'' @ 0 # []) = Some r"
      "r = 0 \<longleftrightarrow> line = map of_char ''exit''"
    using strcmp_zero [OF l(3) z, of "replicate n 0" "[]"] by auto
  then show ?thesis using line_string [OF l(2,3)] l(1) n
    by (auto simp: run_command_def exit_cmd_def cstr_def)
qed

lemma sh_key_char:
  assumes "holds_line s line" "c \<noteq> 10" "c \<noteq> 8" "c \<noteq> 0" "length line < 99"
  shows "\<exists>s'. sh_key run c s = Some ([Write_con [c]], True, s') \<and> holds_line s' (line @ [c])"
proof -
  have i: "unat (idx s) = length line" using assms(1,5) by (simp add: holds_line_def unat_of_nat)
  have "100 - length line = Suc (99 - length line)" using assms(5) by simp
  then have "aput (command s) (idx s) c = Some ((line @ [c]) @ replicate (100 - length (line @ [c])) 0)"
    using assms(1,5) i by (simp add: holds_line_def aput_def list_update_append)
  with assms show ?thesis by (auto simp: sh_key_def holds_line_def)
qed

lemma sh_key_back:
  assumes "holds_line s line"
  shows "\<exists>s'. sh_key run 8 s = Some ([Write_con [8]], True, s') \<and> holds_line s' (butlast line)"
proof (cases line rule: rev_cases)
  case Nil
  with assms show ?thesis by (simp add: sh_key_def holds_line_def)
next
  case (snoc l c)
  have l: "length l < 99" using assms by (simp add: holds_line_def snoc)
  have i: "unat (idx s - 1) = length l" using assms l by (simp add: holds_line_def snoc unat_of_nat)
  have "unat (of_nat (length l + 1) :: u32) = length l + 1" using l by (simp add: unat_of_nat unat_word_ariths)
  then have "idx s \<noteq> 0" using assms by (auto simp: holds_line_def snoc)
  moreover have "100 - length l = Suc (99 - length l)" using l by simp
  then have "aput (command s) (idx s - 1) 0 = Some (l @ replicate (100 - length l) 0)"
    using assms l i by (simp add: holds_line_def snoc aput_def list_update_append)
  ultimately show ?thesis using assms by (auto simp: sh_key_def holds_line_def snoc)
qed

lemma sh_loop_session:
  assumes "holds_line s line" "line_fits (length line) keys" "0 \<notin> set keys"
  shows "sh_loop run keys s = Some (session run line keys)"
  using assms
proof (induction keys arbitrary: s line)
  case (Cons c keys)
  consider (enter) "c = 10" | (bksp) "c = 8" | (char) "c \<noteq> 10" "c \<noteq> 8" "c \<noteq> 0" using Cons.prems(3) by auto
  then show ?case
  proof cases
    case enter
    have "length (command s) = 100" using Cons.prems(1) by (auto simp: holds_line_def)
    then have "clear_command (command s) = Some (replicate 100 0)" by (rule clear_command_eq)
    moreover have "sh_loop run keys (s\<lparr>command := replicate 100 0, idx := 0\<rparr>) = Some (session run [] keys)"
      by (rule Cons.IH) (use Cons.prems enter in \<open>simp_all add: holds_line_def\<close>)
    ultimately show ?thesis using enter run_command_line [OF Cons.prems(1), of run] by (simp add: sh_key_def)
  next
    case bksp
    from sh_key_back [OF Cons.prems(1), of run] obtain s' where s': "sh_key run 8 s = Some ([Write_con [8]], True, s')"
      "holds_line s' (butlast line)" by blast
    then show ?thesis using Cons.IH [OF s'(2)] Cons.prems bksp by simp
  next
    case char
    have "length line < 99" using Cons.prems(2) char by (cases keys) auto
    from sh_key_char [OF Cons.prems(1) char this, of run] obtain s' where
      s': "sh_key run c s = Some ([Write_con [c]], True, s')" "holds_line s' (line @ [c])" by blast
    then show ?thesis using Cons.IH [OF s'(2)] Cons.prems char by simp
  qed
qed simp

text \<open>C34. The shell is a line editor: when the array \<open>command\<close> starts with zeros and no line reaches its
  hundred characters, the shell echoes every key and has the kernel run exactly the lines as edited,
  backspace taking the last character away, until the line is \<open>exit\<close>.\<close>

theorem shell_edits_lines:
  assumes "line_fits 0 keys" "0 \<notin> set keys"
  shows "sh_main run (replicate 100 0) keys = Some (open_console # Write_con ps1 # session run [] keys)"
  using sh_loop_session [of "\<lparr>command = replicate 100 0, idx = 0\<rparr>" "[]" keys run] assms
  by (simp add: sh_main_def holds_line_def)

text \<open>Typing \<open>lx\<close>, a backspace, \<open>s\<close> and a newline runs \<open>ls\<close>.\<close>

theorem shell_edits_lines_witness:
  "sh_main (\<lambda>_. 0) (replicate 100 0) [108, 120, 8, 115, 10] =
     Some [open_console, Write_con ps1, Write_con [108], Write_con [120], Write_con [8], Write_con [115], Run [108, 115],
       Write_con [10], Write_con ps1]"
  using shell_edits_lines [of "[108, 120, 8, 115, 10]" "\<lambda>_. 0"] by simp

section \<open>What the shell does not check\<close>

definition plain_keys :: "u8 list \<Rightarrow> bool" where
  "plain_keys keys \<longleftrightarrow> 0 \<notin> set keys \<and> 8 \<notin> set keys \<and> 10 \<notin> set keys"

lemma sh_loop_plain:
  assumes "plain_keys keys" "length stack = 100" "command s = dn @ drop (length dn) stack" "idx s = of_nat (length dn)" "length dn \<le> 100"
  shows "sh_loop run (keys @ rest) s = (if length dn + length keys \<le> 100 then
    map_option ((@) (map (\<lambda>c. Write_con [c]) keys)) (sh_loop run rest
      (s\<lparr>command := (dn @ keys) @ drop (length (dn @ keys)) stack, idx := of_nat (length (dn @ keys))\<rparr>)) else None)"
  using assms
proof (induction keys arbitrary: s dn)
  case Nil
  then have e: "s\<lparr>command := dn @ drop (length dn) stack, idx := of_nat (length dn)\<rparr> = s" by (cases s) simp
  have "(@) [] = (id :: sh_call list \<Rightarrow> sh_call list)" by (rule ext) simp
  then show ?case by (simp add: e option.map_id Nil.prems(5))
next
  case (Cons c keys)
  have i: "unat (idx s) = length dn" using Cons.prems by (simp add: unat_of_nat)
  have c: "c \<noteq> 0" "c \<noteq> 8" "c \<noteq> 10" "plain_keys keys" using Cons.prems(1) by (auto simp: plain_keys_def)
  show ?case
  proof (cases "length dn < 100")
    case True
    let ?s = "s\<lparr>command := (dn @ [c]) @ drop (length (dn @ [c])) stack, idx := of_nat (length (dn @ [c]))\<rparr>"
    have "drop (length dn) stack = stack ! length dn # drop (Suc (length dn)) stack"
      using True Cons.prems(2) by (simp add: Cons_nth_drop_Suc)
    then have "aput (command s) (idx s) c = Some ((dn @ [c]) @ drop (length (dn @ [c])) stack)"
      using True Cons.prems i by (simp add: aput_def list_update_append)
    then have "sh_key run c s = Some ([Write_con [c]], True, ?s)"
      using c Cons.prems(4) by (simp add: sh_key_def)
    moreover have "sh_loop run (keys @ rest) ?s = (if length (dn @ [c]) + length keys \<le> 100 then
      map_option ((@) (map (\<lambda>c. Write_con [c]) keys)) (sh_loop run rest
        (?s\<lparr>command := ((dn @ [c]) @ keys) @ drop (length ((dn @ [c]) @ keys)) stack, idx := of_nat (length ((dn @ [c]) @ keys))\<rparr>)) else None)"
      by (rule Cons.IH) (use c True Cons.prems in simp_all)
    ultimately show ?thesis by (simp add: option.map_comp o_def)
  next
    case False
    then have "aput (command s) (idx s) c = None" using Cons.prems i by (simp add: aput_def)
    then show ?thesis using c False by (simp add: sh_key_def)
  qed
qed

lemma string_to_first_zero: "0 \<in> set s \<Longrightarrow> c_string s = Some (takeWhile (\<lambda>c. c \<noteq> 0) s)"
proof -
  assume "0 \<in> set s"
  then have "strlen s = Some (length (takeWhile (\<lambda>c. c \<noteq> 0) s))" by (induction s) auto
  then show ?thesis by (simp add: c_string_def takeWhile_eq_take [symmetric])
qed

text \<open>\<open>main\<close> neither clears \<open>command\<close> before the first line nor keeps \<open>idx\<close> inside it. The first line is
  run with whatever the stack held behind it, up to a NUL, and the hundred and first character of a
  line is stored outside the array.\<close>

theorem shell_array_unchecked:
  assumes "length stack = 100" "plain_keys keys"
  shows "(length keys < 100 \<and> line = keys @ takeWhile (\<lambda>c. c \<noteq> 0) (drop (length keys) stack) \<and>
      0 \<in> set (drop (length keys) stack) \<and> line \<noteq> map of_char ''exit'' \<and> 0 \<le> run line \<longrightarrow>
      sh_main run stack (keys @ [10]) =
        Some (open_console # Write_con ps1 # map (\<lambda>c. Write_con [c]) keys @ [Run line, Write_con [10], Write_con ps1])) \<and>
    (100 < length keys \<longrightarrow> sh_main run stack keys = None)"
proof (intro conjI impI)
  let ?s = "\<lparr>command = stack, idx = 0\<rparr>"
  note L = sh_loop_plain [OF assms(2,1), of ?s "[]" run]
  assume a: "length keys < 100 \<and> line = keys @ takeWhile (\<lambda>c. c \<noteq> 0) (drop (length keys) stack) \<and>
      0 \<in> set (drop (length keys) stack) \<and> line \<noteq> map of_char ''exit'' \<and> 0 \<le> run line"
  let ?d = "drop (length keys) stack" and ?c = "keys @ drop (length keys) stack"
  have k: "0 \<notin> set keys" using assms(2) by (simp add: plain_keys_def)
  have t: "takeWhile (\<lambda>c. c \<noteq> 0) ?c = line" using a k by (simp add: takeWhile_append)
  have str: "c_string ?c = Some line" using string_to_first_zero [of ?c] a t by simp
  obtain r where "?c = line @ 0 # r"
  proof -
    have "dropWhile (\<lambda>c. c \<noteq> 0) ?c \<noteq> []" using a by auto
    then obtain x r where x: "dropWhile (\<lambda>c. c \<noteq> 0) ?c = x # r" by (cases "dropWhile (\<lambda>c. c \<noteq> 0) ?c") auto
    then have "x = 0" using hd_dropWhile [of "\<lambda>c. c \<noteq> 0" ?c] by simp
    with x t takeWhile_dropWhile_id [of "\<lambda>c. c \<noteq> 0" ?c] that [of r] show thesis by simp
  qed
  moreover have "0 \<notin> set line" unfolding t [symmetric] by (auto dest: set_takeWhileD)
  moreover have "0 \<notin> set (map of_char ''exit'' :: str)" by code_simp
  ultimately obtain n where "strcmp ?c exit_cmd = Some n" "n \<noteq> 0"
    using strcmp_zero [of line "map of_char ''exit''" r "[]"] a by (auto simp: exit_cmd_def cstr_def)
  then have "run_command run ?c = Some ([Run line, Write_con [10], Write_con ps1], True)"
    using str conjunct2 [OF conjunct2 [OF conjunct2 [OF conjunct2 [OF a]]]] by (simp add: run_command_def)
  moreover have "clear_command ?c = Some (replicate 100 0)" using a assms(1) by (intro clear_command_eq) simp
  ultimately show "sh_main run stack (keys @ [10]) =
      Some (open_console # Write_con ps1 # map (\<lambda>c. Write_con [c]) keys @ [Run line, Write_con [10], Write_con ps1])"
    using L [of "[10]"] a by (simp add: sh_main_def sh_key_def)
next
  assume "100 < length keys"
  then show "sh_main run stack keys = None"
    using sh_loop_plain [OF assms(2,1), of "\<lparr>command = stack, idx = 0\<rparr>" "[]" run "[]"] by (simp add: sh_main_def)
qed

text \<open>With a stray \<open>x\<close> on the stack, \<open>l\<close> runs \<open>lx\<close>.\<close>

theorem shell_array_unchecked_witness:
  "sh_main (\<lambda>_. 0) (120 # 120 # replicate 98 0) [108, 10] =
     Some [open_console, Write_con ps1, Write_con [108], Run [108, 120], Write_con [10], Write_con ps1]"
proof -
  have "plain_keys [108]" by (simp add: plain_keys_def)
  moreover have "[108, 120] \<noteq> (map of_char ''exit'' :: str)" by code_simp
  ultimately show ?thesis
    using shell_array_unchecked [of "120 # 120 # replicate 98 0" "[108]" "[108, 120]" "\<lambda>_. 0"] by simp
qed

section \<open>The command that the kernel gets\<close>

text \<open>\<open>sys_run\<close> copies the name of the program into an array of fifty bytes, after \<open>/disk/\<close>, with no check:
  with a name of forty-four characters or more, which the shell lets through, it leaves the array.\<close>

theorem run_path_overflows:
  assumes "0 \<notin> set name" "44 \<le> length name"
  shows "sys_run E task_ret (map of_char ''run '' @ name @ 0 # rest) k = None"
proof -
  let ?p = "cstr ''/disk/'' @ replicate 43 0 :: str"
  have n: "strlen (name @ 0 # rest) = Some (length name)" using assms(1) by (induction name) auto
  have p: "length ?p = 50" by (simp add: cstr_def)
  have "map of_char ''run '' = ([114, 117, 110, 32] :: str)" by code_simp
  then have r: "strncmp (map of_char ''run '') (map of_char ''run '' @ name @ 0 # rest) 4 = Some 0"
    by (simp add: numeral_eq_Suc)
  have d: "drop 4 (map of_char ''run '' @ name @ 0 # rest) = name @ 0 # rest" by simp
  have "str_into_string ?p 6 (name @ 0 # rest) = None \<or>
    (\<exists>a. str_into_string ?p 6 (name @ 0 # rest) = Some (a, 50) \<and> strlen a = None)"
  proof (cases "length name = 44")
    case True
    then have "str_into_string ?p 6 (name @ 0 # rest) = Some (take 6 ?p @ name, 50)"
      using n p by (simp add: str_into_string_def put_bytes_eq)
    moreover have "strlen s = None" if "0 \<notin> set s" for s using that by (induction s) auto
    moreover have "0 \<notin> set (take 6 ?p)" by code_simp
    ultimately show ?thesis using assms(1) by simp
  next
    case False
    then have "str_into_string ?p 6 (name @ 0 # rest) = None"
      using n p assms(2) by (auto simp: str_into_string_def put_bytes_eq)
    then show ?thesis by simp
  qed
  then show ?thesis using r d by (auto simp: sys_run_def split: bind_splits)
qed

text \<open>Forty-four letters.\<close>

theorem run_path_overflows_witness:
  "\<forall>E (k :: fsk). sys_run E 0 (map of_char ''run '' @ replicate 44 97 @ [0]) k = None"
proof (intro allI)
  fix E and k :: fsk
  have "0 \<notin> set (replicate 44 (97 :: u8))" "44 \<le> length (replicate 44 (97 :: u8))" by simp_all
  then show "sys_run E 0 (map of_char ''run '' @ replicate 44 97 @ [0]) k = None" by (rule run_path_overflows)
qed

section \<open>The second shell\<close>

text \<open>tasks/task2.c is a copy of the shell with a cleared, global array, no command of its own, and a
  backspace that moves \<open>idx\<close> twice. It takes every result of \<open>run\<close> but zero for an error.\<close>

definition ps2 :: str where "ps2 = map of_char ''console2@pso: ''"

definition sh2_key :: "(str \<Rightarrow> int) \<Rightarrow> u8 \<Rightarrow> shell \<Rightarrow> (sh_call list \<times> shell) option" where
  "sh2_key run msg s =
     (if msg = 10 then do {
        l \<leftarrow> c_string (command s);
        c \<leftarrow> clear_command (command s);
        Some (Run l # (if run l \<noteq> 0 then [Write_con [10], Write_con invalid_command] else [])
              @ [Write_con [10], Write_con ps2], s\<lparr>command := c, idx := 0\<rparr>) }
      else if msg \<noteq> 8 then do {
        c \<leftarrow> aput (command s) (idx s) msg;
        Some ([Write_con [msg]], s\<lparr>command := c, idx := idx s + 1\<rparr>) }
      else if idx s \<noteq> 0 then do {
        c \<leftarrow> aput (command s) (idx s - 1) 0;
        Some ([Write_con [msg]], s\<lparr>command := c, idx := idx s - 1 - 1\<rparr>) }
      else Some ([Write_con [msg]], s))"

fun sh2_loop :: "(str \<Rightarrow> int) \<Rightarrow> u8 list \<Rightarrow> shell \<Rightarrow> (sh_call list \<times> shell) option" where
  "sh2_loop run [] s = Some ([], s)"
| "sh2_loop run (msg # keys) s = do {
     (calls, s) \<leftarrow> sh2_key run msg s;
     (calls', s) \<leftarrow> sh2_loop run keys s;
     Some (calls @ calls', s) }"

lemma sh2_key_char:
  assumes "holds_line s line" "c \<noteq> 10" "c \<noteq> 8" "c \<noteq> 0" "length line < 99"
  shows "\<exists>s'. sh2_key run c s = Some ([Write_con [c]], s') \<and> holds_line s' (line @ [c])"
  using sh_key_char [OF assms, of run] assms(2,3) by (auto simp: sh_key_def sh2_key_def split: bind_splits)

lemma sh2_loop_plain:
  assumes "holds_line s line" "plain_keys keys" "length line + length keys < 100"
  shows "\<exists>s' calls. sh2_loop run keys s = Some (calls, s') \<and> holds_line s' (line @ keys)"
  using assms
proof (induction keys arbitrary: s line)
  case (Cons c keys)
  then have "c \<noteq> 10" "c \<noteq> 8" "c \<noteq> 0" "length line < 99" "plain_keys keys" by (auto simp: plain_keys_def)
  with sh2_key_char [OF Cons.prems(1), of c run] obtain s' where
    s': "sh2_key run c s = Some ([Write_con [c]], s')" "holds_line s' (line @ [c])" by blast
  with Cons.IH [OF s'(2) \<open>plain_keys keys\<close>] Cons.prems(3) show ?case by auto
qed (simp add: plain_keys_def)

text \<open>A backspace in the second shell loses the character before the one it deletes: the next key
  overwrites it; after a line of one character that key is stored before the array.\<close>

theorem second_shell_backspace:
  assumes "plain_keys (keys @ [c])" "keys \<noteq> []" "length keys < 99"
  shows "(length keys = 1 \<longrightarrow> sh2_loop run (keys @ [8, c]) \<lparr>command = replicate 100 0, idx = 0\<rparr> = None) \<and>
    (1 < length keys \<longrightarrow> (\<exists>calls s. sh2_loop run (keys @ [8, c]) \<lparr>command = replicate 100 0, idx = 0\<rparr> = Some (calls, s) \<and>
       c_string (command s) = Some (butlast (butlast keys) @ [c])))"
proof -
  have app: "sh2_loop run (ks @ ls) s = do { (a, s) \<leftarrow> sh2_loop run ks s; (b, s) \<leftarrow> sh2_loop run ls s; Some (a @ b, s) }" for ks ls s
    by (induction ks arbitrary: s) (auto split: bind_splits)
  have c: "c \<noteq> 10" "c \<noteq> 8" "c \<noteq> 0" "plain_keys keys" using assms(1) by (auto simp: plain_keys_def)
  let ?s0 = "\<lparr>command = replicate 100 0, idx = 0\<rparr>"
  obtain s calls where s: "sh2_loop run keys ?s0 = Some (calls, s)" "holds_line s keys"
    using sh2_loop_plain [of ?s0 "[]" keys run] c(4) assms(3) by (auto simp: holds_line_def)
  from sh_key_back [OF s(2), of run] obtain s' where b: "sh_key run 8 s = Some ([Write_con [8]], True, s')"
    "holds_line s' (butlast keys)" by blast
  have "unat (idx s) = length keys" using s(2) assms(3) by (simp add: holds_line_def unat_of_nat)
  then have "idx s \<noteq> 0" using assms(2) by auto
  then have k: "sh2_key run 8 s = Some ([Write_con [8]], s'\<lparr>idx := idx s' - 1\<rparr>)"
    using b(1) by (auto simp: sh_key_def sh2_key_def split: bind_splits)
  have run: "sh2_loop run (keys @ [8, c]) ?s0 =
      do { x \<leftarrow> sh2_key run c (s'\<lparr>idx := idx s' - 1\<rparr>); Some (calls @ [Write_con [8]] @ fst x, snd x) }"
    using s(1) k by (simp add: app split: bind_splits)
  show ?thesis
  proof (cases "butlast keys" rule: rev_cases)
    case Nil
    then have "length keys = 1" using assms(2) by (cases keys rule: rev_cases) auto
    moreover have "aput (command s') (idx s' - 1) c = None"
      using b(2) Nil by (simp add: holds_line_def aput_out)
    ultimately show ?thesis using run c by (simp add: sh2_key_def)
  next
    case (snoc m x)
    have "length keys - 1 = Suc (length m)" using arg_cong [OF snoc, of length] by simp
    then have "1 < length keys" "length m < 98" using assms(3) by linarith+
    note m = this(2)
    have i: "unat (idx s' - 1) = length m" using b(2) m by (simp add: snoc holds_line_def unat_of_nat)
    have r: "99 - length m = Suc (98 - length m)" using m by simp
    have "aput (command s') (idx s' - 1) c = Some ((m @ [c]) @ replicate (100 - length (m @ [c])) 0)"
      using b(2) i m by (simp add: snoc holds_line_def aput_def list_update_append)
    moreover have "0 \<notin> set (m @ [c])" using b(2) c by (simp add: snoc holds_line_def)
    then have "c_string ((m @ [c]) @ replicate (100 - length (m @ [c])) 0) = Some (m @ [c])"
      using m by (intro line_string) simp_all
    ultimately show ?thesis using run c \<open>1 < length keys\<close> by (simp add: sh2_key_def snoc)
  qed
qed

text \<open>\<open>abc\<close>, a backspace and \<open>d\<close> give \<open>ad\<close>.\<close>

theorem second_shell_backspace_witness:
  "\<exists>calls s. sh2_loop (\<lambda>_. 0) [97, 98, 99, 8, 100] \<lparr>command = replicate 100 0, idx = 0\<rparr> = Some (calls, s) \<and>
     c_string (command s) = Some [97, 100]"
  using second_shell_backspace [of "[97, 98, 99]" 100 "\<lambda>_. 0"] by (simp add: plain_keys_def)

end
