(* ===== verification/Cpu.thy ===== *)
theory Cpu
  imports Mem
begin

text \<open>
  The inline assembly of include/i386.h that theory \<open>Io\<close> does not model: the string and the wide port
  instructions, the control and segment registers, the translation cache, and \<open>pushad\<close> and \<open>popad\<close>.
  The state is that of the processor: its registers, memory, and what goes through the ports, with the
  width of each access in bytes. What a device answers is a list, as in \<open>Io\<close>.
\<close>

record cpu =
  r_eax :: u32
  r_ecx :: u32
  r_edx :: u32
  r_ebx :: u32
  r_esp :: u32
  r_ebp :: u32
  r_esi :: u32
  r_edi :: u32
  seg_cs :: u16
  seg_es :: u16
  seg_ds :: u16
  seg_fs :: u16
  seg_gs :: u16
  seg_ss :: u16
  c_cr0 :: u32
  c_cr1 :: u32
  c_cr2 :: u32
  c_cr3 :: u32
  c_cr4 :: u32
  c_tr :: u16
  c_idtr :: u32 \<comment> \<open>the address of the six bytes loaded\<close>
  c_tsc :: "64 word"
  c_halted :: bool
  tlb :: "u32 list" \<comment> \<open>the pages whose translation is cached\<close>
  mem :: ram
  port_out :: "(u16 \<times> nat \<times> u32) list"
  port_in :: "u32 list"

section \<open>Ports\<close>

definition outw :: "u32 \<Rightarrow> u16 \<Rightarrow> cpu \<Rightarrow> cpu" where
  "outw port data c = c\<lparr>port_out := port_out c @ [(ucast port, 2, ucast data)]\<rparr>"

definition outl :: "u32 \<Rightarrow> u32 \<Rightarrow> cpu \<Rightarrow> cpu" where
  "outl port data c = c\<lparr>port_out := port_out c @ [(ucast port, 4, data)]\<rparr>"

text \<open>A value of 1, 2 or 4 bytes in memory.\<close>

definition load :: "nat \<Rightarrow> u32 \<Rightarrow> ram \<Rightarrow> u32" where
  "load w a m = (if w = 1 then ucast (m a) else if w = 2 then ucast (m a) OR push_bit 8 (ucast (m (a + 1))) else rd32 m a)"

definition store :: "nat \<Rightarrow> u32 \<Rightarrow> u32 \<Rightarrow> ram \<Rightarrow> ram" where
  "store w a v m =
     (if w = 1 then m(a := ucast v)
      else if w = 2 then m(a := ucast v, a + 1 := ucast (drop_bit 8 v)) else wr32 m a v)"

text \<open>\<open>cld; rep outs\<close>: \<open>cnt\<close> values of \<open>w\<close> bytes, at increasing addresses.\<close>

primrec rep_outs :: "nat \<Rightarrow> u16 \<Rightarrow> u32 \<Rightarrow> nat \<Rightarrow> cpu \<Rightarrow> cpu" where
  "rep_outs w port addr 0 c = c"
| "rep_outs w port addr (Suc n) c =
     rep_outs w port (addr + of_nat w) n (c\<lparr>port_out := port_out c @ [(port, w, load w addr (mem c))]\<rparr>)"

definition outsb :: "u32 \<Rightarrow> u32 \<Rightarrow> u32 \<Rightarrow> cpu \<Rightarrow> cpu" where
  "outsb port addr cnt = rep_outs 1 (ucast port) addr (unat cnt)"

definition outsw :: "u32 \<Rightarrow> u32 \<Rightarrow> u32 \<Rightarrow> cpu \<Rightarrow> cpu" where
  "outsw port addr cnt = rep_outs 2 (ucast port) addr (unat cnt)"

definition outsl :: "u32 \<Rightarrow> u32 \<Rightarrow> u32 \<Rightarrow> cpu \<Rightarrow> cpu" where
  "outsl port addr cnt = rep_outs 4 (ucast port) addr (unat cnt)"

definition in_port :: "cpu \<Rightarrow> (u32 \<times> cpu) option" where
  "in_port c = (case port_in c of [] \<Rightarrow> None | v # vs \<Rightarrow> Some (v, c\<lparr>port_in := vs\<rparr>))"

definition inw :: "u32 \<Rightarrow> cpu \<Rightarrow> (u16 \<times> cpu) option" where
  "inw port c = map_option (\<lambda>(v, c). (ucast v, c)) (in_port c)"

definition inl :: "u32 \<Rightarrow> cpu \<Rightarrow> (u32 \<times> cpu) option" where
  "inl port c = in_port c"

primrec rep_ins :: "nat \<Rightarrow> u32 \<Rightarrow> nat \<Rightarrow> cpu \<Rightarrow> cpu option" where
  "rep_ins w addr 0 c = Some c"
| "rep_ins w addr (Suc n) c = do {
     (v, c) \<leftarrow> in_port c;
     rep_ins w (addr + of_nat w) n (c\<lparr>mem := store w addr v (mem c)\<rparr>) }"

definition insb :: "u32 \<Rightarrow> u32 \<Rightarrow> u32 \<Rightarrow> cpu \<Rightarrow> cpu option" where
  "insb port addr cnt = rep_ins 1 addr (unat cnt)"

definition insw :: "u32 \<Rightarrow> u32 \<Rightarrow> u32 \<Rightarrow> cpu \<Rightarrow> cpu option" where
  "insw port addr cnt = rep_ins 2 addr (unat cnt)"

definition insl :: "u32 \<Rightarrow> u32 \<Rightarrow> u32 \<Rightarrow> cpu \<Rightarrow> cpu option" where
  "insl port addr cnt = rep_ins 4 addr (unat cnt)"

section \<open>Control, task and segment registers\<close>

definition lidt :: "u32 \<Rightarrow> cpu \<Rightarrow> cpu" where "lidt p c = c\<lparr>c_idtr := p\<rparr>"
definition lcr0 :: "u32 \<Rightarrow> cpu \<Rightarrow> cpu" where "lcr0 v c = c\<lparr>c_cr0 := v\<rparr>"
definition rcr0 :: "cpu \<Rightarrow> u32" where "rcr0 c = c_cr0 c"
definition lcr2 :: "u32 \<Rightarrow> cpu \<Rightarrow> cpu" where "lcr2 v c = c\<lparr>c_cr2 := v\<rparr>"
definition rcr2 :: "cpu \<Rightarrow> u32" where "rcr2 c = c_cr2 c"
definition rcr3 :: "cpu \<Rightarrow> u32" where "rcr3 c = c_cr3 c"
definition lcr4 :: "u32 \<Rightarrow> cpu \<Rightarrow> cpu" where "lcr4 v c = c\<lparr>c_cr4 := v\<rparr>"
definition rcr4 :: "cpu \<Rightarrow> u32" where "rcr4 c = c_cr4 c"

text \<open>The processor has no \<open>cr1\<close>: an access is an invalid instruction.\<close>

definition lcr1 :: "u32 \<Rightarrow> cpu \<Rightarrow> cpu option" where "lcr1 v c = None"
definition rcr1 :: "cpu \<Rightarrow> u32 option" where "rcr1 c = None"

text \<open>A write to \<open>cr3\<close> empties the translation cache.\<close>

definition lcr3 :: "u32 \<Rightarrow> cpu \<Rightarrow> cpu" where "lcr3 v c = c\<lparr>c_cr3 := v, tlb := []\<rparr>"

definition tlbflush :: "cpu \<Rightarrow> cpu" where
  "tlbflush c = lcr3 (rcr3 c) c"

definition rcs :: "cpu \<Rightarrow> u32" where "rcs c = ucast (seg_cs c)"
definition res :: "cpu \<Rightarrow> u32" where "res c = ucast (seg_es c)"
definition rds :: "cpu \<Rightarrow> u32" where "rds c = ucast (seg_ds c)"
definition rfs :: "cpu \<Rightarrow> u32" where "rfs c = ucast (seg_fs c)"
definition rgs :: "cpu \<Rightarrow> u32" where "rgs c = ucast (seg_gs c)"
definition rss :: "cpu \<Rightarrow> u32" where "rss c = ucast (seg_ss c)"
definition ltr :: "u16 \<Rightarrow> cpu \<Rightarrow> cpu" where "ltr s c = c\<lparr>c_tr := s\<rparr>"
definition rtr :: "cpu \<Rightarrow> u16" where "rtr c = c_tr c"
definition read_tsc :: "cpu \<Rightarrow> 64 word" where "read_tsc c = c_tsc c"
definition resp :: "cpu \<Rightarrow> u32" where "resp c = r_esp c"
definition rebp :: "cpu \<Rightarrow> u32" where "rebp c = r_ebp c"
definition hlt :: "cpu \<Rightarrow> cpu" where "hlt c = c\<lparr>c_halted := True\<rparr>"

text \<open>\<open>xchg %bx, %bx\<close>.\<close>

definition breakpoint :: "cpu \<Rightarrow> cpu" where "breakpoint c = c\<lparr>r_ebx := r_ebx c\<rparr>"

section \<open>Saving the registers\<close>

datatype reg = EAX | ECX | EDX | EBX | ESP | EBP | ESI | EDI

fun get_reg :: "reg \<Rightarrow> 'a cpu_scheme \<Rightarrow> u32" where
  "get_reg EAX c = r_eax c" | "get_reg ECX c = r_ecx c" | "get_reg EDX c = r_edx c" | "get_reg EBX c = r_ebx c"
| "get_reg ESP c = r_esp c" | "get_reg EBP c = r_ebp c" | "get_reg ESI c = r_esi c" | "get_reg EDI c = r_edi c"

fun set_reg :: "reg \<Rightarrow> u32 \<Rightarrow> 'a cpu_scheme \<Rightarrow> 'a cpu_scheme" where
  "set_reg EAX v c = c\<lparr>r_eax := v\<rparr>" | "set_reg ECX v c = c\<lparr>r_ecx := v\<rparr>" | "set_reg EDX v c = c\<lparr>r_edx := v\<rparr>"
| "set_reg EBX v c = c\<lparr>r_ebx := v\<rparr>" | "set_reg ESP v c = c\<lparr>r_esp := v\<rparr>" | "set_reg EBP v c = c\<lparr>r_ebp := v\<rparr>"
| "set_reg ESI v c = c\<lparr>r_esi := v\<rparr>" | "set_reg EDI v c = c\<lparr>r_edi := v\<rparr>"

text \<open>\<open>push %esp\<close> stores the value before the push; \<open>pop %esp\<close> leaves the value read in the register.\<close>

definition push_reg :: "reg \<Rightarrow> 'a cpu_scheme \<Rightarrow> 'a cpu_scheme" where
  "push_reg r c = c\<lparr>r_esp := r_esp c - 4, mem := wr32 (mem c) (r_esp c - 4) (get_reg r c)\<rparr>"

definition pop_reg :: "reg \<Rightarrow> 'a cpu_scheme \<Rightarrow> 'a cpu_scheme" where
  "pop_reg r c = set_reg r (rd32 (mem c) (r_esp c)) (c\<lparr>r_esp := r_esp c + 4\<rparr>)"

text \<open>Both go through the registers in the same order.\<close>

definition pushad :: "cpu \<Rightarrow> cpu" where
  "pushad = fold push_reg [EAX, ECX, EDX, EBX, ESP, EBP, ESI, EDI]"

definition popad :: "cpu \<Rightarrow> cpu" where
  "popad = fold pop_reg [EAX, ECX, EDX, EBX, ESP, EBP, ESI, EDI]"

section \<open>Properties\<close>

lemma rep_outs_eq:
  "port_out (rep_outs w port addr n c) = port_out c @ map (\<lambda>i. (port, w, load w (addr + of_nat (w * i)) (mem c))) [0..<n]"
proof (induction n arbitrary: addr c)
  case (Suc n)
  have "[0..<Suc n] = 0 # map Suc [0..<n]" by (simp add: map_Suc_upt upt_conv_Cons)
  then show ?case by (simp add: Suc.IH algebra_simps o_def)
qed simp

lemma rep_ins_eq:
  "n \<le> length (port_in c) \<Longrightarrow> rep_ins w addr n c =
     Some (c\<lparr>port_in := drop n (port_in c),
       mem := fold (\<lambda>i. store w (addr + of_nat (w * i)) (port_in c ! i)) [0..<n] (mem c)\<rparr>)"
proof (induction n arbitrary: addr c)
  case (Suc n)
  then obtain v vs where v: "port_in c = v # vs" by (cases "port_in c") auto
  have "[0..<Suc n] = 0 # map Suc [0..<n]" by (simp add: map_Suc_upt upt_conv_Cons)
  then show ?case using Suc by (simp add: v in_port_def fold_map o_def algebra_simps)
qed simp

text \<open>Two words at least four bytes apart.\<close>

lemma rd32_wr32_apart:
  assumes "4 \<le> a - b" "a - b \<le> - 4"
  shows "rd32 (wr32 m a v) b = rd32 m b"
proof -
  have n: "b + j \<noteq> a + i" if "i \<in> {0, 1, 2, 3}" "j \<in> {0, 1, 2, 3}" for i j
  proof
    assume "b + j = a + i"
    then have "a - b = j - i" by (simp add: algebra_simps)
    with assms that show False by (auto simp: word_le_def unsigned_minus_1_eq_mask mask_eq_exp_minus_1)
  qed
  show ?thesis
    using n [of 0 0] n [of 1 0] n [of 2 0] n [of 3 0] n [of 0 1] n [of 1 1] n [of 2 1] n [of 3 1]
      n [of 0 2] n [of 1 2] n [of 2 2] n [of 3 2] n [of 0 3] n [of 1 3] n [of 2 3] n [of 3 3]
    by (simp add: rd32_def wr32_def)
qed

lemma stack_slot:
  assumes "4 \<le> j - i" "j - i \<le> - 4"
  shows "rd32 (wr32 m (s - i) v) (s - j) = rd32 m (s - j)"
  by (rule rd32_wr32_apart) (use assms in \<open>simp_all add: algebra_simps\<close>)

text \<open>\<open>popad\<close> does not undo \<open>pushad\<close>: it takes the registers from the stack in the order in which they were
  pushed. Three registers get the value of another, \<open>ebx\<close> that of the stack pointer, and the stack
  pointer that of \<open>ebx\<close>, from where the last three registers are then read.\<close>

theorem popad_scrambles_registers:
  "r_eax (popad (pushad c)) = r_edi c \<and> r_ecx (popad (pushad c)) = r_esi c \<and> r_edx (popad (pushad c)) = r_ebp c \<and>
   r_ebx (popad (pushad c)) = r_esp c - 16 \<and> r_esp (popad (pushad c)) = r_ebx c + 12 \<and>
   r_ebp (popad (pushad c)) = rd32 (mem (pushad c)) (r_ebx c) \<and>
   r_esi (popad (pushad c)) = rd32 (mem (pushad c)) (r_ebx c + 4) \<and>
   r_edi (popad (pushad c)) = rd32 (mem (pushad c)) (r_ebx c + 8)"
  by (simp add: popad_def pushad_def push_reg_def pop_reg_def stack_slot add.commute [of 8 "r_ebx c"])

end
