(* ===== verification/User.thy ===== *)
theory User
  imports Files
begin

text \<open>
  The user programs other than the shells, tasks/krypto.c, fork.c, pipe.c, cow.c, memoryd.c, file.c,
  exit.c, taskinit.c and init.c. A program is the tree of its system calls: each call has a
  continuation, from what the kernel answers to the rest of the program. The buffer of a \<open>read\<close> is the
  memory from the pointer on to the end of the array, and the continuation gets what is in it
  afterwards; what uninitialised arrays hold is an argument. \<open>U_fault\<close> is an access outside an array.
\<close>

section \<open>Programs\<close>

codatatype prog =
    U_fault
  | U_spin \<comment> \<open>\<open>while(1);\<close>\<close>
  | U_idle \<comment> \<open>\<open>while(1) hlt();\<close>\<close>
  | U_exit
  | U_open str u32 "u32 \<Rightarrow> prog"
  | U_read u32 str u32 "u32 \<times> str \<Rightarrow> prog"
  | U_write u32 str "u32 \<Rightarrow> prog"
  | U_seek u32 u32 "u32 \<Rightarrow> prog"
  | U_close u32 "u32 \<Rightarrow> prog"
  | U_pipe "u32 \<times> u32" "u32 \<times> u32 \<Rightarrow> prog" \<comment> \<open>the array before and after the call\<close>
  | U_fork "u32 \<Rightarrow> prog"
  | U_run str "u32 \<Rightarrow> prog"
  | U_getpid "u32 \<Rightarrow> prog"
  | U_palloc "u32 \<Rightarrow> prog"
  | U_share u32 "u32 \<Rightarrow> prog"
  | U_load u32 "u32 \<Rightarrow> prog" \<comment> \<open>the word at an address\<close>
  | U_store u32 u32 prog

text \<open>\<open>write(fd, array, n)\<close>.\<close>

definition u_write :: "u32 \<Rightarrow> str \<Rightarrow> u32 \<Rightarrow> (u32 \<Rightarrow> prog) \<Rightarrow> prog" where
  "u_write fd arr n p = (if unat n \<le> length arr then U_write fd (take (unat n) arr) p else U_fault)"

definition u_console :: str where "u_console = cstr ''/console''"
definition u_newline :: str where "u_newline = [10, 0]"
definition u_press_key :: str where "u_press_key = cstr ''Presione una tecla para continuar...''"

section \<open>krypto.c\<close>

definition KBUFF_SIZE :: u32 where "KBUFF_SIZE = 512"
definition CANT_READ :: nat where "CANT_READ = 7"

definition k_error :: str where "k_error = cstr ''No pudo abrirse el archivo.''"
definition k_opened :: str where
  "k_opened = map of_char ''Archivo y serial abiertos satisfactoriamente, presione una tecla. '' @ [10, 0]"
definition k_go_on :: str where "k_go_on = map of_char ''Continuamos...'' @ [10, 0]"

text \<open>The globals; \<open>pipeEW\<close> keeps its zeros, no call of \<open>pipe\<close> fills it.\<close>

record k_globals =
  k_fd :: u32
  k_file :: u32
  k_serial :: u32
  pipeRE :: "u32 \<times> u32"
  pipeEW :: "u32 \<times> u32"

primrec reader_loop :: "k_globals \<Rightarrow> nat \<Rightarrow> str \<Rightarrow> prog \<Rightarrow> prog" where
  "reader_loop g 0 buffer p = p"
| "reader_loop g (Suc n) buffer p =
     U_read (k_file g) buffer KBUFF_SIZE (\<lambda>(_, buffer).
     u_write (snd (pipeRE g)) buffer KBUFF_SIZE (\<lambda>_. reader_loop g n buffer p))"

definition reader :: "k_globals \<Rightarrow> str \<Rightarrow> prog \<Rightarrow> prog" where
  "reader g buffer p =
     U_close (fst (pipeRE g)) (\<lambda>_.
     reader_loop g CANT_READ buffer (
     U_close (k_file g) (\<lambda>_.
     U_close (snd (pipeRE g)) (\<lambda>_. p))))"

text \<open>The bytes are combined with the key, and go nowhere.\<close>

primrec encrypt_loop :: "k_globals \<Rightarrow> nat \<Rightarrow> str \<Rightarrow> prog \<Rightarrow> prog" where
  "encrypt_loop g 0 buffer p = p"
| "encrypt_loop g (Suc n) buffer p =
     U_read (fst (pipeRE g)) buffer KBUFF_SIZE (\<lambda>(_, buffer).
     encrypt_loop g n (map (\<lambda>b. b XOR 0xFA) buffer) p)"

definition encrpyt :: "k_globals \<Rightarrow> str \<Rightarrow> prog \<Rightarrow> prog" where
  "encrpyt g buffer p =
     U_close (fst (pipeEW g)) (\<lambda>_.
     U_close (k_serial g) (\<lambda>_.
     encrypt_loop g CANT_READ buffer (
     U_close (snd (pipeEW g)) (\<lambda>_.
     U_close (k_fd g) (\<lambda>_. p)))))"

primrec writer_loop :: "k_globals \<Rightarrow> nat \<Rightarrow> str \<Rightarrow> prog \<Rightarrow> prog" where
  "writer_loop g 0 buffer p = p"
| "writer_loop g (Suc n) buffer p =
     U_read (fst (pipeEW g)) buffer KBUFF_SIZE (\<lambda>(_, buffer).
     u_write (k_serial g) buffer KBUFF_SIZE (\<lambda>_. writer_loop g n buffer p))"

definition writer :: "k_globals \<Rightarrow> str \<Rightarrow> prog \<Rightarrow> prog" where
  "writer g buffer p =
     U_close (snd (pipeEW g)) (\<lambda>_.
     writer_loop g CANT_READ buffer (
     U_close (fst (pipeEW g)) (\<lambda>_.
     U_close (k_serial g) (\<lambda>_.
     U_close (k_fd g) (\<lambda>_. p)))))"

definition k_failed :: "u32 \<Rightarrow> str \<Rightarrow> prog" where
  "k_failed fd buf =
     u_write fd k_error 30 (\<lambda>_. u_write fd u_newline 1 (\<lambda>_. u_write fd u_press_key 36 (\<lambda>_.
     U_read fd buf 1 (\<lambda>_. U_exit))))"

text \<open>The end of \<open>main\<close>: \<open>while(1);\<close>.\<close>

definition k_finished :: "k_globals \<Rightarrow> prog" where
  "k_finished g = u_write (k_fd g) (cstr ''Finished!'') 9 (\<lambda>_. U_spin)"

text \<open>After the fork. \<open>b\<close> and \<open>b'\<close> are what the arrays of the calls hold at first.\<close>

definition krypto_parent :: "str \<Rightarrow> k_globals \<Rightarrow> prog" where
  "krypto_parent b g = U_close (k_serial g) (\<lambda>_. reader g b (k_finished g))"

definition krypto_child :: "str \<Rightarrow> str \<Rightarrow> k_globals \<Rightarrow> prog" where
  "krypto_child b b' g =
     U_close (snd (pipeRE g)) (\<lambda>_. U_close (k_file g) (\<lambda>_.
     encrpyt g b (encrpyt g b' (k_finished g))))"

definition krypto_main :: "str \<Rightarrow> str \<Rightarrow> str \<Rightarrow> prog" where
  "krypto_main b b' buf =
     U_open u_console 3 (\<lambda>fd.
     U_open (cstr ''/disk/KERNEL.BIN'') 3 (\<lambda>file.
     if file <s 0 then k_failed fd buf
     else U_open (cstr ''/serial0'') 3 (\<lambda>serial.
     if serial <s 0 then k_failed fd buf
     else u_write fd k_opened 47 (\<lambda>_. U_read fd buf 1 (\<lambda>_. u_write fd k_go_on 12 (\<lambda>_.
     U_pipe (0, 0) (\<lambda>re. U_fork (\<lambda>pid.
     let g = \<lparr>k_fd = fd, k_file = file, k_serial = serial, pipeRE = re, pipeEW = (0, 0)\<rparr>
     in if pid \<noteq> 0 then krypto_parent b g else krypto_child b b' g))))))))"

section \<open>fork.c\<close>

primrec fork_parent_loop :: "u32 \<Rightarrow> u32 \<Rightarrow> nat \<Rightarrow> str \<Rightarrow> (str \<Rightarrow> prog) \<Rightarrow> prog" where
  "fork_parent_loop fd file 0 buf p = p buf"
| "fork_parent_loop fd file (Suc n) buf p =
     U_read file buf 5 (\<lambda>(_, buf). u_write fd buf 5 (\<lambda>_. fork_parent_loop fd file n buf p))"

primrec fork_child_loop :: "u32 \<Rightarrow> u32 \<Rightarrow> nat \<Rightarrow> str \<Rightarrow> prog \<Rightarrow> prog" where
  "fork_child_loop fd file 0 buf p = p"
| "fork_child_loop fd file (Suc n) buf p =
     U_read file (drop 1 buf) 5 (\<lambda>(_, rest).
     let buf = (take 1 buf @ rest)[0 := 42, 6 := 42]
     in u_write fd buf 7 (\<lambda>_. fork_child_loop fd file n buf p))"

text \<open>\<open>i\<close> goes from 0 to 50 in steps of 5. \<open>buf\<close> is an array of seven bytes.\<close>

definition fork_main :: "str \<Rightarrow> prog" where
  "fork_main buf =
     U_open u_console 3 (\<lambda>fd.
     U_open (cstr ''/disk/LYRIC.TXT'') 3 (\<lambda>file.
     if file <s 0 then
       u_write fd (cstr ''Could not open file'') 19 (\<lambda>_. u_write fd u_newline 1 (\<lambda>_. u_write fd u_press_key 36 (\<lambda>_.
       U_read fd buf 1 (\<lambda>_. U_exit))))
     else U_fork (\<lambda>pid.
       if pid \<noteq> 0 then fork_parent_loop fd file 10 buf (\<lambda>buf. U_read fd buf 1 (\<lambda>_. U_exit))
       else fork_child_loop fd file 10 buf U_exit)))"

section \<open>pipe.c\<close>

definition p_text :: str where "p_text = cstr ''Puto el que lee...''"

text \<open>The writer: \<open>for (i = 0; i < 18; i += 4) write(pipes[1], &texto[i], 4)\<close>.\<close>

primrec pipe_parent_loop :: "u32 \<Rightarrow> nat list \<Rightarrow> prog \<Rightarrow> prog" where
  "pipe_parent_loop w [] p = p"
| "pipe_parent_loop w (i # is) p = u_write w (drop i p_text) 4 (\<lambda>_. pipe_parent_loop w is p)"

text \<open>The reader. Its two states are before a read and after it; \<open>pid\<close> is what the last read returned, and
  the buffer is an array of three pointers.\<close>

datatype pipe_child_pc = Ch_read (ch_i: u32) (ch_pid: u32) (ch_buf: str) | Ch_got (ch_i: u32) (ch_ret: "u32 \<times> str")

primcorec pipe_child :: "u32 \<Rightarrow> u32 \<Rightarrow> pipe_child_pc \<Rightarrow> prog" where
  "pipe_child con r s =
     (case s of
        Ch_read i pid buf \<Rightarrow>
          (if i <s 18 then U_read r buf 5 (\<lambda>x. pipe_child con r (Ch_got i x))
           else if pid \<noteq> 0 then U_read con buf 1 (\<lambda>_. U_exit) else U_exit)
      | Ch_got i x \<Rightarrow>
          (if unat (fst x) \<le> length (snd x)
           then U_write con (take (unat (fst x)) (snd x)) (\<lambda>_. pipe_child con r (Ch_read (i - (5 - fst x) + 1) (fst x) (snd x)))
           else U_fault))"

definition pipe_main :: "str \<Rightarrow> prog" where
  "pipe_main buf =
     U_open u_console 3 (\<lambda>con.
     U_pipe (15, 16) (\<lambda>(r, w). U_fork (\<lambda>pid.
     if pid \<noteq> 0 then
       U_close r (\<lambda>_. pipe_parent_loop w [0, 4, 8, 12, 16] (U_read con buf 1 (\<lambda>_. U_exit)))
     else U_close w (\<lambda>_. pipe_child con r (Ch_read 0 0 buf)))))"

section \<open>cow.c and memoryd.c\<close>

text \<open>\<open>global_addr\<close> is the address of the variable \<open>global\<close>.\<close>

definition cow_main :: "u32 \<Rightarrow> prog" where
  "cow_main global_addr =
     U_share 0x400f00 (\<lambda>_. U_fork (\<lambda>pid.
     if pid = 0 then U_store global_addr 12 (U_store 0x400f00 4 U_exit)
     else U_store global_addr 5 (U_store 0x400f00 9 U_exit)))"

text \<open>The loop over \<open>tmp\<close> has one round.\<close>

definition memoryd_main :: prog where
  "memoryd_main =
     U_palloc (\<lambda>p. U_store p 0 (U_share p (\<lambda>_. U_fork (\<lambda>pid.
     U_load p (\<lambda>v. U_store p (v + (if pid = 0 then 3 else 32)) U_exit)))))"

section \<open>file.c, exit.c, taskinit.c and init.c\<close>

definition file_main :: "str \<Rightarrow> prog" where
  "file_main buf =
     U_open u_console 3 (\<lambda>con. U_open (cstr ''/disk/LYRIC.TXT'') 3 (\<lambda>file.
     U_read file buf 20 (\<lambda>(_, buf). u_write con buf 20 (\<lambda>_. U_read con buf 1 (\<lambda>_. U_exit)))))"

definition exit_main :: "str \<Rightarrow> prog" where
  "exit_main buf =
     U_open u_console 3 (\<lambda>con.
     u_write con (cstr ''Hola mundo!'') 11 (\<lambda>_.
     u_write con u_newline 1 (\<lambda>_. u_write con u_newline 1 (\<lambda>_. u_write con u_newline 1 (\<lambda>_. u_write con u_newline 1 (\<lambda>_.
     u_write con (cstr ''Me muero...'') 11 (\<lambda>_. U_read con buf 1 (\<lambda>_. U_exit))))))))"

text \<open>The array \<open>command\<close> has fifteen characters and no NUL: what the kernel reads as the command goes on
  with what is behind it on the stack.\<close>

definition init_command :: str where "init_command = map of_char ''run console.pso''"

definition taskinit_main :: "str \<Rightarrow> prog" where
  "taskinit_main behind = U_run (init_command @ behind) (\<lambda>_. U_idle)"

definition init_main :: prog where "init_main = U_spin"

section \<open>Conversations\<close>

text \<open>The calls of a program, without their continuations, and what the kernel can answer: a result, the
  contents of a buffer after the call, two descriptors.\<close>

datatype ucall = C_open str u32 | C_read u32 u32 | C_write u32 str | C_seek u32 u32 | C_close u32 | C_pipe
  | C_fork | C_run str | C_getpid | C_palloc | C_share u32 | C_load u32 | C_store u32 u32

record answer =
  ans_st :: u32
  ans_buf :: str
  ans_fds :: "u32 \<times> u32"

fun u_ask :: "prog \<Rightarrow> ucall option" where
  "u_ask (U_open n fl p) = Some (C_open n fl)"
| "u_ask (U_read fd buf sz p) = Some (C_read fd sz)"
| "u_ask (U_write fd bs p) = Some (C_write fd bs)"
| "u_ask (U_seek fd pos p) = Some (C_seek fd pos)"
| "u_ask (U_close fd p) = Some (C_close fd)"
| "u_ask (U_pipe a p) = Some C_pipe"
| "u_ask (U_fork p) = Some C_fork"
| "u_ask (U_run c p) = Some (C_run c)"
| "u_ask (U_getpid p) = Some C_getpid"
| "u_ask (U_palloc p) = Some C_palloc"
| "u_ask (U_share a p) = Some (C_share a)"
| "u_ask (U_load a p) = Some (C_load a)"
| "u_ask (U_store a v p) = Some (C_store a v)"
| "u_ask _ = None"

fun u_answer :: "prog \<Rightarrow> answer \<Rightarrow> prog" where
  "u_answer (U_open n fl p) r = p (ans_st r)"
| "u_answer (U_read fd buf sz p) r = p (ans_st r, ans_buf r)"
| "u_answer (U_write fd bs p) r = p (ans_st r)"
| "u_answer (U_seek fd pos p) r = p (ans_st r)"
| "u_answer (U_close fd p) r = p (ans_st r)"
| "u_answer (U_pipe a p) r = p (ans_fds r)"
| "u_answer (U_fork p) r = p (ans_st r)"
| "u_answer (U_run c p) r = p (ans_st r)"
| "u_answer (U_getpid p) r = p (ans_st r)"
| "u_answer (U_palloc p) r = p (ans_st r)"
| "u_answer (U_share a p) r = p (ans_st r)"
| "u_answer (U_load a p) r = p (ans_st r)"
| "u_answer (U_store a v p) r = p"
| "u_answer p r = p"

text \<open>The calls a program makes when it is answered \<open>rs\<close>, and what is left of it.\<close>

primrec u_calls :: "answer list \<Rightarrow> prog \<Rightarrow> ucall list \<times> prog" where
  "u_calls [] p = ([], p)"
| "u_calls (r # rs) p =
     (case u_ask p of None \<Rightarrow> ([], p)
      | Some c \<Rightarrow> (let (cs, p') = u_calls rs (u_answer p r) in (c # cs, p')))"

end
