(* ===== verification/Dev_Types.thy ===== *)
theory Dev_Types
  imports Files
begin

text \<open>
  The types of the device structures. C has no types at run time: every structure starts with a
  header of function pointers, and a call on a descriptor goes through it with the address of the
  structure. That this is safe rests on the pointers of a structure of a kind being those of the kind. \<open>typed\<close>
  says so of every structure there is, and the lemmas here show that each operation of the kernel keeps it,
  in the form of a weakest precondition: \<open>holds Q m\<close> is "if the call returns, \<open>Q\<close> holds of its result".
\<close>

section \<open>The function tables\<close>

definition vtable :: "chardev \<Rightarrow> dev_fn option \<times> dev_fn option \<times> dev_fn option \<times> dev_fn option" where
  "vtable h = (fn_read h, fn_write h, fn_seek h, fn_flush h)"

text \<open>A pipe has a type for each of its two ends, with the letter in its field \<open>type\<close>. The global
  structure of the processor's information is all zeros until it is opened.\<close>

fun well_typed :: "obj \<Rightarrow> bool" where
  "well_typed (Con c) \<longleftrightarrow> vtable (con_dev c) = (Some Con_read, Some Con_write, None, Some Con_flush)"
| "well_typed (Serial s) \<longleftrightarrow> vtable (serial_dev s) = (Some Serial_read, Some Serial_write, None, Some Serial_flush)"
| "well_typed (Pipe p) \<longleftrightarrow>
     pipe_type p = 82 \<and> vtable (pipe_dev p) = (Some Pipe_read, None, None, Some Pipe_flush) \<or>
     pipe_type p = 87 \<and> vtable (pipe_dev p) = (None, Some Pipe_write, None, Some Pipe_flush)"
| "well_typed (File f) \<longleftrightarrow> vtable (file_dev f) = (Some File_read, Some File_write, Some File_seek, Some File_flush)"
| "well_typed (Cpuid c) \<longleftrightarrow> vtable (cpuid_chardev c) \<in> {(None, None, None, None), (Some Cpuid_read, None, None, Some Cpuid_flush)}"

definition typed_objs :: "(u32 \<Rightarrow> obj option) \<Rightarrow> bool" where
  "typed_objs m \<longleftrightarrow> (\<forall>a d. m a = Some d \<longrightarrow> well_typed d)"

abbreviation typed :: "'a devk_scheme \<Rightarrow> bool" where
  "typed k \<equiv> typed_objs (objs k)"

lemma typed_obj: "typed_objs m \<Longrightarrow> m a = Some d \<Longrightarrow> well_typed d"
  by (simp add: typed_objs_def)

lemma put_obj_objs [simp]: "objs (put_obj a d k) = (objs k)(a \<mapsto> d)"
  by (simp add: put_obj_def)

lemma well_typed_refcount [simp]: "well_typed (map_hdr (\<lambda>h. h\<lparr>refcount := f h\<rparr>) d) = well_typed d"
  by (cases d) (simp_all add: vtable_def)

section \<open>Preconditions\<close>

definition holds :: "('x \<Rightarrow> bool) \<Rightarrow> 'x option \<Rightarrow> bool" where
  "holds Q m \<longleftrightarrow> (\<forall>x. m = Some x \<longrightarrow> Q x)"

named_theorems keeps \<open>the calls that keep the structures typed\<close>

lemma typed_upd [simp, keeps]: "typed_objs m \<Longrightarrow> well_typed d \<Longrightarrow> typed_objs (m(a \<mapsto> d))"
  by (simp add: typed_objs_def)

lemma typed_drop [simp, keeps]: "typed_objs m \<Longrightarrow> typed_objs (m(a := None))"
  by (simp add: typed_objs_def)

lemma holds_simps [simp]: "holds Q None" "holds Q (Some x) \<longleftrightarrow> Q x"
  by (simp_all add: holds_def)

lemma holds_bind [keeps]: "holds (\<lambda>x. holds Q (f x)) m \<Longrightarrow> holds Q (m \<bind> f)"
  by (auto simp: holds_def split: bind_splits)

lemma holds_any: "(\<And>x. m = Some x \<Longrightarrow> Q x) \<Longrightarrow> holds Q m"
  by (simp add: holds_def)

lemma holds_weaken: "holds R m \<Longrightarrow> (\<And>x. R x \<Longrightarrow> Q x) \<Longrightarrow> holds Q m"
  by (simp add: holds_def)

lemma holdsD: "holds Q m \<Longrightarrow> m = Some x \<Longrightarrow> Q x"
  by (simp add: holds_def)

text \<open>From a statement about \<open>typed\<close> alone to a rule for any postcondition.\<close>

lemma keepsI:
  assumes "holds typed m" "\<And>k. typed k \<Longrightarrow> Q k" shows "holds Q m"
  using assms by (rule holds_weaken)

lemma keepsI2:
  assumes "holds (\<lambda>(r, k). typed k) m" "\<And>r k. typed k \<Longrightarrow> Q (r, k)" shows "holds Q m"
  using assms(1) by (rule holds_weaken) (use assms(2) in auto)

lemma keepsI3:
  assumes "holds (\<lambda>(r, s, k). typed k) m" "\<And>r s k. typed k \<Longrightarrow> Q (r, s, k)" shows "holds Q m"
  using assms(1) by (rule holds_weaken) (use assms(2) in auto)

text \<open>A part of a call that returns no state.\<close>

lemma pure [keeps]:
  "(\<And>x. Q x) \<Longrightarrow> holds Q (aget xs i)" "(\<And>y. R y) \<Longrightarrow> holds R (aput xs i z)" "(\<And>y. R y) \<Longrightarrow> holds R (amod xs i f)"
  "(\<And>x. Q x) \<Longrightarrow> holds Q (nget xs j)" "(\<And>y. R y) \<Longrightarrow> holds R (nput xs j z)"
  by (simp_all add: holds_def)

lemma pure_queues [keeps]:
  "(\<And>y. R y) \<Longrightarrow> holds R (set_q_next p v tt)" "(\<And>y. R y) \<Longrightarrow> holds R (set_q_prev p v tt)"
  "(\<And>y. S y) \<Longrightarrow> holds S (sched_tick s)" "(\<And>y. S y) \<Longrightarrow> holds S (sched_block s)"
  "(\<And>y. T y) \<Longrightarrow> holds T (sched_unblock p s)" "(\<And>y. S y) \<Longrightarrow> holds S (sched_exit s)"
  by (simp_all add: holds_def)

lemma for_range_typed [keeps]:
  fixes s :: "'a devk_scheme"
  assumes "typed s" "\<And>i s. typed s \<Longrightarrow> holds typed (f i s)" "\<And>s. typed s \<Longrightarrow> Q s"
  shows "holds Q (for_range i n f s)"
  using assms(1)
proof (induction "n - i" arbitrary: i s)
  case 0
  then show ?case using assms(3) by simp
next
  case (Suc m)
  then have i: "i < n" "m = n - Suc i" by auto
  have "holds typed (f i s)" by (rule assms(2) [OF Suc.prems])
  then have "holds (\<lambda>t. holds Q (for_range (Suc i) n f t)) (f i s)"
    by (rule holds_weaken) (rule Suc.hyps(1) [OF i(2)])
  then show ?case by (simp add: for_range_step [OF i(1)] holds_bind)
qed

section \<open>Scheduler and loader\<close>

lemma kern_keeps [keeps]:
  fixes k :: "'a devk_scheme"
  assumes "typed k"
  shows "(\<And>k. typed k \<Longrightarrow> Q k) \<Longrightarrow> holds Q (register_syscall n h k)"
    and "(\<And>r k. typed k \<Longrightarrow> R (r, k)) \<Longrightarrow> holds R (get_new_pid k)"
    and "(\<And>k. typed k \<Longrightarrow> Q k) \<Longrightarrow> holds Q (free_pid p k)"
    and "(\<And>k. typed k \<Longrightarrow> Q k) \<Longrightarrow> holds Q (loader_switchto p k)"
    and "(\<And>r k. typed k \<Longrightarrow> R (r, k)) \<Longrightarrow> holds R (new_process d k)"
    and "(\<And>k. typed k \<Longrightarrow> Q k) \<Longrightarrow> holds Q (start_process p k)"
  using assms by (auto simp: holds_def register_syscall_def get_new_pid_def free_pid_def loader_switchto_def
      new_process_def start_process_def split: bind_splits)

lemma queue_keeps [keeps]:
  fixes k :: "'a devk_scheme"
  assumes "typed k"
  shows "(\<And>k. typed k \<Longrightarrow> Q k) \<Longrightarrow> holds Q (loader_tick k)"
    and "(\<And>r k. typed k \<Longrightarrow> R (r, k)) \<Longrightarrow> holds R (loader_enqueue c k)"
    and "(\<And>r k. typed k \<Longrightarrow> R (r, k)) \<Longrightarrow> holds R (loader_unqueue c k)"
  using assms by (auto simp: loader_tick_def loader_enqueue_def loader_unqueue_def
      intro!: keeps split: option.splits)

lemma sem_keeps [keeps]:
  fixes k :: "'a devk_scheme"
  assumes "typed k"
  shows "(\<And>r k. typed k \<Longrightarrow> R (r, k)) \<Longrightarrow> holds R (sem_wait s k)"
    and "(\<And>r k. typed k \<Longrightarrow> R (r, k)) \<Longrightarrow> holds R (sem_signal s k)"
  using assms by (auto simp: sem_wait_def sem_signal_def intro!: keeps)

section \<open>Memory\<close>

lemma put32_objs [simp]: "objs (put32 a v k) = objs k"
  by (simp add: put32_def)

lemma mem_keeps [keeps]:
  fixes k :: "'a devk_scheme"
  assumes "typed k"
  shows "(\<And>r k. typed k \<Longrightarrow> R (r, k)) \<Longrightarrow> holds R (mm_mem_alloc k)"
    and "(\<And>r k. typed k \<Longrightarrow> R (r, k)) \<Longrightarrow> holds R (mm_mem_kalloc k)"
    and "(\<And>k. typed k \<Longrightarrow> Q k) \<Longrightarrow> holds Q (mm_mem_free a k)"
    and "(\<And>k. typed k \<Longrightarrow> Q k) \<Longrightarrow> holds Q (vput a b k)"
  using assms by (auto simp: holds_def mm_mem_alloc_def mm_mem_kalloc_def mm_mem_free_def vput_def Let_def
      split: bind_splits if_splits)

lemma map_keeps [keeps]:
  fixes k :: "'a devk_scheme"
  assumes "typed k"
  shows "(\<And>r k. typed k \<Longrightarrow> R (r, k)) \<Longrightarrow> holds R (mm_page_map v d f s a k)"
    and "(\<And>r k. typed k \<Longrightarrow> R (r, k)) \<Longrightarrow> holds R (mm_dir_new k)"
proof -
  have m: "holds R (mm_page_map v d f s a k)" if "typed k" "\<And>r k. typed k \<Longrightarrow> R (r, k)"
    for R v d f s a and k :: "'a devk_scheme"
    using that by (auto simp: mm_page_map_def Let_def intro!: keeps)
  show "(\<And>r k. typed k \<Longrightarrow> R (r, k)) \<Longrightarrow> holds R (mm_page_map v d f s a k)" by (rule m [OF assms])
  show "(\<And>r k. typed k \<Longrightarrow> R (r, k)) \<Longrightarrow> holds R (mm_dir_new k)"
    using assms by (auto simp: mm_dir_new_def intro!: keeps m)
qed

lemma pair_keeps:
  fixes k :: "'a devk_scheme"
  shows "objs (snd (mm_page_free v d k)) = objs k" "objs (snd (mm_share_page v k)) = objs k"
  by (simp_all add: mm_page_free_def mm_share_page_def Let_def)

lemma vpush_keeps [keeps]:
  fixes k :: "'a devk_scheme"
  shows "typed k \<Longrightarrow> (\<And>k. typed k \<Longrightarrow> Q k) \<Longrightarrow> holds Q (vpush a ws k)"
  by (induction ws arbitrary: a k) (auto simp: vput32_def intro!: keeps)

lemma free_keeps [keeps]:
  fixes k :: "'a devk_scheme"
  assumes "typed k"
  shows "(\<And>k. typed k \<Longrightarrow> Q k) \<Longrightarrow> holds Q (mm_table_free t i k)"
    and "(\<And>k. typed k \<Longrightarrow> Q k) \<Longrightarrow> holds Q (mm_dir_free d k)"
proof -
  have t: "holds Q (mm_table_free t i k)" if "typed k" "\<And>k. typed k \<Longrightarrow> Q k"
    for Q t i and k :: "'a devk_scheme"
    using that by (auto simp: mm_table_free_def Let_def intro!: keeps holds_any [of "mm_times_mapped _ _ _ _"])
  show "(\<And>k. typed k \<Longrightarrow> Q k) \<Longrightarrow> holds Q (mm_table_free t i k)" by (rule t [OF assms])
  show "(\<And>k. typed k \<Longrightarrow> Q k) \<Longrightarrow> holds Q (mm_dir_free d k)"
    using assms by (auto simp: mm_dir_free_def mm_dir_free_body_def Let_def intro!: keeps t)
qed

lemma fork_keeps [keeps]:
  fixes k :: "'a devk_scheme"
  assumes "typed k"
  shows "(\<And>r k. typed k \<Longrightarrow> R (r, k)) \<Longrightarrow> holds R (mm_page_fork t u k)"
    and "(\<And>r k. typed k \<Longrightarrow> R (r, k)) \<Longrightarrow> holds R (mm_dir_fork d k)"
    and "(\<And>r k. typed k \<Longrightarrow> R (r, k)) \<Longrightarrow> holds R (mm_copy_vf v f n k)"
proof -
  have p: "holds R (mm_page_fork t u k)" if "typed k" "\<And>r k. typed k \<Longrightarrow> R (r, k)"
    for R t u and k :: "'a devk_scheme"
    using that by (auto simp: mm_page_fork_def Let_def intro!: keeps)
  show "(\<And>r k. typed k \<Longrightarrow> R (r, k)) \<Longrightarrow> holds R (mm_page_fork t u k)" by (rule p [OF assms])
  have l: "holds R (dir_fork_loop d e i k)" if "typed k" "\<And>r k. typed k \<Longrightarrow> R (r, k)"
    for R d e i and k :: "'a devk_scheme"
    using that(1)
  proof (induction "TABLE_ENTRY_NUM - i" arbitrary: i k rule: less_induct)
    case less
    have "holds R (dir_fork_loop d e (Suc i) k)" if "i < TABLE_ENTRY_NUM" "typed k" for k :: "'a devk_scheme"
      by (rule less.hyps) (use that in auto)
    then show ?case using less.prems
      by (subst dir_fork_loop.simps) (auto simp: Let_def that(2) intro!: keeps p)
  qed
  show "(\<And>r k. typed k \<Longrightarrow> R (r, k)) \<Longrightarrow> holds R (mm_dir_fork d k)"
    using assms by (auto simp: mm_dir_fork_def intro!: keeps l)
  show "(\<And>r k. typed k \<Longrightarrow> R (r, k)) \<Longrightarrow> holds R (mm_copy_vf v f n k)"
    using assms by (auto simp: mm_copy_vf_def Let_def pair_keeps case_prod_beta
        intro!: keeps holds_any [of "vget _ _"])
qed

lemma palloc_objs:
  fixes k :: "'a devk_scheme"
  shows "objs (snd (sys_palloc k)) = objs k"
proof -
  have t: "palloc_table t i j k = Some r \<Longrightarrow> objs (snd r) = objs k" for t i j r and k :: "'a devk_scheme"
  proof (induction t i j k rule: palloc_table.induct)
    case (1 t i j k)
    from 1(2) show ?case using 1(1) [OF _ refl]
      by (subst (asm) palloc_table.simps) (auto simp: Let_def split: if_splits)
  qed
  have "objs (snd (palloc_dir d i k)) = objs k" for d i and k :: "'a devk_scheme"
  proof (induction d i k rule: palloc_dir.induct)
    case (1 d i k)
    then show ?case
      by (subst palloc_dir.simps) (auto simp: Let_def t split: option.splits)
  qed
  then show ?thesis by (simp add: sys_palloc_def)
qed

lemma cow_keeps [keeps]:
  fixes k :: "'a devk_scheme"
  shows "typed k \<Longrightarrow> (\<And>r k. typed k \<Longrightarrow> R (r, k)) \<Longrightarrow> holds R (mm_copy_on_write_page a i j k)"
  by (auto simp: mm_copy_on_write_page_def Let_def intro!: keeps holds_any [of "mm_times_mapped _ _ _ _"])

lemma fault_keeps [keeps]:
  fixes k :: "'a devk_scheme"
  assumes "typed k"
  shows "holds (pred_fault_outcome typed) (isr_page_fault_c cr2 e k)"
proof -
  have d: "holds (pred_fault_outcome typed) (fault_directory a k)" for a
    using assms by (auto simp: fault_directory_def debug_kernelpanic_def Let_def intro!: keeps)
  have t: "holds (pred_fault_outcome typed) (fault_table a e k)" if "typed k" for a e and k :: "'a devk_scheme"
    using that by (auto simp: fault_table_def Let_def intro!: keeps)
  show ?thesis
    unfolding isr_page_fault_c_def
    by (rule holds_bind, rule holds_weaken [OF d]) (auto intro!: t split: fault_outcome.splits)
qed

section \<open>Processes\<close>

lemma add_ref_keeps [keeps]:
  "typed k \<Longrightarrow> (\<And>k. typed k \<Longrightarrow> Q k) \<Longrightarrow> holds Q (add_ref n a k)"
  by (auto simp: add_ref_def typed_obj [of "objs k" a] intro!: keeps holds_any [of "objs k a"])

lemma pure_descriptors [keeps]:
  "(\<And>y. R y) \<Longrightarrow> holds R (fd_put cd p fd dev)" "(\<And>y. S y) \<Longrightarrow> holds S (fd_get cd p fd)"
  "(\<And>y. S y) \<Longrightarrow> holds S (get_next_free_fd_for_current_task k)"
  by (simp_all add: holds_def)

lemma descriptor_keeps [keeps]:
  assumes "typed k"
  shows "(\<And>r k. typed k \<Longrightarrow> R (r, k)) \<Longrightarrow> holds R (device_descriptor dev k)"
    and "(\<And>k. typed k \<Longrightarrow> Q k) \<Longrightarrow> holds Q (device_fork_descriptors p1 p2 k)"
  using assms by (auto simp: device_descriptor_def device_fork_descriptors_def intro!: keeps)

lemma process_keeps [keeps]:
  fixes k :: "'a devk_scheme"
  assumes "typed k"
  shows "(\<And>r k. typed k \<Longrightarrow> R (r, k)) \<Longrightarrow> holds R (loader_load task_ret f pl k)"
    and "(\<And>r k. typed k \<Longrightarrow> R (r, k)) \<Longrightarrow> holds R (sys_fork fork_ret eip esp k)"
    and "(\<And>k. typed k \<Longrightarrow> Q k) \<Longrightarrow> holds Q (loader_switchto_exit p c k)"
  using assms by (auto simp: loader_load_def sys_fork_def loader_switchto_exit_def Let_def case_prod_beta pair_keeps
      simp del: vpush.simps intro!: keeps)

section \<open>Consoles\<close>

lemma io_objs [simp]:
  fixes k :: "'a devk_scheme"
  shows "objs (outb p b k) = objs k" "objs (cli k) = objs k" "objs (sti k) = objs k" "objs (mod_ram f k) = objs k"
  by (simp_all add: outb_def cli_def sti_def mod_ram_def)

lemma inb_keeps [keeps]:
  fixes k :: "'a devk_scheme"
  shows "typed k \<Longrightarrow> (\<And>r k. typed k \<Longrightarrow> R (r, k)) \<Longrightarrow> holds R (inb_port p k)"
  by (auto simp: inb_port_def split: list.splits)

lemma get_con_keeps [keeps]:
  "(\<And>c. objs k a = Some (Con c) \<Longrightarrow> R c) \<Longrightarrow> holds R (get_con k a)"
  by (auto simp: get_con_def split: option.splits obj.splits)

lemma typed_con:
  "typed k \<Longrightarrow> objs k a = Some (Con c) \<Longrightarrow> vtable (con_dev c) = (Some Con_read, Some Con_write, None, Some Con_flush)"
  by (drule (1) typed_obj) simp

lemma mod_con_keeps [keeps]:
  "typed k \<Longrightarrow> (\<And>c. con_dev (f c) = con_dev c) \<Longrightarrow> (\<And>k. typed k \<Longrightarrow> Q k) \<Longrightarrow> holds Q (mod_con a f k)"
  by (auto simp: mod_con_def typed_con intro!: keeps)

lemma vga_keeps [keeps]:
  "(\<And>r. R r) \<Longrightarrow> holds R (vga_write_in_memory a f c m st n r)" "(\<And>r. R r) \<Longrightarrow> holds R (vga_printf x y m st as r)"
  "(\<And>r. R r) \<Longrightarrow> holds R (vga_write x y m st r)"
  by (simp_all add: holds_def)

lemma console_keeps [keeps]:
  fixes k :: "'a conk_scheme"
  assumes "typed k"
  shows "(\<And>k. typed k \<Longrightarrow> Q k) \<Longrightarrow> holds Q (move_to_right_console k)"
    and "(\<And>k. typed k \<Longrightarrow> Q k) \<Longrightarrow> holds Q (move_to_left_console k)"
    and "(\<And>k. typed k \<Longrightarrow> Q k) \<Longrightarrow> holds Q (con_link a k)"
    and "(\<And>k. typed k \<Longrightarrow> Q k) \<Longrightarrow> holds Q (con_unlink a k)"
    and "(\<And>k. typed k \<Longrightarrow> Q k) \<Longrightarrow> holds Q (write_in_console a m st n k)"
    and "(\<And>k. typed k \<Longrightarrow> Q k) \<Longrightarrow> holds Q (con_scroll a k)"
  using assms by (auto simp: move_to_right_console_def move_to_left_console_def con_link_def con_unlink_def
      write_in_console_def con_scroll_def Let_def intro!: keeps)

lemma con_put_keeps [keeps]:
  fixes k :: "'a conk_scheme"
  shows "typed k \<Longrightarrow> (\<And>k. typed k \<Longrightarrow> Q k) \<Longrightarrow> holds Q (con_put a b k)"
  by (auto simp: con_put_def intro!: keeps)

lemma con_write_keeps [keeps]:
  fixes k :: "'a conk_scheme"
  assumes "typed k" shows "(\<And>r k. typed k \<Longrightarrow> R (r, k)) \<Longrightarrow> holds R (con_write this bs k)"
proof -
  have "holds R (con_write_loop this v l bs n k)" if "typed k" "\<And>r k. typed k \<Longrightarrow> R (r, k)"
    for v l n and k :: "'a conk_scheme" and R
    using that(1) by (induction bs arbitrary: n k) (auto simp: that(2) intro!: keeps)
  then show "(\<And>r k. typed k \<Longrightarrow> R (r, k)) \<Longrightarrow> holds R (con_write this bs k)"
    using assms by (auto simp: con_write_def intro!: keeps)
qed

lemma new_console_typed [simp]: "well_typed (Con new_console)"
  by (simp add: new_console_def vtable_def)

lemma con_open_keeps [keeps]:
  fixes k :: "'a conk_scheme"
  assumes "typed k"
  shows "(\<And>r k. typed k \<Longrightarrow> R (r, k)) \<Longrightarrow> holds R (con_open k)"
    and "(\<And>r k. typed k \<Longrightarrow> R (r, k)) \<Longrightarrow> holds R (con_flush this k)"
  using assms by (auto simp: con_open_def con_flush_def move_to_empty_console_def simp del: well_typed.simps
      intro!: keeps)

lemma con_read_keeps [keeps]:
  fixes k :: "'a conk_scheme"
  assumes "typed k"
  shows "holds (pred_con_res typed) (con_read_rest this sz k)" and "holds (pred_con_res typed) (con_read this sz k)"
proof -
  have t: "holds R (con_take this n k)" if "typed k" "\<And>r k. typed k \<Longrightarrow> R (r, k)"
    for R n and k :: "'a conk_scheme"
    using that by (induction n arbitrary: R k) (auto intro!: keeps)
  have r: "holds (pred_con_res typed) (con_read_rest this sz k)" if "typed k" for k :: "'a conk_scheme"
    using that by (auto simp: con_read_rest_def intro!: keeps t)
  show "holds (pred_con_res typed) (con_read_rest this sz k)" by (rule r [OF assms])
  show "holds (pred_con_res typed) (con_read this sz k)"
    using assms by (auto simp: con_read_def intro!: keeps r)
qed

lemma keyboard_keeps [keeps]:
  fixes k :: "'a conk_scheme"
  assumes "typed k" shows "(\<And>k. typed k \<Longrightarrow> Q k) \<Longrightarrow> holds Q (isr_keyboard_c k)"
proof -
  have g: "objs (snd (getc c k)) = objs k" for c and k :: "'a conk_scheme"
    by (simp add: getc_def split: option.splits)
  have "holds Q (con_store c k)" if "typed k" "\<And>k. typed k \<Longrightarrow> Q k" for Q c and k :: "'a conk_scheme"
    using that by (auto simp: con_store_def Let_def intro!: keeps)
  then have "holds Q (console_keyPressed c k)" if "typed k" "\<And>k. typed k \<Longrightarrow> Q k" for Q c and k :: "'a conk_scheme"
    using that by (auto simp: console_keyPressed_def Let_def case_prod_beta g intro!: keeps)
  then show "(\<And>k. typed k \<Longrightarrow> Q k) \<Longrightarrow> holds Q (isr_keyboard_c k)"
    using assms by (auto simp: isr_keyboard_c_def intro!: keeps)
qed

section \<open>Pipes\<close>

lemma get_pipe_keeps [keeps]:
  "(\<And>p. objs k a = Some (Pipe p) \<Longrightarrow> R p) \<Longrightarrow> holds R (get_pipe k a)"
  by (auto simp: get_pipe_def split: option.splits obj.splits)

lemma typed_pipe:
  assumes "typed k" "objs k a = Some (Pipe p)" "pipe_type p' = pipe_type p" "vtable (pipe_dev p') = vtable (pipe_dev p)"
  shows "well_typed (Pipe p')"
  using typed_obj [OF assms(1,2)] assms(3,4) by simp

lemma mod_pipe_keeps [keeps]:
  assumes "typed k" "\<And>p. pipe_type (f p) = pipe_type p" "\<And>p. pipe_dev (f p) = pipe_dev p" "\<And>k. typed k \<Longrightarrow> Q k"
  shows "holds Q (mod_pipe a f k)"
proof -
  have "typed (put_obj a (Pipe (f p)) k)" if "objs k a = Some (Pipe p)" for p
    using typed_pipe [OF assms(1) that, of "f p"] assms by (simp del: well_typed.simps)
  then show ?thesis using assms(4) by (auto simp: mod_pipe_def simp del: put_obj_objs intro!: keeps)
qed

lemma pipe_sem_keeps [keeps]:
  assumes "typed k"
  shows "(\<And>k. typed k \<Longrightarrow> Q k) \<Longrightarrow> holds Q (pipe_signal a k)"
    and "(\<And>r k. typed k \<Longrightarrow> R (r, k)) \<Longrightarrow> holds R (pipe_wait a k)"
proof -
  have put: "typed (put_obj a (Pipe (p\<lparr>pipe_sem := s\<rparr>)) k')" if "objs k a = Some (Pipe p)" "typed k'" for p s k'
    using typed_pipe [OF assms that(1), of "p\<lparr>pipe_sem := s\<rparr>"] that(2) by (simp del: well_typed.simps)
  show "(\<And>k. typed k \<Longrightarrow> Q k) \<Longrightarrow> holds Q (pipe_signal a k)" and
    "(\<And>r k. typed k \<Longrightarrow> R (r, k)) \<Longrightarrow> holds R (pipe_wait a k)"
    using assms by (auto simp: pipe_signal_def pipe_wait_def put simp del: well_typed.simps put_obj_objs intro!: keeps)
qed

lemma pipe_read_keeps:
  assumes "typed k"
  shows "holds (pred_pipe_res typed) (pipe_read_rest this sz k)"
    and "holds (pred_pipe_res typed) (pipe_read_woken this sz k)"
    and "holds (pred_pipe_res typed) (pipe_read_locked this sz k)"
    and "holds (pred_pipe_res typed) (pipe_read this sz k)"
proof -
  have t: "holds R (pipe_take this n k)" if "typed k" "\<And>r k. typed k \<Longrightarrow> R (r, k)"
    for R n and k :: "'a devk_scheme"
    using that by (induction n arbitrary: R k) (auto intro!: keeps)
  have f: "holds (pred_pipe_res typed) (pipe_read_finish this n k)" if "typed k" for n and k :: "'a devk_scheme"
    using that by (auto simp: pipe_read_finish_def Let_def intro!: keeps t)
  have r: "holds (pred_pipe_res typed) (pipe_read_rest this sz k)" if "typed k" for k :: "'a devk_scheme"
    using that by (auto simp: pipe_read_rest_def intro!: keeps f)
  have w: "holds (pred_pipe_res typed) (pipe_read_woken this sz k)" if "typed k" for k :: "'a devk_scheme"
    using that by (auto simp: pipe_read_woken_def intro!: keeps r)
  have l: "holds (pred_pipe_res typed) (pipe_read_locked this sz k)" if "typed k" for k :: "'a devk_scheme"
    using that by (auto simp: pipe_read_locked_def intro!: keeps f w)
  show "holds (pred_pipe_res typed) (pipe_read_rest this sz k)" by (rule r [OF assms])
  show "holds (pred_pipe_res typed) (pipe_read_woken this sz k)" by (rule w [OF assms])
  show "holds (pred_pipe_res typed) (pipe_read_locked this sz k)" by (rule l [OF assms])
  show "holds (pred_pipe_res typed) (pipe_read this sz k)"
    using assms by (auto simp: pipe_read_def intro!: keeps l)
qed

lemma pipe_put_keeps [keeps]:
  "typed k \<Longrightarrow> (\<And>k. typed k \<Longrightarrow> Q k) \<Longrightarrow> holds Q (pipe_put this b k)"
  by (auto simp: pipe_put_def intro!: keeps)

lemma pipe_write_keeps:
  assumes "typed k"
  shows "holds (pred_pipe_res typed) (pipe_write_loop this sz bs k)"
    and "holds (pred_pipe_res typed) (pipe_write this bs k)"
proof -
  have l: "holds (pred_pipe_res typed) (pipe_write_loop this sz bs k)" if "typed k" for sz bs and k :: "'a devk_scheme"
    using that by (induction bs arbitrary: k) (auto intro!: keeps)
  show "holds (pred_pipe_res typed) (pipe_write_loop this sz bs k)" by (rule l [OF assms])
  show "holds (pred_pipe_res typed) (pipe_write this bs k)"
    using assms by (auto simp: pipe_write_def intro!: keeps l)
qed

lemma pipe_resume_keeps:
  assumes "typed k" shows "holds (pred_pipe_res typed) (pipe_resume pc k)"
  using assms by (cases pc) (auto intro!: keeps pipe_read_keeps pipe_write_keeps split: list.splits)

lemma pipe_open_keeps [keeps]:
  assumes "typed k"
  shows "(\<And>r k. typed k \<Longrightarrow> R (r, k)) \<Longrightarrow> holds R (pipe_flush this k)"
    and "(\<And>r s k. typed k \<Longrightarrow> S (r, s, k)) \<Longrightarrow> holds S (sys_pipe k)"
proof -
  have f: "holds R (pipe_flush this k)" if "typed k" "\<And>r k. typed k \<Longrightarrow> R (r, k)"
    for R this and k :: "'a devk_scheme"
    using that by (auto simp: pipe_flush_def intro!: keeps)
  show "(\<And>r k. typed k \<Longrightarrow> R (r, k)) \<Longrightarrow> holds R (pipe_flush this k)" by (rule f [OF assms])
  have o: "holds R (pipe_open k)" if "typed k" "\<And>r s t k. typed k \<Longrightarrow> R (r, s, t, k)" for R and k :: "'a devk_scheme"
    using that by (auto simp: pipe_open_def Let_def vtable_def intro!: keeps)
  show "(\<And>r s k. typed k \<Longrightarrow> S (r, s, k)) \<Longrightarrow> holds S (sys_pipe k)"
    using assms by (auto simp: sys_pipe_def intro!: keeps f o)
qed

section \<open>Serial ports and the timer\<close>

lemma fold_objs:
  fixes k :: "'a devk_scheme"
  assumes "\<And>x k. objs (f x k) = objs (k :: 'a devk_scheme)" shows "objs (fold f xs k) = objs k"
  using assms by (induction xs arbitrary: k) simp_all

lemma wait_transmit_keeps [keeps]:
  fixes k :: "'a devk_scheme"
  assumes "typed k" "\<And>k. typed k \<Longrightarrow> Q k" shows "holds Q (wait_transmit p k)"
proof -
  have "typed k \<longrightarrow> typed k'" if "wait_transmit p k = Some k'" for k'
  proof (rule wait_transmit.raw_induct [where P = "\<lambda>p k k'. typed k \<longrightarrow> typed k'", OF _ that], goal_cases)
    case (1 w p k k')
    have "holds typed (w p k)" if "typed k" for k by (rule holds_any) (use 1(1) that in blast)
    then show ?case
      by (intro impI, intro holdsD [OF _ 1(2), of typed]) (auto simp: is_transmit_empty_def intro!: keeps)
  qed
  then show ?thesis using assms by (auto intro: holds_any)
qed

lemma serial_keeps [keeps]:
  fixes k :: "'a devk_scheme"
  assumes "typed k"
  shows "(\<And>r k. typed k \<Longrightarrow> R (r, k)) \<Longrightarrow> holds R (serial_write this bs k)"
    and "(\<And>r k. typed k \<Longrightarrow> R (r, k)) \<Longrightarrow> holds R (serial_open nro k)"
proof -
  have l: "holds Q (serial_write_loop p i bs k)" if "typed k" "\<And>k. typed k \<Longrightarrow> Q k" for Q p i and k :: "'a devk_scheme"
    and bs using that by (induction bs arbitrary: i k) (auto intro!: keeps)
  have w: "holds R (serial_write this bs k)" if "typed k" "\<And>r k. typed k \<Longrightarrow> R (r, k)"
    for R this bs and k :: "'a devk_scheme"
    using that by (auto simp: serial_write_def Let_def fold_objs intro!: keeps l holds_any [of "get_serial _ _"])
  show "(\<And>r k. typed k \<Longrightarrow> R (r, k)) \<Longrightarrow> holds R (serial_write this bs k)" by (rule w [OF assms])
  show "(\<And>r k. typed k \<Longrightarrow> R (r, k)) \<Longrightarrow> holds R (serial_open nro k)"
    using assms by (auto simp: serial_open_def Let_def configure_serial_port_def fold_objs vtable_def intro!: keeps w)
qed

lemma serial_read_keeps [keeps]:
  fixes k :: "'a serialk_scheme"
  assumes "typed k" "\<And>r s k. typed k \<Longrightarrow> R (r, s, k)" shows "holds R (serial_read sz i k)"
proof -
  have "typed k \<longrightarrow> (case x of (r, s, k') \<Rightarrow> typed k')" if "serial_read_loop sz i k = Some x" for x
  proof (rule serial_read_loop.raw_induct
      [where P = "\<lambda>sz i k x. typed k \<longrightarrow> (case x of (r, s, k') \<Rightarrow> typed k')", OF _ that], goal_cases)
    case (1 w sz i k x)
    have "holds (\<lambda>(r, s, k'). typed k') (w n j k)" if "typed k" for n j k by (rule holds_any) (use 1(1) that in blast)
    from keepsI3 [OF this] show ?case
      by (intro impI, intro holdsD [OF _ 1(2), of "\<lambda>(r, s, k'). typed k'"]) (auto simp: Let_def intro!: keeps)
  qed
  then show ?thesis using assms by (fastforce simp: serial_read_def holds_def split: if_splits)
qed

lemma isr_serial_keeps [keeps]:
  fixes k :: "'a serialk_scheme"
  assumes "typed k" "\<And>k. typed k \<Longrightarrow> Q k" shows "holds Q (isr_serial_c k)"
proof -
  have l: "typed k \<longrightarrow> typed k'" if "serial_receive_loop k = Some k'" for k k' :: "'a serialk_scheme"
  proof (rule serial_receive_loop.raw_induct [where P = "\<lambda>k k'. typed k \<longrightarrow> typed k'", OF _ that], goal_cases)
    case (1 w k k')
    have "holds typed (w k)" if "typed k" for k by (rule holds_any) (use 1(1) that in blast)
    then show ?case
      by (intro impI, intro holdsD [OF _ 1(2), of typed]) (auto simp: serial_received_def Let_def intro!: keeps)
  qed
  have r: "holds Q (serial_receive_loop k)" if "typed k" "\<And>k. typed k \<Longrightarrow> Q k" for Q and k :: "'a serialk_scheme"
    by (rule holds_any) (use l that in blast)
  show ?thesis using assms by (auto simp: isr_serial_c_def intro!: keeps r)
qed

lemma timer_keeps [keeps]:
  fixes k :: "'a timerk_scheme"
  assumes "typed k" "\<And>k. typed k \<Longrightarrow> Q k" shows "holds Q (isr_timerTick_c k)"
proof -
  have p: "holds Q (print_status k)" if "typed k" "\<And>k. typed k \<Longrightarrow> Q k" for Q and k :: "'a timerk_scheme"
    using that by (auto simp: print_status_def Let_def intro!: keeps)
  show ?thesis using assms by (auto simp: isr_timerTick_c_def intro!: keeps p)
qed

section \<open>Files and the processor's information\<close>

lemma get_file_keeps [keeps]:
  "(\<And>f. objs k a = Some (File f) \<Longrightarrow> R f) \<Longrightarrow> holds R (get_file k a)"
  by (auto simp: get_file_def split: option.splits obj.splits)

lemma mod_file_keeps [keeps]:
  assumes "typed k" "\<And>p. file_dev (f p) = file_dev p" "\<And>k. typed k \<Longrightarrow> Q k"
  shows "holds Q (mod_file a f k)"
proof -
  have "typed (put_obj a (File (f p)) k)" if "objs k a = Some (File p)" for p
    using typed_obj [OF assms(1) that] assms by simp
  then show ?thesis using assms(3) by (auto simp: mod_file_def simp del: put_obj_objs intro!: keeps)
qed

lemma mov_keeps [keeps]:
  fixes k :: "'a devk_scheme"
  assumes "typed k"
  shows "(\<And>r k. typed k \<Longrightarrow> R (r, k)) \<Longrightarrow> holds R (mov_byte dir this page i buf k)"
    and "(\<And>r s k. typed k \<Longrightarrow> S (r, s, k)) \<Longrightarrow> holds S (mov_loop go dir this page n i buf k)"
proof -
  have b: "holds R (mov_byte dir this page i buf k)" if "typed k" "\<And>r k. typed k \<Longrightarrow> R (r, k)"
    for R i buf and k :: "'a devk_scheme" using that by (auto simp: mov_byte_def intro!: keeps)
  show "(\<And>r k. typed k \<Longrightarrow> R (r, k)) \<Longrightarrow> holds R (mov_byte dir this page i buf k)" by (rule b [OF assms])
  show "(\<And>r s k. typed k \<Longrightarrow> S (r, s, k)) \<Longrightarrow> holds S (mov_loop go dir this page n i buf k)"
    using assms by (induction n arbitrary: i buf k) (auto intro!: keeps b)
qed

lemma mov_second_keeps [keeps]:
  fixes k :: "'a devk_scheme"
  assumes "typed k" "\<And>r s t k. typed k \<Longrightarrow> R (r, s, t, k)" shows "holds R (mov_second dir this sz i buf k)"
proof -
  let ?Q = "\<lambda>(r, s, t, k :: 'a devk_scheme). typed k"
  have "typed k \<longrightarrow> ?Q x" if "mov_second dir this sz i buf k = Some x" for x
  proof (rule mov_second.raw_induct [where P = "\<lambda>d a sz i b k x. typed k \<longrightarrow> ?Q x", OF _ that], goal_cases)
    case (1 w dir this sz i0 buf k x)
    have w: "holds ?Q (w d a n i b k)" if "typed k" for d a n i b k by (rule holds_any) (use 1(1) that in blast)
    show ?case
      by (intro impI, intro holdsD [OF _ 1(2), of ?Q]) (auto simp: Let_def sectors_page_def intro!: keeps w)
  qed
  then show ?thesis using assms by (fastforce intro!: holds_any)
qed

lemma mov_third_keeps [keeps]:
  fixes k :: "'a devk_scheme"
  assumes "typed k" "\<And>r s k. typed k \<Longrightarrow> R (r, s, k)" shows "holds R (mov_third dir this sz i buf k)"
proof -
  let ?Q = "\<lambda>(r, s, k :: 'a devk_scheme). typed k"
  have "typed k \<longrightarrow> ?Q x" if "mov_third dir this sz i buf k = Some x" for x
  proof (rule mov_third.raw_induct [where P = "\<lambda>d a sz i b k x. typed k \<longrightarrow> ?Q x", OF _ that], goal_cases)
    case (1 w dir this sz i0 buf k x)
    have w: "holds ?Q (w d a n i b k)" if "typed k" for d a n i b k by (rule holds_any) (use 1(1) that in blast)
    show ?case
      by (intro impI, intro holdsD [OF _ 1(2), of ?Q])
        (auto simp: Let_def sectors_page_def intro!: keeps w holds_any [of i0])
  qed
  then show ?thesis using assms by (fastforce intro!: holds_any)
qed

lemma file_keeps [keeps]:
  fixes k :: "'a devk_scheme"
  assumes "typed k"
  shows "(\<And>r s k. typed k \<Longrightarrow> S (r, s, k)) \<Longrightarrow> holds S (chardev_file_read this buf sz k)"
    and "(\<And>r k. typed k \<Longrightarrow> R (r, k)) \<Longrightarrow> holds R (chardev_file_write this st bs k)"
    and "(\<And>r k. typed k \<Longrightarrow> R (r, k)) \<Longrightarrow> holds R (chardev_file_seek this pos k)"
proof -
  have m: "holds S (chardev_file_mov this buf sz dir k)" if "typed k" "\<And>r s k. typed k \<Longrightarrow> S (r, s, k)"
    for S buf sz dir and k :: "'a devk_scheme"
    using that by (auto simp: chardev_file_mov_def Let_def intro!: keeps)
  have s: "holds Q (seek_blocks n this k)" if "typed k" "\<And>k. typed k \<Longrightarrow> Q k" for Q n and k :: "'a devk_scheme"
    using that by (induction n arbitrary: k) (auto intro!: keeps)
  show "(\<And>r s k. typed k \<Longrightarrow> S (r, s, k)) \<Longrightarrow> holds S (chardev_file_read this buf sz k)"
    unfolding chardev_file_read_def by (rule m [OF assms])
  show "(\<And>r k. typed k \<Longrightarrow> R (r, k)) \<Longrightarrow> holds R (chardev_file_write this st bs k)"
    using assms by (auto simp: chardev_file_write_def intro!: keeps m holds_any [of "strncpy _ _ _"])
  show "(\<And>r k. typed k \<Longrightarrow> R (r, k)) \<Longrightarrow> holds R (chardev_file_seek this pos k)"
    using assms by (auto simp: chardev_file_seek_def sectors_page_def Let_def intro!: keeps s)
qed

lemma cpuid_keeps [keeps]:
  fixes k :: "'a devk_scheme"
  assumes "typed k"
  shows "(\<And>r k. typed k \<Longrightarrow> R (r, k)) \<Longrightarrow> holds R (proc_cpuid_open a k)"
    and "(\<And>r s k. typed k \<Longrightarrow> S (r, s, k)) \<Longrightarrow> holds S (proc_cpuid_read a buf sz k)"
    and "(\<And>r k. typed k \<Longrightarrow> R (r, k)) \<Longrightarrow> holds R (proc_cpuid_flush a k)"
proof -
  have g: "holds R (get_cpuid k a)" if "\<And>p. well_typed (Cpuid p) \<Longrightarrow> R p" for R
    using that typed_obj [OF assms, of a] by (auto simp: get_cpuid_def split: option.splits obj.splits)
  show "(\<And>r k. typed k \<Longrightarrow> R (r, k)) \<Longrightarrow> holds R (proc_cpuid_open a k)"
    "(\<And>r s k. typed k \<Longrightarrow> S (r, s, k)) \<Longrightarrow> holds S (proc_cpuid_read a buf sz k)"
    "(\<And>r k. typed k \<Longrightarrow> R (r, k)) \<Longrightarrow> holds R (proc_cpuid_flush a k)"
    using assms by (auto simp: proc_cpuid_open_def proc_cpuid_read_def proc_cpuid_flush_def vtable_def
        intro!: holds_bind g pure holds_any [of "for_range _ _ _ (_ :: str)"])
qed

section \<open>The floppy driver and files on the disk\<close>

text \<open>What the rest of the system does while the driver waits is an argument; it keeps the structures
  typed, as the steps of any task do.\<close>

lemma ms_keeps [keeps]:
  fixes k :: "'a fddk_scheme"
  assumes "typed k"
  shows "(\<And>r k. typed k \<Longrightarrow> R (r, k)) \<Longrightarrow> holds R (poll_msr ready n m k)"
    and "(\<And>r k. typed k \<Longrightarrow> U (r, k)) \<Longrightarrow> holds U (fdd_send_byte b k)"
    and "(\<And>r s k. typed k \<Longrightarrow> S (r, s, k)) \<Longrightarrow> holds S (fdd_get_byte k)"
    and "(\<And>r k. typed k \<Longrightarrow> U (r, k)) \<Longrightarrow> holds U (send_bytes bs k)"
    and "(\<And>r s k. typed k \<Longrightarrow> T (r, s, k)) \<Longrightarrow> holds T (get_bytes n k)"
    and "(\<And>k. typed k \<Longrightarrow> Q k) \<Longrightarrow> holds Q (wait_not_busy m k)"
proof -
  have p: "holds R (poll_msr ready n m k)" if "typed k" "\<And>r k. typed k \<Longrightarrow> R (r, k)"
    for R :: "u32 \<times> 'a fddk_scheme \<Rightarrow> bool" and ready n m and k :: "'a fddk_scheme"
    using that by (induction n arbitrary: m k) (auto intro!: keeps)
  have s: "holds R (fdd_send_byte b k)" if "typed k" "\<And>r k. typed k \<Longrightarrow> R (r, k)"
    for R :: "int \<times> 'a fddk_scheme \<Rightarrow> bool" and b and k :: "'a fddk_scheme"
    using that by (auto simp: fdd_send_byte_def intro!: keeps p)
  have g: "holds S (fdd_get_byte k)" if "typed k" "\<And>r s k. typed k \<Longrightarrow> S (r, s, k)"
    for S :: "int \<times> u8 \<times> 'a fddk_scheme \<Rightarrow> bool" and k :: "'a fddk_scheme"
    using that by (auto simp: fdd_get_byte_def intro!: keeps p)
  show "(\<And>r k. typed k \<Longrightarrow> R (r, k)) \<Longrightarrow> holds R (poll_msr ready n m k)" by (rule p [OF assms])
  show "(\<And>r k. typed k \<Longrightarrow> U (r, k)) \<Longrightarrow> holds U (fdd_send_byte b k)" by (rule s [OF assms])
  show "(\<And>r s k. typed k \<Longrightarrow> S (r, s, k)) \<Longrightarrow> holds S (fdd_get_byte k)" by (rule g [OF assms])
  show "(\<And>r k. typed k \<Longrightarrow> U (r, k)) \<Longrightarrow> holds U (send_bytes bs k)"
    using assms by (induction bs arbitrary: k) (auto intro!: keeps s)
  show "(\<And>r s k. typed k \<Longrightarrow> T (r, s, k)) \<Longrightarrow> holds T (get_bytes n k)"
    using assms by (induction n arbitrary: T k) (auto intro!: keeps g)
  have "typed k \<longrightarrow> typed k'" if "wait_not_busy m k = Some k'" for k'
  proof (rule wait_not_busy.raw_induct [where P = "\<lambda>m k k'. typed k \<longrightarrow> typed k'", OF _ that], goal_cases)
    case (1 w m k k')
    have "holds typed (w n k)" if "typed k" for n k by (rule holds_any) (use 1(1) that in blast)
    then show ?case by (intro impI, intro holdsD [OF _ 1(2), of typed]) (auto intro!: keeps)
  qed
  then show "(\<And>k. typed k \<Longrightarrow> Q k) \<Longrightarrow> holds Q (wait_not_busy m k)" using assms by (auto intro: holds_any)
qed

lemma fdd_objs [simp]:
  fixes k :: "'a fddk_scheme"
  shows "objs (mod_fdc f k) = objs k" "objs (fdd_mot_en m st k) = objs k" "objs (fdd_dev_sel d k) = objs k"
    "objs (dma_set_floppy_read b k) = objs k"
  by (simp_all add: mod_fdc_def fdd_mot_en_def fdd_dev_sel_def dma_set_floppy_read_def dma_set_mode_def
      dma_set_cmd_reg_def dma_set_mask_def Let_def outb_def split: prod.splits)

lemma floppy_keeps:
  fixes k :: "'a fddk_scheme"
  assumes rest: "\<And>k :: 'a fddk_scheme. typed k \<Longrightarrow> holds typed (rest k)" and k: "typed k"
  shows "(\<And>r s k. typed k \<Longrightarrow> R (r, s, k)) \<Longrightarrow> holds R (fdd_block_read rest addrs this pos sz k)"
proof -
  have w: "holds Q (fdd_wait_for_interrupt rest k)" if "typed k" "\<And>k. typed k \<Longrightarrow> Q k" for Q and k :: "'a fddk_scheme"
    using that by (auto simp: fdd_wait_for_interrupt_def isr_fdd_c_def Let_def intro!: keeps keepsI [OF rest])
  have i: "holds R (fdd_sense_interrupt_status k)" if "typed k" "\<And>r k. typed k \<Longrightarrow> R (r, k)"
    for R and k :: "'a fddk_scheme"
    using that by (auto simp: fdd_sense_interrupt_status_def intro!: keeps)
  have c: "holds R (fdd_recalibrate rest d k)" if "typed k" "\<And>r k. typed k \<Longrightarrow> R (r, k)"
    for R d and k :: "'a fddk_scheme"
    using that by (auto simp: fdd_recalibrate_def intro!: keeps w i)
  have s: "holds R (fdd_read_sector rest addrs c h r eot mt dest drv k)" if "typed k" "\<And>r k. typed k \<Longrightarrow> R (r, k)"
    for R c h r eot mt dest drv and k :: "'a fddk_scheme"
    using that by (auto simp: fdd_read_sector_def read_result_def dma_deliver_def Let_def
        intro!: keeps w c split: list.splits)
  have l: "holds R (fdd_read_loop rest addrs this n chs sz k)" if "typed k" "\<And>r s k. typed k \<Longrightarrow> R (r, s, k)"
    for R n chs sz and k :: "'a fddk_scheme"
    using that
  proof (induction n arbitrary: R chs sz k)
    case (Suc n)
    show ?case using Suc.prems by (auto simp: Let_def case_prod_beta intro!: keeps s Suc.IH)
  qed simp
  show "(\<And>r s k. typed k \<Longrightarrow> R (r, s, k)) \<Longrightarrow> holds R (fdd_block_read rest addrs this pos sz k)"
    using k by (auto simp: fdd_block_read_def Let_def intro!: keeps keepsI [OF rest] s l)
qed

lemma fat12_open_keeps:
  fixes k :: "'a fddk_scheme"
  assumes rest: "\<And>k :: 'a fddk_scheme. typed k \<Longrightarrow> holds typed (rest k)" and k: "typed k"
  shows "(\<And>r k. typed k \<Longrightarrow> R (r, k)) \<Longrightarrow> holds R (fat12_open rest addrs this filename flags k)"
proof -
  have l: "holds R (load_sectors rest addrs this a n i sector k)" if "typed k" "\<And>r k. typed k \<Longrightarrow> R (r, k)"
    for R this a n i sector and k :: "'a fddk_scheme"
    using that by (induction n arbitrary: i sector k) (auto intro!: keeps floppy_keeps [OF rest])
  have n: "well_typed (File (new_file a sz name))" for a sz name by (simp add: new_file_def vtable_def)
  show "(\<And>r k. typed k \<Longrightarrow> R (r, k)) \<Longrightarrow> holds R (fat12_open rest addrs this filename flags k)"
    using k n by (auto simp: fat12_open_def simp del: well_typed.simps
        intro!: keeps l holds_any [of "fat12_find_file _ _ _"] holds_any [of "strlen _"] holds_any [of "strncpy _ _ _"]
        split: option.splits)
qed

end
