(* ===== verification/System.thy ===== *)
theory System
  imports User Dev_Types Tables_Spec
begin

text \<open>
  The system in operation: user programs (theory \<open>User\<close>) over the kernel. A state is the kernel's state
  and what each task is doing, \<open>Ready\<close> with the rest of its program or \<open>Waiting\<close> inside a system call.
  A step is a system call of the current task, the end of a wait, an access of a program to its memory
  with its page fault, or an interrupt. That every descriptor is served by the functions
  of its own kind in every state that the system reaches is the soundness of the types of \<open>Dev_Types\<close>.
\<close>

section \<open>Memory accesses of programs\<close>

text \<open>The translation with the rights of ring 3: the physical address, or the error code of the fault.\<close>

definition user_access :: "bool \<Rightarrow> ram \<Rightarrow> u32 \<Rightarrow> u32 \<Rightarrow> u32 + u32" where
  "user_access wr m dir va =
     (case walk m dir va of None \<Rightarrow> Inl (if wr then 6 else 4)
      | Some pa \<Rightarrow>
          (let pde = rd32 m (entry (base dir) (drop_bit 22 va));
               pte = (if pde AND MM_ATTR_SZ_4M \<noteq> 0 then pde else rd32 m (entry (base pde) (drop_bit 22 (push_bit 10 va))));
               rights = pde AND pte
           in if rights AND MM_ATTR_US_U \<noteq> 0 \<and> (wr \<longrightarrow> rights AND MM_ATTR_RW \<noteq> 0) then Inr pa
              else Inl (if wr then 7 else 5)))"

section \<open>Tasks\<close>

datatype ustate = Ready prog | Waiting wait_point str "u32 \<times> str \<Rightarrow> prog"

text \<open>The arguments of the model that the system needs: those of the drivers, the addresses of the two
  labels, and the programs in the files.\<close>

record 'k sysenv =
  drivers :: "'k env"
  fork_ret_addr :: u32
  task_ret_addr :: u32
  program_in :: "str \<Rightarrow> prog"

text \<open>A task that waited inside a call goes on.\<close>

definition resume_call :: "wait_point \<Rightarrow> str \<Rightarrow> 'a conk_scheme \<Rightarrow> 'a conk_scheme io_res option" where
  "resume_call w buf k =
     (case w of Wait_pipe pc \<Rightarrow> do { r \<leftarrow> pipe_resume pc k; pipe_io buf r }
      | Wait_con this sz \<Rightarrow> do { r \<leftarrow> con_read_rest this sz k; con_io buf this sz r })"

text \<open>What a call that may wait leaves of a task.\<close>

fun after_io :: "str \<Rightarrow> (u32 \<times> str \<Rightarrow> prog) \<Rightarrow> 'k io_res \<Rightarrow> ustate \<times> 'k" where
  "after_io buf c (Io_done st buf' k) = (Ready (c (st, buf')), k)"
| "after_io buf c (Io_waits w k) = (Waiting w buf c, k)"

type_synonym 'k system = "'k \<times> (pid \<Rightarrow> ustate option)"

inductive sys_step :: "'a fsk_scheme sysenv \<Rightarrow> 'a fsk_scheme system \<Rightarrow> 'a fsk_scheme system \<Rightarrow> bool"
  for S :: "'a fsk_scheme sysenv" where
  Do_open: "P (cur_pid k) = Some (Ready (U_open name fl c)) \<Longrightarrow> sys_open (drivers S) name fl k = Some (st, k') \<Longrightarrow>
    sys_step S (k, P) (k', P(cur_pid k \<mapsto> Ready (c st)))"
| Do_read: "P (cur_pid k) = Some (Ready (U_read fd buf sz c)) \<Longrightarrow> sys_read fd buf sz i0 k = Some r \<Longrightarrow>
    after_io buf c r = (u, k') \<Longrightarrow> sys_step S (k, P) (k', P(cur_pid k \<mapsto> u))"
| Do_write: "P (cur_pid k) = Some (Ready (U_write fd bs c)) \<Longrightarrow> sys_write fd bs stack k = Some r \<Longrightarrow>
    after_io [] (\<lambda>(st, _). c st) r = (u, k') \<Longrightarrow> sys_step S (k, P) (k', P(cur_pid k \<mapsto> u))"
| Do_resume: "P (cur_pid k) = Some (Waiting w buf c) \<Longrightarrow> resume_call w buf k = Some r \<Longrightarrow>
    after_io buf c r = (u, k') \<Longrightarrow> sys_step S (k, P) (k', P(cur_pid k \<mapsto> u))"
| Do_seek: "P (cur_pid k) = Some (Ready (U_seek fd pos c)) \<Longrightarrow> sys_seek fd pos k = Some (st, k') \<Longrightarrow>
    sys_step S (k, P) (k', P(cur_pid k \<mapsto> Ready (c st)))"
| Do_close: "P (cur_pid k) = Some (Ready (U_close fd c)) \<Longrightarrow> sys_close fd k = Some (st, k') \<Longrightarrow>
    sys_step S (k, P) (k', P(cur_pid k \<mapsto> Ready (c st)))"
| Do_pipe: "P (cur_pid k) = Some (Ready (U_pipe a c)) \<Longrightarrow> sys_pipe k = Some (st, fds, k') \<Longrightarrow>
    sys_step S (k, P) (k', P(cur_pid k \<mapsto> Ready (c (if st = PIPE_ERROR_NOPIPE \<and> fds = (0, 0) then a else fds))))"
| Do_fork: "P (cur_pid k) = Some (Ready (U_fork c)) \<Longrightarrow> sys_fork (fork_ret_addr S) eip esp k = Some (p, k') \<Longrightarrow>
    sys_step S (k, P) (k', (if p = -1 then P else P(p \<mapsto> Ready (c 0)))(cur_pid k \<mapsto> Ready (c p)))"
| Do_run: "P (cur_pid k) = Some (Ready (U_run cmd c)) \<Longrightarrow> sys_run (drivers S) (task_ret_addr S) cmd k = Some (p, k') \<Longrightarrow>
    sys_step S (k, P) (k', (if p = -1 then P else P(p \<mapsto> Ready (program_in S cmd)))(cur_pid k \<mapsto> Ready (c p)))"
| Do_getpid: "P (cur_pid k) = Some (Ready (U_getpid c)) \<Longrightarrow>
    sys_step S (k, P) (k, P(cur_pid k \<mapsto> Ready (c (sys_getpid k))))"
| Do_palloc: "P (cur_pid k) = Some (Ready (U_palloc c)) \<Longrightarrow> sys_palloc k = (a, k') \<Longrightarrow>
    sys_step S (k, P) (k', P(cur_pid k \<mapsto> Ready (c a)))"
| Do_share: "P (cur_pid k) = Some (Ready (U_share a c)) \<Longrightarrow> mm_share_page a k = (st, k') \<Longrightarrow>
    sys_step S (k, P) (k', P(cur_pid k \<mapsto> Ready (c st)))"
| Do_exit: "P (cur_pid k) = Some (Ready U_exit) \<Longrightarrow> sys_exit k = Some k' \<Longrightarrow>
    sys_step S (k, P) (k', P(cur_pid k := None))"
| Do_load: "P (cur_pid k) = Some (Ready (U_load a c)) \<Longrightarrow> user_access False (ram k) (reg_cr3 k) a = Inr pa \<Longrightarrow>
    sys_step S (k, P) (k, P(cur_pid k \<mapsto> Ready (c (rd32 (ram k) pa))))"
| Do_store: "P (cur_pid k) = Some (Ready (U_store a v c)) \<Longrightarrow> user_access True (ram k) (reg_cr3 k) a = Inr pa \<Longrightarrow>
    sys_step S (k, P) (k\<lparr>ram := wr32 (ram k) pa v\<rparr>, P(cur_pid k \<mapsto> Ready c))"
| Do_fault: "user_access wr (ram k) (reg_cr3 k) a = Inl e \<Longrightarrow> isr_page_fault_c a e k = Some (Resume k') \<Longrightarrow>
    P (cur_pid k) = Some (Ready (if wr then U_store a v c else U_load a d)) \<Longrightarrow> sys_step S (k, P) (k', P)"
| Do_kill: "user_access wr (ram k) (reg_cr3 k) a = Inl e \<Longrightarrow> isr_page_fault_c a e k = Some (Exited k') \<Longrightarrow>
    P (cur_pid k) = Some (Ready (if wr then U_store a v c else U_load a d)) \<Longrightarrow> sys_exit k' = Some k'' \<Longrightarrow>
    sys_step S (k, P) (k'', P(cur_pid k := None))"
| Irq_timer: "isr_timerTick_c k = Some k' \<Longrightarrow> sys_step S (k, P) (k', P)"
| Irq_keyboard: "isr_keyboard_c k = Some k' \<Longrightarrow> sys_step S (k, P) (k', P)"
| Irq_serial: "isr_serial_c k = Some k' \<Longrightarrow> sys_step S (k, P) (k', P)"
| Irq_floppy: "isr_fdd_c k = Some k' \<Longrightarrow> sys_step S (k, P) (k', P)"

abbreviation sys_reach :: "'a fsk_scheme sysenv \<Rightarrow> 'a fsk_scheme system \<Rightarrow> 'a fsk_scheme system \<Rightarrow> bool" where
  "sys_reach S \<equiv> (sys_step S)\<^sup>*\<^sup>*"

section \<open>The calls keep the types\<close>

lemma io_keeps:
  assumes "typed k"
  shows "holds (pred_io_res typed) (into_buf buf st bs k)"
  by (auto simp: into_buf_def assms intro!: keeps holds_any [of "put_bytes _ _ _"])

lemma con_io_keeps: "pred_con_res typed r \<Longrightarrow> holds (pred_io_res typed) (con_io buf this sz r)"
  by (cases r) (auto simp: con_io_def intro: io_keeps)

lemma pipe_io_keeps: "pred_pipe_res typed r \<Longrightarrow> holds (pred_io_res typed) (pipe_io buf r)"
  by (cases r) (auto simp: pipe_io_def intro: io_keeps)

lemma dev_read_keeps:
  fixes k :: "'a serialk_scheme"
  assumes "typed k" shows "holds (pred_io_res typed) (dev_read fn this buf sz i0 k)"
proof -
  have c: "holds (pred_io_res typed) (con_read this sz k \<bind> con_io buf this sz)"
    by (rule holds_bind) (rule holds_weaken [OF con_read_keeps(2) [OF assms] con_io_keeps])
  have p: "holds (pred_io_res typed) (pipe_read this sz k \<bind> pipe_io buf)"
    by (rule holds_bind) (rule holds_weaken [OF pipe_read_keeps(4) [OF assms] pipe_io_keeps])
  show ?thesis
    using assms c p by (auto simp: dev_read_def intro!: keeps holds_any [of "foldr _ _ _"] split: dev_fn.splits)
qed

lemma dev_write_keeps:
  fixes k :: "'a serialk_scheme"
  assumes "typed k" shows "holds (pred_io_res typed) (dev_write fn this bs stack k)"
proof -
  have p: "holds (pred_io_res typed) (pipe_write this bs k \<bind> pipe_io [])"
    by (rule holds_bind) (rule holds_weaken [OF pipe_write_keeps(2) [OF assms] pipe_io_keeps])
  show ?thesis
    using assms p by (auto simp: dev_write_def intro!: keeps split: dev_fn.splits)
qed

lemma resume_keeps:
  fixes k :: "'a conk_scheme"
  assumes "typed k" shows "holds (pred_io_res typed) (resume_call w buf k)"
proof (cases w)
  case (Wait_pipe pc)
  then show ?thesis unfolding resume_call_def
    by (simp, intro holds_bind) (rule holds_weaken [OF pipe_resume_keeps [OF assms] pipe_io_keeps])
next
  case (Wait_con this sz)
  then show ?thesis unfolding resume_call_def
    by (simp, intro holds_bind) (rule holds_weaken [OF con_read_keeps(1) [OF assms] con_io_keeps])
qed

lemma close_keeps [keeps]:
  fixes k :: "'a conk_scheme"
  assumes "typed k"
  shows "(\<And>r k. typed k \<Longrightarrow> R (r, k)) \<Longrightarrow> holds R (sys_close fd k)"
    and "(\<And>k. typed k \<Longrightarrow> Q k) \<Longrightarrow> holds Q (sys_exit k)"
proof -
  have f: "holds R (dev_flush fn this k)" if "typed k" "\<And>r k. typed k \<Longrightarrow> R (r, k)"
    for R fn this and k :: "'a conk_scheme"
    using that by (auto simp: dev_flush_def serial_flush_def chardev_file_flush_def intro!: keeps split: dev_fn.splits)
  have c: "holds R (sys_close fd k)" if "typed k" "\<And>r k. typed k \<Longrightarrow> R (r, k)"
    for R fd and k :: "'a conk_scheme"
    using that by (auto simp: sys_close_def intro!: keeps f holds_any [of "objs _ _"] holds_any [of "fn_flush _"])
  show "(\<And>r k. typed k \<Longrightarrow> R (r, k)) \<Longrightarrow> holds R (sys_close fd k)" by (rule c [OF assms])
  show "(\<And>k. typed k \<Longrightarrow> Q k) \<Longrightarrow> holds Q (sys_exit k)"
    using assms by (auto simp: sys_exit_def loader_exit_def device_release_devices_def intro!: keeps c)
qed

text \<open>What is needed below of the rest of the system that the floppy driver lets run while it waits.\<close>

definition rest_typed :: "'a fsk_scheme sysenv \<Rightarrow> bool" where
  "rest_typed S \<longleftrightarrow> (\<forall>k k'. typed k \<longrightarrow> rest_of (drivers S) k = Some k' \<longrightarrow> typed k')"

lemma open_keeps:
  fixes k :: "'a fsk_scheme"
  assumes "rest_typed S" "typed k"
  shows "(\<And>r k. typed k \<Longrightarrow> R (r, k)) \<Longrightarrow> holds R (sys_open (drivers S) name fl k)"
    and "(\<And>r k. typed k \<Longrightarrow> R (r, k)) \<Longrightarrow> holds R (sys_run (drivers S) t cmd k)"
proof -
  have rest: "holds typed (rest_of (drivers S) k)" if "typed k" for k
    using assms(1) that by (simp add: rest_typed_def holds_def)
  have o: "holds R (fs_open (drivers S) name fl k)" if "typed k" "\<And>r k. typed k \<Longrightarrow> R (r, k)"
    for R name fl and k :: "'a fsk_scheme"
    using that by (auto simp: fs_open_def intro!: keeps fat12_open_keeps [OF rest] holds_any [of "strcmp _ _"]
        holds_any [of "strncmp _ _ _"])
  show "(\<And>r k. typed k \<Longrightarrow> R (r, k)) \<Longrightarrow> holds R (sys_open (drivers S) name fl k)"
    using assms(2) by (auto simp: sys_open_def intro!: keeps o)
  show "(\<And>r k. typed k \<Longrightarrow> R (r, k)) \<Longrightarrow> holds R (sys_run (drivers S) t cmd k)"
    using assms(2) by (auto simp: sys_run_def intro!: keeps o holds_any [of "strncmp _ _ _"]
        holds_any [of "str_into_string _ _ _"] holds_any [of "strlen _"] holds_any [of "str_convert_to_mayus _ _ _"])
qed

lemma after_io_typed: "pred_io_res typed r \<Longrightarrow> after_io buf c r = (u, k') \<Longrightarrow> typed k'"
  by (cases r) auto

lemma io_call_keeps:
  assumes "typed k"
  shows "sys_read fd buf sz i0 k = Some r \<Longrightarrow> pred_io_res typed r"
    and "sys_write fd bs stack k = Some r \<Longrightarrow> pred_io_res typed r"
  using holdsD [OF dev_read_keeps [OF assms]] holdsD [OF dev_write_keeps [OF assms]]
  by (auto simp: sys_read_def sys_write_def split: bind_splits)

lemma sys_step_typed:
  assumes "sys_step S (k, P) (k', P')" "rest_typed S" "typed k"
  shows "typed k'"
  using assms
proof (cases rule: sys_step.cases)
  case (Do_open name fl c st)
  then show ?thesis using holdsD [OF open_keeps(1) [OF assms(2,3), of "\<lambda>(r, k). typed k"]] by fastforce
next
  case (Do_read fd buf sz c i0 r u)
  then show ?thesis using after_io_typed io_call_keeps(1) [OF assms(3)] by blast
next
  case (Do_write fd bs c stack r u)
  then show ?thesis using after_io_typed io_call_keeps(2) [OF assms(3)] by blast
next
  case (Do_resume w buf c r u)
  then show ?thesis using after_io_typed holdsD [OF resume_keeps [OF assms(3)]] by blast
next
  case (Do_seek fd pos c st)
  then show ?thesis using holdsD [OF file_keeps(3) [OF assms(3), of "\<lambda>(r, k). typed k"]]
    by (fastforce simp: sys_seek_def split: bind_splits if_splits)
next
  case (Do_close fd c st)
  then show ?thesis using holdsD [OF close_keeps(1) [OF assms(3), of "\<lambda>(r, k). typed k"]] by fastforce
next
  case (Do_pipe a c st fds)
  then show ?thesis using holdsD [OF pipe_open_keeps(2) [OF assms(3), of "\<lambda>(r, s, k). typed k"]] by fastforce
next
  case (Do_fork c eip esp p)
  then show ?thesis using holdsD [OF process_keeps(2) [OF assms(3), of "\<lambda>(r, k). typed k"]] by fastforce
next
  case (Do_run cmd c p)
  then show ?thesis using holdsD [OF open_keeps(2) [OF assms(2,3), of "\<lambda>(r, k). typed k"]] by fastforce
next
  case (Do_getpid c)
  then show ?thesis using assms(3) by simp
next
  case (Do_palloc c a)
  then show ?thesis using assms(3) palloc_objs [of k] by simp
next
  case (Do_share a c st)
  then show ?thesis using assms(3) pair_keeps(2) [of a k] by simp
next
  case Do_exit
  have "holds typed (sys_exit k)" by (rule close_keeps(2) [OF assms(3)])
  with Do_exit show ?thesis by (simp add: holds_def)
next
  case (Do_load a c pa)
  then show ?thesis using assms(3) by simp
next
  case (Do_store a v c pa)
  then show ?thesis using assms(3) by simp
next
  case (Do_fault wr a e v c d)
  with fault_keeps [OF assms(3), of a e] show ?thesis by (simp add: holds_def)
next
  case (Do_kill wr a e k1 v c d)
  with fault_keeps [OF assms(3), of a e] have "typed k1" by (simp add: holds_def)
  then have "holds typed (sys_exit k1)" by (rule close_keeps(2))
  with Do_kill show ?thesis by (simp add: holds_def)
next
  case Irq_timer
  have "holds typed (isr_timerTick_c k)" by (rule timer_keeps [OF assms(3)])
  with Irq_timer show ?thesis by (simp add: holds_def)
next
  case Irq_keyboard
  have "holds typed (isr_keyboard_c k)" by (rule keyboard_keeps [OF assms(3)])
  with Irq_keyboard show ?thesis by (simp add: holds_def)
next
  case Irq_serial
  have "holds typed (isr_serial_c k)" by (rule isr_serial_keeps [OF assms(3)])
  with Irq_serial show ?thesis by (simp add: holds_def)
next
  case Irq_floppy
  have "holds typed (isr_fdd_c k)" using assms(3) by (auto simp: isr_fdd_c_def intro!: keeps)
  with Irq_floppy show ?thesis by (simp add: holds_def)
qed

lemma sys_reach_typed: "sys_reach S s s' \<Longrightarrow> rest_typed S \<Longrightarrow> typed (fst s) \<Longrightarrow> typed (fst s')"
  by (induction rule: rtranclp_induct) (auto dest: sys_step_typed)

text \<open>The argument \<open>rest_of\<close> of the drivers stands for what the other tasks and the interrupts do while the
  task that reads the floppy waits. \<open>rest_runs S\<close> says no more than that: whatever it does is a run of
  this very system, with any programs. Tasks of that run may wait for the floppy themselves, and what
  happens meanwhile is a run again; the waits are nested to some depth.\<close>

inductive rest_runs :: "'a fsk_scheme sysenv \<Rightarrow> bool" where
  "(\<And>k k'. rest_of (drivers S) k = Some k' \<Longrightarrow>
     \<exists>rest P P'. rest_runs (S\<lparr>drivers := (drivers S)\<lparr>rest_of := rest\<rparr>\<rparr>) \<and>
       sys_reach (S\<lparr>drivers := (drivers S)\<lparr>rest_of := rest\<rparr>\<rparr>) (k, P) (k', P')) \<Longrightarrow>
   rest_runs S"

lemma rest_runs_typed: "rest_runs S \<Longrightarrow> rest_typed S"
proof (induction rule: rest_runs.induct)
  case (1 S)
  show ?case
    unfolding rest_typed_def
  proof (intro allI impI)
    fix k k' :: "'a fsk_scheme" assume k: "typed k" "rest_of (drivers S) k = Some k'"
    from 1 [OF k(2)] obtain rest P P' where "rest_typed (S\<lparr>drivers := (drivers S)\<lparr>rest_of := rest\<rparr>\<rparr>)"
      "sys_reach (S\<lparr>drivers := (drivers S)\<lparr>rest_of := rest\<rparr>\<rparr>) (k, P) (k', P')" by blast
    from sys_reach_typed [OF this(2,1)] k(1) show "typed k'" by simp
  qed
qed

section \<open>Calls go to the functions of the kind\<close>

text \<open>What a call on a structure has to do, by the kind of the structure.\<close>

fun read_by_kind :: "obj \<Rightarrow> u32 \<Rightarrow> str \<Rightarrow> u32 \<Rightarrow> u32 \<Rightarrow> 'a serialk_scheme \<Rightarrow> 'a serialk_scheme io_res option" where
  "read_by_kind (Con _) this buf sz i0 k = dev_read Con_read this buf sz i0 k"
| "read_by_kind (Serial _) this buf sz i0 k = dev_read Serial_read this buf sz i0 k"
| "read_by_kind (Pipe p) this buf sz i0 k = (if pipe_type p = 82 then dev_read Pipe_read this buf sz i0 k else None)"
| "read_by_kind (File _) this buf sz i0 k = dev_read File_read this buf sz i0 k"
| "read_by_kind (Cpuid c) this buf sz i0 k =
     (if fn_read (cpuid_chardev c) = None then None else dev_read Cpuid_read this buf sz i0 k)"

fun write_by_kind :: "obj \<Rightarrow> u32 \<Rightarrow> str \<Rightarrow> str \<Rightarrow> 'a serialk_scheme \<Rightarrow> 'a serialk_scheme io_res option" where
  "write_by_kind (Con _) this bs stack k = dev_write Con_write this bs stack k"
| "write_by_kind (Serial _) this bs stack k = dev_write Serial_write this bs stack k"
| "write_by_kind (Pipe p) this bs stack k = (if pipe_type p = 87 then dev_write Pipe_write this bs stack k else None)"
| "write_by_kind (File _) this bs stack k = dev_write File_write this bs stack k"
| "write_by_kind (Cpuid c) this bs stack k = None"

fun seek_by_kind :: "obj \<Rightarrow> u32 \<Rightarrow> u32 \<Rightarrow> 'a devk_scheme \<Rightarrow> (u32 \<times> 'a devk_scheme) option" where
  "seek_by_kind (File _) this pos k = chardev_file_seek this pos k"
| "seek_by_kind _ this pos k = None"

fun flush_by_kind :: "obj \<Rightarrow> u32 \<Rightarrow> 'a conk_scheme \<Rightarrow> (u32 \<times> 'a conk_scheme) option" where
  "flush_by_kind (Con _) this k = con_flush this k"
| "flush_by_kind (Serial _) this k = Some (serial_flush this k)"
| "flush_by_kind (Pipe _) this k = pipe_flush this k"
| "flush_by_kind (File _) this k = Some (chardev_file_flush this k)"
| "flush_by_kind (Cpuid c) this k = (if fn_flush (cpuid_chardev c) = None then None else proc_cpuid_flush this k)"

lemma call_by_kind:
  fixes k :: "'a serialk_scheme"
  assumes "typed k" "fd_get (char_devices k) (cur_pid k) fd = Some dev" "objs k dev = Some d"
  shows "sys_read fd buf sz i0 k = read_by_kind d dev buf sz i0 k"
    and "sys_write fd bs stack k = write_by_kind d dev bs stack k"
    and "sys_seek fd pos k = seek_by_kind d dev pos k"
    and "sys_close fd k = do { cd \<leftarrow> fd_put (char_devices k) (cur_pid k) fd 0; flush_by_kind d dev (k\<lparr>char_devices := cd\<rparr>) }"
  using typed_obj [OF assms(1,3)] assms(2,3)
  by (cases d; auto simp: sys_read_def sys_write_def sys_seek_def sys_close_def dev_flush_def vtable_def)+

text \<open>C5. Type soundness. The kernel calls a device through the function pointers in its structure. In every
  state that the system reaches from one with well typed structures, by any sequence of system calls of any
  user programs, page faults, wake-ups and interrupts, where the waits for the floppy are filled with
  such sequences too, the structures are well typed, and a read, write, seek or close on a descriptor
  with a structure behind it does what the kind of that structure says. A structure is one that a call
  has made and no call has given back; that no store hits the bytes of one, and no descriptor outlives
  one, is not part of this (the structures are not bytes of \<open>ram\<close> in the model, and where a descriptor
  points at none the calls have no result).\<close>

theorem system_typed:
  assumes "sys_reach S (k, P) (k', P')" "rest_runs S" "typed k"
    and "fd_get (char_devices k') (cur_pid k') fd = Some dev" "objs k' dev = Some d"
  shows "typed k' \<and> sys_read fd buf sz i0 k' = read_by_kind d dev buf sz i0 k' \<and>
    sys_write fd bs stack k' = write_by_kind d dev bs stack k' \<and> sys_seek fd pos k' = seek_by_kind d dev pos k' \<and>
    sys_close fd k' = do { cd \<leftarrow> fd_put (char_devices k') (cur_pid k') fd 0; flush_by_kind d dev (k'\<lparr>char_devices := cd\<rparr>) }"
  using sys_reach_typed [OF assms(1) rest_runs_typed [OF assms(2)]] call_by_kind [OF _ assms(4,5)] assms(3) by simp

text \<open>A console at descriptor 0 of task 1, whose program asks for more than a read can give.\<close>

definition one_console :: fsk where
  "one_console = loaded_kernel\<lparr>objs := [0x100000 \<mapsto> Con new_console],
     char_devices := (replicate 32 (replicate 32 0))[1 := 0x100000 # replicate 31 0]\<rparr>"

theorem system_typed_witness:
  "\<exists>S P' (k' :: fsk). sys_reach S (one_console, [1 \<mapsto> Ready (U_read 0 [] 31 (\<lambda>_. U_exit))]) (k', P') \<and>
     P' 1 = Some (Ready U_exit) \<and> typed k' \<and>
     sys_write 0 [65] [] k' = dev_write Con_write 0x100000 [65] [] k'"
proof -
  let ?S = "\<lparr>drivers = \<lparr>rest_of = isr_keyboard_c, buf_addr = \<lambda>i. 0, cpuid_addr = 0\<rparr>, fork_ret_addr = 0, task_ret_addr = 0,
    program_in = \<lambda>_. U_spin\<rparr> :: fsk sysenv"
  let ?P = "[1 \<mapsto> Ready (U_read 0 [] 31 (\<lambda>_. U_exit))]"
  have f: "cur_pid one_console = 1" "objs one_console 0x100000 = Some (Con new_console)"
    by (simp_all add: one_console_def loaded_kernel_def kern_two_tasks_def)
  have g: "fd_get (char_devices one_console) (cur_pid one_console) 0 = Some 0x100000"
    unfolding f(1) by (simp add: one_console_def fd_get_def aget_def)
  have "sys_read 0 [] 31 0 one_console = Some (Io_done CON_ERROR_READTOOLARGE [] one_console)"
    using f(2) g by (simp add: sys_read_def new_console_def dev_read_def con_read_def con_io_def into_buf_def CON_BUFF_SIZE_def)
  from Do_read [of ?P one_console, OF _ this] have "sys_step ?S (one_console, ?P) (one_console, ?P(1 \<mapsto> Ready U_exit))"
    by (simp add: f(1))
  then have r: "sys_reach ?S (one_console, ?P) (one_console, ?P(1 \<mapsto> Ready U_exit))" by blast
  have quiet: "rest_runs (?S\<lparr>drivers := (drivers ?S)\<lparr>rest_of := \<lambda>_. None\<rparr>\<rparr>)" by (rule rest_runs.intros) simp
  have w: "rest_runs ?S"
  proof (rule rest_runs.intros)
    fix k k' :: fsk assume "rest_of (drivers ?S) k = Some k'"
    then have "isr_keyboard_c k = Some k'" by simp
    from r_into_rtranclp [of "sys_step (?S\<lparr>drivers := (drivers ?S)\<lparr>rest_of := \<lambda>_. None\<rparr>\<rparr>)", OF Irq_keyboard [OF this]]
    show "\<exists>rest P P'. rest_runs (?S\<lparr>drivers := (drivers ?S)\<lparr>rest_of := rest\<rparr>\<rparr>) \<and>
       sys_reach (?S\<lparr>drivers := (drivers ?S)\<lparr>rest_of := rest\<rparr>\<rparr>) (k, P) (k', P')"
      using quiet by blast
  qed
  have "typed one_console" using new_console_typed
    by (simp add: one_console_def typed_objs_def del: well_typed.simps)
  from system_typed [OF r w this g f(2), of "[]" 0 0 "[65]" "[]" 0] r show ?thesis
    by (intro exI [of _ ?S] exI [of _ "?P(1 \<mapsto> Ready U_exit)"] exI [of _ one_console]) simp
qed

end
