(* ===== verification/User_Spec.thy ===== *)
theory User_Spec
  imports User Device_Spec
begin

text \<open>
  What the user programs ask of the kernel, whatever it answers: the conversations of theory \<open>User\<close>. The
  programs use descriptors, lengths and strings that do not fit what they mean to do; the
  lemmas and properties here say what comes of it.
\<close>

lemma u_write_simps [simp]:
  "unat n \<le> length arr \<Longrightarrow> u_write fd arr n p = U_write fd (take (unat n) arr) p"
  "\<not> unat n \<le> length arr \<Longrightarrow> u_write fd arr n p = U_fault"
  by (simp_all add: u_write_def)

lemma one_two: "length xs = 1 \<Longrightarrow> \<exists>a. xs = [a]" "length xs = 2 \<Longrightarrow> \<exists>a b. xs = [a, b]"
  by (auto simp: length_Suc_conv numeral_2_eq_2)

text \<open>A conversation in two parts.\<close>

lemma u_calls_append:
  "u_calls rs p = (cs, p') \<Longrightarrow> length cs = length rs \<Longrightarrow> u_calls (rs @ ss) p = (cs @ fst (u_calls ss p'), snd (u_calls ss p'))"
proof (induction rs arbitrary: p cs)
  case (Cons r rs)
  then show ?case by (fastforce split: option.splits prod.splits)
qed (simp add: prod_eq_iff)

lemma u_calls_step:
  "u_ask p = Some c \<Longrightarrow> u_calls rs (u_answer p r) = (cs, p') \<Longrightarrow> u_calls (r # rs) p = (c # cs, p')"
  by simp

section \<open>krypto.c\<close>

text \<open>The reading loop of the encryption, and the whole function: its calls do not depend on the answers.\<close>

lemma encrypt_loop_calls:
  "length rs = n \<Longrightarrow> u_calls (rs @ ss) (encrypt_loop g n b p) =
     (replicate n (C_read (fst (pipeRE g)) KBUFF_SIZE) @ fst (u_calls ss p), snd (u_calls ss p))"
proof (induction n arbitrary: rs b)
  case (Suc n)
  then obtain r rs' where "rs = r # rs'" "length rs' = n" by (cases rs) auto
  with Suc.IH [of rs'] show ?case by (simp add: case_prod_beta)
qed simp

definition encrypt_calls :: "k_globals \<Rightarrow> ucall list" where
  "encrypt_calls g = [C_close (fst (pipeEW g)), C_close (k_serial g)] @
     replicate 7 (C_read (fst (pipeRE g)) KBUFF_SIZE) @ [C_close (snd (pipeEW g)), C_close (k_fd g)]"

lemma encrpyt_calls:
  assumes "length rs = 11"
  shows "u_calls (rs @ ss) (encrpyt g b p) = (encrypt_calls g @ fst (u_calls ss p), snd (u_calls ss p))"
proof -
  obtain r1 r2 rs1 where rs: "rs = r1 # r2 # rs1" "length rs1 = 9"
    using assms by (cases rs; cases "tl rs") auto
  have "length (drop 7 rs1) = 2" using rs(2) by simp
  then obtain r3 r4 where "drop 7 rs1 = [r3, r4]" using one_two(2) by blast
  then have r: "rs1 = take 7 rs1 @ [r3, r4]" by (metis append_take_drop_id)
  have "length (take 7 rs1) = CANT_READ" using rs(2) by (simp add: CANT_READ_def)
  from encrypt_loop_calls [OF this, of "[r3, r4] @ ss" g b "U_close (snd (pipeEW g)) (\<lambda>_. U_close (k_fd g) (\<lambda>_. p))"] r
  have "u_calls (rs1 @ ss) (encrypt_loop g CANT_READ b (U_close (snd (pipeEW g)) (\<lambda>_. U_close (k_fd g) (\<lambda>_. p)))) =
      (replicate 7 (C_read (fst (pipeRE g)) KBUFF_SIZE) @ [C_close (snd (pipeEW g)), C_close (k_fd g)] @ fst (u_calls ss p),
       snd (u_calls ss p))"
    by (simp add: CANT_READ_def case_prod_beta) (metis append.assoc append_Cons append_Nil)
  then show ?thesis by (simp add: encrpyt_def rs(1) encrypt_calls_def)
qed

text \<open>A descriptor that is closed twice, with nothing opened in between: the second time there is no device, and
  \<open>sys_close\<close> calls through a null pointer.\<close>

lemma close_twice_faults:
  assumes "sys_close fd k = Some (st, k1)" "cur_pid k2 = cur_pid k1"
    and "fd_get (char_devices k2) (cur_pid k2) fd = fd_get (char_devices k1) (cur_pid k1) fd" "objs k2 0 = None"
  shows "sys_close fd k2 = None"
proof -
  obtain cd where "fd_put (char_devices k) (cur_pid k) fd 0 = Some cd" "cur_pid k1 = cur_pid k" "char_devices k1 = cd"
    using assms(1) by (auto simp: sys_close_def dest!: dev_flush_fds split: bind_splits)
  then have "fd_get (char_devices k1) (cur_pid k1) fd = Some 0"
    by (auto simp: fd_put_def fd_get_def aget_def aput_def split: bind_splits if_splits)
  then show ?thesis using assms(2-4) by (simp add: sys_close_def split: bind_splits)
qed

text \<open>C37. The child of krypto. Whatever the kernel answers, it reads the pipe fourteen times, encrypts
  what it reads and writes none of it; \<open>pipeEW\<close> is not a pipe, so that it closes descriptor 0,
  its console, and closes it again, with nothing opened in between. The second time the descriptor holds
  no device, and the kernel calls through a null pointer.\<close>

theorem krypto_child_closes_twice:
  assumes "length rs = 25" "pipeEW g = (0, 0)"
  shows "u_calls rs (krypto_child b b' g) =
      ([C_close (snd (pipeRE g)), C_close (k_file g)] @
       concat (replicate 2 ([C_close 0, C_close (k_serial g)] @ replicate 7 (C_read (fst (pipeRE g)) 512) @ [C_close 0, C_close (k_fd g)])) @
       [C_write (k_fd g) (map of_char ''Finished!'')], U_spin) \<and>
     (\<forall>(k :: conk) k1 st k2. sys_close 0 k = Some (st, k1) \<and> cur_pid k2 = cur_pid k1 \<and>
        fd_get (char_devices k2) (cur_pid k2) 0 = fd_get (char_devices k1) (cur_pid k1) 0 \<and> objs k2 0 = None \<longrightarrow>
        sys_close 0 k2 = None)"
proof
  obtain r1 r2 ra where rs: "rs = r1 # r2 # ra" "length ra = 23"
    using assms(1) by (cases rs; cases "tl rs") auto
  let ?ra = "take 11 ra" and ?rb = "take 11 (drop 11 ra)" and ?rc = "drop 22 ra"
  have "length ?rc = 1" using rs(2) by simp
  then obtain r3 where r3: "?rc = [r3]" using one_two(1) by blast
  have "drop 22 ra = drop 11 (drop 11 ra)" by simp
  then have ra: "ra = ?ra @ ?rb @ [r3]" unfolding r3 [symmetric] by (simp del: drop_drop)
  have "length ?ra = 11" "length ?rb = 11" using rs(2) by simp_all
  from encrpyt_calls [OF this(1), of "?rb @ [r3]"] encrpyt_calls [OF this(2), of "[r3]"] ra
  have "u_calls ra (encrpyt g b (encrpyt g b' (k_finished g))) =
      (encrypt_calls g @ encrypt_calls g @ [C_write (k_fd g) (map of_char ''Finished!'')], U_spin)"
    by (simp add: k_finished_def cstr_def)
  then show "u_calls rs (krypto_child b b' g) =
      ([C_close (snd (pipeRE g)), C_close (k_file g)] @
       concat (replicate 2 ([C_close 0, C_close (k_serial g)] @ replicate 7 (C_read (fst (pipeRE g)) 512) @ [C_close 0, C_close (k_fd g)])) @
       [C_write (k_fd g) (map of_char ''Finished!'')], U_spin)"
    by (simp add: krypto_child_def rs(1) encrypt_calls_def assms(2) KBUFF_SIZE_def numeral_2_eq_2 del: replicate.simps)
       (simp add: numeral_2_eq_2)
qed (blast intro: close_twice_faults)

theorem krypto_child_closes_twice_witness:
  "snd (u_calls (replicate 25 \<lparr>ans_st = 512, ans_buf = replicate 512 7, ans_fds = (0, 0)\<rparr>)
     (krypto_child [] [] \<lparr>k_fd = 0, k_file = 1, k_serial = 2, pipeRE = (3, 4), pipeEW = (0, 0)\<rparr>)) = U_spin"
proof -
  let ?rs = "replicate 25 \<lparr>ans_st = 512, ans_buf = replicate 512 7, ans_fds = (0, 0)\<rparr>"
  let ?g = "\<lparr>k_fd = 0, k_file = 1, k_serial = 2, pipeRE = (3, 4), pipeEW = (0, 0)\<rparr>"
  have "length ?rs = 25" "pipeEW ?g = (0, 0)" by (simp_all only: length_replicate k_globals.simps)
  from conjunct1 [OF krypto_child_closes_twice [OF this]] show ?thesis by (simp only: snd_conv)
qed

text \<open>When the file or the port cannot be opened, the message is written with a length of 30, two more than it
  has. The other message is cut after 47 of its characters, and the last one after 12.\<close>

lemma krypto_error_overreads: "k_failed fd buf = U_fault"
  by (simp add: k_failed_def k_error_def cstr_def u_write_def)

lemma krypto_messages_cut:
  "take 47 k_opened = map of_char ''Archivo y serial abiertos satisfactoriamente, p''" "take 12 k_go_on = map of_char ''Continuamos.''"
  by code_simp+

section \<open>fork.c and taskinit.c\<close>

text \<open>Parent and child write what each of their reads has put into the buffer, the child between two stars.\<close>

lemma fork_parent_writes:
  assumes "length ps = n" "\<forall>(r, w) \<in> set ps. length (ans_buf r) = 7"
  shows "u_calls (concat (map (\<lambda>(r, w). [r, w]) ps) @ ss) (fork_parent_loop fd file n buf p) =
    (concat (map (\<lambda>(r, w). [C_read file 5, C_write fd (take 5 (ans_buf r))]) ps) @
       fst (u_calls ss (p (last (buf # map (\<lambda>(r, w). ans_buf r) ps)))),
     snd (u_calls ss (p (last (buf # map (\<lambda>(r, w). ans_buf r) ps)))))"
  using assms
proof (induction n arbitrary: ps buf)
  case (Suc n)
  then obtain r w ps' where ps: "ps = (r, w) # ps'" "length ps' = n" by (cases ps) auto
  with Suc.IH [of ps' "ans_buf r"] Suc.prems(2) show ?case by (cases ps') (auto simp: case_prod_beta)
qed simp

lemma fork_child_writes:
  assumes "length ps = n" "\<forall>(r, w) \<in> set ps. length (ans_buf r) = 6" "length buf = 7"
  shows "u_calls (concat (map (\<lambda>(r, w). [r, w]) ps) @ ss) (fork_child_loop fd file n buf p) =
    (concat (map (\<lambda>(r, w). [C_read file 5, C_write fd (42 # take 5 (ans_buf r) @ [42])]) ps) @ fst (u_calls ss p),
     snd (u_calls ss p))"
  using assms
proof (induction n arbitrary: ps buf)
  case (Suc n)
  then obtain r w ps' where ps: "ps = (r, w) # ps'" "length ps' = n" by (cases ps) auto
  then have r: "length (ans_buf r) = 6" using Suc.prems(2) by simp
  then have b: "(take 1 buf @ ans_buf r)[0 := 42, 6 := 42] = 42 # take 5 (ans_buf r) @ [42]"
    using Suc.prems(3) by (intro nth_equalityI) (auto simp: nth_list_update nth_append nth_Cons' min_def)
  have "length (42 # take 5 (ans_buf r) @ [42] :: str) = 7" using r by simp
  from Suc.IH [OF ps(2) _ this] Suc.prems(2) ps(1) b r show ?case by (auto simp: case_prod_beta Let_def)
qed simp

text \<open>The command of taskinit is not terminated: alone it is no string, and what is run depends on what is behind it.\<close>

lemma init_command_unterminated: "sys_run E t init_command (k :: fsk) = None"
proof -
  have s: "strncmp [114, 117, 110, 32] init_command 4 = Some 0" "strlen (drop 4 init_command) = None" by code_simp+
  show ?thesis by (cases "mod_con (current_console k) (\<lambda>c. c\<lparr>con_buff := replicate 30 0\<rparr>) k")
    (simp_all add: sys_run_def s str_into_string_def)
qed

section \<open>pipe.c\<close>

text \<open>The writer: four pieces of four bytes, then the fifth, whose last byte is behind the end of the string.\<close>

lemma pipe_writer_overreads:
  assumes "length rs = 4"
  shows "u_calls rs (pipe_parent_loop w [0, 4, 8, 12, 16] p) =
    (map (\<lambda>t. C_write w (map of_char t)) [''Puto'', '' el '', ''que '', ''lee.''], U_fault)"
proof -
  obtain r1 r2 r3 r4 where rs: "rs = [r1, r2, r3, r4]" using assms by (auto simp: length_Suc_conv eval_nat_numeral)
  have "length p_text = 19" by code_simp
  then show ?thesis by (simp add: rs) (code_simp)
qed

text \<open>The reader, when every read gives five bytes: its counter moves by one in a round, not by five, and it asks for
  ninety bytes where the writer has twenty.\<close>

lemma pipe_reader_rounds:
  assumes "\<forall>r \<in> set rs. ans_st r = 5 \<and> length (ans_buf r) = 12" "length rs = 2 * n" "n \<le> 18"
  shows "map (\<lambda>c. case c of C_read fd sz \<Rightarrow> sz | _ \<Rightarrow> 0) (fst (u_calls rs (pipe_child con fd (Ch_read (of_nat (18 - n)) pid buf)))) =
    concat (replicate n [5, 0])"
  using assms
proof (induction n arbitrary: rs pid buf)
  case (Suc n)
  from Suc.prems(2) obtain r1 r2 rs' where rs: "rs = r1 # r2 # rs'" "length rs' = 2 * n" by (cases rs; cases "tl rs") auto
  let ?i = "of_nat (18 - Suc n) :: u32"
  have "unat ?i = 18 - Suc n" by (simp add: unat_of_nat)
  then have i: "?i <s 18" using Suc.prems(3) by (simp add: word_sless_alt sint_small)
  have j: "?i + 1 = of_nat (18 - n)" using Suc.prems(3) by (metis Suc_diff_Suc Suc_le_lessD of_nat_Suc add.commute)
  have r1: "ans_st r1 = 5" "length (ans_buf r1) = 12" using Suc.prems(1) rs(1) by auto
  have a: "\<forall>r \<in> set rs'. ans_st r = 5 \<and> length (ans_buf r) = 12" "n \<le> 18" using Suc.prems rs(1) by auto
  show ?case
    using Suc.IH [OF a(1) rs(2) a(2), of 5 "ans_buf r1"] i j r1
    by (simp add: rs(1) pipe_child.code [of con fd] case_prod_beta)
qed simp

end
