(* ===== verification/Lib_Test.thy ===== *)
theory Lib_Test
  imports Lib_Str_Spec Lib_Printf
begin

text \<open>
  The host programs that exercise the string library, src/tp1/src/tests/: bit_check-test.c,
  num_into_string-test.c and str_into_num-test.c. A program is the list of the lines that it
  prints; a line is what \<open>printf\<close> is given.
\<close>

section \<open>bit_check-test.c\<close>

text \<open>The macros on a variable of type \<open>char\<close>, which is promoted to \<open>int\<close> and, where it is assigned, cut again.\<close>

definition check_bit :: "u8 \<Rightarrow> nat \<Rightarrow> u32" where
  "check_bit var pos = scast var AND push_bit pos 1"

definition set_bit_c :: "u8 \<Rightarrow> nat \<Rightarrow> u8" where
  "set_bit_c var pos = ucast (scast var OR push_bit pos (1 :: u32))"

definition unset_bit_c :: "u8 \<Rightarrow> nat \<Rightarrow> u8" where
  "unset_bit_c var pos = ucast (scast var AND NOT (push_bit pos (1 :: u32)))"

definition bit_check_step :: "nat \<Rightarrow> (nat \<times> bool) list \<times> u8 \<Rightarrow> (nat \<times> bool) list \<times> u8" where
  "bit_check_step i = (\<lambda>(out, x).
     (out @ [(i, 0 <s check_bit x i)], if check_bit x i = 0 then set_bit_c x i else unset_bit_c x i))"

text \<open>The lines of the loop, and the word that the last line prints in hexadecimal.\<close>

definition bit_check_main :: "(nat \<times> bool) list \<times> u32" where
  "bit_check_main = (let (out, x) = fold bit_check_step [0..<8] ([], 0x0F) in (out, scast x))"

section \<open>num_into_string-test.c\<close>

text \<open>A conversion into the start of the buffer, the NUL behind it, and the line.\<close>

definition test_line :: "(str \<Rightarrow> nat \<Rightarrow> u32 \<Rightarrow> (str \<times> nat) option) \<Rightarrow> u32 \<Rightarrow> str \<Rightarrow> (str \<times> str) option" where
  "test_line f num buf = do {
     (buf, index) \<leftarrow> f buf 0 num;
     buf \<leftarrow> nput buf index 0;
     s \<leftarrow> c_string buf;
     Some (s, buf) }"

fun test_lines :: "((str \<Rightarrow> nat \<Rightarrow> u32 \<Rightarrow> (str \<times> nat) option) \<times> u32) list \<Rightarrow> str \<Rightarrow> (str list \<times> str) option" where
  "test_lines [] buf = Some ([], buf)"
| "test_lines ((f, num) # cs) buf = do {
     (s, buf) \<leftarrow> test_line f num buf;
     (ss, buf) \<leftarrow> test_lines cs buf;
     Some (s # ss, buf) }"

definition num_cases :: "((str \<Rightarrow> nat \<Rightarrow> u32 \<Rightarrow> (str \<times> nat) option) \<times> u32) list" where
  "num_cases =
     [(dec_into_string, - 55), (hex_into_string, 0xA), (hex_into_string, 0xA0), (hex_into_string, 0xA0F),
      (hex_into_string, 0x1000000), (hex_into_string, 0xA000000), (hex_into_string, 0x50000000),
      (hex_into_string, 0xA0000000), (dec_into_string, 0xF0000000), (dec_into_string, 0x70000000),
      (hex_into_string, 0xF0000000)]"

text \<open>The loop \<open>for (i = 0x10000000; i > 0; i++)\<close>, which ends when \<open>i\<close> wraps. The two conversions go one behind
  the other. They never return a negative number, so that the branches that report it are not there.\<close>

partial_function (option) num_test_loop :: "str \<Rightarrow> u32 \<Rightarrow> str option" where
  "num_test_loop buf i =
     (if i > 0 then do {
        (buf, index) \<leftarrow> hex_into_string buf 0 i;
        (buf, index) \<leftarrow> dec_into_string buf index i;
        num_test_loop buf (i + 1) }
      else Some buf)"

text \<open>The lines of the program up to the last one, "There was no error whatsoever".\<close>

definition num_into_string_main :: "str \<Rightarrow> str list option" where
  "num_into_string_main buf = do {
     (out, buf) \<leftarrow> test_lines num_cases buf;
     _ \<leftarrow> num_test_loop buf 0x10000000;
     Some out }"

section \<open>str_into_num-test.c\<close>

definition str_cases :: "(str \<times> (str \<Rightarrow> (int \<times> u32) option)) list" where
  "str_cases =
     (let str1 = [53, 0]; str2 = [65, 0]; str3 = [49, 50, 51, 52, 53, 54, 0]; str4 = [65, 66, 67, 49, 50, 51, 0];
          str5 = [45, 49, 50, 51, 0]; str6 = [48, 120, 65, 66, 67, 0]
      in [(str1, \<lambda>s. str_into_num s 0 10), (str2, \<lambda>s. str_into_num s 0 10), (str2, \<lambda>s. str_into_num s 0 16),
          (str3, \<lambda>s. str_into_num s 0 10), (str3, \<lambda>s. str_into_num s 0 16), (str4, \<lambda>s. str_into_num s 0 10),
          (str4, \<lambda>s. str_into_num s 0 16), (str4, \<lambda>s. str_into_num s 3 16), (str4, \<lambda>s. str_into_num s 2 16),
          (str1, \<lambda>s. str_into_dec s 0), (str2, \<lambda>s. str_into_dec s 0), (str2, \<lambda>s. str_into_hex s 0),
          (str3, \<lambda>s. str_into_dec s 0), (str3, \<lambda>s. str_into_hex s 0), (str4, \<lambda>s. str_into_dec s 0),
          (str4, \<lambda>s. str_into_hex s 0), (str4, \<lambda>s. str_into_hex s 3), (str4, \<lambda>s. str_into_hex s 2),
          (str5, \<lambda>s. str_into_dec s 0), (str6, \<lambda>s. str_into_hex s 0)])"

text \<open>The numbers that are printed, signed; what the conversion returns is not looked at.\<close>

definition str_into_num_main :: "int list option" where
  "str_into_num_main =
     foldr (\<lambda>(s, f) r. do { (_, num) \<leftarrow> f s; ns \<leftarrow> r; Some (sint num # ns) }) str_cases (Some [])"

section \<open>What they print\<close>

text \<open>The first program shows the four low bits of \<open>0x0F\<close> and flips every bit; the last line
  is that of a negative \<open>char\<close>.\<close>

lemma bit_check_prints: "bit_check_main = (map (\<lambda>i. (i, i < 4)) [0..<8], 0xFFFFFFF0)"
  by code_simp

text \<open>The third one: a string that is no number in the base gives 0, and a number of six
  hexadecimal digits and a decimal one differ as they should.\<close>

lemma str_into_num_prints:
  "str_into_num_main = Some [5, 0, 10, 123456, 0x123456, 0, 0xABC123, 0xABC, 0xAB,
     5, 0, 10, 123456, 0x123456, 0, 0xABC123, 0xABC, 0xAB, -123, 0xABC]"
  by code_simp

lemma length_numeral_text:
  assumes "b = 10 \<or> b = 16" "n < 2 ^ 32" shows "length (numeral_text b n) \<le> 10"
proof -
  obtain k where k: "leading b k n" using leading_exists [of b n] assms(1) by auto
  have "k \<le> 9"
  proof (rule ccontr)
    assume "\<not> k \<le> 9"
    then have "(10 :: nat) ^ 10 \<le> 10 ^ k" by (intro power_increasing) auto
    also have "\<dots> \<le> b ^ k" using assms(1) by (intro power_mono) auto
    also have "\<dots> \<le> n" using k \<open>\<not> k \<le> 9\<close> by (auto simp: leading_def)
    finally show False using assms(2) by simp
  qed
  then show ?thesis using k assms(1) by (auto simp: numeral_text_def length_digits_of)
qed

lemma length_texts: "length (dec_text num) \<le> 11" "length (numeral_text 16 (unat (num :: u32))) \<le> 10"
  using length_numeral_text [of 10 "unat (- num)"] length_numeral_text [of 10 "unat num"] length_numeral_text [of 16 "unat num"]
    unat_u32 [of num] unat_u32 [of "- num"] by (auto simp: dec_text_def)

text \<open>A line is the numeral of its number.\<close>

lemma zero_notin_texts: "0 \<notin> set (numeral_text b n)" if "2 \<le> b" "b \<le> 16"
proof -
  have "\<forall>d < 16. digit_char d \<noteq> 0" by code_simp
  then show ?thesis using digits_of_less [OF that(1), of n] that(2) by (fastforce simp: numeral_text_def)
qed

lemma strlen_end: "0 \<notin> set xs \<Longrightarrow> strlen (xs @ 0 # ys) = Some (length xs)"
  by (induction xs) auto

lemma test_line_eq:
  assumes "\<And>s i. f s i num = put_bytes s i t" "0 \<notin> set t" "t \<noteq> []" "length t < length buf"
  shows "\<exists>buf'. test_line f num buf = Some (t, buf') \<and> length buf' = length buf"
proof -
  have d: "drop (length t) buf = buf ! length t # drop (Suc (length t)) buf" using assms(4) by (simp add: Cons_nth_drop_Suc)
  have "nput (t @ drop (length t) buf) (length t) 0 = Some (t @ 0 # drop (Suc (length t)) buf)"
    unfolding d by (simp add: nput_def)
  then show ?thesis using assms strlen_end [OF assms(2)]
    by (auto simp: test_line_def put_bytes_eq c_string_def)
qed

lemma test_line_number:
  assumes "12 \<le> length buf"
  shows "\<exists>b. test_line dec_into_string num buf = Some (dec_text num, b) \<and> length b = length buf"
    and "\<exists>b. test_line hex_into_string num buf = Some (numeral_text 16 (unat num), b) \<and> length b = length buf"
proof -
  have n: "digits_of b n \<noteq> []" for b n by (subst digits_of.simps) simp
  show "\<exists>b. test_line dec_into_string num buf = Some (dec_text num, b) \<and> length b = length buf"
    using length_texts(1) [of num] assms zero_notin_texts [of 10] n
    by (intro test_line_eq dec_into_string_eq) (auto simp: dec_text_def numeral_text_def)
  show "\<exists>b. test_line hex_into_string num buf = Some (numeral_text 16 (unat num), b) \<and> length b = length buf"
    using length_texts(2) [of num] assms zero_notin_texts [of 16] n
    by (intro test_line_eq hex_into_string_eq) (auto simp: numeral_text_def)
qed

text \<open>The loop ends, whatever number it starts from: each of its rounds stays in the buffer.\<close>

lemma num_test_loop_ends:
  assumes "21 \<le> length buf" shows "\<exists>b. num_test_loop buf i = Some b"
  using assms
proof (induction "2 ^ 32 - unat i" arbitrary: i buf rule: less_induct)
  case less
  show ?case
  proof (cases "i = 0")
    case False
    let ?h = "numeral_text 16 (unat i)"
    let ?b = "?h @ drop (length ?h) buf"
    have h: "hex_into_string buf 0 i = Some (?b, length ?h)"
      using length_texts(2) [of i] less.prems by (simp add: hex_into_string_eq put_bytes_eq)
    obtain b j where b: "dec_into_string ?b (length ?h) i = Some (b, j)" "length b = length buf"
      using length_texts [of i] less.prems by (auto simp: dec_into_string_eq put_bytes_eq split: if_splits)
    have "\<exists>b'. num_test_loop b (i + 1) = Some b'"
    proof (cases "i + 1 = 0")
      case True
      then show ?thesis by (simp add: num_test_loop.simps [of b])
    next
      case ne: False
      then have "unat (i + 1) = unat i + 1" using unatSuc [of i] by (simp add: add.commute)
      then have "2 ^ 32 - unat (i + 1) < 2 ^ 32 - unat i" using unat_u32 [of i] by simp
      then show ?thesis using less.hyps [of "i + 1" b] b(2) less.prems by simp
    qed
    then show ?thesis using False h b(1) by (simp add: num_test_loop.simps [of buf] word_neq_0_conv)
  qed (simp add: num_test_loop.simps [of buf])
qed

lemma hex_not_dec [simp]: "hex_into_string \<noteq> dec_into_string"
proof
  assume "hex_into_string = dec_into_string"
  then have "hex_into_string [0, 0] 0 10 = dec_into_string [0, 0] 0 10" by simp
  then show False by code_simp
qed

lemma test_lines_eq:
  assumes "\<forall>(f, num) \<in> set cs. f = dec_into_string \<or> f = hex_into_string" "12 \<le> length buf"
  shows "\<exists>b. length b = length buf \<and>
    test_lines cs buf = Some (map (\<lambda>(f, num). if f = dec_into_string then dec_text num else numeral_text 16 (unat num)) cs, b)"
  using assms
proof (induction cs arbitrary: buf)
  case (Cons c cs)
  obtain f num where c: "c = (f, num)" by force
  from Cons.prems c consider "f = dec_into_string" | "f = hex_into_string" by auto
  then obtain b where b: "length b = length buf"
    "test_line f num buf = Some (if f = dec_into_string then dec_text num else numeral_text 16 (unat num), b)"
    using test_line_number [OF Cons.prems(2), of num] by cases auto
  then have "\<forall>(f, num) \<in> set cs. f = dec_into_string \<or> f = hex_into_string" "12 \<le> length b" using Cons.prems by auto
  from Cons.IH [OF this] b c show ?case by fastforce
qed simp

lemma num_texts:
  "dec_text (- 55) = map of_char ''-55''" "numeral_text 16 10 = map of_char ''A''" "numeral_text 16 160 = map of_char ''A0''"
  "numeral_text 16 2575 = map of_char ''A0F''" "numeral_text 16 16777216 = map of_char ''1000000''"
  "numeral_text 16 167772160 = map of_char ''A000000''" "numeral_text 16 1342177280 = map of_char ''50000000''"
  "numeral_text 16 2684354560 = map of_char ''A0000000''" "dec_text 0xF0000000 = map of_char ''-268435456''"
  "dec_text 0x70000000 = map of_char ''1879048192''" "numeral_text 16 4026531840 = map of_char ''F0000000''"
  by (simp_all add: dec_text_def numeral_text_def digits_of.simps digit_char_def digits_def word_sless_alt)

text \<open>C36. The test of the number routines ends, after almost four thousand million rounds that stay in the
  buffer, and reports no error; the lines that it shows for a person to read are the right numerals.\<close>

theorem number_test_passes:
  assumes "length buf = 100"
  shows "num_into_string_main buf = Some (map (map of_char)
    [''-55'', ''A'', ''A0'', ''A0F'', ''1000000'', ''A000000'', ''50000000'', ''A0000000'', ''-268435456'', ''1879048192'',
     ''F0000000''])"
proof -
  obtain b where b: "length b = length buf" "test_lines num_cases buf =
      Some (map (\<lambda>(f, num). if f = dec_into_string then dec_text num else numeral_text 16 (unat num)) num_cases, b)"
    using test_lines_eq [of num_cases buf] assms by (auto simp: num_cases_def)
  obtain b' where "num_test_loop b 0x10000000 = Some b'" using num_test_loop_ends [of b "0x10000000"] b(1) assms by auto
  with b(2) show ?thesis by (simp add: num_into_string_main_def num_cases_def num_texts del: list.map) (simp add: num_texts)
qed

lemma number_test_passes_witness:
  "num_into_string_main (replicate 100 0) = Some (map (map of_char)
    [''-55'', ''A'', ''A0'', ''A0F'', ''1000000'', ''A000000'', ''50000000'', ''A0000000'', ''-268435456'', ''1879048192'',
     ''F0000000''])"
  by (rule number_test_passes) simp

end
