(* ===== verification/Entry.thy ===== *)
theory Entry
  imports Cpu Panic
begin

text \<open>
  The assembly between the interrupted code and the C functions of the kernel: the macros of
  kernel/interrupt.mac, \<open>isr_syscall\<close> of kernel/isr.asm and the stubs of kernel/syscalls.asm. A piece of
  assembly is the list of its instructions, each a function on the state of the processor; memory is
  that of theory \<open>Cpu\<close>, so that the stack is where \<open>esp\<close> points. \<open>interrupt\<close> and \<open>iret\<close> are what the processor does.
  A \<open>call\<close> starts a C function with \<open>esp\<close> at its first argument; the return address that \<open>call\<close> pushes and
  \<open>ret\<close> pops is left out.
\<close>

section \<open>The processor\<close>

record ecpu = cpu +
  x_eip :: u32
  x_flags :: u32
  x_error_num :: u32 \<comment> \<open>the C variable \<open>error_num\<close>\<close>
  x_syscall_dir :: u32 \<comment> \<open>the variable of isr.asm\<close>

type_synonym asm = "ecpu \<Rightarrow> ecpu"

definition run_asm :: "asm list \<Rightarrow> asm" where
  "run_asm is c = fold (\<lambda>i. i) is c"

definition push :: "u32 \<Rightarrow> asm" where
  "push v c = c\<lparr>r_esp := r_esp c - 4, mem := wr32 (mem c) (r_esp c - 4) v\<rparr>"

definition top :: "ecpu \<Rightarrow> u32" where "top c = rd32 (mem c) (r_esp c)"

text \<open>The delivery of an interrupt through a gate to the code segment \<open>ksel\<close>: a new stack from the task state
  segment when the privilege changes, the state of the interrupted code, the error code if there is one.
  Interrupts are off then.\<close>

definition interrupt :: "u16 \<times> u32 \<Rightarrow> u32 option \<Rightarrow> u16 \<Rightarrow> asm" where
  "interrupt tss err ksel c =
     (let d = (if seg_cs c AND 3 = ksel AND 3 then c
               else push (r_esp c) (push (ucast (seg_ss c)) (c\<lparr>seg_ss := fst tss, r_esp := snd tss\<rparr>)));
          d = push (x_eip c) (push (ucast (seg_cs c)) (push (x_flags c) d));
          d = (case err of None \<Rightarrow> d | Some e \<Rightarrow> push e d)
      in d\<lparr>seg_cs := ksel, x_flags := x_flags c AND NOT 0x200\<rparr>)"

definition ins_iret :: asm where
  "ins_iret c =
     (let cs = ucast (rd32 (mem c) (r_esp c + 4));
          d = c\<lparr>x_eip := top c, seg_cs := cs, x_flags := rd32 (mem c) (r_esp c + 8), r_esp := r_esp c + 12\<rparr>
      in if cs AND 3 = seg_cs c AND 3 then d
         else d\<lparr>r_esp := top d, seg_ss := ucast (rd32 (mem d) (r_esp d + 4))\<rparr>)"

definition ins_cli :: asm where "ins_cli c = c\<lparr>x_flags := x_flags c AND NOT 0x200\<rparr>"
definition ins_sti :: asm where "ins_sti c = c\<lparr>x_flags := x_flags c OR 0x200\<rparr>"

text \<open>The instructions \<open>pushad\<close> and \<open>popad\<close>, unlike the functions of i386.h with these names, are each
  other's inverse.\<close>

definition ins_pushad :: asm where
  "ins_pushad c =
     fold push [r_eax c, r_ecx c, r_edx c, r_ebx c, r_esp c, r_ebp c, r_esi c, r_edi c] c"

definition ins_popad :: asm where
  "ins_popad c =
     (let w = (\<lambda>i. rd32 (mem c) (r_esp c + i))
      in c\<lparr>r_edi := w 0, r_esi := w 4, r_ebp := w 8, r_ebx := w 16, r_edx := w 20, r_ecx := w 24, r_eax := w 28,
           r_esp := r_esp c + 32\<rparr>)"

definition push_r :: "(ecpu \<Rightarrow> u32) \<Rightarrow> asm" where "push_r r c = push (r c) c"
definition push_s :: "(ecpu \<Rightarrow> u16) \<Rightarrow> asm" where "push_s r c = push (ucast (r c)) c"
definition push_esp :: "u32 \<Rightarrow> asm" where "push_esp i c = push (rd32 (mem c) (r_esp c + i)) c"
definition add_esp :: "u32 \<Rightarrow> asm" where "add_esp i c = c\<lparr>r_esp := r_esp c + i\<rparr>"
definition lea_eax :: "u32 \<Rightarrow> asm" where "lea_eax i c = c\<lparr>r_eax := r_esp c + i\<rparr>"
definition mov_error_num :: "u32 \<Rightarrow> asm" where "mov_error_num v c = c\<lparr>x_error_num := v\<rparr>"

section \<open>The entries of interrupts\<close>

definition PUSHAD_LEN :: u32 where "PUSHAD_LEN = 8 * 4"

definition isr_define_ep :: "asm \<Rightarrow> u32 \<Rightarrow> asm list" where
  "isr_define_ep f n =
     [ins_cli, ins_pushad, mov_error_num n, f, mov_error_num (-1), ins_popad, ins_sti, ins_iret]"

text \<open>\<open>f\<close> is the C function. The registers, behind what the processor has pushed, and a pointer to all of it.\<close>

definition push_registers :: "asm list" where
  "push_registers =
     [push_r r_eax, push_r r_ecx, push_r r_edx, push_r r_ebx, lea_eax (4 * 10 + PUSHAD_LEN), push_r r_eax,
      push_r r_ebp, push_r r_esi, push_r r_edi, push_s seg_ss, push_s seg_ds, push_s seg_es, push_s seg_fs, push_s seg_gs,
      push_r r_esp]"

text \<open>The first argument is the stack of the interrupted code: the one the processor saved if the privilege
  has changed, which \<open>bx\<close> and \<open>dx\<close> show, and else where this one was.\<close>

definition push_stack :: "u32 \<Rightarrow> u32 \<Rightarrow> asm" where
  "push_stack cs_at esp_at c =
     (let a = r_esp c + (4 * 20 + PUSHAD_LEN);
          b = rd32 (mem c) (a + cs_at);
          bx = ucast b AND (3 :: u16);
          dx = seg_cs c AND 3;
          c = c\<lparr>r_eax := a, r_ebx := (b AND 0xFFFF0000) OR ucast bx, r_edx := (r_edx c AND 0xFFFF0000) OR ucast dx\<rparr>
      in if dx = bx then push a c else push (rd32 (mem c) (a + esp_at)) c)"

definition enter_e :: "u32 \<Rightarrow> asm list" where
  "enter_e n =
     [ins_cli, ins_pushad, mov_error_num n] @ replicate 5 (push_esp (PUSHAD_LEN + 4 * 4)) @ [push 0x0E] @
     push_registers @ [push_stack 4 12]"

definition isr_dkp_e :: "asm \<Rightarrow> u32 \<Rightarrow> asm list" where
  "isr_dkp_e f n = enter_e n @ [f, add_esp (4 * 21), ins_popad, ins_sti, ins_iret]"

text \<open>With an error code.\<close>

definition enter_E :: "u32 \<Rightarrow> asm list" where
  "enter_E n =
     [ins_cli, ins_pushad, mov_error_num n] @ replicate 6 (push_esp (PUSHAD_LEN + 5 * 4)) @
     push_registers @ [push_stack 8 16]"

definition isr_dkp_E :: "asm \<Rightarrow> u32 \<Rightarrow> asm list" where
  "isr_dkp_E f n = enter_E n @ [f, add_esp (4 * 21), ins_popad, add_esp 4, ins_sti, ins_iret]"

definition isr_page_E :: "asm \<Rightarrow> u32 \<Rightarrow> asm list" where
  "isr_page_E f n = enter_E n @ [f, add_esp (4 * 21), ins_popad, add_esp 4, ins_sti, ins_iret]"

section \<open>System calls\<close>

text \<open>A call of a stub: the arguments are on the stack of the task, behind the return address.\<close>

definition sys_def :: "u32 \<Rightarrow> asm list" where
  "sys_def n =
     [\<lambda>c. c\<lparr>r_edx := rd32 (mem c) (r_esp c + 4)\<rparr>, \<lambda>c. c\<lparr>r_ecx := rd32 (mem c) (r_esp c + 8)\<rparr>,
      \<lambda>c. c\<lparr>r_ebx := rd32 (mem c) (r_esp c + 12)\<rparr>, \<lambda>c. c\<lparr>r_edi := rd32 (mem c) (r_esp c + 16)\<rparr>,
      \<lambda>c. c\<lparr>r_eax := n\<rparr>]"

definition fork_stub :: "asm list" where
  "fork_stub =
     [\<lambda>c. c\<lparr>r_edx := top c\<rparr>, \<lambda>c. c\<lparr>r_ecx := r_esp c\<rparr>, \<lambda>c. c\<lparr>r_ecx := r_ecx c + 4\<rparr>, \<lambda>c. c\<lparr>r_eax := 0x38\<rparr>]"

definition ret :: asm where "ret c = c\<lparr>x_eip := top c, r_esp := r_esp c + 4\<rparr>"

text \<open>The function whose address is in the table, \<open>kfn\<close>; its number is not compared with the length of the table.\<close>

definition enter_syscall :: "u32 \<Rightarrow> asm list" where
  "enter_syscall tbl =
     [ins_cli, push_r r_edi, push_r r_ebx, push_r r_ecx, push_r r_edx,
      \<lambda>c. c\<lparr>r_eax := tbl + r_eax c * 4\<rparr>, \<lambda>c. c\<lparr>r_eax := rd32 (mem c) (r_eax c)\<rparr>, \<lambda>c. c\<lparr>x_syscall_dir := r_eax c\<rparr>]"

definition isr_syscall_asm :: "u32 \<Rightarrow> (u32 \<Rightarrow> asm) \<Rightarrow> asm list" where
  "isr_syscall_asm tbl kfn =
     enter_syscall tbl @ [\<lambda>c. kfn (x_syscall_dir c) c] @
     [pop_reg EDX, pop_reg ECX, pop_reg EBX, pop_reg EDI, ins_iret]"

end
