(* ===== verification/Entry_Spec.thy ===== *)
theory Entry_Spec
  imports Entry
begin

text \<open>
  The entry code of interrupts, exceptions and system calls does what the C functions and the interrupted
  code rely on. The stack is looked at as the words from its top on, \<open>slot\<close>, and a piece of assembly is
  executed symbolically over them.
\<close>

section \<open>The stack\<close>

lemma run_asm_simps [simp]:
  "run_asm [] c = c" "run_asm (i # is) c = run_asm is (i c)" "run_asm (is @ js) c = run_asm js (run_asm is c)"
  by (simp_all add: run_asm_def)

lemma slot_move: "s - a - b = s - (a + b)" "s - a + b = s - (a - b)" for s a b :: u32
  by simp_all

lemmas slot_simps = slot_move [of _ "numeral a" "numeral b" for a b]

text \<open>The words of the stack, from the top.\<close>

definition slot :: "nat \<Rightarrow> ecpu \<Rightarrow> u32" where
  "slot i c = rd32 (mem c) (r_esp c + 4 * of_nat i)"

lemma push_simps [simp]:
  "r_esp (push v c) = r_esp c - 4" "r_eax (push v c) = r_eax c" "r_ecx (push v c) = r_ecx c" "r_edx (push v c) = r_edx c"
  "r_ebx (push v c) = r_ebx c" "r_ebp (push v c) = r_ebp c" "r_esi (push v c) = r_esi c" "r_edi (push v c) = r_edi c"
  "seg_cs (push v c) = seg_cs c" "seg_ss (push v c) = seg_ss c" "seg_ds (push v c) = seg_ds c" "seg_es (push v c) = seg_es c"
  "seg_fs (push v c) = seg_fs c" "seg_gs (push v c) = seg_gs c" "x_eip (push v c) = x_eip c" "x_flags (push v c) = x_flags c"
  "x_error_num (push v c) = x_error_num c" "x_syscall_dir (push v c) = x_syscall_dir c"
  by (simp_all add: push_def)

lemma slot_push_0 [simp]: "slot 0 (push v c) = v"
  by (simp add: slot_def push_def)

lemma neg_between:
  assumes "4 \<le> x" "x \<le> - 4" shows "4 \<le> - x" "- x \<le> (- 4 :: u32)"
proof -
  have x: "4 \<le> uint x" "uint x \<le> 4294967292" using assms by (simp_all add: word_le_def)
  then have "uint (- x) = 4294967296 - uint x" by (simp add: uint_word_ariths zmod_zminus1_eq_if)
  then show "4 \<le> - x" "- x \<le> - 4" using x by (simp_all add: word_le_def)
qed

lemma slot_push_Suc: "i < 2 ^ 20 \<Longrightarrow> slot (Suc i) (push v c) = slot i c"
proof -
  assume i: "i < 2 ^ 20"
  let ?k = "of_nat i :: u32"
  have "unat (4 * ?k + 4) = 4 * i + 4" using i by (simp add: unat_word_ariths unat_of_nat)
  then have "4 \<le> 4 * ?k + 4" "4 * ?k + 4 \<le> - 4" using i by (simp_all add: word_le_nat_alt)
  from neg_between [OF this] have "rd32 (wr32 (mem c) (r_esp c - 4) v) (r_esp c + 4 * ?k) = rd32 (mem c) (r_esp c + 4 * ?k)"
    by (intro rd32_wr32_apart) (simp_all add: algebra_simps)
  then show ?thesis by (simp add: slot_def push_def algebra_simps)
qed

lemma slot_push [simp]:
  "slot (Suc 0) (push v c) = slot 0 c" "numeral k < (2 ^ 20 :: nat) \<Longrightarrow> slot (numeral k) (push v c) = slot (pred_numeral k) c"
proof -
  show "slot (Suc 0) (push v c) = slot 0 c" using slot_push_Suc [of 0 v c] by simp
  assume "numeral k < (2 ^ 20 :: nat)"
  then have "pred_numeral k < 2 ^ 20" by (simp only: numeral_eq_Suc [of k])
  from slot_push_Suc [OF this, of v c] show "slot (numeral k) (push v c) = slot (pred_numeral k) c"
    by (simp only: numeral_eq_Suc [of k])
qed

lemma slot_upd [simp]:
  "slot i (c\<lparr>r_eax := v\<rparr>) = slot i c" "slot i (c\<lparr>r_ecx := v\<rparr>) = slot i c" "slot i (c\<lparr>r_edx := v\<rparr>) = slot i c"
  "slot i (c\<lparr>r_ebx := v\<rparr>) = slot i c" "slot i (c\<lparr>r_edi := v\<rparr>) = slot i c" "slot i (c\<lparr>seg_cs := s\<rparr>) = slot i c"
  "slot i (c\<lparr>x_flags := v\<rparr>) = slot i c" "slot i (c\<lparr>x_error_num := v\<rparr>) = slot i c" "slot i (c\<lparr>x_syscall_dir := v\<rparr>) = slot i c"
  by (simp_all add: slot_def)

lemma add_esp_simps [simp]:
  "r_esp (add_esp v c) = r_esp c + v" "seg_cs (add_esp v c) = seg_cs c" "seg_ss (add_esp v c) = seg_ss c"
  "r_eax (add_esp v c) = r_eax c" "r_ecx (add_esp v c) = r_ecx c" "r_edx (add_esp v c) = r_edx c" "r_ebx (add_esp v c) = r_ebx c"
  "x_error_num (add_esp v c) = x_error_num c" "r_ebp (add_esp v c) = r_ebp c" "r_esi (add_esp v c) = r_esi c" "r_edi (add_esp v c) = r_edi c" "x_flags (add_esp v c) = x_flags c"
  "slot i (add_esp 84 c) = slot (i + 21) c" "slot i (add_esp 4 c) = slot (i + 1) c"
  by (simp_all add: add_esp_def slot_def algebra_simps)

lemma ins_popad_simps [simp]:
  "r_edi (ins_popad c) = slot 0 c" "r_esi (ins_popad c) = slot 1 c" "r_ebp (ins_popad c) = slot 2 c" "r_ebx (ins_popad c) = slot 4 c"
  "r_edx (ins_popad c) = slot 5 c" "r_ecx (ins_popad c) = slot 6 c" "r_eax (ins_popad c) = slot 7 c"
  "r_esp (ins_popad c) = r_esp c + 32" "seg_cs (ins_popad c) = seg_cs c" "seg_ss (ins_popad c) = seg_ss c"
  "x_error_num (ins_popad c) = x_error_num c" "slot i (ins_popad c) = slot (i + 8) c"
  by (simp_all add: ins_popad_def slot_def Let_def algebra_simps)

lemma ins_iret_simps [simp]:
  "x_eip (ins_iret c) = slot 0 c" "seg_cs (ins_iret c) = ucast (slot 1 c)" "x_flags (ins_iret c) = slot 2 c"
  "r_esp (ins_iret c) = (if ucast (slot 1 c) AND 3 = seg_cs c AND 3 then r_esp c + 12 else slot 3 c)"
  "seg_ss (ins_iret c) = (if ucast (slot 1 c) AND 3 = seg_cs c AND 3 then seg_ss c else ucast (slot 4 c))"
  "r_eax (ins_iret c) = r_eax c" "r_ecx (ins_iret c) = r_ecx c" "r_edx (ins_iret c) = r_edx c" "r_ebx (ins_iret c) = r_ebx c"
  "x_error_num (ins_iret c) = x_error_num c" "mem (ins_iret c) = mem c" "r_ebp (ins_iret c) = r_ebp c" "r_esi (ins_iret c) = r_esi c" "r_edi (ins_iret c) = r_edi c"
  by (simp_all add: ins_iret_def slot_def top_def Let_def algebra_simps)

lemma ins_pushad_eq:
  "ins_pushad c = push (r_edi c) (push (r_esi c) (push (r_ebp c) (push (r_esp c) (push (r_ebx c) (push (r_edx c)
     (push (r_ecx c) (push (r_eax c) c)))))))"
  by (simp add: ins_pushad_def)

lemma push_esp_eq: "push_esp 48 c = push (slot 12 c) c" "push_esp 52 c = push (slot 13 c) c"
  by (simp_all add: push_esp_def slot_def)

lemma push_stack_eq:
  "push_stack 4 12 c = (let c' = c\<lparr>r_eax := r_esp c + 112, r_ebx := (slot 29 c AND 0xFFFF0000) OR ucast (ucast (slot 29 c) AND (3 :: u16)),
     r_edx := (r_edx c AND 0xFFFF0000) OR ucast (seg_cs c AND 3)\<rparr> in
     push (if seg_cs c AND 3 = ucast (slot 29 c) AND 3 then r_esp c + 112 else slot 31 c) c')"
  "push_stack 8 16 c = (let c' = c\<lparr>r_eax := r_esp c + 112, r_ebx := (slot 30 c AND 0xFFFF0000) OR ucast (ucast (slot 30 c) AND (3 :: u16)),
     r_edx := (r_edx c AND 0xFFFF0000) OR ucast (seg_cs c AND 3)\<rparr> in
     push (if seg_cs c AND 3 = ucast (slot 30 c) AND 3 then r_esp c + 112 else slot 32 c) c')"
  by (simp_all add: push_stack_def slot_def Let_def PUSHAD_LEN_def algebra_simps)

definition exp_state_at :: "ecpu \<Rightarrow> nat \<Rightarrow> exp_state" where
  "exp_state_at c i =
     \<lparr>es_gs = slot i c, es_fs = slot (i + 1) c, es_es = slot (i + 2) c, es_ds = slot (i + 3) c, es_ss = slot (i + 4) c,
      es_edi = slot (i + 5) c, es_esi = slot (i + 6) c, es_ebp = slot (i + 7) c, es_esp = slot (i + 8) c,
      es_ebx = slot (i + 9) c, es_edx = slot (i + 10) c, es_ecx = slot (i + 11) c, es_eax = slot (i + 12) c,
      errcode = slot (i + 13) c, org_eip = slot (i + 14) c, org_cs = slot (i + 15) c, es_eflags = slot (i + 16) c,
      org_esp = slot (i + 17) c, org_ss = slot (i + 18) c\<rparr>"

lemma replicates: "replicate 5 x = [x, x, x, x, x]" "replicate 6 x = [x, x, x, x, x, x]"
  by (simp_all add: eval_nat_numeral)

lemmas entry_simps = ins_cli_def ins_sti_def ins_pushad_eq mov_error_num_def push_registers_def push_r_def push_s_def lea_eax_def
  push_esp_eq push_stack_eq replicates Let_def PUSHAD_LEN_def

lemma enter_E_effect:
  assumes "d = run_asm (enter_E n) c"
  shows "map (\<lambda>i. slot i d) [0,1,2,3,4,5,6,7,8,9,10,11,12,13,14,15,16,17,18,19,20,21,22,23,24,25,26,27,28,29,30,31,32,33,34] =
      [if seg_cs c AND 3 = ucast (slot 2 c) AND 3 then r_esp c else slot 4 c, r_esp d + 8,
       ucast (seg_gs c), ucast (seg_fs c), ucast (seg_es c), ucast (seg_ds c), ucast (seg_ss c), r_edi c, r_esi c, r_ebp c,
       r_esp c, r_ebx c, r_edx c, r_ecx c, r_eax c, slot 0 c, slot 1 c, slot 2 c, slot 3 c, slot 4 c, slot 5 c,
       r_edi c, r_esi c, r_ebp c, r_esp c, r_ebx c, r_edx c, r_ecx c, r_eax c,
       slot 0 c, slot 1 c, slot 2 c, slot 3 c, slot 4 c, slot 5 c]"
    and "r_esp d = r_esp c - 116" "seg_cs d = seg_cs c" "seg_ss d = seg_ss c" "x_error_num d = n"
  unfolding assms enter_E_def by (simp_all add: entry_simps)

lemma enter_e_effect:
  assumes "d = run_asm (enter_e n) c"
  shows "map (\<lambda>i. slot i d) [0,1,2,3,4,5,6,7,8,9,10,11,12,13,14,15,16,17,18,19,20,21,22,23,24,25,26,27,28,29,30,31,32,33] =
      [if seg_cs c AND 3 = ucast (slot 1 c) AND 3 then r_esp c else slot 3 c, r_esp d + 8,
       ucast (seg_gs c), ucast (seg_fs c), ucast (seg_es c), ucast (seg_ds c), ucast (seg_ss c), r_edi c, r_esi c, r_ebp c,
       r_esp c, r_ebx c, r_edx c, r_ecx c, r_eax c, 0x0E, slot 0 c, slot 1 c, slot 2 c, slot 3 c, slot 4 c,
       r_edi c, r_esi c, r_ebp c, r_esp c, r_ebx c, r_edx c, r_ecx c, r_eax c, slot 0 c, slot 1 c, slot 2 c, slot 3 c, slot 4 c]"
    and "r_esp d = r_esp c - 116" "seg_cs d = seg_cs c" "seg_ss d = seg_ss c" "x_error_num d = n"
  unfolding assms enter_e_def by (simp_all add: entry_simps)

text \<open>The words that the processor pushes.\<close>

lemma ucast_back: "ucast (ucast s :: u32) = s" for s :: u16
  by (rule bit_word_eqI) (simp add: bit_simps)

abbreviation same_level :: "u16 \<Rightarrow> u16 \<Rightarrow> bool" where "same_level s s' \<equiv> s AND 3 = s' AND 3"

lemma interrupt_effect:
  "d = interrupt tss err ksel c \<Longrightarrow> r_eax d = r_eax c \<and> r_ecx d = r_ecx c \<and> r_edx d = r_edx c \<and> r_ebx d = r_ebx c \<and>
     r_ebp d = r_ebp c \<and> r_esi d = r_esi c \<and> r_edi d = r_edi c \<and> seg_cs d = ksel \<and>
     seg_ds d = seg_ds c \<and> seg_es d = seg_es c \<and> seg_fs d = seg_fs c \<and> seg_gs d = seg_gs c"
  "d = interrupt tss (Some e) ksel c \<Longrightarrow> map (\<lambda>i. slot i d) [0, 1, 2, 3, 4, 5] =
     [e, x_eip c, ucast (seg_cs c), x_flags c] @ (if same_level (seg_cs c) ksel then [slot 0 c, slot 1 c] else [r_esp c, ucast (seg_ss c)])"
  "d = interrupt tss None ksel c \<Longrightarrow> map (\<lambda>i. slot i d) [0, 1, 2, 3, 4] =
     [x_eip c, ucast (seg_cs c), x_flags c] @ (if same_level (seg_cs c) ksel then [slot 0 c, slot 1 c] else [r_esp c, ucast (seg_ss c)])"
  "d = interrupt tss err ksel c \<Longrightarrow> r_esp d = (if same_level (seg_cs c) ksel then r_esp c - 12 else snd tss - 20) -
     (if err = None then 0 else 4) \<and> seg_ss d = (if same_level (seg_cs c) ksel then seg_ss c else fst tss)"
  by (simp_all add: interrupt_def Let_def split: option.splits)

text \<open>What a C function that is called from here promises: the stack pointer is where it was, and the
  words behind its \<open>n\<close> arguments are as they were.\<close>

definition keeps_stack :: "nat \<Rightarrow> asm \<Rightarrow> ecpu \<Rightarrow> bool" where
  "keeps_stack n f c \<longleftrightarrow> r_esp (f c) = r_esp c \<and> seg_cs (f c) = seg_cs c \<and> seg_ss (f c) = seg_ss c \<and>
     (\<forall>i < 64. n \<le> i \<longrightarrow> slot i (f c) = slot i c)"

text \<open>The interrupted code does not notice.\<close>

definition resumed :: "ecpu \<Rightarrow> ecpu \<Rightarrow> bool" where
  "resumed c c' \<longleftrightarrow> r_eax c' = r_eax c \<and> r_ecx c' = r_ecx c \<and> r_edx c' = r_edx c \<and> r_ebx c' = r_ebx c \<and> r_esp c' = r_esp c \<and>
     r_ebp c' = r_ebp c \<and> r_esi c' = r_esi c \<and> r_edi c' = r_edi c \<and> x_eip c' = x_eip c \<and> seg_cs c' = seg_cs c \<and>
     seg_ss c' = seg_ss c \<and> x_flags c' = x_flags c"

lemma keeps_slots: "keeps_stack n f c \<Longrightarrow> \<forall>i \<in> I. n \<le> i \<and> i < 64 \<Longrightarrow> \<forall>i \<in> I. slot i (f c) = slot i c"
  by (auto simp: keeps_stack_def)

lemma leave_E:
  assumes "c1 = interrupt tss (Some e) ksel c" "d = run_asm (enter_E n) c1" "keeps_stack 2 f d"
  shows "resumed c (run_asm [f, add_esp (4 * 21), ins_popad, add_esp 4, ins_sti, ins_iret] d)"
  using interrupt_effect(1,2,4) [OF assms(1)] enter_E_effect [OF assms(2)] assms(3) [unfolded keeps_stack_def]
    keeps_slots [OF assms(3), of "{21, 22, 23, 25, 26, 27, 28, 30, 31, 32, 33, 34}"]
  by (simp add: resumed_def ins_sti_def ucast_back split: if_splits)

lemma leave_e:
  assumes "c1 = interrupt tss None ksel c" "d = run_asm (enter_e n) c1" "keeps_stack 2 f d"
  shows "resumed c (run_asm [f, add_esp (4 * 21), ins_popad, ins_sti, ins_iret] d)"
  using interrupt_effect(1,3,4) [OF assms(1)] enter_e_effect [OF assms(2)] assms(3) [unfolded keeps_stack_def]
    keeps_slots [OF assms(3), of "{21, 22, 23, 25, 26, 27, 28, 29, 30, 31, 32, 33}"]
  by (simp add: resumed_def ins_sti_def ucast_back split: if_splits)

text \<open>The record that an exception without an error code shows has the constant \<open>0x0E\<close> in its place.\<close>

definition state_of :: "ecpu \<Rightarrow> u32 \<Rightarrow> u16 \<Rightarrow> u32 \<Rightarrow> u32 \<times> u32 \<Rightarrow> exp_state" where
  "state_of c esp ss e org =
     \<lparr>es_gs = ucast (seg_gs c), es_fs = ucast (seg_fs c), es_es = ucast (seg_es c), es_ds = ucast (seg_ds c), es_ss = ucast ss,
      es_edi = r_edi c, es_esi = r_esi c, es_ebp = r_ebp c, es_esp = esp, es_ebx = r_ebx c, es_edx = r_edx c, es_ecx = r_ecx c,
      es_eax = r_eax c, errcode = e, org_eip = x_eip c, org_cs = ucast (seg_cs c), es_eflags = x_flags c,
      org_esp = fst org, org_ss = snd org\<rparr>"

lemma exception_entry:
  assumes "c1 = interrupt tss None ksel c" "d = run_asm (enter_e n) c1"
  shows "slot 1 d = r_esp d + 8 \<and> x_error_num d = n \<and>
    exp_state_at d 2 = state_of c (r_esp c1) (seg_ss c1) 14
      (if same_level (seg_cs c) ksel then (slot 0 c, slot 1 c) else (r_esp c, ucast (seg_ss c))) \<and>
    slot 0 d = (if same_level (seg_cs c) ksel then r_esp c1 else r_esp c) \<and>
    (keeps_stack 2 f d \<longrightarrow> resumed c (run_asm (isr_dkp_e f n) c1))"
  using interrupt_effect(1,3,4) [OF assms(1)] enter_e_effect [OF assms(2)] leave_e [OF assms, of f]
  by (simp add: exp_state_at_def state_of_def isr_dkp_e_def assms(2) ucast_back and.commute [of 3] split: if_splits)

text \<open>C17. The entry of the page fault. Whatever the processor was doing and in whichever ring, the C function is
  called with a pointer to a record of the state at the fault, which has every register, the error code
  and the address of the instruction, and with the stack pointer of the code that faulted. If the
  function keeps the stack above its two arguments, the code goes on with all of its registers, its flags and its stack.\<close>

theorem page_fault_entry:
  assumes "c1 = interrupt tss (Some e) ksel c" "d = run_asm (enter_E n) c1" "keeps_stack 2 f d"
  shows "slot 1 d = r_esp d + 8 \<and> x_error_num d = n \<and>
    exp_state_at d 2 = state_of c (r_esp c1) (seg_ss c1) e
      (if same_level (seg_cs c) ksel then (slot 0 c, slot 1 c) else (r_esp c, ucast (seg_ss c))) \<and>
    slot 0 d = (if same_level (seg_cs c) ksel then r_esp c1 else r_esp c) \<and>
    resumed c (run_asm (isr_page_E f n) c1)"
  using interrupt_effect(1,2,4) [OF assms(1)] enter_E_effect [OF assms(2)] leave_E [OF assms]
  by (simp add: exp_state_at_def state_of_def isr_page_E_def assms(2) ucast_back and.commute [of 3] split: if_splits)

text \<open>A task of ring 3 with a code selector 0x1B, and a handler that uses \<open>eax\<close>.\<close>

definition user_cpu :: ecpu where
  "user_cpu =
     \<lparr>r_eax = 1, r_ecx = 2, r_edx = 3, r_ebx = 4, r_esp = 0x401000, r_ebp = 6, r_esi = 7, r_edi = 8,
      seg_cs = 0x1B, seg_es = 0x23, seg_ds = 0x23, seg_fs = 0x23, seg_gs = 0x23, seg_ss = 0x23,
      c_cr0 = 0x80000001, c_cr1 = 0, c_cr2 = 0, c_cr3 = 0x100000, c_cr4 = 0, c_tr = 0x28, c_idtr = 0, c_tsc = 0, c_halted = False,
      tlb = [], mem = \<lambda>_. 0, port_out = [], port_in = [], x_eip = 0x400100, x_flags = 0x202, x_error_num = 0, x_syscall_dir = 0\<rparr>"

theorem page_fault_entry_witness:
  "let c1 = interrupt (0x10, 0x200000) (Some 6) 8 user_cpu; d = run_asm (enter_E 14) c1; f = (\<lambda>c. c\<lparr>r_eax := 99\<rparr>) in
   org_eip (exp_state_at d 2) = 0x400100 \<and> errcode (exp_state_at d 2) = 6 \<and> slot 0 d = 0x401000 \<and>
   resumed user_cpu (run_asm (isr_page_E f 14) c1)"
proof -
  let ?c1 = "interrupt (0x10, 0x200000) (Some 6) 8 user_cpu" and ?f = "\<lambda>c. c\<lparr>r_eax := 99\<rparr>"
  let ?d = "run_asm (enter_E 14) ?c1"
  have "keeps_stack 2 ?f ?d" by (simp add: keeps_stack_def)
  from page_fault_entry [OF refl refl this] show ?thesis
    by (simp add: state_of_def user_cpu_def Let_def)
qed

section \<open>Interrupts and system calls\<close>

lemma enter_ep_effect:
  assumes "d = run_asm [ins_cli, ins_pushad, mov_error_num n] c"
  shows "map (\<lambda>i. slot i d) [0, 1, 2, 3, 4, 5, 6, 7, 8, 9, 10, 11, 12] =
      [r_edi c, r_esi c, r_ebp c, r_esp c, r_ebx c, r_edx c, r_ecx c, r_eax c, slot 0 c, slot 1 c, slot 2 c, slot 3 c, slot 4 c]"
    and "r_esp d = r_esp c - 32" "seg_cs d = seg_cs c" "seg_ss d = seg_ss c"
  unfolding assms by (simp_all add: entry_simps)

lemma interrupt_entry:
  assumes "c1 = interrupt tss None ksel c" "d = run_asm [ins_cli, ins_pushad, mov_error_num n] c1" "keeps_stack 0 f d"
  shows "resumed c (run_asm (isr_define_ep f n) c1) \<and> x_error_num (run_asm (isr_define_ep f n) c1) = - 1"
proof -
  have "run_asm (isr_define_ep f n) c1 = run_asm [mov_error_num (-1), ins_popad, ins_sti, ins_iret] (f d)"
    by (simp add: isr_define_ep_def assms(2))
  then show ?thesis
    using interrupt_effect(1,3,4) [OF assms(1)] enter_ep_effect [OF assms(2)] assms(3) [unfolded keeps_stack_def]
      keeps_slots [OF assms(3), of "{0, 1, 2, 4, 5, 6, 7, 8, 9, 10, 11, 12}"]
    by (simp add: resumed_def ins_sti_def mov_error_num_def ucast_back split: if_splits)
qed

text \<open>The entry of the page fault leaves its number in \<open>error_num\<close>, where the other ones put -1.\<close>

lemma page_fault_leaves_number:
  "x_error_num (run_asm (isr_page_E f n) c) = x_error_num (f (run_asm (enter_E n) c))"
  by (simp add: isr_page_E_def ins_sti_def)

lemma pops:
  "let p = pop_reg EDI (pop_reg EBX (pop_reg ECX (pop_reg EDX c))) in
     r_edx p = slot 0 c \<and> r_ecx p = slot 1 c \<and> r_ebx p = slot 2 c \<and> r_edi p = slot 3 c \<and> r_esp p = r_esp c + 16 \<and>
     slot i p = slot (i + 4) c \<and> mem p = mem c \<and> r_eax p = r_eax c \<and> r_ebp p = r_ebp c \<and> r_esi p = r_esi c \<and>
     seg_cs p = seg_cs c \<and> seg_ss p = seg_ss c"
  by (simp add: pop_reg_def slot_def Let_def algebra_simps)

lemma stub_effect:
  "u = run_asm (sys_def n) c \<Longrightarrow> r_edx u = slot 1 c \<and> r_ecx u = slot 2 c \<and> r_ebx u = slot 3 c \<and> r_edi u = slot 4 c \<and> r_eax u = n \<and>
     r_esp u = r_esp c \<and> mem u = mem c \<and> seg_cs u = seg_cs c \<and> seg_ss u = seg_ss c \<and> x_eip u = x_eip c"
  by (simp add: sys_def_def slot_def)

text \<open>The stub of \<open>fork\<close> passes the address after the call, where the child starts, and the stack of the caller.\<close>

lemma fork_stub_effect:
  "u = run_asm fork_stub c \<Longrightarrow> r_edx u = slot 0 c \<and> r_ecx u = r_esp c + 4 \<and> r_eax u = 0x38 \<and> r_esp u = r_esp c"
  by (simp add: fork_stub_def slot_def top_def)

text \<open>A word outside of the nine that the entry of a system call puts on the stack of the kernel.\<close>

definition off_stack :: "u32 \<Rightarrow> u32 \<Rightarrow> bool" where
  "off_stack s a \<longleftrightarrow> (\<forall>i \<in> {4, 8, 12, 16, 20, 24, 28, 32, 36}. 4 \<le> s - i - a \<and> s - i - a \<le> - 4)"

lemma enter_syscall_effect:
  assumes "c1 = interrupt tss None ksel c" "d = run_asm (enter_syscall tbl) c1" "\<not> same_level (seg_cs c) ksel"
    and "off_stack (snd tss) (tbl + r_eax c * 4)"
  shows "map (\<lambda>i. slot i d) [0, 1, 2, 3, 4, 5, 6, 7, 8] =
      [r_edx c, r_ecx c, r_ebx c, r_edi c, x_eip c, ucast (seg_cs c), x_flags c, r_esp c, ucast (seg_ss c)]"
    and "seg_cs d = ksel" "x_syscall_dir d = rd32 (mem c) (tbl + r_eax c * 4)"
    and "off_stack (snd tss) a \<Longrightarrow> rd32 (mem d) a = rd32 (mem c) a"
proof -
  note i = interrupt_effect(1,3,4) [OF assms(1)]
  have m: "rd32 (mem d) a = rd32 (mem c) a" if "off_stack (snd tss) a" for a
    using that assms(3) unfolding assms(1,2) off_stack_def
    by (simp add: enter_syscall_def interrupt_def push_r_def push_def ins_cli_def Let_def slot_simps rd32_wr32_apart)
  show "map (\<lambda>i. slot i d) [0, 1, 2, 3, 4, 5, 6, 7, 8] =
      [r_edx c, r_ecx c, r_ebx c, r_edi c, x_eip c, ucast (seg_cs c), x_flags c, r_esp c, ucast (seg_ss c)]" "seg_cs d = ksel"
    using i assms(3) unfolding assms(2) by (simp_all add: enter_syscall_def push_r_def ins_cli_def)
  show "x_syscall_dir d = rd32 (mem c) (tbl + r_eax c * 4)"
    using m [OF assms(4)] i unfolding assms(2) by (simp add: enter_syscall_def push_r_def ins_cli_def push_def)
  show "off_stack (snd tss) a \<Longrightarrow> rd32 (mem d) a = rd32 (mem c) a" by (rule m)
qed

text \<open>C16. A system call. A task calls a stub with its arguments on the stack: the kernel calls the function that
  the table has under the number, with the four words behind the return address as its arguments, and
  the task gets the result of the function and goes on behind the call, on its own stack. Two registers that a C
  function has to preserve, \<open>ebx\<close> and \<open>edi\<close>, come back with the third and the fourth argument.\<close>

theorem syscall_passes_arguments:
  assumes "u = run_asm (sys_def n) c" "c1 = interrupt tss None ksel u" "d = run_asm (enter_syscall tbl) c1"
    and "\<not> same_level (seg_cs c) ksel" "off_stack (snd tss) (tbl + n * 4)" "off_stack (snd tss) (r_esp c)"
    and "keeps_stack 4 (kfn (rd32 (mem c) (tbl + n * 4))) d"
    and "rd32 (mem (kfn (rd32 (mem c) (tbl + n * 4)) d)) (r_esp c) = rd32 (mem d) (r_esp c)"
  defines "f \<equiv> kfn (rd32 (mem c) (tbl + n * 4))" and "c' \<equiv> ret (run_asm (isr_syscall_asm tbl kfn) c1)"
  shows "[slot 0 d, slot 1 d, slot 2 d, slot 3 d] = [slot 1 c, slot 2 c, slot 3 c, slot 4 c] \<and>
    r_eax c' = r_eax (f d) \<and> x_eip c' = slot 0 c \<and> r_esp c' = r_esp c + 4 \<and> seg_cs c' = seg_cs c \<and> seg_ss c' = seg_ss c \<and>
    r_ebp c' = r_ebp (f d) \<and> r_esi c' = r_esi (f d) \<and>
    (keeps_stack 0 f d \<longrightarrow> r_ebx c' = slot 3 c \<and> r_edi c' = slot 4 c)"
proof -
  note u = stub_effect [OF assms(1)]
  have "\<not> same_level (seg_cs u) ksel" "off_stack (snd tss) (tbl + r_eax u * 4)" using u assms(4,5) by simp_all
  note d = enter_syscall_effect [OF assms(2,3) this]
  have r: "rd32 (mem d) (r_esp c) = slot 0 c" using d(4) [OF assms(6)] u by (simp add: slot_def)
  let ?p = "pop_reg EDI (pop_reg EBX (pop_reg ECX (pop_reg EDX (f d))))"
  have c': "c' = ret (ins_iret ?p)" using d(3) u by (simp add: c'_def isr_syscall_asm_def f_def assms(3))
  note k = assms(7) [folded f_def]
  have "\<forall>j \<in> {4, 5, 6, 7, 8}. slot j (f d) = slot j d" by (rule keeps_slots [OF k]) simp
  moreover have "slot 2 (f d) = slot 2 d \<and> slot 3 (f d) = slot 3 d" if "keeps_stack 0 f d" using keeps_slots [OF that, of "{2, 3}"] by simp
  ultimately show ?thesis
    using d(1,2) u k [unfolded keeps_stack_def] r assms(4) assms(8) [folded f_def] pops [of "f d"]
    unfolding c' by (auto simp: ret_def top_def ucast_back Let_def)
qed

text \<open>A third argument of 9 comes back in \<open>ebx\<close>, which held 4.\<close>

theorem syscall_passes_arguments_witness:
  "let c = user_cpu\<lparr>mem := wr32 (\<lambda>_. 0) 0x40100C 9\<rparr>; u = run_asm (sys_def 0x33) c; c1 = interrupt (0x10, 0x200000) None 8 u;
       c' = ret (run_asm (isr_syscall_asm 0x110000 (\<lambda>_ c. c\<lparr>r_eax := 42\<rparr>)) c1)
   in r_eax c' = 42 \<and> r_ebx c = 4 \<and> r_ebx c' = 9 \<and> r_esp c' = 0x401004"
proof -
  let ?c = "user_cpu\<lparr>mem := wr32 (\<lambda>_. 0) 0x40100C 9\<rparr>"
  let ?c1 = "interrupt (0x10, 0x200000) None 8 (run_asm (sys_def 0x33) ?c)" and ?kfn = "\<lambda>_ c. c\<lparr>r_eax := 42\<rparr>"
  let ?d = "run_asm (enter_syscall 0x110000) ?c1"
  have l: "\<not> same_level (seg_cs ?c) 8" by (simp add: user_cpu_def)
  have o: "off_stack (snd (0x10, 0x200000)) (0x110000 + 0x33 * 4)" "off_stack (snd (0x10, 0x200000)) (r_esp ?c)"
    by (simp_all add: off_stack_def user_cpu_def)
  have k: "keeps_stack n (?kfn x) ?d" for n and x :: u32 by (simp add: keeps_stack_def)
  have m: "rd32 (mem (?kfn (x :: u32) ?d)) (r_esp ?c) = rd32 (mem ?d) (r_esp ?c)" for x by simp
  have s: "slot 3 ?c = 9" "r_esp ?c = 0x401000" "r_ebx ?c = 4" by (simp_all add: slot_def user_cpu_def)
  from syscall_passes_arguments [where kfn = ?kfn, OF refl refl refl l o k m] k [of 0] s show ?thesis by (simp add: Let_def)
qed

end
