(* ===== verification/Spec2Isabelle.thy ===== *)
theory Spec2Isabelle
  imports Sched_Test Pids Mem_Props Load_Process Console_Ring Console_Screen Descriptors Fat12_Spec Boot_Spec
    Drivers_Spec Panic_Spec Shell Cpu System User_Spec Lib_Test Entry_Spec
begin

text \<open>
  The kernel under \<open>src/tp1/src/\<close>, an operating system of a university course: C with a little
  assembly, for a 32 bit x86 processor. It has a round-robin scheduler, processes with fork, demand
  paging and copy on write, semaphores, pipes, consoles, a serial port, a floppy driver with a FAT12
  file system, and a handful of user programs.

  \<^bold>\<open>How the program is modelled.\<close> Integers are words of their width. Every array is accessed through a
  checked operation (theory \<open>Prelude\<close>), and an operation of the kernel is a function into \<open>option\<close>:
  None is an access outside an array, through a null pointer, to an object of another type, a division
  by zero, or a loop that never ends, all of which C leaves undefined. "The operation returns Some" is
  therefore the statement that it is safe, and several properties say that it is None. The state is one
  record that grows along the dependencies of the components: \<open>kern\<close> (scheduler and tasks), \<open>mmk\<close> (physical
  memory, frame bitmaps), \<open>faultk\<close>, \<open>iok\<close> (ports, flags), \<open>devk\<close> (descriptors, device structures), \<open>conk\<close>, \<open>cpuk\<close>
  (descriptor tables, control registers), \<open>serialk\<close>, \<open>timerk\<close>, \<open>fddk\<close>, \<open>fsk\<close>, \<open>panick\<close>. A function takes the smallest
  state it needs, with whatever extends it. The structures of devices are a map of their own (\<open>objs\<close>, from the
  address to the structure), apart from the bytes of \<open>ram\<close>: a structure is there from the call that makes it until
  its page is given back. Where the code would go on with a page that it has freed, the model has no result; a
  store over the bytes of a structure, or a structure found in a page that \<open>mm_mem_kalloc\<close> does not clear, is not
  seen. A call that blocks the task ends there, with the point at
  which it waits; another definition continues it after the wake-up (\<open>con_read_rest\<close>, \<open>pipe_resume\<close>).

  \<^bold>\<open>Theories and sources\<close> (\<open>kernel/\<close> and \<open>include/\<close>).

  \<^item> \<open>Prelude\<close>: words, checked arrays, the loop \<open>for_range\<close>, chains. \<open>Ring\<close>: circular doubly linked lists, with the locale
    \<open>ring_store\<close> for any store of links, interpreted on the run queue, the wait queues and the consoles.
    \<open>Pool\<close>: the locale \<open>resource_pool\<close>, interpreted on the pids and the two kinds of page frames.
  \<^item> \<open>Sched\<close>, \<open>Sched_Spec\<close>, \<open>Sched_Test\<close>: sched.c and scheduler_test.c. The table of tasks refines an abstract run
    queue (\<open>sched_run_refines\<close>); the locale \<open>round_robin\<close> gives each task its turn.
  \<^item> \<open>Loader\<close>, \<open>Loader_Spec\<close>, \<open>Pids\<close>, \<open>Process\<close>: loader.c, loader_switch.asm. Wait queues and run queue together refine
    abstract queues; pids are never shared; \<open>loader_load\<close>, \<open>sys_fork\<close> and the context switch.
  \<^item> \<open>Spaces\<close>, \<open>Fork_Process\<close>, \<open>Load_Process\<close>: the address spaces of all processes at once, and the composition of memory, pids,
    descriptors and run queue in \<open>sys_fork\<close> and \<open>loader_load\<close>: what the new task gets, that the others keep theirs, and
    which frames are written. Fork shares the frames of the parent, copy on write, where mm.h speaks of a copy.
  \<^item> \<open>Sem\<close>: sem.c, with the locale \<open>fifo_semaphore\<close>: places are granted in the order of arrival.
  \<^item> \<open>Mem\<close>, \<open>Frames\<close>, \<open>Paging\<close>, \<open>Paging_Spec\<close>, \<open>Cow\<close>, \<open>Fork\<close>, \<open>Fault\<close>, \<open>Mem_Props\<close>: mm.c. Physical memory is a function from addresses to
    bytes, and page tables are read from it as the processor does. \<open>dir_wf\<close> is the invariant of a page
    directory; the properties say what mapping, reserving, faulting, forking and copying on write do to
    the translation of every address. \<open>Fault\<close> uses the guard of \<open>debug_kernelpanic\<close> alone.
  \<^item> \<open>Lib_Str\<close>, \<open>Lib_Str_Spec\<close>, \<open>Lib_Printf\<close>: lib_str.c and lib_printf.c, with textbook numerals as the reference.
  \<^item> \<open>Io\<close>, \<open>Cpu\<close>: the inline assembly of i386.h. \<open>Io\<close> is the part that the kernel model uses.
  \<^item> \<open>Entry\<close>, \<open>Entry_Spec\<close>: the assembly between the interrupted code and the C functions, interrupt.mac, isr.asm and
    syscalls.asm, instruction by instruction on the processor of \<open>Cpu\<close>, with its stack in memory.
  \<^item> \<open>Vga\<close>, \<open>Console\<close>, \<open>Console_Spec\<close>, \<open>Console_Ring\<close>, \<open>Console_Screen\<close>: vga.c and con.c. The keyboard buffer is a bounded queue; the
    ring of open consoles refines an abstract list of consoles with their numbers of descriptors, whatever is
    opened, closed and switched to (\<open>con_run\<close>, an inductive relation); a write stays on the screen.
  \<^item> \<open>Device\<close>, \<open>Device_Spec\<close>, \<open>Descriptors\<close>, \<open>Files\<close>: device.c, fs.c, proc.c, the end of a task. Reference counts agree with the
    descriptor tables, and a structure goes with its last descriptor (\<open>descriptors_counted\<close>).
  \<^item> \<open>Pipe\<close>, \<open>Pipe_Spec\<close>, \<open>Pipe_Wait\<close>: pipe.c, a queue of bytes, and the tasks that wait for it.
  \<^item> \<open>Tables\<close>, \<open>Tables_Spec\<close>, \<open>Timer\<close>, \<open>Serial\<close>, \<open>Dma\<close>, \<open>Fdd\<close>, \<open>Fat12\<close>, \<open>Drivers_Spec\<close>, \<open>Fat12_Spec\<close>: gdt.c, tss.c, idt.c, pic.c, pit.c, serial.c, dma.c,
    fdd.c, fat12.c. \<open>Tables_Spec\<close> also has the concrete kernel state that many examples start from.
  \<^item> \<open>Boot\<close>, \<open>Boot_Spec\<close>: kernel.c and the start of the memory manager.
  \<^item> \<open>Panic\<close>, \<open>Panic_Spec\<close>: the panic screen of debug.c. \<open>Report\<close>: dumps that only log, and the stubs fat16.c and hdd.c.
  \<^item> \<open>Shell\<close>: the two shells, tasks/console.c and tasks/task2.c.
  \<^item> \<open>User\<close>, \<open>User_Spec\<close>: the other programs of tasks/, each the tree of its system calls (\<open>prog\<close>, a codatatype: some
    never end), and what they ask of the kernel whatever it answers.
  \<^item> \<open>System\<close>, \<open>Dev_Types\<close>: the programs over the kernel. \<open>sys_step\<close> is a system call, the end of a wait, an access to
    memory with its page fault, or an interrupt. \<open>typed\<close> says that the function pointers of every
    device structure are those of its kind; every operation of the kernel keeps it, so that it holds in every
    state the system reaches, and no call through a descriptor treats a structure as one of another kind
    (\<open>system_typed\<close>).
  \<^item> \<open>Lib_Test\<close>: the host programs of tests/, which print results of lib_str.c.

  \<^bold>\<open>What is an argument.\<close> Addresses that the linker chooses (routines, global structures, the table of user
  programs); the bytes that devices answer on their ports (\<open>inp\<close>) and that the floppy controller transfers
  (\<open>dma_in\<close>); the amount of memory installed (\<open>mem_top\<close>); what the rest of the system does while the floppy
  driver waits (\<open>rest_of\<close>); the contents of uninitialised variables; the programs that are in the files of the
  disk (\<open>program_in\<close>). \<open>system_typed\<close> asks of \<open>rest_of\<close> that what it does is a run of the system itself (\<open>rest_runs\<close>).

  \<^bold>\<open>Loops.\<close> A loop with a counter is \<open>for_range\<close> or structural recursion, and needs no fuel. A loop that waits
  for a device, or whose end depends on data, is a \<open>partial_function (option)\<close>; that it ends is then part of
  what a property states (\<open>memory_detect_counts\<close>, \<open>find_function_name_closest\<close>, \<open>sem_broadcast_releases_all\<close>,
  \<open>number_text_roundtrip\<close>). The properties about runs quantify over every finite sequence of operations.

  \<^bold>\<open>Not modelled.\<close> The boot loader and the switch to protected mode, which are real mode assembly. The kernel model
  and the processor of \<open>Cpu\<close> and \<open>Entry\<close> are two states: registers other than the stack pointer and \<open>cr3\<close> are not part of
  a task in the former, and \<open>Entry_Spec\<close> shows that the entry code keeps them for it. Calls of \<open>printf\<close> that only
  log the progress of a function whose effect is elsewhere; the functions that do nothing but print are in \<open>Report\<close>. The translation cache, except in \<open>Cpu\<close>. Interrupts happen
  between operations, not inside one: the kernel runs with interrupts off, except where it waits.
  The keyboard handler reads the scan code into the low byte of a register whose high byte the inline assembly
  leaves open; it is taken as 0.
\<close>

end
